(* ===== verification/Prelude.thy ===== *)
theory Prelude
  imports
    Main
    "HOL-Library.Word"
    "HOL-Library.AList"
    "HOL-Library.Sublist"
    "HOL-Library.Char_ord"
    "HOL-Library.List_Lexorder"
begin

text \<open>
  Shared vocabulary of the development: results with an error side and the combinators for
  Rust's \<open>?\<close> operator and its \<open>for\<close> loops, unsigned 64-bit integers with saturating
  addition, strings as UTF-8 byte lists with the standard-library functions the code calls,
  hash maps (partial functions, and association lists where the code iterates), and bounded
  double-ended queues.
\<close>

named_theorems result_simps \<open>equations of the result combinators\<close>
named_theorems string_defs \<open>definitions of the byte-string predicates\<close>

section \<open>Results\<close>

text \<open>\<open>Result<T, E>\<close> is the sum \<open>'e + 'a\<close>: \<open>Inl\<close> is \<open>Err\<close>, \<open>Inr\<close> is \<open>Ok\<close>.\<close>

type_synonym ('e, 'a) result = "'e + 'a"

definition and_then :: "('e, 'a) result \<Rightarrow> ('a \<Rightarrow> ('e, 'b) result) \<Rightarrow> ('e, 'b) result" where
  "and_then r f = (case r of Inl e \<Rightarrow> Inl e | Inr x \<Rightarrow> f x)"

lemma and_then_simps [simp, result_simps]:
  "and_then (Inl e) f = Inl e" "and_then (Inr x) f = f x"
  by (simp_all add: and_then_def)

lemma and_then_eq_Inr [result_simps]:
  "and_then r f = Inr y \<longleftrightarrow> (\<exists>x. r = Inr x \<and> f x = Inr y)"
  by (cases r) auto

lemma and_then_eq_Inl:
  "and_then r f = Inl e \<longleftrightarrow> r = Inl e \<or> (\<exists>x. r = Inr x \<and> f x = Inl e)"
  by (cases r) auto

text \<open>\<open>ensure b e\<close> is \<open>if !b { return Err(e) }\<close>.\<close>

definition ensure :: "bool \<Rightarrow> 'e \<Rightarrow> ('e, unit) result" where
  "ensure b e = (if b then Inr () else Inl e)"

lemma ensure_simps [simp, result_simps]:
  "ensure True e = Inr ()" "ensure False e = Inl e"
  by (simp_all add: ensure_def)

lemma ensure_eq_Inr [simp, result_simps]: "ensure b e = Inr u \<longleftrightarrow> b"
  by (simp add: ensure_def)

lemma ensure_eq_Inl [simp]: "ensure b e = Inl e' \<longleftrightarrow> \<not> b \<and> e' = e"
  by (auto simp: ensure_def)

text \<open>\<open>opt.ok_or(e)\<close>.\<close>

definition ok_or :: "'a option \<Rightarrow> 'e \<Rightarrow> ('e, 'a) result" where
  "ok_or x e = (case x of None \<Rightarrow> Inl e | Some y \<Rightarrow> Inr y)"

lemma ok_or_simps [simp, result_simps]: "ok_or None e = Inl e" "ok_or (Some y) e = Inr y"
  by (simp_all add: ok_or_def)

lemma ok_or_eq_Inr [simp, result_simps]: "ok_or x e = Inr y \<longleftrightarrow> x = Some y"
  by (cases x) auto

lemma ok_or_eq_Inl [simp]: "ok_or x e = Inl e' \<longleftrightarrow> x = None \<and> e' = e"
  by (cases x) auto

text \<open>\<open>if let Some(x) = v { check(x)?; }\<close>\<close>

definition optional_check :: "('a \<Rightarrow> (string, unit) result) \<Rightarrow> 'a option \<Rightarrow> (string, unit) result" where
  "optional_check check x = (case x of None \<Rightarrow> Inr () | Some y \<Rightarrow> check y)"

lemma optional_check_iff:
  "optional_check check v = Inr u \<longleftrightarrow> (\<forall>x. v = Some x \<longrightarrow> check x = Inr ())"
  by (cases v) (simp_all add: optional_check_def)

text \<open>\<open>for x in xs { f(x)?; }\<close> stops at the first error.\<close>

fun for_each :: "('a \<Rightarrow> ('e, unit) result) \<Rightarrow> 'a list \<Rightarrow> ('e, unit) result" where
  "for_each f [] = Inr ()"
| "for_each f (x # xs) = and_then (f x) (\<lambda>_. for_each f xs)"

lemma for_each_eq_Inr [simp, result_simps]:
  "for_each f xs = Inr u \<longleftrightarrow> (\<forall>x \<in> set xs. f x = Inr ())"
  by (induction xs) (auto simp: and_then_eq_Inr)

text \<open>The same loop over a mutable accumulator.\<close>

fun fold_result :: "('a \<Rightarrow> 's \<Rightarrow> ('e, 's) result) \<Rightarrow> 'a list \<Rightarrow> 's \<Rightarrow> ('e, 's) result" where
  "fold_result f [] s = Inr s"
| "fold_result f (x # xs) s = and_then (f x s) (fold_result f xs)"

lemma fold_result_append:
  "fold_result f (xs @ ys) s = and_then (fold_result f xs s) (fold_result f ys)"
  by (induction xs arbitrary: s) (auto simp: and_then_def split: sum.splits)

text \<open>The loop recurses through a function argument; its congruence rule for \<open>fun\<close>.\<close>

lemma for_each_cong [fundef_cong]:
  assumes "xs = ys" and "\<And>x. x \<in> set ys \<Longrightarrow> f x = g x"
  shows "for_each f xs = for_each g ys"
  using assms(2) unfolding assms(1) by (induction ys) (auto simp: and_then_def split: sum.splits)

text \<open>
  A loop that checks every element and refuses a repeated key, with a \<open>HashSet\<close> of the keys
  seen as its accumulator.
\<close>

lemma fold_result_unique:
  assumes step: "\<And>x s t. f x s = Inr t \<longleftrightarrow> P x \<and> key x \<notin> s \<and> t = insert (key x) s"
  shows "fold_result f xs s = Inr t \<longleftrightarrow>
    (\<forall>x \<in> set xs. P x) \<and> distinct (map key xs) \<and> key ` set xs \<inter> s = {} \<and>
    t = key ` set xs \<union> s"
  by (induction xs arbitrary: s) (auto simp: and_then_eq_Inr step)

section \<open>Unsigned 64-bit integers\<close>

type_synonym u64 = "64 word"

text \<open>\<open>Uuid\<close>.\<close>

type_synonym uuid = "128 word"

definition u64_max :: u64 where
  "u64_max = 18446744073709551615"

definition saturating_add :: "u64 \<Rightarrow> u64 \<Rightarrow> u64" where
  "saturating_add a b = (if unat a + unat b < 2 ^ 64 then a + b else u64_max)"

definition saturating_sub :: "u64 \<Rightarrow> u64 \<Rightarrow> u64" where
  "saturating_sub a b = (if b \<le> a then a - b else 0)"

lemma unat_u64_max: "unat u64_max = 2 ^ 64 - 1"
  by (simp add: u64_max_def)

lemma unat_u64_less [simp]: "unat (a :: u64) < 18446744073709551616"
  using unsigned_less [of a] by simp

lemma unat_saturating_add: "unat (saturating_add a b) = min (unat a + unat b) (2 ^ 64 - 1)"
proof (cases "unat a + unat b < 2 ^ 64")
  case True
  then show ?thesis
    by (simp add: saturating_add_def unat_word_ariths)
next
  case False
  then show ?thesis
    by (simp add: saturating_add_def unat_u64_max)
qed

lemma saturating_add_ge: "a \<le> saturating_add a b"
  by (simp add: word_le_nat_alt unat_saturating_add) (use unat_u64_less [of a] in linarith)

lemma saturating_add_less:
  assumes "unat a < 2 ^ 64 - 1"
  shows "a < saturating_add a 1"
  using assms by (simp add: word_less_nat_alt unat_saturating_add)

lemma unat_saturating_sub: "unat (saturating_sub a b) = unat a - unat b"
  by (auto simp: saturating_sub_def unat_sub word_le_nat_alt)

text \<open>
  The order of the values handed out by a saturating counter: strictly increasing until the
  counter saturates, constant from then on.
\<close>

definition seq_before :: "u64 \<Rightarrow> u64 \<Rightarrow> bool" where
  "seq_before a b \<longleftrightarrow> a < b \<or> a = u64_max \<and> b = u64_max"

lemma le_u64_max [simp]: "a \<le> u64_max"
proof -
  have "unat u64_max = 18446744073709551615" by (simp add: unat_u64_max)
  with unat_u64_less [of a] show ?thesis unfolding word_le_nat_alt by linarith
qed

lemma seq_before_saturating_add [simp, intro]: "seq_before a (saturating_add a 1)"
proof (cases "a = u64_max")
  case True
  have "saturating_add u64_max 1 = u64_max"
    by (simp add: saturating_add_def unat_u64_max)
  with True show ?thesis by (simp add: seq_before_def)
next
  case False
  with le_u64_max [of a] have "a < u64_max" by (simp add: order_less_le)
  then have "unat a < 2 ^ 64 - 1" by (simp add: word_less_nat_alt unat_u64_max)
  then show ?thesis by (simp add: seq_before_def saturating_add_less)
qed

lemma seq_before_trans [trans]: "seq_before a b \<Longrightarrow> seq_before b c \<Longrightarrow> seq_before a c"
  using le_u64_max [of c] by (auto simp: seq_before_def)

lemma transp_seq_before: "transp seq_before"
  by (rule transpI) (rule seq_before_trans)

text \<open>
  A counter \<open>n\<close> and the values \<open>xs\<close> handed out so far: the values are in order and
  each one is before the next value to come.
\<close>

definition issued :: "u64 list \<Rightarrow> u64 \<Rightarrow> bool" where
  "issued xs n \<longleftrightarrow> sorted_wrt seq_before xs \<and> (\<forall>x \<in> set xs. seq_before x n)"

lemma issued_Nil [simp]: "issued [] n"
  by (simp add: issued_def)

lemma issued_next: "issued xs n \<Longrightarrow> issued (xs @ [n]) (saturating_add n 1)"
  by (auto simp: issued_def sorted_wrt_append intro: seq_before_trans)

lemma issued_drop: "issued xs n \<Longrightarrow> issued (drop k xs) n"
  by (auto simp: issued_def sorted_wrt_drop dest: in_set_dropD)

lemma issued_appendD: "issued (xs @ ys) n \<Longrightarrow> issued xs n \<and> issued ys n"
  by (auto simp: issued_def sorted_wrt_append)

lemma issued_append_drop: "issued (xs @ ys) n \<Longrightarrow> issued (xs @ drop k ys) n"
  by (auto simp: issued_def sorted_wrt_append sorted_wrt_drop dest: in_set_dropD)

lemma issued_sorted: "issued xs n \<Longrightarrow> sorted_wrt seq_before xs"
  by (simp add: issued_def)

section \<open>Strings\<close>

text \<open>
  A Rust \<open>String\<close> is its UTF-8 bytes, a HOL \<open>string\<close>: \<open>len()\<close> is \<open>length\<close>,
  \<open>bytes()\<close> is the list itself, \<open>cmp\<close> is the lexicographic byte order. \<open>utf8_chars\<close>
  splits a string into the byte groups of its characters, for the functions that work on
  \<open>chars()\<close>.
\<close>

abbreviation byte :: "char \<Rightarrow> nat" where
  "byte c \<equiv> of_char c"

definition is_ascii_digit :: "char \<Rightarrow> bool" where
  [string_defs]: "is_ascii_digit c \<longleftrightarrow> 48 \<le> byte c \<and> byte c \<le> 57"

definition is_ascii_alphabetic :: "char \<Rightarrow> bool" where
  [string_defs]: "is_ascii_alphabetic c \<longleftrightarrow>
     65 \<le> byte c \<and> byte c \<le> 90 \<or> 97 \<le> byte c \<and> byte c \<le> 122"

definition is_ascii_alphanumeric :: "char \<Rightarrow> bool" where
  [string_defs]: "is_ascii_alphanumeric c \<longleftrightarrow> is_ascii_alphabetic c \<or> is_ascii_digit c"

definition ascii_lower :: "char \<Rightarrow> char" where
  [string_defs]: "ascii_lower c =
     (if 65 \<le> byte c \<and> byte c \<le> 90 then char_of (byte c + 32 :: nat) else c)"

definition to_ascii_lowercase :: "string \<Rightarrow> string" where
  [string_defs]: "to_ascii_lowercase = map ascii_lower"

definition utf8_len :: "char \<Rightarrow> nat" where
  "utf8_len c = (if byte c < 128 then 1 else if byte c < 224 then 2
     else if byte c < 240 then 3 else 4)"

fun utf8_chars :: "string \<Rightarrow> string list" where
  "utf8_chars [] = []"
| "utf8_chars (c # cs) =
     (c # take (utf8_len c - 1) cs) # utf8_chars (drop (utf8_len c - 1) cs)"

lemma concat_utf8_chars [simp]: "concat (utf8_chars s) = s"
  by (induction s rule: utf8_chars.induct) simp_all

text \<open>\<open>char::is_control\<close>: the C0 controls, DEL and the C1 controls.\<close>

definition is_control :: "string \<Rightarrow> bool" where
  [string_defs]: "is_control ch \<longleftrightarrow> (case map byte ch of
      [n] \<Rightarrow> n < 32 \<or> n = 127
    | [m, n] \<Rightarrow> m = 194 \<and> 128 \<le> n \<and> n < 160
    | _ \<Rightarrow> False)"

text \<open>\<open>char::is_whitespace\<close>: the characters with Unicode's White\_Space property.\<close>

definition is_whitespace :: "string \<Rightarrow> bool" where
  [string_defs]: "is_whitespace ch \<longleftrightarrow> (case map byte ch of
      [n] \<Rightarrow> 9 \<le> n \<and> n \<le> 13 \<or> n = 32
    | [m, n] \<Rightarrow> m = 194 \<and> (n = 133 \<or> n = 160)
    | [m, n, k] \<Rightarrow> m = 225 \<and> n = 154 \<and> k = 128
        \<or> m = 226 \<and> n = 128 \<and> (128 \<le> k \<and> k \<le> 138 \<or> k = 168 \<or> k = 169 \<or> k = 175)
        \<or> m = 226 \<and> n = 129 \<and> k = 159
        \<or> m = 227 \<and> n = 128 \<and> k = 128
    | _ \<Rightarrow> False)"

definition trim :: "string \<Rightarrow> string" where
  "trim s = concat (rev (dropWhile is_whitespace (rev (dropWhile is_whitespace (utf8_chars s)))))"

definition any_control :: "string \<Rightarrow> bool" where
  [string_defs]: "any_control s \<longleftrightarrow> (\<exists>ch \<in> set (utf8_chars s). is_control ch)"

definition starts_with :: "string \<Rightarrow> string \<Rightarrow> bool" where
  [string_defs]: "starts_with s p \<longleftrightarrow> prefix p s"

definition ends_with :: "string \<Rightarrow> string \<Rightarrow> bool" where
  [string_defs]: "ends_with s p \<longleftrightarrow> suffix p s"

definition str_contains :: "string \<Rightarrow> string \<Rightarrow> bool" where
  [string_defs]: "str_contains s p \<longleftrightarrow> sublist p s"

lemma ascii_lower_idem [simp]: "ascii_lower (ascii_lower c) = ascii_lower c"
  by (simp add: ascii_lower_def)

lemma to_ascii_lowercase_idem [simp]:
  "to_ascii_lowercase (to_ascii_lowercase s) = to_ascii_lowercase s"
  by (simp add: to_ascii_lowercase_def)

section \<open>Decimal numbers\<close>

text \<open>\<open>format!("{n}")\<close> for an unsigned integer.\<close>

definition digit_char :: "nat \<Rightarrow> char" where
  "digit_char d = char_of (48 + d)"

fun show_nat :: "nat \<Rightarrow> string" where
  "show_nat n =
     (if n < 10 then [digit_char n] else show_nat (n div 10) @ [digit_char (n mod 10)])"

declare show_nat.simps [simp del]

definition read_nat :: "string \<Rightarrow> nat" where
  "read_nat s = foldl (\<lambda>v c. v * 10 + (byte c - 48)) 0 s"

lemma digit_char_value: "d < 10 \<Longrightarrow> byte (digit_char d) - 48 = d"
  by (simp add: digit_char_def)

lemma read_show_nat [simp]: "read_nat (show_nat n) = n"
proof (induction n rule: show_nat.induct)
  case (1 n)
  show ?case
  proof (cases "n < 10")
    case True
    then show ?thesis
      by (subst show_nat.simps) (simp add: read_nat_def digit_char_value)
  next
    case False
    with 1 have "read_nat (show_nat (n div 10)) = n div 10" by simp
    with False show ?thesis
      by (subst show_nat.simps) (simp add: read_nat_def digit_char_value)
  qed
qed

lemma show_nat_inj [simp]: "show_nat m = show_nat n \<longleftrightarrow> m = n"
  by (metis read_show_nat)

lemma show_nat_digits: "b \<in> set (show_nat n) \<Longrightarrow> is_ascii_digit b"
proof (induction n rule: show_nat.induct)
  case (1 n)
  have "is_ascii_digit (digit_char d)" if "d < 10" for d
    using that by (simp add: is_ascii_digit_def digit_char_def)
  with 1 show ?case
    by (subst (asm) (2) show_nat.simps) (auto split: if_splits)
qed

section \<open>Hexadecimal digits, lines, replacement\<close>

definition hex_digit :: "nat \<Rightarrow> char" where
  "hex_digit n = (if n < 10 then char_of (48 + n) else char_of (87 + n))"

definition hex_byte :: "char \<Rightarrow> string" where
  "hex_byte b = [hex_digit (byte b div 16), hex_digit (byte b mod 16)]"

definition hex :: "string \<Rightarrow> string" where
  "hex bytes = concat (map hex_byte bytes)"

lemma byte_hex_digit: "k < 16 \<Longrightarrow> byte (hex_digit k) = (if k < 10 then 48 + k else 87 + k)"
  by (auto simp: hex_digit_def)

lemma hex_digit_inj:
  assumes "m < 16" and "n < 16"
  shows "hex_digit m = hex_digit n \<longleftrightarrow> m = n"
proof
  assume "hex_digit m = hex_digit n"
  then have "byte (hex_digit m) = (byte (hex_digit n) :: nat)" by (rule arg_cong)
  then have "(if m < 10 then 48 + m else 87 + m) = (if n < 10 then 48 + n else 87 + n)"
    by (simp only: byte_hex_digit[OF assms(1)] byte_hex_digit[OF assms(2)])
  then show "m = n" by (simp split: if_splits)
qed simp

lemma hex_byte_inj: "hex_byte a = hex_byte b \<longleftrightarrow> a = b"
proof
  assume eq: "hex_byte a = hex_byte b"
  have bounds: "byte c div 16 < (16 :: nat)" "byte c mod 16 < (16 :: nat)" for c :: char
    by (simp_all add: div_less_iff_less_mult)
  have "byte a div 16 = (byte b div 16 :: nat)" "byte a mod 16 = (byte b mod 16 :: nat)"
    using eq hex_digit_inj bounds by (simp_all add: hex_byte_def)
  then have "byte a = (byte b :: nat)" by (metis div_mult_mod_eq)
  then show "a = b" by simp
qed simp

lemma hex_inj: "hex a = hex b \<longleftrightarrow> a = b"
proof (induction a arbitrary: b)
  case Nil
  show ?case by (cases b) (simp_all add: hex_def hex_byte_def)
next
  case (Cons x a)
  show ?case
  proof (cases b)
    case (Cons y b')
    have "hex (x # a) = hex (y # b') \<longleftrightarrow> hex_byte x = hex_byte y \<and> hex a = hex b'"
      by (auto simp: hex_def hex_byte_def)
    with Cons Cons.IH[of b'] show ?thesis by (simp add: hex_byte_inj)
  qed (simp add: hex_def hex_byte_def)
qed

definition newline :: char where "newline = CHR 0x0A"

text \<open>A line break ends a text that has none.\<close>

lemma line_eq:
  assumes "newline \<notin> set a" and "newline \<notin> set b"
  shows "a @ newline # x = b @ newline # y \<longleftrightarrow> a = b \<and> x = y"
  using assms
proof (induction a arbitrary: b)
  case Nil
  then show ?case by (cases b) auto
next
  case (Cons c a)
  then show ?case by (cases b) auto
qed

lemma show_nat_line: "newline \<notin> set (show_nat n)"
  using show_nat_digits[of newline n] by (auto simp: is_ascii_digit_def newline_def)

text \<open>\<open>str::replace\<close> for a pattern that is not empty.\<close>

fun str_replace :: "string \<Rightarrow> string \<Rightarrow> string \<Rightarrow> string" where
  "str_replace p r [] = []"
| "str_replace p r (c # s) =
     (if p \<noteq> [] \<and> prefix p (c # s) then r @ str_replace p r (drop (length p) (c # s))
      else c # str_replace p r s)"

section \<open>Bounded queues\<close>

text \<open>\<open>while q.len() > n { q.pop_front(); }\<close>\<close>

function truncate_front :: "nat \<Rightarrow> 'a list \<Rightarrow> 'a list" where
  "truncate_front n xs = (if n < length xs then truncate_front n (tl xs) else xs)"
  by pat_completeness auto
termination
  by (relation "measure (\<lambda>(n, xs). length xs)") auto

declare truncate_front.simps [simp del]

lemma truncate_front_drop: "truncate_front n xs = drop (length xs - n) xs"
proof (induction n xs rule: truncate_front.induct)
  case (1 n xs)
  show ?case
  proof (cases "n < length xs")
    case True
    then obtain y ys where xs: "xs = y # ys" by (cases xs) auto
    with True have "length xs - n = Suc (length ys - n)" by simp
    with True xs "1.IH" show ?thesis
      by (simp add: truncate_front.simps [of n "y # ys"])
  qed (simp add: truncate_front.simps [of n xs])
qed

lemma length_truncate_front [simp]: "length (truncate_front n xs) = min n (length xs)"
  by (auto simp: truncate_front_drop)

lemma set_truncate_front: "set (truncate_front n xs) \<subseteq> set xs"
  by (simp add: truncate_front_drop set_drop_subset)

lemma truncate_front_id: "length xs \<le> n \<Longrightarrow> truncate_front n xs = xs"
  by (simp add: truncate_front_drop)

section \<open>Finite maps\<close>

text \<open>How many keys of a map have a value with property \<open>P\<close>.\<close>

definition count_values :: "('v \<Rightarrow> bool) \<Rightarrow> ('k \<rightharpoonup> 'v) \<Rightarrow> nat" where
  "count_values P m = card {k. \<exists>v. m k = Some v \<and> P v}"

lemma count_values_empty [simp]: "count_values P Map.empty = 0"
  by (simp add: count_values_def)

lemma finite_count_values: "finite (dom m) \<Longrightarrow> finite {k. \<exists>v. m k = Some v \<and> P v}"
  by (rule finite_subset [of _ "dom m"]) auto

lemma count_values_remove:
  assumes "finite (dom m)" and "m k = Some v"
  shows "count_values P m = (if P v then 1 else 0) + count_values P (m(k := None))"
proof -
  let ?A = "{k. \<exists>v. m k = Some v \<and> P v}"
  have A: "{k'. \<exists>v. (m(k := None)) k' = Some v \<and> P v} = ?A - {k}" by auto
  have fin: "finite ?A" using assms(1) by (rule finite_count_values)
  have k: "k \<in> ?A \<longleftrightarrow> P v" using assms(2) by simp
  show ?thesis
  proof (cases "P v")
    case True
    with k have "card ?A = Suc (card (?A - {k}))"
      by (intro card.remove fin) simp
    with True show ?thesis unfolding count_values_def A by simp
  next
    case False
    with k have "?A - {k} = ?A" by auto
    with False show ?thesis unfolding count_values_def A by simp
  qed
qed

lemma count_values_insert:
  assumes "finite (dom m)"
  shows "count_values P (m(k \<mapsto> v)) = (if P v then 1 else 0) + count_values P (m(k := None))"
  using count_values_remove [of "m(k \<mapsto> v)" k v P] assms by simp

lemma count_values_cong_key:
  assumes "finite (dom m)" and "m k = Some v" and "P w = P v"
  shows "count_values P (m(k \<mapsto> w)) = count_values P m"
  using assms by (simp add: count_values_insert count_values_remove)

lemma fun_upd_None_same: "m k = None \<Longrightarrow> m(k := None) = m"
  by auto

section \<open>Association lists as hash maps that are iterated\<close>

lemma map_of_update [simp]: "map_of (AList.update k v m) = (map_of m)(k \<mapsto> v)"
  by (rule update_conv')

lemma map_of_delete [simp]: "map_of (AList.delete k m) = (map_of m)(k := None)"
  by (simp add: AList.delete_conv')

lemma distinct_keys_update: "distinct (map fst m) \<Longrightarrow> distinct (map fst (AList.update k v m))"
  by (rule AList.distinct_update)

section \<open>Sorting by a key\<close>

lemma sorted_wrt_sort_key:
  assumes "distinct (map f xs)"
  shows "sorted_wrt (\<lambda>x y. f x < f y) (sort_key f xs)"
proof -
  have "sorted (map f (sort_key f xs))" by simp
  moreover have "distinct (map f (sort_key f xs))"
    using assms by (metis distinct_map distinct_sort set_sort)
  ultimately have "sorted_wrt (<) (map f (sort_key f xs))"
    by (simp add: strict_sorted_iff)
  then show ?thesis by (simp add: sorted_wrt_map)
qed

end
