(* ===== verification/Json.thy ===== *)
theory Json
  imports Prelude
begin

text \<open>
  \<open>serde_json::Value\<close>, the dynamic data the program passes through. Objects are
  association lists; the program's build keeps them in key order (\<open>serde_json\<close> without
  \<open>preserve_order\<close>), and every object literal below is written in that order.
\<close>

datatype json_number =
    PosInt u64
  | NegInt int
  | Float "64 word"  \<comment> \<open>the bits of the \<open>f64\<close>\<close>

datatype json =
    JNull
  | JBool bool
  | JNumber json_number
  | JString string
  | JArray "json list"
  | JObject "(string \<times> json) list"

text \<open>\<open>Value::Object(Default::default())\<close>.\<close>

definition empty_object :: json where
  "empty_object = JObject []"

definition json_get :: "json \<Rightarrow> string \<Rightarrow> json option" where
  "json_get v k = (case v of JObject kvs \<Rightarrow> map_of kvs k | _ \<Rightarrow> None)"

definition as_u64 :: "json \<Rightarrow> u64 option" where
  "as_u64 v = (case v of JNumber (PosInt n) \<Rightarrow> Some n | _ \<Rightarrow> None)"

definition as_bool :: "json \<Rightarrow> bool option" where
  "as_bool v = (case v of JBool b \<Rightarrow> Some b | _ \<Rightarrow> None)"

definition is_null :: "json \<Rightarrow> bool" where
  "is_null v \<longleftrightarrow> v = JNull"

definition json_u64 :: "u64 \<Rightarrow> json" where
  "json_u64 n = JNumber (PosInt n)"

section \<open>Values that survive a printer and a parser\<close>

text \<open>
  \<open>serde_json\<close> refuses a text that nests arrays and objects deeper than 127 (its recursion limit is
  128), and without its feature \<open>float_roundtrip\<close>, which the build does not enable, a float may be
  read back as a neighbour of what was printed. A value within the limit whose numbers are integers,
  and whose objects repeat no key, is read back exactly.
\<close>

definition JSON_NESTING :: nat where "JSON_NESTING = 127"

fun exact_number :: "json_number \<Rightarrow> bool" where
  "exact_number (PosInt n) \<longleftrightarrow> True"
| "exact_number (NegInt i) \<longleftrightarrow> - (2 ^ 63) \<le> i \<and> i < 0"
| "exact_number (Float bits) \<longleftrightarrow> False"

fun json_exact :: "nat \<Rightarrow> json \<Rightarrow> bool" where
  "json_exact d (JNumber n) \<longleftrightarrow> exact_number n"
| "json_exact d (JArray vs) \<longleftrightarrow> 0 < d \<and> (\<forall>v \<in> set vs. json_exact (d - 1) v)"
| "json_exact d (JObject kvs) \<longleftrightarrow> 0 < d \<and> distinct (map fst kvs) \<and>
     (\<forall>(k, v) \<in> set kvs. json_exact (d - 1) v)"
| "json_exact d v \<longleftrightarrow> True"

text \<open>The keys of a \<open>Value\<close> are in order, at every depth.\<close>

fun json_ordered :: "json \<Rightarrow> bool" where
  "json_ordered (JArray vs) \<longleftrightarrow> (\<forall>v \<in> set vs. json_ordered v)"
| "json_ordered (JObject kvs) \<longleftrightarrow> sorted_wrt (<) (map fst kvs) \<and> (\<forall>(k, v) \<in> set kvs. json_ordered v)"
| "json_ordered v \<longleftrightarrow> True"

definition exact_value :: "nat \<Rightarrow> json \<Rightarrow> bool" where
  "exact_value d v \<longleftrightarrow> json_exact d v \<and> json_ordered v"

lemma exact_value_simple [simp]:
  "exact_value d JNull" "exact_value d (JString s)" "exact_value d (JBool b)"
  "0 < d \<Longrightarrow> exact_value d empty_object"
  by (simp_all add: exact_value_def empty_object_def)

text \<open>Arrays within arrays, an example of a value of any depth.\<close>

fun nested_arrays :: "nat \<Rightarrow> json" where
  "nested_arrays 0 = JNull"
| "nested_arrays (Suc n) = JArray [nested_arrays n]"

lemma nested_arrays_exact: "json_exact d (nested_arrays n) \<longleftrightarrow> n \<le> d"
  by (induction n arbitrary: d) (simp_all add: less_Suc_eq_le [symmetric] le_diff_conv2 Suc_le_eq, arith)

lemma json_get_empty [simp]: "json_get empty_object k = None"
  by (simp add: json_get_def empty_object_def)

end
