(* ===== verification/Runtime_Kernel.thy ===== *)
theory Runtime_Kernel
  imports Json
begin

text \<open>
  \<open>crates/vifu-runtime/src/runtime.rs\<close>: the headless runtime. Its state is five resources
  of a Bevy world: the command queue, the event queue, the two effect queues and the durable
  state. The systems that run in \<open>RuntimeSchedule\<close> are the host's; the fields of the queue
  resources are private to the module, so a system can reach them only through the methods
  below, and a system is modelled as a program over exactly those methods
  (\<open>system\<close>, one constructor per method, the rest of the system as a function of the
  value the method returned).
\<close>

section \<open>Data\<close>

record runtime_command =
  command_id :: string
  command_name :: string
  command_payload :: json

record runtime_event =
  event_sequence :: u64
  event_name :: string
  event_payload :: json

record effect_request =
  effect_id :: string
  effect_kind :: string
  effect_payload :: json

record effect_result =
  result_effect_id :: string
  result_succeeded :: bool
  result_output :: json

record runtime_snapshot =
  snapshot_revision :: u64
  snapshot_state :: json

record runtime_advance =
  advance_snapshot :: runtime_snapshot
  advance_events :: "runtime_event list"
  advance_effects :: "effect_request list"

definition RuntimeCommand_new :: "string \<Rightarrow> string \<Rightarrow> json \<Rightarrow> runtime_command" where
  "RuntimeCommand_new ident name payload =
     \<lparr>command_id = ident, command_name = name, command_payload = payload\<rparr>"

definition RuntimeSnapshot_default :: runtime_snapshot where
  "RuntimeSnapshot_default = \<lparr>snapshot_revision = 0, snapshot_state = empty_object\<rparr>"

section \<open>The queue resources\<close>

record command_queue =
  queued_commands :: "runtime_command list"

definition CommandQueue_push :: "runtime_command \<Rightarrow> command_queue \<Rightarrow> command_queue" where
  "CommandQueue_push c q = q\<lparr>queued_commands := queued_commands q @ [c]\<rparr>"

definition CommandQueue_pop_front :: "command_queue \<Rightarrow> runtime_command option \<times> command_queue" where
  "CommandQueue_pop_front q = (case queued_commands q of
     [] \<Rightarrow> (None, q) | c # cs \<Rightarrow> (Some c, q\<lparr>queued_commands := cs\<rparr>))"

definition CommandQueue_drain :: "command_queue \<Rightarrow> runtime_command list \<times> command_queue" where
  "CommandQueue_drain q = (queued_commands q, q\<lparr>queued_commands := []\<rparr>)"

definition CommandQueue_is_empty :: "command_queue \<Rightarrow> bool" where
  "CommandQueue_is_empty q \<longleftrightarrow> queued_commands q = []"

record event_queue =
  next_sequence :: u64
  queued_events :: "runtime_event list"

definition EventQueue_emit :: "string \<Rightarrow> json \<Rightarrow> event_queue \<Rightarrow> u64 \<times> event_queue" where
  "EventQueue_emit name payload q =
     (let sequence = next_sequence q
      in (sequence,
          \<lparr>next_sequence = saturating_add (next_sequence q) 1,
           queued_events = queued_events q @
             [\<lparr>event_sequence = sequence, event_name = name, event_payload = payload\<rparr>]\<rparr>))"

definition EventQueue_drain :: "event_queue \<Rightarrow> runtime_event list \<times> event_queue" where
  "EventQueue_drain q = (queued_events q, q\<lparr>queued_events := []\<rparr>)"

record effect_request_queue =
  next_id :: u64
  queued_effects :: "effect_request list"

definition effect_name :: "u64 \<Rightarrow> string" where
  "effect_name n = ''effect-'' @ show_nat (unat n)"

definition EffectRequestQueue_request ::
    "string \<Rightarrow> json \<Rightarrow> effect_request_queue \<Rightarrow> string \<times> effect_request_queue" where
  "EffectRequestQueue_request kind payload q =
     (let ident = effect_name (next_id q)
      in (ident,
          \<lparr>next_id = saturating_add (next_id q) 1,
           queued_effects = queued_effects q @
             [\<lparr>effect_id = ident, effect_kind = kind, effect_payload = payload\<rparr>]\<rparr>))"

definition EffectRequestQueue_drain ::
    "effect_request_queue \<Rightarrow> effect_request list \<times> effect_request_queue" where
  "EffectRequestQueue_drain q = (queued_effects q, q\<lparr>queued_effects := []\<rparr>)"

record effect_result_queue =
  queued_results :: "effect_result list"

definition EffectResultQueue_push :: "effect_result \<Rightarrow> effect_result_queue \<Rightarrow> effect_result_queue" where
  "EffectResultQueue_push r q = q\<lparr>queued_results := queued_results q @ [r]\<rparr>"

definition EffectResultQueue_pop_front ::
    "effect_result_queue \<Rightarrow> effect_result option \<times> effect_result_queue" where
  "EffectResultQueue_pop_front q = (case queued_results q of
     [] \<Rightarrow> (None, q) | r # rs \<Rightarrow> (Some r, q\<lparr>queued_results := rs\<rparr>))"

definition EffectResultQueue_drain ::
    "effect_result_queue \<Rightarrow> effect_result list \<times> effect_result_queue" where
  "EffectResultQueue_drain q = (queued_results q, q\<lparr>queued_results := []\<rparr>)"

record runtime_state =
  state_revision :: u64
  state_value :: json

definition RuntimeState_default :: runtime_state where
  "RuntimeState_default = \<lparr>state_revision = 0, state_value = empty_object\<rparr>"

definition RuntimeState_snapshot :: "runtime_state \<Rightarrow> runtime_snapshot" where
  "RuntimeState_snapshot s =
     \<lparr>snapshot_revision = state_revision s, snapshot_state = state_value s\<rparr>"

section \<open>The host's systems\<close>

datatype system =
    Done
  | Emit string json "u64 \<Rightarrow> system"
  | DrainEvents "runtime_event list \<Rightarrow> system"
  | RequestEffect string json "string \<Rightarrow> system"
  | DrainEffects "effect_request list \<Rightarrow> system"
  | PushCommand runtime_command system
  | PopCommand "runtime_command option \<Rightarrow> system"
  | DrainCommands "runtime_command list \<Rightarrow> system"
  | CommandsEmpty "bool \<Rightarrow> system"
  | PushResult effect_result system
  | PopResult "effect_result option \<Rightarrow> system"
  | DrainResults "effect_result list \<Rightarrow> system"
  | ReadState "runtime_state \<Rightarrow> system"
  | WriteState runtime_state system

section \<open>The headless runtime\<close>

record headless_runtime =
  world_commands :: command_queue
  world_events :: event_queue
  world_effects :: effect_request_queue
  world_results :: effect_result_queue
  world_state :: runtime_state

primrec run_system :: "system \<Rightarrow> headless_runtime \<Rightarrow> headless_runtime" where
  "run_system Done w = w"
| "run_system (Emit n p k) w =
     (case EventQueue_emit n p (world_events w) of
        (sequence, q) \<Rightarrow> run_system (k sequence) (w\<lparr>world_events := q\<rparr>))"
| "run_system (DrainEvents k) w =
     (case EventQueue_drain (world_events w) of
        (es, q) \<Rightarrow> run_system (k es) (w\<lparr>world_events := q\<rparr>))"
| "run_system (RequestEffect n p k) w =
     (case EffectRequestQueue_request n p (world_effects w) of
        (ident, q) \<Rightarrow> run_system (k ident) (w\<lparr>world_effects := q\<rparr>))"
| "run_system (DrainEffects k) w =
     (case EffectRequestQueue_drain (world_effects w) of
        (es, q) \<Rightarrow> run_system (k es) (w\<lparr>world_effects := q\<rparr>))"
| "run_system (PushCommand c k) w =
     run_system k (w\<lparr>world_commands := CommandQueue_push c (world_commands w)\<rparr>)"
| "run_system (PopCommand k) w =
     (case CommandQueue_pop_front (world_commands w) of
        (c, q) \<Rightarrow> run_system (k c) (w\<lparr>world_commands := q\<rparr>))"
| "run_system (DrainCommands k) w =
     (case CommandQueue_drain (world_commands w) of
        (cs, q) \<Rightarrow> run_system (k cs) (w\<lparr>world_commands := q\<rparr>))"
| "run_system (CommandsEmpty k) w =
     run_system (k (CommandQueue_is_empty (world_commands w))) w"
| "run_system (PushResult r k) w =
     run_system k (w\<lparr>world_results := EffectResultQueue_push r (world_results w)\<rparr>)"
| "run_system (PopResult k) w =
     (case EffectResultQueue_pop_front (world_results w) of
        (r, q) \<Rightarrow> run_system (k r) (w\<lparr>world_results := q\<rparr>))"
| "run_system (DrainResults k) w =
     (case EffectResultQueue_drain (world_results w) of
        (rs, q) \<Rightarrow> run_system (k rs) (w\<lparr>world_results := q\<rparr>))"
| "run_system (ReadState k) w = run_system (k (world_state w)) w"
| "run_system (WriteState s k) w = run_system k (w\<lparr>world_state := s\<rparr>)"

definition HeadlessRuntime_new :: headless_runtime where
  "HeadlessRuntime_new =
     \<lparr>world_commands = \<lparr>queued_commands = []\<rparr>,
      world_events = \<lparr>next_sequence = 0, queued_events = []\<rparr>,
      world_effects = \<lparr>next_id = 0, queued_effects = []\<rparr>,
      world_results = \<lparr>queued_results = []\<rparr>,
      world_state = RuntimeState_default\<rparr>"

definition HeadlessRuntime_restore :: "runtime_snapshot \<Rightarrow> headless_runtime" where
  "HeadlessRuntime_restore snapshot = HeadlessRuntime_new
     \<lparr>world_state := \<lparr>state_revision = snapshot_revision snapshot,
                      state_value = snapshot_state snapshot\<rparr>\<rparr>"

definition HeadlessRuntime_snapshot :: "headless_runtime \<Rightarrow> runtime_snapshot" where
  "HeadlessRuntime_snapshot w = RuntimeState_snapshot (world_state w)"

definition complete_effect :: "effect_result \<Rightarrow> headless_runtime \<Rightarrow> headless_runtime" where
  "complete_effect r w = w\<lparr>world_results := EffectResultQueue_push r (world_results w)\<rparr>"

definition enqueue_command :: "runtime_command \<Rightarrow> headless_runtime \<Rightarrow> headless_runtime" where
  "enqueue_command c w = w\<lparr>world_commands := CommandQueue_push c (world_commands w)\<rparr>"

definition take_advance :: "headless_runtime \<Rightarrow> runtime_advance \<times> headless_runtime" where
  "take_advance w =
     (let snapshot = HeadlessRuntime_snapshot w;
          (events, eq) = EventQueue_drain (world_events w);
          (effects, fq) = EffectRequestQueue_drain (world_effects w)
      in (\<lparr>advance_snapshot = snapshot, advance_events = events, advance_effects = effects\<rparr>,
          w\<lparr>world_events := eq, world_effects := fq\<rparr>))"

definition run_schedule :: "system \<Rightarrow> headless_runtime \<Rightarrow> runtime_advance \<times> headless_runtime" where
  "run_schedule sys w = take_advance (run_system sys w)"

definition dispatch ::
    "system \<Rightarrow> runtime_command \<Rightarrow> headless_runtime \<Rightarrow> runtime_advance \<times> headless_runtime" where
  "dispatch sys c w =
     (let w1 = run_system sys (enqueue_command c w);
          w2 = w1\<lparr>world_state := (world_state w1)
                 \<lparr>state_revision := saturating_add (state_revision (world_state w1)) 1\<rparr>\<rparr>
      in take_advance w2)"

section \<open>Lemmas\<close>

lemmas queue_defs =
  CommandQueue_push_def CommandQueue_pop_front_def CommandQueue_drain_def
  EventQueue_emit_def EventQueue_drain_def EffectRequestQueue_request_def
  EffectRequestQueue_drain_def EffectResultQueue_push_def EffectResultQueue_pop_front_def
  EffectResultQueue_drain_def

text \<open>
  What has been handed out so far: the events \<open>es\<close> and effect requests \<open>fs\<close> already
  delivered, followed by those still queued, carry the values of the two counters in order.
\<close>

definition effects_issued :: "effect_request list \<Rightarrow> u64 \<Rightarrow> bool" where
  "effects_issued fs n \<longleftrightarrow> (\<exists>ids. map effect_id fs = map effect_name ids \<and> issued ids n)"

definition delivery_inv ::
    "runtime_event list \<Rightarrow> effect_request list \<Rightarrow> headless_runtime \<Rightarrow> bool" where
  "delivery_inv es fs w \<longleftrightarrow>
     issued (map event_sequence (es @ queued_events (world_events w)))
       (next_sequence (world_events w)) \<and>
     effects_issued (fs @ queued_effects (world_effects w)) (next_id (world_effects w))"

lemma effects_issued_next:
  assumes "effects_issued fs n" and "effect_id f = effect_name n"
  shows "effects_issued (fs @ [f]) (saturating_add n 1)"
proof -
  from assms(1) obtain ids where "map effect_id fs = map effect_name ids" "issued ids n"
    unfolding effects_issued_def by blast
  then have "map effect_id (fs @ [f]) = map effect_name (ids @ [n])"
    "issued (ids @ [n]) (saturating_add n 1)"
    using assms(2) by (simp_all add: issued_next)
  then show ?thesis unfolding effects_issued_def by blast
qed

lemma effects_issued_appendD: "effects_issued (fs @ gs) n \<Longrightarrow> effects_issued fs n"
  unfolding effects_issued_def by (metis issued_appendD map_append map_eq_append_conv)

lemma delivery_inv_emit:
  assumes "delivery_inv es fs w" and "EventQueue_emit n p (world_events w) = (sequence, q)"
  shows "delivery_inv es fs (w\<lparr>world_events := q\<rparr>)"
  using assms issued_next
  by (auto simp: delivery_inv_def EventQueue_emit_def Let_def simp flip: append_assoc)

lemma delivery_inv_request:
  assumes "delivery_inv es fs w"
    and "EffectRequestQueue_request n p (world_effects w) = (i, q)"
  shows "delivery_inv es fs (w\<lparr>world_effects := q\<rparr>)"
  using assms effects_issued_next
  by (auto simp: delivery_inv_def EffectRequestQueue_request_def Let_def simp flip: append_assoc)

lemma run_system_delivery_inv: "delivery_inv es fs w \<Longrightarrow> delivery_inv es fs (run_system s w)"
proof (induction s arbitrary: w)
  case (Emit n p k)
  then show ?case
    by (auto split: prod.splits intro: delivery_inv_emit)
next
  case (RequestEffect n p k)
  then show ?case
    by (auto split: prod.splits intro: delivery_inv_request)
next
  case (DrainEvents k)
  have "delivery_inv es fs (w\<lparr>world_events := (world_events w)\<lparr>queued_events := []\<rparr>\<rparr>)"
    using DrainEvents.prems by (auto simp: delivery_inv_def dest: issued_appendD)
  with DrainEvents.IH show ?case by (simp add: EventQueue_drain_def)
next
  case (DrainEffects k)
  have "delivery_inv es fs (w\<lparr>world_effects := (world_effects w)\<lparr>queued_effects := []\<rparr>\<rparr>)"
    using DrainEffects.prems by (auto simp: delivery_inv_def dest: effects_issued_appendD)
  with DrainEffects.IH show ?case by (simp add: EffectRequestQueue_drain_def)
qed (auto simp: delivery_inv_def split: prod.splits)

lemma take_advance_delivery_inv:
  assumes "delivery_inv es fs w" and "take_advance w = (a, w')"
  shows "delivery_inv (es @ advance_events a) (fs @ advance_effects a) w'"
  using assms
  by (auto simp: delivery_inv_def take_advance_def Let_def EventQueue_drain_def
      EffectRequestQueue_drain_def)

lemma delivery_inv_frame:
  "delivery_inv es fs (w\<lparr>world_commands := c\<rparr>) = delivery_inv es fs w"
  "delivery_inv es fs (w\<lparr>world_results := r\<rparr>) = delivery_inv es fs w"
  "delivery_inv es fs (w\<lparr>world_state := s\<rparr>) = delivery_inv es fs w"
  by (simp_all add: delivery_inv_def)

text \<open>
  A host drives the runtime with a list of calls; every schedule run returns an advance. The
  trace collects what the host received, in order.
\<close>

datatype host_call =
    Dispatch system runtime_command
  | RunSchedule system
  | EnqueueCommand runtime_command
  | CompleteEffect effect_result

fun host_step :: "host_call \<Rightarrow> headless_runtime \<Rightarrow> runtime_advance list \<times> headless_runtime" where
  "host_step (Dispatch s c) w = (case dispatch s c w of (a, w') \<Rightarrow> ([a], w'))"
| "host_step (RunSchedule s) w = (case run_schedule s w of (a, w') \<Rightarrow> ([a], w'))"
| "host_step (EnqueueCommand c) w = ([], enqueue_command c w)"
| "host_step (CompleteEffect r) w = ([], complete_effect r w)"

fun host_run :: "host_call list \<Rightarrow> headless_runtime \<Rightarrow> runtime_advance list \<times> headless_runtime" where
  "host_run [] w = ([], w)"
| "host_run (c # cs) w =
     (case host_step c w of (as, w1) \<Rightarrow> case host_run cs w1 of (bs, w2) \<Rightarrow> (as @ bs, w2))"

definition delivered_events :: "runtime_advance list \<Rightarrow> runtime_event list" where
  "delivered_events as = concat (map advance_events as)"

definition delivered_effects :: "runtime_advance list \<Rightarrow> effect_request list" where
  "delivered_effects as = concat (map advance_effects as)"

lemma host_step_delivery_inv:
  assumes "delivery_inv es fs w" and "host_step c w = (as, w')"
  shows "delivery_inv (es @ delivered_events as) (fs @ delivered_effects as) w'"
  using assms
  by (cases c)
    (auto simp: dispatch_def run_schedule_def Let_def delivered_events_def delivered_effects_def
      enqueue_command_def complete_effect_def delivery_inv_frame run_system_delivery_inv
      split: prod.splits dest!: take_advance_delivery_inv [rotated])

lemma host_run_delivery_inv:
  assumes "delivery_inv es fs w" and "host_run cs w = (as, w')"
  shows "delivery_inv (es @ delivered_events as) (fs @ delivered_effects as) w'"
  using assms
proof (induction cs arbitrary: es fs w as)
  case Nil
  then show ?case by (simp add: delivered_events_def delivered_effects_def)
next
  case (Cons c cs)
  from Cons.prems(2) obtain as1 w1 as2 where
    step: "host_step c w = (as1, w1)" and rest: "host_run cs w1 = (as2, w')" and
    as: "as = as1 @ as2"
    by (auto split: prod.splits)
  from host_step_delivery_inv [OF Cons.prems(1) step]
  have "delivery_inv ((es @ delivered_events as1) @ delivered_events as2)
    ((fs @ delivered_effects as1) @ delivered_effects as2) w'"
    using rest by (rule Cons.IH)
  then show ?case by (simp add: as delivered_events_def delivered_effects_def)
qed

lemma HeadlessRuntime_new_delivery_inv: "delivery_inv [] [] HeadlessRuntime_new"
  by (simp add: delivery_inv_def HeadlessRuntime_new_def effects_issued_def)

section \<open>Systems that leave the durable state alone\<close>

primrec keeps_state :: "system \<Rightarrow> bool" where
  "keeps_state Done = True"
| "keeps_state (Emit n p k) = (\<forall>x. keeps_state (k x))"
| "keeps_state (DrainEvents k) = (\<forall>x. keeps_state (k x))"
| "keeps_state (RequestEffect n p k) = (\<forall>x. keeps_state (k x))"
| "keeps_state (DrainEffects k) = (\<forall>x. keeps_state (k x))"
| "keeps_state (PushCommand c k) = keeps_state k"
| "keeps_state (PopCommand k) = (\<forall>x. keeps_state (k x))"
| "keeps_state (DrainCommands k) = (\<forall>x. keeps_state (k x))"
| "keeps_state (CommandsEmpty k) = (\<forall>x. keeps_state (k x))"
| "keeps_state (PushResult r k) = keeps_state k"
| "keeps_state (PopResult k) = (\<forall>x. keeps_state (k x))"
| "keeps_state (DrainResults k) = (\<forall>x. keeps_state (k x))"
| "keeps_state (ReadState k) = (\<forall>x. keeps_state (k x))"
| "keeps_state (WriteState s k) = False"

fun call_keeps_state :: "host_call \<Rightarrow> bool" where
  "call_keeps_state (Dispatch s c) = keeps_state s"
| "call_keeps_state (RunSchedule s) = keeps_state s"
| "call_keeps_state _ = True"

fun is_dispatch :: "host_call \<Rightarrow> bool" where
  "is_dispatch (Dispatch s c) = True"
| "is_dispatch _ = False"

lemma run_system_state: "keeps_state s \<Longrightarrow> world_state (run_system s w) = world_state w"
  by (induction s arbitrary: w) (simp_all split: prod.splits)

lemma host_step_state:
  assumes "call_keeps_state c"
  shows "state_value (world_state (snd (host_step c w))) = state_value (world_state w)"
    and "state_revision (world_state (snd (host_step c w))) =
      (if is_dispatch c then saturating_add (state_revision (world_state w)) 1
       else state_revision (world_state w))"
  using assms
  by (cases c; simp add: dispatch_def run_schedule_def take_advance_def Let_def split_beta
      run_system_state enqueue_command_def complete_effect_def)+

lemma host_run_Cons: "snd (host_run (c # cs) w) = snd (host_run cs (snd (host_step c w)))"
  by (simp split: prod.splits)

lemma host_run_state:
  assumes "list_all call_keeps_state cs"
  shows "state_value (world_state (snd (host_run cs w))) = state_value (world_state w) \<and>
    unat (state_revision (world_state (snd (host_run cs w)))) =
      min (unat (state_revision (world_state w)) + length (filter is_dispatch cs)) (2 ^ 64 - 1)"
  using assms
proof (induction cs arbitrary: w)
  case Nil
  have "unat (state_revision (world_state w)) \<le> 2 ^ 64 - 1"
    using unat_u64_less [of "state_revision (world_state w)"] by (simp del: unat_u64_less)
  then show ?case by simp
next
  case (Cons c cs)
  then show ?case
    by (auto simp: host_run_Cons host_step_state unat_saturating_add simp del: host_run.simps)
qed

section \<open>Properties\<close>

text \<open>however a host drives a headless runtime, and whatever its systems do, the events it
  receives carry sequence numbers in order (strictly increasing until the counter saturates, so
  no event is delivered twice), and the effect requests carry identifiers numbered in order.
\<close>

theorem kernel_delivery_ordered:
  "sorted_wrt seq_before (map event_sequence
     (delivered_events (fst (host_run cs HeadlessRuntime_new)))) \<and>
   (\<exists>ids. sorted_wrt seq_before ids \<and>
     map effect_id (delivered_effects (fst (host_run cs HeadlessRuntime_new))) =
       map effect_name ids)"
proof -
  have "delivery_inv (delivered_events (fst (host_run cs HeadlessRuntime_new)))
    (delivered_effects (fst (host_run cs HeadlessRuntime_new)))
    (snd (host_run cs HeadlessRuntime_new))"
    using host_run_delivery_inv [OF HeadlessRuntime_new_delivery_inv, of cs] by simp
  then have "issued (map event_sequence (delivered_events (fst (host_run cs HeadlessRuntime_new))))
      (next_sequence (world_events (snd (host_run cs HeadlessRuntime_new))))"
    and "effects_issued (delivered_effects (fst (host_run cs HeadlessRuntime_new)))
      (next_id (world_effects (snd (host_run cs HeadlessRuntime_new))))"
    by (auto simp: delivery_inv_def dest: issued_appendD effects_issued_appendD)
  then show ?thesis unfolding effects_issued_def by (blast dest: issued_sorted)
qed

text \<open>when the systems leave the durable state alone, a runtime restored from a snapshot keeps
  the snapshot's state value, and its revision grows by one for each dispatched command (and for
  nothing else), up to the largest 64-bit number.
\<close>

theorem kernel_revision_counts_dispatches:
  assumes "list_all call_keeps_state cs"
  shows "snapshot_state (HeadlessRuntime_snapshot
      (snd (host_run cs (HeadlessRuntime_restore snap)))) = snapshot_state snap \<and>
    unat (snapshot_revision (HeadlessRuntime_snapshot
      (snd (host_run cs (HeadlessRuntime_restore snap))))) =
      min (unat (snapshot_revision snap) + length (filter is_dispatch cs)) (2 ^ 64 - 1)"
  using host_run_state [OF assms, of "HeadlessRuntime_restore snap"]
  by (simp add: HeadlessRuntime_snapshot_def RuntimeState_snapshot_def HeadlessRuntime_restore_def)

theorem kernel_revision_counts_dispatches_witness:
  "unat (snapshot_revision (HeadlessRuntime_snapshot (snd (host_run
     [Dispatch (Emit ''tick'' JNull (\<lambda>_. Done)) (RuntimeCommand_new ''c1'' ''go'' JNull),
      RunSchedule (PopCommand (\<lambda>_. Done))]
     (HeadlessRuntime_restore \<lparr>snapshot_revision = 7, snapshot_state = JBool True\<rparr>))))) = 8"
  using kernel_revision_counts_dispatches
    [of "[Dispatch (Emit ''tick'' JNull (\<lambda>_. Done)) (RuntimeCommand_new ''c1'' ''go'' JNull),
      RunSchedule (PopCommand (\<lambda>_. Done))]"
      "\<lparr>snapshot_revision = 7, snapshot_state = JBool True\<rparr>"]
  by simp

end
