(* ===== verification/Runtime_Error.thy ===== *)
theory Runtime_Error
  imports Json
begin

text \<open>
  \<open>RuntimeError\<close> of \<open>crates/vifu-runtime/src/application.rs\<close>: the error type of every
  fallible runtime operation, its \<open>Display\<close> text and the text it shows to callers outside
  the process.
\<close>

datatype runtime_error =
    InvalidDefinition string
  | EndpointNotFound string
  | AgentNotFound string
  | ProviderNotFound string
  | CapabilityUnavailable (unavailable_provider: string) (unavailable_capability: string)
  | Timeout u64
  | Cancelled
  | Unavailable string
  | Backpressure string
  | Provider (failed_provider: string) (failure_message: string)
  | Store string
  | Snapshot string
  | EffectLimitExceeded nat
  | InvocationNotFound string
  | Internal

fun RuntimeError_display :: "runtime_error \<Rightarrow> string" where
  "RuntimeError_display (InvalidDefinition message) = ''invalid runtime definition: '' @ message"
| "RuntimeError_display (EndpointNotFound endpoint) =
     ''endpoint '' @ endpoint @ '' is not registered''"
| "RuntimeError_display (AgentNotFound agent) = ''agent '' @ agent @ '' is not registered''"
| "RuntimeError_display (ProviderNotFound provider) =
     ''provider '' @ provider @ '' is not registered''"
| "RuntimeError_display (CapabilityUnavailable provider capability) =
     ''provider '' @ provider @ '' does not support capability '' @ capability"
| "RuntimeError_display (Timeout timeout_ms) =
     ''agent invocation was idle for '' @ show_nat (unat timeout_ms) @ '' ms''"
| "RuntimeError_display Cancelled = ''agent invocation was cancelled''"
| "RuntimeError_display (Unavailable message) = ''provider is not available: '' @ message"
| "RuntimeError_display (Backpressure message) = ''runtime is busy: '' @ message"
| "RuntimeError_display (Provider provider message) =
     ''provider '' @ provider @ '' failed: '' @ message"
| "RuntimeError_display (Store message) = ''runtime store failed: '' @ message"
| "RuntimeError_display (Snapshot message) = ''runtime snapshot failed: '' @ message"
| "RuntimeError_display (EffectLimitExceeded limit) =
     ''runtime effect limit '' @ show_nat limit @ '' was exceeded''"
| "RuntimeError_display (InvocationNotFound handle) =
     ''invocation '' @ handle @ '' was not found''"
| "RuntimeError_display Internal = ''runtime internal error''"

fun public_message :: "runtime_error \<Rightarrow> string" where
  "public_message (Provider provider _) = ''provider '' @ provider @ '' request failed''"
| "public_message (Store _) = ''runtime state could not be persisted''"
| "public_message (Snapshot _) = ''runtime snapshot is invalid''"
| "public_message (Unavailable _) = ''provider is not available''"
| "public_message (Backpressure _) = ''runtime is busy''"
| "public_message e = RuntimeError_display e"

type_synonym 'a rt = "(runtime_error, 'a) result"

text \<open>
  The parts of an error that callers outside the process must not see: messages of providers,
  stores and codecs. \<open>hide\<close> replaces them.
\<close>

fun hide :: "string \<Rightarrow> runtime_error \<Rightarrow> runtime_error" where
  "hide message (Unavailable _) = Unavailable message"
| "hide message (Backpressure _) = Backpressure message"
| "hide message (Provider provider _) = Provider provider message"
| "hide message (Store _) = Store message"
| "hide message (Snapshot _) = Snapshot message"
| "hide message e = e"

text \<open>the text an error shows outside the process does not depend on the messages of the
  provider, the store or the snapshot codec: two errors that differ only in them show the same.
\<close>

theorem public_message_hides: "public_message (hide message e) = public_message e"
  by (cases e) simp_all

end
