(* ===== verification/Manifest.thy ===== *)
theory Manifest
  imports Runtime_Error
begin

text \<open>
  \<open>crates/vifu-runtime/src/manifest.rs\<close>: the portable configuration of a runtime, its
  validation, and the content-addressed releases made from it. The JSON codec of a manifest
  (\<open>serde_json\<close>) and the hash (\<open>sha2\<close>) are parameters, the record \<open>codec\<close>.
\<close>

section \<open>Data\<close>

record agent_definition =
  agent_id :: string
  agent_name :: string
  agent_provider :: string
  agent_capabilities :: "string list"
  agent_metadata :: json

record endpoint_definition =
  endpoint_name :: string
  endpoint_agent :: string
  endpoint_capability :: string
  endpoint_timeout_ms :: u64

record provider_requirement =
  requirement_id :: string
  requirement_type :: string
  requirement_capabilities :: "string list"
  requirement_settings :: json
  requirement_resources :: "(string \<times> string) list"

record runtime_manifest =
  schema_version :: "32 word"
  manifest_project_id :: string
  manifest_providers :: "provider_requirement list"
  manifest_agents :: "agent_definition list"
  manifest_endpoints :: "endpoint_definition list"
  manifest_metadata :: json

record runtime_release =
  release_version :: u64
  release_content_hash :: string
  release_manifest :: runtime_manifest

record local_provider_binding =
  binding_provider_id :: string
  binding_configuration :: json

record runtime_trace_record =
  trace_id :: string
  trace_project_id :: string
  trace_invocation_id :: string
  trace_endpoint :: string
  trace_agent :: "string option"
  trace_provider :: "string option"
  trace_capability :: "string option"
  trace_status :: string
  trace_duration_ms :: u64
  trace_created_at_ms :: u64

record codec =
  encode_manifest :: "runtime_manifest \<Rightarrow> (string, string) result"
  decode_manifest :: "string \<Rightarrow> (string, runtime_manifest) result"
  sha256 :: "string \<Rightarrow> char list"

text \<open>
  The free JSON of a manifest that \<open>serde_json\<close> reads back exactly: the metadata of the manifest is
  one level inside its text, that of an agent and the settings of a provider three levels; the
  resources are an ordered map.
\<close>

definition manifest_exact :: "runtime_manifest \<Rightarrow> bool" where
  "manifest_exact m \<longleftrightarrow> exact_value 126 (manifest_metadata m) \<and>
     (\<forall>a \<in> set (manifest_agents m). exact_value 124 (agent_metadata a)) \<and>
     (\<forall>p \<in> set (manifest_providers m). exact_value 124 (requirement_settings p) \<and>
        sorted_wrt (<) (map fst (requirement_resources p)))"

definition binding_exact :: "local_provider_binding \<Rightarrow> bool" where
  "binding_exact b \<longleftrightarrow> exact_value 126 (binding_configuration b)"

definition RUNTIME_MANIFEST_SCHEMA_VERSION :: "32 word" where
  "RUNTIME_MANIFEST_SCHEMA_VERSION = 1"

definition MAX_PROVIDERS :: nat where "MAX_PROVIDERS = 64"

definition MAX_AGENTS :: nat where "MAX_AGENTS = 1024"

definition MAX_ENDPOINTS :: nat where "MAX_ENDPOINTS = 2048"

definition MAX_MANIFEST_BYTES :: nat where "MAX_MANIFEST_BYTES = 4194304"

definition MAX_ENDPOINT_TIMEOUT_MS :: u64 where "MAX_ENDPOINT_TIMEOUT_MS = 900000"

definition SENSITIVE_KEYS :: "string list" where
  "SENSITIVE_KEYS =
     [''apikey'', ''authorization'', ''credential'', ''password'', ''privatekey'', ''secret'',
      ''token'']"

section \<open>Checks on strings and values\<close>

definition portable_byte :: "char \<Rightarrow> bool" where
  [string_defs]: "portable_byte c \<longleftrightarrow>
     is_ascii_alphanumeric c \<or> c = CHR ''-'' \<or> c = CHR ''_'' \<or> c = CHR ''.'' \<or> c = CHR '':''"

definition portable_identifier :: "string \<Rightarrow> bool" where
  "portable_identifier v \<longleftrightarrow> v \<noteq> [] \<and> length v \<le> 128 \<and> list_all portable_byte v"

definition validate_portable_identifier :: "string \<Rightarrow> string \<Rightarrow> unit rt" where
  "validate_portable_identifier kind v =
     (if v = [] \<or> 128 < length v \<or> \<not> list_all portable_byte v
      then Inl (InvalidDefinition (kind @ '' must be a portable identifier''))
      else Inr ())"

definition validate_trace_identifier :: "string \<Rightarrow> string \<Rightarrow> unit rt" where
  "validate_trace_identifier kind v =
     (if v = [] \<or> 256 < length v \<or> any_control v
      then Inl (InvalidDefinition (kind @ '' must be a valid trace identifier''))
      else Inr ())"

definition duplicate :: "string \<Rightarrow> string \<Rightarrow> runtime_error" where
  "duplicate kind ident = InvalidDefinition (''duplicate '' @ kind @ '' '' @ ident)"

definition validate_count :: "string \<Rightarrow> nat \<Rightarrow> nat \<Rightarrow> unit rt" where
  "validate_count kind count maximum =
     (if maximum < count
      then Inl (InvalidDefinition (''runtime manifest contains too many '' @ kind))
      else Inr ())"

definition validate_capabilities :: "string list \<Rightarrow> unit rt" where
  "validate_capabilities capabilities =
     (if capabilities = []
      then Inl (InvalidDefinition ''at least one capability is required'')
      else for_each (validate_portable_identifier ''capability'') capabilities)"

definition is_absolute_or_file_path :: "string \<Rightarrow> bool" where
  "is_absolute_or_file_path v \<longleftrightarrow>
     starts_with v ''/'' \<or> starts_with v ''file://'' \<or>
     (3 \<le> length v \<and> is_ascii_alphabetic (v ! 0) \<and> v ! 1 = CHR '':'' \<and>
      (v ! 2 = CHR ''/'' \<or> v ! 2 = CHR 0x5C))"

definition validate_resource_reference :: "string \<Rightarrow> unit rt" where
  "validate_resource_reference reference =
     (if reference = [] \<or> 512 < length reference
      then Inl (InvalidDefinition ''resource reference must be between 1 and 512 bytes'')
      else if is_absolute_or_file_path reference
      then Inl (InvalidDefinition ''runtime manifests cannot contain filesystem paths'')
      else Inr ())"

definition normalize_key :: "string \<Rightarrow> string" where
  "normalize_key key = map ascii_lower (filter is_ascii_alphanumeric key)"

fun validate_portable_value :: "json \<Rightarrow> string \<Rightarrow> unit rt" where
  "validate_portable_value (JObject kvs) path =
     for_each (\<lambda>(key, v).
       if normalize_key key \<in> set SENSITIVE_KEYS
       then Inl (InvalidDefinition
              (''runtime manifest '' @ path @ '' contains a credential field''))
       else validate_portable_value v path) kvs"
| "validate_portable_value (JArray vs) path = for_each (\<lambda>v. validate_portable_value v path) vs"
| "validate_portable_value (JString v) path =
     (if is_absolute_or_file_path v
      then Inl (InvalidDefinition
             (''runtime manifest '' @ path @ '' contains a filesystem path''))
      else Inr ())"
| "validate_portable_value _ path = Inr ()"

definition validate_portable_provider_value :: "json \<Rightarrow> string \<Rightarrow> unit rt" where
  "validate_portable_provider_value v path = validate_portable_value v (''provider '' @ path)"

section \<open>Manifest validation\<close>

definition RuntimeManifest_new :: "string \<Rightarrow> runtime_manifest" where
  "RuntimeManifest_new project =
     \<lparr>schema_version = RUNTIME_MANIFEST_SCHEMA_VERSION, manifest_project_id = project,
      manifest_providers = [], manifest_agents = [], manifest_endpoints = [],
      manifest_metadata = empty_object\<rparr>"

definition to_unchecked_json :: "codec \<Rightarrow> runtime_manifest \<Rightarrow> string rt" where
  "to_unchecked_json c m =
     (case encode_manifest c m of Inl e \<Rightarrow> Inl (Snapshot e) | Inr bytes \<Rightarrow> Inr bytes)"

definition check_provider :: "provider_requirement \<Rightarrow> string set \<Rightarrow> string set rt" where
  "check_provider p provider_ids =
     and_then (validate_portable_identifier ''provider'' (requirement_id p)) (\<lambda>_.
     and_then (validate_portable_identifier ''provider type'' (requirement_type p)) (\<lambda>_.
     and_then (ensure (requirement_id p \<notin> provider_ids)
       (duplicate ''provider'' (requirement_id p))) (\<lambda>_.
     and_then (validate_capabilities (requirement_capabilities p)) (\<lambda>_.
     and_then (validate_portable_provider_value (requirement_settings p) ''settings'') (\<lambda>_.
     and_then (for_each (\<lambda>(name, reference).
       and_then (validate_portable_identifier ''resource'' name)
         (\<lambda>_. validate_resource_reference reference)) (requirement_resources p)) (\<lambda>_.
     Inr (insert (requirement_id p) provider_ids)))))))"

definition check_agent ::
    "string set \<Rightarrow> agent_definition \<Rightarrow> string set \<Rightarrow> string set rt" where
  "check_agent provider_ids a agent_ids =
     and_then (validate_portable_identifier ''agent'' (agent_id a)) (\<lambda>_.
     and_then (validate_portable_identifier ''provider'' (agent_provider a)) (\<lambda>_.
     and_then (ensure (trim (agent_name a) \<noteq> [])
       (InvalidDefinition ''agent name is required'')) (\<lambda>_.
     and_then (ensure (agent_provider a \<in> provider_ids)
       (ProviderNotFound (agent_provider a))) (\<lambda>_.
     and_then (ensure (agent_id a \<notin> agent_ids) (duplicate ''agent'' (agent_id a))) (\<lambda>_.
     and_then (validate_capabilities (agent_capabilities a)) (\<lambda>_.
     and_then (validate_portable_value (agent_metadata a) ''agent metadata'') (\<lambda>_.
     Inr (insert (agent_id a) agent_ids))))))))"

definition check_endpoint ::
    "agent_definition list \<Rightarrow> string set \<Rightarrow> endpoint_definition \<Rightarrow> string set
      \<Rightarrow> string set rt" where
  "check_endpoint agents agent_ids e endpoint_names =
     and_then (validate_portable_identifier ''endpoint'' (endpoint_name e)) (\<lambda>_.
     and_then (validate_portable_identifier ''agent'' (endpoint_agent e)) (\<lambda>_.
     and_then (validate_portable_identifier ''capability'' (endpoint_capability e)) (\<lambda>_.
     and_then (ensure (endpoint_agent e \<in> agent_ids) (AgentNotFound (endpoint_agent e))) (\<lambda>_.
     and_then (ensure (endpoint_name e \<notin> endpoint_names)
       (duplicate ''endpoint'' (endpoint_name e))) (\<lambda>_.
     and_then (ensure (1 \<le> endpoint_timeout_ms e \<and>
         endpoint_timeout_ms e \<le> MAX_ENDPOINT_TIMEOUT_MS)
       (InvalidDefinition (''endpoint timeout must be between 1 and '' @
          show_nat (unat MAX_ENDPOINT_TIMEOUT_MS) @ '' milliseconds''))) (\<lambda>_.
     and_then (ok_or (find (\<lambda>a. agent_id a = endpoint_agent e) agents)
       (AgentNotFound (endpoint_agent e))) (\<lambda>agent.
     and_then (ensure (endpoint_capability e \<in> set (agent_capabilities agent))
       (CapabilityUnavailable (agent_provider agent) (endpoint_capability e))) (\<lambda>_.
     Inr (insert (endpoint_name e) endpoint_names)))))))))"

definition RuntimeManifest_validate :: "codec \<Rightarrow> runtime_manifest \<Rightarrow> unit rt" where
  "RuntimeManifest_validate c m =
     and_then (ensure (schema_version m = RUNTIME_MANIFEST_SCHEMA_VERSION)
       (InvalidDefinition (''unsupported runtime manifest schema version '' @
          show_nat (unat (schema_version m))))) (\<lambda>_.
     and_then (validate_portable_identifier ''project'' (manifest_project_id m)) (\<lambda>_.
     and_then (validate_count ''providers'' (length (manifest_providers m)) MAX_PROVIDERS) (\<lambda>_.
     and_then (validate_count ''agents'' (length (manifest_agents m)) MAX_AGENTS) (\<lambda>_.
     and_then (validate_count ''endpoints'' (length (manifest_endpoints m)) MAX_ENDPOINTS) (\<lambda>_.
     and_then (fold_result check_provider (manifest_providers m) {}) (\<lambda>provider_ids.
     and_then (fold_result (check_agent provider_ids) (manifest_agents m) {}) (\<lambda>agent_ids.
     and_then (fold_result (check_endpoint (manifest_agents m) agent_ids)
       (manifest_endpoints m) {}) (\<lambda>_.
     and_then (validate_portable_value (manifest_metadata m) ''manifest metadata'') (\<lambda>_.
     and_then (to_unchecked_json c m) (\<lambda>bytes.
     ensure (length bytes \<le> MAX_MANIFEST_BYTES)
       (InvalidDefinition ''runtime manifest is too large'')))))))))))"

definition RuntimeManifest_to_json :: "codec \<Rightarrow> runtime_manifest \<Rightarrow> string rt" where
  "RuntimeManifest_to_json c m =
     and_then (RuntimeManifest_validate c m) (\<lambda>_.
     case encode_manifest c m of Inl e \<Rightarrow> Inl (Snapshot e) | Inr bytes \<Rightarrow> Inr bytes)"

definition RuntimeManifest_from_json :: "codec \<Rightarrow> string \<Rightarrow> runtime_manifest rt" where
  "RuntimeManifest_from_json c bytes =
     (if MAX_MANIFEST_BYTES < length bytes
      then Inl (InvalidDefinition ''runtime manifest is too large'')
      else case decode_manifest c bytes of
        Inl e \<Rightarrow> Inl (InvalidDefinition e)
      | Inr m \<Rightarrow> and_then (RuntimeManifest_validate c m) (\<lambda>_. Inr m))"

definition content_hash :: "codec \<Rightarrow> runtime_manifest \<Rightarrow> string rt" where
  "content_hash c m =
     and_then (RuntimeManifest_to_json c m) (\<lambda>bytes.
     Inr (''sha256:'' @ hex (sha256 c bytes)))"

section \<open>Releases and trace records\<close>

definition zero_version_error :: runtime_error where
  "zero_version_error =
     InvalidDefinition ''runtime release version must be greater than zero''"

definition RuntimeRelease_new ::
    "codec \<Rightarrow> u64 \<Rightarrow> runtime_manifest \<Rightarrow> runtime_release rt" where
  "RuntimeRelease_new c version manifest =
     (if version = 0 then Inl zero_version_error
      else and_then (RuntimeManifest_validate c manifest) (\<lambda>_.
        and_then (content_hash c manifest) (\<lambda>hash.
        Inr \<lparr>release_version = version, release_content_hash = hash,
             release_manifest = manifest\<rparr>)))"

definition RuntimeRelease_validate :: "codec \<Rightarrow> runtime_release \<Rightarrow> unit rt" where
  "RuntimeRelease_validate c r =
     (if release_version r = 0 then Inl zero_version_error
      else and_then (RuntimeManifest_validate c (release_manifest r)) (\<lambda>_.
        and_then (content_hash c (release_manifest r)) (\<lambda>hash.
        ensure (release_content_hash r = hash) (InvalidDefinition
          ''runtime release content hash does not match its manifest''))))"

definition validate_optional :: "string \<Rightarrow> string option \<Rightarrow> unit rt" where
  "validate_optional kind v =
     (case v of None \<Rightarrow> Inr () | Some x \<Rightarrow> validate_portable_identifier kind x)"

definition RuntimeTraceRecord_validate :: "runtime_trace_record \<Rightarrow> unit rt" where
  "RuntimeTraceRecord_validate t =
     and_then (validate_trace_identifier ''trace'' (trace_id t)) (\<lambda>_.
     and_then (validate_portable_identifier ''project'' (trace_project_id t)) (\<lambda>_.
     and_then (validate_trace_identifier ''invocation'' (trace_invocation_id t)) (\<lambda>_.
     and_then (validate_portable_identifier ''endpoint'' (trace_endpoint t)) (\<lambda>_.
     and_then (for_each (\<lambda>(kind, v). validate_optional kind v)
       [(''agent'', trace_agent t), (''provider'', trace_provider t),
        (''capability'', trace_capability t)]) (\<lambda>_.
     and_then (ensure (trace_status t \<in> {''completed'', ''cancelled'', ''error''})
       (InvalidDefinition ''runtime trace status is invalid'')) (\<lambda>_.
     and_then (ensure (trace_duration_ms t \<le> 24 * 60 * 60 * 1000)
       (InvalidDefinition ''runtime trace duration is invalid'')) (\<lambda>_.
     ensure (trace_created_at_ms t \<noteq> 0)
       (InvalidDefinition ''runtime trace timestamp is invalid''))))))))"

section \<open>What validation guarantees\<close>

text \<open>Every key and every string leaf of a value, at any depth.\<close>

fun json_keys :: "json \<Rightarrow> string set" where
  "json_keys (JObject kvs) = fst ` set kvs \<union> (\<Union>(k, v) \<in> set kvs. json_keys v)"
| "json_keys (JArray vs) = (\<Union>v \<in> set vs. json_keys v)"
| "json_keys _ = {}"

fun json_strings :: "json \<Rightarrow> string set" where
  "json_strings (JObject kvs) = (\<Union>(k, v) \<in> set kvs. json_strings v)"
| "json_strings (JArray vs) = (\<Union>v \<in> set vs. json_strings v)"
| "json_strings (JString s) = {s}"
| "json_strings _ = {}"

definition portable_value :: "json \<Rightarrow> bool" where
  "portable_value v \<longleftrightarrow>
     (\<forall>k \<in> json_keys v. normalize_key k \<notin> set SENSITIVE_KEYS) \<and>
     (\<forall>s \<in> json_strings v. \<not> is_absolute_or_file_path s)"

lemma portable_value_simps:
  "portable_value (JObject kvs) \<longleftrightarrow>
    (\<forall>p \<in> set kvs. normalize_key (fst p) \<notin> set SENSITIVE_KEYS \<and> portable_value (snd p))"
  "portable_value (JArray vs) \<longleftrightarrow> (\<forall>v \<in> set vs. portable_value v)"
  "portable_value (JString s) \<longleftrightarrow> \<not> is_absolute_or_file_path s"
  "portable_value JNull" "portable_value (JBool b)" "portable_value (JNumber n)"
  by (auto simp: portable_value_def split_beta)

lemma validate_portable_value_iff:
  "validate_portable_value v path = Inr u \<longleftrightarrow> portable_value v"
proof (induction v path rule: validate_portable_value.induct)
  case (1 kvs path)
  have "(case p of (key, v) \<Rightarrow>
      if normalize_key key \<in> set SENSITIVE_KEYS then Inl e else validate_portable_value v path)
      = Inr () \<longleftrightarrow>
    normalize_key (fst p) \<notin> set SENSITIVE_KEYS \<and> portable_value (snd p)"
    if "p \<in> set kvs" for p e
    using 1 [OF that, of "fst p" "snd p"] by (simp add: split_beta)
  then show ?case by (simp add: portable_value_simps)
next
  case (2 vs path)
  then show ?case by (simp add: portable_value_simps)
qed (auto simp: portable_value_simps)

lemma validate_portable_identifier_iff [simp]:
  "validate_portable_identifier kind v = Inr u \<longleftrightarrow> portable_identifier v"
  by (auto simp: validate_portable_identifier_def portable_identifier_def)

lemma validate_count_iff [simp]: "validate_count kind n k = Inr u \<longleftrightarrow> n \<le> k"
  by (auto simp: validate_count_def)

definition portable_capabilities :: "string list \<Rightarrow> bool" where
  "portable_capabilities cs \<longleftrightarrow> cs \<noteq> [] \<and> list_all portable_identifier cs"

lemma validate_capabilities_iff [simp]:
  "validate_capabilities cs = Inr u \<longleftrightarrow> portable_capabilities cs"
  by (auto simp: validate_capabilities_def portable_capabilities_def list_all_iff)

definition portable_resource :: "string \<times> string \<Rightarrow> bool" where
  "portable_resource r \<longleftrightarrow> portable_identifier (fst r) \<and> snd r \<noteq> [] \<and> length (snd r) \<le> 512 \<and>
     \<not> is_absolute_or_file_path (snd r)"

lemma validate_resource_reference_iff:
  "validate_resource_reference r = Inr u \<longleftrightarrow>
    r \<noteq> [] \<and> length r \<le> 512 \<and> \<not> is_absolute_or_file_path r"
  by (auto simp: validate_resource_reference_def)

definition valid_provider :: "provider_requirement \<Rightarrow> bool" where
  "valid_provider p \<longleftrightarrow>
     portable_identifier (requirement_id p) \<and> portable_identifier (requirement_type p) \<and>
     portable_capabilities (requirement_capabilities p) \<and>
     portable_value (requirement_settings p) \<and>
     (\<forall>r \<in> set (requirement_resources p). portable_resource r)"

definition valid_agent :: "string set \<Rightarrow> agent_definition \<Rightarrow> bool" where
  "valid_agent provider_ids a \<longleftrightarrow>
     portable_identifier (agent_id a) \<and> portable_identifier (agent_provider a) \<and>
     trim (agent_name a) \<noteq> [] \<and> agent_provider a \<in> provider_ids \<and>
     portable_capabilities (agent_capabilities a) \<and> portable_value (agent_metadata a)"

definition valid_endpoint :: "agent_definition list \<Rightarrow> endpoint_definition \<Rightarrow> bool" where
  "valid_endpoint agents e \<longleftrightarrow>
     portable_identifier (endpoint_name e) \<and> portable_identifier (endpoint_agent e) \<and>
     portable_identifier (endpoint_capability e) \<and>
     1 \<le> endpoint_timeout_ms e \<and> endpoint_timeout_ms e \<le> MAX_ENDPOINT_TIMEOUT_MS \<and>
     (\<exists>a \<in> set agents. agent_id a = endpoint_agent e \<and>
        endpoint_capability e \<in> set (agent_capabilities a))"

definition valid_manifest :: "codec \<Rightarrow> runtime_manifest \<Rightarrow> bool" where
  "valid_manifest c m \<longleftrightarrow>
     schema_version m = RUNTIME_MANIFEST_SCHEMA_VERSION \<and>
     portable_identifier (manifest_project_id m) \<and>
     length (manifest_providers m) \<le> MAX_PROVIDERS \<and>
     length (manifest_agents m) \<le> MAX_AGENTS \<and>
     length (manifest_endpoints m) \<le> MAX_ENDPOINTS \<and>
     (\<forall>p \<in> set (manifest_providers m). valid_provider p) \<and>
     distinct (map requirement_id (manifest_providers m)) \<and>
     (\<forall>a \<in> set (manifest_agents m).
        valid_agent (requirement_id ` set (manifest_providers m)) a) \<and>
     distinct (map agent_id (manifest_agents m)) \<and>
     (\<forall>e \<in> set (manifest_endpoints m). valid_endpoint (manifest_agents m) e) \<and>
     distinct (map endpoint_name (manifest_endpoints m)) \<and>
     portable_value (manifest_metadata m) \<and>
     (\<exists>bytes. encode_manifest c m = Inr bytes \<and> length bytes \<le> MAX_MANIFEST_BYTES)"

lemma check_provider_iff:
  "check_provider p s = Inr t \<longleftrightarrow>
    valid_provider p \<and> requirement_id p \<notin> s \<and> t = insert (requirement_id p) s"
  by (auto simp: check_provider_def valid_provider_def and_then_eq_Inr portable_resource_def
      validate_portable_provider_value_def validate_portable_value_iff
      validate_resource_reference_iff split: prod.splits)

lemma check_agent_iff:
  "check_agent ps a s = Inr t \<longleftrightarrow>
    valid_agent ps a \<and> agent_id a \<notin> s \<and> t = insert (agent_id a) s"
  by (auto simp: check_agent_def valid_agent_def and_then_eq_Inr validate_portable_value_iff)

lemma find_unique_key:
  assumes "distinct (map key xs)" and "x \<in> set xs"
  shows "find (\<lambda>y. key y = key x) xs = Some x"
  using assms by (induction xs) (auto simp: rev_image_eqI)

lemma distinct_key_unique:
  assumes "distinct (map key xs)" and "x \<in> set xs" and "key x = k"
  shows "\<exists>!y. y \<in> set xs \<and> key y = k"
  using assms by (auto simp: distinct_map dest: inj_onD)

lemma find_agent_iff:
  assumes "distinct (map agent_id agents)"
  shows "find (\<lambda>a. agent_id a = i) agents = Some a \<longleftrightarrow> a \<in> set agents \<and> agent_id a = i"
proof
  assume "find (\<lambda>a. agent_id a = i) agents = Some a"
  then show "a \<in> set agents \<and> agent_id a = i" by (auto simp: find_Some_iff)
next
  assume "a \<in> set agents \<and> agent_id a = i"
  then show "find (\<lambda>a. agent_id a = i) agents = Some a"
    using find_unique_key [OF assms, of a] by auto
qed

lemma check_endpoint_iff:
  assumes "distinct (map agent_id agents)" and "ids = agent_id ` set agents"
  shows "check_endpoint agents ids e s = Inr t \<longleftrightarrow>
    valid_endpoint agents e \<and> endpoint_name e \<notin> s \<and> t = insert (endpoint_name e) s"
proof -
  have "endpoint_agent e \<in> ids" if "a \<in> set agents" "agent_id a = endpoint_agent e" for a
    using that assms(2) by force
  then show ?thesis
    by (auto simp: check_endpoint_def valid_endpoint_def and_then_eq_Inr
        find_agent_iff [OF assms(1)])
qed

lemma to_unchecked_json_iff:
  "to_unchecked_json c m = Inr bytes \<longleftrightarrow> encode_manifest c m = Inr bytes"
  by (simp add: to_unchecked_json_def split: sum.splits)

lemmas manifest_fold_iffs =
  fold_result_unique [where f = check_provider, OF check_provider_iff]
  fold_result_unique [where f = "check_agent ps" for ps, OF check_agent_iff]

lemma fold_check_endpoint_iff:
  assumes "distinct (map agent_id agents)"
  shows "fold_result (check_endpoint agents (agent_id ` set agents)) es {} = Inr t \<longleftrightarrow>
    (\<forall>e \<in> set es. valid_endpoint agents e) \<and> distinct (map endpoint_name es) \<and>
    t = endpoint_name ` set es"
  using fold_result_unique [where f = "check_endpoint agents (agent_id ` set agents)",
      OF check_endpoint_iff [OF assms refl], of es "{}" t]
  by simp

lemma RuntimeManifest_validate_iff:
  "RuntimeManifest_validate c m = Inr u \<longleftrightarrow> valid_manifest c m"
  by (auto simp: RuntimeManifest_validate_def valid_manifest_def and_then_eq_Inr
      manifest_fold_iffs fold_check_endpoint_iff to_unchecked_json_iff validate_portable_value_iff)

lemma RuntimeManifest_to_json_iff:
  "RuntimeManifest_to_json c m = Inr bytes \<longleftrightarrow>
    valid_manifest c m \<and> encode_manifest c m = Inr bytes"
  by (auto simp: RuntimeManifest_to_json_def and_then_eq_Inr RuntimeManifest_validate_iff
      split: sum.splits)

lemma RuntimeRelease_validate_iff:
  "RuntimeRelease_validate c r = Inr u \<longleftrightarrow>
    release_version r \<noteq> 0 \<and> valid_manifest c (release_manifest r) \<and>
    content_hash c (release_manifest r) = Inr (release_content_hash r)"
  by (auto simp: RuntimeRelease_validate_def and_then_eq_Inr RuntimeManifest_validate_iff)

lemma RuntimeRelease_new_iff:
  "RuntimeRelease_new c v m = Inr r \<longleftrightarrow>
    v \<noteq> 0 \<and> valid_manifest c m \<and> release_version r = v \<and> release_manifest r = m \<and>
    content_hash c m = Inr (release_content_hash r)"
  by (cases r) (auto simp: RuntimeRelease_new_def and_then_eq_Inr RuntimeManifest_validate_iff)

section \<open>A codec and a manifest to evaluate on\<close>

definition sample_manifest :: runtime_manifest where
  "sample_manifest =
     \<lparr>schema_version = 1, manifest_project_id = ''demo'',
      manifest_providers =
        [\<lparr>requirement_id = ''llama'', requirement_type = ''llama.cpp'',
          requirement_capabilities = [''text.generate''], requirement_settings = empty_object,
          requirement_resources = [(''model'', ''models:base'')]\<rparr>],
      manifest_agents =
        [\<lparr>agent_id = ''writer'', agent_name = ''Writer'', agent_provider = ''llama'',
          agent_capabilities = [''text.generate''], agent_metadata = empty_object\<rparr>],
      manifest_endpoints =
        [\<lparr>endpoint_name = ''chat'', endpoint_agent = ''writer'',
          endpoint_capability = ''text.generate'', endpoint_timeout_ms = 30000\<rparr>],
      manifest_metadata = empty_object\<rparr>"

definition sample_codec :: codec where
  "sample_codec =
     \<lparr>encode_manifest = (\<lambda>m. Inr (manifest_project_id m)),
      decode_manifest = (\<lambda>bytes. if bytes = ''demo'' then Inr sample_manifest else Inl ''syntax''),
      sha256 = (\<lambda>bytes. take 2 bytes)\<rparr>"

lemmas sample_manifest_defs =
  sample_manifest_def sample_codec_def RUNTIME_MANIFEST_SCHEMA_VERSION_def MAX_PROVIDERS_def
  MAX_AGENTS_def MAX_ENDPOINTS_def MAX_MANIFEST_BYTES_def MAX_ENDPOINT_TIMEOUT_MS_def
  portable_identifier_def portable_byte_def is_ascii_alphanumeric_def is_ascii_alphabetic_def
  is_ascii_digit_def portable_capabilities_def portable_resource_def is_absolute_or_file_path_def
  starts_with_def

lemma sample_manifest_valid: "valid_manifest sample_codec sample_manifest"
  by (simp add: valid_manifest_def valid_provider_def valid_agent_def valid_endpoint_def
      sample_manifest_defs portable_value_simps empty_object_def trim_def is_whitespace_def
      utf8_len_def)

section \<open>Properties\<close>

text \<open>C4: validation of a manifest accepts exactly the well-formed manifests: the schema version and
  counts are in range, every identifier is portable, identifiers are unique, every agent names a
  declared provider, every endpoint an agent that offers its capability, no value anywhere has a
  credential key or a file path, and the encoding fits the size limit.
\<close>

theorem manifest_validation_exact:
  "RuntimeManifest_validate c m = Inr () \<longleftrightarrow> valid_manifest c m"
  by (rule RuntimeManifest_validate_iff)

text \<open>in a manifest that validates, every endpoint resolves: exactly one agent has the name the
  endpoint gives, that agent offers the endpoint's capability, and exactly one provider
  requirement has the identifier the agent gives.
\<close>

theorem manifest_endpoints_resolve:
  assumes valid: "RuntimeManifest_validate c m = Inr ()" and e: "e \<in> set (manifest_endpoints m)"
  shows "(\<exists>!a. a \<in> set (manifest_agents m) \<and> agent_id a = endpoint_agent e) \<and>
    (\<exists>a \<in> set (manifest_agents m). agent_id a = endpoint_agent e \<and>
       endpoint_capability e \<in> set (agent_capabilities a) \<and>
       (\<exists>!p. p \<in> set (manifest_providers m) \<and> requirement_id p = agent_provider a))"
proof -
  from valid have m: "valid_manifest c m" by (simp add: RuntimeManifest_validate_iff)
  from m e obtain a where a: "a \<in> set (manifest_agents m)" "agent_id a = endpoint_agent e"
      "endpoint_capability e \<in> set (agent_capabilities a)"
    by (auto simp: valid_manifest_def valid_endpoint_def)
  from m a(1) obtain p where p: "p \<in> set (manifest_providers m)" "requirement_id p = agent_provider a"
    by (auto simp: valid_manifest_def valid_agent_def)
  have "distinct (map agent_id (manifest_agents m))"
    and "distinct (map requirement_id (manifest_providers m))"
    using m by (auto simp: valid_manifest_def)
  from distinct_key_unique [OF this(1) a(1,2)] distinct_key_unique [OF this(2) p] a
  show ?thesis by blast
qed

theorem manifest_endpoints_resolve_witness:
  "\<exists>!a. a \<in> set (manifest_agents sample_manifest) \<and>
     agent_id a = endpoint_agent (hd (manifest_endpoints sample_manifest))"
  using manifest_endpoints_resolve [of sample_codec sample_manifest
      "hd (manifest_endpoints sample_manifest)"] sample_manifest_valid
  by (simp add: RuntimeManifest_validate_iff sample_manifest_def)

text \<open>a release validates exactly when making a release of its version from its manifest gives
  that release, so a stored release whose hash or manifest was altered is refused.
\<close>

theorem release_validation_exact:
  "RuntimeRelease_validate c r = Inr () \<longleftrightarrow>
    RuntimeRelease_new c (release_version r) (release_manifest r) = Inr r"
  by (auto simp: RuntimeRelease_validate_iff RuntimeRelease_new_iff)

text \<open>a manifest that is exported to JSON is imported again unchanged, given that the JSON codec
  decodes what it encoded.
\<close>

theorem manifest_json_roundtrip:
  assumes codec: "\<And>bytes. encode_manifest c m = Inr bytes \<Longrightarrow> decode_manifest c bytes = Inr m"
    and export: "RuntimeManifest_to_json c m = Inr bytes"
  shows "RuntimeManifest_from_json c bytes = Inr m"
proof -
  from export have m: "valid_manifest c m" and enc: "encode_manifest c m = Inr bytes"
    by (auto simp: RuntimeManifest_to_json_iff)
  with codec have "decode_manifest c bytes = Inr m" and "length bytes \<le> MAX_MANIFEST_BYTES"
    by (auto simp: valid_manifest_def)
  with m show ?thesis
    by (simp add: RuntimeManifest_from_json_def and_then_eq_Inr RuntimeManifest_validate_iff)
qed

theorem manifest_json_roundtrip_witness:
  "RuntimeManifest_to_json sample_codec sample_manifest = Inr ''demo'' \<and>
   RuntimeManifest_from_json sample_codec ''demo'' = Inr sample_manifest"
proof -
  have enc: "encode_manifest sample_codec sample_manifest = Inr ''demo''"
    and dec: "decode_manifest sample_codec ''demo'' = Inr sample_manifest"
    by (simp_all add: sample_codec_def sample_manifest_def)
  have out: "RuntimeManifest_to_json sample_codec sample_manifest = Inr ''demo''"
    by (simp add: RuntimeManifest_to_json_iff sample_manifest_valid enc)
  have "RuntimeManifest_from_json sample_codec ''demo'' = Inr sample_manifest"
    by (rule manifest_json_roundtrip [OF _ out]) (use enc dec in auto)
  with out show ?thesis ..
qed

section \<open>What the credential filter lets through\<close>

text \<open>
  The filter compares whole normalised keys, so a key that merely ends with a sensitive word is
  accepted.
\<close>

theorem access_token_accepted:
  "validate_portable_value (JObject [(''accessToken'', JString ''abc'')]) ''manifest metadata''
    = Inr ()"
  by (simp add: normalize_key_def SENSITIVE_KEYS_def sample_manifest_defs ascii_lower_def)

end
