(* ===== verification/Runtime_Store.thy ===== *)
theory Runtime_Store
  imports Runtime_Kernel Manifest
begin

text \<open>
  Persistence of the application runtime (\<open>crates/vifu-runtime/src/application.rs\<close>): the
  \<open>RuntimeStore\<close> trait as a dictionary of operations over a store state (\<open>store_ops\<close>),
  its default methods, the in-memory implementation, and the interface \<open>release_store\<close>
  with the laws the runtime relies on, interpreted on the in-memory store. Lock poisoning (a
  panic while a guard is held) is not modelled: no critical section of the store panics.
\<close>

section \<open>The trait\<close>

record 's store_ops =
  so_load :: "'s \<Rightarrow> string \<Rightarrow> string \<Rightarrow> runtime_snapshot option rt"
  so_save :: "'s \<Rightarrow> string \<Rightarrow> string \<Rightarrow> runtime_snapshot \<Rightarrow> 's rt"
  so_save_release :: "'s \<Rightarrow> runtime_release \<Rightarrow> 's rt"
  so_load_release :: "'s \<Rightarrow> string \<Rightarrow> u64 \<Rightarrow> runtime_release option rt"
  so_list_releases :: "'s \<Rightarrow> string \<Rightarrow> runtime_release list rt"
  so_active_release :: "'s \<Rightarrow> string \<Rightarrow> u64 option rt"
  so_set_active_release :: "'s \<Rightarrow> string \<Rightarrow> u64 \<Rightarrow> 's rt"
  so_save_local_provider_binding :: "'s \<Rightarrow> string \<Rightarrow> local_provider_binding \<Rightarrow> 's rt"
  so_local_provider_bindings :: "'s \<Rightarrow> string \<Rightarrow> local_provider_binding list rt"
  so_enqueue_trace :: "'s \<Rightarrow> runtime_trace_record \<Rightarrow> 's rt"
  so_pending_traces :: "'s \<Rightarrow> nat \<Rightarrow> runtime_trace_record list rt"
  so_acknowledge_traces :: "'s \<Rightarrow> string list \<Rightarrow> 's rt"

text \<open>A store that implements only \<open>load\<close> and \<open>save\<close> gets the trait's default methods.\<close>

definition default_store_ops ::
    "('s \<Rightarrow> string \<Rightarrow> string \<Rightarrow> runtime_snapshot option rt) \<Rightarrow>
     ('s \<Rightarrow> string \<Rightarrow> string \<Rightarrow> runtime_snapshot \<Rightarrow> 's rt) \<Rightarrow> 's store_ops" where
  "default_store_ops load save =
     \<lparr>so_load = load,
      so_save = save,
      so_save_release = (\<lambda>s r. Inl (Store ''this runtime store does not support releases'')),
      so_load_release = (\<lambda>s p v. Inr None),
      so_list_releases = (\<lambda>s p. Inr []),
      so_active_release = (\<lambda>s p. Inr None),
      so_set_active_release =
        (\<lambda>s p v. Inl (Store ''this runtime store does not support releases'')),
      so_save_local_provider_binding =
        (\<lambda>s p b. Inl (Store ''this runtime store does not support provider bindings'')),
      so_local_provider_bindings = (\<lambda>s p. Inr []),
      so_enqueue_trace = (\<lambda>s t. Inr s),
      so_pending_traces = (\<lambda>s n. Inr []),
      so_acknowledge_traces = (\<lambda>s ids. Inr s)\<rparr>"

section \<open>The in-memory store\<close>

record memory_store =
  ms_snapshots :: "string \<times> string \<rightharpoonup> runtime_snapshot"
  ms_releases :: "((string \<times> u64) \<times> runtime_release) list"
  ms_active_releases :: "string \<rightharpoonup> u64"
  ms_provider_bindings :: "((string \<times> string) \<times> local_provider_binding) list"
  ms_trace_outbox :: "runtime_trace_record list"

definition MemoryRuntimeStore_default :: memory_store where
  "MemoryRuntimeStore_default =
     \<lparr>ms_snapshots = Map.empty, ms_releases = [], ms_active_releases = Map.empty,
      ms_provider_bindings = [], ms_trace_outbox = []\<rparr>"

definition memory_load :: "memory_store \<Rightarrow> string \<Rightarrow> string \<Rightarrow> runtime_snapshot option rt" where
  "memory_load s project session = Inr (ms_snapshots s (project, session))"

definition memory_save ::
    "memory_store \<Rightarrow> string \<Rightarrow> string \<Rightarrow> runtime_snapshot \<Rightarrow> memory_store rt" where
  "memory_save s project session snapshot =
     Inr (s\<lparr>ms_snapshots := (ms_snapshots s)((project, session) \<mapsto> snapshot)\<rparr>)"

definition memory_save_release :: "codec \<Rightarrow> memory_store \<Rightarrow> runtime_release \<Rightarrow> memory_store rt" where
  "memory_save_release c s r =
     and_then (RuntimeRelease_validate c r) (\<lambda>_.
     let key = (manifest_project_id (release_manifest r), release_version r)
     in case map_of (ms_releases s) key of
          Some existing \<Rightarrow>
            if existing \<noteq> r then Inl (Store ''runtime release versions are immutable'')
            else Inr s
        | None \<Rightarrow> Inr (s\<lparr>ms_releases := AList.update key r (ms_releases s)\<rparr>))"

definition memory_load_release ::
    "memory_store \<Rightarrow> string \<Rightarrow> u64 \<Rightarrow> runtime_release option rt" where
  "memory_load_release s project version = Inr (map_of (ms_releases s) (project, version))"

definition memory_list_releases :: "memory_store \<Rightarrow> string \<Rightarrow> runtime_release list rt" where
  "memory_list_releases s project =
     Inr (sort_key (\<lambda>r. - uint (release_version r))
       (map snd (filter (\<lambda>((stored_project, _), _). stored_project = project) (ms_releases s))))"

definition memory_active_release :: "memory_store \<Rightarrow> string \<Rightarrow> u64 option rt" where
  "memory_active_release s project = Inr (ms_active_releases s project)"

definition memory_set_active_release :: "memory_store \<Rightarrow> string \<Rightarrow> u64 \<Rightarrow> memory_store rt" where
  "memory_set_active_release s project version =
     (if map_of (ms_releases s) (project, version) = None
      then Inl (Store ''runtime release was not found'')
      else Inr (s\<lparr>ms_active_releases := (ms_active_releases s)(project \<mapsto> version)\<rparr>))"

definition memory_save_local_provider_binding ::
    "memory_store \<Rightarrow> string \<Rightarrow> local_provider_binding \<Rightarrow> memory_store rt" where
  "memory_save_local_provider_binding s project b =
     Inr (s\<lparr>ms_provider_bindings :=
       AList.update (project, binding_provider_id b) b (ms_provider_bindings s)\<rparr>)"

definition memory_local_provider_bindings ::
    "memory_store \<Rightarrow> string \<Rightarrow> local_provider_binding list rt" where
  "memory_local_provider_bindings s project =
     Inr (sort_key binding_provider_id
       (map snd (filter (\<lambda>((stored_project, _), _). stored_project = project)
          (ms_provider_bindings s))))"

definition MAX_MEMORY_TRACES :: nat where "MAX_MEMORY_TRACES = 1000"

definition memory_enqueue_trace :: "memory_store \<Rightarrow> runtime_trace_record \<Rightarrow> memory_store rt" where
  "memory_enqueue_trace s t =
     (if list_ex (\<lambda>stored. trace_id stored = trace_id t) (ms_trace_outbox s) then Inr s
      else Inr (s\<lparr>ms_trace_outbox :=
             truncate_front MAX_MEMORY_TRACES (ms_trace_outbox s @ [t])\<rparr>))"

definition memory_pending_traces :: "memory_store \<Rightarrow> nat \<Rightarrow> runtime_trace_record list rt" where
  "memory_pending_traces s limit = Inr (take limit (ms_trace_outbox s))"

definition memory_acknowledge_traces :: "memory_store \<Rightarrow> string list \<Rightarrow> memory_store rt" where
  "memory_acknowledge_traces s ids =
     Inr (s\<lparr>ms_trace_outbox := filter (\<lambda>t. trace_id t \<notin> set ids) (ms_trace_outbox s)\<rparr>)"

definition memory_store_ops :: "codec \<Rightarrow> memory_store store_ops" where
  "memory_store_ops c =
     \<lparr>so_load = memory_load,
      so_save = memory_save,
      so_save_release = memory_save_release c,
      so_load_release = memory_load_release,
      so_list_releases = memory_list_releases,
      so_active_release = memory_active_release,
      so_set_active_release = memory_set_active_release,
      so_save_local_provider_binding = memory_save_local_provider_binding,
      so_local_provider_bindings = memory_local_provider_bindings,
      so_enqueue_trace = memory_enqueue_trace,
      so_pending_traces = memory_pending_traces,
      so_acknowledge_traces = memory_acknowledge_traces\<rparr>"

lemmas memory_read_defs =
  memory_load_def memory_load_release_def memory_active_release_def memory_list_releases_def
  memory_local_provider_bindings_def memory_pending_traces_def

lemmas memory_write_defs =
  memory_save_def memory_save_release_def memory_set_active_release_def
  memory_save_local_provider_binding_def memory_enqueue_trace_def memory_acknowledge_traces_def

lemma memory_store_ops_simps [simp]:
  "so_load (memory_store_ops c) = memory_load"
  "so_save (memory_store_ops c) = memory_save"
  "so_save_release (memory_store_ops c) = memory_save_release c"
  "so_load_release (memory_store_ops c) = memory_load_release"
  "so_list_releases (memory_store_ops c) = memory_list_releases"
  "so_active_release (memory_store_ops c) = memory_active_release"
  "so_set_active_release (memory_store_ops c) = memory_set_active_release"
  "so_enqueue_trace (memory_store_ops c) = memory_enqueue_trace"
  "so_pending_traces (memory_store_ops c) = memory_pending_traces"
  "so_acknowledge_traces (memory_store_ops c) = memory_acknowledge_traces"
  "so_save_local_provider_binding (memory_store_ops c) = memory_save_local_provider_binding"
  "so_local_provider_bindings (memory_store_ops c) = memory_local_provider_bindings"
  by (simp_all add: memory_store_ops_def)

section \<open>The interface the runtime relies on\<close>

definition release_key :: "runtime_release \<Rightarrow> string \<times> u64" where
  "release_key r = (manifest_project_id (release_manifest r), release_version r)"

text \<open>
  Session snapshots: a saved snapshot is what the next load returns, for the snapshots the store
  keeps exactly. A store of texts keeps those its parser reads back, a store of values all of them.
\<close>

locale partial_session_store =
  fixes ops :: "'s store_ops" and inv :: "'s \<Rightarrow> bool" and keeps_snapshot :: "runtime_snapshot \<Rightarrow> bool"
  assumes save_inv: "inv s \<Longrightarrow> so_save ops s p i snap = Inr s' \<Longrightarrow> inv s'"
    and load_save_kept: "inv s \<Longrightarrow> keeps_snapshot snap \<Longrightarrow> so_save ops s p i snap = Inr s' \<Longrightarrow>
      so_load ops s' p i = Inr (Some snap)"
    and load_save_other: "inv s \<Longrightarrow> so_save ops s p i snap = Inr s' \<Longrightarrow> (p', i') \<noteq> (p, i) \<Longrightarrow>
      so_load ops s' p' i' = so_load ops s p' i'"
    and enqueue_trace_inv: "inv s \<Longrightarrow> so_enqueue_trace ops s t = Inr s' \<Longrightarrow> inv s'"
    and load_enqueue_trace: "inv s \<Longrightarrow> so_enqueue_trace ops s t = Inr s' \<Longrightarrow>
      so_load ops s' = so_load ops s"
begin

lemma load_save_partial:
  "inv s \<Longrightarrow> keeps_snapshot snap \<Longrightarrow> so_save ops s p i snap = Inr s' \<Longrightarrow>
    so_load ops s' p' i' = (if (p', i') = (p, i) then Inr (Some snap) else so_load ops s p' i')"
  using load_save_kept load_save_other by auto

lemma save_twice:
  assumes "inv s" and "keeps_snapshot snap'"
    and "so_save ops s p i snap = Inr s'" and "so_save ops s' p i snap' = Inr s''"
  shows "so_load ops s'' p' i' = (if (p', i') = (p, i) then Inr (Some snap') else so_load ops s p' i')"
  using load_save_partial [OF save_inv [OF assms(1,3)] assms(2,4)] load_save_other [OF assms(1,3)]
  by auto

end

locale session_store = partial_session_store ops inv "\<lambda>_. True"
  for ops :: "'s store_ops" and inv :: "'s \<Rightarrow> bool"
begin

lemma load_save: "inv s \<Longrightarrow> so_save ops s p i snap = Inr s' \<Longrightarrow>
    so_load ops s' p' i' = (if (p', i') = (p, i) then Inr (Some snap) else so_load ops s p' i')"
  by (rule load_save_partial) simp_all

lemma load_save_same: "inv s \<Longrightarrow> so_save ops s p i snap = Inr s' \<Longrightarrow> so_load ops s' p i = Inr (Some snap)"
  by (simp add: load_save)

end

text \<open>
  Releases: immutable, keyed by project and version, valid when stored; the active version is
  always one that can be loaded.
\<close>

locale partial_release_store = partial_session_store ops inv keeps_snapshot
  for ops :: "'s store_ops" and inv :: "'s \<Rightarrow> bool" and keeps_snapshot :: "runtime_snapshot \<Rightarrow> bool" +
  fixes keeps_release :: "runtime_release \<Rightarrow> bool" and c :: codec
  assumes save_kept_release_inv:
      "inv s \<Longrightarrow> keeps_release r \<Longrightarrow> so_save_release ops s r = Inr s' \<Longrightarrow> inv s'"
    and set_active_inv: "inv s \<Longrightarrow> so_set_active_release ops s p v = Inr s' \<Longrightarrow> inv s'"
    and save_release_valid:
      "inv s \<Longrightarrow> so_save_release ops s r = Inr s' \<Longrightarrow> RuntimeRelease_validate c r = Inr ()"
    and save_release_immutable:
      "inv s \<Longrightarrow> so_save_release ops s r = Inr s' \<Longrightarrow>
       so_load_release ops s (fst (release_key r)) (snd (release_key r)) = Inr (Some r') \<Longrightarrow> r' = r"
    and load_save_kept_release:
      "inv s \<Longrightarrow> keeps_release r \<Longrightarrow> so_save_release ops s r = Inr s' \<Longrightarrow>
       so_load_release ops s' p v =
         (if (p, v) = release_key r then Inr (Some r) else so_load_release ops s p v)"
    and active_save_release:
      "inv s \<Longrightarrow> so_save_release ops s r = Inr s' \<Longrightarrow>
       so_active_release ops s' p = so_active_release ops s p"
    and load_release_key:
      "inv s \<Longrightarrow> so_load_release ops s p v = Inr (Some r) \<Longrightarrow>
       release_key r = (p, v) \<and> RuntimeRelease_validate c r = Inr ()"
    and active_set_active:
      "inv s \<Longrightarrow> so_set_active_release ops s p v = Inr s' \<Longrightarrow>
       so_active_release ops s' p' = (if p' = p then Inr (Some v) else so_active_release ops s p')"
    and load_set_active:
      "inv s \<Longrightarrow> so_set_active_release ops s p v = Inr s' \<Longrightarrow>
       so_load_release ops s' = so_load_release ops s"
    and set_active_stored:
      "inv s \<Longrightarrow> so_load_release ops s p v = Inr (Some r) \<Longrightarrow>
       \<exists>s'. so_set_active_release ops s p v = Inr s'"
    and active_loadable:
      "inv s \<Longrightarrow> so_active_release ops s p = Inr (Some v) \<Longrightarrow>
       \<exists>r. so_load_release ops s p v = Inr (Some r)"
begin

lemma save_release_again:
  assumes "inv s" and "keeps_release r" and "so_save_release ops s r = Inr s'"
    and "so_save_release ops s' r' = Inr s''" and "release_key r' = release_key r"
  shows "r' = r"
proof -
  have "so_load_release ops s' (fst (release_key r')) (snd (release_key r')) = Inr (Some r)"
    by (simp add: load_save_kept_release [OF assms(1-3)] assms(5))
  from save_release_immutable [OF save_kept_release_inv [OF assms(1-3)] assms(4) this]
  show ?thesis by simp
qed

lemma activate_after_save:
  assumes "inv s" and "keeps_release r" and "so_save_release ops s r = Inr s'"
  obtains s'' where "so_set_active_release ops s' (fst (release_key r)) (snd (release_key r)) = Inr s''"
proof -
  have "so_load_release ops s' (fst (release_key r)) (snd (release_key r)) = Inr (Some r)"
    by (simp add: load_save_kept_release [OF assms])
  from set_active_stored [OF save_kept_release_inv [OF assms] this] that show ?thesis by blast
qed

end

locale release_store = partial_release_store ops inv "\<lambda>_. True" "\<lambda>_. True" c
  for ops :: "'s store_ops" and inv :: "'s \<Rightarrow> bool" and c :: codec
begin

lemma save_release_inv: "inv s \<Longrightarrow> so_save_release ops s r = Inr s' \<Longrightarrow> inv s'"
  by (rule save_kept_release_inv) simp_all

lemma load_save_release:
  "inv s \<Longrightarrow> so_save_release ops s r = Inr s' \<Longrightarrow> so_load_release ops s' p v =
    (if (p, v) = release_key r then Inr (Some r) else so_load_release ops s p v)"
  by (rule load_save_kept_release) simp_all

end

sublocale release_store \<subseteq> session_store ops inv
  by unfold_locales

section \<open>The invariant of the in-memory store\<close>

definition memory_inv :: "codec \<Rightarrow> memory_store \<Rightarrow> bool" where
  "memory_inv c s \<longleftrightarrow>
     distinct (map fst (ms_releases s)) \<and>
     (\<forall>x \<in> set (ms_releases s). fst x = release_key (snd x) \<and>
        RuntimeRelease_validate c (snd x) = Inr ()) \<and>
     (\<forall>p v. ms_active_releases s p = Some v \<longrightarrow> (\<exists>r. map_of (ms_releases s) (p, v) = Some r)) \<and>
     distinct (map fst (ms_provider_bindings s)) \<and>
     (\<forall>x \<in> set (ms_provider_bindings s). snd (fst x) = binding_provider_id (snd x)) \<and>
     distinct (map trace_id (ms_trace_outbox s)) \<and>
     length (ms_trace_outbox s) \<le> MAX_MEMORY_TRACES"

lemma memory_invD:
  assumes "memory_inv c s"
  shows memory_inv_releases: "distinct (map fst (ms_releases s))"
    and memory_inv_release: "map_of (ms_releases s) k = Some r \<Longrightarrow>
      k = release_key r \<and> RuntimeRelease_validate c r = Inr ()"
    and memory_inv_active: "ms_active_releases s p = Some v \<Longrightarrow>
      \<exists>r. map_of (ms_releases s) (p, v) = Some r"
    and memory_inv_traces: "distinct (map trace_id (ms_trace_outbox s))"
    and memory_inv_bound: "length (ms_trace_outbox s) \<le> MAX_MEMORY_TRACES"
  using assms by (auto simp: memory_inv_def dest!: map_of_SomeD)

lemma memory_inv_default: "memory_inv c MemoryRuntimeStore_default"
  by (simp add: memory_inv_def MemoryRuntimeStore_default_def)

lemma memory_inv_save: "memory_inv c s \<Longrightarrow> memory_save s p i snap = Inr s' \<Longrightarrow> memory_inv c s'"
  by (auto simp: memory_save_def memory_inv_def)

lemma set_update_subset:
  "distinct (map fst m) \<Longrightarrow> set (AList.update k v m) \<subseteq> insert (k, v) (set m)"
  by (induction m) auto

lemma memory_inv_save_release:
  assumes inv: "memory_inv c s" and save: "memory_save_release c s r = Inr s'"
  shows "memory_inv c s'"
proof (cases "map_of (ms_releases s) (release_key r)")
  case (Some r')
  with save have "s' = s"
    by (auto simp: memory_save_release_def and_then_eq_Inr release_key_def split: if_splits)
  with inv show ?thesis by simp
next
  case None
  with save have s': "s' = s\<lparr>ms_releases := AList.update (release_key r) r (ms_releases s)\<rparr>"
    and valid: "RuntimeRelease_validate c r = Inr ()"
    by (auto simp: memory_save_release_def and_then_eq_Inr release_key_def split: if_splits)
  have "\<forall>x \<in> set (ms_releases s'). fst x = release_key (snd x) \<and>
      RuntimeRelease_validate c (snd x) = Inr ()"
    using inv valid set_update_subset [of "ms_releases s" "release_key r" r]
    by (auto simp: s' memory_inv_def)
  with inv show ?thesis
    by (auto simp: s' memory_inv_def distinct_keys_update)
qed

lemma memory_inv_set_active:
  "memory_inv c s \<Longrightarrow> memory_set_active_release s p v = Inr s' \<Longrightarrow> memory_inv c s'"
  by (auto simp: memory_set_active_release_def memory_inv_def split: if_splits)

lemma memory_inv_save_binding:
  assumes "memory_inv c s" and "memory_save_local_provider_binding s p b = Inr s'"
  shows "memory_inv c s'"
  using assms set_update_subset [of "ms_provider_bindings s" "(p, binding_provider_id b)" b]
  by (auto simp: memory_save_local_provider_binding_def memory_inv_def distinct_keys_update)

lemma memory_inv_enqueue_trace:
  assumes "memory_inv c s" and "memory_enqueue_trace s t = Inr s'"
  shows "memory_inv c s'"
proof (cases "list_ex (\<lambda>stored. trace_id stored = trace_id t) (ms_trace_outbox s)")
  case False
  then have "distinct (map trace_id (ms_trace_outbox s @ [t]))"
    using memory_inv_traces [OF assms(1)] by (auto simp: list_ex_iff)
  then have "distinct (map trace_id (truncate_front MAX_MEMORY_TRACES (ms_trace_outbox s @ [t])))"
    unfolding truncate_front_drop drop_map [symmetric] by (rule distinct_drop)
  with False assms show ?thesis by (auto simp: memory_enqueue_trace_def memory_inv_def)
qed (use assms in \<open>simp add: memory_enqueue_trace_def\<close>)

lemma memory_inv_acknowledge_traces:
  "memory_inv c s \<Longrightarrow> memory_acknowledge_traces s ids = Inr s' \<Longrightarrow> memory_inv c s'"
  by (auto simp: memory_acknowledge_traces_def memory_inv_def distinct_map_filter
      intro: le_trans [OF length_filter_le])

section \<open>The in-memory store implements the interface\<close>

lemma memory_save_release_cases:
  assumes "memory_inv c s" and "memory_save_release c s r = Inr s'"
  shows "RuntimeRelease_validate c r = Inr ()"
    and "map_of (ms_releases s') = (map_of (ms_releases s))(release_key r \<mapsto> r)"
    and "ms_active_releases s' = ms_active_releases s"
    and "map_of (ms_releases s) (release_key r) = Some r' \<Longrightarrow> r' = r"
  using assms(2)
  by (auto simp: memory_save_release_def and_then_eq_Inr release_key_def Let_def fun_upd_idem
      split: option.splits if_splits)

lemma memory_set_active_cases:
  assumes "memory_set_active_release s p v = Inr s'"
  shows "ms_active_releases s' = (ms_active_releases s)(p \<mapsto> v)"
    and "ms_releases s' = ms_releases s"
  using assms by (auto simp: memory_set_active_release_def split: if_splits)

interpretation memory: release_store "memory_store_ops c" "memory_inv c" c
proof (unfold_locales, goal_cases)
  case (1 s p i snap s')
  then show ?case by (simp add: memory_inv_save)
next
  case (2 s snap p i s')
  then show ?case by (auto simp: memory_save_def memory_load_def)
next
  case (3 s p i snap s' p' i')
  then show ?case by (auto simp: memory_save_def memory_load_def)
next
  case (4 s t s')
  then show ?case by (simp add: memory_inv_enqueue_trace)
next
  case (5 s t s')
  then show ?case
    by (auto simp: memory_enqueue_trace_def memory_load_def fun_eq_iff split: if_splits)
next
  case (6 s r s')
  then show ?case by (simp add: memory_inv_save_release)
next
  case (7 s p v s')
  then show ?case by (simp add: memory_inv_set_active)
next
  case (8 s r s')
  then show ?case by (simp add: memory_save_release_cases(1))
next
  case (9 s r s' r')
  then show ?case
    by (simp add: memory_load_release_def memory_save_release_cases(4))
next
  case (10 s r s' p v)
  then show ?case by (simp add: memory_load_release_def memory_save_release_cases(2))
next
  case (11 s r s' p)
  then show ?case by (simp add: memory_active_release_def memory_save_release_cases(3))
next
  case (12 s p v r)
  then show ?case
    using memory_inv_release [of c s "(p, v)" r] by (simp add: memory_load_release_def)
next
  case (13 s p v s' p')
  then show ?case by (simp add: memory_active_release_def memory_set_active_cases(1))
next
  case (14 s p v s')
  then show ?case by (simp add: fun_eq_iff memory_load_release_def memory_set_active_cases(2))
next
  case (15 s p v r)
  then show ?case by (simp add: memory_load_release_def memory_set_active_release_def)
next
  case (16 s p v)
  then show ?case
    using memory_inv_active [of c s p v]
    by (simp add: memory_load_release_def memory_active_release_def)
qed

section \<open>Histories of the in-memory store\<close>

datatype store_call =
    SaveSession string string runtime_snapshot
  | SaveRelease runtime_release
  | SetActiveRelease string u64
  | SaveBinding string local_provider_binding
  | EnqueueTrace runtime_trace_record
  | AcknowledgeTraces "string list"

fun store_call_result :: "codec \<Rightarrow> store_call \<Rightarrow> memory_store \<Rightarrow> memory_store rt" where
  "store_call_result c (SaveSession p i snap) s = memory_save s p i snap"
| "store_call_result c (SaveRelease r) s = memory_save_release c s r"
| "store_call_result c (SetActiveRelease p v) s = memory_set_active_release s p v"
| "store_call_result c (SaveBinding p b) s = memory_save_local_provider_binding s p b"
| "store_call_result c (EnqueueTrace t) s = memory_enqueue_trace s t"
| "store_call_result c (AcknowledgeTraces ids) s = memory_acknowledge_traces s ids"

text \<open>A call that fails leaves the store as it was.\<close>

definition store_step :: "codec \<Rightarrow> store_call \<Rightarrow> memory_store \<Rightarrow> memory_store" where
  "store_step c x s = (case store_call_result c x s of Inl _ \<Rightarrow> s | Inr s' \<Rightarrow> s')"

definition store_run :: "codec \<Rightarrow> store_call list \<Rightarrow> memory_store" where
  "store_run c xs = fold (store_step c) xs MemoryRuntimeStore_default"

lemmas memory_inv_writes =
  memory_inv_save memory_inv_save_release memory_inv_set_active memory_inv_save_binding
  memory_inv_enqueue_trace memory_inv_acknowledge_traces

lemma store_call_inv: "memory_inv c s \<Longrightarrow> store_call_result c x s = Inr s' \<Longrightarrow> memory_inv c s'"
  by (cases x) (auto intro: memory_inv_writes)

lemma store_step_inv: "memory_inv c s \<Longrightarrow> memory_inv c (store_step c x s)"
  by (auto simp: store_step_def store_call_inv split: sum.splits)

lemma store_steps_inv: "memory_inv c s \<Longrightarrow> memory_inv c (fold (store_step c) xs s)"
  by (induction xs arbitrary: s) (simp_all add: store_step_inv)

lemma store_run_inv: "memory_inv c (store_run c xs)"
  unfolding store_run_def by (rule store_steps_inv) (rule memory_inv_default)

text \<open>What every call does to the releases: nothing, or one save under a new key.\<close>

lemma store_call_loads:
  assumes "memory_inv c s" and "store_call_result c x s = Inr s'"
    and "memory_load_release s p v = Inr (Some r)"
  shows "memory_load_release s' p v = Inr (Some r)"
proof (cases x)
  case (SaveRelease q)
  with assms(2) have save: "memory_save_release c s q = Inr s'" by simp
  show ?thesis
  proof (cases "(p, v) = release_key q")
    case True
    with memory.save_release_immutable [OF assms(1), of q s' r] save assms(3) have "r = q"
      by (cases "release_key q") simp
    with memory.load_save_release [OF assms(1), of q s' p v] save True show ?thesis by simp
  next
    case False
    with memory.load_save_release [OF assms(1), of q s' p v] save assms(3) show ?thesis by simp
  qed
next
  case (SetActiveRelease q w)
  with memory.load_set_active [OF assms(1), of q w s'] assms show ?thesis by simp
qed (use assms in \<open>auto simp: memory_write_defs memory_load_release_def split: if_splits\<close>)

lemma store_steps_loads:
  assumes "memory_inv c s" and "memory_load_release s p v = Inr (Some r)"
  shows "memory_load_release (fold (store_step c) xs s) p v = Inr (Some r)"
  using assms
proof (induction xs arbitrary: s)
  case (Cons x xs)
  have "memory_load_release (store_step c x s) p v = Inr (Some r)"
    using Cons.prems store_call_loads by (auto simp: store_step_def split: sum.splits)
  with Cons.IH [OF store_step_inv [OF Cons.prems(1)]] show ?case by simp
qed simp

lemma releases_of_project:
  assumes "memory_inv c s"
  shows "set (map snd (filter (\<lambda>((p', _), _). p' = p) (ms_releases s))) =
      {r. \<exists>v. memory_load_release s p v = Inr (Some r)}"
    and "distinct (map release_version
      (map snd (filter (\<lambda>((p', _), _). p' = p) (ms_releases s))))"
proof -
  have key: "fst x = release_key (snd x)" if "x \<in> set (ms_releases s)" for x
    using assms that by (auto simp: memory_inv_def)
  have dist: "distinct (map fst (ms_releases s))" using assms by (rule memory_inv_releases)
  show "set (map snd (filter (\<lambda>((p', _), _). p' = p) (ms_releases s))) =
      {r. \<exists>v. memory_load_release s p v = Inr (Some r)}"
    using dist by (force simp: memory_load_release_def)
  let ?xs = "filter (\<lambda>((p', _), _). p' = p) (ms_releases s)"
  have "map release_version (map snd ?xs) = map (snd \<circ> fst) ?xs"
    using key by (auto simp: release_key_def)
  moreover have "inj_on snd (set (map fst ?xs))" by (auto simp: inj_on_def)
  moreover have "distinct (map fst ?xs)" using dist by (rule distinct_map_filter)
  ultimately show "distinct (map release_version (map snd ?xs))"
    by (simp add: distinct_map comp_inj_on_iff [symmetric] inj_on_def comp_def)
qed

lemma filter_acknowledged:
  assumes "distinct (map f (xs @ ys))"
  shows "filter (\<lambda>t. f t \<notin> set (map f xs)) (xs @ ys) = ys"
  using assms by (auto simp: filter_empty_conv filter_id_conv)

section \<open>Properties\<close>

definition sample_release :: runtime_release where
  "sample_release =
     \<lparr>release_version = 1, release_content_hash = ''sha256:6465'',
      release_manifest = sample_manifest\<rparr>"

lemma sample_digest: "hex ''de'' = ''6465''"
  by code_simp

lemma sample_release_new: "RuntimeRelease_new sample_codec 1 sample_manifest = Inr sample_release"
proof -
  have "encode_manifest sample_codec sample_manifest = Inr ''demo''"
    by (simp add: sample_codec_def sample_manifest_def)
  then have "content_hash sample_codec sample_manifest = Inr ''sha256:6465''"
    using sample_manifest_valid
    by (simp add: content_hash_def and_then_eq_Inr RuntimeManifest_to_json_iff)
      (simp add: sample_codec_def sample_digest [simplified])
  then show ?thesis
    by (simp add: RuntimeRelease_new_iff sample_release_def sample_manifest_valid)
qed

lemma sample_release_valid: "RuntimeRelease_validate sample_codec sample_release = Inr ()"
  using sample_release_new by (auto simp: RuntimeRelease_new_iff RuntimeRelease_validate_iff)

lemma sample_release_key: "release_key sample_release = (''demo'', 1)"
  by (simp add: release_key_def sample_release_def sample_manifest_def)

lemma sample_store_loads:
  "memory_load_release (store_run sample_codec [SaveRelease sample_release]) ''demo'' 1 =
     Inr (Some sample_release)"
  using sample_release_key sample_release_valid
  by (simp add: store_run_def store_step_def memory_save_release_def memory_load_release_def
      release_key_def MemoryRuntimeStore_default_def)

text \<open>releases are immutable: a release that can be loaded stays loadable, unchanged, under its
  project and version, whatever is saved, activated or acknowledged afterwards.
\<close>

theorem release_stays_loadable:
  assumes "memory_load_release (store_run c xs) p v = Inr (Some r)"
  shows "memory_load_release (store_run c (xs @ ys)) p v = Inr (Some r)"
  using store_steps_loads [OF store_run_inv assms, of ys] by (simp add: store_run_def)

theorem release_stays_loadable_witness:
  "memory_load_release (store_run sample_codec ([SaveRelease sample_release] @
     [SaveRelease (sample_release\<lparr>release_content_hash := ''forged''\<rparr>),
      SetActiveRelease ''demo'' 1])) ''demo'' 1 = Inr (Some sample_release)"
  by (rule release_stays_loadable [OF sample_store_loads])

text \<open>the active release of a project can always be loaded, belongs to the project under its
  version, and validates.
\<close>

theorem active_release_valid:
  assumes "memory_active_release (store_run c xs) p = Inr (Some v)"
  shows "\<exists>r. memory_load_release (store_run c xs) p v = Inr (Some r) \<and>
    release_version r = v \<and> manifest_project_id (release_manifest r) = p \<and>
    RuntimeRelease_validate c r = Inr ()"
proof -
  from memory.active_loadable [OF store_run_inv, of c xs p v] assms
  obtain r where r: "memory_load_release (store_run c xs) p v = Inr (Some r)" by auto
  with memory.load_release_key [OF store_run_inv, of c xs p v r] show ?thesis
    by (auto simp: release_key_def)
qed

theorem active_release_valid_witness:
  "\<exists>r. memory_load_release (store_run sample_codec
       [SaveRelease sample_release, SetActiveRelease ''demo'' 1]) ''demo'' 1 = Inr (Some r) \<and>
     RuntimeRelease_validate sample_codec r = Inr ()"
proof -
  have "memory_active_release (store_run sample_codec
      [SaveRelease sample_release, SetActiveRelease ''demo'' 1]) ''demo'' = Inr (Some 1)"
    using sample_store_loads
    by (simp add: store_run_def store_step_def [of _ "SetActiveRelease p v" for p v]
        memory_set_active_release_def memory_load_release_def memory_active_release_def)
  from active_release_valid [OF this] show ?thesis by blast
qed

text \<open>listing the releases of a project gives exactly the releases that can be loaded for it,
  each once, newest version first.
\<close>

theorem list_releases_complete:
  "\<exists>rs. memory_list_releases (store_run c xs) p = Inr rs \<and>
    set rs = {r. \<exists>v. memory_load_release (store_run c xs) p v = Inr (Some r)} \<and>
    sorted_wrt (\<lambda>r q. release_version q < release_version r) rs"
proof -
  let ?rs = "map snd (filter (\<lambda>((p', _), _). p' = p) (ms_releases (store_run c xs)))"
  let ?f = "\<lambda>r. - uint (release_version r)"
  note rs = releases_of_project [OF store_run_inv, of p c xs]
  have "distinct (map ?f ?rs)"
  proof -
    have "inj (\<lambda>v :: u64. - uint v)" by (rule injI) (simp add: word_uint_eqI)
    then have "distinct (map (\<lambda>v. - uint v) (map release_version ?rs))"
      using rs(2) by (subst distinct_map) (auto intro: inj_on_subset)
    then show ?thesis by (simp only: list.map_comp comp_def)
  qed
  then have "sorted_wrt (\<lambda>x y. ?f x < ?f y) (sort_key ?f ?rs)"
    by (rule sorted_wrt_sort_key)
  then have "sorted_wrt (\<lambda>r q. release_version q < release_version r) (sort_key ?f ?rs)"
    by (simp add: word_less_def)
  with rs(1) show ?thesis by (simp add: memory_list_releases_def)
qed

text \<open>the trace outbox holds at most 1000 records, no trace twice, and uploading loses nothing:
  acknowledging what \<open>pending_traces\<close> returned removes exactly those records from its front.
\<close>

theorem trace_outbox_upload:
  "length (ms_trace_outbox (store_run c xs)) \<le> 1000 \<and>
   distinct (map trace_id (ms_trace_outbox (store_run c xs))) \<and>
   (\<exists>ts s'. memory_pending_traces (store_run c xs) n = Inr ts \<and>
      memory_acknowledge_traces (store_run c xs) (map trace_id ts) = Inr s' \<and>
      ms_trace_outbox (store_run c xs) = ts @ ms_trace_outbox s')"
proof -
  let ?q = "ms_trace_outbox (store_run c xs)"
  have dist: "distinct (map trace_id ?q)" by (rule memory_inv_traces [OF store_run_inv])
  have "filter (\<lambda>t. trace_id t \<notin> set (map trace_id (take n ?q))) ?q = drop n ?q"
    using filter_acknowledged [of trace_id "take n ?q" "drop n ?q"] dist by simp
  with dist memory_inv_bound [OF store_run_inv, of c xs] show ?thesis
    by (simp add: memory_pending_traces_def memory_acknowledge_traces_def MAX_MEMORY_TRACES_def)
qed

end
