(* ===== verification/Invocations.thy ===== *)
theory Invocations
  imports Runtime_Store
begin

text \<open>
  The invocation registry of \<open>crates/vifu-runtime/src/application.rs\<close>
  (\<open>InvocationRegistry\<close>, \<open>InvocationEntry\<close>, \<open>merge_invocation_data\<close>): the table behind the
  polling API. Each entry has its poll state, its cancellation token (the index of the shared
  flag) and a bounded queue of events; terminal entries are kept in the order they ended and
  the oldest are evicted. A handle \<open>InvocationHandle(h)\<close> is its string \<open>h\<close>; \<open>usize\<close>
  counters are natural numbers.
\<close>

section \<open>Data\<close>

datatype invocation_data = Json json | Binary "char list"

definition InvocationData_default :: invocation_data where
  "InvocationData_default = Json JNull"

record invocation_input =
  input_endpoint :: string
  input_session_id :: string
  input_data :: invocation_data
  input_metadata :: json

definition default_session_id :: string where
  "default_session_id = ''default''"

definition InvocationInput_json :: "string \<Rightarrow> json \<Rightarrow> invocation_input" where
  "InvocationInput_json endpoint v =
     \<lparr>input_endpoint = endpoint, input_session_id = default_session_id, input_data = Json v,
      input_metadata = empty_object\<rparr>"

definition with_session :: "string \<Rightarrow> invocation_input \<Rightarrow> invocation_input" where
  "with_session session input = input\<lparr>input_session_id := session\<rparr>"

record invocation_trace_event =
  te_name :: string
  te_status :: string
  te_duration_ms :: u64
  te_attributes :: json

record invocation_output =
  output_invocation_id :: string
  output_project_id :: string
  output_endpoint :: string
  output_session_id :: string
  output_agent :: string
  output_provider :: string
  output_capability :: string
  output_data :: invocation_data
  output_metadata :: json
  output_snapshot :: runtime_snapshot
  output_trace :: "invocation_trace_event list"

datatype invocation_status =
  StatusPending | StatusRunning | StatusCompleted | StatusFailed | StatusCancelled

datatype invocation_event_kind =
  KindStarted | KindOutputDelta | KindCompleted | KindFailed | KindCancelled

datatype provider_stage =
    StageQueue | StageLoad | StageTokenize | StagePrefill | StageFirstToken | StageDecode
  | StageValidate

datatype provider_event =
    Activity
  | OutputDelta invocation_data
  | StageStarted provider_stage json
  | StageCompleted provider_stage u64 json
  | StageFailed provider_stage u64 string json

record invocation_event =
  ev_sequence :: u64
  ev_kind :: invocation_event_kind
  ev_data :: "invocation_data option"
  ev_error :: "string option"

record invocation_poll =
  poll_handle :: string
  poll_status :: invocation_status
  poll_output :: "invocation_output option"
  poll_error :: "string option"

record invocation_entry =
  entry_poll :: invocation_poll
  entry_cancellation :: nat
  entry_events :: "invocation_event list"
  entry_next_event_sequence :: u64

record invocation_registry =
  reg_entries :: "string \<rightharpoonup> invocation_entry"
  reg_terminal_order :: "string list"
  reg_active_count :: nat

definition MAX_IN_FLIGHT_INVOCATIONS :: nat where "MAX_IN_FLIGHT_INVOCATIONS = 64"

definition MAX_RETAINED_INVOCATIONS :: nat where "MAX_RETAINED_INVOCATIONS = 256"

definition MAX_RETAINED_INVOCATION_EVENTS :: nat where "MAX_RETAINED_INVOCATION_EVENTS = 256"

definition MAX_COALESCED_EVENT_BYTES :: nat where "MAX_COALESCED_EVENT_BYTES = 65536"

fun is_terminal_status :: "invocation_status \<Rightarrow> bool" where
  "is_terminal_status StatusCompleted = True"
| "is_terminal_status StatusFailed = True"
| "is_terminal_status StatusCancelled = True"
| "is_terminal_status _ = False"

section \<open>Events of one invocation\<close>

text \<open>The merged data, or \<open>None\<close> where the code returns \<open>false\<close>.\<close>

fun merge_invocation_data :: "invocation_data \<Rightarrow> invocation_data \<Rightarrow> invocation_data option" where
  "merge_invocation_data (Json (JString previous)) (Json (JString next)) =
     (if length previous + length next \<le> MAX_COALESCED_EVENT_BYTES
      then Some (Json (JString (previous @ next))) else None)"
| "merge_invocation_data (Binary previous) (Binary next) =
     (if length previous + length next \<le> MAX_COALESCED_EVENT_BYTES
      then Some (Binary (previous @ next)) else None)"
| "merge_invocation_data _ _ = None"

text \<open>The queue with the new delta merged into its last event, where the code merges.\<close>

definition coalesce ::
    "invocation_event_kind \<Rightarrow> invocation_data option \<Rightarrow> invocation_event list
      \<Rightarrow> invocation_event list option" where
  "coalesce kind data events =
     (if kind = KindOutputDelta \<and> events \<noteq> [] \<and> ev_kind (last events) = KindOutputDelta
      then case (ev_data (last events), data) of
          (Some previous, Some next) \<Rightarrow>
            (case merge_invocation_data previous next of
               Some merged \<Rightarrow> Some (butlast events @ [last events\<lparr>ev_data := Some merged\<rparr>])
             | None \<Rightarrow> None)
        | _ \<Rightarrow> None
      else None)"

definition push_event ::
    "invocation_event_kind \<Rightarrow> invocation_data option \<Rightarrow> string option
      \<Rightarrow> invocation_entry \<Rightarrow> invocation_entry" where
  "push_event kind data error e =
     (case coalesce kind data (entry_events e) of
        Some events \<Rightarrow> e\<lparr>entry_events := events\<rparr>
      | None \<Rightarrow>
          e\<lparr>entry_events := truncate_front MAX_RETAINED_INVOCATION_EVENTS
              (entry_events e @
                [\<lparr>ev_sequence = entry_next_event_sequence e, ev_kind = kind, ev_data = data,
                  ev_error = error\<rparr>]),
            entry_next_event_sequence := saturating_add (entry_next_event_sequence e) 1\<rparr>)"

section \<open>The registry\<close>

definition InvocationRegistry_default :: invocation_registry where
  "InvocationRegistry_default =
     \<lparr>reg_entries = Map.empty, reg_terminal_order = [], reg_active_count = 0\<rparr>"

definition registry_insert ::
    "string \<Rightarrow> nat \<Rightarrow> invocation_registry \<Rightarrow> invocation_registry rt" where
  "registry_insert h cancellation r =
     (if MAX_IN_FLIGHT_INVOCATIONS \<le> reg_active_count r
      then Inl (Backpressure ''too many invocations are already running'')
      else Inr (r\<lparr>reg_entries := (reg_entries r)(h \<mapsto>
               \<lparr>entry_poll = \<lparr>poll_handle = h, poll_status = StatusPending, poll_output = None,
                              poll_error = None\<rparr>,
                entry_cancellation = cancellation, entry_events = [],
                entry_next_event_sequence = 1\<rparr>),
             reg_active_count := reg_active_count r + 1\<rparr>))"

function evict_loop ::
    "string list \<Rightarrow> (string \<rightharpoonup> invocation_entry)
      \<Rightarrow> string list \<times> (string \<rightharpoonup> invocation_entry)" where
  "evict_loop order entries =
     (if MAX_RETAINED_INVOCATIONS < length order
      then evict_loop (tl order) (entries(hd order := None))
      else (order, entries))"
  by pat_completeness auto
termination
  by (relation "measure (\<lambda>(order, entries). length order)") auto

declare evict_loop.simps [simp del]

definition evict_old_terminal_entries :: "invocation_registry \<Rightarrow> invocation_registry" where
  "evict_old_terminal_entries r =
     (case evict_loop (reg_terminal_order r) (reg_entries r) of
        (order, entries) \<Rightarrow> r\<lparr>reg_terminal_order := order, reg_entries := entries\<rparr>)"

fun status_event ::
    "invocation_status \<Rightarrow> invocation_poll
      \<Rightarrow> (invocation_event_kind \<times> invocation_data option \<times> string option) option" where
  "status_event StatusPending p = None"
| "status_event StatusRunning p = Some (KindStarted, None, None)"
| "status_event StatusCompleted p =
     Some (KindCompleted, map_option output_data (poll_output p), None)"
| "status_event StatusFailed p = Some (KindFailed, None, poll_error p)"
| "status_event StatusCancelled p = Some (KindCancelled, None, None)"

definition entry_update ::
    "invocation_status \<Rightarrow> invocation_output option \<Rightarrow> string option
      \<Rightarrow> invocation_entry \<Rightarrow> invocation_entry" where
  "entry_update status out error e =
     (let e1 = e\<lparr>entry_poll := (entry_poll e)
            \<lparr>poll_status := status, poll_output := out, poll_error := error\<rparr>\<rparr>
      in case status_event status (entry_poll e1) of
           None \<Rightarrow> e1
         | Some (kind, data, err) \<Rightarrow> push_event kind data err e1)"

definition registry_update ::
    "string \<Rightarrow> invocation_status \<Rightarrow> invocation_output option \<Rightarrow> string option
      \<Rightarrow> invocation_registry \<Rightarrow> invocation_registry" where
  "registry_update h status out error r =
     (case reg_entries r h of
        None \<Rightarrow> r
      | Some e \<Rightarrow>
          if is_terminal_status (poll_status (entry_poll e)) then r
          else
            let r1 = r\<lparr>reg_entries := (reg_entries r)(h \<mapsto> entry_update status out error e)\<rparr>
            in if is_terminal_status status
               then evict_old_terminal_entries
                      (r1\<lparr>reg_active_count := reg_active_count r1 - 1,
                          reg_terminal_order := reg_terminal_order r1 @ [h]\<rparr>)
               else r1)"

definition registry_remove :: "string \<Rightarrow> invocation_registry \<Rightarrow> invocation_registry" where
  "registry_remove h r =
     (let r1 = (case reg_entries r h of
          None \<Rightarrow> r
        | Some e \<Rightarrow>
            (let r0 = r\<lparr>reg_entries := (reg_entries r)(h := None)\<rparr>
             in if is_terminal_status (poll_status (entry_poll e)) then r0
                else r0\<lparr>reg_active_count := reg_active_count r0 - 1\<rparr>))
      in r1\<lparr>reg_terminal_order := filter (\<lambda>stored. stored \<noteq> h) (reg_terminal_order r1)\<rparr>)"

definition registry_poll :: "string \<Rightarrow> invocation_registry \<Rightarrow> invocation_poll rt" where
  "registry_poll h r = ok_or (map_option entry_poll (reg_entries r h)) (InvocationNotFound h)"

definition registry_take ::
    "string \<Rightarrow> invocation_registry \<Rightarrow> (invocation_poll \<times> invocation_registry) rt" where
  "registry_take h r =
     and_then (ok_or (map_option entry_poll (reg_entries r h)) (InvocationNotFound h)) (\<lambda>poll.
     Inr (poll, if is_terminal_status (poll_status poll) then registry_remove h r else r))"

definition push_provider_event ::
    "string \<Rightarrow> provider_event \<Rightarrow> invocation_registry \<Rightarrow> invocation_registry" where
  "push_provider_event h event r =
     (case reg_entries r h of
        None \<Rightarrow> r
      | Some e \<Rightarrow>
          if poll_status (entry_poll e) \<noteq> StatusRunning then r
          else case event of
              OutputDelta data \<Rightarrow>
                r\<lparr>reg_entries := (reg_entries r)(h \<mapsto>
                    push_event KindOutputDelta (Some data) None e)\<rparr>
            | _ \<Rightarrow> r)"

definition registry_drain_events ::
    "string \<Rightarrow> invocation_registry \<Rightarrow> (invocation_event list \<times> invocation_registry) rt" where
  "registry_drain_events h r =
     and_then (ok_or (reg_entries r h) (InvocationNotFound h)) (\<lambda>e.
     Inr (entry_events e,
          r\<lparr>reg_entries := (reg_entries r)(h \<mapsto> e\<lparr>entry_events := []\<rparr>)\<rparr>))"

section \<open>Events: order and coalescing\<close>

fun terminal_kind :: "invocation_event_kind \<Rightarrow> bool" where
  "terminal_kind KindCompleted = True"
| "terminal_kind KindFailed = True"
| "terminal_kind KindCancelled = True"
| "terminal_kind _ = False"

definition no_terminal :: "invocation_event list \<Rightarrow> bool" where
  "no_terminal evs \<longleftrightarrow> list_all (\<lambda>ev. \<not> terminal_kind (ev_kind ev)) evs"

lemma no_terminal_simps [simp]:
  "no_terminal []"
  "no_terminal (xs @ ys) \<longleftrightarrow> no_terminal xs \<and> no_terminal ys"
  "no_terminal [ev] \<longleftrightarrow> \<not> terminal_kind (ev_kind ev)"
  by (auto simp: no_terminal_def)

lemma no_terminal_drop: "no_terminal xs \<Longrightarrow> no_terminal (drop k xs)"
  by (auto simp: no_terminal_def list_all_iff dest: in_set_dropD)

lemma no_terminal_cong: "map ev_kind xs = map ev_kind ys \<Longrightarrow> no_terminal xs = no_terminal ys"
  by (metis no_terminal_def list_all_length length_map nth_map)

lemma coalesce_Some:
  assumes "coalesce kind data evs = Some evs'"
  shows "map ev_sequence evs' = map ev_sequence evs" and "map ev_kind evs' = map ev_kind evs"
    and "kind = KindOutputDelta" and "length evs' = length evs"
proof -
  from assms obtain merged where ne: "evs \<noteq> []" and k: "kind = KindOutputDelta"
    and evs': "evs' = butlast evs @ [last evs\<lparr>ev_data := Some merged\<rparr>]"
    by (auto simp: coalesce_def split: if_splits option.splits)
  have evs: "evs = butlast evs @ [last evs]" using ne by simp
  show "map ev_sequence evs' = map ev_sequence evs" "map ev_kind evs' = map ev_kind evs"
    by (subst evs, simp add: evs')+
  show "kind = KindOutputDelta" "length evs' = length evs"
    using k ne by (simp_all add: evs')
qed

text \<open>A push either merges into the last event or appends one event with the next number.\<close>

lemma push_event_cases:
  obtains (merged) evs where "coalesce kind data (entry_events e) = Some evs"
      "push_event kind data error e = e\<lparr>entry_events := evs\<rparr>"
  | (appended) k where
      "push_event kind data error e = e\<lparr>entry_events := drop k (entry_events e) @
         [\<lparr>ev_sequence = entry_next_event_sequence e, ev_kind = kind, ev_data = data,
           ev_error = error\<rparr>],
       entry_next_event_sequence := saturating_add (entry_next_event_sequence e) 1\<rparr>"
      "length (drop k (entry_events e)) < MAX_RETAINED_INVOCATION_EVENTS"
proof (cases "coalesce kind data (entry_events e)")
  case (Some evs)
  then show thesis by (intro merged) (simp_all add: push_event_def)
next
  case None
  let ?k = "Suc (length (entry_events e)) - MAX_RETAINED_INVOCATION_EVENTS"
  have k: "?k \<le> length (entry_events e)" by (simp add: MAX_RETAINED_INVOCATION_EVENTS_def)
  show thesis
  proof (rule appended [of ?k])
    show "length (drop ?k (entry_events e)) < MAX_RETAINED_INVOCATION_EVENTS"
      by (simp add: MAX_RETAINED_INVOCATION_EVENTS_def)
    show "push_event kind data error e = e\<lparr>entry_events := drop ?k (entry_events e) @
         [\<lparr>ev_sequence = entry_next_event_sequence e, ev_kind = kind, ev_data = data,
           ev_error = error\<rparr>],
       entry_next_event_sequence := saturating_add (entry_next_event_sequence e) 1\<rparr>"
      using None k by (simp add: push_event_def truncate_front_drop)
  qed
qed

lemma push_event_poll [simp]: "entry_poll (push_event kind data error e) = entry_poll e"
  by (simp add: push_event_def split: option.split)

lemma push_event_cancellation [simp]:
  "entry_cancellation (push_event kind data error e) = entry_cancellation e"
  by (simp add: push_event_def split: option.split)

text \<open>
  The events a caller has drained (\<open>ds\<close>) followed by those still queued: numbered in order,
  bounded, with a terminal event only at the very end and only in a terminal status.
\<close>

definition stream_ok :: "invocation_event list \<Rightarrow> bool" where
  "stream_ok evs \<longleftrightarrow> sorted_wrt seq_before (map ev_sequence evs) \<and> no_terminal (butlast evs)"

definition entry_inv :: "invocation_event list \<Rightarrow> invocation_entry \<Rightarrow> bool" where
  "entry_inv ds e \<longleftrightarrow>
     length (entry_events e) \<le> MAX_RETAINED_INVOCATION_EVENTS \<and>
     issued (map ev_sequence (ds @ entry_events e)) (entry_next_event_sequence e) \<and>
     no_terminal (butlast (ds @ entry_events e)) \<and>
     (\<not> is_terminal_status (poll_status (entry_poll e)) \<longrightarrow> no_terminal (ds @ entry_events e))"

lemma stream_ok_Nil [simp]: "stream_ok []"
  by (simp add: stream_ok_def)

lemma entry_inv_stream_ok: "entry_inv ds e \<Longrightarrow> stream_ok (ds @ entry_events e)"
  by (auto simp: entry_inv_def stream_ok_def issued_sorted simp del: map_append)

lemma push_event_inv:
  assumes len: "length (entry_events e) \<le> MAX_RETAINED_INVOCATION_EVENTS"
    and iss: "issued (map ev_sequence (ds @ entry_events e)) (entry_next_event_sequence e)"
    and nt: "no_terminal (ds @ entry_events e)"
    and kind: "terminal_kind kind \<longrightarrow> is_terminal_status (poll_status (entry_poll e))"
  shows "entry_inv ds (push_event kind data error e)"
proof (cases rule: push_event_cases [where kind = kind and data = data and error = error and e = e])
  case (merged evs)
  note c = coalesce_Some [OF merged(1)]
  have "no_terminal (ds @ evs)" using nt no_terminal_cong [OF c(2)] by simp
  moreover have "no_terminal (butlast zs)" if "no_terminal zs" for zs
    using that by (auto simp: no_terminal_def list_all_iff dest: in_set_butlastD)
  ultimately show ?thesis
    using len iss unfolding entry_inv_def merged(2) by (simp add: c(1,2,4))
next
  case (appended k)
  let ?n = "entry_next_event_sequence e"
  have "issued (map ev_sequence (ds @ drop k (entry_events e))) ?n"
    using issued_append_drop [of "map ev_sequence ds" "map ev_sequence (entry_events e)" ?n k] iss
    by (simp add: drop_map)
  from issued_next [OF this]
  have "issued (map ev_sequence ds @ map ev_sequence (drop k (entry_events e)) @ [?n])
    (saturating_add ?n 1)"
    by simp
  with appended(2) nt kind show ?thesis
    by (auto simp: entry_inv_def appended(1) no_terminal_drop butlast_append)
qed

lemma entry_update_inv:
  assumes inv: "entry_inv ds e" and nt: "\<not> is_terminal_status (poll_status (entry_poll e))"
  shows "entry_inv ds (entry_update status out error e)"
proof (cases "status_event status ((entry_poll e)
    \<lparr>poll_status := status, poll_output := out, poll_error := error\<rparr>)")
  case None
  then have "status = StatusPending" by (cases status) auto
  with None inv nt show ?thesis by (simp add: entry_update_def entry_inv_def)
next
  case (Some kde)
  obtain kind data err where kde: "kde = (kind, data, err)" by (cases kde) auto
  have "terminal_kind kind \<longrightarrow> is_terminal_status status"
    using Some kde by (cases status) auto
  with inv nt show ?thesis
    unfolding entry_update_def Let_def
    by (simp add: Some kde) (intro push_event_inv; simp add: entry_inv_def)
qed

lemma entry_update_poll [simp]:
  "entry_poll (entry_update status out error e) =
    (entry_poll e)\<lparr>poll_status := status, poll_output := out, poll_error := error\<rparr>"
  by (simp add: entry_update_def Let_def split: option.split)

lemma entry_inv_drained: "entry_inv ds e \<Longrightarrow> entry_inv (ds @ entry_events e) (e\<lparr>entry_events := []\<rparr>)"
  by (simp add: entry_inv_def)

text \<open>The text carried by the output deltas of a queue.\<close>

fun delta_text :: "invocation_event list \<Rightarrow> string" where
  "delta_text [] = []"
| "delta_text (ev # evs) =
     (case (ev_kind ev, ev_data ev) of
        (KindOutputDelta, Some (Json (JString s))) \<Rightarrow> s @ delta_text evs
      | _ \<Rightarrow> delta_text evs)"

lemma delta_text_append [simp]: "delta_text (xs @ ys) = delta_text xs @ delta_text ys"
  by (induction xs) (auto split: invocation_event_kind.splits option.splits
      invocation_data.splits json.splits)

lemma merge_text:
  assumes "merge_invocation_data previous (Json (JString s)) = Some merged"
  obtains p where "previous = Json (JString p)" and "merged = Json (JString (p @ s))"
  using assms
  by (cases "(previous, Json (JString s))" rule: merge_invocation_data.cases)
    (auto split: if_splits)

lemma push_text:
  assumes "length (entry_events e) < MAX_RETAINED_INVOCATION_EVENTS"
  shows "delta_text (entry_events (push_event KindOutputDelta (Some (Json (JString s))) None e))
    = delta_text (entry_events e) @ s"
proof (cases "coalesce KindOutputDelta (Some (Json (JString s))) (entry_events e)")
  case None
  with assms show ?thesis
    by (simp add: push_event_def truncate_front_id)
next
  case (Some evs')
  let ?evs = "entry_events e"
  from Some obtain previous merged where ne: "?evs \<noteq> []"
    and k: "ev_kind (last ?evs) = KindOutputDelta"
    and d: "ev_data (last ?evs) = Some previous"
    and m: "merge_invocation_data previous (Json (JString s)) = Some merged"
    and evs': "evs' = butlast ?evs @ [last ?evs\<lparr>ev_data := Some merged\<rparr>]"
    by (auto simp: coalesce_def split: if_splits option.splits)
  from m obtain p where p: "previous = Json (JString p)" and mp: "merged = Json (JString (p @ s))"
    by (rule merge_text)
  have "delta_text ?evs = delta_text (butlast ?evs @ [last ?evs])" using ne by simp
  also have "\<dots> = delta_text (butlast ?evs) @ p" by (simp add: k d p)
  finally have "delta_text ?evs = delta_text (butlast ?evs) @ p" .
  with Some show ?thesis by (simp add: push_event_def evs' mp k)
qed

lemma push_length:
  "length (entry_events (push_event kind data error e)) \<le> Suc (length (entry_events e))"
  by (auto simp: push_event_def dest: coalesce_Some(4) split: option.split)

section \<open>The registry invariant\<close>

definition active_entry :: "invocation_entry \<Rightarrow> bool" where
  "active_entry e \<longleftrightarrow> \<not> is_terminal_status (poll_status (entry_poll e))"

definition terminal_handles :: "invocation_registry \<Rightarrow> string set" where
  "terminal_handles r = {h. \<exists>e. reg_entries r h = Some e \<and> \<not> active_entry e}"

definition registry_inv :: "invocation_registry \<Rightarrow> bool" where
  "registry_inv r \<longleftrightarrow>
     finite (dom (reg_entries r)) \<and>
     reg_active_count r = count_values active_entry (reg_entries r) \<and>
     reg_active_count r \<le> MAX_IN_FLIGHT_INVOCATIONS \<and>
     distinct (reg_terminal_order r) \<and>
     set (reg_terminal_order r) = terminal_handles r \<and>
     length (reg_terminal_order r) \<le> MAX_RETAINED_INVOCATIONS \<and>
     (\<forall>h e. reg_entries r h = Some e \<longrightarrow> poll_handle (entry_poll e) = h)"

lemma registry_inv_default: "registry_inv InvocationRegistry_default"
  by (simp add: registry_inv_def InvocationRegistry_default_def terminal_handles_def)

lemma evict_loop_eq:
  "evict_loop order entries =
    (let k = length order - MAX_RETAINED_INVOCATIONS
     in (drop k order, \<lambda>h. if h \<in> set (take k order) then None else entries h))"
proof (induction order entries rule: evict_loop.induct)
  case (1 order entries)
  show ?case
  proof (cases "MAX_RETAINED_INVOCATIONS < length order")
    case True
    then obtain h hs where order: "order = h # hs" by (cases order) auto
    with True have k: "length order - MAX_RETAINED_INVOCATIONS =
      Suc (length hs - MAX_RETAINED_INVOCATIONS)" by simp
    have "evict_loop order entries = evict_loop hs (entries(h := None))"
      using True order by (subst evict_loop.simps) simp
    moreover have "evict_loop hs (entries(h := None)) =
      (let k = length hs - MAX_RETAINED_INVOCATIONS
       in (drop k hs, \<lambda>g. if g \<in> set (take k hs) then None else (entries(h := None)) g))"
      using "1.IH" [OF True] unfolding order list.sel .
    ultimately show ?thesis
      unfolding k by (simp add: order Let_def fun_eq_iff)
  qed (subst evict_loop.simps, simp)
qed

lemma evict_old_terminal_entries_eq:
  "evict_old_terminal_entries r =
    (let k = length (reg_terminal_order r) - MAX_RETAINED_INVOCATIONS
     in r\<lparr>reg_terminal_order := drop k (reg_terminal_order r),
          reg_entries := (\<lambda>h. if h \<in> set (take k (reg_terminal_order r)) then None
            else reg_entries r h)\<rparr>)"
  by (simp add: evict_old_terminal_entries_def evict_loop_eq Let_def)

text \<open>Eviction drops terminal entries only, so it changes no counts.\<close>

lemma count_values_drop_others:
  assumes "\<And>k v. m k = Some v \<Longrightarrow> k \<in> K \<Longrightarrow> \<not> P v"
  shows "count_values P (\<lambda>k. if k \<in> K then None else m k) = count_values P m"
proof -
  have "{k. \<exists>v. (if k \<in> K then None else m k) = Some v \<and> P v} = {k. \<exists>v. m k = Some v \<and> P v}"
    using assms by (auto split: if_splits)
  then show ?thesis by (simp add: count_values_def)
qed

text \<open>The invariant, except that the retained terminal entries may be over the bound.\<close>

definition registry_pre :: "invocation_registry \<Rightarrow> bool" where
  "registry_pre r \<longleftrightarrow>
     finite (dom (reg_entries r)) \<and>
     reg_active_count r = count_values active_entry (reg_entries r) \<and>
     reg_active_count r \<le> MAX_IN_FLIGHT_INVOCATIONS \<and>
     distinct (reg_terminal_order r) \<and>
     set (reg_terminal_order r) = terminal_handles r \<and>
     (\<forall>h e. reg_entries r h = Some e \<longrightarrow> poll_handle (entry_poll e) = h)"

lemma registry_inv_pre: "registry_inv r \<Longrightarrow> registry_pre r"
  by (simp add: registry_inv_def registry_pre_def)

lemma evict_inv:
  assumes "registry_pre r"
  shows "registry_inv (evict_old_terminal_entries r)"
proof -
  let ?k = "length (reg_terminal_order r) - MAX_RETAINED_INVOCATIONS"
  let ?gone = "set (take ?k (reg_terminal_order r))"
  let ?entries = "\<lambda>h. if h \<in> ?gone then None else reg_entries r h"
  let ?kept = "drop ?k (reg_terminal_order r)"
  have order: "distinct (reg_terminal_order r)" "set (reg_terminal_order r) = terminal_handles r"
    using assms by (simp_all add: registry_pre_def)
  have gone: "\<not> active_entry e" if "reg_entries r h = Some e" "h \<in> ?gone" for h e
    using that order(2) by (auto simp: terminal_handles_def dest!: in_set_takeD)
  have "?gone \<inter> set ?kept = {}" "?gone \<union> set ?kept = set (reg_terminal_order r)"
    using order(1) by (simp add: set_take_disj_set_drop_if_distinct)
      (metis append_take_drop_id set_append)
  then have "set ?kept = terminal_handles r - ?gone" using order(2) by auto
  also have "\<dots> = {h. \<exists>e. ?entries h = Some e \<and> \<not> active_entry e}"
    by (auto simp: terminal_handles_def)
  finally have kept: "set ?kept = {h. \<exists>e. ?entries h = Some e \<and> \<not> active_entry e}" .
  have fin: "finite (dom ?entries)"
    using assms by (auto simp: registry_pre_def intro: finite_subset [of _ "dom (reg_entries r)"]
        split: if_splits)
  have count: "count_values active_entry ?entries = count_values active_entry (reg_entries r)"
    using gone by (rule count_values_drop_others)
  show ?thesis
    using assms kept fin count order(1)
    by (simp add: registry_inv_def registry_pre_def evict_old_terminal_entries_eq Let_def
        terminal_handles_def MAX_RETAINED_INVOCATIONS_def distinct_drop)
qed

lemma entry_same_class:
  assumes "registry_inv r" and "reg_entries r h = Some e"
    and "active_entry e' = active_entry e" and "poll_handle (entry_poll e') = h"
  shows "registry_inv (r\<lparr>reg_entries := (reg_entries r)(h \<mapsto> e')\<rparr>)"
proof -
  have "terminal_handles (r\<lparr>reg_entries := (reg_entries r)(h \<mapsto> e')\<rparr>) = terminal_handles r"
    using assms(2,3) by (auto simp: terminal_handles_def)
  with assms show ?thesis
    by (auto simp: registry_inv_def count_values_cong_key)
qed

lemma entry_same_poll:
  assumes "registry_inv r" and "reg_entries r h = Some e" and "entry_poll e' = entry_poll e"
  shows "registry_inv (r\<lparr>reg_entries := (reg_entries r)(h \<mapsto> e')\<rparr>)"
  using assms by (intro entry_same_class) (auto simp: active_entry_def registry_inv_def)

lemma registry_insert_inv:
  assumes "registry_inv r" and "reg_entries r h = None" and "registry_insert h t r = Inr r'"
  shows "registry_inv r'"
proof -
  let ?e = "\<lparr>entry_poll = \<lparr>poll_handle = h, poll_status = StatusPending, poll_output = None,
      poll_error = None\<rparr>, entry_cancellation = t, entry_events = [],
      entry_next_event_sequence = 1\<rparr>"
  have r': "r' = r\<lparr>reg_entries := (reg_entries r)(h \<mapsto> ?e),
      reg_active_count := reg_active_count r + 1\<rparr>"
    and bound: "reg_active_count r < MAX_IN_FLIGHT_INVOCATIONS"
    using assms(3) by (auto simp: registry_insert_def split: if_splits)
  have "active_entry ?e" by (simp add: active_entry_def)
  then have "terminal_handles r' = terminal_handles r"
    using assms(2) by (auto simp: r' terminal_handles_def)
  moreover have "count_values active_entry ((reg_entries r)(h \<mapsto> ?e)) =
      Suc (count_values active_entry (reg_entries r))"
    using assms(1,2) \<open>active_entry ?e\<close>
    by (simp add: count_values_insert registry_inv_def fun_upd_None_same)
  ultimately show ?thesis
    using assms(1) bound by (auto simp: r' registry_inv_def)
qed

lemma registry_update_inv:
  assumes inv: "registry_inv r"
  shows "registry_inv (registry_update h status out error r)"
proof (cases "reg_entries r h")
  case None
  with inv show ?thesis by (simp add: registry_update_def)
next
  case (Some e)
  let ?e = "entry_update status out error e"
  let ?r1 = "r\<lparr>reg_entries := (reg_entries r)(h \<mapsto> ?e)\<rparr>"
  have h: "poll_handle (entry_poll e) = h" using inv Some by (simp add: registry_inv_def)
  consider (old) "\<not> active_entry e" | (running) "active_entry e" "\<not> is_terminal_status status"
    | (ends) "active_entry e" "is_terminal_status status" by blast
  then show ?thesis
  proof cases
    case old
    with inv Some show ?thesis by (simp add: registry_update_def active_entry_def)
  next
    case running
    then have "registry_inv ?r1"
      using inv Some h by (intro entry_same_class) (simp_all add: active_entry_def)
    with running Some show ?thesis by (simp add: registry_update_def active_entry_def)
  next
    case ends
    let ?r2 = "?r1\<lparr>reg_active_count := reg_active_count r - 1,
      reg_terminal_order := reg_terminal_order r @ [h]\<rparr>"
    have e: "\<not> active_entry ?e" using ends by (simp add: active_entry_def)
    have fin: "finite (dom (reg_entries r))" using inv by (simp add: registry_inv_def)
    have cnt: "count_values active_entry ((reg_entries r)(h \<mapsto> ?e)) =
        reg_active_count r - 1"
      using inv e ends(1) count_values_insert [OF fin, of active_entry h ?e]
        count_values_remove [OF fin Some, of active_entry] by (simp add: registry_inv_def)
    have "h \<notin> terminal_handles r" using Some ends(1) by (simp add: terminal_handles_def)
    moreover have "terminal_handles ?r2 = insert h (terminal_handles r)"
      using e by (auto simp: terminal_handles_def)
    ultimately have "registry_pre ?r2"
      using inv cnt h by (auto simp: registry_inv_def registry_pre_def)
    then have "registry_inv (evict_old_terminal_entries ?r2)" by (rule evict_inv)
    with ends Some show ?thesis
      by (simp add: registry_update_def active_entry_def)
  qed
qed

lemma registry_remove_inv:
  assumes inv: "registry_inv r"
  shows "registry_inv (registry_remove h r)"
proof (cases "reg_entries r h")
  case None
  then have "h \<notin> set (reg_terminal_order r)"
    using inv by (simp add: registry_inv_def terminal_handles_def)
  then have "filter (\<lambda>stored. stored \<noteq> h) (reg_terminal_order r) = reg_terminal_order r"
    by (auto intro: filter_True)
  with None inv show ?thesis by (simp add: registry_remove_def)
next
  case (Some e)
  let ?m = "(reg_entries r)(h := None)"
  let ?r' = "registry_remove h r"
  have fin: "finite (dom (reg_entries r))" using inv by (simp add: registry_inv_def)
  have r': "reg_entries ?r' = ?m"
    "reg_terminal_order ?r' = filter (\<lambda>stored. stored \<noteq> h) (reg_terminal_order r)"
    "reg_active_count ?r' = reg_active_count r - (if active_entry e then 1 else 0)"
    using Some by (simp_all add: registry_remove_def active_entry_def Let_def)
  have "terminal_handles ?r' = terminal_handles r - {h}"
    by (auto simp: terminal_handles_def r')
  moreover have "count_values active_entry ?m = reg_active_count ?r'"
    using inv count_values_remove [OF fin Some, of active_entry] by (simp add: r' registry_inv_def)
  ultimately show ?thesis
    using inv le_trans [OF length_filter_le]
    by (auto simp: registry_inv_def r' le_trans [OF length_filter_le] split: if_splits)
qed

lemma registry_take_inv:
  "registry_inv r \<Longrightarrow> registry_take h r = Inr (p, r') \<Longrightarrow> registry_inv r'"
  by (auto simp: registry_take_def and_then_eq_Inr registry_remove_inv split: if_splits)

lemma push_provider_event_inv:
  assumes "registry_inv r"
  shows "registry_inv (push_provider_event h event r)"
  using assms
  by (simp add: push_provider_event_def entry_same_poll split: option.split provider_event.split)

lemma registry_drain_inv:
  assumes "registry_inv r" and "registry_drain_events h r = Inr (evs, r')"
  shows "registry_inv r'"
proof -
  from assms(2) obtain e where "reg_entries r h = Some e"
    and "r' = r\<lparr>reg_entries := (reg_entries r)(h \<mapsto> e\<lparr>entry_events := []\<rparr>)\<rparr>"
    by (auto simp: registry_drain_events_def and_then_eq_Inr)
  with assms(1) show ?thesis by (simp add: entry_same_poll)
qed

end
