(* ===== verification/Application.thy ===== *)
theory Application
  imports Invocations
begin

text \<open>
  The synchronous operations of \<open>VifuRuntime\<close> and \<open>RuntimeCore\<close>
  (\<open>crates/vifu-runtime/src/application.rs\<close>): the registry of providers, agents and
  endpoints, manifests and releases, session snapshots and the trace outbox. The core's state
  is the record \<open>runtime_core\<close> over the state \<open>'s\<close> of the store; each operation is an
  \<open>action\<close>, which returns a result and the new state also when it fails, so that what a
  failed operation leaves behind is visible. A provider is what the core asks of it
  synchronously, the capabilities it supports; its asynchronous call is in \<open>Invoke\<close>.
\<close>

section \<open>Actions\<close>

type_synonym ('st, 'a) action = "'st \<Rightarrow> 'a rt \<times> 'st"

definition act_return :: "'a \<Rightarrow> ('st, 'a) action" where
  "act_return x st = (Inr x, st)"

definition act_lift :: "'a rt \<Rightarrow> ('st, 'a) action" where
  "act_lift r st = (r, st)"

definition act_bind :: "('st, 'a) action \<Rightarrow> ('a \<Rightarrow> ('st, 'b) action) \<Rightarrow> ('st, 'b) action" where
  "act_bind m f st = (case m st of (Inl e, st') \<Rightarrow> (Inl e, st') | (Inr x, st') \<Rightarrow> f x st')"

definition act_ensure :: "bool \<Rightarrow> runtime_error \<Rightarrow> ('st, unit) action" where
  "act_ensure b e = act_lift (ensure b e)"

definition act_modify :: "('st \<Rightarrow> 'st) \<Rightarrow> ('st, unit) action" where
  "act_modify f st = (Inr (), f st)"

fun act_for_each :: "('a \<Rightarrow> ('st, unit) action) \<Rightarrow> 'a list \<Rightarrow> ('st, unit) action" where
  "act_for_each f [] = act_return ()"
| "act_for_each f (x # xs) = act_bind (f x) (\<lambda>_. act_for_each f xs)"

lemmas act_defs = act_return_def act_lift_def act_bind_def act_ensure_def act_modify_def

lemma act_bind_Inr:
  "act_bind m f st = (Inr y, st'') \<longleftrightarrow>
    (\<exists>x st'. m st = (Inr x, st') \<and> f x st' = (Inr y, st''))"
  by (auto simp: act_bind_def split: prod.splits sum.splits)

lemma act_bind_Inl:
  "act_bind m f st = (Inl e, st'') \<longleftrightarrow>
    m st = (Inl e, st'') \<or> (\<exists>x st'. m st = (Inr x, st') \<and> f x st' = (Inl e, st''))"
  by (auto simp: act_bind_def split: prod.splits sum.splits)

section \<open>State\<close>

type_synonym provider = "string \<Rightarrow> bool"

datatype monitor_status = MonitorCompleted | MonitorCancelled | MonitorError

datatype monitor_stage_status = MonitorStarted | MonitorStageCompleted | MonitorStageFailed

record monitor_started =
  ms_trace_id :: string
  ms_invocation_id :: string
  ms_project_id :: string
  ms_endpoint :: string
  ms_agent_id :: string
  ms_provider_id :: string
  ms_capability :: string
  ms_started_at_ms :: u64

record monitor_stage =
  mg_trace_id :: string
  mg_invocation_id :: string
  mg_stage :: provider_stage
  mg_status :: monitor_stage_status
  mg_elapsed_ms :: "u64 option"
  mg_request_elapsed_ms :: u64
  mg_input_tokens :: "u64 option"
  mg_output_tokens :: "u64 option"
  mg_resident :: "bool option"
  mg_error :: "string option"

record monitor_finished =
  mf_trace_id :: string
  mf_invocation_id :: string
  mf_status :: monitor_status
  mf_duration_ms :: u64
  mf_ended_at_ms :: u64
  mf_error :: "string option"

datatype runtime_monitor_event =
    InvocationStarted monitor_started
  | ProviderStage monitor_stage
  | InvocationFinished monitor_finished

record io_summary =
  summary_value :: json
  summary_truncated :: bool

datatype runtime_monitor_io_event =
    MonitorInput string string io_summary
  | MonitorOutput string string io_summary

text \<open>
  An installed observer is the list of events it was given; no observer is \<open>None\<close>.
  \<open>core_agents\<close>, \<open>core_endpoints\<close> and \<open>core_sessions\<close> are hash maps the code iterates,
  so association lists; the code never depends on their order. A session lock is the
  invocation that holds it, if one does.
\<close>

record 's runtime_core =
  core_project_id :: string
  core_providers :: "string \<rightharpoonup> provider"
  core_agents :: "(string \<times> agent_definition) list"
  core_endpoints :: "(string \<times> endpoint_definition) list"
  core_manifest :: "runtime_manifest option"
  core_store :: 's
  core_sessions :: "(string \<times> runtime_snapshot) list"
  core_session_locks :: "string \<rightharpoonup> string option"
  core_invocations :: invocation_registry
  core_next_invocation :: u64
  core_monitor :: "runtime_monitor_event list option"
  core_monitor_io :: "runtime_monitor_io_event list option"

definition SNAPSHOT_VERSION :: "32 word" where "SNAPSHOT_VERSION = 1"

definition DEFAULT_TIMEOUT_MS :: u64 where "DEFAULT_TIMEOUT_MS = 30000"

definition DEFAULT_EFFECT_LIMIT :: nat where "DEFAULT_EFFECT_LIMIT = 64"

definition validate_identifier :: "string \<Rightarrow> string \<Rightarrow> unit rt" where
  "validate_identifier kind v =
     (if v = [] \<or> 128 < length v \<or>
         \<not> list_all (\<lambda>b. is_ascii_alphanumeric b \<or> b \<in> {CHR ''-'', CHR ''_'', CHR ''.'', CHR '':''}) v
      then Inl (InvalidDefinition (kind @ '' must be a portable identifier''))
      else Inr ())"

lemma validate_identifier_iff [simp]: "validate_identifier kind v = Inr u \<longleftrightarrow> portable_identifier v"
proof -
  have "(\<lambda>b. is_ascii_alphanumeric b \<or> b \<in> {CHR ''-'', CHR ''_'', CHR ''.'', CHR '':''})
      = portable_byte"
    by (auto simp: fun_eq_iff portable_byte_def)
  then show ?thesis by (auto simp: validate_identifier_def portable_identifier_def)
qed

definition with_store :: "string \<Rightarrow> 's \<Rightarrow> 's runtime_core rt" where
  "with_store project store =
     and_then (validate_identifier ''project'' project) (\<lambda>_.
     Inr \<lparr>core_project_id = project, core_providers = Map.empty, core_agents = [],
          core_endpoints = [], core_manifest = None, core_store = store, core_sessions = [],
          core_session_locks = Map.empty, core_invocations = InvocationRegistry_default,
          core_next_invocation = 1, core_monitor = None, core_monitor_io = None\<rparr>)"

definition VifuRuntime_new :: "string \<Rightarrow> memory_store runtime_core rt" where
  "VifuRuntime_new project = with_store project MemoryRuntimeStore_default"

text \<open>Applying an operation of the store to the core's store.\<close>

definition store_read :: "('s \<Rightarrow> 'a rt) \<Rightarrow> ('s runtime_core, 'a) action" where
  "store_read f c = (f (core_store c), c)"

definition store_write :: "('s \<Rightarrow> 's rt) \<Rightarrow> ('s runtime_core, unit) action" where
  "store_write f c =
     (case f (core_store c) of Inl e \<Rightarrow> (Inl e, c) | Inr s \<Rightarrow> (Inr (), c\<lparr>core_store := s\<rparr>))"

lemma store_read_Inr [simp]: "store_read f c = (Inr x, c') \<longleftrightarrow> f (core_store c) = Inr x \<and> c' = c"
  by (auto simp: store_read_def)

lemma store_write_Inr:
  "store_write f c = (Inr u, c') \<longleftrightarrow> (\<exists>s. f (core_store c) = Inr s \<and> c' = c\<lparr>core_store := s\<rparr>)"
  by (auto simp: store_write_def split: sum.splits)

lemma act_lift_Inr [simp]: "act_lift r st = (Inr x, st') \<longleftrightarrow> r = Inr x \<and> st' = st"
  by (auto simp: act_lift_def)

lemma act_return_Inr [simp]: "act_return y st = (Inr x, st') \<longleftrightarrow> x = y \<and> st' = st"
  by (auto simp: act_return_def)

lemma act_ensure_result [simp]:
  "act_ensure b e st = (Inr u, st') \<longleftrightarrow> b \<and> st' = st"
  "act_ensure b e st = (Inl e', st') \<longleftrightarrow> \<not> b \<and> e' = e \<and> st' = st"
  by (auto simp: act_ensure_def act_lift_def ensure_def)

lemma act_modify_result [simp]:
  "act_modify f st = (Inr u, st') \<longleftrightarrow> st' = f st" "act_modify f st \<noteq> (Inl e, st')"
  by (auto simp: act_modify_def)

lemma action_Inl [simp]:
  "store_read f c = (Inl e, c') \<longleftrightarrow> f (core_store c) = Inl e \<and> c' = c"
  "store_write g c = (Inl e, c') \<longleftrightarrow> g (core_store c) = Inl e \<and> c' = c"
  "act_lift r st = (Inl e, st') \<longleftrightarrow> r = Inl e \<and> st' = st"
  "act_return y st \<noteq> (Inl e, st')"
  by (auto simp: store_read_def store_write_def act_lift_def act_return_def split: sum.splits)

section \<open>The registry of providers, agents and endpoints\<close>

definition register_provider :: "string \<Rightarrow> provider \<Rightarrow> ('s runtime_core, unit) action" where
  "register_provider name p =
     act_bind (act_lift (validate_identifier ''provider'' name)) (\<lambda>_.
     act_modify (\<lambda>c. c\<lparr>core_providers := (core_providers c)(name \<mapsto> p)\<rparr>))"

definition unregister_provider :: "string \<Rightarrow> ('s runtime_core, bool) action" where
  "unregister_provider name =
     act_bind (act_lift (validate_identifier ''provider'' name)) (\<lambda>_ c.
     (Inr (core_providers c name \<noteq> None),
      c\<lparr>core_providers := (core_providers c)(name := None)\<rparr>))"

definition unregister_agent :: "string \<Rightarrow> ('s runtime_core, bool) action" where
  "unregister_agent ident =
     act_bind (act_lift (validate_identifier ''agent'' ident)) (\<lambda>_ c.
     (Inr (map_of (core_agents c) ident \<noteq> None),
      c\<lparr>core_agents := AList.delete ident (core_agents c)\<rparr>))"

definition unregister_endpoint :: "string \<Rightarrow> ('s runtime_core, bool) action" where
  "unregister_endpoint name =
     act_bind (act_lift (validate_identifier ''endpoint'' name)) (\<lambda>_ c.
     (Inr (map_of (core_endpoints c) name \<noteq> None),
      c\<lparr>core_endpoints := AList.delete name (core_endpoints c)\<rparr>))"

definition normalize_capability :: "string \<Rightarrow> string" where
  "normalize_capability capability = to_ascii_lowercase (trim capability)"

definition register_agent :: "agent_definition \<Rightarrow> ('s runtime_core, unit) action" where
  "register_agent agent =
     act_bind (act_lift (validate_identifier ''agent'' (agent_id agent))) (\<lambda>_.
     act_bind (act_lift (validate_identifier ''provider'' (agent_provider agent))) (\<lambda>_.
     act_bind (act_ensure (trim (agent_name agent) \<noteq> [] \<and> agent_capabilities agent \<noteq> [])
       (InvalidDefinition ''agent name and at least one capability are required'')) (\<lambda>_.
     let capabilities = map normalize_capability (agent_capabilities agent) in
     act_bind (act_lift (for_each (validate_identifier ''capability'') capabilities)) (\<lambda>_.
     let stored = agent\<lparr>agent_capabilities := remdups_adj (sort capabilities)\<rparr> in
     (\<lambda>c. if core_providers c (agent_provider agent) = None
          then (Inl (ProviderNotFound (agent_provider agent)), c)
          else (Inr (), c\<lparr>core_agents := AList.update (agent_id agent) stored (core_agents c)\<rparr>))))))"

definition register_endpoint :: "endpoint_definition \<Rightarrow> ('s runtime_core, unit) action" where
  "register_endpoint endpoint =
     act_bind (act_lift (validate_identifier ''endpoint'' (endpoint_name endpoint))) (\<lambda>_.
     act_bind (act_lift (validate_identifier ''agent'' (endpoint_agent endpoint))) (\<lambda>_.
     let capability = normalize_capability (endpoint_capability endpoint);
         stored = endpoint\<lparr>endpoint_capability := capability\<rparr> in
     act_bind (act_lift (validate_identifier ''capability'' capability)) (\<lambda>_.
     act_bind (act_ensure (1 \<le> endpoint_timeout_ms endpoint \<and>
         endpoint_timeout_ms endpoint \<le> MAX_ENDPOINT_TIMEOUT_MS)
       (InvalidDefinition (''endpoint timeout must be between 1 and '' @
          show_nat (unat MAX_ENDPOINT_TIMEOUT_MS) @ '' ms''))) (\<lambda>_ c.
     case map_of (core_agents c) (endpoint_agent endpoint) of
       None \<Rightarrow> (Inl (AgentNotFound (endpoint_agent endpoint)), c)
     | Some agent \<Rightarrow>
         if capability \<notin> set (agent_capabilities agent)
         then (Inl (CapabilityUnavailable (agent_provider agent) capability), c)
         else (Inr (), c\<lparr>core_endpoints :=
                 AList.update (endpoint_name endpoint) stored (core_endpoints c)\<rparr>)))))"

definition agent_definitions :: "('s runtime_core, agent_definition list) action" where
  "agent_definitions c = (Inr (sort_key agent_id (map snd (core_agents c))), c)"

definition endpoint_definitions :: "('s runtime_core, endpoint_definition list) action" where
  "endpoint_definitions c = (Inr (sort_key endpoint_name (map snd (core_endpoints c))), c)"

section \<open>Manifests and releases\<close>

definition check_requirement ::
    "(string \<rightharpoonup> provider) \<Rightarrow> provider_requirement \<Rightarrow> unit rt" where
  "check_requirement providers requirement =
     and_then (ok_or (providers (requirement_id requirement))
       (ProviderNotFound (requirement_id requirement))) (\<lambda>provider.
     for_each (\<lambda>capability. ensure (provider capability)
       (CapabilityUnavailable (requirement_id requirement) capability))
       (requirement_capabilities requirement))"

text \<open>\<open>.map(|x| (x.key.clone(), x)).collect()\<close> into a hash map: a later key replaces.\<close>

definition collect_map :: "('a \<Rightarrow> 'k) \<Rightarrow> 'a list \<Rightarrow> ('k \<times> 'a) list" where
  "collect_map key xs = fold (\<lambda>x m. AList.update (key x) x m) xs []"

definition apply_manifest :: "codec \<Rightarrow> runtime_manifest \<Rightarrow> ('s runtime_core, unit) action" where
  "apply_manifest k manifest =
     act_bind (act_lift (RuntimeManifest_validate k manifest)) (\<lambda>_ c.
     if manifest_project_id manifest \<noteq> core_project_id c
     then (Inl (InvalidDefinition ''project settings belong to another project''), c)
     else case for_each (check_requirement (core_providers c)) (manifest_providers manifest) of
            Inl e \<Rightarrow> (Inl e, c)
          | Inr _ \<Rightarrow> (Inr (),
              c\<lparr>core_agents := collect_map agent_id (manifest_agents manifest),
                core_endpoints := collect_map endpoint_name (manifest_endpoints manifest),
                core_manifest := Some manifest\<rparr>))"

definition current_manifest :: "('s runtime_core, runtime_manifest option) action" where
  "current_manifest c = (Inr (core_manifest c), c)"

definition install_release ::
    "codec \<Rightarrow> 's store_ops \<Rightarrow> runtime_release \<Rightarrow> ('s runtime_core, unit) action" where
  "install_release k ops release =
     act_bind (act_lift (RuntimeRelease_validate k release)) (\<lambda>_ c.
     if manifest_project_id (release_manifest release) \<noteq> core_project_id c
     then (Inl (InvalidDefinition ''runtime release belongs to another project''), c)
     else store_write (\<lambda>s. so_save_release ops s release) c)"

definition releases :: "'s store_ops \<Rightarrow> ('s runtime_core, runtime_release list) action" where
  "releases ops c = store_read (\<lambda>s. so_list_releases ops s (core_project_id c)) c"

definition active_release_version :: "'s store_ops \<Rightarrow> ('s runtime_core, u64 option) action" where
  "active_release_version ops c = store_read (\<lambda>s. so_active_release ops s (core_project_id c)) c"

definition activate_release ::
    "codec \<Rightarrow> 's store_ops \<Rightarrow> u64 \<Rightarrow> ('s runtime_core, runtime_release) action" where
  "activate_release k ops version c0 =
     act_bind (store_read (\<lambda>s. so_load_release ops s (core_project_id c0) version)) (\<lambda>found.
     act_bind (act_lift (ok_or found (Store ''runtime release was not found''))) (\<lambda>release.
     act_bind (apply_manifest k (release_manifest release)) (\<lambda>_.
     act_bind (store_write (\<lambda>s. so_set_active_release ops s (core_project_id c0) version)) (\<lambda>_.
     act_return release)))) c0"

definition restore_active_release ::
    "codec \<Rightarrow> 's store_ops \<Rightarrow> ('s runtime_core, runtime_release option) action" where
  "restore_active_release k ops =
     act_bind (active_release_version ops) (\<lambda>active.
     case active of
       None \<Rightarrow> act_return None
     | Some version \<Rightarrow> act_bind (activate_release k ops version) (\<lambda>r. act_return (Some r)))"

definition bootstrap_release ::
    "codec \<Rightarrow> 's store_ops \<Rightarrow> runtime_manifest \<Rightarrow> ('s runtime_core, runtime_release) action" where
  "bootstrap_release k ops manifest =
     act_bind (restore_active_release k ops) (\<lambda>active.
     case active of
       Some release \<Rightarrow> act_return release
     | None \<Rightarrow>
         act_bind (act_lift (RuntimeRelease_new k 1 manifest)) (\<lambda>release.
         act_bind (install_release k ops release) (\<lambda>_.
         activate_release k ops (release_version release))))"

definition save_local_provider_binding ::
    "'s store_ops \<Rightarrow> local_provider_binding \<Rightarrow> ('s runtime_core, unit) action" where
  "save_local_provider_binding ops binding =
     act_bind (act_lift (validate_identifier ''provider'' (binding_provider_id binding))) (\<lambda>_ c.
     store_write (\<lambda>s. so_save_local_provider_binding ops s (core_project_id c) binding) c)"

definition local_provider_bindings ::
    "'s store_ops \<Rightarrow> ('s runtime_core, local_provider_binding list) action" where
  "local_provider_bindings ops c =
     store_read (\<lambda>s. so_local_provider_bindings ops s (core_project_id c)) c"

definition pending_traces ::
    "'s store_ops \<Rightarrow> nat \<Rightarrow> ('s runtime_core, runtime_trace_record list) action" where
  "pending_traces ops limit = store_read (\<lambda>s. so_pending_traces ops s (min limit 1000))"

definition acknowledge_traces :: "'s store_ops \<Rightarrow> string list \<Rightarrow> ('s runtime_core, unit) action" where
  "acknowledge_traces ops ids = store_write (\<lambda>s. so_acknowledge_traces ops s ids)"

section \<open>Session snapshots\<close>

definition load_snapshot ::
    "'s store_ops \<Rightarrow> string \<Rightarrow> ('s runtime_core, runtime_snapshot) action" where
  "load_snapshot ops session c =
     (case map_of (core_sessions c) session of
        Some snapshot \<Rightarrow> (Inr snapshot, c)
      | None \<Rightarrow>
          act_bind (store_read (\<lambda>s. so_load ops s (core_project_id c) session)) (\<lambda>found.
          let snapshot = (case found of Some s \<Rightarrow> s | None \<Rightarrow> RuntimeSnapshot_default) in
          act_bind (act_modify (\<lambda>c1. c1\<lparr>core_sessions :=
              AList.update session snapshot (core_sessions c1)\<rparr>)) (\<lambda>_.
          act_return snapshot)) c)"

record portable_project_snapshot =
  portable_version :: "32 word"
  portable_project_id :: string
  portable_sessions :: "(string \<times> runtime_snapshot) list"

text \<open>The JSON codec (\<open>serde_json\<close>) of the values that cross the runtime's boundary.\<close>

record value_codec =
  encode_value :: "json \<Rightarrow> (string, string) result"
  encode_snapshot :: "portable_project_snapshot \<Rightarrow> (string, string) result"
  decode_snapshot :: "string \<Rightarrow> (string, portable_project_snapshot) result"
  decode_input :: "json \<Rightarrow> (string, invocation_input) result"
  output_value :: "invocation_output \<Rightarrow> json option"

definition export_snapshot :: "value_codec \<Rightarrow> ('s runtime_core, string) action" where
  "export_snapshot v c =
     (case encode_snapshot v \<lparr>portable_version = SNAPSHOT_VERSION,
          portable_project_id = core_project_id c, portable_sessions = core_sessions c\<rparr> of
        Inl e \<Rightarrow> (Inl (Snapshot e), c)
      | Inr bytes \<Rightarrow> (Inr bytes, c))"

definition restore_session ::
    "'s store_ops \<Rightarrow> string \<times> runtime_snapshot \<Rightarrow> ('s runtime_core, unit) action" where
  "restore_session ops entry =
     act_bind (act_lift (validate_identifier ''session'' (fst entry))) (\<lambda>_ c.
     store_write (\<lambda>s. so_save ops s (core_project_id c) (fst entry) (snd entry)) c)"

definition restore_snapshot ::
    "value_codec \<Rightarrow> 's store_ops \<Rightarrow> string \<Rightarrow> ('s runtime_core, unit) action" where
  "restore_snapshot v ops bytes =
     act_bind (act_lift (case decode_snapshot v bytes of
         Inl e \<Rightarrow> Inl (Snapshot e) | Inr snapshot \<Rightarrow> Inr snapshot)) (\<lambda>snapshot c.
     if portable_version snapshot \<noteq> SNAPSHOT_VERSION \<or>
        portable_project_id snapshot \<noteq> core_project_id c
     then (Inl (Snapshot ''snapshot version or project does not match''), c)
     else act_bind (act_for_each (restore_session ops) (portable_sessions snapshot)) (\<lambda>_.
          act_modify (\<lambda>c1. c1\<lparr>core_sessions := portable_sessions snapshot\<rparr>)) c)"

section \<open>Observers\<close>

definition set_monitor_observer :: "bool \<Rightarrow> ('s runtime_core, unit) action" where
  "set_monitor_observer installed =
     act_modify (\<lambda>c. c\<lparr>core_monitor := (if installed then Some [] else None)\<rparr>)"

definition set_monitor_io_observer :: "bool \<Rightarrow> ('s runtime_core, unit) action" where
  "set_monitor_io_observer installed =
     act_modify (\<lambda>c. c\<lparr>core_monitor_io := (if installed then Some [] else None)\<rparr>)"

definition emit_monitor_event :: "runtime_monitor_event \<Rightarrow> 's runtime_core \<Rightarrow> 's runtime_core" where
  "emit_monitor_event event c =
     c\<lparr>core_monitor := map_option (\<lambda>given. given @ [event]) (core_monitor c)\<rparr>"

definition emit_monitor_io_event ::
    "runtime_monitor_io_event \<Rightarrow> 's runtime_core \<Rightarrow> 's runtime_core" where
  "emit_monitor_io_event event c =
     c\<lparr>core_monitor_io := map_option (\<lambda>given. given @ [event]) (core_monitor_io c)\<rparr>"

definition MAX_RUNTIME_MONITOR_IO_BYTES :: nat where "MAX_RUNTIME_MONITOR_IO_BYTES = 131072"

fun monitor_value_shape :: "json \<Rightarrow> string" where
  "monitor_value_shape JNull = ''null''"
| "monitor_value_shape (JBool _) = ''boolean''"
| "monitor_value_shape (JNumber _) = ''number''"
| "monitor_value_shape (JString _) = ''string''"
| "monitor_value_shape (JArray _) = ''array''"
| "monitor_value_shape (JObject _) = ''object''"

fun runtime_monitor_io_summary :: "value_codec \<Rightarrow> invocation_data \<Rightarrow> io_summary" where
  "runtime_monitor_io_summary v (Binary bytes) =
     \<lparr>summary_value = JObject [(''_vifuBinary'', JBool True),
        (''bytes'', json_u64 (of_nat (length bytes)))],
      summary_truncated = True\<rparr>"
| "runtime_monitor_io_summary v (Json value) =
     (if (case encode_value v value of
            Inl _ \<Rightarrow> False | Inr encoded \<Rightarrow> length encoded \<le> MAX_RUNTIME_MONITOR_IO_BYTES)
      then \<lparr>summary_value = value, summary_truncated = False\<rparr>
      else \<lparr>summary_value = JObject [(''summary'', JString (monitor_value_shape value)),
              (''truncated'', JBool True)],
            summary_truncated = True\<rparr>)"

definition monitor_u64 :: "json \<Rightarrow> string \<Rightarrow> u64 option" where
  "monitor_u64 metadata key = Option.bind (json_get metadata key) as_u64"

fun provider_stage_name :: "provider_stage \<Rightarrow> string" where
  "provider_stage_name StageQueue = ''queue''"
| "provider_stage_name StageLoad = ''load''"
| "provider_stage_name StageTokenize = ''tokenize''"
| "provider_stage_name StagePrefill = ''prefill''"
| "provider_stage_name StageFirstToken = ''first_token''"
| "provider_stage_name StageDecode = ''decode''"
| "provider_stage_name StageValidate = ''validate''"

section \<open>Effects of a headless runtime executed as invocations\<close>

text \<open>
  \<open>invoke\<close> is the whole asynchronous call \<open>self.invoke(input).await\<close>: a state transformer
  of the embedding system.
\<close>

record effect_execution =
  execution_results :: "effect_result list"
  execution_unhandled :: "effect_request list"

definition execute_effect ::
    "value_codec \<Rightarrow> (invocation_input \<Rightarrow> ('st, invocation_output) action) \<Rightarrow> effect_request
      \<Rightarrow> effect_execution \<Rightarrow> ('st, effect_execution) action" where
  "execute_effect v invoke effect acc st =
     (if effect_kind effect \<noteq> ''agent.invoke''
      then (Inr (acc\<lparr>execution_unhandled := execution_unhandled acc @ [effect]\<rparr>), st)
      else case decode_input v (effect_payload effect) of
        Inl e \<Rightarrow> (Inl (InvalidDefinition e), st)
      | Inr input \<Rightarrow>
          (case invoke input st of
             (Inr out, st') \<Rightarrow>
               (case output_value v out of
                  None \<Rightarrow> (Inl Internal, st')
                | Some value \<Rightarrow>
                    (Inr (acc\<lparr>execution_results := execution_results acc @
                        [\<lparr>result_effect_id = effect_id effect, result_succeeded = True,
                          result_output = value\<rparr>]\<rparr>), st'))
           | (Inl e, st') \<Rightarrow>
               (Inr (acc\<lparr>execution_results := execution_results acc @
                   [\<lparr>result_effect_id = effect_id effect, result_succeeded = False,
                     result_output = JObject [(''error'', JString (public_message e))]\<rparr>]\<rparr>), st')))"

fun execute_effect_list ::
    "value_codec \<Rightarrow> (invocation_input \<Rightarrow> ('st, invocation_output) action) \<Rightarrow> effect_request list
      \<Rightarrow> effect_execution \<Rightarrow> ('st, effect_execution) action" where
  "execute_effect_list v invoke [] acc = act_return acc"
| "execute_effect_list v invoke (effect # effects) acc =
     act_bind (execute_effect v invoke effect acc) (execute_effect_list v invoke effects)"

definition execute_effects_with_limit ::
    "value_codec \<Rightarrow> (invocation_input \<Rightarrow> ('st, invocation_output) action) \<Rightarrow> effect_request list
      \<Rightarrow> nat \<Rightarrow> ('st, effect_execution) action" where
  "execute_effects_with_limit v invoke effects limit =
     (if limit < length effects then act_lift (Inl (EffectLimitExceeded limit))
      else execute_effect_list v invoke effects
             \<lparr>execution_results = [], execution_unhandled = []\<rparr>)"

definition execute_effects ::
    "value_codec \<Rightarrow> (invocation_input \<Rightarrow> ('st, invocation_output) action) \<Rightarrow> effect_request list
      \<Rightarrow> ('st, effect_execution) action" where
  "execute_effects v invoke effects =
     execute_effects_with_limit v invoke effects DEFAULT_EFFECT_LIMIT"

section \<open>Well-formed registries\<close>

definition stored_agent :: "string \<times> agent_definition \<Rightarrow> bool" where
  "stored_agent x \<longleftrightarrow> fst x = agent_id (snd x) \<and> portable_identifier (fst x) \<and>
     portable_identifier (agent_provider (snd x)) \<and> trim (agent_name (snd x)) \<noteq> [] \<and>
     portable_capabilities (agent_capabilities (snd x))"

definition stored_endpoint :: "string \<times> endpoint_definition \<Rightarrow> bool" where
  "stored_endpoint x \<longleftrightarrow> fst x = endpoint_name (snd x) \<and> portable_identifier (fst x) \<and>
     portable_identifier (endpoint_agent (snd x)) \<and>
     portable_identifier (endpoint_capability (snd x)) \<and>
     1 \<le> endpoint_timeout_ms (snd x) \<and> endpoint_timeout_ms (snd x) \<le> MAX_ENDPOINT_TIMEOUT_MS"

definition core_wf :: "'s runtime_core \<Rightarrow> bool" where
  "core_wf c \<longleftrightarrow>
     distinct (map fst (core_agents c)) \<and> (\<forall>x \<in> set (core_agents c). stored_agent x) \<and>
     distinct (map fst (core_endpoints c)) \<and> (\<forall>x \<in> set (core_endpoints c). stored_endpoint x)"

lemma core_wf_frame:
  "core_agents c' = core_agents c \<Longrightarrow> core_endpoints c' = core_endpoints c \<Longrightarrow>
    core_wf c' = core_wf c"
  by (simp add: core_wf_def)

lemma core_wf_new: "with_store project store = Inr c \<Longrightarrow> core_wf c"
  by (auto simp: with_store_def and_then_eq_Inr core_wf_def)

lemma core_wf_update_agent:
  assumes "core_wf c" and "stored_agent (k, a)"
  shows "core_wf (c\<lparr>core_agents := AList.update k a (core_agents c)\<rparr>)"
  using assms set_update_subset [of "core_agents c" k a]
  by (auto simp: core_wf_def distinct_keys_update)

lemma core_wf_update_endpoint:
  assumes "core_wf c" and "stored_endpoint (k, e)"
  shows "core_wf (c\<lparr>core_endpoints := AList.update k e (core_endpoints c)\<rparr>)"
  using assms set_update_subset [of "core_endpoints c" k e]
  by (auto simp: core_wf_def distinct_keys_update)

lemma portable_capabilities_normal:
  assumes "\<forall>x \<in> set xs. portable_identifier x" and "xs \<noteq> []"
  shows "portable_capabilities (remdups_adj (sort xs))"
proof -
  have "sort xs \<noteq> []" using assms(2) by (metis set_sort set_empty)
  with assms(1) show ?thesis by (auto simp: portable_capabilities_def list_all_iff)
qed

lemma register_agent_wf:
  assumes "core_wf c" and "register_agent a c = (r, c')"
  shows "core_wf c'"
proof (cases "c' = c")
  case False
  with assms(2) have "c' = c\<lparr>core_agents := AList.update (agent_id a)
      (a\<lparr>agent_capabilities := remdups_adj (sort (map normalize_capability (agent_capabilities a)))\<rparr>)
      (core_agents c)\<rparr>"
    and "stored_agent (agent_id a,
      a\<lparr>agent_capabilities := remdups_adj (sort (map normalize_capability (agent_capabilities a)))\<rparr>)"
    by (auto simp: register_agent_def act_defs Let_def stored_agent_def
        split: sum.splits if_splits intro!: portable_capabilities_normal)
  with assms(1) show ?thesis by (simp add: core_wf_update_agent)
qed (use assms in simp)

lemma register_endpoint_wf:
  assumes "core_wf c" and "register_endpoint e c = (r, c')"
  shows "core_wf c'"
proof (cases "c' = c")
  case False
  with assms(2) have "c' = c\<lparr>core_endpoints := AList.update (endpoint_name e)
      (e\<lparr>endpoint_capability := normalize_capability (endpoint_capability e)\<rparr>)
      (core_endpoints c)\<rparr>"
    and "stored_endpoint (endpoint_name e,
      e\<lparr>endpoint_capability := normalize_capability (endpoint_capability e)\<rparr>)"
    by (auto simp: register_endpoint_def act_defs Let_def stored_endpoint_def
        split: sum.splits if_splits option.splits)
  with assms(1) show ?thesis by (simp add: core_wf_update_endpoint)
qed (use assms in simp)

lemma core_wf_delete_agent: "core_wf c \<Longrightarrow> core_wf (c\<lparr>core_agents := AList.delete k (core_agents c)\<rparr>)"
  by (auto simp: core_wf_def AList.delete_eq distinct_map_filter)

lemma core_wf_delete_endpoint:
  "core_wf c \<Longrightarrow> core_wf (c\<lparr>core_endpoints := AList.delete k (core_endpoints c)\<rparr>)"
  by (auto simp: core_wf_def AList.delete_eq distinct_map_filter)

lemma unregister_wf:
  "core_wf c \<Longrightarrow> unregister_agent k c = (r, c') \<Longrightarrow> core_wf c'"
  "core_wf c \<Longrightarrow> unregister_endpoint k c = (r, c') \<Longrightarrow> core_wf c'"
  by (auto simp: unregister_agent_def unregister_endpoint_def act_defs core_wf_delete_agent
      core_wf_delete_endpoint split: sum.splits)

lemma provider_wf:
  "core_wf c \<Longrightarrow> register_provider n p c = (r, c') \<Longrightarrow> core_wf c'"
  "core_wf c \<Longrightarrow> unregister_provider n c = (r', c') \<Longrightarrow> core_wf c'"
  by (auto simp: register_provider_def unregister_provider_def act_defs core_wf_def
      split: sum.splits)

lemma fold_update_keyed:
  assumes "distinct (map fst m)" and "\<forall>x \<in> set m. Q x" and "\<forall>x \<in> set xs. Q (key x, x)"
  shows "distinct (map fst (fold (\<lambda>x m. AList.update (key x) x m) xs m)) \<and>
    (\<forall>y \<in> set (fold (\<lambda>x m. AList.update (key x) x m) xs m). Q y)"
  using assms
proof (induction xs arbitrary: m)
  case (Cons x xs)
  have "\<forall>y \<in> set (AList.update (key x) x m). Q y"
    using Cons.prems set_update_subset [of m "key x" x] by auto
  with Cons.IH [OF distinct_keys_update [OF Cons.prems(1)]] Cons.prems(3) show ?case by simp
qed simp

lemma collect_map_keyed:
  assumes "\<forall>x \<in> set xs. Q (key x, x)"
  shows "distinct (map fst (collect_map key xs))" and "\<forall>y \<in> set (collect_map key xs). Q y"
  using fold_update_keyed [of "[]" Q xs key] assms by (simp_all add: collect_map_def)

lemma apply_manifest_cases:
  assumes "apply_manifest k m c = (r, c')"
  obtains (failed) e where "r = Inl e" "c' = c"
  | (applied) "r = Inr ()" "valid_manifest k m" "manifest_project_id m = core_project_id c"
      "c' = c\<lparr>core_agents := collect_map agent_id (manifest_agents m),
              core_endpoints := collect_map endpoint_name (manifest_endpoints m),
              core_manifest := Some m\<rparr>"
      "for_each (check_requirement (core_providers c)) (manifest_providers m) = Inr ()"
proof (cases "RuntimeManifest_validate k m")
  case (Inl e)
  with assms show thesis by (intro failed [of e]) (auto simp: apply_manifest_def act_defs)
next
  case (Inr u)
  then have valid: "valid_manifest k m" by (simp add: RuntimeManifest_validate_iff)
  show thesis
  proof (cases "manifest_project_id m = core_project_id c")
    case False
    with Inr assms show thesis by (intro failed) (auto simp: apply_manifest_def act_defs)
  next
    case True
    show thesis
    proof (cases "for_each (check_requirement (core_providers c)) (manifest_providers m)")
      case (Inl e)
      with Inr True assms show thesis by (intro failed [of e]) (auto simp: apply_manifest_def act_defs)
    next
      case (Inr v)
      with \<open>RuntimeManifest_validate k m = Inr u\<close> True assms valid show thesis
        by (intro applied) (auto simp: apply_manifest_def act_defs)
    qed
  qed
qed

lemma apply_manifest_wf:
  assumes "core_wf c" and "apply_manifest k m c = (r, c')"
  shows "core_wf c'"
  using assms(2)
proof (cases rule: apply_manifest_cases)
  case applied
  then have "\<forall>a \<in> set (manifest_agents m). stored_agent (agent_id a, a)"
    and "\<forall>e \<in> set (manifest_endpoints m). stored_endpoint (endpoint_name e, e)"
    by (auto simp: valid_manifest_def valid_agent_def valid_endpoint_def stored_agent_def
        stored_endpoint_def)
  with applied show ?thesis
    by (simp add: core_wf_def collect_map_keyed)
qed (use assms in simp)

text \<open>A host's use of the registry: any sequence of its operations, failed ones included.\<close>

datatype registry_call =
    RegisterProvider string "string list"
  | UnregisterProvider string
  | RegisterAgent agent_definition
  | UnregisterAgent string
  | RegisterEndpoint endpoint_definition
  | UnregisterEndpoint string
  | ApplyManifest runtime_manifest

fun run_registry_call :: "codec \<Rightarrow> registry_call \<Rightarrow> 's runtime_core \<Rightarrow> 's runtime_core" where
  "run_registry_call k (RegisterProvider n cs) c = snd (register_provider n (\<lambda>x. x \<in> set cs) c)"
| "run_registry_call k (UnregisterProvider n) c = snd (unregister_provider n c)"
| "run_registry_call k (RegisterAgent a) c = snd (register_agent a c)"
| "run_registry_call k (UnregisterAgent n) c = snd (unregister_agent n c)"
| "run_registry_call k (RegisterEndpoint e) c = snd (register_endpoint e c)"
| "run_registry_call k (UnregisterEndpoint n) c = snd (unregister_endpoint n c)"
| "run_registry_call k (ApplyManifest m) c = snd (apply_manifest k m c)"

lemmas registry_wf_intros =
  register_agent_wf register_endpoint_wf unregister_wf provider_wf apply_manifest_wf

lemma run_registry_call_wf: "core_wf c \<Longrightarrow> core_wf (run_registry_call k x c)"
  by (cases x) (auto intro: registry_wf_intros prod.collapse [symmetric])

lemma registry_calls_wf: "core_wf c \<Longrightarrow> core_wf (fold (run_registry_call k) xs c)"
  by (induction xs arbitrary: c) (simp_all add: run_registry_call_wf)

lemma map_snd_key:
  assumes "\<forall>x \<in> set xs. fst x = f (snd x)"
  shows "map f (map snd xs) = map fst xs"
  using assms by simp

end
