(* ===== verification/Invoke.thy ===== *)
theory Invoke
  imports Application
begin

text \<open>
  The asynchronous part of \<open>crates/vifu-runtime/src/application.rs\<close>: \<open>RuntimeCore::invoke\<close> and
  \<open>invoke_provider\<close>, the event sink given to providers, the background worker and the polling
  API of \<open>VifuRuntime\<close>. An invocation is a \<open>task\<close> whose phase is the \<open>.await\<close> it is
  suspended at; each function below is the code between two awaits. What the environment decides
  (the provider's response, its events, elapsed times, which futures are ready) is an argument.
\<close>

section \<open>Data\<close>

record provider_request =
  request_project_id :: string
  request_endpoint :: string
  request_session_id :: string
  request_agent :: agent_definition
  request_capability :: string
  request_data :: invocation_data
  request_metadata :: json
  request_snapshot :: runtime_snapshot

record provider_response =
  response_data :: invocation_data
  response_metadata :: json
  response_state :: "json option"

definition ProviderResponse_json :: "json \<Rightarrow> provider_response" where
  "ProviderResponse_json v =
     \<lparr>response_data = Json v, response_metadata = empty_object, response_state = None\<rparr>"

text \<open>
  A provider call in progress: \<open>call_activity\<close> is the value of the watch channel that counts
  the provider's events, \<open>call_changed\<close> whether the receiver has not seen its last change.
\<close>

record active_call =
  call_request :: provider_request
  call_endpoint :: endpoint_definition
  call_agent :: agent_definition
  call_snapshot :: runtime_snapshot
  call_activity :: u64
  call_changed :: bool
  call_activity_open :: bool
  call_trace :: "invocation_trace_event list"

datatype task_phase =
    NotStarted
  | AwaitingLock
  | Calling active_call
  | CleaningUp active_call runtime_error
  | Finished "invocation_output rt"

record task =
  task_input :: invocation_input
  task_token :: nat
  task_background :: bool
  task_created_at_ms :: u64
  task_forwarded :: "provider_event list"
  task_phase :: task_phase

record worker_command =
  start_handle :: string
  start_input :: invocation_input
  start_cancellation :: nat

text \<open>
  The whole runtime: the core, its invocations by identifier, the worker's channel, and the
  cancellation tokens, whose shared flags are numbered.
\<close>

record 's vifu_system =
  sys_core :: "'s runtime_core"
  sys_tasks :: "string \<rightharpoonup> task"
  sys_worker :: bool
  sys_queue :: "worker_command list"
  sys_cancelled :: "nat set"
  sys_next_token :: nat

definition WORKER_QUEUE_CAPACITY :: nat where "WORKER_QUEUE_CAPACITY = 64"

definition PROVIDER_CANCELLATION_GRACE_MS :: u64 where "PROVIDER_CANCELLATION_GRACE_MS = 5000"

definition system_new :: "'s runtime_core \<Rightarrow> 's vifu_system" where
  "system_new c =
     \<lparr>sys_core = c, sys_tasks = Map.empty, sys_worker = False, sys_queue = [],
      sys_cancelled = {}, sys_next_token = 0\<rparr>"

definition CancellationToken_cancel :: "nat \<Rightarrow> 's vifu_system \<Rightarrow> 's vifu_system" where
  "CancellationToken_cancel t s = s\<lparr>sys_cancelled := insert t (sys_cancelled s)\<rparr>"

definition is_cancelled :: "nat \<Rightarrow> 's vifu_system \<Rightarrow> bool" where
  "is_cancelled t s \<longleftrightarrow> t \<in> sys_cancelled s"

definition next_invocation_id :: "'s runtime_core \<Rightarrow> string \<times> 's runtime_core" where
  "next_invocation_id c =
     (''invocation-'' @ show_nat (unat (core_next_invocation c)),
      c\<lparr>core_next_invocation := core_next_invocation c + 1\<rparr>)"

definition trace_name :: "u64 \<Rightarrow> string \<Rightarrow> string" where
  "trace_name created_at_ms ident =
     ''trace-'' @ show_nat (unat created_at_ms) @ ''-'' @ ident"

section \<open>One invocation\<close>

text \<open>Up to \<open>session_lock.lock().await\<close>: the checks, and the session's lock, made if new.\<close>

definition invoke_enter :: "invocation_input \<Rightarrow> ('s runtime_core, unit) action" where
  "invoke_enter input =
     act_bind (act_lift (validate_identifier ''endpoint'' (input_endpoint input))) (\<lambda>_.
     act_bind (act_lift (validate_identifier ''session'' (input_session_id input))) (\<lambda>_.
     act_modify (\<lambda>c.
       if core_session_locks c (input_session_id input) = None
       then c\<lparr>core_session_locks := (core_session_locks c)(input_session_id input \<mapsto> None)\<rparr>
       else c)))"

definition resolve_endpoint ::
    "string \<Rightarrow> 's runtime_core \<Rightarrow> (endpoint_definition \<times> agent_definition \<times> provider) rt" where
  "resolve_endpoint name c =
     and_then (ok_or (map_of (core_endpoints c) name) (EndpointNotFound name)) (\<lambda>endpoint.
     and_then (ok_or (map_of (core_agents c) (endpoint_agent endpoint))
       (AgentNotFound (endpoint_agent endpoint))) (\<lambda>agent.
     and_then (ok_or (core_providers c (agent_provider agent))
       (ProviderNotFound (agent_provider agent))) (\<lambda>provider.
     Inr (endpoint, agent, provider))))"

text \<open>From the lock to the provider's call; the session's lock is held.\<close>

definition invoke_begin ::
    "value_codec \<Rightarrow> 's store_ops \<Rightarrow> bool \<Rightarrow> string \<Rightarrow> task \<Rightarrow> ('s runtime_core, active_call) action"
  where
  "invoke_begin v ops cancelled ident t c0 =
     act_bind (act_lift (resolve_endpoint (input_endpoint (task_input t)) c0))
       (\<lambda>(endpoint, agent, provider).
     act_bind (act_ensure
         (endpoint_capability endpoint \<in> set (agent_capabilities agent) \<and>
          provider (endpoint_capability endpoint))
         (CapabilityUnavailable (agent_provider agent) (endpoint_capability endpoint))) (\<lambda>_.
     act_bind (act_ensure (\<not> cancelled) Cancelled) (\<lambda>_.
     act_bind (act_modify (emit_monitor_event (InvocationStarted
         \<lparr>ms_trace_id = trace_name (task_created_at_ms t) ident, ms_invocation_id = ident,
          ms_project_id = core_project_id c0, ms_endpoint = endpoint_name endpoint,
          ms_agent_id = agent_id agent, ms_provider_id = agent_provider agent,
          ms_capability = endpoint_capability endpoint,
          ms_started_at_ms = task_created_at_ms t\<rparr>))) (\<lambda>_.
     act_bind (act_modify (emit_monitor_io_event (MonitorInput
         (trace_name (task_created_at_ms t) ident) ident
         (runtime_monitor_io_summary v (input_data (task_input t)))))) (\<lambda>_.
     act_bind (load_snapshot ops (input_session_id (task_input t))) (\<lambda>snapshot.
     act_return
       \<lparr>call_request =
          \<lparr>request_project_id = core_project_id c0, request_endpoint = endpoint_name endpoint,
           request_session_id = input_session_id (task_input t), request_agent = agent,
           request_capability = endpoint_capability endpoint,
           request_data = input_data (task_input t),
           request_metadata = input_metadata (task_input t), request_snapshot = snapshot\<rparr>,
        call_endpoint = endpoint, call_agent = agent, call_snapshot = snapshot,
        call_activity = 0, call_changed = False, call_activity_open = True,
        call_trace = []\<rparr>)))))) c0"

section \<open>Provider events\<close>

fun stage_trace_event :: "provider_event \<Rightarrow> invocation_trace_event option" where
  "stage_trace_event (StageCompleted stage elapsed_ms metadata) =
     Some \<lparr>te_name = provider_stage_name stage, te_status = ''completed'',
           te_duration_ms = elapsed_ms, te_attributes = metadata\<rparr>"
| "stage_trace_event (StageFailed stage elapsed_ms error metadata) =
     Some \<lparr>te_name = provider_stage_name stage, te_status = ''failed'',
           te_duration_ms = elapsed_ms, te_attributes = metadata\<rparr>"
| "stage_trace_event _ = None"

fun stage_monitor ::
    "provider_event
      \<Rightarrow> (provider_stage \<times> monitor_stage_status \<times> u64 option \<times> json \<times> string option) option" where
  "stage_monitor Activity = None"
| "stage_monitor (OutputDelta data) = None"
| "stage_monitor (StageStarted stage metadata) =
     Some (stage, MonitorStarted, None, metadata, None)"
| "stage_monitor (StageCompleted stage elapsed_ms metadata) =
     Some (stage, MonitorStageCompleted, Some elapsed_ms, metadata, None)"
| "stage_monitor (StageFailed stage elapsed_ms error metadata) =
     Some (stage, MonitorStageFailed, Some elapsed_ms, metadata, Some error)"

definition stage_monitor_event ::
    "string \<Rightarrow> string \<Rightarrow> u64 \<Rightarrow> provider_event \<Rightarrow> runtime_monitor_event option" where
  "stage_monitor_event trace ident request_elapsed_ms event =
     (case stage_monitor event of
        None \<Rightarrow> None
      | Some (stage, status, elapsed_ms, metadata, error) \<Rightarrow>
          Some (ProviderStage
            \<lparr>mg_trace_id = trace, mg_invocation_id = ident, mg_stage = stage, mg_status = status,
             mg_elapsed_ms = elapsed_ms, mg_request_elapsed_ms = request_elapsed_ms,
             mg_input_tokens = monitor_u64 metadata ''inputTokens'',
             mg_output_tokens = monitor_u64 metadata ''outputTokens'',
             mg_resident = Option.bind (json_get metadata ''resident'') as_bool,
             mg_error = error\<rparr>))"

definition note_activity :: "provider_event \<Rightarrow> active_call \<Rightarrow> active_call" where
  "note_activity event call = call
     \<lparr>call_activity := saturating_add (call_activity call) 1, call_changed := True,
      call_trace := call_trace call @
        (case stage_trace_event event of None \<Rightarrow> [] | Some te \<Rightarrow> [te])\<rparr>"

definition sink_core ::
    "string \<Rightarrow> task \<Rightarrow> u64 \<Rightarrow> provider_event \<Rightarrow> 's runtime_core \<Rightarrow> 's runtime_core" where
  "sink_core ident t request_elapsed_ms event c =
     (let c1 = c\<lparr>core_invocations := push_provider_event ident event (core_invocations c)\<rparr>
      in case stage_monitor_event (trace_name (task_created_at_ms t) ident) ident
              request_elapsed_ms event of
           None \<Rightarrow> c1
         | Some monitor_event \<Rightarrow> emit_monitor_event monitor_event c1)"

section \<open>The wait for the provider\<close>

text \<open>
  One round of the biased \<open>select!\<close>: the futures are polled in the order of the branches, and
  the first ready one wins.
\<close>

record readiness =
  ready_cancelled :: bool
  ready_response :: "provider_response rt option"
  ready_closed :: bool
  ready_idle :: bool

datatype selected =
    SelectCancelled
  | SelectResponse "provider_response rt"
  | SelectActivity active_call
  | SelectIdle

definition select_ready :: "readiness \<Rightarrow> active_call \<Rightarrow> selected option" where
  "select_ready r call =
     (if ready_cancelled r then Some SelectCancelled
      else case ready_response r of
        Some response \<Rightarrow> Some (SelectResponse response)
      | None \<Rightarrow>
          if call_activity_open call \<and> call_changed call
          then Some (SelectActivity (call\<lparr>call_changed := False\<rparr>))
          else if call_activity_open call \<and> ready_closed r
          then Some (SelectActivity (call\<lparr>call_activity_open := False\<rparr>))
          else if ready_idle r then Some SelectIdle
          else None)"

section \<open>The end of an invocation\<close>

definition invoke_finish ::
    "'s store_ops \<Rightarrow> bool \<Rightarrow> string \<Rightarrow> task \<Rightarrow> active_call \<Rightarrow> u64 \<Rightarrow> provider_response rt
      \<Rightarrow> ('s runtime_core, invocation_output) action" where
  "invoke_finish ops cancelled ident t call elapsed_ms result =
     act_bind (act_lift result) (\<lambda>response.
     act_bind (act_ensure (\<not> cancelled) Cancelled) (\<lambda>_ c.
     let session = input_session_id (task_input t);
         next_snapshot =
           \<lparr>snapshot_revision = saturating_add (snapshot_revision (call_snapshot call)) 1,
            snapshot_state = (case response_state response of
               Some state \<Rightarrow> state | None \<Rightarrow> snapshot_state (call_snapshot call))\<rparr>
     in act_bind (store_write (\<lambda>s. so_save ops s (core_project_id c) session next_snapshot)) (\<lambda>_.
        act_bind (act_modify (\<lambda>c1. c1\<lparr>core_sessions :=
            AList.update session next_snapshot (core_sessions c1)\<rparr>)) (\<lambda>_.
        act_return
          \<lparr>output_invocation_id = ident, output_project_id = core_project_id c,
           output_endpoint = endpoint_name (call_endpoint call), output_session_id = session,
           output_agent = agent_id (call_agent call),
           output_provider = agent_provider (call_agent call),
           output_capability = endpoint_capability (call_endpoint call),
           output_data = response_data response, output_metadata = response_metadata response,
           output_snapshot = next_snapshot,
           output_trace = call_trace call @
             [\<lparr>te_name = ''provider.invoke'', te_status = ''completed'',
               te_duration_ms = elapsed_ms,
               te_attributes = JObject [(''endpoint'',
                 JString (input_endpoint (task_input t)))]\<rparr>]\<rparr>)) c))"

definition invoke_trace ::
    "string \<Rightarrow> task \<Rightarrow> u64 \<Rightarrow> invocation_output rt \<Rightarrow> 's runtime_core \<Rightarrow> runtime_trace_record" where
  "invoke_trace ident t elapsed_ms result c =
     \<lparr>trace_id = trace_name (task_created_at_ms t) ident, trace_project_id = core_project_id c,
      trace_invocation_id = ident, trace_endpoint = input_endpoint (task_input t),
      trace_agent = (case result of Inr out \<Rightarrow> Some (output_agent out) | Inl _ \<Rightarrow> None),
      trace_provider = (case result of Inr out \<Rightarrow> Some (output_provider out) | Inl _ \<Rightarrow> None),
      trace_capability = (case result of Inr out \<Rightarrow> Some (output_capability out) | Inl _ \<Rightarrow> None),
      trace_status = (case result of Inr _ \<Rightarrow> ''completed'' | Inl Cancelled \<Rightarrow> ''cancelled''
        | Inl _ \<Rightarrow> ''error''),
      trace_duration_ms = elapsed_ms, trace_created_at_ms = task_created_at_ms t\<rparr>"

text \<open>A trace the store refuses is dropped.\<close>

definition enqueue_trace :: "'s store_ops \<Rightarrow> runtime_trace_record \<Rightarrow> 's runtime_core \<Rightarrow> 's runtime_core"
  where
  "enqueue_trace ops trace c = snd (store_write (\<lambda>s. so_enqueue_trace ops s trace) c)"

definition invoke_end ::
    "value_codec \<Rightarrow> 's store_ops \<Rightarrow> string \<Rightarrow> task \<Rightarrow> u64 \<Rightarrow> invocation_output rt
      \<Rightarrow> 's runtime_core \<Rightarrow> 's runtime_core" where
  "invoke_end v ops ident t elapsed_ms result c =
     (let trace = trace_name (task_created_at_ms t) ident;
          c1 = enqueue_trace ops (invoke_trace ident t elapsed_ms result c) c;
          c2 = (case result of
              Inr out \<Rightarrow> emit_monitor_io_event (MonitorOutput trace ident
                (runtime_monitor_io_summary v (output_data out))) c1
            | Inl _ \<Rightarrow> c1)
      in emit_monitor_event (InvocationFinished
           \<lparr>mf_trace_id = trace, mf_invocation_id = ident,
            mf_status = (case result of Inr _ \<Rightarrow> MonitorCompleted
              | Inl Cancelled \<Rightarrow> MonitorCancelled | Inl _ \<Rightarrow> MonitorError),
            mf_duration_ms = elapsed_ms,
            mf_ended_at_ms = saturating_add (task_created_at_ms t) elapsed_ms,
            mf_error = (case result of Inr _ \<Rightarrow> None | Inl e \<Rightarrow> Some (public_message e))\<rparr>) c2)"

definition update_poll ::
    "string \<Rightarrow> invocation_status \<Rightarrow> invocation_output option \<Rightarrow> string option
      \<Rightarrow> 's runtime_core \<Rightarrow> 's runtime_core" where
  "update_poll ident status out error c =
     c\<lparr>core_invocations := registry_update ident status out error (core_invocations c)\<rparr>"

definition settle_poll ::
    "string \<Rightarrow> invocation_output rt \<Rightarrow> 's runtime_core \<Rightarrow> 's runtime_core" where
  "settle_poll ident result =
     (case result of
        Inr out \<Rightarrow> update_poll ident StatusCompleted (Some out) None
      | Inl Cancelled \<Rightarrow> update_poll ident StatusCancelled None None
      | Inl e \<Rightarrow> update_poll ident StatusFailed None (Some (public_message e)))"

text \<open>
  The invocation returns: its guard on the session lock is dropped, its trace is recorded, and
  the worker publishes the result of a background invocation.
\<close>

definition release_lock :: "string \<Rightarrow> string \<Rightarrow> 's runtime_core \<Rightarrow> 's runtime_core" where
  "release_lock session ident c =
     (if core_session_locks c session = Some (Some ident)
      then c\<lparr>core_session_locks := (core_session_locks c)(session \<mapsto> None)\<rparr> else c)"

definition set_phase :: "string \<Rightarrow> task \<Rightarrow> task_phase \<Rightarrow> 's vifu_system \<Rightarrow> 's vifu_system" where
  "set_phase ident t phase s = s\<lparr>sys_tasks := (sys_tasks s)(ident \<mapsto> t\<lparr>task_phase := phase\<rparr>)\<rparr>"

definition finish_task ::
    "value_codec \<Rightarrow> 's store_ops \<Rightarrow> string \<Rightarrow> task \<Rightarrow> u64 \<Rightarrow> invocation_output rt
      \<Rightarrow> 's vifu_system \<Rightarrow> 's vifu_system" where
  "finish_task v ops ident t elapsed_ms result s =
     (let c1 = release_lock (input_session_id (task_input t)) ident (sys_core s);
          c2 = invoke_end v ops ident t elapsed_ms result c1;
          c3 = (if task_background t then settle_poll ident result c2 else c2)
      in set_phase ident t (Finished result) (s\<lparr>sys_core := c3\<rparr>))"

section \<open>The steps of an invocation\<close>

definition task_start ::
    "value_codec \<Rightarrow> 's store_ops \<Rightarrow> string \<Rightarrow> task \<Rightarrow> u64 \<Rightarrow> u64
      \<Rightarrow> 's vifu_system \<Rightarrow> 's vifu_system" where
  "task_start v ops ident t now_ms elapsed_ms s =
     (let t1 = t\<lparr>task_created_at_ms := now_ms\<rparr>;
          c1 = (if task_background t then update_poll ident StatusRunning None None (sys_core s)
                else sys_core s)
      in case invoke_enter (task_input t) c1 of
           (Inl e, c2) \<Rightarrow> finish_task v ops ident t1 elapsed_ms (Inl e) (s\<lparr>sys_core := c2\<rparr>)
         | (Inr _, c2) \<Rightarrow> set_phase ident t1 AwaitingLock (s\<lparr>sys_core := c2\<rparr>))"

definition lock_free :: "task \<Rightarrow> 's vifu_system \<Rightarrow> bool" where
  "lock_free t s \<longleftrightarrow> core_session_locks (sys_core s) (input_session_id (task_input t)) = Some None"

definition task_locked ::
    "value_codec \<Rightarrow> 's store_ops \<Rightarrow> string \<Rightarrow> task \<Rightarrow> u64 \<Rightarrow> 's vifu_system \<Rightarrow> 's vifu_system" where
  "task_locked v ops ident t elapsed_ms s =
     (let c1 = (sys_core s)\<lparr>core_session_locks :=
            (core_session_locks (sys_core s))(input_session_id (task_input t) \<mapsto> Some ident)\<rparr>
      in case invoke_begin v ops (is_cancelled (task_token t) s) ident t c1 of
           (Inl e, c2) \<Rightarrow> finish_task v ops ident t elapsed_ms (Inl e) (s\<lparr>sys_core := c2\<rparr>)
         | (Inr call, c2) \<Rightarrow> set_phase ident t (Calling call) (s\<lparr>sys_core := c2\<rparr>))"

definition task_event ::
    "string \<Rightarrow> task \<Rightarrow> u64 \<Rightarrow> provider_event \<Rightarrow> 's vifu_system \<Rightarrow> 's vifu_system" where
  "task_event ident t request_elapsed_ms event s =
     (let t1 = t\<lparr>task_forwarded := task_forwarded t @ [event]\<rparr>;
          s1 = s\<lparr>sys_core := sink_core ident t request_elapsed_ms event (sys_core s)\<rparr>
      in case task_phase t of
           Calling call \<Rightarrow> set_phase ident t1 (Calling (note_activity event call)) s1
         | CleaningUp call e \<Rightarrow> set_phase ident t1 (CleaningUp (note_activity event call) e) s1
         | _ \<Rightarrow> s)"

definition task_select ::
    "value_codec \<Rightarrow> 's store_ops \<Rightarrow> string \<Rightarrow> task \<Rightarrow> active_call \<Rightarrow> u64 \<Rightarrow> readiness
      \<Rightarrow> 's vifu_system \<Rightarrow> 's vifu_system" where
  "task_select v ops ident t call elapsed_ms r s =
     (case select_ready r call of
        None \<Rightarrow> s
      | Some SelectCancelled \<Rightarrow> set_phase ident t (CleaningUp call Cancelled) s
      | Some (SelectResponse result) \<Rightarrow>
          (case invoke_finish ops (is_cancelled (task_token t) s) ident t call elapsed_ms result
              (sys_core s) of
             (result', c1) \<Rightarrow> finish_task v ops ident t elapsed_ms result' (s\<lparr>sys_core := c1\<rparr>))
      | Some (SelectActivity call') \<Rightarrow> set_phase ident t (Calling call') s
      | Some SelectIdle \<Rightarrow>
          set_phase ident t
            (CleaningUp call (Timeout (endpoint_timeout_ms (call_endpoint call))))
            (CancellationToken_cancel (task_token t) s))"

text \<open>The provider returned, or the grace period ended; its result is dropped.\<close>

definition task_cleaned_up ::
    "value_codec \<Rightarrow> 's store_ops \<Rightarrow> string \<Rightarrow> task \<Rightarrow> runtime_error \<Rightarrow> u64
      \<Rightarrow> 's vifu_system \<Rightarrow> 's vifu_system" where
  "task_cleaned_up v ops ident t e elapsed_ms s = finish_task v ops ident t elapsed_ms (Inl e) s"

text \<open>A caller drops the future of a direct invocation: only the lock's guard has an effect.\<close>

definition task_dropped :: "string \<Rightarrow> task \<Rightarrow> 's vifu_system \<Rightarrow> 's vifu_system" where
  "task_dropped ident t s =
     s\<lparr>sys_core := release_lock (input_session_id (task_input t)) ident (sys_core s),
       sys_tasks := (sys_tasks s)(ident := None)\<rparr>"

section \<open>The runtime's interface\<close>

definition new_token :: "'s vifu_system \<Rightarrow> nat \<times> 's vifu_system" where
  "new_token s = (sys_next_token s, s\<lparr>sys_next_token := Suc (sys_next_token s)\<rparr>)"

definition new_task :: "invocation_input \<Rightarrow> nat \<Rightarrow> bool \<Rightarrow> task" where
  "new_task input token background =
     \<lparr>task_input = input, task_token = token, task_background = background,
      task_created_at_ms = 0, task_forwarded = [], task_phase = NotStarted\<rparr>"

definition invoke_with_events_and_cancellation ::
    "invocation_input \<Rightarrow> nat \<Rightarrow> 's vifu_system \<Rightarrow> string \<times> 's vifu_system" where
  "invoke_with_events_and_cancellation input token s =
     (case next_invocation_id (sys_core s) of (ident, c) \<Rightarrow>
        (ident, s\<lparr>sys_core := c,
          sys_tasks := (sys_tasks s)(ident \<mapsto> new_task input token False)\<rparr>))"

definition invoke :: "invocation_input \<Rightarrow> 's vifu_system \<Rightarrow> string \<times> 's vifu_system" where
  "invoke input s =
     (case new_token s of (token, s1) \<Rightarrow> invoke_with_events_and_cancellation input token s1)"

text \<open>\<open>RuntimeWorker::send\<close>; the channel is closed only when the runtime is dropped.\<close>

definition worker_send :: "worker_command \<Rightarrow> 's vifu_system \<Rightarrow> 's vifu_system rt" where
  "worker_send command s =
     (if WORKER_QUEUE_CAPACITY \<le> length (sys_queue s)
      then Inl (Backpressure ''invocation queue is full'')
      else Inr (s\<lparr>sys_queue := sys_queue s @ [command]\<rparr>))"

definition update_invocations ::
    "(invocation_registry \<Rightarrow> invocation_registry) \<Rightarrow> 's vifu_system \<Rightarrow> 's vifu_system" where
  "update_invocations f s =
     s\<lparr>sys_core := (sys_core s)\<lparr>core_invocations := f (core_invocations (sys_core s))\<rparr>\<rparr>"

definition start_invoke :: "invocation_input \<Rightarrow> ('s vifu_system, string) action" where
  "start_invoke input =
     act_bind (act_lift (validate_identifier ''endpoint'' (input_endpoint input))) (\<lambda>_.
     act_bind (act_lift (validate_identifier ''session'' (input_session_id input))) (\<lambda>_ s.
     case next_invocation_id (sys_core s) of (ident, c) \<Rightarrow>
     case new_token (s\<lparr>sys_core := c\<rparr>) of (token, s0) \<Rightarrow>
     (let s1 = s0\<lparr>sys_worker := True\<rparr> in
      case registry_insert ident token (core_invocations (sys_core s1)) of
        Inl e \<Rightarrow> (Inl e, s1)
      | Inr registry \<Rightarrow>
          (let s2 = update_invocations (\<lambda>_. registry) s1 in
           case worker_send \<lparr>start_handle = ident, start_input = input,
                             start_cancellation = token\<rparr> s2 of
             Inl e \<Rightarrow> (Inl e, update_invocations (registry_remove ident) s2)
           | Inr s3 \<Rightarrow> (Inr ident, s3)))))"

definition worker_receive :: "worker_command \<Rightarrow> worker_command list \<Rightarrow> 's vifu_system \<Rightarrow> 's vifu_system"
  where
  "worker_receive command rest s =
     s\<lparr>sys_queue := rest,
       sys_tasks := (sys_tasks s)(start_handle command \<mapsto>
         new_task (start_input command) (start_cancellation command) True)\<rparr>"

definition poll_invocation :: "string \<Rightarrow> ('s vifu_system, invocation_poll) action" where
  "poll_invocation ident s = (registry_poll ident (core_invocations (sys_core s)), s)"

definition drain_invocation_events :: "string \<Rightarrow> ('s vifu_system, invocation_event list) action" where
  "drain_invocation_events ident s =
     (case registry_drain_events ident (core_invocations (sys_core s)) of
        Inl e \<Rightarrow> (Inl e, s)
      | Inr (events, r) \<Rightarrow> (Inr events, update_invocations (\<lambda>_. r) s))"

definition take_invocation :: "string \<Rightarrow> ('s vifu_system, invocation_poll) action" where
  "take_invocation ident s =
     (case registry_take ident (core_invocations (sys_core s)) of
        Inl e \<Rightarrow> (Inl e, s)
      | Inr (poll, r) \<Rightarrow> (Inr poll, update_invocations (\<lambda>_. r) s))"

definition cancel_invocation :: "string \<Rightarrow> ('s vifu_system, unit) action" where
  "cancel_invocation ident s =
     (case reg_entries (core_invocations (sys_core s)) ident of
        None \<Rightarrow> (Inl (InvocationNotFound ident), s)
      | Some entry \<Rightarrow>
          (let s1 = CancellationToken_cancel (entry_cancellation entry) s
           in (Inr (), s1\<lparr>sys_core :=
                update_poll ident StatusCancelled None None (sys_core s1)\<rparr>)))"

section \<open>Sessions\<close>

record runtime_session = session_session_id :: string

definition session :: "string \<Rightarrow> runtime_session rt" where
  "session ident =
     and_then (validate_identifier ''session'' ident) (\<lambda>_. Inr \<lparr>session_session_id = ident\<rparr>)"

definition RuntimeSession_invoke ::
    "runtime_session \<Rightarrow> invocation_input \<Rightarrow> 's vifu_system \<Rightarrow> string \<times> 's vifu_system" where
  "RuntimeSession_invoke ses input =
     invoke (input\<lparr>input_session_id := session_session_id ses\<rparr>)"

definition RuntimeSession_start_invoke ::
    "runtime_session \<Rightarrow> invocation_input \<Rightarrow> ('s vifu_system, string) action" where
  "RuntimeSession_start_invoke ses input =
     start_invoke (input\<lparr>input_session_id := session_session_id ses\<rparr>)"

end
