(* ===== verification/Invocation_Runs.thy ===== *)
theory Invocation_Runs
  imports Invocations
begin

text \<open>
  Histories of the invocation registry: the calls the runtime makes on it (under the
  registry's mutex, so one at a time, in any order) as a step relation labelled with the
  events handed to callers. Handles are fresh when inserted (\<open>U\<close> collects the used ones:
  \<open>next_invocation_id\<close> counts up). The properties of every history: the bounds on what is
  kept, terminal states that never change, and event streams that arrive in order and end with
  their only terminal event.
\<close>

type_synonym event_log = "(string \<times> invocation_event) list"

section \<open>Steps\<close>

inductive registry_step ::
    "string set \<Rightarrow> invocation_registry \<Rightarrow> event_log \<Rightarrow> string set \<Rightarrow> invocation_registry \<Rightarrow> bool"
  where
  insert: "h \<notin> U \<Longrightarrow> registry_insert h t r = Inr r' \<Longrightarrow> registry_step U r [] (insert h U) r'"
| update: "registry_step U r [] U (registry_update h status out error r)"
| remove: "registry_step U r [] U (registry_remove h r)"
| take: "registry_take h r = Inr (p, r') \<Longrightarrow> registry_step U r [] U r'"
| provider_event: "registry_step U r [] U (push_provider_event h event r)"
| drain: "registry_drain_events h r = Inr (evs, r') \<Longrightarrow>
    registry_step U r (map (Pair h) evs) U r'"

inductive registry_steps ::
    "string set \<Rightarrow> invocation_registry \<Rightarrow> event_log \<Rightarrow> string set \<Rightarrow> invocation_registry \<Rightarrow> bool"
  where
  none: "registry_steps U r [] U r"
| more: "registry_steps U r l U' r' \<Longrightarrow> registry_step U' r' l' U'' r'' \<Longrightarrow>
    registry_steps U r (l @ l') U'' r''"

abbreviation registry_run :: "event_log \<Rightarrow> string set \<Rightarrow> invocation_registry \<Rightarrow> bool" where
  "registry_run l U r \<equiv> registry_steps {} InvocationRegistry_default l U r"

inductive_cases registry_stepE: "registry_step U r l U' r'"

lemmas registry_step_cases = registry_stepE
  [consumes 1, case_names insert update remove take provider_event drain]

definition delivered :: "event_log \<Rightarrow> string \<Rightarrow> invocation_event list" where
  "delivered l h = map snd (filter (\<lambda>p. fst p = h) l)"

lemma delivered_simps [simp]:
  "delivered [] h = []"
  "delivered (l @ l') h = delivered l h @ delivered l' h"
  "delivered (map (Pair g) evs) h = (if g = h then evs else [])"
  by (auto simp: delivered_def filter_map comp_def)

section \<open>Where an entry comes from\<close>

lemma registry_insert_origin:
  assumes "registry_insert h t r = Inr r'" and "reg_entries r' g = Some e'"
  shows "reg_entries r g = Some e' \<or> g = h \<and> entry_events e' = [] \<and>
    entry_next_event_sequence e' = 1 \<and> poll_status (entry_poll e') = StatusPending"
  using assms by (auto simp: registry_insert_def split: if_splits)

lemma registry_update_origin:
  assumes "reg_entries (registry_update h status out error r) g = Some e'"
  shows "reg_entries r g = Some e' \<or>
    (\<exists>e. g = h \<and> reg_entries r h = Some e \<and> active_entry e \<and>
      e' = entry_update status out error e)"
  using assms
  by (auto simp: registry_update_def active_entry_def evict_old_terminal_entries_eq Let_def
      split: option.splits if_splits)

lemma registry_remove_entries: "reg_entries (registry_remove h r) = (reg_entries r)(h := None)"
  by (auto simp: registry_remove_def Let_def fun_eq_iff split: option.splits)

lemma registry_take_origin:
  assumes "registry_take h r = Inr (p, r')" and "reg_entries r' g = Some e'"
  shows "reg_entries r g = Some e'"
  using assms
  by (auto simp: registry_take_def and_then_eq_Inr registry_remove_entries split: if_splits)

lemma push_provider_event_origin:
  assumes "reg_entries (push_provider_event h event r) g = Some e'"
  shows "reg_entries r g = Some e' \<or>
    (\<exists>e d. g = h \<and> reg_entries r h = Some e \<and> active_entry e \<and>
      e' = push_event KindOutputDelta (Some d) None e)"
  using assms
  by (auto simp: push_provider_event_def active_entry_def
      split: option.splits if_splits provider_event.splits)

lemma registry_drain_origin:
  assumes "registry_drain_events h r = Inr (evs, r')" and "reg_entries r' g = Some e'"
  shows "g \<noteq> h \<and> reg_entries r g = Some e' \<or>
    (\<exists>e. g = h \<and> reg_entries r h = Some e \<and> evs = entry_events e \<and> e' = e\<lparr>entry_events := []\<rparr>)"
  using assms
  by (auto simp: registry_drain_events_def and_then_eq_Inr split: if_splits)

section \<open>The invariant of a history\<close>

definition history_inv :: "event_log \<Rightarrow> string set \<Rightarrow> invocation_registry \<Rightarrow> bool" where
  "history_inv l U r \<longleftrightarrow>
     registry_inv r \<and> dom (reg_entries r) \<subseteq> U \<and> fst ` set l \<subseteq> U \<and>
     (\<forall>h. stream_ok (delivered l h)) \<and>
     (\<forall>h e. reg_entries r h = Some e \<longrightarrow> entry_inv (delivered l h) e)"

lemma delivered_fresh: "fst ` set l \<subseteq> U \<Longrightarrow> h \<notin> U \<Longrightarrow> delivered l h = []"
  by (force simp: delivered_def filter_empty_conv)

lemma entry_inv_push_delta:
  assumes "entry_inv ds e" and "active_entry e"
  shows "entry_inv ds (push_event KindOutputDelta (Some d) None e)"
  using assms by (intro push_event_inv) (auto simp: entry_inv_def active_entry_def)

lemma history_invD:
  assumes "history_inv l U r"
  shows "registry_inv r" and "dom (reg_entries r) \<subseteq> U" and "fst ` set l \<subseteq> U"
    and "stream_ok (delivered l h)"
    and "reg_entries r h = Some e \<Longrightarrow> entry_inv (delivered l h) e"
  using assms by (auto simp: history_inv_def)

lemma registry_step_history:
  assumes "registry_step U r l' U' r'" and inv: "history_inv l U r"
  shows "history_inv (l @ l') U' r'"
  using assms(1)
proof (cases rule: registry_step_cases)
  case (insert h t)
  have "entry_inv (delivered l g) e'" if "reg_entries r' g = Some e'" for g e'
    using registry_insert_origin [OF insert(4) that] history_invD(5) [OF inv]
      delivered_fresh [OF history_invD(3) [OF inv] insert(3)]
    by (auto simp: entry_inv_def)
  moreover have "reg_entries r h = None"
    using history_invD(2) [OF inv] insert(3) by auto
  then have "registry_inv r'"
    by (rule registry_insert_inv [OF history_invD(1) [OF inv] _ insert(4)])
  moreover have "dom (reg_entries r') \<subseteq> insert h U"
  proof -
    have "dom (reg_entries r') = insert h (dom (reg_entries r))"
      using insert(4) by (auto simp: registry_insert_def split: if_splits)
    with history_invD(2) [OF inv] show ?thesis by blast
  qed
  ultimately show ?thesis
    using inv insert by (auto simp: history_inv_def)
next
  case (update h status out error)
  have "entry_inv (delivered l g) e'" if "reg_entries r' g = Some e'" for g e'
    using registry_update_origin [OF that [unfolded update]] history_invD(5) [OF inv]
    by (auto simp: active_entry_def intro: entry_update_inv)
  moreover have "dom (reg_entries r') \<subseteq> U"
    using registry_update_origin [of h status out error r] history_invD(2) [OF inv] update by blast
  ultimately show ?thesis
    using inv update by (auto simp: history_inv_def registry_update_inv)
next
  case (remove h)
  then show ?thesis
    using inv by (auto simp: history_inv_def registry_remove_inv registry_remove_entries)
next
  case (take h p)
  have "dom (reg_entries r') \<subseteq> dom (reg_entries r)"
    using registry_take_origin [OF take(3)] by blast
  then show ?thesis
    using inv take registry_take_origin [OF take(3)] registry_take_inv [OF _ take(3)]
    by (auto simp: history_inv_def)
next
  case (provider_event h event)
  have "entry_inv (delivered l g) e'" if "reg_entries r' g = Some e'" for g e'
    using push_provider_event_origin [OF that [unfolded provider_event]] history_invD(5) [OF inv]
    by (auto intro: entry_inv_push_delta)
  moreover have "dom (reg_entries r') \<subseteq> U"
    using push_provider_event_origin [of h event r] history_invD(2) [OF inv] provider_event by blast
  ultimately show ?thesis
    using inv provider_event by (auto simp: history_inv_def push_provider_event_inv)
next
  case (drain h evs)
  note origin = registry_drain_origin [OF drain(3)]
  from drain(3) obtain e where e: "reg_entries r h = Some e" "evs = entry_events e"
    by (auto simp: registry_drain_events_def and_then_eq_Inr)
  have "entry_inv (delivered (l @ l') g) e'" if "reg_entries r' g = Some e'" for g e'
    using origin [OF that] history_invD(5) [OF inv]
    by (auto simp: drain intro: entry_inv_drained)
  moreover have "stream_ok (delivered (l @ l') g)" for g
    using history_invD(4,5) [OF inv] e by (auto simp: drain intro: entry_inv_stream_ok)
  moreover have "dom (reg_entries r') \<subseteq> U" "fst ` set (l @ l') \<subseteq> U"
    using origin history_invD(2,3) [OF inv] e(1) by (auto simp: drain) blast+
  ultimately show ?thesis
    using inv drain by (simp add: history_inv_def registry_drain_inv [OF _ drain(3)])
qed

lemma history_inv_start: "history_inv [] {} InvocationRegistry_default"
  using registry_inv_default by (simp add: history_inv_def) (simp add: InvocationRegistry_default_def)

lemma registry_steps_history:
  "registry_steps U r l' U' r' \<Longrightarrow> history_inv l U r \<Longrightarrow> history_inv (l @ l') U' r'"
proof (induction arbitrary: l rule: registry_steps.induct)
  case (none U r)
  then show ?case by simp
next
  case (more U r l1 U' r' l2 U'' r'')
  then have "history_inv (l @ l1) U' r'" by blast
  from registry_step_history [OF more.hyps(2) this] show ?case by simp
qed

lemma registry_run_history: "registry_run l U r \<Longrightarrow> history_inv l U r"
  using registry_steps_history [OF _ history_inv_start] by fastforce

section \<open>Terminal states\<close>

text \<open>Either the entry is gone for good or its poll state is still the same.\<close>

definition settled :: "string set \<Rightarrow> invocation_registry \<Rightarrow> string \<Rightarrow> invocation_poll \<Rightarrow> bool" where
  "settled U r h p \<longleftrightarrow> h \<in> U \<and> is_terminal_status (poll_status p) \<and>
     (\<forall>e. reg_entries r h = Some e \<longrightarrow> entry_poll e = p)"

lemma registry_step_settled:
  assumes "registry_step U r l U' r'" and "settled U r h p"
  shows "settled U' r' h p"
  using assms(1)
proof (cases rule: registry_step_cases)
  case (insert g t)
  then show ?thesis
    using assms(2) by (auto simp: settled_def registry_insert_def split: if_splits)
next
  case (update g status out error)
  have "entry_poll e' = p" if "reg_entries r' h = Some e'" for e'
    using registry_update_origin [OF that [unfolded update]] assms(2)
    by (auto simp: settled_def active_entry_def)
  then show ?thesis using assms(2) update by (simp add: settled_def)
next
  case (remove g)
  then show ?thesis using assms(2) by (simp add: settled_def registry_remove_entries)
next
  case (take g q)
  have "entry_poll e' = p" if "reg_entries r' h = Some e'" for e'
    using registry_take_origin [OF take(3) that] assms(2) by (simp add: settled_def)
  then show ?thesis using assms(2) take by (simp add: settled_def)
next
  case (provider_event g event)
  have "entry_poll e' = p" if "reg_entries r' h = Some e'" for e'
    using push_provider_event_origin [OF that [unfolded provider_event]] assms(2)
    by (auto simp: settled_def active_entry_def)
  then show ?thesis using assms(2) provider_event by (simp add: settled_def)
next
  case (drain g evs)
  have "entry_poll e' = p" if "reg_entries r' h = Some e'" for e'
    using registry_drain_origin [OF drain(3) that] assms(2) by (auto simp: settled_def)
  then show ?thesis using assms(2) drain by (simp add: settled_def)
qed

lemma registry_steps_settled:
  "registry_steps U r l U' r' \<Longrightarrow> settled U r h p \<Longrightarrow> settled U' r' h p"
  by (induction rule: registry_steps.induct) (auto intro: registry_step_settled)

section \<open>Properties of every history\<close>

lemma registry_inv_card:
  assumes "registry_inv r"
  shows "card (dom (reg_entries r)) \<le> MAX_IN_FLIGHT_INVOCATIONS + MAX_RETAINED_INVOCATIONS"
proof -
  let ?active = "{h. \<exists>e. reg_entries r h = Some e \<and> active_entry e}"
  have "dom (reg_entries r) = ?active \<union> set (reg_terminal_order r)"
    using assms by (auto simp: registry_inv_def terminal_handles_def)
  then have "card (dom (reg_entries r)) \<le> card ?active + card (set (reg_terminal_order r))"
    by (simp add: card_Un_le)
  also have "\<dots> \<le> reg_active_count r + length (reg_terminal_order r)"
    using assms card_length [of "reg_terminal_order r"]
    by (simp add: registry_inv_def count_values_def)
  finally show ?thesis using assms by (auto simp: registry_inv_def)
qed

text \<open>A concrete history: one invocation that streams two deltas, is cancelled and drained.\<close>

definition sample_inserted :: invocation_registry where
  "sample_inserted = \<lparr>reg_entries = [''invocation-1'' \<mapsto>
     \<lparr>entry_poll = \<lparr>poll_handle = ''invocation-1'', poll_status = StatusPending,
        poll_output = None, poll_error = None\<rparr>,
      entry_cancellation = 0, entry_events = [], entry_next_event_sequence = 1\<rparr>],
     reg_terminal_order = [], reg_active_count = 1\<rparr>"

definition sample_running :: invocation_registry where
  "sample_running =
     push_provider_event ''invocation-1'' (OutputDelta (Json (JString ''lo'')))
       (push_provider_event ''invocation-1'' (OutputDelta (Json (JString ''hel'')))
         (registry_update ''invocation-1'' StatusRunning None None sample_inserted))"

definition sample_cancelled :: invocation_registry where
  "sample_cancelled = registry_update ''invocation-1'' StatusCancelled None None sample_running"

definition sample_events :: "invocation_event list" where
  "sample_events =
     [\<lparr>ev_sequence = 1, ev_kind = KindStarted, ev_data = None, ev_error = None\<rparr>,
      \<lparr>ev_sequence = 2, ev_kind = KindOutputDelta, ev_data = Some (Json (JString ''hello'')),
       ev_error = None\<rparr>,
      \<lparr>ev_sequence = 3, ev_kind = KindCancelled, ev_data = None, ev_error = None\<rparr>]"

definition sample_poll :: invocation_poll where
  "sample_poll = \<lparr>poll_handle = ''invocation-1'', poll_status = StatusCancelled,
     poll_output = None, poll_error = None\<rparr>"

definition sample_drained :: invocation_registry where
  "sample_drained = \<lparr>reg_entries = [''invocation-1'' \<mapsto>
     \<lparr>entry_poll = sample_poll, entry_cancellation = 0, entry_events = [],
      entry_next_event_sequence = 4\<rparr>],
     reg_terminal_order = [''invocation-1''], reg_active_count = 0\<rparr>"

lemmas sample_push_defs =
  push_event_def coalesce_def MAX_RETAINED_INVOCATION_EVENTS_def MAX_COALESCED_EVENT_BYTES_def
  truncate_front_drop saturating_add_def

lemma sample_cancelled_eq:
  "sample_cancelled = sample_drained\<lparr>reg_entries := [''invocation-1'' \<mapsto>
     \<lparr>entry_poll = sample_poll, entry_cancellation = 0, entry_events = sample_events,
      entry_next_event_sequence = 4\<rparr>]\<rparr>"
  by (simp add: sample_cancelled_def sample_running_def sample_inserted_def sample_drained_def
      sample_events_def sample_poll_def registry_update_def push_provider_event_def
      entry_update_def sample_push_defs evict_old_terminal_entries_eq MAX_RETAINED_INVOCATIONS_def
      fun_eq_iff)

lemma sample_drain:
  "registry_drain_events ''invocation-1'' sample_cancelled = Inr (sample_events, sample_drained)"
  by (simp add: registry_drain_events_def sample_cancelled_eq sample_drained_def)

lemma registry_steps_quiet:
  "registry_steps U r l U' r' \<Longrightarrow> registry_step U' r' [] U'' r'' \<Longrightarrow> registry_steps U r l U'' r''"
  using registry_steps.more [of U r l U' r' "[]" U'' r''] by simp

lemmas registry_steps_update = registry_steps_quiet [OF _ registry_step.update]
lemmas registry_steps_provider_event = registry_steps_quiet [OF _ registry_step.provider_event]

lemma sample_run_cancelled: "registry_run [] {''invocation-1''} sample_cancelled"
proof -
  have "registry_insert ''invocation-1'' 0 InvocationRegistry_default = Inr sample_inserted"
    by (simp add: registry_insert_def InvocationRegistry_default_def sample_inserted_def
        MAX_IN_FLIGHT_INVOCATIONS_def)
  then have "registry_run [] {''invocation-1''} sample_inserted"
    by (intro registry_steps_quiet [OF registry_steps.none] registry_step.insert) simp_all
  then show ?thesis
    unfolding sample_cancelled_def sample_running_def
    by (intro registry_steps_update registry_steps_provider_event)
qed

lemma sample_step_drained:
  "registry_steps {''invocation-1''} sample_cancelled
    ([] @ map (Pair ''invocation-1'') sample_events) {''invocation-1''} sample_drained"
  by (rule registry_steps.more [OF registry_steps.none registry_step.drain [OF sample_drain]])

lemma sample_run_drained:
  "registry_run (map (Pair ''invocation-1'') sample_events) {''invocation-1''} sample_drained"
  using registry_steps.more [OF sample_run_cancelled registry_step.drain [OF sample_drain]]
  by simp

text \<open>C10: In every history of registry calls, the in-flight counter equals the number of
  non-terminal invocations and never exceeds 64, at most 256 terminal ones are retained, and
  so the table never holds more than 320 entries.\<close>

theorem registry_bounded:
  assumes "registry_run l U r"
  shows "reg_active_count r =
      card {h. \<exists>e. reg_entries r h = Some e \<and> \<not> is_terminal_status (poll_status (entry_poll e))} \<and>
    reg_active_count r \<le> 64 \<and> length (reg_terminal_order r) \<le> 256 \<and>
    card (dom (reg_entries r)) \<le> 320"
  using history_invD(1) [OF registry_run_history [OF assms]] registry_inv_card [of r]
  by (simp_all add: registry_inv_def count_values_def active_entry_def
      MAX_IN_FLIGHT_INVOCATIONS_def MAX_RETAINED_INVOCATIONS_def)

theorem registry_bounded_witness:
  "reg_active_count sample_drained = 0 \<and> card (dom (reg_entries sample_drained)) \<le> 320"
  using registry_bounded [OF sample_run_drained] by (simp add: sample_drained_def)

text \<open>An invocation that is gone stays gone: its handle is not given away again.\<close>

lemma registry_steps_gone:
  assumes "registry_steps U r l U' r'" and "h \<in> U" and "reg_entries r h = None"
  shows "reg_entries r' h = None"
proof (rule ccontr)
  define p where "p = \<lparr>poll_handle = h, poll_status = StatusCancelled, poll_output = None, poll_error = None\<rparr>"
  define q where "q = p\<lparr>poll_status := StatusFailed\<rparr>"
  have "settled U r h p" "settled U r h q" using assms(2,3) by (simp_all add: settled_def p_def q_def)
  from this [THEN registry_steps_settled [OF assms(1)]]
  have "\<forall>e. reg_entries r' h = Some e \<longrightarrow> entry_poll e = p \<and> entry_poll e = q"
    unfolding settled_def by blast
  moreover have "p \<noteq> q" by (simp add: p_def q_def)
  moreover assume "reg_entries r' h \<noteq> None"
  then obtain e where "reg_entries r' h = Some e" by blast
  ultimately show False by metis
qed

text \<open>C2: Once an invocation is completed, failed or cancelled, a poll of it returns the same after any
  later calls, until it is taken, removed or evicted; then it is not found, now and after any
  further calls.\<close>

theorem terminal_state_final:
  assumes "registry_run l U r" and "registry_steps U r l' U' r'"
    and "registry_poll h r = Inr p" and "is_terminal_status (poll_status p)"
  shows "registry_poll h r' = Inr p \<or>
    registry_poll h r' = Inl (InvocationNotFound h) \<and>
    (\<forall>l'' U'' r''. registry_steps U' r' l'' U'' r'' \<longrightarrow> registry_poll h r'' = Inl (InvocationNotFound h))"
proof -
  have "settled U r h p"
    using assms(3,4) history_invD(2) [OF registry_run_history [OF assms(1)]]
    by (auto simp: settled_def registry_poll_def)
  note now = registry_steps_settled [OF assms(2) this]
  then have "h \<in> U'" by (simp add: settled_def)
  note gone = registry_steps_gone [OF _ this]
  show ?thesis
  proof (cases "reg_entries r' h")
    case None
    with gone show ?thesis by (auto simp: registry_poll_def)
  next
    case (Some e)
    with now show ?thesis by (simp add: settled_def registry_poll_def)
  qed
qed

theorem terminal_state_final_witness:
  "registry_poll ''invocation-1'' sample_cancelled = Inr sample_poll \<and>
   (registry_poll ''invocation-1'' sample_drained = Inr sample_poll \<or>
    registry_poll ''invocation-1'' sample_drained = Inl (InvocationNotFound ''invocation-1''))"
proof -
  have poll: "registry_poll ''invocation-1'' sample_cancelled = Inr sample_poll"
    by (simp add: registry_poll_def sample_cancelled_eq)
  have "is_terminal_status (poll_status sample_poll)"
    by (simp add: sample_poll_def)
  from terminal_state_final [OF sample_run_cancelled sample_step_drained poll this] poll
  show ?thesis by blast
qed

text \<open>The events a caller drains for one invocation, over any number of drains and
  whatever was coalesced or dropped in between, carry increasing sequence numbers, and a
  terminal event is the last one the caller ever receives.\<close>

theorem drained_events_ordered:
  assumes "registry_run l U r"
  shows "sorted_wrt seq_before (map ev_sequence (delivered l h)) \<and>
    (\<forall>ev \<in> set (butlast (delivered l h)). \<not> terminal_kind (ev_kind ev))"
  using history_invD(4) [OF registry_run_history [OF assms], of h]
  by (auto simp: stream_ok_def no_terminal_def list_all_iff)

theorem drained_events_ordered_witness:
  "sorted_wrt seq_before (map ev_sequence sample_events) \<and> length sample_events = 3"
proof
  show "sorted_wrt seq_before (map ev_sequence sample_events)"
    using drained_events_ordered [OF sample_run_drained, of "''invocation-1''"] by simp
qed (simp add: sample_events_def)

text \<open>Coalescing loses no output: as long as the queue has room, pushing text deltas one by
  one leaves a queue whose deltas spell the old text followed by the new texts, however they
  were merged.\<close>

theorem coalescing_keeps_text:
  assumes "length (entry_events e) + length ss \<le> MAX_RETAINED_INVOCATION_EVENTS"
  shows "delta_text (entry_events
      (fold (\<lambda>s. push_event KindOutputDelta (Some (Json (JString s))) None) ss e)) =
    delta_text (entry_events e) @ concat ss"
  using assms
proof (induction ss arbitrary: e)
  case Nil
  then show ?case by simp
next
  case (Cons s ss)
  let ?e = "push_event KindOutputDelta (Some (Json (JString s))) None e"
  have "length (entry_events ?e) + length ss \<le> MAX_RETAINED_INVOCATION_EVENTS"
    using Cons.prems push_length [of KindOutputDelta "Some (Json (JString s))" None e] by simp
  from Cons.IH [OF this] Cons.prems show ?case by (simp add: push_text)
qed

theorem coalescing_keeps_text_witness:
  "delta_text (entry_events
      (fold (\<lambda>s. push_event KindOutputDelta (Some (Json (JString s))) None) [''hel'', ''lo'']
        (the (reg_entries sample_inserted ''invocation-1'')))) = ''hello''"
  using coalescing_keeps_text
    [of "the (reg_entries sample_inserted ''invocation-1'')" "[''hel'', ''lo'']"]
  by (simp add: sample_inserted_def MAX_RETAINED_INVOCATION_EVENTS_def)

end
