(* ===== verification/Invoke_Runs.thy ===== *)
theory Invoke_Runs
  imports Invoke Invocation_Runs
begin

text \<open>
  Histories of a whole runtime: direct and background invocations, provider events, time-outs,
  cancellations, dropped futures and registry changes, interleaved in any order at the awaits of
  \<open>Invoke\<close>. The step relation collects the outputs of completed invocations. The invariants:
  a session's lock has one holder, the cached snapshots agree with the store, revisions follow
  each other without gap, and every invocation listed as active has someone working on it.
  The store is any lawful one (\<open>session_store\<close>); the properties are about the in-memory one.
\<close>

section \<open>Steps\<close>

definition completed :: "string \<Rightarrow> 's vifu_system \<Rightarrow> invocation_output list" where
  "completed ident s = (case sys_tasks s ident of
     Some t \<Rightarrow> (case task_phase t of Finished (Inr out) \<Rightarrow> [out] | _ \<Rightarrow> []) | None \<Rightarrow> [])"

text \<open>What the environment can report about a call, given the state.\<close>

definition possible :: "readiness \<Rightarrow> task \<Rightarrow> 's vifu_system \<Rightarrow> bool" where
  "possible r t s \<longleftrightarrow> (ready_cancelled r \<longrightarrow> is_cancelled (task_token t) s)"

text \<open>The counter of invocation identifiers has not wrapped.\<close>

definition fresh_left :: "'s vifu_system \<Rightarrow> bool" where
  "fresh_left s \<longleftrightarrow> core_next_invocation (sys_core s) < u64_max"

inductive system_step ::
    "codec \<Rightarrow> value_codec \<Rightarrow> 's store_ops \<Rightarrow> 's vifu_system \<Rightarrow> invocation_output list
      \<Rightarrow> 's vifu_system \<Rightarrow> bool"
  for k :: codec and v :: value_codec and ops :: "'s store_ops" where
  invoke: "fresh_left s \<Longrightarrow>
    invoke_with_events_and_cancellation input token s = (h, s') \<Longrightarrow> system_step k v ops s [] s'"
| start_invoke: "fresh_left s \<Longrightarrow> start_invoke input s = (r, s') \<Longrightarrow> system_step k v ops s [] s'"
| receive: "sys_queue s = command # rest \<Longrightarrow>
    system_step k v ops s [] (worker_receive command rest s)"
| start: "sys_tasks s h = Some t \<Longrightarrow> task_phase t = NotStarted \<Longrightarrow>
    system_step k v ops s [] (task_start v ops h t now_ms elapsed_ms s)"
| locked: "sys_tasks s h = Some t \<Longrightarrow> task_phase t = AwaitingLock \<Longrightarrow> lock_free t s \<Longrightarrow>
    system_step k v ops s [] (task_locked v ops h t elapsed_ms s)"
| event: "sys_tasks s h = Some t \<Longrightarrow> system_step k v ops s [] (task_event h t elapsed_ms ev s)"
| select: "sys_tasks s h = Some t \<Longrightarrow> task_phase t = Calling call \<Longrightarrow> possible r t s \<Longrightarrow>
    s' = task_select v ops h t call elapsed_ms r s \<Longrightarrow> system_step k v ops s (completed h s') s'"
| cleaned_up: "sys_tasks s h = Some t \<Longrightarrow> task_phase t = CleaningUp call e \<Longrightarrow>
    system_step k v ops s [] (task_cleaned_up v ops h t e elapsed_ms s)"
| dropped: "sys_tasks s h = Some t \<Longrightarrow> \<not> task_background t \<Longrightarrow>
    system_step k v ops s [] (task_dropped h t s)"
| cancel: "cancel_invocation h s = (r, s') \<Longrightarrow> system_step k v ops s [] s'"
| cancel_token: "system_step k v ops s [] (CancellationToken_cancel token s)"
| drain: "drain_invocation_events h s = (r, s') \<Longrightarrow> system_step k v ops s [] s'"
| take: "take_invocation h s = (r', s') \<Longrightarrow> system_step k v ops s [] s'"
| registry: "system_step k v ops s []
    (s\<lparr>sys_core := run_registry_call k x (sys_core s)\<rparr>)"

inductive system_steps ::
    "codec \<Rightarrow> value_codec \<Rightarrow> 's store_ops \<Rightarrow> 's vifu_system \<Rightarrow> invocation_output list
      \<Rightarrow> 's vifu_system \<Rightarrow> bool"
  for k :: codec and v :: value_codec and ops :: "'s store_ops" where
  none: "system_steps k v ops s [] s"
| more: "system_steps k v ops s l s' \<Longrightarrow> system_step k v ops s' l' s'' \<Longrightarrow>
    system_steps k v ops s (l @ l') s''"

section \<open>What the pieces of a step leave alone\<close>

definition same_sessions :: "'s runtime_core \<Rightarrow> 's runtime_core \<Rightarrow> bool" where
  "same_sessions c c' \<longleftrightarrow>
     core_session_locks c' = core_session_locks c \<and> core_sessions c' = core_sessions c \<and>
     core_store c' = core_store c \<and> core_project_id c' = core_project_id c"

lemma same_sessions_refl [simp]: "same_sessions c c"
  by (simp add: same_sessions_def)

lemma same_sessions_pieces [simp]:
  "same_sessions c (update_poll h st out e c)"
  "same_sessions c (settle_poll h result c)"
  "same_sessions c (emit_monitor_event me c)"
  "same_sessions c (emit_monitor_io_event io c)"
  "same_sessions c (sink_core h t n ev c)"
  by (auto simp: same_sessions_def update_poll_def settle_poll_def emit_monitor_event_def
      emit_monitor_io_event_def sink_core_def Let_def
      split: sum.splits runtime_error.splits option.splits)

lemma same_sessions_trans:
  "same_sessions c c' \<Longrightarrow> same_sessions c' c'' \<Longrightarrow> same_sessions c c''"
  by (simp add: same_sessions_def)

lemma run_registry_call_sessions [simp]: "same_sessions c (run_registry_call k x c)"
proof (cases x)
  case (ApplyManifest m)
  then show ?thesis
    by (cases "apply_manifest k m c")
      (auto simp: same_sessions_def elim: apply_manifest_cases)
qed (auto simp: same_sessions_def act_defs Let_def register_provider_def unregister_provider_def
    register_agent_def unregister_agent_def register_endpoint_def unregister_endpoint_def
    split: sum.splits if_splits option.splits)

lemma run_registry_call_invocations [simp]:
  "core_invocations (run_registry_call k x c) = core_invocations c \<and>
   core_next_invocation (run_registry_call k x c) = core_next_invocation c"
proof (cases x)
  case (ApplyManifest m)
  then show ?thesis
    by (cases "apply_manifest k m c") (auto elim: apply_manifest_cases)
qed (auto simp: act_defs Let_def register_provider_def unregister_provider_def
    register_agent_def unregister_agent_def register_endpoint_def unregister_endpoint_def
    split: sum.splits if_splits option.splits)

abbreviation task_session :: "task \<Rightarrow> string" where
  "task_session t \<equiv> input_session_id (task_input t)"

lemma enqueue_trace_view [simp]:
  "core_session_locks (enqueue_trace ops tr c) = core_session_locks c"
  "core_sessions (enqueue_trace ops tr c) = core_sessions c"
  "core_project_id (enqueue_trace ops tr c) = core_project_id c"
  "core_invocations (enqueue_trace ops tr c) = core_invocations c"
  "core_next_invocation (enqueue_trace ops tr c) = core_next_invocation c"
  by (auto simp: enqueue_trace_def store_write_def split: sum.splits)

lemma invoke_end_view:
  "core_session_locks (invoke_end v ops h t n result c) = core_session_locks c"
  "core_sessions (invoke_end v ops h t n result c) = core_sessions c"
  "core_project_id (invoke_end v ops h t n result c) = core_project_id c"
  "core_invocations (invoke_end v ops h t n result c) = core_invocations c"
  "core_next_invocation (invoke_end v ops h t n result c) = core_next_invocation c"
  "core_store (invoke_end v ops h t n result c) =
    core_store (enqueue_trace ops (invoke_trace h t n result c) c)"
  by (auto simp: invoke_end_def Let_def emit_monitor_event_def emit_monitor_io_event_def
      split: sum.splits)

lemma settle_poll_view [simp]:
  "core_session_locks (settle_poll h result c) = core_session_locks c"
  "core_sessions (settle_poll h result c) = core_sessions c"
  "core_project_id (settle_poll h result c) = core_project_id c"
  "core_next_invocation (settle_poll h result c) = core_next_invocation c"
  "core_store (settle_poll h result c) = core_store c"
  by (auto simp: settle_poll_def update_poll_def split: sum.splits runtime_error.splits)

lemma release_lock_view [simp]:
  "core_session_locks (release_lock i h c) =
    (if core_session_locks c i = Some (Some h) then (core_session_locks c)(i \<mapsto> None)
     else core_session_locks c)"
  "core_sessions (release_lock i h c) = core_sessions c"
  "core_project_id (release_lock i h c) = core_project_id c"
  "core_store (release_lock i h c) = core_store c"
  "core_invocations (release_lock i h c) = core_invocations c"
  "core_next_invocation (release_lock i h c) = core_next_invocation c"
  by (simp_all add: release_lock_def)

lemma finish_task_view:
  "sys_tasks (finish_task v ops h t n result s) =
    (sys_tasks s)(h \<mapsto> t\<lparr>task_phase := Finished result\<rparr>)"
  "core_session_locks (sys_core (finish_task v ops h t n result s)) =
    core_session_locks (release_lock (task_session t) h (sys_core s))"
  "core_sessions (sys_core (finish_task v ops h t n result s)) = core_sessions (sys_core s)"
  "core_project_id (sys_core (finish_task v ops h t n result s)) = core_project_id (sys_core s)"
  "core_next_invocation (sys_core (finish_task v ops h t n result s)) =
    core_next_invocation (sys_core s)"
  "core_invocations (sys_core (finish_task v ops h t n result s)) =
    (if task_background t then core_invocations (settle_poll h result (sys_core s))
     else core_invocations (sys_core s))"
  "sys_queue (finish_task v ops h t n result s) = sys_queue s"
  "sys_cancelled (finish_task v ops h t n result s) = sys_cancelled s"
  "\<exists>tr. core_store (sys_core (finish_task v ops h t n result s)) =
    core_store (enqueue_trace ops tr (sys_core s))"
proof -
  have "core_store (enqueue_trace ops tr (release_lock i h c)) = core_store (enqueue_trace ops tr c)"
    for tr i and c :: "'a runtime_core"
    by (auto simp: enqueue_trace_def store_write_def split: sum.splits)
  then show "\<exists>tr. core_store (sys_core (finish_task v ops h t n result s)) =
      core_store (enqueue_trace ops tr (sys_core s))"
    by (auto simp: finish_task_def Let_def set_phase_def invoke_end_view)
qed (auto simp: finish_task_def Let_def set_phase_def invoke_end_view settle_poll_def
      update_poll_def split: sum.splits runtime_error.splits)

text \<open>Entering: at most the session's lock is made.\<close>

lemma invoke_enter_view:
  assumes "invoke_enter input c = (r, c')"
  shows "core_sessions c' = core_sessions c" "core_store c' = core_store c"
    "core_project_id c' = core_project_id c" "core_invocations c' = core_invocations c"
    "core_next_invocation c' = core_next_invocation c"
    "r = Inl e \<Longrightarrow> core_session_locks c' = core_session_locks c"
    "r = Inr u \<Longrightarrow> core_session_locks c' =
      (if core_session_locks c (input_session_id input) = None
       then (core_session_locks c)(input_session_id input \<mapsto> None) else core_session_locks c)"
  using assms by (auto simp: invoke_enter_def act_defs split: sum.splits if_splits)

lemma load_snapshot_view:
  assumes "load_snapshot ops i c = (r, c')"
  shows "core_session_locks c' = core_session_locks c" "core_store c' = core_store c"
    "core_project_id c' = core_project_id c" "core_invocations c' = core_invocations c"
    "core_next_invocation c' = core_next_invocation c"
    "r = Inl e \<Longrightarrow> core_sessions c' = core_sessions c"
    "r = Inr snap \<Longrightarrow> map_of (core_sessions c') = (map_of (core_sessions c))(i \<mapsto> snap)"
  using assms
  by (auto simp: load_snapshot_def act_defs store_read_def Let_def fun_upd_idem
      split: option.splits sum.splits)

lemma begin_monitors [simp]:
  "core_sessions (emit_monitor_io_event io (emit_monitor_event me c)) = core_sessions c"
  "core_session_locks (emit_monitor_io_event io (emit_monitor_event me c)) = core_session_locks c"
  "core_store (emit_monitor_io_event io (emit_monitor_event me c)) = core_store c"
  "core_project_id (emit_monitor_io_event io (emit_monitor_event me c)) = core_project_id c"
  "core_invocations (emit_monitor_io_event io (emit_monitor_event me c)) = core_invocations c"
  "core_next_invocation (emit_monitor_io_event io (emit_monitor_event me c)) =
    core_next_invocation c"
  by (simp_all add: emit_monitor_event_def emit_monitor_io_event_def)

lemma invoke_begin_cases:
  assumes "invoke_begin v ops cancelled h t c = (r, c')"
  obtains (refused) e where "r = Inl e" "core_sessions c' = core_sessions c"
      "core_session_locks c' = core_session_locks c" "core_store c' = core_store c"
      "core_project_id c' = core_project_id c" "core_invocations c' = core_invocations c"
      "core_next_invocation c' = core_next_invocation c"
  | (loaded) call c0 where "r = Inr call" "same_sessions c c0"
      "core_invocations c0 = core_invocations c"
      "core_next_invocation c0 = core_next_invocation c"
      "load_snapshot ops (task_session t) c0 = (Inr (call_snapshot call), c')"
proof (cases r)
  case (Inl e)
  with assms consider "c' = c"
    | me io where
      "load_snapshot ops (task_session t) (emit_monitor_io_event io (emit_monitor_event me c))
        = (Inl e, c')"
    unfolding invoke_begin_def by (auto simp: act_bind_Inl split: prod.splits)
  then show thesis
  proof cases
    case 1
    with Inl show thesis by (intro refused [of e]) auto
  next
    case 2
    note view = load_snapshot_view [OF 2]
    with Inl show thesis by (intro refused [of e]) auto
  qed
next
  case (Inr call)
  with assms obtain me io where
    "load_snapshot ops (task_session t) (emit_monitor_io_event io (emit_monitor_event me c))
      = (Inr (call_snapshot call), c')"
    unfolding invoke_begin_def by (auto simp: act_bind_Inr split: prod.splits)
  with Inr show thesis by (intro loaded) (auto simp: same_sessions_def)
qed

section \<open>One holder per session\<close>

fun holding_phase :: "task_phase \<Rightarrow> runtime_snapshot option" where
  "holding_phase (Calling call) = Some (call_snapshot call)"
| "holding_phase (CleaningUp call e) = Some (call_snapshot call)"
| "holding_phase _ = None"

abbreviation holding :: "task \<Rightarrow> runtime_snapshot option" where
  "holding t \<equiv> holding_phase (task_phase t)"

text \<open>
  A task that holds its session's lock is recorded in it and works on the cached snapshot, and
  only such a task is recorded; a task that waits for a lock waits for one that exists.
\<close>

definition locks_ok ::
    "(string \<rightharpoonup> string option) \<Rightarrow> (string \<rightharpoonup> runtime_snapshot) \<Rightarrow> (string \<rightharpoonup> task) \<Rightarrow> bool" where
  "locks_ok locks snaps T \<longleftrightarrow>
     (\<forall>h t snap. T h = Some t \<longrightarrow> holding t = Some snap \<longrightarrow>
        locks (task_session t) = Some (Some h) \<and> snaps (task_session t) = Some snap) \<and>
     (\<forall>i h. locks i = Some (Some h) \<longrightarrow>
        (\<exists>t. T h = Some t \<and> task_session t = i \<and> holding t \<noteq> None)) \<and>
     (\<forall>h t. T h = Some t \<longrightarrow> task_phase t = AwaitingLock \<longrightarrow> locks (task_session t) \<noteq> None)"

lemma locks_okD:
  assumes "locks_ok locks snaps T"
  shows "T h = Some t \<Longrightarrow> holding t = Some snap \<Longrightarrow> locks (task_session t) = Some (Some h)"
    and "T h = Some t \<Longrightarrow> holding t = Some snap \<Longrightarrow> snaps (task_session t) = Some snap"
    and "locks i = Some (Some h) \<Longrightarrow> \<exists>t. T h = Some t \<and> task_session t = i \<and> holding t \<noteq> None"
    and "T h = Some t \<Longrightarrow> task_phase t = AwaitingLock \<Longrightarrow> locks (task_session t) \<noteq> None"
  using assms unfolding locks_ok_def by blast+

lemma locks_ok_new:
  assumes "locks_ok locks snaps T" and "T h = None" and "task_phase t = NotStarted"
  shows "locks_ok locks snaps (T(h \<mapsto> t))"
  unfolding locks_ok_def
proof (intro conjI allI impI)
  fix g u snap
  assume u: "(T(h \<mapsto> t)) g = Some u" "holding u = Some snap"
  then have "T g = Some u" using assms(3) by (auto split: if_splits)
  with u show "locks (task_session u) = Some (Some g)" "snaps (task_session u) = Some snap"
    using locks_okD(1,2) [OF assms(1)] by metis+
next
  fix i g
  assume "locks i = Some (Some g)"
  from locks_okD(3) [OF assms(1) this] show
    "\<exists>w. (T(h \<mapsto> t)) g = Some w \<and> task_session w = i \<and> holding w \<noteq> None"
    using assms(2) by auto
next
  fix g u
  assume "(T(h \<mapsto> t)) g = Some u" "task_phase u = AwaitingLock"
  then show "locks (task_session u) \<noteq> None"
    using assms(3) locks_okD(4) [OF assms(1)] by (cases "g = h") auto
qed

lemma locks_ok_same:
  assumes "locks_ok locks snaps T" and "T h = Some t" and "task_session t' = task_session t"
    and "holding t' = holding t"
    and "task_phase t' = AwaitingLock \<Longrightarrow> locks (task_session t) \<noteq> None"
  shows "locks_ok locks snaps (T(h \<mapsto> t'))"
  unfolding locks_ok_def
proof (intro conjI allI impI)
  fix g u snap
  assume u: "(T(h \<mapsto> t')) g = Some u" "holding u = Some snap"
  have "\<exists>w. T g = Some w \<and> holding w = Some snap \<and> task_session w = task_session u"
    using u assms(2-4) by (cases "g = h") auto
  then show "locks (task_session u) = Some (Some g)" "snaps (task_session u) = Some snap"
    using locks_okD(1,2) [OF assms(1)] by metis+
next
  fix i g
  assume "locks i = Some (Some g)"
  from locks_okD(3) [OF assms(1) this] show
    "\<exists>t. (T(h \<mapsto> t')) g = Some t \<and> task_session t = i \<and> holding t \<noteq> None"
    using assms(2-4) by (cases "g = h") auto
next
  fix g u
  assume "(T(h \<mapsto> t')) g = Some u" "task_phase u = AwaitingLock"
  then show "locks (task_session u) \<noteq> None"
    using assms(3,5) locks_okD(4) [OF assms(1)] by (cases "g = h") auto
qed

lemma locks_ok_make:
  assumes "locks_ok locks snaps T" and "locks i = None"
  shows "locks_ok (locks(i \<mapsto> None)) snaps T"
  unfolding locks_ok_def
proof (intro conjI allI impI)
  fix g u snap
  assume u: "T g = Some u" "holding u = Some snap"
  from locks_okD(1,2) [OF assms(1) u] assms(2)
  show "(locks(i \<mapsto> None)) (task_session u) = Some (Some g)" "snaps (task_session u) = Some snap"
    by auto
next
  fix j g
  assume "(locks(i \<mapsto> None)) j = Some (Some g)"
  then have "locks j = Some (Some g)" by (auto split: if_splits)
  from locks_okD(3) [OF assms(1) this] show
    "\<exists>w. T g = Some w \<and> task_session w = j \<and> holding w \<noteq> None" .
next
  fix g u
  assume u: "T g = Some u" "task_phase u = AwaitingLock"
  from locks_okD(4) [OF assms(1) u] show "(locks(i \<mapsto> None)) (task_session u) \<noteq> None" by auto
qed

lemma locks_ok_acquire:
  assumes "locks_ok locks snaps T" and "T h = Some t" and "locks (task_session t) = Some None"
    and "task_session t' = task_session t" and "holding t' = Some snap"
  shows "locks_ok (locks(task_session t \<mapsto> Some h)) (snaps(task_session t \<mapsto> snap)) (T(h \<mapsto> t'))"
  unfolding locks_ok_def
proof (intro conjI allI impI)
  fix g u s
  assume u: "(T(h \<mapsto> t')) g = Some u" "holding u = Some s"
  have "task_session u \<noteq> task_session t" if "g \<noteq> h"
    using that u assms(3) locks_okD(1) [OF assms(1), of g u s] by auto
  then show "(locks(task_session t \<mapsto> Some h)) (task_session u) = Some (Some g)"
    "(snaps(task_session t \<mapsto> snap)) (task_session u) = Some s"
    using u assms(4,5) locks_okD(1,2) [OF assms(1), of g u s] by (cases "g = h"; force)+
next
  fix i g
  assume g: "(locks(task_session t \<mapsto> Some h)) i = Some (Some g)"
  show "\<exists>t. (T(h \<mapsto> t')) g = Some t \<and> task_session t = i \<and> holding t \<noteq> None"
  proof (cases "i = task_session t")
    case True
    with g assms(4,5) show ?thesis by auto
  next
    case False
    with g locks_okD(3) [OF assms(1), of i g] assms(2) show ?thesis by auto
  qed
next
  fix g u
  assume "(T(h \<mapsto> t')) g = Some u" "task_phase u = AwaitingLock"
  then show "(locks(task_session t \<mapsto> Some h)) (task_session u) \<noteq> None"
    using assms(4,5) locks_okD(4) [OF assms(1)] by (cases "g = h") auto
qed

text \<open>A holder may change its session's snapshot as it lets go.\<close>

lemma locks_ok_release:
  assumes "locks_ok locks snaps T" and "T h = Some t"
    and "locks' = (if locks (task_session t) = Some (Some h)
      then locks(task_session t \<mapsto> None) else locks)"
    and "\<And>i. i \<noteq> task_session t \<or> holding t = None \<Longrightarrow> snaps' i = snaps i"
    and "\<And>t'. r = Some t' \<Longrightarrow> holding t' = None \<and> task_phase t' \<noteq> AwaitingLock"
  shows "locks_ok locks' snaps' (T(h := r))"
  unfolding locks_ok_def
proof (intro conjI allI impI)
  fix g u s
  assume u: "(T(h := r)) g = Some u" "holding u = Some s"
  with assms(5) have g: "g \<noteq> h" "T g = Some u" by (auto split: if_splits)
  note held = locks_okD(1,2) [OF assms(1) g(2) u(2)]
  have "task_session u \<noteq> task_session t \<or> holding t = None"
    using held(1) g(1) locks_okD(1) [OF assms(1,2)] by (cases "holding t") auto
  with held g(1) assms(3,4) show "locks' (task_session u) = Some (Some g)"
    "snaps' (task_session u) = Some s"
    by auto
next
  fix i g
  assume "locks' i = Some (Some g)"
  then have l: "locks i = Some (Some g)" "\<not> (i = task_session t \<and> g = h)"
    using assms(3) by (auto split: if_splits)
  from locks_okD(3) [OF assms(1) l(1)] l(2) assms(2) show
    "\<exists>t. (T(h := r)) g = Some t \<and> task_session t = i \<and> holding t \<noteq> None"
    by (cases "g = h") auto
next
  fix g u
  assume "(T(h := r)) g = Some u" "task_phase u = AwaitingLock"
  with assms(5) have "T g = Some u" by (auto split: if_splits)
  with locks_okD(4) [OF assms(1) this] \<open>task_phase u = AwaitingLock\<close> assms(3)
  show "locks' (task_session u) \<noteq> None" by auto
qed

section \<open>Every active invocation is worked on\<close>

definition active_handles :: "invocation_registry \<Rightarrow> string set" where
  "active_handles r = {h. \<exists>e. reg_entries r h = Some e \<and> active_entry e}"

lemma active_insert: "registry_insert h t r = Inr r' \<Longrightarrow> active_handles r' \<subseteq> insert h (active_handles r)"
  by (auto simp: active_handles_def dest: registry_insert_origin)

lemma active_update: "active_handles (registry_update h status out error r) \<subseteq> active_handles r"
  by (auto simp: active_handles_def dest!: registry_update_origin)

lemma active_update_terminal:
  assumes "is_terminal_status status"
  shows "h \<notin> active_handles (registry_update h status out error r)"
proof
  assume "h \<in> active_handles (registry_update h status out error r)"
  then obtain e' where e': "reg_entries (registry_update h status out error r) h = Some e'"
    "active_entry e'"
    by (auto simp: active_handles_def)
  have "\<not> active_entry (entry_update status out error e)" for e
    using assms by (simp add: active_entry_def)
  with e' show False
    by (auto simp: registry_update_def active_entry_def evict_old_terminal_entries_eq Let_def assms
        split: option.splits if_splits)
qed

lemma active_remove: "active_handles (registry_remove h r) = active_handles r - {h}"
  by (auto simp: active_handles_def registry_remove_entries)

lemma active_take: "registry_take h r = Inr (p, r') \<Longrightarrow> active_handles r' \<subseteq> active_handles r"
  by (auto simp: active_handles_def dest: registry_take_origin)

lemma active_push: "active_handles (push_provider_event h event r) \<subseteq> active_handles r"
  by (auto simp: active_handles_def dest!: push_provider_event_origin)

lemma active_drain: "registry_drain_events h r = Inr (evs, r') \<Longrightarrow> active_handles r' \<subseteq> active_handles r"
  by (auto simp: active_handles_def active_entry_def dest: registry_drain_origin)

lemma active_settle:
  "active_handles (core_invocations (settle_poll h result c)) \<subseteq> active_handles (core_invocations c)"
  "h \<notin> active_handles (core_invocations (settle_poll h result c))"
  using active_update by (auto simp: settle_poll_def update_poll_def active_update_terminal
      split: sum.splits runtime_error.splits)

definition invocation_name :: "nat \<Rightarrow> string" where
  "invocation_name n = ''invocation-'' @ show_nat n"

lemma invocation_name_inj [simp]: "invocation_name m = invocation_name n \<longleftrightarrow> m = n"
  by (simp add: invocation_name_def)

definition finished :: "task \<Rightarrow> bool" where
  "finished t \<longleftrightarrow> (\<exists>result. task_phase t = Finished result)"

definition works_on :: "(string \<rightharpoonup> task) \<Rightarrow> string \<Rightarrow> bool" where
  "works_on T h \<longleftrightarrow> (\<exists>t. T h = Some t \<and> task_background t \<and> \<not> finished t)"

text \<open>
  \<open>A\<close>: the active handles of the registry, \<open>Q\<close>: the handles in the worker's queue. All are
  names made by the counter, the queue is disjoint from the tasks, and an active handle is
  queued or has an unfinished task of the worker.
\<close>

definition work_ok :: "nat \<Rightarrow> (string \<rightharpoonup> task) \<Rightarrow> string list \<Rightarrow> string set \<Rightarrow> bool" where
  "work_ok n T Q A \<longleftrightarrow>
     (\<forall>h \<in> dom T \<union> set Q \<union> A. \<exists>m < n. h = invocation_name m) \<and>
     distinct Q \<and> set Q \<inter> dom T = {} \<and> (\<forall>h \<in> A. h \<in> set Q \<or> works_on T h)"

lemma work_okD:
  assumes "work_ok n T Q A"
  shows "h \<in> dom T \<union> set Q \<union> A \<Longrightarrow> \<exists>m < n. h = invocation_name m"
    and "distinct Q" and "set Q \<inter> dom T = {}"
    and "h \<in> A \<Longrightarrow> h \<in> set Q \<or> works_on T h"
  using assms unfolding work_ok_def by blast+

lemma work_okI:
  assumes "\<And>h. h \<in> dom T \<union> set Q \<union> A \<Longrightarrow> \<exists>m < n. h = invocation_name m"
    and "distinct Q" and "set Q \<inter> dom T = {}"
    and "\<And>h. h \<in> A \<Longrightarrow> h \<in> set Q \<or> works_on T h"
  shows "work_ok n T Q A"
  using assms unfolding work_ok_def by blast

lemma work_ok_fresh:
  assumes "work_ok n T Q A" and "n \<le> m"
  shows "invocation_name m \<notin> dom T \<union> set Q \<union> A"
  using work_okD(1) [OF assms(1), of "invocation_name m"] assms(2) by auto

lemma work_ok_mono:
  assumes "work_ok n T Q A" and "n \<le> m" and "A' \<subseteq> A"
  shows "work_ok m T Q A'"
proof (rule work_okI)
  fix h
  assume "h \<in> dom T \<union> set Q \<union> A'"
  with assms(3) have "h \<in> dom T \<union> set Q \<union> A" by blast
  from work_okD(1) [OF assms(1) this] assms(2) show "\<exists>k < m. h = invocation_name k"
    by fastforce
qed (use work_okD(2-4) [OF assms(1)] assms(3) in blast)+

lemma work_ok_new_task:
  assumes "work_ok n T Q A" and "\<not> task_background t"
  shows "work_ok (Suc n) (T(invocation_name n \<mapsto> t)) Q A"
proof (rule work_okI)
  note fresh = work_ok_fresh [OF assms(1) order_refl]
  fix h
  {
    assume "h \<in> dom (T(invocation_name n \<mapsto> t)) \<union> set Q \<union> A"
    then consider "h = invocation_name n" | "h \<in> dom T \<union> set Q \<union> A" by (auto split: if_splits)
    then show "\<exists>k < Suc n. h = invocation_name k"
      using work_okD(1) [OF assms(1), of h] by cases (auto intro: less_SucI)
  next
    assume "h \<in> A"
    from work_okD(4) [OF assms(1) this] fresh
    show "h \<in> set Q \<or> works_on (T(invocation_name n \<mapsto> t)) h"
      by (auto simp: works_on_def)
  }
  show "distinct Q" by (rule work_okD [OF assms(1)])
  show "set Q \<inter> dom (T(invocation_name n \<mapsto> t)) = {}"
    using work_okD(3) [OF assms(1)] fresh by auto
qed

lemma work_ok_enqueue:
  assumes "work_ok n T Q A" and "A' \<subseteq> insert (invocation_name n) A"
  shows "work_ok (Suc n) T (Q @ [invocation_name n]) A'"
proof (rule work_okI)
  note fresh = work_ok_fresh [OF assms(1) order_refl]
  fix h
  {
    assume "h \<in> dom T \<union> set (Q @ [invocation_name n]) \<union> A'"
    with assms(2) consider "h = invocation_name n" | "h \<in> dom T \<union> set Q \<union> A" by auto
    then show "\<exists>k < Suc n. h = invocation_name k"
      using work_okD(1) [OF assms(1), of h] by cases (auto intro: less_SucI)
  next
    assume "h \<in> A'"
    with assms(2) work_okD(4) [OF assms(1), of h]
    show "h \<in> set (Q @ [invocation_name n]) \<or> works_on T h" by auto
  }
  show "distinct (Q @ [invocation_name n])" using work_okD(2) [OF assms(1)] fresh by auto
  show "set (Q @ [invocation_name n]) \<inter> dom T = {}"
    using work_okD(3) [OF assms(1)] fresh by auto
qed

lemma work_ok_receive:
  assumes "work_ok n T (h # Q) A" and "task_background t" and "\<not> finished t"
  shows "work_ok n (T(h \<mapsto> t)) Q A"
proof -
  have "works_on (T(h \<mapsto> t)) g" if "works_on T g \<or> g = h" for g
    using that assms(2,3) by (auto simp: works_on_def)
  note work = this
  show ?thesis
  proof (rule work_okI)
    fix g
    {
      assume "g \<in> dom (T(h \<mapsto> t)) \<union> set Q \<union> A"
      then have "g \<in> dom T \<union> set (h # Q) \<union> A" by (auto split: if_splits)
      then show "\<exists>m < n. g = invocation_name m" by (rule work_okD [OF assms(1)])
    next
      assume "g \<in> A"
      from work_okD(4) [OF assms(1) this] work
      show "g \<in> set Q \<or> works_on (T(h \<mapsto> t)) g" by auto
    }
    show "distinct Q" using work_okD(2) [OF assms(1)] by simp
    show "set Q \<inter> dom (T(h \<mapsto> t)) = {}"
      using work_okD(2,3) [OF assms(1)] by auto
  qed
qed

lemma work_ok_task:
  assumes "work_ok n T Q A" and "T h = Some t" and "task_background t' = task_background t"
    and "A' \<subseteq> A" and "finished t' \<Longrightarrow> task_background t \<Longrightarrow> h \<notin> A'"
  shows "work_ok n (T(h \<mapsto> t')) Q A'"
proof -
  have work: "g \<in> set Q \<or> works_on (T(h \<mapsto> t')) g" if "g \<in> A'" for g
  proof (cases "g = h")
    case True
    from assms(1,4) that have "g \<in> set Q \<or> works_on T g" by (auto simp: work_ok_def)
    with True assms(2,3,5) that show ?thesis by (auto simp: works_on_def)
  next
    case False
    with assms(1,4) that show ?thesis by (auto simp: work_ok_def works_on_def)
  qed
  have "\<forall>g \<in> dom (T(h \<mapsto> t')) \<union> set Q \<union> A'. \<exists>m < n. g = invocation_name m"
  proof -
    have "dom (T(h \<mapsto> t')) \<union> set Q \<union> A' \<subseteq> dom T \<union> set Q \<union> A" using assms(2,4) by auto
    with assms(1) show ?thesis unfolding work_ok_def by blast
  qed
  moreover have "set Q \<inter> dom (T(h \<mapsto> t')) = {}"
    using assms(1,2) by (auto simp: work_ok_def)
  ultimately show ?thesis using work assms(1) unfolding work_ok_def by blast
qed

lemma work_ok_drop:
  assumes "work_ok n T Q A" and "T h = Some t" and "\<not> task_background t"
  shows "work_ok n (T(h := None)) Q A"
proof (rule work_okI)
  fix g
  {
    assume "g \<in> dom (T(h := None)) \<union> set Q \<union> A"
    then have "g \<in> dom T \<union> set Q \<union> A" by (auto split: if_splits)
    then show "\<exists>m < n. g = invocation_name m" by (rule work_okD [OF assms(1)])
  next
    assume "g \<in> A"
    from work_okD(4) [OF assms(1) this] assms(2,3)
    show "g \<in> set Q \<or> works_on (T(h := None)) g" by (auto simp: works_on_def)
  }
  show "distinct Q" by (rule work_okD [OF assms(1)])
  show "set Q \<inter> dom (T(h := None)) = {}" using work_okD(3) [OF assms(1)] by auto
qed

definition work_inv :: "'s vifu_system \<Rightarrow> bool" where
  "work_inv s \<longleftrightarrow> work_ok (unat (core_next_invocation (sys_core s))) (sys_tasks s)
     (map start_handle (sys_queue s)) (active_handles (core_invocations (sys_core s)))"

lemma work_inv_frame:
  assumes "work_inv s" and "core_next_invocation (sys_core s') = core_next_invocation (sys_core s)"
    and "sys_tasks s' = sys_tasks s" and "sys_queue s' = sys_queue s"
    and "active_handles (core_invocations (sys_core s')) \<subseteq>
      active_handles (core_invocations (sys_core s))"
  shows "work_inv s'"
  using assms(1) work_ok_mono [OF _ order_refl assms(5)] by (simp add: work_inv_def assms(2-4))

lemma work_inv_task:
  assumes "work_inv s" and "core_next_invocation (sys_core s') = core_next_invocation (sys_core s)"
    and "sys_tasks s h = Some t" and "sys_tasks s' = (sys_tasks s)(h \<mapsto> t')"
    and "sys_queue s' = sys_queue s" and "task_background t' = task_background t"
    and "active_handles (core_invocations (sys_core s')) \<subseteq>
      active_handles (core_invocations (sys_core s))"
    and "finished t' \<Longrightarrow> task_background t \<Longrightarrow>
      h \<notin> active_handles (core_invocations (sys_core s'))"
  shows "work_inv s'"
  unfolding work_inv_def assms(2,4,5)
  by (rule work_ok_task [OF assms(1) [unfolded work_inv_def] assms(3,6,7)]) (rule assms(8))

lemma unat_next: "n < u64_max \<Longrightarrow> unat (n + 1) = Suc (unat n)"
  using unat_saturating_add [of n 1]
  by (simp add: saturating_add_def word_less_nat_alt unat_u64_max)

lemma next_invocation_id_eq:
  "next_invocation_id c = (invocation_name (unat (core_next_invocation c)),
    c\<lparr>core_next_invocation := core_next_invocation c + 1\<rparr>)"
  by (simp add: next_invocation_id_def invocation_name_def)

lemma work_inv_finish:
  assumes "work_inv s" and "sys_tasks s h = Some t0" and "task_background t = task_background t0"
    and "core_next_invocation (sys_core s1) = core_next_invocation (sys_core s)"
    and "sys_tasks s1 = sys_tasks s" and "sys_queue s1 = sys_queue s"
    and "active_handles (core_invocations (sys_core s1)) \<subseteq>
      active_handles (core_invocations (sys_core s))"
  shows "work_inv (finish_task v ops h t n result s1)"
proof (rule work_inv_task [OF assms(1) _ assms(2), where t' = "t\<lparr>task_phase := Finished result\<rparr>"])
  show "active_handles (core_invocations (sys_core (finish_task v ops h t n result s1))) \<subseteq>
      active_handles (core_invocations (sys_core s))"
    using assms(7) active_settle(1) [of h result "sys_core s1"]
    by (auto simp: finish_task_view)
  show "h \<notin> active_handles (core_invocations (sys_core (finish_task v ops h t n result s1)))"
    if "task_background t0"
    using that assms(3) active_settle(2) by (simp add: finish_task_view)
qed (simp_all add: finish_task_view assms)

lemma work_inv_set_phase:
  assumes "work_inv s" and "sys_tasks s h = Some t0" and "task_background t = task_background t0"
    and "core_next_invocation (sys_core s1) = core_next_invocation (sys_core s)"
    and "sys_tasks s1 = sys_tasks s" and "sys_queue s1 = sys_queue s"
    and "active_handles (core_invocations (sys_core s1)) \<subseteq>
      active_handles (core_invocations (sys_core s))"
    and "\<And>result. phase \<noteq> Finished result"
  shows "work_inv (set_phase h t phase s1)"
  by (rule work_inv_task [OF assms(1) _ assms(2), where t' = "t\<lparr>task_phase := phase\<rparr>"])
    (use assms in \<open>auto simp: set_phase_def finished_def\<close>)

lemma start_invoke_cases:
  assumes "start_invoke input s = (r, s')"
  obtains (invalid) "s' = s"
  | (refused) "sys_tasks s' = sys_tasks s" "sys_queue s' = sys_queue s"
      "same_sessions (sys_core s) (sys_core s')"
      "core_next_invocation (sys_core s') = core_next_invocation (sys_core s) + 1"
      "active_handles (core_invocations (sys_core s')) \<subseteq>
        active_handles (core_invocations (sys_core s))"
  | (queued) h command where "r = Inr h"
      "h = invocation_name (unat (core_next_invocation (sys_core s)))"
      "start_handle command = h" "sys_tasks s' = sys_tasks s"
      "sys_queue s' = sys_queue s @ [command]"
      "same_sessions (sys_core s) (sys_core s')"
      "core_next_invocation (sys_core s') = core_next_invocation (sys_core s) + 1"
      "active_handles (core_invocations (sys_core s')) \<subseteq>
        insert h (active_handles (core_invocations (sys_core s)))"
proof (cases "portable_identifier (input_endpoint input) \<and>
    portable_identifier (input_session_id input)")
  case False
  with assms have "s' = s"
    by (cases "validate_identifier ''endpoint'' (input_endpoint input)";
        cases "validate_identifier ''session'' (input_session_id input)")
      (auto simp: start_invoke_def act_bind_def act_lift_def)
  then show thesis by (rule invalid)
next
  case True
  let ?h = "invocation_name (unat (core_next_invocation (sys_core s)))"
  let ?s1 = "s\<lparr>sys_core := (sys_core s)\<lparr>core_next_invocation := core_next_invocation (sys_core s) + 1\<rparr>,
    sys_next_token := Suc (sys_next_token s), sys_worker := True\<rparr>"
  from True have valid: "validate_identifier ''endpoint'' (input_endpoint input) = Inr ()"
    "validate_identifier ''session'' (input_session_id input) = Inr ()" by simp_all
  show thesis
  proof (cases "registry_insert ?h (sys_next_token s) (core_invocations (sys_core s))")
    case (Inl e)
    with assms valid have "s' = ?s1"
      by (simp add: start_invoke_def act_bind_def act_lift_def next_invocation_id_eq new_token_def)
    then show thesis by (intro refused) (auto simp: same_sessions_def)
  next
    case (Inr registry)
    let ?command = "\<lparr>start_handle = ?h, start_input = input,
      start_cancellation = sys_next_token s\<rparr>"
    let ?s2 = "update_invocations (\<lambda>_. registry) ?s1"
    from assms valid Inr have s': "(r, s') = (case worker_send ?command ?s2 of
        Inl e \<Rightarrow> (Inl e, update_invocations (registry_remove ?h) ?s2) | Inr s3 \<Rightarrow> (Inr ?h, s3))"
      by (simp add: start_invoke_def act_bind_def act_lift_def next_invocation_id_eq new_token_def
          Let_def)
    note insert = active_insert [OF Inr]
    show thesis
    proof (cases "WORKER_QUEUE_CAPACITY \<le> length (sys_queue s)")
      case True
      with s' have "s' = update_invocations (registry_remove ?h) ?s2"
        by (simp add: worker_send_def update_invocations_def)
      with insert show thesis
        by (intro refused) (auto simp: same_sessions_def update_invocations_def active_remove)
    next
      case False
      with s' have "r = Inr ?h" "s' = ?s2\<lparr>sys_queue := sys_queue s @ [?command]\<rparr>"
        by (simp_all add: worker_send_def update_invocations_def)
      with insert show thesis
        by (intro queued [of ?h ?command]) (auto simp: same_sessions_def update_invocations_def)
    qed
  qed
qed

lemma active_sink: "active_handles (core_invocations (sink_core h t n ev c)) \<subseteq>
    active_handles (core_invocations c)"
  using active_push by (auto simp: sink_core_def Let_def emit_monitor_event_def split: option.splits)

lemma sink_core_next [simp]: "core_next_invocation (sink_core h t n ev c) = core_next_invocation c"
  by (auto simp: sink_core_def Let_def emit_monitor_event_def split: option.splits)

lemma task_start_work:
  assumes "work_inv s" and "sys_tasks s h = Some t"
  shows "work_inv (task_start v ops h t now_ms n s)"
proof -
  let ?c1 = "if task_background t then update_poll h StatusRunning None None (sys_core s)
    else sys_core s"
  obtain r c2 where enter: "invoke_enter (task_input t) ?c1 = (r, c2)" by fastforce
  have c1: "core_next_invocation ?c1 = core_next_invocation (sys_core s)"
    "active_handles (core_invocations ?c1) \<subseteq> active_handles (core_invocations (sys_core s))"
    using active_update by (auto simp: update_poll_def)
  note view = invoke_enter_view(4,5) [OF enter]
  show ?thesis
  proof (cases r)
    case (Inl e)
    with enter c1 view show ?thesis
      by (simp add: task_start_def Let_def work_inv_finish [OF assms])
  next
    case (Inr u)
    with enter c1 view show ?thesis
      by (simp add: task_start_def Let_def work_inv_set_phase [OF assms])
  qed
qed

lemma task_locked_work:
  assumes "work_inv s" and "sys_tasks s h = Some t"
  shows "work_inv (task_locked v ops h t n s)"
proof -
  let ?c1 = "(sys_core s)\<lparr>core_session_locks :=
    (core_session_locks (sys_core s))(task_session t \<mapsto> Some h)\<rparr>"
  obtain r c2 where begins: "invoke_begin v ops (is_cancelled (task_token t) s) h t ?c1 = (r, c2)"
    by fastforce
  from begins show ?thesis
  proof (cases rule: invoke_begin_cases)
    case (refused e)
    with begins show ?thesis
      by (simp add: task_locked_def Let_def work_inv_finish [OF assms])
  next
    case (loaded call c0)
    note view = load_snapshot_view(4,5) [OF loaded(5)]
    with begins loaded show ?thesis
      by (simp add: task_locked_def Let_def work_inv_set_phase [OF assms])
  qed
qed

lemma invoke_finish_frame:
  assumes "invoke_finish ops cancelled h t call n result c = (r, c')"
  shows "core_invocations c' = core_invocations c"
    and "core_next_invocation c' = core_next_invocation c"
    and "core_session_locks c' = core_session_locks c"
    and "core_project_id c' = core_project_id c"
  using assms
  by (auto simp: invoke_finish_def act_defs store_write_def Let_def ensure_def
      split: sum.splits if_splits)

lemma task_select_work:
  assumes "work_inv s" and "sys_tasks s h = Some t" and "task_phase t = Calling call"
  shows "work_inv (task_select v ops h t call n r s)"
proof (cases "select_ready r call")
  case None
  with assms show ?thesis by (simp add: task_select_def)
next
  case (Some sel)
  note phase = work_inv_set_phase [OF assms(1,2)]
  show ?thesis
  proof (cases sel)
    case (SelectResponse result)
    obtain r' c1 where fin: "invoke_finish ops (is_cancelled (task_token t) s) h t call n result
        (sys_core s) = (r', c1)" by fastforce
    with Some SelectResponse invoke_finish_frame(1,2) [OF fin] show ?thesis
      by (simp add: task_select_def work_inv_finish [OF assms(1,2)])
  qed (use Some in \<open>simp_all add: task_select_def CancellationToken_cancel_def phase\<close>)
qed

lemma system_step_work:
  assumes "system_step k v ops s l s'" and "work_inv s"
  shows "work_inv s'"
  using assms
proof cases
  case (invoke input token h)
  then have "sys_tasks s' = (sys_tasks s)(invocation_name (unat (core_next_invocation (sys_core s)))
      \<mapsto> new_task input token False)"
    by (auto simp: invoke_with_events_and_cancellation_def next_invocation_id_eq)
  moreover have "unat (core_next_invocation (sys_core s')) =
      Suc (unat (core_next_invocation (sys_core s)))"
    using invoke by (auto simp: invoke_with_events_and_cancellation_def next_invocation_id_eq
        unat_next fresh_left_def)
  moreover have "sys_queue s' = sys_queue s"
    "core_invocations (sys_core s') = core_invocations (sys_core s)"
    using invoke by (auto simp: invoke_with_events_and_cancellation_def next_invocation_id_eq)
  ultimately show ?thesis
    using assms(2) work_ok_new_task [of _ _ _ _ "new_task input token False"]
    by (simp add: work_inv_def new_task_def)
next
  case (start_invoke input r)
  from start_invoke(3) show ?thesis
  proof (cases rule: start_invoke_cases)
    case invalid
    with assms(2) show ?thesis by simp
  next
    case refused
    with start_invoke assms(2) show ?thesis
      using work_ok_mono [OF _ _ refused(5), of _ _ _ "Suc (unat (core_next_invocation (sys_core s)))"]
      by (simp add: work_inv_def unat_next fresh_left_def)
  next
    case (queued h command)
    with start_invoke assms(2) show ?thesis
      using work_ok_enqueue by (simp add: work_inv_def unat_next fresh_left_def)
  qed
next
  case (receive command rest)
  with assms(2) show ?thesis
    using work_ok_receive [of _ _ "start_handle command"]
    by (simp add: work_inv_def worker_receive_def new_task_def finished_def)
next
  case (start h t now_ms n)
  with assms(2) show ?thesis by (simp add: task_start_work)
next
  case (locked h t n)
  with assms(2) show ?thesis by (simp add: task_locked_work)
next
  case (event h t n ev)
  note phase = work_inv_set_phase [OF assms(2) event(3)]
  show ?thesis
    using event(2) assms(2)
    by (simp add: task_event_def Let_def phase active_sink split: task_phase.split)
next
  case (select h t call r n)
  with assms(2) show ?thesis by (simp add: task_select_work)
next
  case (cleaned_up h t call e n)
  with assms(2) show ?thesis
    by (simp add: task_cleaned_up_def work_inv_finish [OF assms(2) cleaned_up(3)])
next
  case (dropped h t)
  with assms(2) show ?thesis
    using work_ok_drop by (simp add: work_inv_def task_dropped_def)
next
  case (cancel h r)
  with assms(2) show ?thesis
    by (auto simp: cancel_invocation_def CancellationToken_cancel_def update_poll_def Let_def
        split: option.splits intro!: work_inv_frame [OF assms(2)]
        dest: active_update [THEN subsetD])
next
  case (cancel_token token)
  with assms(2) show ?thesis
    by (auto simp: CancellationToken_cancel_def intro!: work_inv_frame [OF assms(2)])
next
  case (drain h r)
  with assms(2) show ?thesis
    by (auto simp: drain_invocation_events_def update_invocations_def
        split: sum.splits intro!: work_inv_frame [OF assms(2)] dest: active_drain [THEN subsetD])
next
  case (take h r)
  with assms(2) show ?thesis
    by (auto simp: take_invocation_def update_invocations_def
        split: sum.splits intro!: work_inv_frame [OF assms(2)] dest: active_take [THEN subsetD])
next
  case (registry x)
  then show ?thesis by (auto intro!: work_inv_frame [OF assms(2)])
qed

lemma system_steps_work: "system_steps k v ops s l s' \<Longrightarrow> work_inv s \<Longrightarrow> work_inv s'"
  by (induction rule: system_steps.induct) (auto intro: system_step_work)

lemma work_inv_new:
  assumes "core_invocations c = InvocationRegistry_default"
  shows "work_inv (system_new c)"
  using assms
  by (simp add: work_inv_def work_ok_def system_new_def active_handles_def
      InvocationRegistry_default_def)

section \<open>Snapshots: the cache, the store and the outputs\<close>

text \<open>The snapshot the store holds for a session; a session without one has the default.\<close>

definition durable :: "'s store_ops \<Rightarrow> 's runtime_core \<Rightarrow> string \<Rightarrow> runtime_snapshot option" where
  "durable ops c i = (case so_load ops (core_store c) (core_project_id c) i of
     Inl _ \<Rightarrow> None | Inr (Some snap) \<Rightarrow> Some snap | Inr None \<Rightarrow> Some RuntimeSnapshot_default)"

definition coherent :: "'s store_ops \<Rightarrow> 's runtime_core \<Rightarrow> bool" where
  "coherent ops c \<longleftrightarrow>
     (\<forall>i snap. map_of (core_sessions c) i = Some snap \<longrightarrow> durable ops c i = Some snap)"

text \<open>Each revision is the successor of the one before.\<close>

fun consecutive :: "u64 \<Rightarrow> u64 list \<Rightarrow> bool" where
  "consecutive r [] \<longleftrightarrow> True"
| "consecutive r (x # xs) \<longleftrightarrow> x = saturating_add r 1 \<and> consecutive x xs"

lemma consecutive_snoc:
  "consecutive r (xs @ [y]) \<longleftrightarrow> consecutive r xs \<and> y = saturating_add (last (r # xs)) 1"
  by (induction xs arbitrary: r) auto

definition session_outputs :: "string \<Rightarrow> invocation_output list \<Rightarrow> invocation_output list" where
  "session_outputs i l = filter (\<lambda>out. output_session_id out = i) l"

lemma session_outputs_simps [simp]:
  "session_outputs i [] = []"
  "session_outputs i (l @ l') = session_outputs i l @ session_outputs i l'"
  "session_outputs i [out] = (if output_session_id out = i then [out] else [])"
  by (simp_all add: session_outputs_def)

abbreviation output_revision :: "invocation_output \<Rightarrow> u64" where
  "output_revision out \<equiv> snapshot_revision (output_snapshot out)"

text \<open>
  The outputs of a session so far: consecutive revisions, the first the successor of the
  revision the store held at the start, and the store holds the snapshot of the last.
\<close>

definition outputs_ok ::
    "'s store_ops \<Rightarrow> 's runtime_core \<Rightarrow> invocation_output list \<Rightarrow> 's runtime_core \<Rightarrow> bool" where
  "outputs_ok ops c0 l c \<longleftrightarrow> (\<forall>i.
     if session_outputs i l = [] then durable ops c i = durable ops c0 i
     else \<exists>snap. durable ops c0 i = Some snap \<and>
       consecutive (snapshot_revision snap) (map output_revision (session_outputs i l)) \<and>
       durable ops c i = Some (output_snapshot (last (session_outputs i l))))"

lemma outputs_ok_start: "outputs_ok ops c [] c"
  by (simp add: outputs_ok_def)

lemma outputs_ok_same:
  "outputs_ok ops c0 l c \<Longrightarrow> durable ops c' = durable ops c \<Longrightarrow> outputs_ok ops c0 l c'"
  by (simp add: outputs_ok_def)

lemma outputs_ok_next:
  assumes ok: "outputs_ok ops c0 l c" and old: "durable ops c i = Some snap"
    and new: "durable ops c' = (durable ops c)(i \<mapsto> output_snapshot out)"
    and out: "output_session_id out = i"
      "output_revision out = saturating_add (snapshot_revision snap) 1"
  shows "outputs_ok ops c0 (l @ [out]) c'"
  unfolding outputs_ok_def
proof
  fix j
  note at_j = ok [unfolded outputs_ok_def, rule_format, of j]
  show "if session_outputs j (l @ [out]) = [] then durable ops c' j = durable ops c0 j
     else \<exists>snap. durable ops c0 j = Some snap \<and> consecutive (snapshot_revision snap)
         (map output_revision (session_outputs j (l @ [out]))) \<and>
       durable ops c' j = Some (output_snapshot (last (session_outputs j (l @ [out]))))"
  proof (cases "j = i")
    case False
    with at_j new out show ?thesis by auto
  next
    case True
    show ?thesis
    proof (cases "session_outputs j l = []")
      case True
      with at_j new out old \<open>j = i\<close> show ?thesis
        by (intro if_not_P [THEN iffD2] exI [of _ snap]) (auto intro: exI [of _ snap])
    next
      case False
      with at_j old \<open>j = i\<close> have "snap = output_snapshot (last (session_outputs j l))" by auto
      with False at_j new out \<open>j = i\<close> show ?thesis
        by (auto simp: consecutive_snoc last_map)
    qed
  qed
qed

definition sessions_inv ::
    "'s store_ops \<Rightarrow> ('s \<Rightarrow> bool) \<Rightarrow> 's runtime_core \<Rightarrow> invocation_output list \<Rightarrow> 's vifu_system
      \<Rightarrow> bool" where
  "sessions_inv ops good c0 l s \<longleftrightarrow>
     good (core_store (sys_core s)) \<and>
     locks_ok (core_session_locks (sys_core s)) (map_of (core_sessions (sys_core s))) (sys_tasks s) \<and>
     coherent ops (sys_core s) \<and> outputs_ok ops c0 l (sys_core s)"

lemma sessions_invD:
  assumes "sessions_inv ops good c0 l s"
  shows "good (core_store (sys_core s))"
    and "locks_ok (core_session_locks (sys_core s)) (map_of (core_sessions (sys_core s))) (sys_tasks s)"
    and "coherent ops (sys_core s)" and "outputs_ok ops c0 l (sys_core s)"
  using assms by (auto simp: sessions_inv_def)

lemma durable_cong:
  "core_store c' = core_store c \<Longrightarrow> core_project_id c' = core_project_id c \<Longrightarrow>
    durable ops c' = durable ops c"
  by (simp add: durable_def fun_eq_iff)

text \<open>Steps that leave the store alone and complete nothing.\<close>

lemma sessions_inv_frame:
  assumes "sessions_inv ops good c0 l s" and "core_store (sys_core s') = core_store (sys_core s)"
    and "core_project_id (sys_core s') = core_project_id (sys_core s)"
    and "core_sessions (sys_core s') = core_sessions (sys_core s)"
    and "locks_ok (core_session_locks (sys_core s')) (map_of (core_sessions (sys_core s)))
      (sys_tasks s')"
  shows "sessions_inv ops good c0 l s'"
  using assms durable_cong [OF assms(2,3), of ops]
  by (simp add: sessions_inv_def coherent_def outputs_ok_def)

lemma same_sessions_frame:
  assumes "sessions_inv ops good c0 l s" and "same_sessions (sys_core s) (sys_core s')"
    and "locks_ok (core_session_locks (sys_core s)) (map_of (core_sessions (sys_core s)))
      (sys_tasks s')"
  shows "sessions_inv ops good c0 l s'"
  using assms by (auto simp: same_sessions_def intro: sessions_inv_frame)

lemma invoke_finish_cases:
  assumes "invoke_finish ops cancelled h t call n result c = (r, c')"
  obtains (failed) e where "r = Inl e" "c' = c"
  | (answered) out s where "r = Inr out" "\<not> cancelled" "output_invocation_id out = h"
      "output_session_id out = task_session t"
      "output_revision out = saturating_add (snapshot_revision (call_snapshot call)) 1"
      "so_save ops (core_store c) (core_project_id c) (task_session t) (output_snapshot out) = Inr s"
      "c' = c\<lparr>core_store := s,
        core_sessions := AList.update (task_session t) (output_snapshot out) (core_sessions c)\<rparr>"
proof (cases r)
  case (Inl e)
  with assms show thesis
    by (intro failed [of e]) (auto simp: invoke_finish_def act_bind_Inl Let_def)
next
  case (Inr out)
  with assms have "\<exists>s. \<not> cancelled \<and> output_invocation_id out = h \<and>
      output_session_id out = task_session t \<and>
      output_revision out = saturating_add (snapshot_revision (call_snapshot call)) 1 \<and>
      so_save ops (core_store c) (core_project_id c) (task_session t) (output_snapshot out) = Inr s \<and>
      c' = c\<lparr>core_store := s,
        core_sessions := AList.update (task_session t) (output_snapshot out) (core_sessions c)\<rparr>"
    by (auto simp: invoke_finish_def act_bind_Inr Let_def store_write_Inr)
  with Inr show thesis by (auto intro: answered)
qed

lemma completed_finish:
  "completed h (finish_task v ops h t n result s) = (case result of Inr out \<Rightarrow> [out] | Inl _ \<Rightarrow> [])"
  by (simp add: completed_def finish_task_view split: sum.splits)

section \<open>A held lock can always be freed\<close>

lemma system_steps_one: "system_step k v ops s l s' \<Longrightarrow> system_steps k v ops s l s'"
  using system_steps.more [OF system_steps.none] by fastforce

lemma system_steps_trans:
  assumes "system_steps k v ops s l s'" and "system_steps k v ops s' l' s''"
  shows "system_steps k v ops s (l @ l') s''"
  using assms(2,1)
proof (induction rule: system_steps.induct)
  case (more s1 l1 s2 l2 s3)
  then show ?case using system_steps.more [of k v ops s "l @ l1"] by simp
qed simp

definition frees :: "'s vifu_system \<Rightarrow> string \<Rightarrow> string \<Rightarrow> 's vifu_system \<Rightarrow> bool" where
  "frees s g i s' \<longleftrightarrow> core_session_locks (sys_core s') i = Some None \<and>
     (\<forall>h. h \<noteq> g \<longrightarrow> sys_tasks s' h = sys_tasks s h)"

lemma cleaning_frees:
  assumes "sys_tasks s g = Some u" and "task_phase u = CleaningUp call e"
    and "core_session_locks (sys_core s) (task_session u) = Some (Some g)"
  shows "\<exists>l s'. system_steps k v ops s l s' \<and> frees s g (task_session u) s'"
  using system_steps_one [OF system_step.cleaned_up [OF assms(1,2)]] assms(3)
  by (intro exI conjI) (auto simp: frees_def task_cleaned_up_def finish_task_view)

definition only_idle :: readiness where
  "only_idle = \<lparr>ready_cancelled = False, ready_response = None, ready_closed = False,
     ready_idle = True\<rparr>"

lemma idle_frees:
  assumes t: "sys_tasks s g = Some u" "task_phase u = Calling call"
    and quiet: "\<not> (call_activity_open call \<and> call_changed call)"
    and lock: "core_session_locks (sys_core s) (task_session u) = Some (Some g)"
  shows "\<exists>l s'. system_steps k v ops s l s' \<and> frees s g (task_session u) s'"
proof -
  let ?e = "Timeout (endpoint_timeout_ms (call_endpoint call))"
  let ?u = "u\<lparr>task_phase := CleaningUp call ?e\<rparr>"
  let ?s = "set_phase g u (CleaningUp call ?e) (CancellationToken_cancel (task_token u) s)"
  have "select_ready only_idle call = Some SelectIdle"
    using quiet by (auto simp: select_ready_def only_idle_def)
  then have "?s = task_select v ops g u call 0 only_idle s"
    by (simp add: task_select_def)
  from system_step.select [OF t _ this, of k] obtain l1 where
    1: "system_steps k v ops s l1 ?s"
    using system_steps_one by (fastforce simp: possible_def only_idle_def)
  have "sys_tasks ?s g = Some ?u" "core_session_locks (sys_core ?s) (task_session ?u) = Some (Some g)"
    using lock by (simp_all add: set_phase_def CancellationToken_cancel_def)
  then obtain l2 s' where 2: "system_steps k v ops ?s l2 s'" "frees ?s g (task_session ?u) s'"
    using cleaning_frees [of ?s g ?u call ?e k v ops] by auto
  then have "frees s g (task_session u) s'"
    by (simp add: frees_def set_phase_def CancellationToken_cancel_def)
  with system_steps_trans [OF 1 2(1)] show ?thesis by blast
qed

lemma holder_frees:
  assumes t: "sys_tasks s g = Some u" "holding u \<noteq> None"
    and lock: "core_session_locks (sys_core s) (task_session u) = Some (Some g)"
  shows "\<exists>l s'. system_steps k v ops s l s' \<and> frees s g (task_session u) s'"
proof (cases "task_phase u")
  case (Calling call)
  show ?thesis
  proof (cases "call_activity_open call \<and> call_changed call")
    case False
    with idle_frees [OF t(1) Calling _ lock] show ?thesis .
  next
    case True
    let ?call = "call\<lparr>call_changed := False\<rparr>"
    let ?u = "u\<lparr>task_phase := Calling ?call\<rparr>"
    let ?s = "set_phase g u (Calling ?call) s"
    have "?s = task_select v ops g u call 0 only_idle s"
      using True by (simp add: task_select_def select_ready_def only_idle_def)
    from system_step.select [OF t(1) Calling _ this, of k] obtain l1 where
      1: "system_steps k v ops s l1 ?s"
      using system_steps_one by (fastforce simp: possible_def only_idle_def)
    have "sys_tasks ?s g = Some ?u" "task_phase ?u = Calling ?call"
      "core_session_locks (sys_core ?s) (task_session ?u) = Some (Some g)"
      using lock by (simp_all add: set_phase_def)
    from idle_frees [OF this(1,2) _ this(3), of k v ops] obtain l2 s' where
      2: "system_steps k v ops ?s l2 s'" "frees ?s g (task_session ?u) s'" by auto
    then have "frees s g (task_session u) s'" by (simp add: frees_def set_phase_def)
    with system_steps_trans [OF 1 2(1)] show ?thesis by blast
  qed
qed (use t lock cleaning_frees [OF t(1)] in auto)

context session_store
begin

lemma enqueue_trace_durable:
  assumes "inv (core_store c)"
  shows "inv (core_store (enqueue_trace ops tr c))"
    and "durable ops (enqueue_trace ops tr c) = durable ops c"
  using assms enqueue_trace_inv load_enqueue_trace
  by (auto simp: enqueue_trace_def store_write_def durable_def split: sum.splits)

lemma finish_inv:
  assumes "inv (core_store (sys_core s))" and "coherent ops (sys_core s)"
    and "outputs_ok ops c0 l (sys_core s)"
    and "locks_ok (core_session_locks (release_lock (task_session t) h (sys_core s)))
      (map_of (core_sessions (sys_core s))) ((sys_tasks s)(h \<mapsto> t\<lparr>task_phase := Finished result\<rparr>))"
  shows "sessions_inv ops inv c0 l (finish_task v ops h t n result s)"
proof -
  let ?s' = "finish_task v ops h t n result s"
  obtain tr where store: "core_store (sys_core ?s') = core_store (enqueue_trace ops tr (sys_core s))"
    using finish_task_view(9) by blast
  have "durable ops (sys_core ?s') = durable ops (enqueue_trace ops tr (sys_core s))"
    by (rule durable_cong) (simp_all add: store finish_task_view)
  then have "durable ops (sys_core ?s') = durable ops (sys_core s)"
    using enqueue_trace_durable(2) [OF assms(1)] by simp
  with assms enqueue_trace_durable(1) [OF assms(1)] show ?thesis
    by (simp add: sessions_inv_def coherent_def outputs_ok_def finish_task_view store)
qed

lemma task_start_inv:
  assumes s: "sessions_inv ops inv c0 l s" and t: "sys_tasks s h = Some t" "task_phase t = NotStarted"
  shows "sessions_inv ops inv c0 l (task_start v ops h t now_ms n s)"
proof -
  let ?t1 = "t\<lparr>task_created_at_ms := now_ms\<rparr>"
  let ?c1 = "if task_background t then update_poll h StatusRunning None None (sys_core s)
    else sys_core s"
  obtain r c2 where enter: "invoke_enter (task_input t) ?c1 = (r, c2)" by fastforce
  note view = invoke_enter_view [OF enter]
  have same: "core_sessions ?c1 = core_sessions (sys_core s)"
    "core_store ?c1 = core_store (sys_core s)" "core_project_id ?c1 = core_project_id (sys_core s)"
    "core_session_locks ?c1 = core_session_locks (sys_core s)"
    by (simp_all add: update_poll_def)
  note inv = sessions_invD [OF s]
  have durable: "durable ops c2 = durable ops (sys_core s)"
    by (rule durable_cong) (simp_all add: view same)
  show ?thesis
  proof (cases r)
    case (Inl e)
    have "locks_ok (core_session_locks (release_lock (task_session t) h c2))
        (map_of (core_sessions (sys_core s)))
        ((sys_tasks s)(h \<mapsto> ?t1\<lparr>task_phase := Finished (Inl e)\<rparr>))"
      by (rule locks_ok_release [OF inv(2) t(1)]) (simp_all add: view(6) [OF Inl] same)
    with inv view same durable have "sessions_inv ops inv c0 l
        (finish_task v ops h ?t1 n (Inl e) (s\<lparr>sys_core := c2\<rparr>))"
      by (intro finish_inv) (simp_all add: coherent_def outputs_ok_def)
    with enter Inl show ?thesis by (simp add: task_start_def Let_def)
  next
    case (Inr u)
    have locks: "core_session_locks c2 = (if core_session_locks (sys_core s) (task_session t) = None
        then (core_session_locks (sys_core s))(task_session t \<mapsto> None)
        else core_session_locks (sys_core s))"
      using view(7) [of u] Inr by (simp add: same)
    have "locks_ok (core_session_locks c2) (map_of (core_sessions (sys_core s))) (sys_tasks s)"
      unfolding locks using inv(2) locks_ok_make by auto
    from locks_ok_same [OF this t(1), of "?t1\<lparr>task_phase := AwaitingLock\<rparr>"]
    have "locks_ok (core_session_locks c2) (map_of (core_sessions (sys_core s)))
        ((sys_tasks s)(h \<mapsto> ?t1\<lparr>task_phase := AwaitingLock\<rparr>))"
      using t(2) by (auto simp: locks split: if_splits)
    then have "sessions_inv ops inv c0 l (set_phase h ?t1 AwaitingLock (s\<lparr>sys_core := c2\<rparr>))"
      by (intro sessions_inv_frame [OF s]) (simp_all add: set_phase_def view same)
    with enter Inr show ?thesis by (simp add: task_start_def Let_def)
  qed
qed

lemma load_snapshot_durable:
  assumes "coherent ops c" and "load_snapshot ops i c = (Inr snap, c')"
  shows "durable ops c i = Some snap"
  using assms
  by (auto simp: load_snapshot_def act_defs store_read_def Let_def coherent_def durable_def
      split: option.splits sum.splits)

lemma task_locked_inv:
  assumes s: "sessions_inv ops inv c0 l s" and t: "sys_tasks s h = Some t"
    "task_phase t = AwaitingLock" and free: "lock_free t s"
  shows "sessions_inv ops inv c0 l (task_locked v ops h t n s)"
proof -
  let ?locks = "(core_session_locks (sys_core s))(task_session t \<mapsto> Some h)"
  let ?c1 = "(sys_core s)\<lparr>core_session_locks := ?locks\<rparr>"
  obtain r c2 where begins: "invoke_begin v ops (is_cancelled (task_token t) s) h t ?c1 = (r, c2)"
    by fastforce
  note inv = sessions_invD [OF s]
  have free': "core_session_locks (sys_core s) (task_session t) = Some None"
    using free by (simp add: lock_free_def)
  from begins show ?thesis
  proof (cases rule: invoke_begin_cases)
    case (refused e)
    have durable: "durable ops c2 = durable ops (sys_core s)"
      by (rule durable_cong) (simp_all add: refused)
    have "core_session_locks (release_lock (task_session t) h c2) = core_session_locks (sys_core s)"
      using free' by (simp add: refused fun_upd_idem)
    moreover have "locks_ok (core_session_locks (sys_core s))
        (map_of (core_sessions (sys_core s)))
        ((sys_tasks s)(h \<mapsto> t\<lparr>task_phase := Finished (Inl e)\<rparr>))"
      by (rule locks_ok_same [OF inv(2) t(1)]) (simp_all add: t)
    ultimately have "sessions_inv ops inv c0 l
        (finish_task v ops h t n (Inl e) (s\<lparr>sys_core := c2\<rparr>))"
      using inv durable by (intro finish_inv) (simp_all add: refused coherent_def outputs_ok_def)
    with begins refused show ?thesis by (simp add: task_locked_def Let_def)
  next
    case (loaded call c1)
    note view = load_snapshot_view [OF loaded(5)]
    have same: "core_sessions c1 = core_sessions (sys_core s)"
      "core_store c1 = core_store (sys_core s)" "core_project_id c1 = core_project_id (sys_core s)"
      "core_session_locks c1 = ?locks"
      using loaded(2) by (simp_all add: same_sessions_def)
    have durable1: "durable ops c1 = durable ops (sys_core s)"
      by (rule durable_cong) (simp_all add: same)
    have durable: "durable ops c2 = durable ops (sys_core s)"
      by (rule durable_cong) (simp_all add: view same)
    have "coherent ops c1" using inv(3) by (simp add: coherent_def durable1 same)
    from load_snapshot_durable [OF this loaded(5)] durable1
    have snap: "durable ops (sys_core s) (task_session t) = Some (call_snapshot call)" by simp
    have sessions: "map_of (core_sessions c2) =
        (map_of (core_sessions (sys_core s)))(task_session t \<mapsto> call_snapshot call)"
      using view(7) by (simp add: same)
    have "locks_ok ?locks (map_of (core_sessions c2))
        ((sys_tasks s)(h \<mapsto> t\<lparr>task_phase := Calling call\<rparr>))"
      unfolding sessions by (rule locks_ok_acquire [OF inv(2) t(1) free']) simp_all
    with inv snap have "sessions_inv ops inv c0 l
        (set_phase h t (Calling call) (s\<lparr>sys_core := c2\<rparr>))"
      by (auto simp: sessions_inv_def set_phase_def view same coherent_def sessions durable
          outputs_ok_def)
    with begins loaded show ?thesis by (simp add: task_locked_def Let_def)
  qed
qed

lemma save_durable:
  assumes "inv (core_store c)"
    and "so_save ops (core_store c) (core_project_id c) i snap = Inr st"
    and "core_store c' = st" and "core_project_id c' = core_project_id c"
  shows "inv (core_store c')" and "durable ops c' = (durable ops c)(i \<mapsto> snap)"
  using assms save_inv load_save
  by (auto simp: durable_def fun_eq_iff)

lemma task_respond_inv:
  assumes s: "sessions_inv ops inv c0 l s" and t: "sys_tasks s h = Some t" "task_phase t = Calling call"
    and fin: "invoke_finish ops cancelled h t call n result (sys_core s) = (r, c')"
  shows "sessions_inv ops inv c0 (l @ (case r of Inr out \<Rightarrow> [out] | Inl _ \<Rightarrow> []))
    (finish_task v ops h t n r (s\<lparr>sys_core := c'\<rparr>))"
proof -
  note inv = sessions_invD [OF s]
  have locks: "locks_ok (core_session_locks (release_lock (task_session t) h c')) snaps'
      ((sys_tasks s)(h \<mapsto> t\<lparr>task_phase := Finished r\<rparr>))"
    if "\<And>i. i \<noteq> task_session t \<Longrightarrow> snaps' i = map_of (core_sessions (sys_core s)) i" for snaps'
    by (rule locks_ok_release [OF inv(2) t(1)])
      (use that t(2) invoke_finish_frame(3) [OF fin] in auto)
  from fin show ?thesis
  proof (cases rule: invoke_finish_cases)
    case (failed e)
    with inv locks show ?thesis by (intro finish_inv) simp_all
  next
    case (answered out st)
    have held: "map_of (core_sessions (sys_core s)) (task_session t) = Some (call_snapshot call)"
      using locks_okD(2) [OF inv(2) t(1)] t(2) by simp
    with inv(3) have old: "durable ops (sys_core s) (task_session t) = Some (call_snapshot call)"
      by (simp add: coherent_def)
    note saved = save_durable [OF inv(1) answered(6), of c']
    have new: "inv (core_store c')"
      "durable ops c' = (durable ops (sys_core s))(task_session t \<mapsto> output_snapshot out)"
      using saved by (simp_all add: answered)
    have "coherent ops c'" using inv(3) by (simp add: coherent_def new(2)) (simp add: answered)
    moreover have "outputs_ok ops c0 (l @ [out]) c'"
      using outputs_ok_next [OF inv(4) old new(2) answered(4,5)] .
    ultimately show ?thesis
      using new(1) locks answered(1)
      by (intro finish_inv) (simp_all add: answered(7))
  qed
qed

lemma set_phase_inv:
  assumes "sessions_inv ops inv c0 l s" and "sys_tasks s h = Some t0"
    and "same_sessions (sys_core s) (sys_core s1)" and "sys_tasks s1 = sys_tasks s"
    and "task_session t = task_session t0" and "holding_phase phase = holding t0"
    and "phase \<noteq> AwaitingLock"
  shows "sessions_inv ops inv c0 l (set_phase h t phase s1)"
proof (rule same_sessions_frame [OF assms(1)])
  show "same_sessions (sys_core s) (sys_core (set_phase h t phase s1))"
    using assms(3) by (simp add: set_phase_def)
  show "locks_ok (core_session_locks (sys_core s)) (map_of (core_sessions (sys_core s)))
      (sys_tasks (set_phase h t phase s1))"
    using locks_ok_same [OF sessions_invD(2) [OF assms(1)] assms(2), of "t\<lparr>task_phase := phase\<rparr>"]
      assms(4-7)
    by (simp add: set_phase_def)
qed

lemma task_select_inv:
  assumes s: "sessions_inv ops inv c0 l s" and t: "sys_tasks s h = Some t" "task_phase t = Calling call"
    and s': "s' = task_select v ops h t call n r s"
  shows "sessions_inv ops inv c0 (l @ completed h s') s'"
proof (cases "select_ready r call")
  case None
  with s t s' show ?thesis by (simp add: task_select_def completed_def)
next
  case (Some sel)
  note phase = set_phase_inv [OF s t(1)]
  have quiet: "completed h (set_phase h t (Calling call') s1) = []"
    "completed h (set_phase h t (CleaningUp call' e) s1) = []" for call' e and s1 :: "'s vifu_system"
    by (simp_all add: completed_def set_phase_def)
  show ?thesis
  proof (cases sel)
    case (SelectResponse result)
    obtain r' c1 where fin: "invoke_finish ops (is_cancelled (task_token t) s) h t call n result
        (sys_core s) = (r', c1)" by fastforce
    with Some SelectResponse s' have "s' = finish_task v ops h t n r' (s\<lparr>sys_core := c1\<rparr>)"
      by (simp add: task_select_def)
    with task_respond_inv [OF s t fin] show ?thesis by (simp add: completed_finish)
  next
    case (SelectActivity call')
    with Some have "call_snapshot call' = call_snapshot call"
      by (auto simp: select_ready_def split: if_splits option.splits)
    with Some SelectActivity s' t(2) show ?thesis
      by (simp add: task_select_def quiet phase)
  qed (use Some s' t(2) in
      \<open>simp_all add: task_select_def CancellationToken_cancel_def quiet phase\<close>)
qed

lemma system_step_sessions:
  assumes step: "system_step k v ops s l' s'" and s: "sessions_inv ops inv c0 l s"
    and work: "work_inv s"
  shows "sessions_inv ops inv c0 (l @ l') s'"
  using step
proof cases
  case (invoke input token h)
  note fresh = work_ok_fresh [OF work [unfolded work_inv_def] order_refl]
  show ?thesis
    unfolding invoke(1) append_Nil2
    by (rule same_sessions_frame [OF s])
      (use invoke fresh in \<open>auto simp: invoke_with_events_and_cancellation_def
        next_invocation_id_eq same_sessions_def new_task_def
        intro!: locks_ok_new [OF sessions_invD(2) [OF s]]\<close>)
next
  case (start_invoke input r)
  have "sys_tasks s' = sys_tasks s" "same_sessions (sys_core s) (sys_core s')"
    by (rule start_invoke_cases [OF start_invoke(3)]; simp)+
  with sessions_invD(2) [OF s] start_invoke(1) show ?thesis
    by (auto intro: same_sessions_frame [OF s])
next
  case (receive command rest)
  have "sys_tasks s (start_handle command) = None"
    using work receive by (auto simp: work_inv_def work_ok_def)
  with locks_ok_new [OF sessions_invD(2) [OF s], of "start_handle command"] receive show ?thesis
    by (auto intro!: same_sessions_frame [OF s] simp: worker_receive_def new_task_def)
next
  case (start h t now_ms n)
  with task_start_inv [OF s] show ?thesis by simp
next
  case (locked h t n)
  with task_locked_inv [OF s] show ?thesis by simp
next
  case (event h t n ev)
  note phase = set_phase_inv [OF s event(3)]
  show ?thesis
    using event(1,2) s
    by (simp add: task_event_def Let_def phase note_activity_def split: task_phase.split)
next
  case (select h t call r n)
  with task_select_inv [OF s] show ?thesis by simp
next
  case (cleaned_up h t call e n)
  note inv = sessions_invD [OF s]
  have "locks_ok (core_session_locks (release_lock (task_session t) h (sys_core s)))
      (map_of (core_sessions (sys_core s)))
      ((sys_tasks s)(h \<mapsto> t\<lparr>task_phase := Finished (Inl e)\<rparr>))"
    by (rule locks_ok_release [OF inv(2) cleaned_up(3)]) simp_all
  with inv cleaned_up(1,2) show ?thesis by (simp add: task_cleaned_up_def finish_inv)
next
  case (dropped h t)
  have "locks_ok (core_session_locks (release_lock (task_session t) h (sys_core s)))
      (map_of (core_sessions (sys_core s))) ((sys_tasks s)(h := None))"
    by (rule locks_ok_release [OF sessions_invD(2) [OF s] dropped(3)]) simp_all
  with dropped(1,2) show ?thesis
    by (auto intro!: sessions_inv_frame [OF s] simp: task_dropped_def)
next
  case (cancel h r)
  with sessions_invD(2) [OF s] show ?thesis
    by (auto simp: cancel_invocation_def CancellationToken_cancel_def Let_def
        split: option.splits intro!: same_sessions_frame [OF s])
next
  case (cancel_token token)
  with sessions_invD(2) [OF s] show ?thesis
    by (auto simp: CancellationToken_cancel_def intro!: same_sessions_frame [OF s])
next
  case (drain h r)
  with sessions_invD(2) [OF s] show ?thesis
    by (auto simp: drain_invocation_events_def update_invocations_def same_sessions_def
        split: sum.splits intro!: same_sessions_frame [OF s])
next
  case (take h r)
  with sessions_invD(2) [OF s] show ?thesis
    by (auto simp: take_invocation_def update_invocations_def same_sessions_def
        split: sum.splits intro!: same_sessions_frame [OF s])
next
  case (registry x)
  with sessions_invD(2) [OF s] show ?thesis
    by (auto intro!: same_sessions_frame [OF s])
qed

lemma system_steps_sessions:
  assumes "system_steps k v ops s l s'" and "sessions_inv ops inv c0 [] s" and "work_inv s"
  shows "sessions_inv ops inv c0 l s'"
  using assms
proof (induction rule: system_steps.induct)
  case (more s l s' l' s'')
  then show ?case using system_step_sessions system_steps_work by blast
qed simp

end

end
