(* ===== verification/Releases.thy ===== *)
theory Releases
  imports Application
begin

text \<open>
  What the synchronous operations of \<open>VifuRuntime\<close> guarantee: the registry is well formed after
  any host calls; an activation is all or nothing on the in-memory store and, unless recording the
  active version fails, on any other; bootstrapping is idempotent (proved in \<open>release_store\<close> for
  every lawful store, used on the in-memory one); snapshots survive export
  and restore; a batch of effects is answered one for one.
\<close>

section \<open>Releases over any lawful store\<close>

text \<open>The core after a manifest was applied to it.\<close>

definition applied :: "runtime_manifest \<Rightarrow> 's runtime_core \<Rightarrow> 's runtime_core" where
  "applied m c = c\<lparr>core_agents := collect_map agent_id (manifest_agents m),
     core_endpoints := collect_map endpoint_name (manifest_endpoints m),
     core_manifest := Some m\<rparr>"

definition applicable :: "codec \<Rightarrow> runtime_manifest \<Rightarrow> 's runtime_core \<Rightarrow> bool" where
  "applicable k m c \<longleftrightarrow> valid_manifest k m \<and> manifest_project_id m = core_project_id c \<and>
     for_each (check_requirement (core_providers c)) (manifest_providers m) = Inr ()"

lemma apply_manifest_Inr:
  "apply_manifest k m c = (Inr u, c') \<longleftrightarrow> applicable k m c \<and> c' = applied m c"
  by (auto simp: apply_manifest_def act_bind_Inr applicable_def applied_def
      RuntimeManifest_validate_iff simp del: for_each_eq_Inr split: sum.splits if_splits)

lemma apply_manifest_Inl: "apply_manifest k m c = (Inl e, c') \<Longrightarrow> c' = c"
  by (auto elim: apply_manifest_cases)

lemma applied_simps [simp]:
  "core_store (applied m c) = core_store c" "core_project_id (applied m c) = core_project_id c"
  "core_manifest (applied m c) = Some m" "core_providers (applied m c) = core_providers c"
  by (simp_all add: applied_def)

lemma applied_again [simp]:
  "applied m ((applied m c)\<lparr>core_store := s\<rparr>) = (applied m c)\<lparr>core_store := s\<rparr>"
  by (simp add: applied_def)

lemma activate_release_Inr:
  "activate_release k ops v st = (Inr r, st') \<longleftrightarrow>
    so_load_release ops (core_store st) (core_project_id st) v = Inr (Some r) \<and>
    applicable k (release_manifest r) st \<and>
    (\<exists>s. so_set_active_release ops (core_store st) (core_project_id st) v = Inr s \<and>
      st' = (applied (release_manifest r) st)\<lparr>core_store := s\<rparr>)"
  by (auto simp: activate_release_def act_bind_Inr apply_manifest_Inr store_write_Inr)

lemma applicable_frame:
  "core_providers c' = core_providers c \<Longrightarrow> core_project_id c' = core_project_id c \<Longrightarrow>
    applicable k m c' = applicable k m c"
  by (simp add: applicable_def)

lemma bootstrap_release_Inr:
  "bootstrap_release k ops m st = (Inr r, st') \<longleftrightarrow>
    (\<exists>v. so_active_release ops (core_store st) (core_project_id st) = Inr (Some v) \<and>
       activate_release k ops v st = (Inr r, st')) \<or>
    so_active_release ops (core_store st) (core_project_id st) = Inr None \<and>
    (\<exists>new st1. RuntimeRelease_new k 1 m = Inr new \<and>
       install_release k ops new st = (Inr (), st1) \<and>
       activate_release k ops (release_version new) st1 = (Inr r, st'))"
  by (auto simp: bootstrap_release_def restore_active_release_def active_release_version_def
      act_bind_Inr split: option.splits)

context release_store
begin

lemma active_after_activate:
  assumes "inv (core_store st)" and "activate_release k ops v st = (Inr r, st')"
  shows "inv (core_store st')"
    and "so_active_release ops (core_store st') (core_project_id st') = Inr (Some v)"
    and "so_load_release ops (core_store st') (core_project_id st') v = Inr (Some r)"
    and "core_manifest st' = Some (release_manifest r)"
    and "release_version r = v"
    and "applicable k (release_manifest r) st'"
  using assms load_release_key [of "core_store st" "core_project_id st" v r]
  by (auto simp: activate_release_Inr set_active_inv active_set_active load_set_active
      release_key_def applicable_def)

lemma activate_fails_clean:
  assumes inv: "inv (core_store st)" and fail: "activate_release k ops v st = (Inl e, st')"
  shows "st' = st"
proof -
  consider "st' = st" | r e' where
    "so_load_release ops (core_store st) (core_project_id st) v = Inr (Some r)"
    "so_set_active_release ops (core_store st) (core_project_id st) v = Inl e'"
    using fail
    by (auto simp: activate_release_def act_bind_Inl act_bind_Inr store_write_Inr
        apply_manifest_Inr dest: apply_manifest_Inl)
  then show ?thesis
  proof cases
    case 2
    with set_active_stored [OF inv] show ?thesis by fastforce
  qed
qed

lemma install_release_inv:
  assumes "inv (core_store st)" and "install_release k ops r st = (Inr u, st')"
  shows "inv (core_store st')"
proof -
  from assms(2) obtain s where "so_save_release ops (core_store st) r = Inr s"
    and "st' = st\<lparr>core_store := s\<rparr>"
    by (auto simp: install_release_def act_bind_Inr store_write_Inr split: if_splits)
  with save_release_inv [OF assms(1)] show ?thesis by simp
qed

lemma bootstrap_activates:
  assumes inv: "inv (core_store st)" and boot: "bootstrap_release k ops m st = (Inr r, st')"
  obtains st1 where "inv (core_store st1)"
    and "activate_release k ops (release_version r) st1 = (Inr r, st')"
proof -
  from boot consider
    v where "activate_release k ops v st = (Inr r, st')"
  | new st1 where "install_release k ops new st = (Inr (), st1)"
      "activate_release k ops (release_version new) st1 = (Inr r, st')"
    by (auto simp: bootstrap_release_Inr)
  then show thesis
  proof cases
    case 1
    from active_after_activate(5) [OF inv 1] 1 have
      "activate_release k ops (release_version r) st = (Inr r, st')" by simp
    then show thesis by (rule that [OF inv])
  next
    case 2
    from 2(1) have "inv (core_store st1)" by (rule install_release_inv [OF inv])
    moreover from active_after_activate(5) [OF this 2(2)] 2(2) have
      "activate_release k ops (release_version r) st1 = (Inr r, st')" by simp
    ultimately show thesis by (rule that)
  qed
qed

text \<open>After a successful bootstrap, every later one returns the same release.\<close>

lemma bootstrap_again:
  assumes "inv (core_store st)" and "bootstrap_release k ops m st = (Inr r, st')"
  shows "\<exists>st''. bootstrap_release k ops m' st' = (Inr r, st'')"
proof -
  obtain st1 where st1: "inv (core_store st1)"
    and act: "activate_release k ops (release_version r) st1 = (Inr r, st')"
    by (rule bootstrap_activates [OF assms])
  note after = active_after_activate [OF st1 act]
  from set_active_stored [OF after(1) after(3)] obtain s where
    "so_set_active_release ops (core_store st') (core_project_id st') (release_version r) = Inr s"
    by blast
  with after have "\<exists>st''. activate_release k ops (release_version r) st' = (Inr r, st'')"
    by (simp add: activate_release_Inr)
  with after(2) show ?thesis by (auto simp: bootstrap_release_Inr)
qed

end

section \<open>Snapshots\<close>

definition save_all ::
    "'s store_ops \<Rightarrow> string \<Rightarrow> (string \<times> runtime_snapshot) list \<Rightarrow> 's \<Rightarrow> 's rt" where
  "save_all ops p = fold_result (\<lambda>x s. so_save ops s p (fst x) (snd x))"

lemma restore_sessions_Inr:
  assumes "\<forall>x \<in> set xs. portable_identifier (fst x)"
  shows "act_for_each (restore_session ops) xs c = (Inr (), c') \<longleftrightarrow>
    (\<exists>s. save_all ops (core_project_id c) xs (core_store c) = Inr s \<and> c' = c\<lparr>core_store := s\<rparr>)"
  using assms
proof (induction xs arbitrary: c)
  case Nil
  then show ?case by (auto simp: save_all_def)
next
  case (Cons x xs)
  then show ?case
    by (force simp: save_all_def act_bind_Inr restore_session_def store_write_Inr and_then_eq_Inr)
qed

lemma memory_save_all:
  "save_all (memory_store_ops k) p xs s =
    Inr (s\<lparr>ms_snapshots := fold (\<lambda>x m. m((p, fst x) \<mapsto> snd x)) xs (ms_snapshots s)\<rparr>)"
  by (induction xs arbitrary: s) (simp_all add: save_all_def memory_save_def)

lemma fold_upd_keyed:
  assumes "distinct (map fst xs)"
  shows "fold (\<lambda>x m. m((p, fst x) \<mapsto> snd x)) xs m (p, i) =
    (case map_of xs i of Some v \<Rightarrow> Some v | None \<Rightarrow> m (p, i))"
  using assms
proof (induction xs arbitrary: m)
  case (Cons x xs)
  have "map_of xs (fst x) = None" using Cons.prems by (simp add: map_of_eq_None_iff)
  with Cons show ?case by (auto split: option.splits)
qed simp

section \<open>Effects\<close>

lemma execute_effect_ids:
  assumes "execute_effect v invoke e acc st = (Inr out, st')"
  shows "map result_effect_id (execution_results out) =
      map result_effect_id (execution_results acc) @
        (if effect_kind e = ''agent.invoke'' then [effect_id e] else [])"
    and "execution_unhandled out =
      execution_unhandled acc @ (if effect_kind e = ''agent.invoke'' then [] else [e])"
  using assms
  by (auto simp: execute_effect_def split: if_splits sum.splits prod.splits option.splits)

lemma execute_effect_list_ids:
  assumes "execute_effect_list v invoke es acc st = (Inr out, st')"
  shows "map result_effect_id (execution_results out) =
      map result_effect_id (execution_results acc) @
        map effect_id (filter (\<lambda>e. effect_kind e = ''agent.invoke'') es) \<and>
    execution_unhandled out =
      execution_unhandled acc @ filter (\<lambda>e. effect_kind e \<noteq> ''agent.invoke'') es"
  using assms
proof (induction es arbitrary: acc st)
  case (Cons e es)
  from Cons.prems obtain mid st1 where one: "execute_effect v invoke e acc st = (Inr mid, st1)"
    and rest: "execute_effect_list v invoke es mid st1 = (Inr out, st')"
    by (auto simp: act_bind_Inr)
  from Cons.IH [OF rest] execute_effect_ids [OF one] show ?case by simp
qed auto

section \<open>Properties\<close>

definition sample_core :: "memory_store runtime_core" where
  "sample_core =
     \<lparr>core_project_id = ''demo'', core_providers = [''llama'' \<mapsto> (\<lambda>c. c = ''text.generate'')],
      core_agents = [], core_endpoints = [], core_manifest = None,
      core_store = MemoryRuntimeStore_default, core_sessions = [],
      core_session_locks = Map.empty, core_invocations = InvocationRegistry_default,
      core_next_invocation = 1, core_monitor = None, core_monitor_io = None\<rparr>"

lemma sample_applicable: "applicable sample_codec sample_manifest sample_core"
  by (simp add: applicable_def sample_manifest_valid)
    (simp add: sample_manifest_def sample_core_def check_requirement_def)

lemma sample_store_saved:
  "memory_save_release sample_codec MemoryRuntimeStore_default sample_release =
    Inr (MemoryRuntimeStore_default\<lparr>ms_releases := [((''demo'', 1), sample_release)]\<rparr>)"
  using sample_release_key sample_release_valid
  by (simp add: memory_save_release_def release_key_def MemoryRuntimeStore_default_def)

lemma sample_install:
  "install_release sample_codec (memory_store_ops sample_codec) sample_release sample_core =
    (Inr (), sample_core\<lparr>core_store :=
      MemoryRuntimeStore_default\<lparr>ms_releases := [((''demo'', 1), sample_release)]\<rparr>\<rparr>)"
proof -
  have "manifest_project_id (release_manifest sample_release) = core_project_id sample_core"
    by (simp add: sample_core_def sample_release_def sample_manifest_def)
  moreover have "core_store sample_core = MemoryRuntimeStore_default"
    by (simp add: sample_core_def)
  ultimately show ?thesis
    by (simp add: install_release_def act_bind_def act_lift_def sample_release_valid
        store_write_def sample_store_saved)
qed

lemma sample_activate:
  assumes "core_store c = MemoryRuntimeStore_default\<lparr>ms_releases := [((''demo'', 1), sample_release)]\<rparr>"
    and "core_providers c = core_providers sample_core" and "core_project_id c = ''demo''"
  shows "\<exists>c'. activate_release sample_codec (memory_store_ops sample_codec) 1 c =
    (Inr sample_release, c')"
proof -
  have "applicable sample_codec (release_manifest sample_release) c"
    using sample_applicable applicable_frame [of c sample_core] assms(2,3)
    by (simp add: sample_release_def) (simp add: sample_core_def)
  then show ?thesis
    by (simp add: activate_release_Inr assms memory_load_release_def memory_set_active_release_def)
qed

lemma sample_bootstrap:
  "\<exists>c'. bootstrap_release sample_codec (memory_store_ops sample_codec) sample_manifest sample_core =
    (Inr sample_release, c')"
proof -
  let ?c1 = "sample_core\<lparr>core_store :=
    MemoryRuntimeStore_default\<lparr>ms_releases := [((''demo'', 1), sample_release)]\<rparr>\<rparr>"
  obtain c' where c': "activate_release sample_codec (memory_store_ops sample_codec) 1 ?c1 =
      (Inr sample_release, c')"
    using sample_activate [of ?c1] by (auto simp: sample_core_def)
  have active: "so_active_release (memory_store_ops sample_codec) (core_store sample_core)
      (core_project_id sample_core) = Inr None"
    by (simp add: memory_active_release_def sample_core_def MemoryRuntimeStore_default_def)
  have version: "release_version sample_release = 1" by (simp add: sample_release_def)
  show ?thesis
    unfolding bootstrap_release_Inr
    using active sample_release_new sample_install c' version by metis
qed

lemma sample_core_inv: "memory_inv c (core_store sample_core)"
  by (simp add: sample_core_def memory_inv_default)

text \<open>bootstrapping is idempotent: once a runtime on the in-memory store has bootstrapped
  to a release, bootstrapping again, with any manifest, returns that same release.
\<close>

theorem bootstrap_idempotent:
  assumes "memory_inv k (core_store c)"
    and "bootstrap_release k (memory_store_ops k) m c = (Inr r, c')"
  shows "\<exists>c''. bootstrap_release k (memory_store_ops k) m' c' = (Inr r, c'')"
  using assms by (rule memory.bootstrap_again)

theorem bootstrap_idempotent_witness:
  "\<exists>c' c''. bootstrap_release sample_codec (memory_store_ops sample_codec) sample_manifest
       sample_core = (Inr sample_release, c') \<and>
     bootstrap_release sample_codec (memory_store_ops sample_codec)
       (RuntimeManifest_new ''other'') c' = (Inr sample_release, c'')"
proof -
  obtain c' where c': "bootstrap_release sample_codec (memory_store_ops sample_codec)
      sample_manifest sample_core = (Inr sample_release, c')"
    using sample_bootstrap by blast
  from bootstrap_idempotent [OF sample_core_inv c', of "RuntimeManifest_new ''other''"] c'
  show ?thesis by blast
qed

text \<open>What an activation does on any store, lawful or not.\<close>

lemma activate_release_outcome:
  "case activate_release k ops v c of
     (Inr r, c') \<Rightarrow> so_load_release ops (core_store c) (core_project_id c) v = Inr (Some r) \<and>
       applicable k (release_manifest r) c \<and>
       (\<exists>s. so_set_active_release ops (core_store c) (core_project_id c) v = Inr s \<and>
         c' = (applied (release_manifest r) c)\<lparr>core_store := s\<rparr>)
   | (Inl e, c') \<Rightarrow> c' = c \<or>
       (\<exists>r. so_load_release ops (core_store c) (core_project_id c) v = Inr (Some r) \<and>
         applicable k (release_manifest r) c \<and>
         so_set_active_release ops (core_store c) (core_project_id c) v = Inl e \<and>
         c' = applied (release_manifest r) c)"
proof (cases "so_load_release ops (core_store c) (core_project_id c) v")
  case (Inl e)
  then show ?thesis by (simp add: activate_release_def act_bind_def store_read_def)
next
  case (Inr found)
  show ?thesis
  proof (cases found)
    case None
    with Inr show ?thesis by (simp add: activate_release_def act_bind_def store_read_def act_lift_def)
  next
    case (Some r)
    obtain result c1 where applying: "apply_manifest k (release_manifest r) c = (result, c1)" by fastforce
    show ?thesis
    proof (cases result)
      case (Inl e)
      with applying have "c1 = c" by (simp add: apply_manifest_Inl)
      with Inl Inr Some applying show ?thesis
        by (simp add: activate_release_def act_bind_def store_read_def act_lift_def)
    next
      case (Inr u)
      with applying have applied: "applicable k (release_manifest r) c" "c1 = applied (release_manifest r) c"
        by (simp_all add: apply_manifest_Inr)
      with Inr \<open>so_load_release ops (core_store c) (core_project_id c) v = Inr found\<close> Some applying
      show ?thesis
        by (cases "so_set_active_release ops (core_store c) (core_project_id c) v")
          (simp_all add: activate_release_def act_bind_def store_read_def act_lift_def store_write_def
            act_return_def)
    qed
  qed
qed

text \<open>C11: activating a release on the in-memory store is all or nothing: if it fails, the runtime
  is exactly as before; if it succeeds, the release is the loaded one of that version, it is the
  active one, and its manifest, agents and endpoints are in force. On any other store that holds
  too, with one exception: if the release is loaded and applied and only recording it as the active
  one fails, the error is returned and nothing of the store has changed, but the runtime runs the
  new release.
\<close>

theorem activation_atomic:
  assumes "memory_inv k (core_store c)"
  shows "(case activate_release k (memory_store_ops k) v c of
      (Inl e, c') \<Rightarrow> c' = c
    | (Inr r, c') \<Rightarrow>
        memory_load_release (core_store c) (core_project_id c) v = Inr (Some r) \<and>
        memory_active_release (core_store c') (core_project_id c) = Inr (Some v) \<and>
        core_manifest c' = Some (release_manifest r) \<and>
        core_agents c' = collect_map agent_id (manifest_agents (release_manifest r)) \<and>
        core_endpoints c' = collect_map endpoint_name (manifest_endpoints (release_manifest r))) \<and>
    (case activate_release k' ops w d of
      (Inl e, d') \<Rightarrow> d' = d \<or>
        (\<exists>r. so_load_release ops (core_store d) (core_project_id d) w = Inr (Some r) \<and>
          so_set_active_release ops (core_store d) (core_project_id d) w = Inl e \<and>
          d' = applied (release_manifest r) d)
    | (Inr r, d') \<Rightarrow> so_load_release ops (core_store d) (core_project_id d) w = Inr (Some r) \<and>
        so_set_active_release ops (core_store d) (core_project_id d) w = Inr (core_store d') \<and>
        d' = (applied (release_manifest r) d)\<lparr>core_store := core_store d'\<rparr>)" (is "?memory \<and> ?any")
proof
  show ?memory
  proof (cases "activate_release k (memory_store_ops k) v c")
    case (Pair result c')
    show ?thesis
    proof (cases result)
      case (Inl e)
      with Pair memory.activate_fails_clean [OF assms, of k v e c'] show ?thesis by simp
    next
      case (Inr r)
      with Pair have act: "activate_release k (memory_store_ops k) v c = (Inr r, c')" by simp
      show ?thesis
        unfolding act prod.case sum.case
        using act memory.active_after_activate(2) [OF assms act]
        by (auto simp: activate_release_Inr applied_def)
    qed
  qed
  show ?any
    using activate_release_outcome [where k = k' and ops = ops and v = w and c = d]
    by (auto split: prod.splits sum.splits)
qed

theorem activation_atomic_witness:
  "case activate_release sample_codec (memory_store_ops sample_codec) 1 sample_core of
     (Inl e, c') \<Rightarrow> c' = sample_core | (Inr r, c') \<Rightarrow> release_version r = 1"
  using conjunct1 [OF activation_atomic [of sample_codec sample_core 1, OF sample_core_inv]]
  by (simp add: activate_release_def act_defs store_read_def memory_load_release_def
      MemoryRuntimeStore_default_def sample_core_def)

text \<open>
  The exception is reached whenever a store loads the release and fails to write the active version:
  the caller is told that the activation failed, while every later invocation runs the new release.
\<close>

theorem failed_store_changes_runtime:
  assumes "so_load_release ops (core_store c) (core_project_id c) v = Inr (Some r)"
    and "applicable k (release_manifest r) c"
    and "so_set_active_release ops (core_store c) (core_project_id c) v = Inl e"
  shows "activate_release k ops v c = (Inl e, applied (release_manifest r) c) \<and>
    core_manifest (applied (release_manifest r) c) = Some (release_manifest r)"
proof -
  have "apply_manifest k (release_manifest r) c = (Inr (), applied (release_manifest r) c)"
    using assms(2) by (simp add: apply_manifest_Inr)
  with assms(1,3) show ?thesis
    by (simp add: activate_release_def act_bind_def store_read_def act_lift_def store_write_def)
qed

text \<open>a project snapshot survives: restoring an exported snapshot, in any runtime of the same
  project on the in-memory store, succeeds, gives that runtime exactly the exported sessions,
  and persists every one of them; the JSON codec is assumed to decode what it encoded.
\<close>

theorem snapshot_restore_roundtrip:
  assumes codec: "\<And>p bytes. encode_snapshot v p = Inr bytes \<Longrightarrow> \<exists>xs.
      decode_snapshot v bytes = Inr (p\<lparr>portable_sessions := xs\<rparr>) \<and> distinct (map fst xs) \<and>
      map_of xs = map_of (portable_sessions p)"
    and sessions: "distinct (map fst (core_sessions c))"
      "\<forall>x \<in> set (core_sessions c). portable_identifier (fst x)"
    and export: "export_snapshot v c = (Inr bytes, c1)"
    and project: "core_project_id d = core_project_id c"
  shows "\<exists>d'. restore_snapshot v (memory_store_ops k) bytes d = (Inr (), d') \<and>
    map_of (core_sessions d') = map_of (core_sessions c) \<and>
    (\<forall>(i, snap) \<in> set (core_sessions c).
       memory_load (core_store d') (core_project_id d) i = Inr (Some snap))"
proof -
  let ?p = "\<lparr>portable_version = SNAPSHOT_VERSION, portable_project_id = core_project_id c,
    portable_sessions = core_sessions c\<rparr>"
  from export have "encode_snapshot v ?p = Inr bytes"
    by (auto simp: export_snapshot_def split: sum.splits)
  with codec obtain xs where dec: "decode_snapshot v bytes = Inr (?p\<lparr>portable_sessions := xs\<rparr>)"
    and xs: "distinct (map fst xs)" "map_of xs = map_of (core_sessions c)"
    by fastforce
  let ?s = "(core_store d)\<lparr>ms_snapshots := fold (\<lambda>x m. m((core_project_id d, fst x) \<mapsto> snd x))
    xs (ms_snapshots (core_store d))\<rparr>"
  have "fst ` set xs = fst ` set (core_sessions c)"
    using xs(2) by (metis dom_map_of_conv_image_fst)
  then have "\<forall>x \<in> set xs. portable_identifier (fst x)"
    using sessions(2) by (metis (no_types, lifting) image_iff)
  then have "act_for_each (restore_session (memory_store_ops k)) xs d =
      (Inr (), d\<lparr>core_store := ?s\<rparr>)"
    by (simp add: restore_sessions_Inr memory_save_all)
  then have "restore_snapshot v (memory_store_ops k) bytes d =
      (Inr (), d\<lparr>core_store := ?s, core_sessions := xs\<rparr>)"
    by (simp add: restore_snapshot_def dec project act_bind_def act_lift_def act_modify_def)
  moreover have "\<forall>(i, snap) \<in> set (core_sessions c).
      memory_load ?s (core_project_id d) i = Inr (Some snap)"
    using sessions(1) xs by (auto simp: memory_load_def fold_upd_keyed)
  ultimately show ?thesis using xs(2) by (intro exI conjI) auto
qed

definition sample_snapshot :: portable_project_snapshot where
  "sample_snapshot = \<lparr>portable_version = 1, portable_project_id = ''demo'',
     portable_sessions = [(''s1'', \<lparr>snapshot_revision = 3, snapshot_state = JBool True\<rparr>)]\<rparr>"

definition sample_values :: value_codec where
  "sample_values =
     \<lparr>encode_value = (\<lambda>v. Inr (monitor_value_shape v)),
      encode_snapshot = (\<lambda>p. if p = sample_snapshot then Inr ''snap'' else Inl ''too large''),
      decode_snapshot = (\<lambda>b. if b = ''snap'' then Inr sample_snapshot else Inl ''syntax''),
      decode_input = (\<lambda>v. case v of JString e \<Rightarrow> Inr (InvocationInput_json e JNull)
        | _ \<Rightarrow> Inl ''missing field''),
      output_value = (\<lambda>out. Some (JString (output_endpoint out)))\<rparr>"

theorem snapshot_restore_roundtrip_witness:
  "\<exists>d'. restore_snapshot sample_values (memory_store_ops sample_codec) ''snap'' sample_core =
     (Inr (), d') \<and> map_of (core_sessions d') = map_of (portable_sessions sample_snapshot)"
proof -
  let ?c = "sample_core\<lparr>core_sessions := portable_sessions sample_snapshot\<rparr>"
  have codec: "\<exists>xs. decode_snapshot sample_values bytes = Inr (p\<lparr>portable_sessions := xs\<rparr>) \<and>
      distinct (map fst xs) \<and> map_of xs = map_of (portable_sessions p)"
    if "encode_snapshot sample_values p = Inr bytes" for p bytes
    using that
    by (intro exI [of _ "portable_sessions sample_snapshot"])
      (auto simp: sample_values_def sample_snapshot_def split: if_splits)
  have export: "export_snapshot sample_values ?c = (Inr ''snap'', ?c)"
    by (simp add: export_snapshot_def sample_values_def)
      (simp add: sample_snapshot_def sample_core_def SNAPSHOT_VERSION_def)
  have "distinct (map fst (core_sessions ?c))"
    "\<forall>x \<in> set (core_sessions ?c). portable_identifier (fst x)"
    "core_project_id sample_core = core_project_id ?c"
    by (simp_all add: sample_snapshot_def portable_identifier_def portable_byte_def
        is_ascii_alphanumeric_def is_ascii_alphabetic_def is_ascii_digit_def)
  from snapshot_restore_roundtrip [OF codec this(1,2) export this(3), of sample_codec]
  show ?thesis by auto
qed

text \<open>a batch of effects is answered one for one: when the batch is accepted, the results
  are those of the \<open>agent.invoke\<close> effects, in order and with their identifiers, successes and
  failures alike, and every other effect is handed back unhandled, in order.
\<close>

theorem effects_answered_in_order:
  assumes "execute_effects_with_limit v invoke effects limit st = (Inr out, st')"
  shows "map result_effect_id (execution_results out) =
      map effect_id (filter (\<lambda>e. effect_kind e = ''agent.invoke'') effects) \<and>
    execution_unhandled out = filter (\<lambda>e. effect_kind e \<noteq> ''agent.invoke'') effects \<and>
    length effects \<le> limit"
  using assms execute_effect_list_ids
    [of v invoke effects "\<lparr>execution_results = [], execution_unhandled = []\<rparr>" st out st']
  by (auto simp: execute_effects_with_limit_def split: if_splits)

definition sample_effects :: "effect_request list" where
  "sample_effects =
     [\<lparr>effect_id = ''effect-0'', effect_kind = ''agent.invoke'', effect_payload = JString ''chat''\<rparr>,
      \<lparr>effect_id = ''effect-1'', effect_kind = ''sound.play'', effect_payload = JNull\<rparr>]"

theorem effects_answered_in_order_witness:
  "\<exists>out. execute_effects sample_values (\<lambda>input st. (Inl Cancelled, st)) sample_effects
       sample_core = (Inr out, sample_core) \<and>
     map result_effect_id (execution_results out) = [''effect-0''] \<and>
     map effect_id (execution_unhandled out) = [''effect-1'']"
proof -
  let ?out = "\<lparr>execution_results = [\<lparr>result_effect_id = ''effect-0'', result_succeeded = False,
      result_output = JObject [(''error'', JString (public_message Cancelled))]\<rparr>],
    execution_unhandled = [\<lparr>effect_id = ''effect-1'', effect_kind = ''sound.play'',
      effect_payload = JNull\<rparr>]\<rparr>"
  have run: "execute_effects_with_limit sample_values (\<lambda>input st. (Inl Cancelled, st))
      sample_effects DEFAULT_EFFECT_LIMIT sample_core = (Inr ?out, sample_core)"
    by (simp add: execute_effects_with_limit_def DEFAULT_EFFECT_LIMIT_def sample_effects_def
        act_bind_def execute_effect_def sample_values_def act_return_def)
  from effects_answered_in_order [OF run] run show ?thesis
    by (auto simp: execute_effects_def sample_effects_def)
qed

text \<open>C12: whatever registry operations a host performs, failed ones included, the registered agents
  are listed each once, in identifier order, every one with a portable identifier, a provider
  name and at least one portable capability; the endpoints each once in name order, with a
  portable capability and a timeout in range.
\<close>

theorem registry_always_well_formed:
  assumes "VifuRuntime_new project = Inr c0"
  shows "\<exists>agents endpoints c.
    c = fold (run_registry_call k) calls c0 \<and>
    agent_definitions c = (Inr agents, c) \<and> endpoint_definitions c = (Inr endpoints, c) \<and>
    sorted_wrt (\<lambda>a b. agent_id a < agent_id b) agents \<and>
    sorted_wrt (\<lambda>a b. endpoint_name a < endpoint_name b) endpoints \<and>
    (\<forall>a \<in> set agents. stored_agent (agent_id a, a)) \<and>
    (\<forall>e \<in> set endpoints. stored_endpoint (endpoint_name e, e))"
proof -
  let ?c = "fold (run_registry_call k) calls c0"
  from assms have "core_wf c0" unfolding VifuRuntime_new_def by (rule core_wf_new)
  then have wf: "core_wf ?c" by (rule registry_calls_wf)
  have key: "fst x = agent_id (snd x)" if "x \<in> set (core_agents ?c)" for x
    using wf that by (auto simp: core_wf_def stored_agent_def)
  have key': "fst x = endpoint_name (snd x)" if "x \<in> set (core_endpoints ?c)" for x
    using wf that by (auto simp: core_wf_def stored_endpoint_def)
  have "distinct (map agent_id (map snd (core_agents ?c)))"
    and "distinct (map endpoint_name (map snd (core_endpoints ?c)))"
    using wf map_snd_key [of _ agent_id, OF ballI, OF key]
      map_snd_key [of _ endpoint_name, OF ballI, OF key']
    unfolding core_wf_def by presburger+
  from this [THEN sorted_wrt_sort_key] wf show ?thesis
    by (fastforce simp: agent_definitions_def endpoint_definitions_def core_wf_def
        stored_agent_def stored_endpoint_def)
qed

theorem registry_always_well_formed_witness:
  "\<exists>c0 agents c. VifuRuntime_new ''demo'' = Inr c0 \<and>
     c = fold (run_registry_call sample_codec) [UnregisterAgent ''writer''] c0 \<and>
     agent_definitions c = (Inr agents, c) \<and> sorted_wrt (\<lambda>a b. agent_id a < agent_id b) agents"
proof -
  have "portable_identifier ''demo''"
    by (simp add: portable_identifier_def portable_byte_def is_ascii_alphanumeric_def
        is_ascii_alphabetic_def)
  then obtain c0 where c0: "VifuRuntime_new ''demo'' = Inr c0"
    by (auto simp: VifuRuntime_new_def with_store_def and_then_eq_Inr)
  from registry_always_well_formed [OF c0, of sample_codec "[UnregisterAgent ''writer'']"] c0
  show ?thesis by blast
qed

end
