(* ===== verification/Runtime_Properties.thy ===== *)
theory Runtime_Properties
  imports Invoke_Runs Releases
begin

text \<open>
  Properties of every history of a runtime on the in-memory store, from the invariants of
  \<open>Invoke_Runs\<close>, with concrete histories they are evaluated on; restores of snapshots, which change the
  sessions from outside, are steps of the longer histories (\<open>runtime_history\<close>).
\<close>

section \<open>Where a history starts\<close>

definition fresh_core :: "'s runtime_core \<Rightarrow> bool" where
  "fresh_core c \<longleftrightarrow> core_sessions c = [] \<and> core_session_locks c = Map.empty \<and>
     core_invocations c = InvocationRegistry_default"

lemma fresh_core_new: "with_store project store = Inr c \<Longrightarrow> fresh_core c"
  by (auto simp: with_store_def and_then_eq_Inr fresh_core_def)

lemma fresh_work: "fresh_core c \<Longrightarrow> work_inv (system_new c)"
  by (simp add: fresh_core_def work_inv_new)

lemma fresh_sessions:
  "fresh_core c \<Longrightarrow> good (core_store c) \<Longrightarrow> sessions_inv ops good c [] (system_new c)"
  by (simp add: sessions_inv_def system_new_def fresh_core_def locks_ok_def coherent_def
      outputs_ok_start)

lemmas memory_history =
  memory.system_steps_sessions [OF _ fresh_sessions fresh_work]

section \<open>Cancelled invocations\<close>














section \<open>Histories with restores\<close>

text \<open>
  \<open>restore_snapshot\<close> takes no session lock, so a history restores a snapshot only while no invocation
  is with its provider (what happens otherwise is at the end of this theory). It starts anew there:
  \<open>runtime_history k v ops c0 c l s\<close> says that \<open>s\<close> is reached from the new runtime \<open>c0\<close>, that \<open>c\<close> is
  the core after the last restore (\<open>c0\<close> if there was none), and that \<open>l\<close> completed since.
\<close>

definition no_holder :: "'s vifu_system \<Rightarrow> bool" where
  "no_holder s \<longleftrightarrow> (\<forall>h t. sys_tasks s h = Some t \<longrightarrow> holding t = None)"

inductive runtime_history ::
    "codec \<Rightarrow> value_codec \<Rightarrow> 's store_ops \<Rightarrow> 's runtime_core \<Rightarrow> 's runtime_core \<Rightarrow> invocation_output list
      \<Rightarrow> 's vifu_system \<Rightarrow> bool"
  for k :: codec and v :: value_codec and ops :: "'s store_ops" and c0 :: "'s runtime_core" where
  created: "runtime_history k v ops c0 c0 [] (system_new c0)"
| step: "runtime_history k v ops c0 c l s \<Longrightarrow> system_step k v ops s l' s' \<Longrightarrow>
    runtime_history k v ops c0 c (l @ l') s'"
| restored: "runtime_history k v ops c0 c l s \<Longrightarrow> no_holder s \<Longrightarrow>
    restore_snapshot v ops bytes (sys_core s) = (Inr (), c') \<Longrightarrow>
    runtime_history k v ops c0 c' [] (s\<lparr>sys_core := c'\<rparr>)"

text \<open>The sessions of a decoded snapshot are a map.\<close>

definition snapshots_keyed :: "value_codec \<Rightarrow> bool" where
  "snapshots_keyed v \<longleftrightarrow>
     (\<forall>bytes p. decode_snapshot v bytes = Inr p \<longrightarrow> distinct (map fst (portable_sessions p)))"

lemma restore_sessions_saves:
  assumes "act_for_each (restore_session ops) xs c = (Inr (), c')"
  obtains s where "save_all ops (core_project_id c) xs (core_store c) = Inr s" "c' = c\<lparr>core_store := s\<rparr>"
proof -
  have "\<exists>s. save_all ops (core_project_id c) xs (core_store c) = Inr s \<and> c' = c\<lparr>core_store := s\<rparr>"
    using assms
  proof (induction xs arbitrary: c)
    case (Cons x xs)
    then show ?case
      by (force simp: save_all_def act_bind_Inr restore_session_def store_write_Inr and_then_eq_Inr)
  qed (simp add: save_all_def)
  with that show thesis by blast
qed

lemma restore_snapshot_Inr:
  assumes "restore_snapshot v ops bytes c = (Inr (), c')"
  obtains p s where "decode_snapshot v bytes = Inr p" "portable_project_id p = core_project_id c"
    and "save_all ops (core_project_id c) (portable_sessions p) (core_store c) = Inr s"
    and "c' = c\<lparr>core_store := s, core_sessions := portable_sessions p\<rparr>"
  using assms
  by (auto simp: restore_snapshot_def act_bind_Inr split: sum.splits if_splits
      elim!: restore_sessions_saves)

lemma locks_ok_unheld:
  assumes "locks_ok locks snaps T" and "\<forall>h t. T h = Some t \<longrightarrow> holding t = None"
  shows "locks_ok locks snaps' T"
  using assms unfolding locks_ok_def by (metis option.distinct(1))

context session_store
begin

lemma save_all_loads:
  assumes "inv s" and "save_all ops p xs s = Inr s'" and "distinct (map fst xs)"
  shows "inv s' \<and> (\<forall>i snap. map_of xs i = Some snap \<longrightarrow> so_load ops s' p i = Inr (Some snap))"
proof -
  have "inv s' \<and> (\<forall>q i. so_load ops s' q i = (case if q = p then map_of xs i else None of
      Some snap \<Rightarrow> Inr (Some snap) | None \<Rightarrow> so_load ops s q i))"
    using assms
  proof (induction xs arbitrary: s)
    case (Cons x xs)
    then obtain s1 where s1: "so_save ops s p (fst x) (snd x) = Inr s1" and rest: "save_all ops p xs s1 = Inr s'"
      by (auto simp: save_all_def and_then_eq_Inr)
    have "map_of xs (fst x) = None" using Cons.prems(3) by (simp add: map_of_eq_None_iff)
    with Cons.IH [OF save_inv [OF Cons.prems(1) s1] rest] Cons.prems(3) load_save [OF Cons.prems(1) s1]
    show ?case by (auto split: option.splits)
  qed (simp add: save_all_def)
  then show ?thesis by auto
qed

lemma restored_sessions:
  assumes s: "sessions_inv ops inv c0 l s" and "no_holder s" and "snapshots_keyed v"
    and "restore_snapshot v ops bytes (sys_core s) = (Inr (), c')"
  shows "sessions_inv ops inv c' [] (s\<lparr>sys_core := c'\<rparr>)"
proof -
  from restore_snapshot_Inr [OF assms(4)] obtain p st where p: "decode_snapshot v bytes = Inr p"
    and st: "save_all ops (core_project_id (sys_core s)) (portable_sessions p) (core_store (sys_core s)) = Inr st"
    and c': "c' = (sys_core s)\<lparr>core_store := st, core_sessions := portable_sessions p\<rparr>" by metis
  have "distinct (map fst (portable_sessions p))" using p assms(3) by (simp add: snapshots_keyed_def)
  note saved = save_all_loads [OF sessions_invD(1) [OF s] st this]
  have "locks_ok (core_session_locks (sys_core s)) (map_of (portable_sessions p)) (sys_tasks s)"
    using locks_ok_unheld [OF sessions_invD(2) [OF s]] assms(2) by (simp add: no_holder_def)
  with saved show ?thesis
    by (simp add: sessions_inv_def c' coherent_def durable_def outputs_ok_start)
qed

lemma runtime_history_sessions:
  assumes "runtime_history k v ops c0 c l s" and "sessions_inv ops inv c0 [] (system_new c0)"
    and "work_inv (system_new c0)" and "snapshots_keyed v"
  shows "sessions_inv ops inv c l s \<and> work_inv s"
  using assms(1)
proof (induction rule: runtime_history.induct)
  case created
  with assms(2,3) show ?case by simp
next
  case (step c l s l' s')
  then show ?case using system_step_sessions system_step_work by blast
next
  case (restored c l s bytes c')
  from restore_snapshot_Inr [OF restored(3)] obtain st xs
    where "c' = (sys_core s)\<lparr>core_store := st, core_sessions := xs\<rparr>" by metis
  with restored show ?case
    using restored_sessions [OF _ restored(2) assms(4) restored(3)]
    by (auto intro!: work_inv_frame [of s])
qed

end

lemmas memory_runtime_history =
  memory.runtime_history_sessions [OF _ fresh_sessions fresh_work]

lemma steps_history:
  "system_steps k v ops s l s' \<Longrightarrow> s = system_new c0 \<Longrightarrow> runtime_history k v ops c0 c0 l s'"
  by (induction rule: system_steps.induct)
    (auto intro: runtime_history.created runtime_history.step)

section \<open>A history to evaluate on\<close>

definition run_core :: "memory_store runtime_core" where
  "run_core = applied sample_manifest sample_core"

definition run_input :: invocation_input where
  "run_input = InvocationInput_json ''chat'' (JString ''hi'')"

definition run_task :: "task_phase \<Rightarrow> u64 \<Rightarrow> task" where
  "run_task phase now = \<lparr>task_input = run_input, task_token = 0, task_background = False,
     task_created_at_ms = now, task_forwarded = [], task_phase = phase\<rparr>"

abbreviation run_ops :: "memory_store store_ops" where
  "run_ops \<equiv> memory_store_ops sample_codec"

abbreviation run_steps ::
    "memory_store vifu_system \<Rightarrow> invocation_output list \<Rightarrow> memory_store vifu_system \<Rightarrow> bool" where
  "run_steps \<equiv> system_steps sample_codec sample_values run_ops"

definition run_s1 :: "memory_store vifu_system" where
  "run_s1 = snd (invoke_with_events_and_cancellation run_input 0 (system_new run_core))"

definition run_s2 :: "memory_store vifu_system" where
  "run_s2 = task_start sample_values run_ops ''invocation-1'' (run_task NotStarted 0) 5 0 run_s1"

definition run_s3 :: "memory_store vifu_system" where
  "run_s3 = task_locked sample_values run_ops ''invocation-1'' (run_task AwaitingLock 5) 1 run_s2"

definition run_agent :: agent_definition where
  "run_agent = hd (manifest_agents sample_manifest)"

definition run_call :: active_call where
  "run_call =
     \<lparr>call_request =
        \<lparr>request_project_id = ''demo'', request_endpoint = ''chat'',
         request_session_id = ''default'', request_agent = run_agent,
         request_capability = ''text.generate'', request_data = Json (JString ''hi''),
         request_metadata = JObject [], request_snapshot = RuntimeSnapshot_default\<rparr>,
      call_endpoint = hd (manifest_endpoints sample_manifest), call_agent = run_agent,
      call_snapshot = RuntimeSnapshot_default, call_activity = 0, call_changed = False,
      call_activity_open = True, call_trace = []\<rparr>"

definition run_ready :: readiness where
  "run_ready =
     \<lparr>ready_cancelled = False, ready_response = Some (Inr (ProviderResponse_json (JBool True))),
      ready_closed = False, ready_idle = False\<rparr>"

definition run_s4 :: "memory_store vifu_system" where
  "run_s4 = task_select sample_values run_ops ''invocation-1'' (run_task (Calling run_call) 5)
     run_call 9 run_ready run_s3"

lemma run_core_simps [simp]:
  "core_sessions run_core = []" "core_session_locks run_core = Map.empty"
  "core_next_invocation run_core = 1" "core_monitor run_core = None"
  "core_monitor_io run_core = None" "core_project_id run_core = ''demo''"
  "core_store run_core = MemoryRuntimeStore_default"
  "core_invocations run_core = InvocationRegistry_default"
  "core_providers run_core = [''llama'' \<mapsto> (\<lambda>c. c = ''text.generate'')]"
  by (simp_all add: run_core_def applied_def sample_core_def)

lemma run_core_lookups [simp]:
  "map_of (core_endpoints run_core) ''chat'' = Some (hd (manifest_endpoints sample_manifest))"
  "map_of (core_agents run_core) ''writer'' = Some run_agent"
  by (simp_all add: run_core_def applied_def collect_map_def sample_manifest_def run_agent_def)

lemma run_resources [simp]:
  "agent_id run_agent = ''writer''" "agent_provider run_agent = ''llama''"
  "agent_capabilities run_agent = [''text.generate'']"
  "endpoint_name (hd (manifest_endpoints sample_manifest)) = ''chat''"
  "endpoint_agent (hd (manifest_endpoints sample_manifest)) = ''writer''"
  "endpoint_capability (hd (manifest_endpoints sample_manifest)) = ''text.generate''"
  by (simp_all add: run_agent_def sample_manifest_def)

lemma run_input_simps [simp]:
  "input_endpoint run_input = ''chat''" "input_session_id run_input = ''default''"
  "input_data run_input = Json (JString ''hi'')" "input_metadata run_input = JObject []"
  by (simp_all add: run_input_def InvocationInput_json_def default_session_id_def empty_object_def)

lemma run_task_simps [simp]:
  "task_input (run_task p now) = run_input" "task_token (run_task p now) = 0"
  "task_background (run_task p now) = False" "task_created_at_ms (run_task p now) = now"
  "task_forwarded (run_task p now) = []" "task_phase (run_task p now) = p"
  "(run_task p now)\<lparr>task_phase := q\<rparr> = run_task q now"
  "(run_task p now)\<lparr>task_created_at_ms := m\<rparr> = run_task p m"
  by (simp_all add: run_task_def)

lemma run_input_valid:
  "validate_identifier ''endpoint'' ''chat'' = Inr ()"
  "validate_identifier ''session'' ''default'' = Inr ()"
  by (simp_all add: portable_identifier_def portable_byte_def is_ascii_alphanumeric_def
      is_ascii_alphabetic_def)

lemma run_name: "invocation_name (Suc 0) = ''invocation-1''"
  by code_simp

definition run_core2 :: "memory_store runtime_core" where
  "run_core2 = run_core\<lparr>core_next_invocation := 2, core_session_locks := [''default'' \<mapsto> None]\<rparr>"

definition run_core3 :: "memory_store runtime_core" where
  "run_core3 = run_core\<lparr>core_next_invocation := 2,
     core_session_locks := [''default'' \<mapsto> Some ''invocation-1''],
     core_sessions := [(''default'', RuntimeSnapshot_default)]\<rparr>"

lemma run_s1_eq: "run_s1 = (system_new (run_core\<lparr>core_next_invocation := 2\<rparr>))
    \<lparr>sys_tasks := [''invocation-1'' \<mapsto> run_task NotStarted 0]\<rparr>"
  by (simp add: run_s1_def invoke_with_events_and_cancellation_def next_invocation_id_eq
      system_new_def run_name new_task_def run_task_def)

lemma run_s2_eq: "run_s2 = (system_new run_core2)
    \<lparr>sys_tasks := [''invocation-1'' \<mapsto> run_task AwaitingLock 5]\<rparr>"
  by (simp add: run_s2_def run_s1_eq task_start_def system_new_def invoke_enter_def act_bind_def
      act_lift_def act_modify_def run_input_valid run_core2_def set_phase_def Let_def)

lemma run_s3_eq: "run_s3 = (system_new run_core3)
    \<lparr>sys_tasks := [''invocation-1'' \<mapsto> run_task (Calling run_call) 5]\<rparr>"
proof -
  have "invoke_begin sample_values run_ops False ''invocation-1'' (run_task AwaitingLock 5)
      (run_core\<lparr>core_next_invocation := 2,
        core_session_locks := [''default'' \<mapsto> Some ''invocation-1'']\<rparr>) = (Inr run_call, run_core3)"
    by (simp add: invoke_begin_def act_bind_def act_lift_def act_ensure_def act_modify_def
        act_return_def resolve_endpoint_def emit_monitor_event_def emit_monitor_io_event_def
        load_snapshot_def store_read_def memory_load_def MemoryRuntimeStore_default_def
        run_core3_def run_call_def)
  then show ?thesis
    by (simp add: run_s3_def run_s2_eq task_locked_def system_new_def is_cancelled_def
        set_phase_def run_core2_def Let_def)
qed

lemma run_tasks:
  "sys_tasks run_s1 ''invocation-1'' = Some (run_task NotStarted 0)"
  "sys_tasks run_s2 ''invocation-1'' = Some (run_task AwaitingLock 5)"
  "sys_tasks run_s3 ''invocation-1'' = Some (run_task (Calling run_call) 5)"
  by (simp_all add: run_s1_eq run_s2_eq run_s3_eq)

lemma run_completed:
  "\<exists>out. completed ''invocation-1'' run_s4 = [out] \<and> output_revision out = 1 \<and>
     output_session_id out = ''default''"
  by (simp add: run_s4_def task_select_def select_ready_def run_ready_def invoke_finish_def
      act_bind_def act_lift_def act_ensure_def act_modify_def act_return_def store_write_def
      memory_save_def run_s3_eq system_new_def is_cancelled_def completed_finish Let_def
      ProviderResponse_json_def run_call_def RuntimeSnapshot_default_def saturating_add_def)

lemma run_facts:
  "fresh_left (system_new run_core)"
  "lock_free (run_task AwaitingLock 5) run_s2"
  "map output_revision (completed ''invocation-1'' run_s4) = [1]"
  "map output_session_id (completed ''invocation-1'' run_s4) = [''default'']"
  "durable run_ops run_core ''default'' = Some RuntimeSnapshot_default"
  using run_completed
  by (auto simp: fresh_left_def system_new_def u64_max_def lock_free_def run_s2_eq run_core2_def
      durable_def memory_load_def MemoryRuntimeStore_default_def)

lemma run_history:
  "run_steps (system_new run_core) [] run_s1" "run_steps (system_new run_core) [] run_s2"
  "run_steps (system_new run_core) [] run_s3"
  "run_steps (system_new run_core) (completed ''invocation-1'' run_s4) run_s4"
proof -
  note phases = run_task_simps(6)
  have "system_step sample_codec sample_values run_ops (system_new run_core) [] run_s1"
    by (rule system_step.invoke [OF run_facts(1), of run_input 0 "fst
        (invoke_with_events_and_cancellation run_input 0 (system_new run_core))"])
      (simp add: run_s1_def)
  with system_steps.more [OF system_steps.none] show 1: "run_steps (system_new run_core) [] run_s1"
    by fastforce
  have "system_step sample_codec sample_values run_ops run_s1 [] run_s2"
    unfolding run_s2_def by (rule system_step.start [OF run_tasks(1) phases])
  from system_steps.more [OF 1 this] show 2: "run_steps (system_new run_core) [] run_s2" by simp
  have "system_step sample_codec sample_values run_ops run_s2 [] run_s3"
    unfolding run_s3_def by (rule system_step.locked [OF run_tasks(2) phases run_facts(2)])
  from system_steps.more [OF 2 this] show 3: "run_steps (system_new run_core) [] run_s3" by simp
  have "possible run_ready (run_task (Calling run_call) 5) run_s3"
    by (simp add: possible_def run_ready_def)
  from system_step.select [OF run_tasks(3) phases this run_s4_def] have
    "system_step sample_codec sample_values run_ops run_s3 (completed ''invocation-1'' run_s4) run_s4" .
  from system_steps.more [OF 3 this] show
    "run_steps (system_new run_core) (completed ''invocation-1'' run_s4) run_s4" by simp
qed

lemma run_start: "memory_inv sample_codec (core_store run_core)" "fresh_core run_core"
  using sample_core_inv [of sample_codec] by (simp_all add: run_core_def)
    (simp add: applied_def sample_core_def fresh_core_def)

section \<open>Properties\<close>

text \<open>C1: no update of a session is lost: in every history of invocations, time-outs, cancellations
  and dropped futures, in any interleaving, and of snapshots restored while no invocation is with
  its provider, the invocations of a session that completed since the last restore return
  revisions that follow each other one by one from the revision the store held after it (or at the
  start), and the store holds the snapshot of the last one.
\<close>

theorem session_revisions_consecutive:
  assumes "memory_inv k (core_store c0)" and "fresh_core c0" and "snapshots_keyed v"
    and "runtime_history k' v (memory_store_ops k) c0 c l s"
    and "session_outputs i l \<noteq> []"
  shows "\<exists>snap. durable (memory_store_ops k) c i = Some snap \<and>
    consecutive (snapshot_revision snap) (map output_revision (session_outputs i l)) \<and>
    durable (memory_store_ops k) (sys_core s) i =
      Some (output_snapshot (last (session_outputs i l)))"
  using sessions_invD(4) [OF conjunct1 [OF memory_runtime_history [OF assms(4,2,1,2,3)]]] assms(5)
  by (auto simp: outputs_ok_def)

theorem session_revisions_consecutive_witness:
  "\<exists>l s. runtime_history sample_codec sample_values run_ops run_core run_core l s \<and>
     map output_revision (session_outputs ''default'' l) = [1] \<and>
     consecutive 0 (map output_revision (session_outputs ''default'' l))"
proof -
  let ?l = "completed ''invocation-1'' run_s4"
  have out: "session_outputs ''default'' ?l = ?l"
    using run_facts(4) by (auto simp: session_outputs_def filter_id_conv)
  then have nonempty: "session_outputs ''default'' ?l \<noteq> []" using run_facts(3) by auto
  have keyed: "snapshots_keyed sample_values"
    by (auto simp: snapshots_keyed_def sample_values_def sample_snapshot_def split: if_splits)
  note history = steps_history [OF run_history(4) refl]
  from session_revisions_consecutive [OF run_start keyed history nonempty] run_facts(3,5) history out
  show ?thesis by (auto simp: RuntimeSnapshot_default_def)
qed

text \<open>C3: sessions are exclusive: at any time at most one invocation per session is with its
  provider (or being cleaned up after it), and the snapshot it was given is the session's
  cached and stored snapshot.
\<close>

theorem session_exclusive:
  assumes "memory_inv k (core_store c0)" and "fresh_core c0"
    and "system_steps k' v (memory_store_ops k) (system_new c0) l s"
    and "sys_tasks s g = Some t" and "holding t = Some snap"
  shows "durable (memory_store_ops k) (sys_core s) (task_session t) = Some snap \<and>
    (\<forall>h u. sys_tasks s h = Some u \<and> holding u \<noteq> None \<and> task_session u = task_session t
      \<longrightarrow> h = g)"
proof -
  note inv = sessions_invD [OF memory_history [OF assms(3,2,1,2)]]
  note mine = locks_okD(1,2) [OF inv(2) assms(4,5)]
  have "h = g" if "sys_tasks s h = Some u" "holding u = Some x" "task_session u = task_session t"
    for h u x
    using locks_okD(1) [OF inv(2) that(1,2)] mine that(3) by simp
  with mine(2) inv(3) show ?thesis by (auto simp: coherent_def)
qed

theorem session_exclusive_witness:
  "durable run_ops (sys_core run_s3) ''default'' = Some RuntimeSnapshot_default"
proof -
  have "holding (run_task (Calling run_call) 5) = Some RuntimeSnapshot_default"
    "task_session (run_task (Calling run_call) 5) = ''default''"
    by (simp_all add: run_task_def run_call_def run_input_def InvocationInput_json_def
        default_session_id_def)
  with session_exclusive [OF run_start run_history(3) run_tasks(3)] show ?thesis by auto
qed

text \<open>no invocation is forgotten: as long as the registry lists an invocation as pending or
  running, its start command is in the worker's queue, or the worker has an unfinished task
  for it.
\<close>

theorem active_invocations_have_work:
  assumes "fresh_core c0" and "system_steps k v ops (system_new c0) l s"
    and "reg_entries (core_invocations (sys_core s)) h = Some e" and "active_entry e"
  shows "h \<in> set (map start_handle (sys_queue s)) \<or>
    (\<exists>t. sys_tasks s h = Some t \<and> task_background t \<and> \<not> finished t)"
proof -
  have "work_inv s" by (rule system_steps_work [OF assms(2) fresh_work [OF assms(1)]])
  moreover have "h \<in> active_handles (core_invocations (sys_core s))"
    using assms(3,4) by (auto simp: active_handles_def)
  ultimately show ?thesis
    unfolding work_inv_def works_on_def [symmetric] by (rule work_okD(4))
qed

definition run_b1 :: "memory_store vifu_system" where
  "run_b1 = snd (start_invoke run_input (system_new run_core))"

theorem active_invocations_have_work_witness:
  "\<exists>e. reg_entries (core_invocations (sys_core run_b1)) ''invocation-1'' = Some e \<and>
     active_entry e \<and> ''invocation-1'' \<in> set (map start_handle (sys_queue run_b1))"
proof -
  have step: "system_step sample_codec sample_values run_ops (system_new run_core) [] run_b1"
    by (rule system_step.start_invoke [OF run_facts(1), of run_input
        "fst (start_invoke run_input (system_new run_core))"]) (simp add: run_b1_def)
  have steps: "run_steps (system_new run_core) [] run_b1"
    using system_steps.more [OF system_steps.none step] by simp
  have b1: "\<exists>e. reg_entries (core_invocations (sys_core run_b1)) ''invocation-1'' = Some e \<and>
      poll_status (entry_poll e) = StatusPending"
    and tasks: "sys_tasks run_b1 ''invocation-1'' = None"
    by (simp_all add: run_b1_def start_invoke_def act_bind_def act_lift_def run_input_valid
        next_invocation_id_eq run_name new_token_def system_new_def registry_insert_def
        InvocationRegistry_default_def MAX_IN_FLIGHT_INVOCATIONS_def worker_send_def
        WORKER_QUEUE_CAPACITY_def update_invocations_def Let_def)
  from b1 obtain e where e: "reg_entries (core_invocations (sys_core run_b1)) ''invocation-1'' = Some e"
    "active_entry e" by (auto simp: active_entry_def)
  have "''invocation-1'' \<in> set (map start_handle (sys_queue run_b1))"
    using active_invocations_have_work [OF run_start(2) steps e]
    unfolding tasks by (elim disjE exE conjE option.distinct(1) [THEN notE])
  with e show ?thesis by (intro exI conjI)
qed





text \<open>no invocation waits for its session for ever: whenever an invocation waits for the
  session's lock, the lock is free or can become free by steps of the runtime alone (the idle
  deadline of the invocation that holds it and the end of its grace period), the waiting
  invocation unchanged; so there is no deadlock and no lock without a holder.
\<close>

theorem waiting_can_proceed:
  assumes "memory_inv k (core_store c0)" and "fresh_core c0"
    and "system_steps k' v (memory_store_ops k) (system_new c0) l s"
    and "sys_tasks s h = Some t" and "task_phase t = AwaitingLock"
  shows "\<exists>l' s'. system_steps k' v (memory_store_ops k) s l' s' \<and>
    sys_tasks s' h = Some t \<and> lock_free t s'"
proof -
  note locks = sessions_invD(2) [OF memory_history [OF assms(3,2,1,2)]]
  obtain holder where lock: "core_session_locks (sys_core s) (task_session t) = Some holder"
    using locks_okD(4) [OF locks assms(4,5)] by blast
  show ?thesis
  proof (cases holder)
    case None
    with lock assms(4) show ?thesis
      by (intro exI [of _ "[]"] exI [of _ s] conjI) (simp_all add: lock_free_def system_steps.none)
  next
    case (Some g)
    with locks_okD(3) [OF locks] lock obtain u where u: "sys_tasks s g = Some u"
      "task_session u = task_session t" "holding u \<noteq> None" by blast
    then have "g \<noteq> h" using assms(4,5) by auto
    from holder_frees [OF u(1,3)] lock Some u(2) obtain l' s' where
      "system_steps k' v (memory_store_ops k) s l' s'" "frees s g (task_session t) s'" by metis
    with \<open>g \<noteq> h\<close> assms(4) show ?thesis
      by (intro exI [of _ l'] exI [of _ s'] conjI) (auto simp: frees_def lock_free_def)
  qed
qed

text \<open>A second invocation of the session, started while the first is with its provider.\<close>

definition run_s5 :: "memory_store vifu_system" where
  "run_s5 = snd (invoke_with_events_and_cancellation run_input 0 run_s3)"

definition run_s6 :: "memory_store vifu_system" where
  "run_s6 = task_start sample_values run_ops ''invocation-2'' (run_task NotStarted 0) 7 0 run_s5"

lemma run_name2: "invocation_name 2 = ''invocation-2''"
  by code_simp

lemma run_s5_task: "sys_tasks run_s5 ''invocation-2'' = Some (run_task NotStarted 0)"
  by (simp add: run_s5_def invoke_with_events_and_cancellation_def next_invocation_id_eq
      run_s3_eq run_core3_def system_new_def run_name2 new_task_def run_task_def)

lemma run_s6_task: "sys_tasks run_s6 ''invocation-2'' = Some (run_task AwaitingLock 7)"
  by (simp add: run_s6_def task_start_def invoke_enter_def act_bind_def
      act_lift_def act_modify_def run_input_valid set_phase_def Let_def)

lemma run_history6: "run_steps (system_new run_core) [] run_s6"
proof -
  have left: "fresh_left run_s3"
    by (simp add: fresh_left_def run_s3_eq run_core3_def system_new_def u64_max_def)
  have "system_step sample_codec sample_values run_ops run_s3 [] run_s5"
    by (rule system_step.invoke [OF left, of run_input 0
        "fst (invoke_with_events_and_cancellation run_input 0 run_s3)"]) (simp add: run_s5_def)
  from system_steps.more [OF run_history(3) this]
  have 5: "run_steps (system_new run_core) [] run_s5" by simp
  have "system_step sample_codec sample_values run_ops run_s5 [] run_s6"
    unfolding run_s6_def by (rule system_step.start [OF run_s5_task run_task_simps(6)])
  from system_steps.more [OF 5 this] show ?thesis by simp
qed

theorem waiting_can_proceed_witness:
  "\<exists>l s'. run_steps run_s6 l s' \<and> sys_tasks s' ''invocation-2'' = Some (run_task AwaitingLock 7) \<and>
     lock_free (run_task AwaitingLock 7) s'"
  by (rule waiting_can_proceed [OF run_start run_history6 run_s6_task run_task_simps(6)])

section \<open>Restoring a snapshot beside running invocations\<close>

text \<open>
  \<open>restore_snapshot\<close> does not take the session locks: an invocation that was with its provider
  overwrites the restored session with the successor of the snapshot it started from.
\<close>

definition restored_snapshot :: portable_project_snapshot where
  "restored_snapshot = \<lparr>portable_version = 1, portable_project_id = ''demo'',
     portable_sessions = [(''default'', \<lparr>snapshot_revision = 7, snapshot_state = JNull\<rparr>)]\<rparr>"

definition restored_values :: value_codec where
  "restored_values = sample_values\<lparr>decode_snapshot := \<lambda>b. Inr restored_snapshot\<rparr>"

definition run_restored :: "memory_store runtime_core" where
  "run_restored = snd (restore_snapshot restored_values run_ops ''bytes'' run_core3)"

theorem restore_lost_to_running_invocation:
  "map_option snapshot_revision (durable run_ops run_restored ''default'') = Some 7 \<and>
   (case invoke_finish run_ops False ''invocation-1'' (run_task (Calling run_call) 5) run_call 9
      (Inr (ProviderResponse_json JNull)) run_restored of
    (r, c) \<Rightarrow> map_option snapshot_revision (durable run_ops c ''default'') = Some 1)"
  by (simp add: run_restored_def restore_snapshot_def restored_values_def restored_snapshot_def
      act_bind_def act_lift_def act_modify_def act_ensure_def act_return_def restore_session_def
      run_input_valid SNAPSHOT_VERSION_def run_core3_def store_write_def memory_save_def durable_def
      memory_load_def MemoryRuntimeStore_default_def invoke_finish_def Let_def run_call_def
      RuntimeSnapshot_default_def saturating_add_def)

text \<open>
  A snapshot with an invalid session identifier is refused, but the sessions before it are
  persisted already, so the store and the cache disagree.
\<close>

definition broken_values :: value_codec where
  "broken_values = sample_values\<lparr>decode_snapshot := \<lambda>b. Inr (restored_snapshot
     \<lparr>portable_sessions := portable_sessions restored_snapshot @
       [(''a b'', RuntimeSnapshot_default)]\<rparr>)\<rparr>"

lemma broken_session: "validate_identifier ''session'' ''a b'' =
    Inl (InvalidDefinition ''session must be a portable identifier'')"
  by (simp add: validate_identifier_def is_ascii_alphanumeric_def is_ascii_alphabetic_def
      is_ascii_digit_def)

theorem restore_failure_persists_prefix:
  "case restore_snapshot broken_values run_ops ''bytes'' run_core3 of
   (r, c) \<Rightarrow> r = Inl (InvalidDefinition ''session must be a portable identifier'') \<and>
     map_option snapshot_revision (durable run_ops c ''default'') = Some 7 \<and>
     map_option snapshot_revision (map_of (core_sessions c) ''default'') = Some 0"
  by (simp add: restore_snapshot_def broken_values_def restored_snapshot_def
      act_bind_def act_lift_def act_modify_def act_ensure_def act_return_def restore_session_def
      run_input_valid broken_session SNAPSHOT_VERSION_def run_core3_def
      store_write_def memory_save_def durable_def
      memory_load_def MemoryRuntimeStore_default_def RuntimeSnapshot_default_def)

end
