(* ===== verification/Cancellation_Token.thy ===== *)
theory Cancellation_Token
  imports Prelude
begin

text \<open>
  \<open>CancellationToken\<close> of \<open>crates/vifu-runtime/src/application.rs\<close> at the level of its atomic
  operations: an \<open>AtomicBool\<close> and a \<open>tokio::sync::Notify\<close>, shared by threads that call
  \<open>cancel\<close> and tasks that await \<open>cancelled\<close>. \<open>notify_waiters\<close> wakes the \<open>notified()\<close> futures
  that exist when it is called and leaves no permit for later ones, as documented. Elsewhere the
  development uses the token as a flag a waiting future may or may not have noticed; this theory
  says when it is noticed.
\<close>

datatype waiter =
    NotWaiting
  | SawNotCancelled     \<comment> \<open>\<open>is_cancelled()\<close> returned false, \<open>notified()\<close> not called yet\<close>
  | Registered          \<comment> \<open>the \<open>notified()\<close> future exists\<close>
  | Woken

datatype canceller = NotCancelling | Swapped | CancelDone

record token_state =
  cancelled_flag :: bool
  waiters :: "nat \<Rightarrow> waiter"
  cancellers :: "nat \<Rightarrow> canceller"

definition token_default :: token_state where
  "token_default = \<lparr>cancelled_flag = False, waiters = (\<lambda>_. NotWaiting),
     cancellers = (\<lambda>_. NotCancelling)\<rparr>"

definition token_is_cancelled :: "token_state \<Rightarrow> bool" where
  "token_is_cancelled s = cancelled_flag s"

text \<open>\<open>if !self.cancelled.swap(true)\<close>, then \<open>notify_waiters()\<close>: two atomic steps.\<close>

definition cancel_swap :: "nat \<Rightarrow> token_state \<Rightarrow> token_state" where
  "cancel_swap c s =
     s\<lparr>cancelled_flag := True,
       cancellers := (cancellers s)(c := if cancelled_flag s then CancelDone else Swapped)\<rparr>"

definition notify_waiters :: "(nat \<Rightarrow> waiter) \<Rightarrow> nat \<Rightarrow> waiter" where
  "notify_waiters ws = (\<lambda>w. if ws w = Registered then Woken else ws w)"

definition cancel_notify :: "nat \<Rightarrow> token_state \<Rightarrow> token_state" where
  "cancel_notify c s =
     s\<lparr>waiters := notify_waiters (waiters s), cancellers := (cancellers s)(c := CancelDone)\<rparr>"

text \<open>\<open>cancelled().await\<close>: the check, then the future.\<close>

definition cancelled_check :: "nat \<Rightarrow> token_state \<Rightarrow> token_state" where
  "cancelled_check w s =
     s\<lparr>waiters := (waiters s)(w := if token_is_cancelled s then Woken else SawNotCancelled)\<rparr>"

definition cancelled_register :: "nat \<Rightarrow> token_state \<Rightarrow> token_state" where
  "cancelled_register w s = s\<lparr>waiters := (waiters s)(w := Registered)\<rparr>"

inductive token_step :: "token_state \<Rightarrow> token_state \<Rightarrow> bool" where
  swap: "cancellers s c = NotCancelling \<Longrightarrow> token_step s (cancel_swap c s)"
| notify: "cancellers s c = Swapped \<Longrightarrow> token_step s (cancel_notify c s)"
| check: "waiters s w = NotWaiting \<Longrightarrow> token_step s (cancelled_check w s)"
| register: "waiters s w = SawNotCancelled \<Longrightarrow> token_step s (cancelled_register w s)"

inductive_simps token_step_iff: "token_step s s'"

lemmas token_defs =
  cancel_swap_def cancel_notify_def cancelled_check_def cancelled_register_def
  notify_waiters_def token_is_cancelled_def

section \<open>What holds in every reachable state\<close>

text \<open>The token is cancelled from the first swap on; at most one canceller is to notify.\<close>

definition token_inv :: "token_state \<Rightarrow> bool" where
  "token_inv s \<longleftrightarrow>
     (\<forall>c. cancellers s c \<noteq> NotCancelling \<longrightarrow> cancelled_flag s) \<and>
     (\<forall>c d. cancellers s c = Swapped \<longrightarrow> cancellers s d = Swapped \<longrightarrow> c = d) \<and>
     (\<forall>w. waiters s w = Woken \<longrightarrow> cancelled_flag s)"

lemma token_inv_default: "token_inv token_default"
  by (simp add: token_inv_def token_default_def)

lemma token_step_inv: "token_step s s' \<Longrightarrow> token_inv s \<Longrightarrow> token_inv s'"
  by (induction rule: token_step.induct) (auto simp: token_inv_def token_defs split: if_splits)

lemma token_steps_inv: "token_step\<^sup>*\<^sup>* s s' \<Longrightarrow> token_inv s \<Longrightarrow> token_inv s'"
  by (induction rule: rtranclp_induct) (auto intro: token_step_inv)

text \<open>
  A future that exists before the token is cancelled stays registered until it is woken, and
  once cancellation is over it is woken.
\<close>

definition noticed :: "nat \<Rightarrow> token_state \<Rightarrow> bool" where
  "noticed w s \<longleftrightarrow> token_inv s \<and>
     (waiters s w = Woken \<or>
      waiters s w = Registered \<and> (\<not> cancelled_flag s \<or> (\<exists>c. cancellers s c = Swapped)))"

lemma noticed_step:
  assumes "token_step s s'" and "noticed w s"
  shows "noticed w s'"
proof -
  from assms(2) have n: "waiters s w = Woken \<or>
      waiters s w = Registered \<and> (\<not> cancelled_flag s \<or> (\<exists>c. cancellers s c = Swapped))"
    by (simp add: noticed_def)
  have "waiters s' w = Woken \<or>
      waiters s' w = Registered \<and> (\<not> cancelled_flag s' \<or> (\<exists>c. cancellers s' c = Swapped))"
    using assms(1)
  proof cases
    case (swap c)
    have "cancellers s' d = Swapped" if "cancellers s d = Swapped" for d
      using that swap by (auto simp: token_defs)
    moreover have "cancellers s' c = Swapped" if "\<not> cancelled_flag s"
      using that swap by (simp add: token_defs)
    moreover have "waiters s' = waiters s" using swap by (simp add: token_defs)
    ultimately show ?thesis using n by metis
  next
    case (notify c)
    with n show ?thesis by (auto simp: token_defs)
  next
    case (check v)
    with n show ?thesis by (auto simp: token_defs)
  next
    case (register v)
    with n show ?thesis by (auto simp: token_defs)
  qed
  moreover have "token_inv s'"
    using assms token_step_inv by (auto simp: noticed_def)
  ultimately show ?thesis by (simp add: noticed_def)
qed

lemma noticed_steps: "token_step\<^sup>*\<^sup>* s s' \<Longrightarrow> noticed w s \<Longrightarrow> noticed w s'"
  by (induction rule: rtranclp_induct) (auto intro: noticed_step)

definition stranded :: "nat \<Rightarrow> token_state \<Rightarrow> bool" where
  "stranded w s \<longleftrightarrow> token_inv s \<and> waiters s w = Registered \<and> cancelled_flag s \<and>
     (\<forall>c. cancellers s c \<noteq> Swapped)"

lemma stranded_step: "token_step s s' \<Longrightarrow> stranded w s \<Longrightarrow> stranded w s'"
  unfolding stranded_def
  by (auto dest: token_step_inv)
    (auto simp: token_step_iff token_defs split: if_splits)

lemma stranded_steps: "token_step\<^sup>*\<^sup>* s s' \<Longrightarrow> stranded w s \<Longrightarrow> stranded w s'"
  by (induction rule: rtranclp_induct) (auto intro: stranded_step)

section \<open>Properties\<close>

definition token_registered :: token_state where
  "token_registered = cancelled_register 0 (cancelled_check 0 token_default)"

lemma token_registered_reachable: "token_step\<^sup>*\<^sup>* token_default token_registered"
proof -
  have "token_step token_default (cancelled_check 0 token_default)"
    by (rule token_step.check) (simp add: token_default_def)
  moreover have "token_step (cancelled_check 0 token_default) token_registered"
    unfolding token_registered_def
    by (rule token_step.register) (simp add: token_defs token_default_def)
  ultimately show ?thesis by simp
qed

text \<open>a task whose \<open>cancelled()\<close> future exists before the token is cancelled is woken: in every
  later state, once some \<open>cancel\<close> was called and no canceller is between its swap and its
  notification, the future is ready.
\<close>

theorem waiting_future_woken:
  assumes "token_step\<^sup>*\<^sup>* token_default s" and "waiters s w = Registered" and "\<not> cancelled_flag s"
    and "token_step\<^sup>*\<^sup>* s s'" and "cancelled_flag s'" and "\<forall>c. cancellers s' c \<noteq> Swapped"
  shows "waiters s' w = Woken"
proof -
  have "noticed w s"
    using assms(2,3) token_steps_inv [OF assms(1) token_inv_default] by (simp add: noticed_def)
  from noticed_steps [OF assms(4) this] assms(5,6) show ?thesis by (auto simp: noticed_def)
qed

theorem waiting_future_woken_witness:
  "waiters (cancel_notify 3 (cancel_swap 3 token_registered)) 0 = Woken"
proof -
  let ?s' = "cancel_notify 3 (cancel_swap 3 token_registered)"
  have s: "waiters token_registered 0 = Registered" "\<not> cancelled_flag token_registered"
    by (simp_all add: token_registered_def token_defs token_default_def)
  have "token_step token_registered (cancel_swap 3 token_registered)"
    by (rule token_step.swap) (simp add: token_registered_def token_defs token_default_def)
  moreover have "token_step (cancel_swap 3 token_registered) ?s'"
    by (rule token_step.notify) (simp add: token_registered_def token_defs token_default_def)
  ultimately have steps: "token_step\<^sup>*\<^sup>* token_registered ?s'" by simp
  have "cancelled_flag ?s'" "\<forall>c. cancellers ?s' c \<noteq> Swapped"
    by (simp_all add: token_registered_def token_defs token_default_def)
  from waiting_future_woken [OF token_registered_reachable s steps this] show ?thesis .
qed

text \<open>the wake-up is lost when \<open>cancel\<close> runs between the check and the future of \<open>cancelled()\<close>:
  there is a reachable state in which the token is cancelled, and whatever happens next the
  task's future is never ready. (The runtime's wait makes a new future each round, so it notices
  at the next provider event or at its idle deadline.)
\<close>

theorem wakeup_can_be_lost:
  "\<exists>s. token_step\<^sup>*\<^sup>* token_default s \<and> token_is_cancelled s \<and>
     \<not> (\<exists>s'. token_step\<^sup>*\<^sup>* s s' \<and> waiters s' 0 \<noteq> Registered)"
proof -
  let ?s1 = "cancelled_check 0 token_default"
  let ?s2 = "cancel_swap 0 ?s1"
  let ?s3 = "cancel_notify 0 ?s2"
  let ?s4 = "cancelled_register 0 ?s3"
  note defs = token_defs token_default_def
  have "token_step token_default ?s1" by (rule token_step.check) (simp add: defs)
  moreover have "token_step ?s1 ?s2" by (rule token_step.swap) (simp add: defs)
  moreover have "token_step ?s2 ?s3" by (rule token_step.notify) (simp add: defs)
  moreover have "token_step ?s3 ?s4" by (rule token_step.register) (simp add: defs)
  ultimately have reach: "token_step\<^sup>*\<^sup>* token_default ?s4"
    by (meson converse_rtranclp_into_rtranclp rtranclp.rtrancl_refl)
  then have "stranded 0 ?s4"
    using token_steps_inv [OF reach token_inv_default] by (simp add: stranded_def defs)
  then have "\<not> (\<exists>s'. token_step\<^sup>*\<^sup>* ?s4 s' \<and> waiters s' 0 \<noteq> Registered)"
    using stranded_steps by (blast dest: stranded_def [THEN iffD1])
  moreover have "token_is_cancelled ?s4" by (simp add: defs)
  ultimately show ?thesis using reach by blast
qed

end
