(* ===== verification/Redaction.thy ===== *)
theory Redaction
  imports Json
begin

text \<open>
  \<open>crates/vifu-server/src/trace_redaction.rs\<close>: what is removed from trace payloads and error
  texts before they are stored. Strings are UTF-8 bytes; the functions that work on characters
  go through \<open>utf8_chars\<close>.
\<close>

definition MAX_REDACTION_DEPTH :: nat where "MAX_REDACTION_DEPTH = 32"

definition MAX_TRACE_TEXT_CHARS :: nat where "MAX_TRACE_TEXT_CHARS = 512"

definition normalized_key :: "string \<Rightarrow> string" where
  "normalized_key key = map ascii_lower (filter is_ascii_alphanumeric key)"

definition sensitive_names :: "string list" where
  "sensitive_names =
     [''authorization'', ''apikey'', ''accesstoken'', ''refreshtoken'', ''token'', ''secret'',
      ''password'', ''credential'', ''cookie'', ''session'', ''sessionid'']"

definition sensitive_key :: "string \<Rightarrow> bool" where
  "sensitive_key key \<longleftrightarrow> list_ex (\<lambda>candidate.
     normalized_key key = candidate \<or> ends_with (normalized_key key) candidate) sensitive_names"

definition sensitive_markers :: "string list" where
  "sensitive_markers =
     [''authorization:'', ''authorization='', ''api_key='', ''api-key='', ''apikey='',
      ''access_token='', ''access token:'', ''token='', ''token:'', ''secret='', ''secret:'',
      ''password='', ''password:'', ''credential='', ''credential:'', ''cookie='', ''cookie:'',
      ''session='', ''session:'', ''vifu_pk_'', ''vifu_gw_'']"

definition contains_sensitive_trace_text :: "string \<Rightarrow> bool" where
  "contains_sensitive_trace_text v \<longleftrightarrow>
     (let lower = to_ascii_lowercase (trim v)
      in starts_with lower ''data:'' \<or> starts_with lower ''bearer '' \<or>
         starts_with lower ''basic '' \<or> list_ex (str_contains lower) sensitive_markers)"

definition redacted_text :: json where "redacted_text = JString ''[REDACTED]''"

definition redacted_value :: json where "redacted_value = JString ''[REDACTED sensitive value]''"

definition redacted_deep :: json where "redacted_deep = JString ''[REDACTED deep value]''"

fun redact :: "json \<Rightarrow> nat \<Rightarrow> json" where
  "redact v depth =
     (if MAX_REDACTION_DEPTH \<le> depth then redacted_deep
      else case v of
        JObject kvs \<Rightarrow> JObject (map (\<lambda>(k, x).
          (k, if sensitive_key k then redacted_text else redact x (depth + 1))) kvs)
      | JArray vs \<Rightarrow> JArray (map (\<lambda>x. redact x (depth + 1)) vs)
      | JString s \<Rightarrow> if contains_sensitive_trace_text s then redacted_value else v
      | _ \<Rightarrow> v)"

declare redact.simps [simp del]

definition redact_trace_value :: "json \<Rightarrow> json" where
  "redact_trace_value v = redact v 0"

definition redact_trace_text :: "string \<Rightarrow> string" where
  "redact_trace_text v =
     (if contains_sensitive_trace_text v then ''[REDACTED sensitive trace error]''
      else concat (take MAX_TRACE_TEXT_CHARS
        (filter (\<lambda>ch. \<not> is_control ch \<or> ch = [CHR 0x0A] \<or> ch = [CHR 0x09]) (utf8_chars v))))"

section \<open>What redaction guarantees\<close>

text \<open>
  A clean value: sensitive keys have the marker, and no string anywhere reads like a credential.
\<close>

fun clean :: "json \<Rightarrow> bool" where
  "clean (JObject kvs) = list_all (\<lambda>(k, v).
     if sensitive_key k then v = redacted_text else clean v) kvs"
| "clean (JArray vs) = list_all clean vs"
| "clean (JString s) = (\<not> contains_sensitive_trace_text s)"
| "clean _ = True"

text \<open>Levels of nesting: a scalar has one.\<close>

fun json_depth :: "json \<Rightarrow> nat" where
  "json_depth (JObject kvs) = Suc (fold max (map (\<lambda>(k, v). json_depth v) kvs) 0)"
| "json_depth (JArray vs) = Suc (fold max (map json_depth vs) 0)"
| "json_depth _ = 1"

lemma fold_max_le: "fold max (ns :: nat list) m \<le> d \<longleftrightarrow> m \<le> d \<and> (\<forall>n \<in> set ns. n \<le> d)"
  by (induction ns arbitrary: m) auto

lemma markers_clean: "clean redacted_text" "clean redacted_value" "clean redacted_deep"
  by code_simp+

lemma redact_shallow:
  assumes "depth < MAX_REDACTION_DEPTH"
  shows "redact (JObject kvs) depth = JObject (map (\<lambda>(k, x).
      (k, if sensitive_key k then redacted_text else redact x (depth + 1))) kvs)"
    and "redact (JArray vs) depth = JArray (map (\<lambda>x. redact x (depth + 1)) vs)"
    and "redact (JString s) depth =
      (if contains_sensitive_trace_text s then redacted_value else JString s)"
    and "redact JNull depth = JNull" "redact (JBool b) depth = JBool b"
      "redact (JNumber n) depth = JNumber n"
  using assms by (simp_all add: redact.simps)

lemma redact_deep: "MAX_REDACTION_DEPTH \<le> depth \<Longrightarrow> redact v depth = redacted_deep"
  by (simp add: redact.simps)

lemma redact_leaf:
  "redact JNull depth = (if depth < MAX_REDACTION_DEPTH then JNull else redacted_deep)"
  "redact (JBool b) depth = (if depth < MAX_REDACTION_DEPTH then JBool b else redacted_deep)"
  "redact (JNumber n) depth = (if depth < MAX_REDACTION_DEPTH then JNumber n else redacted_deep)"
  "redact (JString s) depth = (if depth < MAX_REDACTION_DEPTH then
      if contains_sensitive_trace_text s then redacted_value else JString s else redacted_deep)"
  by (simp_all add: redact_shallow redact_deep)

lemma redact_clean: "clean (redact v depth)"
proof (induction v arbitrary: depth)
  case (JArray vs)
  then show ?case
    by (cases "depth < MAX_REDACTION_DEPTH")
      (auto simp: redact_shallow redact_deep markers_clean list_all_iff)
next
  case (JObject kvs)
  then show ?case
    by (cases "depth < MAX_REDACTION_DEPTH")
      (auto simp: redact_shallow redact_deep markers_clean list_all_iff)
qed (simp_all add: redact_leaf markers_clean)

lemma redact_depth: "json_depth (redact v depth) \<le> Suc (MAX_REDACTION_DEPTH - depth)"
proof (induction v arbitrary: depth)
  case (JArray vs)
  have "json_depth (redact x (Suc depth)) \<le> MAX_REDACTION_DEPTH - depth"
    if "x \<in> set vs" "depth < MAX_REDACTION_DEPTH" for x
    using JArray [OF that(1), of "Suc depth"] that(2) by linarith
  then show ?case
    by (cases "depth < MAX_REDACTION_DEPTH")
      (auto simp: redact_shallow redact_deep fold_max_le redacted_deep_def)
next
  case (JObject kvs)
  have "json_depth (redact x (Suc depth)) \<le> MAX_REDACTION_DEPTH - depth"
    if "(k, x) \<in> set kvs" "depth < MAX_REDACTION_DEPTH" for k x
    using JObject [OF that(1), of x "Suc depth"] that(2) by auto
  then show ?case
    by (cases "depth < MAX_REDACTION_DEPTH")
      (auto simp: redact_shallow redact_deep fold_max_le redacted_deep_def redacted_text_def)
qed (simp_all add: redact_leaf redacted_deep_def redacted_value_def)

lemma redact_clean_id:
  assumes "clean v" and "json_depth v + depth \<le> MAX_REDACTION_DEPTH"
  shows "redact v depth = v"
  using assms
proof (induction v arbitrary: depth)
  case (JArray vs)
  have "depth < MAX_REDACTION_DEPTH" using JArray.prems(2) by simp
  moreover have "redact x (Suc depth) = x" if "x \<in> set vs" for x
  proof (rule JArray.IH [OF that])
    show "clean x" using JArray.prems(1) that by (simp add: list_all_iff)
    have "json_depth x \<le> fold max (map json_depth vs) 0"
      using that fold_max_le [of "map json_depth vs" 0 "fold max (map json_depth vs) 0"] by auto
    with JArray.prems(2) show "json_depth x + Suc depth \<le> MAX_REDACTION_DEPTH" by simp
  qed
  ultimately show ?case by (auto simp: redact_shallow intro!: map_idI)
next
  case (JObject kvs)
  have "depth < MAX_REDACTION_DEPTH" using JObject.prems(2) by simp
  moreover have "redact x (Suc depth) = x" if "(k, x) \<in> set kvs" "\<not> sensitive_key k" for k x
  proof (rule JObject.IH [OF that(1)])
    let ?ns = "map (\<lambda>(k, v). json_depth v) kvs"
    show "x \<in> Basic_BNFs.snds (k, x)" by simp
    show "clean x" using JObject.prems(1) that by (auto simp: list_all_iff)
    have "json_depth x \<in> set ?ns" using that(1) by force
    then have "json_depth x \<le> fold max ?ns 0"
      using fold_max_le [of ?ns 0 "fold max ?ns 0"] by auto
    with JObject.prems(2) show "json_depth x + Suc depth \<le> MAX_REDACTION_DEPTH" by simp
  qed
  ultimately show ?case
    using JObject.prems(1) by (auto simp: redact_shallow list_all_iff intro!: map_idI)
qed (simp_all add: redact_shallow)

lemma redact_idem: "redact (redact v depth) depth = redact v depth"
proof (induction v arbitrary: depth)
  case (JArray vs)
  then show ?case
    by (cases "depth < MAX_REDACTION_DEPTH") (simp_all add: redact_shallow redact_deep)
next
  case (JObject kvs)
  then show ?case
    by (cases "depth < MAX_REDACTION_DEPTH") (auto simp: redact_shallow redact_deep)
next
  case (JString s)
  have "\<not> contains_sensitive_trace_text ''[REDACTED sensitive value]''"
    using markers_clean(2) by (simp add: redacted_value_def)
  then show ?case by (simp add: redact_leaf redacted_value_def redacted_deep_def redact_deep)
qed (simp_all add: redact_leaf redact_deep)

section \<open>Texts\<close>

text \<open>
  The characters of a string: every one but the last has the length its first byte announces.
\<close>

fun chars_ok :: "string list \<Rightarrow> bool" where
  "chars_ok [] = True"
| "chars_ok [c] = (c \<noteq> [] \<and> length c \<le> utf8_len (hd c))"
| "chars_ok (c # d # cs) = (c \<noteq> [] \<and> length c = utf8_len (hd c) \<and> chars_ok (d # cs))"

lemma utf8_len_pos: "0 < utf8_len c"
  by (simp add: utf8_len_def)

lemma chars_ok_weak: "chars_ok (c # cs) \<Longrightarrow> c \<noteq> [] \<and> length c \<le> utf8_len (hd c) \<and> chars_ok cs"
  by (cases cs) auto

lemma chars_ok_utf8: "chars_ok (utf8_chars s)"
proof (induction s rule: utf8_chars.induct)
  case (2 c cs)
  let ?n = "utf8_len c - 1"
  have n: "Suc ?n = utf8_len c" using utf8_len_pos [of c] by simp
  show ?case
  proof (cases "utf8_chars (drop ?n cs)")
    case Nil
    with n show ?thesis by simp
  next
    case (Cons d ds)
    then have "drop ?n cs \<noteq> []" by (cases "drop ?n cs") auto
    then have "length (take ?n cs) = ?n" by simp
    with 2 Cons n show ?thesis by (simp del: length_take)
  qed
qed simp

lemma chars_ok_Cons:
  assumes "chars_ok (c # cs)" and "chars_ok ds" and "ds \<noteq> [] \<Longrightarrow> cs \<noteq> []"
  shows "chars_ok (c # ds)"
proof (cases ds)
  case Nil
  with chars_ok_weak [OF assms(1)] show ?thesis by simp
next
  case (Cons d ds')
  with assms(3) obtain x xs where "cs = x # xs" by (cases cs) auto
  with Cons assms(1,2) show ?thesis by simp
qed

lemma chars_ok_filter: "chars_ok cs \<Longrightarrow> chars_ok (filter P cs)"
proof (induction cs)
  case (Cons c cs)
  then have "chars_ok (filter P cs)" using chars_ok_weak by blast
  with chars_ok_Cons [OF Cons.prems this] show ?case by (cases cs) auto
qed simp

lemma chars_ok_take: "chars_ok cs \<Longrightarrow> chars_ok (take n cs)"
proof (induction cs arbitrary: n)
  case (Cons c cs)
  have "chars_ok (take (n - 1) cs)" using Cons chars_ok_weak by blast
  with chars_ok_Cons [OF Cons.prems this] show ?case by (cases n; cases cs) auto
qed simp

lemma utf8_chars_concat: "chars_ok cs \<Longrightarrow> utf8_chars (concat cs) = cs"
proof (induction cs)
  case (Cons c cs)
  note c = chars_ok_weak [OF Cons.prems]
  then obtain b bs where b: "c = b # bs" by (cases c) auto
  with c have len: "length bs \<le> utf8_len b - 1" by auto
  show ?case
  proof (cases cs)
    case Nil
    with b len show ?thesis by simp
  next
    case (Cons d ds)
    with Cons.prems b have "utf8_len b - 1 = length bs" by auto
    with b c Cons.IH show ?thesis by simp
  qed
qed simp

definition plain_char :: "string \<Rightarrow> bool" where
  "plain_char ch \<longleftrightarrow> \<not> is_control ch \<or> ch = [CHR 0x0A] \<or> ch = [CHR 0x09]"

lemma marker_plain:
  "length (utf8_chars ''[REDACTED sensitive trace error]'') \<le> MAX_TRACE_TEXT_CHARS"
  "list_all plain_char (utf8_chars ''[REDACTED sensitive trace error]'')"
  by code_simp+

section \<open>Properties\<close>

text \<open>C6: a redacted trace value has no credentials: every value under a sensitive key is the
  marker, no string at any depth reads like a credential, and the value nests at most 33 levels
  deep however deep the original was.
\<close>

theorem redaction_removes_credentials:
  "clean (redact_trace_value v) \<and> json_depth (redact_trace_value v) \<le> 33"
  using redact_clean [of v 0] redact_depth [of v 0]
  by (simp add: redact_trace_value_def MAX_REDACTION_DEPTH_def)

text \<open>redacting a value again changes nothing.\<close>

theorem redaction_idempotent:
  "redact_trace_value (redact_trace_value v) = redact_trace_value v"
  by (simp add: redact_trace_value_def redact_idem)

text \<open>redaction only removes credentials: a value without them that is at most 32 levels deep
  is stored unchanged.
\<close>

theorem redaction_keeps_clean_values:
  assumes "clean v" and "json_depth v \<le> 32"
  shows "redact_trace_value v = v"
  using redact_clean_id [OF assms(1), of 0] assms(2)
  by (simp add: redact_trace_value_def MAX_REDACTION_DEPTH_def)

theorem redaction_keeps_clean_values_witness:
  "redact_trace_value (JObject [(''model'', JString ''base''), (''steps'', JArray [JBool True, JNull])])
    = JObject [(''model'', JString ''base''), (''steps'', JArray [JBool True, JNull])]"
proof (rule redaction_keeps_clean_values)
  show "clean (JObject [(''model'', JString ''base''), (''steps'', JArray [JBool True, JNull])])"
    by code_simp
qed simp

text \<open>a redacted error text has at most 512 characters, none of them a control character other
  than newline and tab.
\<close>

theorem redacted_text_bounded:
  "length (utf8_chars (redact_trace_text s)) \<le> 512 \<and>
   list_all plain_char (utf8_chars (redact_trace_text s))"
proof (cases "contains_sensitive_trace_text s")
  case True
  with marker_plain show ?thesis by (simp add: redact_trace_text_def MAX_TRACE_TEXT_CHARS_def)
next
  case False
  let ?cs = "take MAX_TRACE_TEXT_CHARS (filter plain_char (utf8_chars s))"
  have "redact_trace_text s = concat ?cs"
    using False by (simp add: redact_trace_text_def plain_char_def [abs_def])
  moreover have "utf8_chars (concat ?cs) = ?cs"
    by (intro utf8_chars_concat chars_ok_take chars_ok_filter chars_ok_utf8)
  ultimately show ?thesis
    by (auto simp: MAX_TRACE_TEXT_CHARS_def list_all_iff dest: in_set_takeD)
qed

section \<open>What the text filter lets through\<close>

text \<open>
  The markers are looked for before the control characters are removed, so a control character
  inside a marker hides it, and the stored text reads as the credential.
\<close>

theorem control_character_hides_marker:
  "redact_trace_text (''tok'' @ [CHR 0x01] @ ''en=abc'') = ''token=abc'' \<and>
   contains_sensitive_trace_text ''token=abc''"
  by code_simp

end
