(* ===== verification/Protocol.thy ===== *)
theory Protocol
  imports Json
begin

text \<open>
  \<open>crates/vifu-runtime/src/protocol.rs\<close>: the request, response and event frames, with the
  mapping to and from JSON values that their \<open>serde\<close> attributes describe (field names, the
  constant \<open>type\<close> tags, \<open>deny_unknown_fields\<close>, skipped \<open>None\<close>s, the two custom deserializers,
  and \<open>untagged\<close>, which tries the variants in order). Printing and parsing JSON text
  (\<open>serde_json\<close>) is the parameter \<open>text_codec\<close>.
\<close>

section \<open>Frames\<close>

record request_frame =
  request_id :: string
  request_method :: string
  request_params :: "json option"

record error_shape =
  error_code :: string
  error_message :: string
  error_details :: "json option"
  error_retryable :: "bool option"
  error_retry_after_ms :: "u64 option"

record response_frame =
  response_id :: string
  response_ok :: bool
  response_payload :: "json option"
  response_error :: "error_shape option"

record state_version =
  version_presence :: u64
  version_health :: u64

record event_frame =
  frame_event :: string
  frame_payload :: "json option"
  frame_seq :: "u64 option"
  frame_state_version :: "state_version option"

datatype protocol_frame =
    RequestFrame request_frame
  | ResponseFrame response_frame
  | EventFrame event_frame

record text_codec =
  print_json :: "json \<Rightarrow> (string, string) result"
  parse_json :: "string \<Rightarrow> json option"

definition MAX_PROTOCOL_FRAME_BYTES :: nat where "MAX_PROTOCOL_FRAME_BYTES = 17825792"

section \<open>Validation\<close>

definition validate_non_empty :: "string \<Rightarrow> string \<Rightarrow> (string, unit) result" where
  "validate_non_empty name v = ensure (v \<noteq> []) (name @ '' must not be empty'')"

definition validate_error_shape :: "error_shape \<Rightarrow> (string, unit) result" where
  "validate_error_shape e =
     and_then (validate_non_empty ''error code'' (error_code e)) (\<lambda>_.
     validate_non_empty ''error message'' (error_message e))"

fun validate_protocol_frame :: "protocol_frame \<Rightarrow> (string, unit) result" where
  "validate_protocol_frame (RequestFrame request) =
     and_then (validate_non_empty ''request id'' (request_id request)) (\<lambda>_.
     validate_non_empty ''request method'' (request_method request))"
| "validate_protocol_frame (ResponseFrame response) =
     and_then (validate_non_empty ''response id'' (response_id response)) (\<lambda>_.
     case response_error response of
       Some error \<Rightarrow> validate_error_shape error | None \<Rightarrow> Inr ())"
| "validate_protocol_frame (EventFrame event) =
     validate_non_empty ''event name'' (frame_event event)"

section \<open>To JSON\<close>

text \<open>A field that is skipped when \<open>None\<close>.\<close>

definition optional_field :: "string \<Rightarrow> ('a \<Rightarrow> json) \<Rightarrow> 'a option \<Rightarrow> (string \<times> json) list" where
  "optional_field name f v = (case v of None \<Rightarrow> [] | Some x \<Rightarrow> [(name, f x)])"

definition request_to_json :: "request_frame \<Rightarrow> json" where
  "request_to_json r = JObject
     ([(''type'', JString ''req''), (''id'', JString (request_id r)),
       (''method'', JString (request_method r))] @
      optional_field ''params'' id (request_params r))"

definition error_to_json :: "error_shape \<Rightarrow> json" where
  "error_to_json e = JObject
     ([(''code'', JString (error_code e)), (''message'', JString (error_message e))] @
      optional_field ''details'' id (error_details e) @
      optional_field ''retryable'' JBool (error_retryable e) @
      optional_field ''retryAfterMs'' json_u64 (error_retry_after_ms e))"

definition response_to_json :: "response_frame \<Rightarrow> json" where
  "response_to_json r = JObject
     ([(''type'', JString ''res''), (''id'', JString (response_id r)),
       (''ok'', JBool (response_ok r))] @
      optional_field ''payload'' id (response_payload r) @
      optional_field ''error'' error_to_json (response_error r))"

definition version_to_json :: "state_version \<Rightarrow> json" where
  "version_to_json v = JObject
     [(''presence'', json_u64 (version_presence v)), (''health'', json_u64 (version_health v))]"

definition event_to_json :: "event_frame \<Rightarrow> json" where
  "event_to_json e = JObject
     ([(''type'', JString ''event''), (''event'', JString (frame_event e))] @
      optional_field ''payload'' id (frame_payload e) @
      optional_field ''seq'' json_u64 (frame_seq e) @
      optional_field ''stateVersion'' version_to_json (frame_state_version e))"

fun frame_to_json :: "protocol_frame \<Rightarrow> json" where
  "frame_to_json (RequestFrame r) = request_to_json r"
| "frame_to_json (ResponseFrame r) = response_to_json r"
| "frame_to_json (EventFrame e) = event_to_json e"

section \<open>From JSON\<close>

text \<open>
  The fields of a struct: an object without unknown or repeated fields, or an array with the fields
  in order, of which the last may be missing where they have a default.
\<close>

definition struct_fields :: "string list \<Rightarrow> json \<Rightarrow> (string \<rightharpoonup> json) option" where
  "struct_fields names v = (case v of
     JObject kvs \<Rightarrow>
       if distinct (map fst kvs) \<and> list_all (\<lambda>(k, _). k \<in> set names) kvs then Some (map_of kvs)
       else None
   | JArray vs \<Rightarrow> if length vs \<le> length names then Some (map_of (zip names vs)) else None
   | _ \<Rightarrow> None)"

definition string_field :: "(string \<rightharpoonup> json) \<Rightarrow> string \<Rightarrow> string option" where
  "string_field m k = (case m k of Some (JString s) \<Rightarrow> Some s | _ \<Rightarrow> None)"

text \<open>A unit variant is its name, or an object with its name and \<open>null\<close>.\<close>

definition tag_field :: "(string \<rightharpoonup> json) \<Rightarrow> string \<Rightarrow> string \<Rightarrow> unit option" where
  "tag_field m k tag = 
     (if m k = Some (JString tag) \<or> m k = Some (JObject [(tag, JNull)]) then Some () else None)"

text \<open>
  \<open>optional_json_value\<close>: a present value is kept, \<open>null\<close> too. \<open>optional_non_null\<close>: a present
  value must not be \<open>null\<close> and must have its type. A failure is the outer \<open>None\<close>.
\<close>

definition optional_json_value :: "(string \<rightharpoonup> json) \<Rightarrow> string \<Rightarrow> json option option" where
  "optional_json_value m k = Some (m k)"

definition optional_non_null ::
    "(json \<Rightarrow> 'a option) \<Rightarrow> (string \<rightharpoonup> json) \<Rightarrow> string \<Rightarrow> 'a option option" where
  "optional_non_null f m k = (case m k of
     None \<Rightarrow> Some None
   | Some v \<Rightarrow> if is_null v then None else map_option Some (f v))"

definition request_of_json :: "json \<Rightarrow> request_frame option" where
  "request_of_json v =
     Option.bind (struct_fields [''type'', ''id'', ''method'', ''params''] v) (\<lambda>m.
     Option.bind (tag_field m ''type'' ''req'') (\<lambda>_.
     Option.bind (string_field m ''id'') (\<lambda>ident.
     Option.bind (string_field m ''method'') (\<lambda>mth.
     Option.bind (optional_json_value m ''params'') (\<lambda>params.
     Some \<lparr>request_id = ident, request_method = mth, request_params = params\<rparr>)))))"

definition error_of_json :: "json \<Rightarrow> error_shape option" where
  "error_of_json v =
     Option.bind (struct_fields
       [''code'', ''message'', ''details'', ''retryable'', ''retryAfterMs''] v) (\<lambda>m.
     Option.bind (string_field m ''code'') (\<lambda>code.
     Option.bind (string_field m ''message'') (\<lambda>message.
     Option.bind (optional_json_value m ''details'') (\<lambda>details.
     Option.bind (optional_non_null as_bool m ''retryable'') (\<lambda>retryable.
     Option.bind (optional_non_null as_u64 m ''retryAfterMs'') (\<lambda>retry_after_ms.
     Some \<lparr>error_code = code, error_message = message, error_details = details,
           error_retryable = retryable, error_retry_after_ms = retry_after_ms\<rparr>))))))"

definition response_of_json :: "json \<Rightarrow> response_frame option" where
  "response_of_json v =
     Option.bind (struct_fields [''type'', ''id'', ''ok'', ''payload'', ''error''] v) (\<lambda>m.
     Option.bind (tag_field m ''type'' ''res'') (\<lambda>_.
     Option.bind (string_field m ''id'') (\<lambda>ident.
     Option.bind (Option.bind (m ''ok'') as_bool) (\<lambda>ok.
     Option.bind (optional_json_value m ''payload'') (\<lambda>payload.
     Option.bind (optional_non_null error_of_json m ''error'') (\<lambda>error.
     Some \<lparr>response_id = ident, response_ok = ok, response_payload = payload,
           response_error = error\<rparr>))))))"

definition version_of_json :: "json \<Rightarrow> state_version option" where
  "version_of_json v =
     Option.bind (struct_fields [''presence'', ''health''] v) (\<lambda>m.
     Option.bind (Option.bind (m ''presence'') as_u64) (\<lambda>presence.
     Option.bind (Option.bind (m ''health'') as_u64) (\<lambda>health.
     Some \<lparr>version_presence = presence, version_health = health\<rparr>)))"

definition event_of_json :: "json \<Rightarrow> event_frame option" where
  "event_of_json v =
     Option.bind (struct_fields [''type'', ''event'', ''payload'', ''seq'', ''stateVersion''] v) (\<lambda>m.
     Option.bind (tag_field m ''type'' ''event'') (\<lambda>_.
     Option.bind (string_field m ''event'') (\<lambda>event.
     Option.bind (optional_json_value m ''payload'') (\<lambda>payload.
     Option.bind (optional_non_null as_u64 m ''seq'') (\<lambda>seq.
     Option.bind (optional_non_null version_of_json m ''stateVersion'') (\<lambda>version.
     Some \<lparr>frame_event = event, frame_payload = payload, frame_seq = seq,
           frame_state_version = version\<rparr>))))))"

definition frame_of_json :: "json \<Rightarrow> protocol_frame option" where
  "frame_of_json v = (case request_of_json v of
     Some r \<Rightarrow> Some (RequestFrame r)
   | None \<Rightarrow> (case response_of_json v of
       Some r \<Rightarrow> Some (ResponseFrame r)
     | None \<Rightarrow> map_option EventFrame (event_of_json v)))"

section \<open>Encoded frames\<close>

definition encode_protocol_frame :: "text_codec \<Rightarrow> protocol_frame \<Rightarrow> (string, string) result" where
  "encode_protocol_frame c frame =
     and_then (validate_protocol_frame frame) (\<lambda>_.
     and_then (print_json c (frame_to_json frame)) (\<lambda>encoded.
     and_then (ensure (length encoded \<le> MAX_PROTOCOL_FRAME_BYTES) ''protocol frame is too large'')
       (\<lambda>_. Inr encoded)))"

definition decode_protocol_frame :: "text_codec \<Rightarrow> string \<Rightarrow> (string, protocol_frame) result" where
  "decode_protocol_frame c source =
     and_then (ensure (source \<noteq> []) ''protocol frame is empty'') (\<lambda>_.
     and_then (ensure (length source \<le> MAX_PROTOCOL_FRAME_BYTES) ''protocol frame is too large'') (\<lambda>_.
     and_then (ok_or (Option.bind (parse_json c source) frame_of_json) ''invalid protocol frame'')
       (\<lambda>frame.
     and_then (validate_protocol_frame frame) (\<lambda>_. Inr frame))))"

section \<open>Round trips\<close>

lemmas field_defs =
  struct_fields_def string_field_def tag_field_def optional_json_value_def optional_non_null_def
  optional_field_def json_u64_def as_u64_def as_bool_def is_null_def

lemma error_roundtrip: "error_of_json (error_to_json e) = Some e"
  by (cases e) (auto simp: error_of_json_def error_to_json_def field_defs split: option.splits)

lemma version_roundtrip: "version_of_json (version_to_json v) = Some v"
  by (cases v) (simp add: version_of_json_def version_to_json_def field_defs)

lemma request_roundtrip: "request_of_json (request_to_json r) = Some r"
  by (cases r) (auto simp: request_of_json_def request_to_json_def field_defs split: option.splits)

lemma not_null [simp]:
  "\<not> is_null (error_to_json e)" "\<not> is_null (version_to_json v)"
  "error_to_json e \<noteq> JNull" "version_to_json v \<noteq> JNull"
  by (simp_all add: is_null_def error_to_json_def version_to_json_def)

lemma response_roundtrip: "response_of_json (response_to_json r) = Some r"
  by (cases r) (auto simp: response_of_json_def response_to_json_def struct_fields_def
      string_field_def tag_field_def optional_json_value_def optional_non_null_def
      optional_field_def as_bool_def error_roundtrip split: option.splits)

lemma event_roundtrip: "event_of_json (event_to_json e) = Some e"
  by (cases e) (auto simp: event_of_json_def event_to_json_def struct_fields_def
      string_field_def tag_field_def optional_json_value_def optional_non_null_def
      optional_field_def as_u64_def json_u64_def is_null_def version_roundtrip
      split: option.splits)

lemma other_variant:
  "request_of_json (response_to_json r) = None" "request_of_json (event_to_json e) = None"
  "response_of_json (event_to_json e) = None"
  by (auto simp: request_of_json_def response_of_json_def response_to_json_def event_to_json_def
      struct_fields_def tag_field_def split: option.splits)

lemma frame_roundtrip: "frame_of_json (frame_to_json f) = Some f"
  by (cases f) (simp_all add: frame_of_json_def request_roundtrip response_roundtrip
      event_roundtrip other_variant)

section \<open>What the text codec reads back\<close>

text \<open>
  Of \<open>serde_json\<close>: a value that nests at most 127 deep, whose numbers are integers and whose
  objects repeat no key is parsed from its own text, with the entries in the order of the text; no
  text is empty. Nothing is assumed of other values.
\<close>

definition reads_back :: "text_codec \<Rightarrow> bool" where
  "reads_back c \<longleftrightarrow>
     (\<forall>v t. json_exact JSON_NESTING v \<and> print_json c v = Inr t \<longrightarrow> parse_json c t = Some v \<and> t \<noteq> [])"

text \<open>The free parts of a frame: its parameters or payload, one level inside the frame, and the
  details of its error, two levels inside.\<close>

fun frame_exact :: "protocol_frame \<Rightarrow> bool" where
  "frame_exact (RequestFrame r) \<longleftrightarrow> (\<forall>v \<in> set_option (request_params r). json_exact 126 v)"
| "frame_exact (ResponseFrame r) \<longleftrightarrow> (\<forall>v \<in> set_option (response_payload r). json_exact 126 v) \<and>
     (\<forall>e \<in> set_option (response_error r). \<forall>v \<in> set_option (error_details e). json_exact 125 v)"
| "frame_exact (EventFrame e) \<longleftrightarrow> (\<forall>v \<in> set_option (frame_payload e). json_exact 126 v)"

lemma frame_exact_json: "json_exact JSON_NESTING (frame_to_json f) \<longleftrightarrow> frame_exact f"
  by (cases f) (auto simp: JSON_NESTING_def request_to_json_def response_to_json_def error_to_json_def
      event_to_json_def version_to_json_def optional_field_def json_u64_def split: option.splits)

lemma encoded_frame_decodes:
  assumes "reads_back c" and "frame_exact frame" and "encode_protocol_frame c frame = Inr text"
  shows "decode_protocol_frame c text = Inr frame"
proof -
  from assms(3) have print: "print_json c (frame_to_json frame) = Inr text"
    by (auto simp: encode_protocol_frame_def and_then_eq_Inr)
  with assms(1,2) have "parse_json c text = Some (frame_to_json frame) \<and> text \<noteq> []"
    unfolding reads_back_def frame_exact_json [symmetric] by blast
  with assms(3) show ?thesis
    by (auto simp: encode_protocol_frame_def decode_protocol_frame_def and_then_eq_Inr frame_roundtrip)
qed

section \<open>Properties\<close>

text \<open>C9: a frame that is encoded is decoded to the same frame, when its payload, parameters or
  details are not nested deeper than \<open>serde_json\<close> reads (126 levels, details of an error 125) and
  have no floats and no repeated keys: the field names, tags and optional fields of the three kinds
  of frame are unambiguous, and whatever passes the checks of the encoder passes those of the
  decoder. Of the JSON text codec only that is assumed: it parses such values from its own text.
\<close>

theorem protocol_frame_roundtrip:
  assumes "reads_back c" and "frame_exact frame" and "encode_protocol_frame c frame = Inr text"
  shows "decode_protocol_frame c text = Inr frame"
  using assms by (rule encoded_frame_decodes)

definition sample_frame :: protocol_frame where
  "sample_frame = ResponseFrame \<lparr>response_id = ''r1'', response_ok = True,
     response_payload = Some JNull, response_error = None\<rparr>"

definition sample_text :: text_codec where
  "sample_text =
     \<lparr>print_json = (\<lambda>v. if v = frame_to_json sample_frame then Inr ''{r1}'' else Inl ''unprintable''),
      parse_json = (\<lambda>t. if t = ''{r1}'' then Some (frame_to_json sample_frame) else None)\<rparr>"

lemma sample_text_reads_back: "reads_back sample_text"
  by (auto simp: reads_back_def sample_text_def split: if_splits)

theorem protocol_frame_roundtrip_witness:
  "encode_protocol_frame sample_text sample_frame = Inr ''{r1}'' \<and>
   decode_protocol_frame sample_text ''{r1}'' = Inr sample_frame"
proof -
  have enc: "encode_protocol_frame sample_text sample_frame = Inr ''{r1}''"
    by (simp add: encode_protocol_frame_def sample_text_def)
      (simp add: sample_frame_def validate_non_empty_def MAX_PROTOCOL_FRAME_BYTES_def)
  have "frame_exact sample_frame" by (simp add: sample_frame_def)
  from enc protocol_frame_roundtrip [OF sample_text_reads_back this enc] show ?thesis ..
qed

fun frame_complete :: "protocol_frame \<Rightarrow> bool" where
  "frame_complete (RequestFrame r) \<longleftrightarrow> request_id r \<noteq> [] \<and> request_method r \<noteq> []"
| "frame_complete (ResponseFrame r) \<longleftrightarrow> response_id r \<noteq> [] \<and>
     (\<forall>e. response_error r = Some e \<longrightarrow> error_code e \<noteq> [] \<and> error_message e \<noteq> [])"
| "frame_complete (EventFrame e) \<longleftrightarrow> frame_event e \<noteq> []"

lemma validate_frame_iff: "validate_protocol_frame f = Inr u \<longleftrightarrow> frame_complete f"
  by (cases f) (auto simp: validate_non_empty_def validate_error_shape_def and_then_eq_Inr
      split: option.splits)

text \<open>the decoder accepts no frame the encoder would refuse for its fields: a decoded request
  has an identifier and a method, a response an identifier and, if it has an error, a code and
  a message, an event a name; and its text was neither empty nor longer than 17 MiB.
\<close>

theorem decoded_frames_complete:
  assumes "decode_protocol_frame c text = Inr frame"
  shows "frame_complete frame \<and> text \<noteq> [] \<and> length text \<le> 17 * 1024 * 1024"
  using assms by (auto simp: decode_protocol_frame_def and_then_eq_Inr validate_frame_iff
      MAX_PROTOCOL_FRAME_BYTES_def)

theorem decoded_frames_complete_witness:
  "frame_complete sample_frame \<and> length ''{r1}'' \<le> (17 * 1024 * 1024 :: nat)"
proof -
  have "decode_protocol_frame sample_text ''{r1}'' = Inr sample_frame"
    by (simp add: decode_protocol_frame_def sample_text_def frame_roundtrip)
      (simp add: sample_frame_def validate_non_empty_def MAX_PROTOCOL_FRAME_BYTES_def)
  from decoded_frames_complete [OF this] show ?thesis by simp
qed

end
