(* ===== verification/Bridge.thy ===== *)
theory Bridge
  imports Protocol Runtime_Properties
begin

text \<open>
  \<open>crates/vifu-runtime/src/bridge.rs\<close>: the bridge that turns a host's request frames into calls
  of one runtime and the runtime's events into event frames. The runtime is the dictionary
  \<open>service\<close> over a state \<open>'r\<close>, with the laws the bridge relies on in the locale
  \<open>invocation_service\<close>, interpreted on the runtime of \<open>Invoke\<close>. Between two calls of the bridge
  the worker's thread may run: \<open>env\<close> is what it does there.
\<close>

section \<open>The runtime as a service\<close>

record 'r service =
  svc_project_id :: "'r \<Rightarrow> string"
  svc_start :: "invocation_input \<Rightarrow> ('r, string) action"
  svc_cancel :: "string \<Rightarrow> ('r, unit) action"
  svc_drain :: "string \<Rightarrow> ('r, invocation_event list) action"
  svc_poll :: "string \<Rightarrow> ('r, invocation_poll) action"
  svc_take :: "string \<Rightarrow> ('r, invocation_poll) action"

definition runtime_service :: "'s vifu_system service" where
  "runtime_service =
     \<lparr>svc_project_id = (\<lambda>s. core_project_id (sys_core s)), svc_start = start_invoke,
      svc_cancel = cancel_invocation, svc_drain = drain_invocation_events,
      svc_poll = poll_invocation, svc_take = take_invocation\<rparr>"

text \<open>The JSON codec of the bridge's payloads (\<open>serde_json\<close>).\<close>

record bridge_codec =
  decode_hello :: "json \<Rightarrow> (string, string) result"
  decode_invoke :: "json \<Rightarrow> (string, invocation_input) result"
  decode_cancel :: "json \<Rightarrow> (string, string) result"
  encode_event :: "string \<Rightarrow> invocation_event \<Rightarrow> invocation_output option \<Rightarrow> (string, json) result"

datatype bridge_error =
    BridgeProtocol string
  | BridgeRuntime runtime_error
  | StateUnavailable

fun bridge_error_display :: "bridge_error \<Rightarrow> string" where
  "bridge_error_display (BridgeProtocol message) = message"
| "bridge_error_display (BridgeRuntime e) = RuntimeError_display e"
| "bridge_error_display StateUnavailable = ''runtime bridge state is unavailable''"

text \<open>\<open>active_invocations\<close> is a \<open>BTreeSet\<close>: the handles in order.\<close>

record 'r bridge =
  bridge_runtime :: 'r
  bridge_active :: "string list"

definition bridge_new :: "'r \<Rightarrow> 'r bridge" where
  "bridge_new r = \<lparr>bridge_runtime = r, bridge_active = []\<rparr>"

definition BRIDGE_PROTOCOL_VERSION :: string where
  "BRIDGE_PROTOCOL_VERSION = ''vifu.runtime-bridge/1''"

section \<open>Responses\<close>

definition error_response :: "string \<Rightarrow> string \<Rightarrow> string \<Rightarrow> json option \<Rightarrow> protocol_frame" where
  "error_response ident code message details = ResponseFrame
     \<lparr>response_id = ident, response_ok = False, response_payload = None,
      response_error = Some \<lparr>error_code = code, error_message = message,
        error_details = details, error_retryable = None, error_retry_after_ms = None\<rparr>\<rparr>"

definition success_response :: "string \<Rightarrow> json \<Rightarrow> protocol_frame" where
  "success_response ident payload = ResponseFrame
     \<lparr>response_id = ident, response_ok = True, response_payload = Some payload,
      response_error = None\<rparr>"

definition invalid_params_response :: "string \<Rightarrow> string \<Rightarrow> protocol_frame" where
  "invalid_params_response ident error =
     error_response ident ''invalid_params'' ''runtime bridge request parameters are invalid''
       (Some (JObject [(''reason'', JString error)]))"

definition runtime_error_response :: "string \<Rightarrow> runtime_error \<Rightarrow> protocol_frame" where
  "runtime_error_response ident e = error_response ident ''runtime_error'' (public_message e) None"

definition decode_params :: "(json \<Rightarrow> (string, 'a) result) \<Rightarrow> request_frame \<Rightarrow> (string, 'a) result" where
  "decode_params f request =
     and_then (ok_or (request_params request) ''request params are required'') f"

section \<open>Requests\<close>

definition handle_hello ::
    "bridge_codec \<Rightarrow> 'r service \<Rightarrow> request_frame \<Rightarrow> 'r bridge \<Rightarrow> protocol_frame" where
  "handle_hello k svc request b =
     (case decode_params (decode_hello k) request of
        Inl error \<Rightarrow> invalid_params_response (request_id request) error
      | Inr protocol \<Rightarrow>
          if protocol \<noteq> BRIDGE_PROTOCOL_VERSION
          then error_response (request_id request) ''protocol_mismatch''
            ''runtime bridge protocol is not supported''
            (Some (JObject [(''supported'', JString BRIDGE_PROTOCOL_VERSION)]))
          else success_response (request_id request) (JObject
            [(''protocol'', JString BRIDGE_PROTOCOL_VERSION),
             (''projectId'', JString (svc_project_id svc (bridge_runtime b)))]))"

definition handle_invoke ::
    "bridge_codec \<Rightarrow> 'r service \<Rightarrow> request_frame \<Rightarrow> 'r bridge \<Rightarrow> protocol_frame \<times> 'r bridge" where
  "handle_invoke k svc request b =
     (case decode_params (decode_invoke k) request of
        Inl error \<Rightarrow> (invalid_params_response (request_id request) error, b)
      | Inr input \<Rightarrow>
          (case svc_start svc input (bridge_runtime b) of
             (Inl e, r) \<Rightarrow> (runtime_error_response (request_id request) e, b\<lparr>bridge_runtime := r\<rparr>)
           | (Inr h, r) \<Rightarrow>
               (success_response (request_id request) (JObject [(''handle'', JString h)]),
                b\<lparr>bridge_runtime := r, bridge_active := insort h (remove1 h (bridge_active b))\<rparr>)))"

definition handle_cancel ::
    "bridge_codec \<Rightarrow> 'r service \<Rightarrow> request_frame \<Rightarrow> 'r bridge \<Rightarrow> protocol_frame \<times> 'r bridge" where
  "handle_cancel k svc request b =
     (case decode_params (decode_cancel k) request of
        Inl error \<Rightarrow> (invalid_params_response (request_id request) error, b)
      | Inr h \<Rightarrow>
          (case svc_cancel svc h (bridge_runtime b) of
             (Inl e, r) \<Rightarrow> (runtime_error_response (request_id request) e, b\<lparr>bridge_runtime := r\<rparr>)
           | (Inr _, r) \<Rightarrow>
               (success_response (request_id request) (JObject [(''handle'', JString h)]),
                b\<lparr>bridge_runtime := r\<rparr>)))"

definition handle_request ::
    "bridge_codec \<Rightarrow> 'r service \<Rightarrow> request_frame \<Rightarrow> 'r bridge \<Rightarrow> protocol_frame \<times> 'r bridge" where
  "handle_request k svc request b =
     (if request_method request = ''runtime.hello'' then (handle_hello k svc request b, b)
      else if request_method request = ''runtime.invoke'' then handle_invoke k svc request b
      else if request_method request = ''runtime.cancel'' then handle_cancel k svc request b
      else (error_response (request_id request) ''method_not_found''
              ''runtime bridge method is not supported'' None, b))"

fun handle_frame ::
    "bridge_codec \<Rightarrow> 'r service \<Rightarrow> protocol_frame \<Rightarrow> 'r bridge
      \<Rightarrow> (bridge_error, protocol_frame list) result \<times> 'r bridge" where
  "handle_frame k svc (RequestFrame request) b =
     (case handle_request k svc request b of (frame, b') \<Rightarrow> (Inr [frame], b'))"
| "handle_frame k svc _ b =
     (Inl (BridgeProtocol ''runtime bridge accepts request frames from the host''), b)"

definition encode_frames :: "text_codec \<Rightarrow> protocol_frame list \<Rightarrow> (bridge_error, string list) result" where
  "encode_frames c frames =
     fold_result (\<lambda>frame out. case encode_protocol_frame c frame of
       Inl e \<Rightarrow> Inl (BridgeProtocol e) | Inr text \<Rightarrow> Inr (out @ [text])) frames []"

definition handle_encoded ::
    "text_codec \<Rightarrow> bridge_codec \<Rightarrow> 'r service \<Rightarrow> string \<Rightarrow> 'r bridge
      \<Rightarrow> (bridge_error, string list) result \<times> 'r bridge" where
  "handle_encoded c k svc source b =
     (case decode_protocol_frame c source of
        Inl e \<Rightarrow> (Inl (BridgeProtocol e), b)
      | Inr frame \<Rightarrow>
          (case handle_frame k svc frame b of
             (Inl e, b') \<Rightarrow> (Inl e, b')
           | (Inr frames, b') \<Rightarrow> (encode_frames c frames, b')))"

section \<open>Events\<close>

fun invocation_event_name :: "invocation_event_kind \<Rightarrow> string" where
  "invocation_event_name KindStarted = ''runtime.invocation.started''"
| "invocation_event_name KindOutputDelta = ''runtime.invocation.outputDelta''"
| "invocation_event_name KindCompleted = ''runtime.invocation.completed''"
| "invocation_event_name KindFailed = ''runtime.invocation.failed''"
| "invocation_event_name KindCancelled = ''runtime.invocation.cancelled''"

definition event_frame_of ::
    "bridge_codec \<Rightarrow> string \<Rightarrow> invocation_output option \<Rightarrow> invocation_event
      \<Rightarrow> (bridge_error, protocol_frame) result" where
  "event_frame_of k h out ev =
     (case encode_event k h ev (if ev_kind ev = KindCompleted then out else None) of
        Inl e \<Rightarrow> Inl (BridgeProtocol e)
      | Inr payload \<Rightarrow> Inr (EventFrame
          \<lparr>frame_event = invocation_event_name (ev_kind ev), frame_payload = Some payload,
           frame_seq = None, frame_state_version = None\<rparr>))"

definition event_frames ::
    "bridge_codec \<Rightarrow> string \<Rightarrow> invocation_output option \<Rightarrow> invocation_event list
      \<Rightarrow> protocol_frame list \<Rightarrow> (bridge_error, protocol_frame list) result" where
  "event_frames k h out = fold_result (\<lambda>ev frames.
     and_then (event_frame_of k h out ev) (\<lambda>frame. Inr (frames @ [frame])))"

text \<open>
  One handle of \<open>drain_events\<close>: the frames so far, and the handles to forget. The worker may run
  after the drain and after the poll.
\<close>

definition drain_handle ::
    "bridge_codec \<Rightarrow> 'r service \<Rightarrow> ('r \<Rightarrow> 'r) \<Rightarrow> string \<Rightarrow> protocol_frame list \<times> string list \<Rightarrow> 'r
      \<Rightarrow> (bridge_error, protocol_frame list \<times> string list) result \<times> 'r" where
  "drain_handle k svc env h acc r =
     (case svc_drain svc h r of
        (Inl (InvocationNotFound _), r1) \<Rightarrow> (Inr (fst acc, snd acc @ [h]), r1)
      | (Inl e, r1) \<Rightarrow> (Inl (BridgeRuntime e), r1)
      | (Inr events, r1) \<Rightarrow>
          (case svc_poll svc h (env r1) of
             (Inl e, r2) \<Rightarrow> (Inl (BridgeRuntime e), r2)
           | (Inr poll, r2) \<Rightarrow>
               (case event_frames k h (poll_output poll) events (fst acc) of
                  Inl e \<Rightarrow> (Inl e, r2)
                | Inr frames \<Rightarrow>
                    if is_terminal_status (poll_status poll)
                    then (case svc_take svc h (env r2) of
                        (Inl e, r3) \<Rightarrow> (Inl (BridgeRuntime e), r3)
                      | (Inr _, r3) \<Rightarrow> (Inr (frames, snd acc @ [h]), r3))
                    else (Inr (frames, snd acc), r2))))"

fun drain_handles ::
    "bridge_codec \<Rightarrow> 'r service \<Rightarrow> ('r \<Rightarrow> 'r) \<Rightarrow> string list \<Rightarrow> protocol_frame list \<times> string list
      \<Rightarrow> 'r \<Rightarrow> (bridge_error, protocol_frame list \<times> string list) result \<times> 'r" where
  "drain_handles k svc env [] acc r = (Inr acc, r)"
| "drain_handles k svc env (h # hs) acc r =
     (case drain_handle k svc env h acc r of
        (Inl e, r1) \<Rightarrow> (Inl e, r1)
      | (Inr acc1, r1) \<Rightarrow> drain_handles k svc env hs acc1 r1)"

definition drain_events ::
    "bridge_codec \<Rightarrow> 'r service \<Rightarrow> ('r \<Rightarrow> 'r) \<Rightarrow> 'r bridge
      \<Rightarrow> (bridge_error, protocol_frame list) result \<times> 'r bridge" where
  "drain_events k svc env b =
     (case drain_handles k svc env (bridge_active b) ([], []) (bridge_runtime b) of
        (Inl e, r) \<Rightarrow> (Inl e, b\<lparr>bridge_runtime := r\<rparr>)
      | (Inr (frames, gone), r) \<Rightarrow>
          (Inr frames, b\<lparr>bridge_runtime := r,
             bridge_active := filter (\<lambda>h. h \<notin> set gone) (bridge_active b)\<rparr>))"

definition drain_encoded ::
    "text_codec \<Rightarrow> bridge_codec \<Rightarrow> 'r service \<Rightarrow> ('r \<Rightarrow> 'r) \<Rightarrow> 'r bridge
      \<Rightarrow> (bridge_error, string list) result \<times> 'r bridge" where
  "drain_encoded c k svc env b =
     (case drain_events k svc env b of
        (Inl e, b') \<Rightarrow> (Inl e, b')
      | (Inr frames, b') \<Rightarrow> (encode_frames c frames, b'))"

section \<open>What the bridge relies on\<close>

text \<open>
  \<open>look r h\<close>: the queued events and the poll state of an invocation. Draining empties the queue,
  polling reads, taking a terminal invocation removes it, and each leaves the others alone.
\<close>

locale invocation_service =
  fixes svc :: "'r service"
    and look :: "'r \<Rightarrow> string \<Rightarrow> (invocation_event list \<times> invocation_poll) option"
  assumes drain_missing: "look r h = None \<Longrightarrow> svc_drain svc h r = (Inl (InvocationNotFound h), r)"
    and drain_found: "look r h = Some (evs, p) \<Longrightarrow>
      \<exists>r'. svc_drain svc h r = (Inr evs, r') \<and> look r' = (look r)(h \<mapsto> ([], p))"
    and poll_found: "look r h = Some (evs, p) \<Longrightarrow> svc_poll svc h r = (Inr p, r)"
    and take_found: "look r h = Some (evs, p) \<Longrightarrow> is_terminal_status (poll_status p) \<Longrightarrow>
      \<exists>r'. svc_take svc h r = (Inr p, r') \<and> look r' = (look r)(h := None)"

definition frame_for ::
    "bridge_codec \<Rightarrow> string \<Rightarrow> invocation_output option \<Rightarrow> invocation_event \<Rightarrow> protocol_frame" where
  "frame_for k h out ev = (case event_frame_of k h out ev of Inr frame \<Rightarrow> frame)"

definition encodes :: "bridge_codec \<Rightarrow> bool" where
  "encodes k \<longleftrightarrow> (\<forall>h ev out. \<exists>v. encode_event k h ev out = Inr v)"

definition frames_of ::
    "bridge_codec \<Rightarrow> string \<Rightarrow> (invocation_event list \<times> invocation_poll) option \<Rightarrow> protocol_frame list"
  where
  "frames_of k h x = (case x of None \<Rightarrow> []
     | Some (evs, p) \<Rightarrow> map (frame_for k h (poll_output p)) evs)"

definition over :: "(invocation_event list \<times> invocation_poll) option \<Rightarrow> bool" where
  "over x \<longleftrightarrow> (case x of None \<Rightarrow> True | Some (_, p) \<Rightarrow> is_terminal_status (poll_status p))"

definition left_over ::
    "(invocation_event list \<times> invocation_poll) option \<Rightarrow> (invocation_event list \<times> invocation_poll) option"
  where
  "left_over x = (if over x then None else map_option (\<lambda>(_, p). ([], p)) x)"

lemma event_frame_of_encodes: "encodes k \<Longrightarrow> event_frame_of k h out ev = Inr (frame_for k h out ev)"
  by (auto simp: encodes_def event_frame_of_def frame_for_def split: sum.splits)
    (metis sum.distinct(1))+

lemma event_frames_encodes:
  assumes "encodes k"
  shows "event_frames k h out evs frames = Inr (frames @ map (frame_for k h out) evs)"
  by (induction evs arbitrary: frames)
    (simp_all add: event_frames_def event_frame_of_encodes [OF assms])

context invocation_service
begin

lemma drain_handle_alone:
  assumes "encodes k"
  shows "\<exists>r'. drain_handle k svc (\<lambda>x. x) h acc r =
      (Inr (fst acc @ frames_of k h (look r h), snd acc @ (if over (look r h) then [h] else [])), r') \<and>
    look r' = (look r)(h := left_over (look r h))"
proof (cases "look r h")
  case None
  then show ?thesis
    using drain_missing [OF None] by (auto simp: drain_handle_def frames_of_def over_def left_over_def)
next
  case (Some x)
  then obtain evs p where look: "look r h = Some (evs, p)" by (cases x) auto
  from drain_found [OF look] obtain r1 where drain: "svc_drain svc h r = (Inr evs, r1)"
    and r1: "look r1 = (look r)(h \<mapsto> ([], p))" by blast
  from r1 have look1: "look r1 h = Some ([], p)" by simp
  note poll = poll_found [OF look1]
  show ?thesis
  proof (cases "is_terminal_status (poll_status p)")
    case True
    from take_found [OF look1 True] obtain r2 where "svc_take svc h r1 = (Inr p, r2)"
      and "look r2 = (look r1)(h := None)" by blast
    with drain poll look r1 True show ?thesis
      by (auto simp: drain_handle_def event_frames_encodes [OF assms] frames_of_def over_def
          left_over_def)
  next
    case False
    with drain poll look r1 show ?thesis
      by (auto simp: drain_handle_def event_frames_encodes [OF assms] frames_of_def over_def
          left_over_def)
  qed
qed

lemma drain_handles_alone:
  assumes "encodes k" and "distinct hs"
  shows "\<exists>r'. drain_handles k svc (\<lambda>x. x) hs acc r =
      (Inr (fst acc @ concat (map (\<lambda>h. frames_of k h (look r h)) hs),
            snd acc @ filter (\<lambda>h. over (look r h)) hs), r') \<and>
    look r' = (\<lambda>h. if h \<in> set hs then left_over (look r h) else look r h)"
  using assms(2)
proof (induction hs arbitrary: acc r)
  case (Cons h hs)
  from drain_handle_alone [OF assms(1)] obtain r1 where
    one: "drain_handle k svc (\<lambda>x. x) h acc r =
      (Inr (fst acc @ frames_of k h (look r h), snd acc @ (if over (look r h) then [h] else [])), r1)"
    and r1: "look r1 = (look r)(h := left_over (look r h))" by blast
  have same: "look r1 g = look r g" if "g \<in> set hs" for g
    using r1 that Cons.prems by auto
  let ?acc = "(fst acc @ frames_of k h (look r h), snd acc @ (if over (look r h) then [h] else []))"
  from Cons.IH [of ?acc r1] Cons.prems obtain r' where
    rest: "drain_handles k svc (\<lambda>x. x) hs ?acc r1 =
      (Inr (fst ?acc @ concat (map (\<lambda>h. frames_of k h (look r1 h)) hs),
            snd ?acc @ filter (\<lambda>h. over (look r1 h)) hs), r')"
    and r': "look r' = (\<lambda>h. if h \<in> set hs then left_over (look r1 h) else look r1 h)" by auto
  have "concat (map (\<lambda>h. frames_of k h (look r1 h)) hs) =
      concat (map (\<lambda>h. frames_of k h (look r h)) hs)"
    "filter (\<lambda>h. over (look r1 h)) hs = filter (\<lambda>h. over (look r h)) hs"
    using same by (auto intro!: filter_cong arg_cong [of _ _ concat])
  moreover have "look r' = (\<lambda>g. if g \<in> set (h # hs) then left_over (look r g) else look r g)"
    using r' r1 same Cons.prems by (auto simp: fun_eq_iff)
  ultimately show ?case using one rest by simp
qed (auto simp: fun_eq_iff)

end

section \<open>The runtime is such a service\<close>

definition sys_look :: "'s vifu_system \<Rightarrow> string \<Rightarrow> (invocation_event list \<times> invocation_poll) option" where
  "sys_look s h = map_option (\<lambda>e. (entry_events e, entry_poll e))
     (reg_entries (core_invocations (sys_core s)) h)"

interpretation runtime: invocation_service runtime_service sys_look
proof (unfold_locales, goal_cases)
  case (1 r h)
  then show ?case
    by (simp add: sys_look_def runtime_service_def drain_invocation_events_def
        registry_drain_events_def)
next
  case (2 r h evs p)
  then show ?case
    by (auto simp: sys_look_def runtime_service_def drain_invocation_events_def
        registry_drain_events_def update_invocations_def fun_eq_iff)
next
  case (3 r h evs p)
  then show ?case
    by (auto simp: sys_look_def runtime_service_def poll_invocation_def registry_poll_def)
next
  case (4 r h evs p)
  then show ?case
    by (auto simp: sys_look_def runtime_service_def take_invocation_def registry_take_def
        update_invocations_def registry_remove_entries fun_eq_iff)
qed

section \<open>Properties\<close>

lemma public_message_nonempty: "public_message e \<noteq> []"
  by (cases e) simp_all

definition answers :: "request_frame \<Rightarrow> protocol_frame \<Rightarrow> bool" where
  "answers request frame \<longleftrightarrow> (\<exists>resp. frame = ResponseFrame resp \<and>
     response_id resp = request_id request \<and>
     (response_ok resp \<longleftrightarrow> response_error resp = None) \<and>
     (response_ok resp \<longleftrightarrow> response_payload resp \<noteq> None) \<and>
     (frame_complete frame \<longleftrightarrow> request_id request \<noteq> []))"

lemma answers_success: "answers request (success_response (request_id request) v)"
  by (simp add: answers_def success_response_def)

lemma answers_error:
  "code \<noteq> [] \<Longrightarrow> message \<noteq> [] \<Longrightarrow> answers request (error_response (request_id request) code message d)"
  by (simp add: answers_def error_response_def)

lemma answers_failures:
  "answers request (invalid_params_response (request_id request) e)"
  "answers request (runtime_error_response (request_id request) re)"
  by (simp_all add: invalid_params_response_def runtime_error_response_def answers_error
      public_message_nonempty)

text \<open>C13: every request a host sends is answered by exactly one response with its identifier, a
  success with a payload and no error or a failure with an error and no payload; and the answer
  is complete, so it can be encoded, exactly when the request had an identifier.
\<close>

theorem requests_answered_once:
  "\<exists>frame b'. handle_frame k svc (RequestFrame request) b = (Inr [frame], b') \<and> answers request frame"
proof -
  have "answers request (fst (handle_request k svc request b))"
    by (auto simp: handle_request_def handle_hello_def handle_invoke_def handle_cancel_def
        answers_success answers_error answers_failures split: sum.splits prod.splits)
  then show ?thesis by (cases "handle_request k svc request b") simp
qed

text \<open>when the worker does not run in between, draining delivers every queued event of every
  active invocation, in handle order and event order, and forgets an invocation exactly when it
  is unknown or terminal, after its last event was delivered; the others keep their state with
  an empty queue. (Payloads are assumed to encode.)
\<close>

theorem drain_delivers_everything:
  assumes "encodes k" and "distinct (bridge_active b)"
  shows "\<exists>b'. drain_events k runtime_service (\<lambda>s. s) b =
      (Inr (concat (map (\<lambda>h. frames_of k h (sys_look (bridge_runtime b) h)) (bridge_active b))), b') \<and>
    bridge_active b' = filter (\<lambda>h. \<not> over (sys_look (bridge_runtime b) h)) (bridge_active b) \<and>
    sys_look (bridge_runtime b') = (\<lambda>h. if h \<in> set (bridge_active b)
      then left_over (sys_look (bridge_runtime b) h) else sys_look (bridge_runtime b) h)"
proof -
  from runtime.drain_handles_alone [OF assms, of "([], [])" "bridge_runtime b"] obtain r' where
    "drain_handles k runtime_service (\<lambda>x. x) (bridge_active b) ([], []) (bridge_runtime b) =
      (Inr (concat (map (\<lambda>h. frames_of k h (sys_look (bridge_runtime b) h)) (bridge_active b)),
        filter (\<lambda>h. over (sys_look (bridge_runtime b) h)) (bridge_active b)), r')"
    and "sys_look r' = (\<lambda>h. if h \<in> set (bridge_active b)
      then left_over (sys_look (bridge_runtime b) h) else sys_look (bridge_runtime b) h)" by auto
  then show ?thesis by (auto simp: drain_events_def intro!: filter_cong)
qed

text \<open>A bridge with one running invocation.\<close>

definition sample_bridge_codec :: bridge_codec where
  "sample_bridge_codec =
     \<lparr>decode_hello = (\<lambda>v. Inl ''hello''), decode_invoke = (\<lambda>v. Inl ''invoke''),
      decode_cancel = (\<lambda>v. Inl ''cancel''), encode_event = (\<lambda>h ev out. Inr (JString h))\<rparr>"

definition bridge_entry :: "invocation_status \<Rightarrow> invocation_event list \<Rightarrow> invocation_entry" where
  "bridge_entry status evs =
     \<lparr>entry_poll = \<lparr>poll_handle = ''invocation-1'', poll_status = status, poll_output = None,
        poll_error = None\<rparr>,
      entry_cancellation = 0, entry_events = evs, entry_next_event_sequence = 2\<rparr>"

definition running_bridge :: "memory_store vifu_system bridge" where
  "running_bridge =
     \<lparr>bridge_runtime = system_new (sample_core\<lparr>core_invocations :=
        \<lparr>reg_entries = [''invocation-1'' \<mapsto> bridge_entry StatusRunning
           [\<lparr>ev_sequence = 1, ev_kind = KindStarted, ev_data = None, ev_error = None\<rparr>]],
         reg_terminal_order = [], reg_active_count = 1\<rparr>\<rparr>),
      bridge_active = [''invocation-1'']\<rparr>"

lemma sample_encodes: "encodes sample_bridge_codec"
  by (simp add: encodes_def sample_bridge_codec_def)

theorem drain_delivers_everything_witness:
  "\<exists>frame b'. drain_events sample_bridge_codec runtime_service (\<lambda>s. s) running_bridge =
     (Inr [frame], b') \<and> bridge_active b' = [''invocation-1'']"
proof -
  have active: "bridge_active running_bridge = [''invocation-1'']"
    by (simp add: running_bridge_def)
  have look: "sys_look (bridge_runtime running_bridge) ''invocation-1'' =
      Some ([\<lparr>ev_sequence = 1, ev_kind = KindStarted, ev_data = None, ev_error = None\<rparr>],
        entry_poll (bridge_entry StatusRunning []))"
    by (simp add: sys_look_def running_bridge_def system_new_def bridge_entry_def)
  have "distinct (bridge_active running_bridge)" by (simp add: active)
  from drain_delivers_everything [OF sample_encodes this] show ?thesis
    by (auto simp: active look frames_of_def over_def bridge_entry_def)
qed

section \<open>What the worker can do in between\<close>

text \<open>
  The worker finishes the invocation after its events were drained and before it is polled: the
  poll is terminal, the entry is taken with the new event still queued, and the host never
  receives the terminal event.
\<close>

definition worker_fails :: "memory_store vifu_system \<Rightarrow> memory_store vifu_system" where
  "worker_fails s = s\<lparr>sys_core := update_poll ''invocation-1'' StatusFailed None
     (Some ''provider failed'') (sys_core s)\<rparr>"

theorem terminal_event_lost:
  "\<exists>frame b'. drain_events sample_bridge_codec runtime_service worker_fails running_bridge =
     (Inr [frame], b') \<and>
     frame = EventFrame \<lparr>frame_event = ''runtime.invocation.started'',
       frame_payload = Some (JString ''invocation-1''), frame_seq = None,
       frame_state_version = None\<rparr> \<and>
     bridge_active b' = [] \<and>
     sys_look (bridge_runtime b') ''invocation-1'' = None"
  by (simp add: drain_events_def drain_handle_def running_bridge_def runtime_service_def
      drain_invocation_events_def registry_drain_events_def update_invocations_def system_new_def
      worker_fails_def update_poll_def registry_update_def bridge_entry_def Let_def
      evict_old_terminal_entries_def evict_loop.simps MAX_RETAINED_INVOCATIONS_def
      poll_invocation_def registry_poll_def entry_update_def push_event_def coalesce_def
      truncate_front.simps MAX_RETAINED_INVOCATION_EVENTS_def event_frames_def event_frame_of_def
      sample_bridge_codec_def take_invocation_def registry_take_def registry_remove_def
      sys_look_def saturating_add_def)

end
