(* ===== verification/Relay_Hub.thy ===== *)
theory Relay_Hub
  imports Invoke
begin

text \<open>
  \<open>crates/vifu-server/src/relay.rs\<close>: the hub through which the server invokes agents on remote
  gateways. The hub's lock makes each of its critical sections atomic; an invocation is a
  \<open>relay_call\<close> whose oneshot receiver holds the response once it was sent. The bounded command
  channels to the gateways are numbered; tasks the code spawns (a cancel command that waits for
  room in the channel, the clean-up of a dropped invocation) are listed until they run. The
  responses \<open>unregister\<close> sends once it released the lock are taken with its critical section.
\<close>

section \<open>Data\<close>

datatype relay_error =
    AgentGatewayUnavailable
  | RelayBackpressure
  | RelayTimeout
  | RelayCancelled
  | AgentGateway string

record endpoint_route =
  route_endpoint_id :: uuid
  route_profile_id :: uuid
  route_binding_id :: uuid
  route_gateway_id :: string
  route_agent_id :: string
  route_binding_config :: json

record invoke_command =
  ic_request_id :: uuid
  ic_channel_id :: u64
  ic_endpoint_id :: uuid
  ic_profile_id :: uuid
  ic_binding_id :: uuid
  ic_agent_id :: string
  ic_binding :: json
  ic_input :: json
  ic_timeout_ms :: u64

record feedback_command =
  fc_request_id :: uuid
  fc_observation_id :: uuid
  fc_start_offset_ms :: u64
  fc_end_offset_ms :: u64
  fc_feedback :: json

datatype gateway_command =
    InvokeCommand invoke_command
  | ErrorCommand "uuid option" "u64 option" string string
  | CancelCommand uuid u64
  | RuntimeConfigChanged "uuid list"
  | ApplicationFeedback feedback_command

record command_channel =
  channel_queue :: "gateway_command list"
  channel_closed :: bool

record gateway_connection =
  gc_connection_id :: uuid
  gc_session_id :: uuid
  gc_sender :: nat
  gc_feedback_supported :: bool
  gc_activity_supported :: bool

record pending_call =
  pc_connection_id :: uuid
  pc_channel_id :: u64
  pc_call :: nat

datatype relay_phase =
    RelayAdmitted invoke_command
  | RelayRejected relay_error
  | RelayWaiting
  | RelayAborting relay_error
  | RelayReturned "(relay_error, json) result"
  | RelayDropped

record relay_call =
  rc_request_id :: uuid
  rc_connection_id :: uuid
  rc_channel_id :: u64
  rc_sender :: nat
  rc_activity_supported :: bool
  rc_response :: "(relay_error, json) result option"
  rc_activity :: u64
  rc_changed :: bool
  rc_phase :: relay_phase

record relay_hub =
  hub_connections :: "(string \<times> gateway_connection) list"
  hub_pending :: "(uuid \<times> pending_call) list"
  hub_next_channel_id :: u64
  hub_capacity :: nat
  hub_channels :: "nat \<rightharpoonup> command_channel"
  hub_calls :: "nat \<rightharpoonup> relay_call"
  hub_aborts :: "(uuid \<times> u64 \<times> nat) list"
  hub_sends :: "(nat \<times> gateway_command) list"

definition relay_new :: "nat \<Rightarrow> relay_hub" where
  "relay_new capacity =
     \<lparr>hub_connections = [], hub_pending = [], hub_next_channel_id = 1, hub_capacity = capacity,
      hub_channels = Map.empty, hub_calls = Map.empty, hub_aborts = [], hub_sends = []\<rparr>"

section \<open>Command channels\<close>

datatype send_error = ChannelFull | ChannelClosed

definition try_send :: "nat \<Rightarrow> gateway_command \<Rightarrow> relay_hub \<Rightarrow> (send_error, relay_hub) result" where
  "try_send i command hub =
     (case hub_channels hub i of
        None \<Rightarrow> Inl ChannelClosed
      | Some ch \<Rightarrow>
          if channel_closed ch then Inl ChannelClosed
          else if hub_capacity hub \<le> length (channel_queue ch) then Inl ChannelFull
          else Inr (hub\<lparr>hub_channels := (hub_channels hub)(i \<mapsto>
                 ch\<lparr>channel_queue := channel_queue ch @ [command]\<rparr>)\<rparr>))"

text \<open>\<open>let _ = sender.try_send(..)\<close> and \<open>sender.try_send(..).is_ok()\<close>.\<close>

definition send_or_drop :: "nat \<Rightarrow> gateway_command \<Rightarrow> relay_hub \<Rightarrow> bool \<times> relay_hub" where
  "send_or_drop i command hub =
     (case try_send i command hub of Inl _ \<Rightarrow> (False, hub) | Inr hub' \<Rightarrow> (True, hub'))"

definition open_channel :: "nat \<Rightarrow> relay_hub \<Rightarrow> relay_hub" where
  "open_channel i hub = hub\<lparr>hub_channels := (hub_channels hub)(i \<mapsto>
     \<lparr>channel_queue = [], channel_closed = False\<rparr>)\<rparr>"

definition queue_invocation_cancel :: "nat \<Rightarrow> uuid \<Rightarrow> u64 \<Rightarrow> relay_hub \<Rightarrow> relay_hub" where
  "queue_invocation_cancel i request_id channel_id hub =
     (case try_send i (CancelCommand request_id channel_id) hub of
        Inr hub' \<Rightarrow> hub'
      | Inl ChannelClosed \<Rightarrow> hub
      | Inl ChannelFull \<Rightarrow>
          hub\<lparr>hub_sends := hub_sends hub @ [(i, CancelCommand request_id channel_id)]\<rparr>)"

section \<open>Connections\<close>

definition relay_register :: "string \<Rightarrow> gateway_connection \<Rightarrow> relay_hub \<Rightarrow> relay_hub" where
  "relay_register gateway_id connection hub =
     (let replaced = map_of (hub_connections hub) gateway_id;
          hub1 = hub\<lparr>hub_connections :=
            AList.update gateway_id connection (hub_connections hub)\<rparr>
      in case replaced of
           None \<Rightarrow> hub1
         | Some old \<Rightarrow> snd (send_or_drop (gc_sender old) (ErrorCommand None None ''SESSION_REPLACED''
             ''A newer connection replaced this agent gateway session.'') hub1))"

text \<open>
  Sending through a call's oneshot: it fails when the receiver is gone. The receiver lives until
  the call's future returns or is dropped.
\<close>

definition open_call :: "relay_call \<Rightarrow> bool" where
  "open_call c =
     (case rc_phase c of RelayReturned result \<Rightarrow> False | RelayDropped \<Rightarrow> False | other \<Rightarrow> True)"

definition send_response ::
    "nat \<Rightarrow> (relay_error, json) result \<Rightarrow> relay_hub \<Rightarrow> bool \<times> relay_hub" where
  "send_response n result hub =
     (case hub_calls hub n of
        None \<Rightarrow> (False, hub)
      | Some c \<Rightarrow>
          if open_call c
          then (True, hub\<lparr>hub_calls := (hub_calls hub)(n \<mapsto> c\<lparr>rc_response := Some result\<rparr>)\<rparr>)
          else (False, hub))"

definition relay_unregister :: "string \<Rightarrow> uuid \<Rightarrow> relay_hub \<Rightarrow> bool \<times> relay_hub" where
  "relay_unregister gateway_id connection_id hub =
     (let current = (case map_of (hub_connections hub) gateway_id of
            None \<Rightarrow> False | Some c \<Rightarrow> gc_connection_id c = connection_id);
          hub1 = (if current
            then hub\<lparr>hub_connections := AList.delete gateway_id (hub_connections hub)\<rparr> else hub);
          removed = filter (\<lambda>(_, p). pc_connection_id p = connection_id) (hub_pending hub1);
          hub2 = hub1\<lparr>hub_pending :=
            filter (\<lambda>(_, p). pc_connection_id p \<noteq> connection_id) (hub_pending hub1)\<rparr>
      in (current, fold (\<lambda>(_, p) h. snd (send_response (pc_call p) (Inl AgentGatewayUnavailable) h))
            removed hub2))"

definition session_for :: "string \<Rightarrow> relay_hub \<Rightarrow> uuid option" where
  "session_for gateway_id hub = map_option gc_session_id (map_of (hub_connections hub) gateway_id)"

definition connection_count :: "relay_hub \<Rightarrow> nat" where
  "connection_count hub = length (hub_connections hub)"

definition relay_disconnect :: "string \<Rightarrow> string \<Rightarrow> relay_hub \<Rightarrow> bool \<times> relay_hub" where
  "relay_disconnect gateway_id code hub =
     (case map_of (hub_connections hub) gateway_id of
        None \<Rightarrow> (False, hub)
      | Some c \<Rightarrow> send_or_drop (gc_sender c) (ErrorCommand None None code
          ''The agent gateway credential is no longer active.'') hub)"

definition notify_runtime_config :: "string \<Rightarrow> uuid list \<Rightarrow> relay_hub \<Rightarrow> bool \<times> relay_hub" where
  "notify_runtime_config gateway_id deployment_ids hub =
     (case map_of (hub_connections hub) gateway_id of
        None \<Rightarrow> (False, hub)
      | Some c \<Rightarrow> send_or_drop (gc_sender c) (RuntimeConfigChanged deployment_ids) hub)"

definition notify_application_feedback ::
    "uuid option \<Rightarrow> feedback_command \<Rightarrow> relay_hub \<Rightarrow> bool \<times> relay_hub" where
  "notify_application_feedback session_id feedback hub =
     (case session_id of
        None \<Rightarrow> (False, hub)
      | Some sid \<Rightarrow>
          (case find (\<lambda>c. gc_session_id c = sid \<and> gc_feedback_supported c)
              (map snd (hub_connections hub)) of
             None \<Rightarrow> (False, hub)
           | Some c \<Rightarrow> send_or_drop (gc_sender c) (ApplicationFeedback feedback) hub))"

section \<open>Invocations\<close>

text \<open>\<open>state.next_channel_id.max(1)\<close>; identifiers wrap but are never zero.\<close>

definition next_channel_id :: "u64 \<Rightarrow> u64 \<times> u64" where
  "next_channel_id n = (let channel_id = max n 1 in (channel_id, max (channel_id + 1) 1))"

definition relay_command ::
    "endpoint_route \<Rightarrow> uuid \<Rightarrow> u64 \<Rightarrow> json \<Rightarrow> u64 \<Rightarrow> invoke_command" where
  "relay_command route request_id channel_id input timeout_ms =
     \<lparr>ic_request_id = request_id, ic_channel_id = channel_id,
      ic_endpoint_id = route_endpoint_id route, ic_profile_id = route_profile_id route,
      ic_binding_id = route_binding_id route, ic_agent_id = route_agent_id route,
      ic_binding = route_binding_config route, ic_input = input, ic_timeout_ms = timeout_ms\<rparr>"

text \<open>The critical section of \<open>invoke_with_provider_events\<close>; \<open>n\<close> numbers the call.\<close>

definition relay_admit ::
    "nat \<Rightarrow> endpoint_route \<Rightarrow> uuid \<Rightarrow> json \<Rightarrow> u64 \<Rightarrow> relay_hub \<Rightarrow> (relay_error, relay_hub) result" where
  "relay_admit n route request_id input timeout_ms hub =
     (case map_of (hub_connections hub) (route_gateway_id route) of
        None \<Rightarrow> Inl AgentGatewayUnavailable
      | Some connection \<Rightarrow>
          (case next_channel_id (hub_next_channel_id hub) of (channel_id, next) \<Rightarrow>
           Inr (hub\<lparr>hub_next_channel_id := next,
             hub_pending := AList.update request_id
               \<lparr>pc_connection_id = gc_connection_id connection, pc_channel_id = channel_id,
                pc_call = n\<rparr> (hub_pending hub),
             hub_calls := (hub_calls hub)(n \<mapsto>
               \<lparr>rc_request_id = request_id, rc_connection_id = gc_connection_id connection,
                rc_channel_id = channel_id, rc_sender = gc_sender connection,
                rc_activity_supported = gc_activity_supported connection, rc_response = None,
                rc_activity = 0, rc_changed = False,
                rc_phase = RelayAdmitted
                  (relay_command route request_id channel_id input timeout_ms)\<rparr>)\<rparr>)))"

definition remove_pending :: "uuid \<Rightarrow> relay_hub \<Rightarrow> relay_hub" where
  "remove_pending request_id hub = hub\<lparr>hub_pending := AList.delete request_id (hub_pending hub)\<rparr>"

definition set_relay_phase :: "nat \<Rightarrow> relay_call \<Rightarrow> relay_phase \<Rightarrow> relay_hub \<Rightarrow> relay_hub" where
  "set_relay_phase n c phase hub =
     hub\<lparr>hub_calls := (hub_calls hub)(n \<mapsto> c\<lparr>rc_phase := phase\<rparr>)\<rparr>"

text \<open>A full or closed channel rejects the call, which then waits for the hub's lock to clean up.\<close>

definition relay_dispatch :: "nat \<Rightarrow> relay_call \<Rightarrow> invoke_command \<Rightarrow> relay_hub \<Rightarrow> relay_hub" where
  "relay_dispatch n c command hub =
     (case try_send (rc_sender c) (InvokeCommand command) hub of
        Inl e \<Rightarrow>
          set_relay_phase n c (RelayRejected (case e of
              ChannelFull \<Rightarrow> RelayBackpressure | ChannelClosed \<Rightarrow> AgentGatewayUnavailable)) hub
      | Inr hub' \<Rightarrow> set_relay_phase n c RelayWaiting hub')"

definition relay_rejected :: "nat \<Rightarrow> relay_call \<Rightarrow> relay_error \<Rightarrow> relay_hub \<Rightarrow> relay_hub" where
  "relay_rejected n c e hub =
     set_relay_phase n c (RelayReturned (Inl e)) (remove_pending (rc_request_id c) hub)"

text \<open>
  \<open>PendingInvocation::abort\<close>: the guard is disarmed (phase \<open>RelayAborting\<close>) before the hub's lock is
  awaited; with the lock the entry goes, the cancel command is queued and the call returns.
\<close>

definition relay_abort :: "uuid \<Rightarrow> u64 \<Rightarrow> nat \<Rightarrow> relay_hub \<Rightarrow> relay_hub" where
  "relay_abort request_id channel_id sender hub =
     queue_invocation_cancel sender request_id channel_id (remove_pending request_id hub)"

definition relay_aborted :: "nat \<Rightarrow> relay_call \<Rightarrow> relay_error \<Rightarrow> relay_hub \<Rightarrow> relay_hub" where
  "relay_aborted n c e hub =
     set_relay_phase n c (RelayReturned (Inl e))
       (relay_abort (rc_request_id c) (rc_channel_id c) (rc_sender c) hub)"

text \<open>The oneshot and the watch channel are closed when their senders, kept in \<open>pending\<close>, go.\<close>

definition sender_gone :: "nat \<Rightarrow> relay_hub \<Rightarrow> bool" where
  "sender_gone n hub \<longleftrightarrow> \<not> list_ex (\<lambda>(_, p). pc_call p = n) (hub_pending hub)"

definition response_ready :: "nat \<Rightarrow> relay_call \<Rightarrow> relay_hub \<Rightarrow> bool" where
  "response_ready n c hub \<longleftrightarrow> rc_response c \<noteq> None \<or> sender_gone n hub"

text \<open>One round of the biased \<open>select!\<close>; \<open>None\<close> when nothing is ready.\<close>

definition relay_select ::
    "nat \<Rightarrow> relay_call \<Rightarrow> bool \<Rightarrow> bool \<Rightarrow> relay_hub \<Rightarrow> relay_hub option" where
  "relay_select n c cancelled idle hub =
     (if response_ready n c hub
      then Some (set_relay_phase n c (RelayReturned (case rc_response c of
          Some result \<Rightarrow> result | None \<Rightarrow> Inl AgentGatewayUnavailable)) hub)
      else if rc_activity_supported c \<and> rc_changed c
      then Some (hub\<lparr>hub_calls := (hub_calls hub)(n \<mapsto> c\<lparr>rc_changed := False\<rparr>)\<rparr>)
      else if rc_activity_supported c \<and> sender_gone n hub
      then Some (set_relay_phase n c (RelayAborting AgentGatewayUnavailable) hub)
      else if cancelled then Some (set_relay_phase n c (RelayAborting RelayCancelled) hub)
      else if idle then Some (set_relay_phase n c (RelayAborting RelayTimeout) hub)
      else None)"

text \<open>
  Dropping the future of a call. The guard \<open>PendingInvocation\<close> exists while the call waits, and its
  \<open>Drop\<close> spawns the clean-up; before it is built, and once \<open>abort\<close> disarmed it, a drop cleans up
  nothing.
\<close>

definition relay_drop :: "nat \<Rightarrow> relay_call \<Rightarrow> relay_hub \<Rightarrow> relay_hub" where
  "relay_drop n c hub =
     set_relay_phase n c RelayDropped
       (if rc_phase c = RelayWaiting
        then hub\<lparr>hub_aborts := hub_aborts hub @ [(rc_request_id c, rc_channel_id c, rc_sender c)]\<rparr>
        else hub)"

section \<open>What the gateway reports\<close>

definition record_invocation_activity :: "uuid \<Rightarrow> uuid \<Rightarrow> u64 \<Rightarrow> relay_hub \<Rightarrow> bool \<times> relay_hub" where
  "record_invocation_activity connection_id request_id channel_id hub =
     (case map_of (hub_pending hub) request_id of
        None \<Rightarrow> (False, hub)
      | Some p \<Rightarrow>
          if pc_connection_id p \<noteq> connection_id \<or> pc_channel_id p \<noteq> channel_id then (False, hub)
          else (True, case hub_calls hub (pc_call p) of
              None \<Rightarrow> hub
            | Some c \<Rightarrow> hub\<lparr>hub_calls := (hub_calls hub)(pc_call p \<mapsto>
                c\<lparr>rc_activity := saturating_add (rc_activity c) 1, rc_changed := True\<rparr>)\<rparr>))"

definition relay_complete ::
    "uuid \<Rightarrow> uuid \<Rightarrow> u64 \<Rightarrow> (relay_error, json) result \<Rightarrow> relay_hub \<Rightarrow> bool \<times> relay_hub" where
  "relay_complete connection_id request_id channel_id result hub =
     (case map_of (hub_pending hub) request_id of
        None \<Rightarrow> (False, hub)
      | Some p \<Rightarrow>
          if pc_connection_id p = connection_id \<and> pc_channel_id p = channel_id
          then send_response (pc_call p) result (remove_pending request_id hub)
          else (False, hub))"

definition complete_result :: "uuid \<Rightarrow> uuid \<Rightarrow> u64 \<Rightarrow> json \<Rightarrow> relay_hub \<Rightarrow> bool \<times> relay_hub" where
  "complete_result connection_id request_id channel_id out =
     relay_complete connection_id request_id channel_id (Inr out)"

definition complete_error :: "uuid \<Rightarrow> uuid \<Rightarrow> u64 \<Rightarrow> string \<Rightarrow> relay_hub \<Rightarrow> bool \<times> relay_hub" where
  "complete_error connection_id request_id channel_id message =
     relay_complete connection_id request_id channel_id (Inl (AgentGateway message))"

section \<open>The hub as a provider of the runtime\<close>

definition MAX_INVOCATION_BODY_BYTES :: nat where "MAX_INVOCATION_BODY_BYTES = 16777216"

text \<open>The input sent to the gateway; \<open>base64\<close> is the standard encoding.\<close>

definition relay_input :: "(char list \<Rightarrow> string) \<Rightarrow> provider_request \<Rightarrow> json rt" where
  "relay_input base64 request =
     (case request_data request of
        Json input \<Rightarrow> Inr input
      | Binary bytes \<Rightarrow>
          if MAX_INVOCATION_BODY_BYTES < length (base64 bytes)
          then Inl (InvalidDefinition ''agent gateway binary input is too large'')
          else Inr (JObject [(''_vifuBinary'', JObject
            [(''data'', JString (base64 bytes)), (''encoding'', JString ''base64''),
             (''metadata'', request_metadata request)])]))"

fun relay_runtime_error :: "string \<Rightarrow> u64 \<Rightarrow> relay_error \<Rightarrow> runtime_error" where
  "relay_runtime_error name timeout_ms AgentGatewayUnavailable = Unavailable name"
| "relay_runtime_error name timeout_ms RelayBackpressure = Backpressure name"
| "relay_runtime_error name timeout_ms RelayTimeout = Timeout timeout_ms"
| "relay_runtime_error name timeout_ms RelayCancelled = Cancelled"
| "relay_runtime_error name timeout_ms (AgentGateway message) = Provider name message"

definition relay_provider_response ::
    "string \<Rightarrow> u64 \<Rightarrow> (relay_error, json) result \<Rightarrow> provider_response rt" where
  "relay_provider_response name timeout_ms result =
     (case result of
        Inl e \<Rightarrow> Inl (relay_runtime_error name timeout_ms e)
      | Inr out \<Rightarrow> Inr (ProviderResponse_json out))"

section \<open>The steps of the hub\<close>

text \<open>
  Tasks of the server run the hub's critical sections in any order; what a step takes from outside
  (the connection, the gateway's report, whether the call was cancelled or its timer ran out) is
  arbitrary.
\<close>

inductive hub_step :: "relay_hub \<Rightarrow> relay_hub \<Rightarrow> bool" where
  hub_register: "hub_step hub (relay_register gateway_id connection hub)"
| hub_channel: "hub_channels hub i = None \<Longrightarrow> hub_step hub (open_channel i hub)"
| hub_unregister: "hub_step hub (snd (relay_unregister gateway_id connection_id hub))"
| hub_disconnect: "hub_step hub (snd (relay_disconnect gateway_id code hub))"
| hub_config: "hub_step hub (snd (notify_runtime_config gateway_id deployment_ids hub))"
| hub_feedback: "hub_step hub (snd (notify_application_feedback session_id feedback hub))"
| hub_admit: "hub_calls hub n = None \<Longrightarrow>
    relay_admit n route request_id input timeout_ms hub = Inr hub' \<Longrightarrow> hub_step hub hub'"
| hub_dispatch: "hub_calls hub n = Some c \<Longrightarrow> rc_phase c = RelayAdmitted command \<Longrightarrow>
    hub_step hub (relay_dispatch n c command hub)"
| hub_rejected: "hub_calls hub n = Some c \<Longrightarrow> rc_phase c = RelayRejected e \<Longrightarrow>
    hub_step hub (relay_rejected n c e hub)"
| hub_select: "hub_calls hub n = Some c \<Longrightarrow> rc_phase c = RelayWaiting \<Longrightarrow>
    relay_select n c cancelled idle hub = Some hub' \<Longrightarrow> hub_step hub hub'"
| hub_aborted: "hub_calls hub n = Some c \<Longrightarrow> rc_phase c = RelayAborting e \<Longrightarrow>
    hub_step hub (relay_aborted n c e hub)"
| hub_drop: "hub_calls hub n = Some c \<Longrightarrow>
    rc_phase c = RelayWaiting \<or> rc_phase c = RelayRejected e \<or> rc_phase c = RelayAborting e \<Longrightarrow>
    hub_step hub (relay_drop n c hub)"
| hub_clean_up: "hub_aborts hub = xs @ (request_id, channel_id, sender) # ys \<Longrightarrow>
    hub_step hub (relay_abort request_id channel_id sender (hub\<lparr>hub_aborts := xs @ ys\<rparr>))"
| hub_deferred_send: "hub_sends hub = xs @ (i, command) # ys \<Longrightarrow>
    try_send i command hub \<noteq> Inl ChannelFull \<Longrightarrow>
    hub_step hub (snd (send_or_drop i command (hub\<lparr>hub_sends := xs @ ys\<rparr>)))"
| hub_activity: "hub_step hub (snd (record_invocation_activity connection_id request_id channel_id hub))"
| hub_complete: "hub_step hub (snd (relay_complete connection_id request_id channel_id result hub))"
| hub_receive: "hub_channels hub i = Some ch \<Longrightarrow> channel_queue ch = command # rest \<Longrightarrow>
    hub_step hub (hub\<lparr>hub_channels := (hub_channels hub)(i \<mapsto> ch\<lparr>channel_queue := rest\<rparr>)\<rparr>)"
| hub_close: "hub_channels hub i = Some ch \<Longrightarrow>
    hub_step hub (hub\<lparr>hub_channels := (hub_channels hub)(i \<mapsto> ch\<lparr>channel_closed := True\<rparr>)\<rparr>)"

inductive hub_steps :: "relay_hub \<Rightarrow> relay_hub \<Rightarrow> bool" where
  hub_steps_refl: "hub_steps hub hub"
| hub_steps_step: "hub_steps hub hub' \<Longrightarrow> hub_step hub' hub'' \<Longrightarrow> hub_steps hub hub''"

lemma hub_steps_trans: "hub_steps h h' \<Longrightarrow> hub_steps h' h'' \<Longrightarrow> hub_steps h h''"
  by (rotate_tac, induction rule: hub_steps.induct) (auto intro: hub_steps.intros)

lemma hub_steps_one: "hub_step h h' \<Longrightarrow> hub_steps h h'"
  by (rule hub_steps_step[OF hub_steps_refl])

section \<open>What the operations leave alone\<close>

named_theorems hub_frame

lemma try_send_frame:
  "try_send i command hub = Inr hub' \<Longrightarrow> hub' = hub\<lparr>hub_channels := hub_channels hub'\<rparr>"
  by (auto simp: try_send_def split: option.splits if_splits)

lemma try_send_same [hub_frame]:
  assumes "try_send i command hub = Inr hub'"
  shows "hub_calls hub' = hub_calls hub" "hub_pending hub' = hub_pending hub"
    "hub_connections hub' = hub_connections hub" "hub_next_channel_id hub' = hub_next_channel_id hub"
    "hub_aborts hub' = hub_aborts hub"
  by (subst try_send_frame[OF assms], simp)+

lemma send_or_drop_same [simp]:
  "hub_calls (snd (send_or_drop i command hub)) = hub_calls hub"
  "hub_pending (snd (send_or_drop i command hub)) = hub_pending hub"
  "hub_connections (snd (send_or_drop i command hub)) = hub_connections hub"
  "hub_next_channel_id (snd (send_or_drop i command hub)) = hub_next_channel_id hub"
  by (auto simp: send_or_drop_def hub_frame split: sum.splits)

lemma queue_cancel_same [simp]:
  "hub_calls (queue_invocation_cancel i r ch hub) = hub_calls hub"
  "hub_pending (queue_invocation_cancel i r ch hub) = hub_pending hub"
  "hub_connections (queue_invocation_cancel i r ch hub) = hub_connections hub"
  "hub_next_channel_id (queue_invocation_cancel i r ch hub) = hub_next_channel_id hub"
  by (auto simp: queue_invocation_cancel_def hub_frame split: sum.splits send_error.splits)

lemma remove_pending_same [simp]:
  "hub_calls (remove_pending r hub) = hub_calls hub"
  "hub_pending (remove_pending r hub) = AList.delete r (hub_pending hub)"
  "hub_connections (remove_pending r hub) = hub_connections hub"
  "hub_next_channel_id (remove_pending r hub) = hub_next_channel_id hub"
  by (simp_all add: remove_pending_def)

lemma set_relay_phase_same [simp]:
  "hub_calls (set_relay_phase n c phase hub) = (hub_calls hub)(n \<mapsto> c\<lparr>rc_phase := phase\<rparr>)"
  "hub_pending (set_relay_phase n c phase hub) = hub_pending hub"
  "hub_connections (set_relay_phase n c phase hub) = hub_connections hub"
  "hub_next_channel_id (set_relay_phase n c phase hub) = hub_next_channel_id hub"
  by (simp_all add: set_relay_phase_def)

lemma relay_abort_same [simp]:
  "hub_calls (relay_abort r ch i hub) = hub_calls hub"
  "hub_pending (relay_abort r ch i hub) = AList.delete r (hub_pending hub)"
  "hub_connections (relay_abort r ch i hub) = hub_connections hub"
  "hub_next_channel_id (relay_abort r ch i hub) = hub_next_channel_id hub"
  by (simp_all add: relay_abort_def)

text \<open>Responses as a function on the calls.\<close>

definition respond :: "(relay_error, json) result \<Rightarrow> relay_call \<Rightarrow> relay_call" where
  "respond result c = (if open_call c then c\<lparr>rc_response := Some result\<rparr> else c)"

lemma open_call_response [simp]: "open_call (c\<lparr>rc_response := x\<rparr>) = open_call c"
  by (simp add: open_call_def)

lemma send_response_same [simp]:
  "hub_pending (snd (send_response n result hub)) = hub_pending hub"
  "hub_connections (snd (send_response n result hub)) = hub_connections hub"
  "hub_next_channel_id (snd (send_response n result hub)) = hub_next_channel_id hub"
  by (auto simp: send_response_def split: option.splits)

lemma send_response_calls [simp]:
  "hub_calls (snd (send_response n result hub)) m =
     (if m = n then map_option (respond result) (hub_calls hub m) else hub_calls hub m)"
  by (auto simp: send_response_def respond_def split: option.splits)

lemma send_response_true:
  "fst (send_response n result hub) \<longleftrightarrow> (\<exists>c. hub_calls hub n = Some c \<and> open_call c)"
  by (auto simp: send_response_def split: option.splits)

lemma respond_twice [simp]: "respond result (respond result c) = respond result c"
  by (simp add: respond_def)

lemma send_responses_same:
  "hub_pending (fold (\<lambda>(_, p) h. snd (send_response (pc_call p) result h)) ps hub) = hub_pending hub"
  "hub_connections (fold (\<lambda>(_, p) h. snd (send_response (pc_call p) result h)) ps hub) =
     hub_connections hub"
  "hub_next_channel_id (fold (\<lambda>(_, p) h. snd (send_response (pc_call p) result h)) ps hub) =
     hub_next_channel_id hub"
  by (induction ps arbitrary: hub) (auto split: prod.splits)

lemma send_responses_calls:
  "hub_calls (fold (\<lambda>(_, p) h. snd (send_response (pc_call p) result h)) ps hub) n =
     (if n \<in> (pc_call \<circ> snd) ` set ps then map_option (respond result) (hub_calls hub n)
      else hub_calls hub n)"
proof (induction ps arbitrary: hub)
  case (Cons x ps)
  then show ?case
    by (cases x) (auto simp: option.map_comp o_def)
qed simp

lemma unregister_pending:
  "hub_pending (snd (relay_unregister gateway_id connection_id hub)) =
     filter (\<lambda>(_, p). pc_connection_id p \<noteq> connection_id) (hub_pending hub)"
  by (simp add: relay_unregister_def Let_def send_responses_same)

lemma unregister_calls:
  "hub_calls (snd (relay_unregister gateway_id connection_id hub)) n =
     (if \<exists>r p. (r, p) \<in> set (hub_pending hub) \<and> pc_connection_id p = connection_id \<and> pc_call p = n
      then map_option (respond (Inl AgentGatewayUnavailable)) (hub_calls hub n)
      else hub_calls hub n)"
  by (auto simp: relay_unregister_def Let_def send_responses_calls image_iff)

lemma notifications_same [simp]:
  "hub_calls (snd (relay_disconnect g code hub)) = hub_calls hub"
  "hub_pending (snd (relay_disconnect g code hub)) = hub_pending hub"
  "hub_calls (snd (notify_runtime_config g ids hub)) = hub_calls hub"
  "hub_pending (snd (notify_runtime_config g ids hub)) = hub_pending hub"
  "hub_calls (snd (notify_application_feedback s feedback hub)) = hub_calls hub"
  "hub_pending (snd (notify_application_feedback s feedback hub)) = hub_pending hub"
  by (auto simp: relay_disconnect_def notify_runtime_config_def notify_application_feedback_def
    split: option.splits)

lemma register_same [simp]:
  "hub_calls (relay_register g c hub) = hub_calls hub"
  "hub_pending (relay_register g c hub) = hub_pending hub"
  by (auto simp: relay_register_def Let_def split: option.splits)

lemma next_channel_id_nonzero: "next_channel_id n = (ch, next) \<Longrightarrow> ch \<noteq> 0"
  by (auto simp: next_channel_id_def Let_def max_def split: if_splits)

section \<open>The invariant of the hub\<close>

text \<open>
  Every entry of \<open>pending\<close> belongs to a call that is still unanswered, under the call's own request,
  connection and channel; no call has channel zero.
\<close>

definition pending_ok :: "(nat \<rightharpoonup> relay_call) \<Rightarrow> uuid \<times> pending_call \<Rightarrow> bool" where
  "pending_ok calls e \<longleftrightarrow>
     (\<exists>c. calls (pc_call (snd e)) = Some c \<and> rc_request_id c = fst e \<and>
        rc_connection_id c = pc_connection_id (snd e) \<and> rc_channel_id c = pc_channel_id (snd e) \<and>
        rc_response c = None \<and> (\<forall>result. rc_phase c \<noteq> RelayReturned result))"

definition hub_inv :: "relay_hub \<Rightarrow> bool" where
  "hub_inv hub \<longleftrightarrow>
     distinct (map fst (hub_pending hub)) \<and>
     (\<forall>e \<in> set (hub_pending hub). pending_ok (hub_calls hub) e) \<and>
     (\<forall>n c. hub_calls hub n = Some c \<longrightarrow> rc_channel_id c \<noteq> 0)"

lemma hub_invI:
  assumes "distinct (map fst (hub_pending hub))"
    "\<And>r p. (r, p) \<in> set (hub_pending hub) \<Longrightarrow> pending_ok (hub_calls hub) (r, p)"
    "\<And>n c. hub_calls hub n = Some c \<Longrightarrow> rc_channel_id c \<noteq> 0"
  shows "hub_inv hub"
  using assms by (auto simp: hub_inv_def)

lemma hub_inv_pending:
  assumes "hub_inv hub" "(r, p) \<in> set (hub_pending hub)"
  obtains c where "hub_calls hub (pc_call p) = Some c" "rc_request_id c = r"
    "rc_connection_id c = pc_connection_id p" "rc_channel_id c = pc_channel_id p"
    "rc_response c = None" "\<And>result. rc_phase c \<noteq> RelayReturned result"
  using assms by (force simp: hub_inv_def pending_ok_def)

lemma hub_inv_channel: "hub_inv hub \<Longrightarrow> hub_calls hub n = Some c \<Longrightarrow> rc_channel_id c \<noteq> 0"
  by (simp add: hub_inv_def)

lemma hub_inv_distinct: "hub_inv hub \<Longrightarrow> distinct (map fst (hub_pending hub))"
  by (simp add: hub_inv_def)

lemma hub_inv_new: "hub_inv (relay_new capacity)"
  by (simp add: hub_inv_def relay_new_def)

lemma hub_inv_same:
  assumes "hub_inv hub" "hub_pending hub' = hub_pending hub" "hub_calls hub' = hub_calls hub"
  shows "hub_inv hub'"
  using assms by (simp add: hub_inv_def)

lemma delete_pending_entry:
  "(r', p) \<in> set (AList.delete r ps) \<longleftrightarrow> (r', p) \<in> set ps \<and> r' \<noteq> r"
  by (induction ps) auto

lemma update_pending_entry:
  "(r', p) \<in> set (AList.update r q ps) \<Longrightarrow> r' = r \<and> p = q \<or> (r', p) \<in> set ps"
  by (induction ps) (auto split: if_splits)

text \<open>
  Replacing a call by one that keeps its identity and is still unanswered preserves the invariant;
  so does any replacement once the call's entry is gone.
\<close>

lemma hub_inv_replace:
  assumes inv: "hub_inv hub" and call: "hub_calls hub n = Some c"
    and calls: "hub_calls hub' = (hub_calls hub)(n \<mapsto> c')"
    and pending: "set (hub_pending hub') \<subseteq> set (hub_pending hub)" "distinct (map fst (hub_pending hub'))"
    and same: "rc_request_id c' = rc_request_id c" "rc_connection_id c' = rc_connection_id c"
      "rc_channel_id c' = rc_channel_id c"
    and open_or_gone: "rc_response c' = rc_response c \<and> (\<forall>result. rc_phase c' \<noteq> RelayReturned result) \<or>
      (\<forall>r p. (r, p) \<in> set (hub_pending hub') \<longrightarrow> pc_call p \<noteq> n)"
  shows "hub_inv hub'"
proof (rule hub_invI)
  fix r p assume entry: "(r, p) \<in> set (hub_pending hub')"
  then have "(r, p) \<in> set (hub_pending hub)"
    using pending by auto
  then obtain d where d: "hub_calls hub (pc_call p) = Some d" "rc_request_id d = r"
    "rc_connection_id d = pc_connection_id p" "rc_channel_id d = pc_channel_id p"
    "rc_response d = None" "\<And>result. rc_phase d \<noteq> RelayReturned result"
    by (rule hub_inv_pending[OF inv]) blast
  show "pending_ok (hub_calls hub') (r, p)"
  proof (cases "pc_call p = n")
    case True
    then have "d = c"
      using d(1) call by simp
    then show ?thesis
      using open_or_gone entry True d same by (auto simp: pending_ok_def calls)
  next
    case False
    then show ?thesis
      using d by (auto simp: pending_ok_def calls)
  qed
next
  fix m d assume "hub_calls hub' m = Some d"
  then show "rc_channel_id d \<noteq> 0"
    using hub_inv_channel[OF inv] call same by (auto simp: calls split: if_splits)
qed (rule pending(2))

text \<open>The entry of a call carries its request, so removing that request's entry removes the call's.\<close>

lemma entry_request:
  assumes "hub_inv hub" "hub_calls hub (pc_call p) = Some c" "(r, p) \<in> set (hub_pending hub)"
  shows "r = rc_request_id c"
  using assms by (auto elim!: hub_inv_pending[of hub r p])

lemma sender_gone_iff: "sender_gone n hub \<longleftrightarrow> (\<forall>r p. (r, p) \<in> set (hub_pending hub) \<longrightarrow> pc_call p \<noteq> n)"
  by (auto simp: sender_gone_def list_ex_iff)

lemma answered_sender_gone:
  assumes "hub_inv hub" "hub_calls hub n = Some c" "rc_response c = Some result"
  shows "sender_gone n hub"
  using assms by (auto simp: sender_gone_iff elim!: hub_inv_pending[of hub])

lemma hub_inv_phase:
  assumes "hub_inv hub" "hub_calls hub n = Some c"
    "(\<forall>result. phase \<noteq> RelayReturned result) \<or> sender_gone n hub"
  shows "hub_inv (set_relay_phase n c phase hub)"
  by (rule hub_inv_replace[OF assms(1,2), where c' = "c\<lparr>rc_phase := phase\<rparr>"])
    (use assms(3) hub_inv_distinct[OF assms(1)] in \<open>auto simp: sender_gone_iff\<close>)

lemma hub_inv_delete:
  assumes "hub_inv hub" "hub_pending hub' = AList.delete r (hub_pending hub)"
    "hub_calls hub' = hub_calls hub"
  shows "hub_inv hub'"
  using assms by (intro hub_invI) (auto simp: delete_pending_entry hub_inv_def intro: distinct_delete)

lemma hub_inv_register: "hub_inv hub \<Longrightarrow> hub_inv (relay_register g c hub)"
  by (rule hub_inv_same) simp_all

lemma hub_inv_unregister:
  assumes inv: "hub_inv hub"
  shows "hub_inv (snd (relay_unregister g cid hub))"
proof (rule hub_invI)
  show "distinct (map fst (hub_pending (snd (relay_unregister g cid hub))))"
    using hub_inv_distinct[OF inv] by (simp add: unregister_pending distinct_map_filter)
next
  fix r p assume "(r, p) \<in> set (hub_pending (snd (relay_unregister g cid hub)))"
  then have entry: "(r, p) \<in> set (hub_pending hub)" "pc_connection_id p \<noteq> cid"
    by (auto simp: unregister_pending)
  from entry(1) obtain c where c: "hub_calls hub (pc_call p) = Some c" "rc_request_id c = r"
    "rc_connection_id c = pc_connection_id p" "rc_channel_id c = pc_channel_id p"
    "rc_response c = None" "\<And>result. rc_phase c \<noteq> RelayReturned result"
    by (rule hub_inv_pending[OF inv]) blast
  have "\<not> (\<exists>r' p'. (r', p') \<in> set (hub_pending hub) \<and> pc_connection_id p' = cid \<and> pc_call p' = pc_call p)"
    using c entry(2) by (auto elim!: hub_inv_pending[OF inv])
  then show "pending_ok (hub_calls (snd (relay_unregister g cid hub))) (r, p)"
    using c by (auto simp: pending_ok_def unregister_calls)
next
  fix n c assume "hub_calls (snd (relay_unregister g cid hub)) n = Some c"
  then show "rc_channel_id c \<noteq> 0"
    using hub_inv_channel[OF inv] by (auto simp: unregister_calls respond_def split: if_splits)
qed

lemma hub_inv_admit:
  assumes inv: "hub_inv hub" and fresh: "hub_calls hub n = None"
    and admit: "relay_admit n route r input t hub = Inr hub'"
  shows "hub_inv hub'"
proof -
  obtain conn ch nxt where conn: "map_of (hub_connections hub) (route_gateway_id route) = Some conn"
    "next_channel_id (hub_next_channel_id hub) = (ch, nxt)"
    using admit by (auto simp: relay_admit_def split: option.splits prod.splits)
  have other: "pc_call p \<noteq> n" if "(r', p) \<in> set (hub_pending hub)" for r' p
    using that fresh by (auto elim: hub_inv_pending[OF inv])
  show ?thesis
  proof (rule hub_invI)
    show "distinct (map fst (hub_pending hub'))"
      using admit hub_inv_distinct[OF inv] conn by (auto simp: relay_admit_def intro: distinct_update)
  next
    fix r' p assume "(r', p) \<in> set (hub_pending hub')"
    then have "(r', p) \<in> set (AList.update r \<lparr>pc_connection_id = gc_connection_id conn,
        pc_channel_id = ch, pc_call = n\<rparr> (hub_pending hub))"
      using admit conn by (auto simp: relay_admit_def)
    then consider "r' = r" "p = \<lparr>pc_connection_id = gc_connection_id conn, pc_channel_id = ch, pc_call = n\<rparr>"
      | "(r', p) \<in> set (hub_pending hub)"
      using update_pending_entry by metis
    then show "pending_ok (hub_calls hub') (r', p)"
    proof cases
      case 1
      then show ?thesis
        using admit conn by (auto simp: relay_admit_def pending_ok_def)
    next
      case 2
      then show ?thesis
        using admit conn other inv by (auto simp: relay_admit_def pending_ok_def hub_inv_def)
    qed
  next
    fix m c assume "hub_calls hub' m = Some c"
    then show "rc_channel_id c \<noteq> 0"
      using admit conn hub_inv_channel[OF inv] next_channel_id_nonzero[OF conn(2)]
      by (auto simp: relay_admit_def split: if_splits)
  qed
qed

text \<open>What never changes about a call, its response and its end.\<close>

definition call_le :: "relay_call \<Rightarrow> relay_call \<Rightarrow> bool" where
  "call_le c c' \<longleftrightarrow>
     rc_request_id c' = rc_request_id c \<and> rc_connection_id c' = rc_connection_id c \<and>
     rc_channel_id c' = rc_channel_id c \<and>
     (\<forall>result. rc_response c = Some result \<longrightarrow> rc_response c' = Some result) \<and>
     (\<not> open_call c \<longrightarrow> rc_phase c' = rc_phase c)"

definition calls_le :: "relay_hub \<Rightarrow> relay_hub \<Rightarrow> bool" where
  "calls_le h h' \<longleftrightarrow>
     (\<forall>n c. hub_calls h n = Some c \<longrightarrow>
        (\<exists>c'. hub_calls h' n = Some c' \<and> call_le c c' \<and> (sender_gone n h \<longrightarrow> sender_gone n h')))"

lemma call_le_refl [simp]: "call_le c c"
  by (simp add: call_le_def)

lemma call_le_trans: "call_le a b \<Longrightarrow> call_le b c \<Longrightarrow> call_le a c"
  by (auto simp: call_le_def open_call_def)

lemma call_le_phase [simp]: "open_call c \<Longrightarrow> call_le c (c\<lparr>rc_phase := phase\<rparr>)"
  by (simp add: call_le_def)

lemma call_le_respond: "rc_response c = None \<Longrightarrow> call_le c (respond result c)"
  by (simp add: call_le_def respond_def)

lemma calls_le_refl: "calls_le h h"
  by (simp add: calls_le_def)

lemma calls_leD:
  "calls_le h h' \<Longrightarrow> hub_calls h n = Some c \<Longrightarrow>
   \<exists>c'. hub_calls h' n = Some c' \<and> call_le c c' \<and> (sender_gone n h \<longrightarrow> sender_gone n h')"
  by (simp add: calls_le_def)

lemma calls_le_trans: "calls_le h h' \<Longrightarrow> calls_le h' h'' \<Longrightarrow> calls_le h h''"
  unfolding calls_le_def by (meson call_le_trans)

lemma calls_leI:
  assumes "\<And>m c. hub_calls h m = Some c \<Longrightarrow> \<exists>c'. hub_calls h' m = Some c' \<and> call_le c c'"
    "set (hub_pending h') \<subseteq> set (hub_pending h)"
  shows "calls_le h h'"
  using assms by (fastforce simp: calls_le_def sender_gone_iff)

lemma calls_le_same:
  assumes "hub_pending h' = hub_pending h" "hub_calls h' = hub_calls h"
  shows "calls_le h h'"
  by (rule calls_leI) (simp_all add: assms)

lemma calls_le_replace:
  assumes "hub_calls h n = Some c" "hub_calls h' = (hub_calls h)(n \<mapsto> c')" "call_le c c'"
    "set (hub_pending h') \<subseteq> set (hub_pending h)"
  shows "calls_le h h'"
  using assms by (intro calls_leI) auto

lemma set_delete_pending: "set (AList.delete r ps) \<subseteq> set ps"
  by (auto simp: delete_pending_entry)

lemma open_phases [simp]:
  "rc_phase c = RelayAdmitted command \<Longrightarrow> open_call c"
  "rc_phase c = RelayRejected e \<Longrightarrow> open_call c"
  "rc_phase c = RelayAborting e \<Longrightarrow> open_call c"
  "rc_phase c = RelayWaiting \<Longrightarrow> open_call c"
  by (simp_all add: open_call_def)

definition good_step :: "relay_hub \<Rightarrow> relay_hub \<Rightarrow> bool" where
  "good_step h h' \<longleftrightarrow> hub_inv h' \<and> calls_le h h'"

lemma good_same:
  "hub_inv h \<Longrightarrow> hub_pending h' = hub_pending h \<Longrightarrow> hub_calls h' = hub_calls h \<Longrightarrow> good_step h h'"
  by (simp add: good_step_def hub_inv_same calls_le_same)

lemma good_phase:
  assumes "hub_inv h" "hub_calls h n = Some c" "open_call c" "hub_pending h' = hub_pending h"
    "hub_calls h' = (hub_calls h)(n \<mapsto> c\<lparr>rc_phase := phase\<rparr>)"
    "(\<forall>result. phase \<noteq> RelayReturned result) \<or> sender_gone n h"
  shows "good_step h h'"
proof -
  have "hub_inv (set_relay_phase n c phase h)"
    by (rule hub_inv_phase[OF assms(1,2,6)])
  moreover have "calls_le h h'"
    by (rule calls_le_replace[OF assms(2,5)]) (simp_all add: assms(3,4))
  ultimately show ?thesis
    using assms(4,5) by (auto simp: good_step_def intro: hub_inv_same)
qed

lemma good_return:
  assumes "hub_inv h" "hub_calls h n = Some c" "open_call c"
    "hub_pending h' = AList.delete (rc_request_id c) (hub_pending h)"
    "hub_calls h' = (hub_calls h)(n \<mapsto> c\<lparr>rc_phase := phase\<rparr>)"
  shows "good_step h h'"
proof -
  have "hub_inv h'"
    by (rule hub_inv_replace[OF assms(1,2,5)])
      (use assms(2-4) hub_inv_distinct[OF assms(1)] in
        \<open>auto simp: delete_pending_entry intro: distinct_delete dest: entry_request[OF assms(1)]\<close>)
  moreover have "calls_le h h'"
    by (rule calls_le_replace[OF assms(2,5)]) (simp_all add: assms(3,4) set_delete_pending)
  ultimately show ?thesis
    by (simp add: good_step_def)
qed

lemma good_delete:
  assumes "hub_inv h" "hub_pending h' = AList.delete r (hub_pending h)" "hub_calls h' = hub_calls h"
  shows "good_step h h'"
  using hub_inv_delete[OF assms] assms(2,3)
  by (auto simp: good_step_def delete_pending_entry intro!: calls_leI)

lemma good_dispatch:
  assumes "hub_inv h" "hub_calls h n = Some c" "rc_phase c = RelayAdmitted command"
  shows "good_step h (relay_dispatch n c command h)"
  by (cases "try_send (rc_sender c) (InvokeCommand command) h")
    (rule good_phase[OF assms(1,2)], use assms(3) in \<open>auto simp: relay_dispatch_def hub_frame\<close>)+

lemma good_select:
  assumes "hub_inv h" "hub_calls h n = Some c" "rc_phase c = RelayWaiting"
    "relay_select n c cancelled idle h = Some h'"
  shows "good_step h h'"
proof -
  consider (ready) r where "response_ready n c h" "h' = set_relay_phase n c (RelayReturned r) h"
    | (activity) "h' = h\<lparr>hub_calls := (hub_calls h)(n \<mapsto> c\<lparr>rc_changed := False\<rparr>)\<rparr>"
    | (abort) e where "h' = set_relay_phase n c (RelayAborting e) h"
    using assms(4) by (auto simp: relay_select_def split: if_splits)
  then show ?thesis
  proof cases
    case ready
    then have "sender_gone n h"
      using answered_sender_gone[OF assms(1,2)] by (auto simp: response_ready_def)
    then show ?thesis
      using ready assms(3) by (intro good_phase[OF assms(1,2)]) auto
  next
    case activity
    have "hub_inv h'"
      by (rule hub_inv_replace[OF assms(1,2), where c' = "c\<lparr>rc_changed := False\<rparr>"])
        (use activity assms(3) hub_inv_distinct[OF assms(1)] in auto)
    moreover have "calls_le h h'"
      by (rule calls_le_replace[OF assms(2), where c' = "c\<lparr>rc_changed := False\<rparr>"])
        (simp_all add: activity call_le_def)
    ultimately show ?thesis
      by (simp add: good_step_def)
  next
    case abort
    then show ?thesis
      using assms(3) by (intro good_phase[OF assms(1,2)]) auto
  qed
qed

lemma good_unregister:
  assumes "hub_inv h"
  shows "good_step h (snd (relay_unregister g cid h))"
proof -
  have "\<exists>c'. hub_calls (snd (relay_unregister g cid h)) m = Some c' \<and> call_le c c'"
    if "hub_calls h m = Some c" for m c
    using that by (auto simp: unregister_calls intro!: call_le_respond elim!: hub_inv_pending[OF assms])
  then show ?thesis
    using hub_inv_unregister[OF assms] by (auto simp: good_step_def unregister_pending intro!: calls_leI)
qed

lemma good_admit:
  assumes "hub_inv h" "hub_calls h n = None" "relay_admit n route r input t h = Inr h'"
  shows "good_step h h'"
proof -
  have same: "sender_gone m h \<longrightarrow> sender_gone m h'" "hub_calls h' m = hub_calls h m" if "m \<noteq> n" for m
    using assms(3) that
    by (auto simp: relay_admit_def sender_gone_iff split: option.splits prod.splits
      dest!: update_pending_entry; blast)+
  have "\<exists>c'. hub_calls h' m = Some c' \<and> call_le c c' \<and> (sender_gone m h \<longrightarrow> sender_gone m h')"
    if "hub_calls h m = Some c" for m c
    using same[of m] that assms(2) by (cases "m = n") simp_all
  then show ?thesis
    using hub_inv_admit[OF assms] by (simp add: good_step_def calls_le_def)
qed

lemma good_activity:
  assumes "hub_inv h"
  shows "good_step h (snd (record_invocation_activity cid r ch h))"
proof -
  have "good_step h (h\<lparr>hub_calls := (hub_calls h)(n \<mapsto>
      c\<lparr>rc_activity := a, rc_changed := b\<rparr>)\<rparr>)" (is "good_step h ?h'")
    if "(r, p) \<in> set (hub_pending h)" "hub_calls h n = Some c" "pc_call p = n" for n c a b r p
  proof -
    have "hub_inv ?h'"
      by (rule hub_inv_replace[OF assms that(2), where c' = "c\<lparr>rc_activity := a, rc_changed := b\<rparr>"])
        (use that hub_inv_distinct[OF assms] in \<open>auto elim!: hub_inv_pending[OF assms]\<close>)
    moreover have "calls_le h ?h'"
      by (rule calls_le_replace[OF that(2)]) (auto simp: call_le_def)
    ultimately show ?thesis
      by (simp add: good_step_def)
  qed
  then show ?thesis
    using good_same[OF assms]
    by (auto simp: record_invocation_activity_def split: option.splits dest!: map_of_SomeD)
qed

lemma good_complete:
  assumes "hub_inv h"
  shows "good_step h (snd (relay_complete cid r ch result h))"
proof (cases "map_of (hub_pending h) r")
  case None
  then show ?thesis
    using good_same[OF assms] by (simp add: relay_complete_def)
next
  case (Some p)
  then have entry: "(r, p) \<in> set (hub_pending h)"
    by (rule map_of_SomeD)
  then obtain c where c: "hub_calls h (pc_call p) = Some c" "rc_request_id c = r" "rc_response c = None"
    by (rule hub_inv_pending[OF assms]) blast
  let ?h = "snd (send_response (pc_call p) result (remove_pending r h))"
  have calls: "hub_calls ?h = (hub_calls h)(pc_call p \<mapsto> respond result c)"
    using c by auto
  have "hub_inv ?h"
    by (rule hub_inv_replace[OF assms c(1) calls])
      (use hub_inv_distinct[OF assms] c entry_request[OF assms] in
        \<open>(auto simp: respond_def delete_pending_entry intro: distinct_delete; metis)+\<close>)
  moreover have "calls_le h ?h"
    by (rule calls_le_replace[OF c(1) calls])
      (simp_all add: set_delete_pending call_le_respond c)
  ultimately show ?thesis
    using Some good_same[OF assms] by (auto simp: relay_complete_def good_step_def calls_le_refl assms)
qed

lemma good_hub_step:
  assumes "hub_step h h'" "hub_inv h"
  shows "good_step h h'"
  using assms
proof (induction rule: hub_step.induct)
  case (hub_rejected hub n c e)
  then show ?case
    by (intro good_return[where n = n and c = c]) (simp_all add: relay_rejected_def)
next
  case (hub_aborted hub n c e)
  then show ?case
    by (intro good_return[where n = n and c = c]) (simp_all add: relay_aborted_def)
next
  case (hub_drop hub n c e)
  then show ?case
    by (intro good_phase[where n = n and c = c]) (auto simp: relay_drop_def)
next
  case (hub_clean_up hub xs r ch i ys)
  then show ?case
    by (intro good_delete[where r = r]) simp_all
next
  case (hub_channel hub i)
  then show ?case
    by (intro good_same) (simp_all add: open_channel_def)
qed (simp_all add: good_same good_unregister good_admit good_dispatch good_select good_activity
  good_complete)

lemma good_hub_steps:
  assumes "hub_steps h h'" "hub_inv h"
  shows "good_step h h'"
  using assms
proof (induction rule: hub_steps.induct)
  case (hub_steps_step h h' h'')
  then show ?case
    using good_hub_step by (meson calls_le_trans good_step_def)
qed (simp add: good_step_def calls_le_refl)

lemma reachable_hub_inv: "hub_steps (relay_new capacity) hub \<Longrightarrow> hub_inv hub"
  using good_hub_steps hub_inv_new by (auto simp: good_step_def)

section \<open>Where the returned values come from\<close>

definition value_answered :: "relay_call \<Rightarrow> bool" where
  "value_answered c \<longleftrightarrow>
     (\<forall>out. rc_phase c = RelayReturned (Inr out) \<longrightarrow> rc_response c = Some (Inr out))"

definition values_answered :: "relay_hub \<Rightarrow> bool" where
  "values_answered hub \<longleftrightarrow> (\<forall>n c. hub_calls hub n = Some c \<longrightarrow> value_answered c)"

lemma values_answered_update:
  "values_answered hub \<Longrightarrow> value_answered c \<Longrightarrow> hub_calls hub' = (hub_calls hub)(n \<mapsto> c) \<Longrightarrow>
   values_answered hub'"
  by (simp add: values_answered_def)

lemma values_answered_same:
  "values_answered hub \<Longrightarrow> hub_calls hub' = hub_calls hub \<Longrightarrow> values_answered hub'"
  by (simp add: values_answered_def)

lemma value_answered_respond: "value_answered c \<Longrightarrow> value_answered (respond result c)"
  by (auto simp: value_answered_def respond_def open_call_def)

lemma values_answered_phase:
  assumes "values_answered hub" "hub_calls hub' = (hub_calls hub)(n \<mapsto> c\<lparr>rc_phase := phase\<rparr>)"
    "\<And>out. phase = RelayReturned (Inr out) \<Longrightarrow> rc_response c = Some (Inr out)"
  shows "values_answered hub'"
  by (rule values_answered_update[OF assms(1) _ assms(2)]) (simp add: value_answered_def assms(3))

lemma values_answered_send:
  "values_answered hub \<Longrightarrow> values_answered (snd (send_response n result hub))"
  unfolding values_answered_def send_response_calls
  by (auto split: if_splits intro: value_answered_respond)

lemma values_answered_unregister:
  "values_answered hub \<Longrightarrow> values_answered (snd (relay_unregister g cid hub))"
  unfolding values_answered_def unregister_calls
  by (auto split: if_splits intro: value_answered_respond)

lemma values_answered_select:
  assumes "values_answered hub" "hub_calls hub n = Some c" "relay_select n c cancelled idle hub = Some hub'"
  shows "values_answered hub'"
proof -
  have changed: "value_answered (c\<lparr>rc_changed := False\<rparr>)"
    using assms(1,2) by (auto simp: values_answered_def value_answered_def)
  consider (ready) r where "hub' = set_relay_phase n c (RelayReturned r) hub"
      "\<And>out. r = Inr out \<Longrightarrow> rc_response c = Some (Inr out)"
    | (activity) "hub_calls hub' = (hub_calls hub)(n \<mapsto> c\<lparr>rc_changed := False\<rparr>)"
    | (abort) e where "hub' = set_relay_phase n c (RelayAborting e) hub"
    using assms(3) by (auto simp: relay_select_def split: if_splits option.splits)
  then show ?thesis
    by cases (auto intro: values_answered_update[OF assms(1) changed]
      values_answered_phase[OF assms(1), where n = n and c = c])
qed

lemma values_answered_step:
  assumes "hub_step hub hub'" "values_answered hub"
  shows "values_answered hub'"
  using assms
proof (induction rule: hub_step.induct)
  case (hub_admit hub n route r input t hub')
  then show ?case
    by (auto simp: relay_admit_def values_answered_def value_answered_def
      split: option.splits prod.splits if_splits)
next
  case (hub_dispatch hub n c command)
  then show ?case
    by (cases "try_send (rc_sender c) (InvokeCommand command) hub")
      (auto simp: relay_dispatch_def hub_frame intro: values_answered_phase[where n = n and c = c])
next
  case (hub_rejected hub n c e)
  then show ?case
    by (auto simp: relay_rejected_def intro: values_answered_phase[where n = n and c = c])
next
  case (hub_aborted hub n c e)
  then show ?case
    by (auto simp: relay_aborted_def intro: values_answered_phase[where n = n and c = c])
next
  case (hub_drop hub n c e)
  then show ?case
    by (auto simp: relay_drop_def intro: values_answered_phase[where n = n and c = c])
next
  case (hub_activity hub cid r ch)
  then show ?case
    by (auto simp: record_invocation_activity_def values_answered_def value_answered_def
      split: option.splits if_splits)
next
  case (hub_complete hub cid r ch result)
  then show ?case
    using values_answered_send values_answered_same[of hub "remove_pending r hub"]
    by (auto simp: relay_complete_def split: option.splits)
next
  case (hub_channel hub i)
  then show ?case
    by (auto simp: open_channel_def intro: values_answered_same)
next
  case (hub_select hub n c cancelled idle hub')
  then show ?case
    using values_answered_select by simp
next
  case (hub_unregister hub g cid)
  then show ?case
    by (simp add: values_answered_unregister)
qed (simp_all add: values_answered_same)

lemma reachable_values_answered:
  assumes "hub_steps h hub" "values_answered h"
  shows "values_answered hub"
  using assms by (induction rule: hub_steps.induct) (auto intro: values_answered_step)

lemma values_answered_new: "values_answered (relay_new capacity)"
  by (simp add: values_answered_def relay_new_def)

section \<open>A run\<close>

definition sample_route :: endpoint_route where
  "sample_route = \<lparr>route_endpoint_id = 1, route_profile_id = 2, route_binding_id = 3,
     route_gateway_id = ''g'', route_agent_id = ''a'', route_binding_config = JNull\<rparr>"

definition sample_connection :: gateway_connection where
  "sample_connection = \<lparr>gc_connection_id = 5, gc_session_id = 6, gc_sender = 0,
     gc_feedback_supported = False, gc_activity_supported = True\<rparr>"

definition sample_call :: "relay_phase \<Rightarrow> relay_call" where
  "sample_call phase = \<lparr>rc_request_id = 7, rc_connection_id = 5, rc_channel_id = 1, rc_sender = 0,
     rc_activity_supported = True, rc_response = None, rc_activity = 0, rc_changed = False,
     rc_phase = phase\<rparr>"

definition sample_hub :: "nat \<Rightarrow> relay_phase \<Rightarrow> gateway_command list \<Rightarrow> relay_hub" where
  "sample_hub capacity phase queue =
     \<lparr>hub_connections = [(''g'', sample_connection)],
      hub_pending = [(7, \<lparr>pc_connection_id = 5, pc_channel_id = 1, pc_call = 0\<rparr>)],
      hub_next_channel_id = 2, hub_capacity = capacity,
      hub_channels = [0 \<mapsto> \<lparr>channel_queue = queue, channel_closed = False\<rparr>],
      hub_calls = [0 \<mapsto> sample_call phase], hub_aborts = [], hub_sends = []\<rparr>"

definition sample_command :: invoke_command where
  "sample_command = relay_command sample_route 7 1 JNull 100"

lemma sample_call_phase [simp]: "rc_phase (sample_call phase) = phase"
  "(sample_call phase)\<lparr>rc_phase := phase'\<rparr> = sample_call phase'"
  by (simp_all add: sample_call_def)

lemma sample_hub_calls [simp]: "hub_calls (sample_hub k phase queue) = [0 \<mapsto> sample_call phase]"
  by (simp add: sample_hub_def)

lemma sample_admitted: "hub_steps (relay_new k) (sample_hub k (RelayAdmitted sample_command) [])"
proof -
  let ?h1 = "open_channel 0 (relay_new k)"
  let ?h2 = "relay_register ''g'' sample_connection ?h1"
  have "hub_steps (relay_new k) ?h2"
    by (rule hub_steps_step[OF hub_steps_step[OF hub_steps_refl]];
      rule hub_step.intros; simp add: relay_new_def)
  moreover have "relay_admit 0 sample_route 7 JNull 100 ?h2 =
      Inr (sample_hub k (RelayAdmitted sample_command) [])"
    by (simp add: relay_admit_def relay_register_def open_channel_def relay_new_def sample_hub_def
      sample_call_def sample_route_def sample_connection_def sample_command_def next_channel_id_def Let_def)
  moreover have "hub_calls ?h2 0 = None"
    by (simp add: open_channel_def relay_new_def)
  ultimately show ?thesis
    by (meson hub_admit hub_steps_step)
qed

lemma sample_waiting:
  assumes "0 < k"
  shows "hub_steps (relay_new k) (sample_hub k RelayWaiting [InvokeCommand sample_command])"
proof -
  have "relay_dispatch 0 (sample_call (RelayAdmitted sample_command)) sample_command
      (sample_hub k (RelayAdmitted sample_command) []) =
      sample_hub k RelayWaiting [InvokeCommand sample_command]"
    using assms
    by (simp add: relay_dispatch_def try_send_def sample_hub_def sample_call_def set_relay_phase_def)
  then have "hub_step (sample_hub k (RelayAdmitted sample_command) [])
      (sample_hub k RelayWaiting [InvokeCommand sample_command])"
    using hub_dispatch[of "sample_hub k (RelayAdmitted sample_command) []" 0
      "sample_call (RelayAdmitted sample_command)" sample_command] by simp
  then show ?thesis
    by (rule hub_steps_step[OF sample_admitted])
qed

section \<open>Properties\<close>

text \<open>C7: A report of the gateway completes an invocation exactly when a pending invocation of
  that request is under the reporting connection and channel: it stores the report as the response
  of that one call, which was open, unanswered and admitted under the same request, connection and
  channel, and takes the entry out. A report for another connection or channel changes nothing.\<close>

theorem completion_matches_call:
  assumes "hub_steps (relay_new capacity) hub"
    and "relay_complete connection_id request_id channel_id result hub = (answered, hub')"
  shows "if answered
    then \<exists>n c. hub_calls hub n = Some c \<and> rc_request_id c = request_id \<and>
        rc_connection_id c = connection_id \<and> rc_channel_id c = channel_id \<and> channel_id \<noteq> 0 \<and>
        open_call c \<and> rc_response c = None \<and>
        hub_calls hub' = (hub_calls hub)(n \<mapsto> c\<lparr>rc_response := Some result\<rparr>) \<and>
        map_of (hub_pending hub') = (map_of (hub_pending hub))(request_id := None)
    else hub_calls hub' = hub_calls hub"
proof (cases "map_of (hub_pending hub) request_id")
  case None
  then show ?thesis
    using assms(2) by (auto simp: relay_complete_def)
next
  case (Some p)
  have inv: "hub_inv hub"
    using assms(1) by (rule reachable_hub_inv)
  obtain c where c: "hub_calls hub (pc_call p) = Some c" "rc_request_id c = request_id"
    "rc_connection_id c = pc_connection_id p" "rc_channel_id c = pc_channel_id p"
    "rc_response c = None" "\<And>result. rc_phase c \<noteq> RelayReturned result"
    using map_of_SomeD[OF Some] by (rule hub_inv_pending[OF inv]) blast
  show ?thesis
  proof (cases "open_call c \<and> pc_connection_id p = connection_id \<and> pc_channel_id p = channel_id")
    case True
    then have "answered" "hub_calls hub' = (hub_calls hub)(pc_call p \<mapsto> c\<lparr>rc_response := Some result\<rparr>)"
      "map_of (hub_pending hub') = (map_of (hub_pending hub))(request_id := None)"
      using assms(2) Some c(1) by (auto simp: relay_complete_def send_response_def remove_pending_def)
    then show ?thesis
      using True c hub_inv_channel[OF inv c(1)] by (simp; intro exI[of _ "pc_call p"] exI[of _ c]) auto
  next
    case False
    then have "\<not> answered" "hub_calls hub' = hub_calls hub"
      using assms(2) Some c(1) by (auto simp: relay_complete_def send_response_def split: if_splits)
    then show ?thesis
      by simp
  qed
qed

theorem completion_matches_call_witness:
  "\<exists>hub hub'. relay_complete 5 7 1 (Inr JNull) hub = (True, hub') \<and>
    (\<exists>n c. hub_calls hub n = Some c \<and> rc_request_id c = 7 \<and> rc_connection_id c = 5 \<and>
      open_call c \<and> hub_calls hub' = (hub_calls hub)(n \<mapsto> c\<lparr>rc_response := Some (Inr JNull)\<rparr>))"
proof -
  let ?h = "sample_hub 1 RelayWaiting [InvokeCommand sample_command]"
  have "fst (relay_complete 5 7 1 (Inr JNull) ?h)"
    by (simp add: relay_complete_def send_response_def sample_hub_def open_call_def remove_pending_def)
  then obtain h' where h': "relay_complete 5 7 1 (Inr JNull) ?h = (True, h')"
    by (cases "relay_complete 5 7 1 (Inr JNull) ?h") auto
  show ?thesis
    using completion_matches_call[OF sample_waiting[of 1] h'] h'
    by (intro exI[of _ ?h] exI[of _ h']) (simp del: sample_hub_calls, blast)
qed

text \<open>The answer of an invocation is final: once a call has a response or returned, no later
  step of the hub changes it, and a call that returns a value returns the value the gateway's report
  stored as its response.\<close>

theorem relay_answer_final:
  assumes "hub_steps (relay_new capacity) hub" and "hub_steps hub hub'"
    and "hub_calls hub n = Some c"
  shows "\<exists>c'. hub_calls hub' n = Some c' \<and> rc_request_id c' = rc_request_id c \<and>
    (\<forall>result. rc_response c = Some result \<longrightarrow> rc_response c' = Some result) \<and>
    (\<forall>result. rc_phase c = RelayReturned result \<longrightarrow> rc_phase c' = RelayReturned result) \<and>
    (\<forall>out. rc_phase c' = RelayReturned (Inr out) \<longrightarrow> rc_response c' = Some (Inr out))"
proof -
  have "values_answered hub'"
    by (rule reachable_values_answered[OF hub_steps_trans[OF assms(1,2)] values_answered_new])
  moreover have "calls_le hub hub'"
    using good_hub_steps[OF assms(2) reachable_hub_inv[OF assms(1)]] by (simp add: good_step_def)
  ultimately show ?thesis
    using calls_leD[OF _ assms(3)]
    by (force simp: values_answered_def value_answered_def call_le_def open_call_def)
qed

theorem relay_answer_final_witness:
  "\<exists>hub. hub_steps (sample_hub 1 RelayWaiting [InvokeCommand sample_command]) hub \<and>
    (\<exists>c'. hub_calls hub 0 = Some c' \<and> rc_request_id c' = 7)"
  using relay_answer_final[OF sample_waiting[of 1] hub_steps_refl, of 0 "sample_call RelayWaiting"]
  by (auto intro!: exI[of _ "sample_hub 1 RelayWaiting [InvokeCommand sample_command]"] hub_steps_refl
    simp: sample_call_def)

text \<open>C8: No invocation waits for a gateway that is gone: after \<open>unregister\<close> of a connection, and
  in every later state, each call that was admitted on this connection and still waits returns at
  its next \<open>select!\<close>, whatever else is ready.\<close>

theorem unregister_settles_calls:
  assumes "hub_steps (relay_new capacity) hub"
    and "hub_calls hub n = Some c" and "rc_connection_id c = connection_id"
    and "hub_steps (snd (relay_unregister gateway_id connection_id hub)) hub'"
    and "hub_calls hub' n = Some c'"
  shows "\<exists>result. relay_select n c' cancelled idle hub' =
    Some (set_relay_phase n c' (RelayReturned result) hub')"
proof -
  let ?h = "snd (relay_unregister gateway_id connection_id hub)"
  have inv: "hub_inv hub"
    using assms(1) by (rule reachable_hub_inv)
  have "hub_calls ?h n \<noteq> None"
    using assms(2) by (simp add: unregister_calls)
  then obtain d where d: "hub_calls ?h n = Some d"
    by auto
  have "sender_gone n ?h"
    using assms(2,3) by (auto simp: sender_gone_iff unregister_pending elim!: hub_inv_pending[OF inv])
  moreover have "calls_le ?h hub'"
    using good_hub_steps[OF assms(4) hub_inv_unregister[OF inv]] by (simp add: good_step_def)
  ultimately have "sender_gone n hub'"
    using calls_leD[OF _ d] by auto
  then have "response_ready n c' hub'"
    by (simp add: response_ready_def)
  then show ?thesis
    by (simp add: relay_select_def) blast
qed

theorem unregister_settles_calls_witness:
  "\<exists>hub c result. hub = snd (relay_unregister ''g'' 5
      (sample_hub 1 RelayWaiting [InvokeCommand sample_command])) \<and>
    hub_calls hub 0 = Some c \<and> rc_phase c = RelayWaiting \<and>
    relay_select 0 c False False hub = Some (set_relay_phase 0 c (RelayReturned result) hub)"
proof -
  let ?h = "sample_hub 1 RelayWaiting [InvokeCommand sample_command]"
  let ?c = "respond (Inl AgentGatewayUnavailable) (sample_call RelayWaiting)"
  have "hub_calls (snd (relay_unregister ''g'' 5 ?h)) 0 = Some ?c"
    unfolding unregister_calls
    by (subst if_P, rule exI[of _ 7], rule exI[of _ "\<lparr>pc_connection_id = 5, pc_channel_id = 1, pc_call = 0\<rparr>"])
      (simp_all add: sample_hub_def)
  moreover have "rc_phase ?c = RelayWaiting"
    by (simp add: respond_def)
  moreover have "rc_connection_id (sample_call RelayWaiting) = 5"
    by (simp add: sample_call_def)
  ultimately show ?thesis
    using unregister_settles_calls[OF sample_waiting[of 1], of 0 "sample_call RelayWaiting" 5 "''g''"
      "snd (relay_unregister ''g'' 5 ?h)" ?c] hub_steps_refl by auto
qed

text \<open>\<open>unregister\<close> of a connection takes out the gateway's current connection exactly when it is
  this one, and says so; the end of a session that a newer connection replaced leaves the newer one
  and its pending invocations alone.\<close>

theorem unregister_only_own_connection:
  "fst (relay_unregister gateway_id connection_id hub) =
     (\<exists>conn. map_of (hub_connections hub) gateway_id = Some conn \<and> gc_connection_id conn = connection_id) \<and>
   map_of (hub_connections (snd (relay_unregister gateway_id connection_id hub))) =
     (if fst (relay_unregister gateway_id connection_id hub)
      then (map_of (hub_connections hub))(gateway_id := None) else map_of (hub_connections hub)) \<and>
   hub_pending (snd (relay_unregister gateway_id connection_id hub)) =
     filter (\<lambda>e. pc_connection_id (snd e) \<noteq> connection_id) (hub_pending hub)"
proof -
  have "filter (\<lambda>(_, p). pc_connection_id p \<noteq> connection_id) es =
      filter (\<lambda>e. pc_connection_id (snd e) \<noteq> connection_id) es" for es :: "(uuid \<times> pending_call) list"
    by (rule filter_cong) auto
  then show ?thesis
    by (simp add: relay_unregister_def Let_def send_responses_same fun_eq_iff split: option.splits)
qed

text \<open>
  A call whose guard was disarmed by \<open>abort\<close>, dropped before \<open>abort\<close> had the hub's lock, leaves its
  entry: no clean-up was spawned, no cancel command was queued and the call is gone.
\<close>

theorem abandoned_entry_stays:
  "\<exists>hub p c. hub_steps (relay_new 1) hub \<and> hub_pending hub = [(7, p)] \<and>
    hub_calls hub (pc_call p) = Some c \<and> rc_phase c = RelayDropped \<and> hub_aborts hub = [] \<and>
    hub_sends hub = [] \<and> hub_channels hub 0 =
      Some \<lparr>channel_queue = [InvokeCommand sample_command], channel_closed = False\<rparr>"
proof -
  let ?q = "[InvokeCommand sample_command]"
  have "relay_select 0 (sample_call RelayWaiting) False True (sample_hub 1 RelayWaiting ?q) =
      Some (sample_hub 1 (RelayAborting RelayTimeout) ?q)"
    by (simp add: relay_select_def response_ready_def sender_gone_def sample_hub_def sample_call_def
      set_relay_phase_def)
  then have "hub_step (sample_hub 1 RelayWaiting ?q) (sample_hub 1 (RelayAborting RelayTimeout) ?q)"
    by (intro hub_select[where n = 0]) simp_all
  moreover have "relay_drop 0 (sample_call (RelayAborting RelayTimeout))
      (sample_hub 1 (RelayAborting RelayTimeout) ?q) = sample_hub 1 RelayDropped ?q"
    by (simp add: relay_drop_def sample_hub_def set_relay_phase_def)
  then have "hub_step (sample_hub 1 (RelayAborting RelayTimeout) ?q) (sample_hub 1 RelayDropped ?q)"
    using hub_drop[of "sample_hub 1 (RelayAborting RelayTimeout) ?q" 0
      "sample_call (RelayAborting RelayTimeout)" RelayTimeout] by simp
  ultimately have "hub_steps (relay_new 1) (sample_hub 1 RelayDropped ?q)"
    using sample_waiting[of 1] by (meson hub_steps_step zero_less_one)
  then show ?thesis
    by (intro exI[of _ "sample_hub 1 RelayDropped ?q"]) (auto simp: sample_hub_def)
qed

end
