(* ===== verification/Btree.thy ===== *)
theory Btree
  imports Prelude
begin

text \<open>
  Ordered maps as the code uses them (\<open>BTreeMap\<close>): association lists in increasing key order, so
  that equality of maps is equality of lists and iteration is in key order. The interface locale
  states what the components rely on; the lists implement it.
\<close>

type_synonym ('k, 'v) btree = "('k \<times> 'v) list"

definition bt_wf :: "('k::linorder, 'v) btree \<Rightarrow> bool" where
  "bt_wf m \<longleftrightarrow> sorted_wrt (<) (map fst m)"

fun bt_insert :: "'k::linorder \<Rightarrow> 'v \<Rightarrow> ('k, 'v) btree \<Rightarrow> ('k, 'v) btree" where
  "bt_insert k v [] = [(k, v)]"
| "bt_insert k v ((k', v') # m) =
     (if k < k' then (k, v) # (k', v') # m
      else if k = k' then (k, v) # m
      else (k', v') # bt_insert k v m)"

definition bt_collect :: "('k::linorder \<times> 'v) list \<Rightarrow> ('k, 'v) btree" where
  "bt_collect kvs = fold (\<lambda>(k, v). bt_insert k v) kvs []"

lemma bt_wf_Nil [simp]: "bt_wf []"
  by (simp add: bt_wf_def)

lemma bt_wf_Cons: "bt_wf ((k, v) # m) \<longleftrightarrow> (\<forall>k' \<in> set (map fst m). k < k') \<and> bt_wf m"
  by (simp add: bt_wf_def)

lemma map_of_bt_insert [simp]: "bt_wf m \<Longrightarrow> map_of (bt_insert k v m) = (map_of m)(k \<mapsto> v)"
proof (induction m)
  case (Cons a m)
  obtain k' v' where a: "a = (k', v')"
    by fastforce
  have "map_of m k' = None" if "\<forall>k'' \<in> set (map fst m). k' < k''"
    using that by (auto simp: map_of_eq_None_iff)
  then show ?case
    using Cons by (auto simp: a bt_wf_Cons fun_eq_iff)
qed simp

lemma keys_bt_insert: "set (map fst (bt_insert k v m)) = insert k (set (map fst m))"
  by (induction k v m rule: bt_insert.induct) (simp_all add: insert_commute)

text \<open>What holds of an insertion even where the entries are not in order.\<close>

lemma set_bt_insert: "set (bt_insert k v m) \<subseteq> insert (k, v) (set m)"
  by (induction k v m rule: bt_insert.induct) auto

lemma length_bt_insert: "length (bt_insert k v m) \<le> Suc (length m)"
  by (induction k v m rule: bt_insert.induct) auto

lemma length_bt_insert_ge: "length m \<le> length (bt_insert k v m)"
  by (induction k v m rule: bt_insert.induct) auto

lemma map_of_bt_insert_other: "k' \<noteq> k \<Longrightarrow> map_of (bt_insert k v m) k' = map_of m k'"
  by (induction k v m rule: bt_insert.induct) auto

lemma length_bt_insert_old:
  "bt_wf m \<Longrightarrow> k \<in> fst ` set m \<Longrightarrow> length (bt_insert k v m) = length m"
  by (induction k v m rule: bt_insert.induct) (auto simp: bt_wf_Cons)

lemma length_bt_insert_new:
  "k \<notin> fst ` set m \<Longrightarrow> length (bt_insert k v m) = Suc (length m)"
  by (induction k v m rule: bt_insert.induct) auto

lemma bt_wf_insert [simp, intro]: "bt_wf m \<Longrightarrow> bt_wf (bt_insert k v m)"
proof (induction m)
  case (Cons a m)
  then show ?case
    using keys_bt_insert[of k v m] by (cases a) (auto simp: bt_wf_Cons)
qed (simp add: bt_wf_def)

lemma bt_wf_take: "bt_wf m \<Longrightarrow> bt_wf (take n m)"
  by (simp add: bt_wf_def take_map [symmetric] sorted_wrt_take)

text \<open>A key below another one is not the last.\<close>

lemma bt_not_last:
  assumes "bt_wf m" and "length m = Suc n" and "k \<in> fst ` set m" and "k' \<in> fst ` set m" and "k < k'"
  shows "k \<in> fst ` set (take n m)"
proof (cases m rule: rev_cases)
  case (snoc ys y)
  with assms(1) have "\<forall>k \<in> fst ` set ys. k < fst y"
    by (auto simp: bt_wf_def sorted_wrt_append)
  with snoc assms(2-5) show ?thesis by auto
qed (use assms in simp)

lemma bt_wf_distinct: "bt_wf m \<Longrightarrow> distinct (map fst m)"
  by (induction m) (force simp: bt_wf_def)+

lemma bt_entry: "bt_wf m \<Longrightarrow> (k, v) \<in> set m \<longleftrightarrow> map_of m k = Some v"
  using bt_wf_distinct by (fastforce dest: map_of_SomeD intro: map_of_is_SomeI)

lemma alist_of_keys:
  assumes "distinct (map fst m)"
  shows "m = map (\<lambda>k. (k, the (map_of m k))) (map fst m)"
  using assms by (simp add: comp_def) (rule map_idI[symmetric], auto simp: map_of_is_SomeI)

text \<open>Two ordered maps with the same entries are the same map.\<close>

lemma bt_ext:
  assumes "bt_wf m" "bt_wf m'" "map_of m = map_of m'"
  shows "m = m'"
proof -
  have set: "set m = set m'"
    using assms bt_entry by (metis subsetI subset_antisym surj_pair)
  have "map fst m = map fst m'"
  proof (rule sorted_distinct_set_unique)
    show "sorted (map fst m)" "sorted (map fst m')"
      using assms by (auto simp: bt_wf_def intro: sorted_wrt_mono_rel[of _ "(<)" "(\<le>)"])
  qed (use assms bt_wf_distinct set in auto)
  then show ?thesis
    using alist_of_keys[OF bt_wf_distinct[OF assms(1)]] alist_of_keys[OF bt_wf_distinct[OF assms(2)]]
      assms(3) by simp
qed

lemma bt_wf_collect [simp, intro]: "bt_wf (bt_collect kvs)"
proof -
  have "bt_wf m \<Longrightarrow> bt_wf (fold (\<lambda>(k, v). bt_insert k v) kvs m)" for m
    by (induction kvs arbitrary: m) (auto split: prod.splits)
  then show ?thesis
    by (simp add: bt_collect_def)
qed

lemma map_of_bt_fold:
  "bt_wf m \<Longrightarrow> map_of (fold (\<lambda>(k, v). bt_insert k v) kvs m) = map_of m ++ map_of (rev kvs)"
proof (induction kvs arbitrary: m)
  case (Cons a kvs)
  then show ?case
    by (cases a) (auto simp: map_add_def fun_eq_iff split: option.splits)
qed simp

lemma map_of_bt_collect [simp]: "map_of (bt_collect kvs) = map_of (rev kvs)"
  by (simp add: bt_collect_def map_of_bt_fold)

lemma map_of_rev_distinct: "distinct (map fst kvs) \<Longrightarrow> map_of (rev kvs) = map_of kvs"
  by (rule map_of_inject_set[THEN iffD2]) (auto simp: rev_map[symmetric])

lemma keys_bt_collect: "set (map fst (bt_collect kvs)) = set (map fst kvs)"
proof -
  have "dom (map_of (bt_collect kvs)) = dom (map_of (rev kvs))"
    by (simp only: map_of_bt_collect)
  then show ?thesis
    unfolding dom_map_of_conv_image_fst by simp
qed

lemma length_bt_collect: "length (bt_collect kvs) = card (set (map fst kvs))"
proof -
  have "length (bt_collect kvs) = card (set (map fst (bt_collect kvs)))"
    using bt_wf_distinct[OF bt_wf_collect, of kvs] distinct_card by fastforce
  then show ?thesis
    by (simp only: keys_bt_collect)
qed

section \<open>The interface\<close>

text \<open>What a client of an ordered map relies on: entries by key, and equality by entries.\<close>

locale ordered_map =
  fixes entries :: "'m \<Rightarrow> ('k \<times> 'v) list"
    and empty_map :: 'm
    and put :: "'k \<Rightarrow> 'v \<Rightarrow> 'm \<Rightarrow> 'm"
    and valid :: "'m \<Rightarrow> bool"
  assumes valid_empty: "valid empty_map"
    and valid_put: "valid m \<Longrightarrow> valid (put k v m)"
    and entries_empty: "map_of (entries empty_map) = Map.empty"
    and entries_put: "valid m \<Longrightarrow> map_of (entries (put k v m)) = (map_of (entries m))(k \<mapsto> v)"
    and entries_ext: "valid m \<Longrightarrow> valid m' \<Longrightarrow> map_of (entries m) = map_of (entries m') \<Longrightarrow> m = m'"
begin

lemma put_put: "valid m \<Longrightarrow> put k v' (put k v m) = put k v' m"
  by (rule entries_ext) (simp_all add: valid_put entries_put)

lemma put_same: "valid m \<Longrightarrow> map_of (entries m) k = Some v \<Longrightarrow> put k v m = m"
  by (rule entries_ext) (simp_all add: valid_put entries_put map_upd_triv)

lemma put_swap: "valid m \<Longrightarrow> k \<noteq> k' \<Longrightarrow> put k v (put k' v' m) = put k' v' (put k v m)"
  by (rule entries_ext) (simp_all add: valid_put entries_put fun_upd_twist)

end

interpretation bt: ordered_map "\<lambda>m. m" "[]" bt_insert bt_wf
  by unfold_locales (auto intro: bt_ext)

end
