(* ===== verification/Route_Planner.thy ===== *)
theory Route_Planner
  imports Btree "HOL-Library.Multiset"
begin

text \<open>
  The planner of \<open>crates/vifu-gateway/src/optimization.rs\<close>: from the benchmark results of candidate
  providers per agent it makes at most eight route combinations (\<open>coverage\<close>,
  \<open>generate_combinations\<close>), and \<open>SessionRouteOverrides\<close> holds the routes that are active in a
  session, with one step of undo.
\<close>

section \<open>Data\<close>

record agent_case =
  case_agent_id :: string
  case_capability :: string
  case_provider_key :: string

record metric_range =
  range_median :: u64
  range_min :: u64
  range_max :: u64
  range_samples :: "32 word"

datatype exclusion_reason =
  CapabilityMismatch | CandidateUnavailable | LoadFailure | InsufficientMemory | ContractFailure

text \<open>\<open>f64\<close> values are their bits.\<close>

type_synonym f64 = "64 word"

datatype candidate_outcome =
    CandidatePassed metric_range "metric_range option" "f64 option" "u64 option"
  | CandidateExcluded exclusion_reason "string option"

record candidate_evaluation =
  ce_agent_id :: string
  ce_provider_key :: string
  ce_outcome :: candidate_outcome

definition passed :: "candidate_evaluation \<Rightarrow> (metric_range \<times> u64 option) option" where
  "passed e = (case ce_outcome e of
     CandidatePassed total_latency ttft tokens rss_delta \<Rightarrow> Some (total_latency, rss_delta)
   | CandidateExcluded reason message \<Rightarrow> None)"

text \<open>
  The measures of an evaluation the code takes with \<open>expect\<close>; the index it takes them from holds
  passing evaluations only (lemma \<open>passed_index\<close>).
\<close>

definition latency_of :: "candidate_evaluation \<Rightarrow> u64" where
  "latency_of e = (case passed e of Some (latency, rss) \<Rightarrow> range_median latency | None \<Rightarrow> 0)"

definition memory_of :: "candidate_evaluation \<Rightarrow> u64" where
  "memory_of e = (case passed e of Some (latency, Some rss) \<Rightarrow> rss | _ \<Rightarrow> u64_max)"

datatype combination_kind =
  CurrentRoutes | FastestLocal | LowestMemory | SharedModel | Substitution

type_synonym routes = "(string, string) btree"

record route_combination =
  comb_id :: string
  comb_label :: string
  comb_kind :: combination_kind
  comb_explanation :: string
  comb_routes :: routes

definition MAX_COMBINATIONS :: nat where "MAX_COMBINATIONS = 8"
definition MAX_SUBSTITUTION_COMBINATIONS :: nat where "MAX_SUBSTITUTION_COMBINATIONS = 4"

section \<open>Coverage\<close>

record optimization_coverage =
  cov_configured_models :: nat
  cov_tested_models :: nat
  cov_passed_models :: nat
  cov_expected_pairs :: nat
  cov_evaluated_pairs :: nat
  cov_passed_pairs :: nat
  cov_missing :: "(string \<times> string) list"

definition evaluation_pair :: "candidate_evaluation \<Rightarrow> string \<times> string" where
  "evaluation_pair e = (ce_agent_id e, ce_provider_key e)"

definition coverage ::
    "string list \<Rightarrow> agent_case list \<Rightarrow> candidate_evaluation list \<Rightarrow> optimization_coverage" where
  "coverage keys cases evaluations =
     (let expected = set (concat (map (\<lambda>c. map (Pair (case_agent_id c)) keys) cases));
          evaluated = set (map evaluation_pair (filter (\<lambda>e. evaluation_pair e \<in> expected) evaluations));
          passed_pairs = set (filter (\<lambda>p. p \<in> expected)
            (map evaluation_pair (filter (\<lambda>e. passed e \<noteq> None) evaluations)))
      in \<lparr>cov_configured_models = length keys,
          cov_tested_models = length (filter (\<lambda>key.
            list_all (\<lambda>c. (case_agent_id c, key) \<in> evaluated) cases) keys),
          cov_passed_models = length (filter (\<lambda>key. \<exists>p \<in> passed_pairs. snd p = key) keys),
          cov_expected_pairs = card expected,
          cov_evaluated_pairs = card evaluated,
          cov_passed_pairs = card passed_pairs,
          cov_missing = concat (map (\<lambda>c. map (Pair (case_agent_id c))
            (filter (\<lambda>key. (case_agent_id c, key) \<notin> evaluated) keys)) cases)\<rparr>)"

section \<open>Combinations\<close>

text \<open>\<open>Iterator::min_by\<close> keeps the first of equal elements, \<open>max_by\<close> the last.\<close>

fun min_by :: "('a \<Rightarrow> 'a \<Rightarrow> bool) \<Rightarrow> 'a list \<Rightarrow> 'a option" where
  "min_by le [] = None"
| "min_by le (x # xs) = Some (fold (\<lambda>y m. if le m y then m else y) xs x)"

fun max_by :: "('a \<Rightarrow> 'a \<Rightarrow> bool) \<Rightarrow> 'a list \<Rightarrow> 'a option" where
  "max_by gt [] = None"
| "max_by gt (x # xs) = Some (fold (\<lambda>y m. if gt m y then m else y) xs x)"

type_synonym passed_index = "(string \<times> candidate_evaluation list) list"

fun add_candidate :: "candidate_evaluation \<Rightarrow> candidate_evaluation list \<Rightarrow> candidate_evaluation list" where
  "add_candidate e [] = [e]"
| "add_candidate e (c # cs) =
     (if ce_provider_key c = ce_provider_key e
      then (if latency_of e < latency_of c then e else c) # cs
      else c # add_candidate e cs)"

definition index_evaluation :: "candidate_evaluation \<Rightarrow> passed_index \<Rightarrow> passed_index" where
  "index_evaluation e idx =
     (if passed e = None then idx
      else AList.update (ce_agent_id e) (add_candidate e
        (case map_of idx (ce_agent_id e) of None \<Rightarrow> [] | Some cs \<Rightarrow> cs)) idx)"

definition passed_by_agent :: "candidate_evaluation list \<Rightarrow> passed_index" where
  "passed_by_agent evaluations = fold index_evaluation evaluations []"

datatype candidate_order = LatencyOrder | MemoryOrder

fun candidate_le :: "candidate_order \<Rightarrow> candidate_evaluation \<Rightarrow> candidate_evaluation \<Rightarrow> bool" where
  "candidate_le LatencyOrder l r \<longleftrightarrow> latency_of l \<le> latency_of r"
| "candidate_le MemoryOrder l r \<longleftrightarrow>
     memory_of l < memory_of r \<or> memory_of l = memory_of r \<and> latency_of l \<le> latency_of r"

definition select_routes :: "agent_case list \<Rightarrow> passed_index \<Rightarrow> candidate_order \<Rightarrow> routes" where
  "select_routes cases idx order =
     bt_collect (List.map_filter (\<lambda>c.
       Option.bind (map_of idx (case_agent_id c)) (\<lambda>candidates.
       map_option (\<lambda>selected. (case_agent_id c, ce_provider_key selected))
         (min_by (candidate_le order) candidates))) cases)"

definition evaluation_for :: "passed_index \<Rightarrow> string \<Rightarrow> string \<Rightarrow> candidate_evaluation option" where
  "evaluation_for idx agent key =
     Option.bind (map_of idx agent) (find (\<lambda>e. ce_provider_key e = key))"

definition count_candidate ::
    "candidate_evaluation \<Rightarrow> (string \<times> nat \<times> u64) list \<Rightarrow> (string \<times> nat \<times> u64) list" where
  "count_candidate e cov =
     (case (case map_of cov (ce_provider_key e) of None \<Rightarrow> (0, 0) | Some entry \<Rightarrow> entry) of
        (agents, latency) \<Rightarrow>
          AList.update (ce_provider_key e) (agents + 1, saturating_add latency (latency_of e)) cov)"

fun covers_more :: "string \<times> nat \<times> u64 \<Rightarrow> string \<times> nat \<times> u64 \<Rightarrow> bool" where
  "covers_more (l, lcount, ltotal) (r, rcount, rtotal) \<longleftrightarrow>
     rcount < lcount \<or> rcount = lcount \<and> (ltotal < rtotal \<or> ltotal = rtotal \<and> l < r)"

definition shared_provider :: "passed_index \<Rightarrow> string option" where
  "shared_provider idx =
     map_option fst (max_by covers_more (fold count_candidate (concat (map snd idx)) []))"

definition shared_routes :: "agent_case list \<Rightarrow> passed_index \<Rightarrow> routes option" where
  "shared_routes cases idx =
     Option.bind (shared_provider idx) (\<lambda>shared.
       let fastest = select_routes cases idx LatencyOrder;
           routes = bt_collect (List.map_filter (\<lambda>c.
             if evaluation_for idx (case_agent_id c) shared \<noteq> None
             then Some (case_agent_id c, shared)
             else map_option (Pair (case_agent_id c)) (map_of fastest (case_agent_id c))) cases)
       in if length routes = length cases then Some routes else None)"

definition push_unique :: "route_combination \<Rightarrow> route_combination list \<Rightarrow> route_combination list" where
  "push_unique candidate combinations =
     (if length combinations < MAX_COMBINATIONS \<and>
         \<not> list_ex (\<lambda>existing. comb_routes existing = comb_routes candidate) combinations
      then combinations @ [candidate] else combinations)"

definition current_combination :: "agent_case list \<Rightarrow> route_combination" where
  "current_combination cases =
     \<lparr>comb_id = ''current'', comb_label = ''current'', comb_kind = CurrentRoutes,
      comb_explanation = ''Current session routes'',
      comb_routes = bt_collect (map (\<lambda>c. (case_agent_id c, case_provider_key c)) cases)\<rparr>"

definition push_fastest :: "agent_case list \<Rightarrow> routes \<Rightarrow> route_combination list \<Rightarrow> route_combination list" where
  "push_fastest cases fastest combinations =
     (if length fastest = length cases
      then push_unique \<lparr>comb_id = ''fastest-local'', comb_label = ''fastest-local'',
        comb_kind = FastestLocal,
        comb_explanation = ''Fastest passing configured candidate for every agent'',
        comb_routes = fastest\<rparr> combinations
      else combinations)"

definition push_lowest_memory ::
    "agent_case list \<Rightarrow> routes \<Rightarrow> route_combination list \<Rightarrow> route_combination list" where
  "push_lowest_memory cases lowest combinations =
     (if length lowest = length cases
      then push_unique \<lparr>comb_id = ''lowest-memory'', comb_label = ''lowest-memory'',
        comb_kind = LowestMemory,
        comb_explanation = ''Lowest observed Vifu OS-process RSS delta among passing candidates'',
        comb_routes = lowest\<rparr> combinations
      else combinations)"

definition push_shared :: "routes option \<Rightarrow> route_combination list \<Rightarrow> route_combination list" where
  "push_shared shared combinations =
     (case shared of
        None \<Rightarrow> combinations
      | Some routes \<Rightarrow>
          push_unique \<lparr>comb_id = ''shared-model'', comb_label = ''shared-model'',
            comb_kind = SharedModel,
            comb_explanation = ''Reuses the passing provider that covers the most agents'',
            comb_routes = routes\<rparr> combinations)"

definition substitution :: "nat \<Rightarrow> string \<Rightarrow> string \<Rightarrow> routes \<Rightarrow> route_combination" where
  "substitution index agent key fastest =
     (let name = ''alternative-'' @ show_nat (index + 1)
      in \<lparr>comb_id = name, comb_label = name, comb_kind = Substitution,
          comb_explanation = ''Second-fastest passing candidate for slow agent '' @ agent,
          comb_routes = bt_insert agent key fastest\<rparr>)"

text \<open>\<open>alternatives.get(1)\<close> of the candidates sorted (stably) by latency.\<close>

definition second_fastest :: "passed_index \<Rightarrow> string \<Rightarrow> candidate_evaluation option" where
  "second_fastest idx agent =
     Option.bind (map_of idx agent) (\<lambda>candidates.
       case sort_key latency_of candidates of _ # second # _ \<Rightarrow> Some second | _ \<Rightarrow> None)"

fun push_substitutions ::
    "passed_index \<Rightarrow> routes \<Rightarrow> (nat \<times> string) list \<Rightarrow> route_combination list \<Rightarrow> route_combination list"
  where
  "push_substitutions idx fastest [] combinations = combinations"
| "push_substitutions idx fastest ((index, agent) # rest) combinations =
     (case second_fastest idx agent of
        None \<Rightarrow> push_substitutions idx fastest rest combinations
      | Some second \<Rightarrow>
          let combinations' =
            push_unique (substitution index agent (ce_provider_key second) fastest) combinations
          in if length combinations' = MAX_COMBINATIONS then combinations'
             else push_substitutions idx fastest rest combinations')"

definition slow_agents :: "passed_index \<Rightarrow> routes \<Rightarrow> (string \<times> u64) list" where
  "slow_agents idx fastest =
     List.map_filter (\<lambda>(agent, key).
       map_option (\<lambda>e. (agent, latency_of e)) (evaluation_for idx agent key)) fastest"

text \<open>
  \<open>sort_unstable_by_key\<close> leaves the order of equal keys open: the sorting is a parameter.
\<close>

definition sorts_descending :: "((string \<times> u64) list \<Rightarrow> (string \<times> u64) list) \<Rightarrow> bool" where
  "sorts_descending unstable \<longleftrightarrow>
     (\<forall>xs. mset (unstable xs) = mset xs \<and> sorted_wrt (\<lambda>a b. snd b \<le> snd a) (unstable xs))"

definition generate_combinations ::
    "((string \<times> u64) list \<Rightarrow> (string \<times> u64) list) \<Rightarrow> agent_case list \<Rightarrow> candidate_evaluation list
      \<Rightarrow> route_combination list" where
  "generate_combinations unstable cases evaluations =
     (let idx = passed_by_agent evaluations;
          fastest = select_routes cases idx LatencyOrder;
          combinations1 = push_unique (current_combination cases) [];
          combinations2 = push_fastest cases fastest combinations1;
          combinations3 = push_lowest_memory cases (select_routes cases idx MemoryOrder) combinations2;
          combinations4 = push_shared (shared_routes cases idx) combinations3;
          slowest = take MAX_SUBSTITUTION_COMBINATIONS
            (map fst (unstable (slow_agents idx fastest)))
      in push_substitutions idx fastest (List.enumerate 0 slowest) combinations4)"

section \<open>Route overrides of a session\<close>

record route_override_snapshot =
  snap_generation :: u64
  snap_routes :: routes
  snap_can_undo :: bool

record route_override_state =
  ov_generation :: u64
  ov_routes :: routes
  ov_previous :: "routes option"

definition overrides_default :: route_override_state where
  "overrides_default = \<lparr>ov_generation = 0, ov_routes = [], ov_previous = None\<rparr>"

definition provider_for :: "string \<Rightarrow> route_override_state \<Rightarrow> string option" where
  "provider_for agent s = map_of (ov_routes s) agent"

definition overrides_snapshot :: "route_override_state \<Rightarrow> route_override_snapshot" where
  "overrides_snapshot s =
     \<lparr>snap_generation = ov_generation s, snap_routes = ov_routes s,
      snap_can_undo = ov_previous s \<noteq> None\<rparr>"

definition next_generation :: "route_override_state \<Rightarrow> route_override_state" where
  "next_generation s = s\<lparr>ov_generation := saturating_add (ov_generation s) 1\<rparr>"

definition overrides_clear :: "route_override_state \<Rightarrow> u64 \<times> route_override_state" where
  "overrides_clear s =
     (let s' = next_generation (s\<lparr>ov_routes := [], ov_previous := None\<rparr>) in (ov_generation s', s'))"

definition overrides_activate ::
    "routes \<Rightarrow> route_override_state \<Rightarrow> (string, u64) result \<times> route_override_state" where
  "overrides_activate routes s =
     (if routes = []
      then (Inl ''route combination must contain at least one agent'', s)
      else if list_ex (\<lambda>(agent, key). trim agent = [] \<or> trim key = []) routes
      then (Inl ''route combination contains an empty agent or provider key'', s)
      else let s' = next_generation (s\<lparr>ov_previous := Some (ov_routes s), ov_routes := routes\<rparr>)
           in (Inr (ov_generation s'), s'))"

definition overrides_undo :: "route_override_state \<Rightarrow> u64 option \<times> route_override_state" where
  "overrides_undo s =
     (case ov_previous s of
        None \<Rightarrow> (None, s)
      | Some previous \<Rightarrow>
          let s' = next_generation (s\<lparr>ov_previous := None, ov_routes := previous\<rparr>)
          in (Some (ov_generation s'), s'))"

section \<open>The index of passing candidates\<close>

text \<open>Two facts about a fold that keeps the better of two elements.\<close>

lemma min_by_Some:
  assumes "min_by le xs = Some m"
    and total: "\<And>a b. le a b \<or> le b a" and trans: "\<And>a b c. le a b \<Longrightarrow> le b c \<Longrightarrow> le a c"
  shows "m \<in> set xs \<and> (\<forall>x \<in> set xs. le m x)"
proof -
  have fold: "fold (\<lambda>y m. if le m y then m else y) ys x \<in> set (x # ys) \<and>
      (\<forall>y \<in> set (x # ys). le (fold (\<lambda>y m. if le m y then m else y) ys x) y)" for ys x
  proof (induction ys arbitrary: x)
    case Nil
    then show ?case
      using total[of x x] by simp
  next
    case (Cons y ys)
    let ?m = "if le x y then x else y"
    let ?r = "fold (\<lambda>y m. if le m y then m else y) ys ?m"
    have "le ?m x" "le ?m y"
      using total by auto
    moreover have "le ?r ?m"
      using Cons[of ?m] by (simp del: fold_simps)
    ultimately have "le ?r x" "le ?r y"
      using trans by blast+
    then show ?case
      using Cons[of ?m] by (auto simp del: fold_simps simp: fold_simps(2))
  qed
  then show ?thesis
    using assms(1) by (cases xs) auto
qed

lemma min_by_None: "min_by le xs = None \<longleftrightarrow> xs = []"
  by (cases xs) simp_all

lemma max_by_eq: "max_by gt xs = min_by gt xs"
  by (cases xs) simp_all

lemma candidate_le_total: "candidate_le order a b \<or> candidate_le order b a"
  by (cases order) auto

lemma candidate_le_trans: "candidate_le order a b \<Longrightarrow> candidate_le order b c \<Longrightarrow> candidate_le order a c"
  by (cases order) auto

lemmas best_candidate = min_by_Some[OF _ candidate_le_total candidate_le_trans]

definition candidate_ok :: "candidate_evaluation list \<Rightarrow> string \<Rightarrow> candidate_evaluation list \<Rightarrow> bool" where
  "candidate_ok es agent cs \<longleftrightarrow>
     cs \<noteq> [] \<and> distinct (map ce_provider_key cs) \<and>
     (\<forall>c \<in> set cs. c \<in> set es \<and> passed c \<noteq> None \<and> ce_agent_id c = agent)"

definition index_ok :: "candidate_evaluation list \<Rightarrow> passed_index \<Rightarrow> bool" where
  "index_ok es idx \<longleftrightarrow>
     distinct (map fst idx) \<and>
     (\<forall>agent cs. map_of idx agent = Some cs \<longrightarrow> candidate_ok es agent cs) \<and>
     (\<forall>e \<in> set es. passed e \<noteq> None \<longrightarrow>
        (\<exists>cs c. map_of idx (ce_agent_id e) = Some cs \<and> c \<in> set cs \<and>
           ce_provider_key c = ce_provider_key e \<and> latency_of c \<le> latency_of e))"

lemma add_candidate_keys:
  "map ce_provider_key (add_candidate e cs) =
     (if ce_provider_key e \<in> ce_provider_key ` set cs then map ce_provider_key cs
      else map ce_provider_key cs @ [ce_provider_key e])"
  by (induction cs) auto

lemma add_candidate_set: "set (add_candidate e cs) \<subseteq> insert e (set cs)"
  by (induction cs) auto

lemma add_candidate_covers:
  "\<exists>c \<in> set (add_candidate e cs). ce_provider_key c = ce_provider_key e \<and> latency_of c \<le> latency_of e"
  by (induction cs) (auto simp: not_less)

lemma add_candidate_keeps:
  "d \<in> set cs \<Longrightarrow> \<exists>c \<in> set (add_candidate e cs).
     ce_provider_key c = ce_provider_key d \<and> latency_of c \<le> latency_of d"
  by (induction cs) (auto simp: not_less)

lemma add_candidate_ok:
  assumes "cs = [] \<or> candidate_ok es (ce_agent_id e) cs" "passed e \<noteq> None"
  shows "candidate_ok (es @ [e]) (ce_agent_id e) (add_candidate e cs)"
proof -
  have "distinct (map ce_provider_key (add_candidate e cs))"
    using assms(1) by (auto simp: add_candidate_keys candidate_ok_def)
  moreover have "add_candidate e cs \<noteq> []"
    by (cases cs) auto
  ultimately show ?thesis
    using assms add_candidate_set[of e cs] by (auto simp: candidate_ok_def)
qed

lemma candidate_ok_mono: "candidate_ok es agent cs \<Longrightarrow> candidate_ok (es @ [e]) agent cs"
  by (auto simp: candidate_ok_def)

lemma index_evaluation_ok:
  assumes "index_ok es idx"
  shows "index_ok (es @ [e]) (index_evaluation e idx)"
proof (cases "passed e = None")
  case True
  then show ?thesis
    using assms by (auto simp: index_ok_def index_evaluation_def intro: candidate_ok_mono)
next
  case False
  define cs where "cs = (case map_of idx (ce_agent_id e) of None \<Rightarrow> [] | Some cs \<Rightarrow> cs)"
  from False obtain m where m: "passed e = Some m"
    by auto
  have new: "map_of (index_evaluation e idx) = (map_of idx)(ce_agent_id e \<mapsto> add_candidate e cs)"
    by (simp add: index_evaluation_def cs_def m)
  have ok: "candidate_ok (es @ [e]) (ce_agent_id e) (add_candidate e cs)"
    by (rule add_candidate_ok) (use assms False in
      \<open>auto simp: cs_def index_ok_def split: option.splits\<close>)
  have "\<exists>cs' c. map_of (index_evaluation e idx) (ce_agent_id d) = Some cs' \<and> c \<in> set cs' \<and>
      ce_provider_key c = ce_provider_key d \<and> latency_of c \<le> latency_of d"
    if d: "d \<in> set (es @ [e])" "passed d \<noteq> None" for d
  proof (cases "d = e")
    case True
    then show ?thesis
      using add_candidate_covers[of e cs] by (auto simp: new)
  next
    case False
    then have "d \<in> set es"
      using d(1) by simp
    then obtain ds c where c: "map_of idx (ce_agent_id d) = Some ds" "c \<in> set ds"
        "ce_provider_key c = ce_provider_key d" "latency_of c \<le> latency_of d"
      using d(2) assms unfolding index_ok_def by blast
    show ?thesis
    proof (cases "ce_agent_id d = ce_agent_id e")
      case True
      then have "c \<in> set cs"
        using c by (simp add: cs_def)
      then obtain c' where "c' \<in> set (add_candidate e cs)" "ce_provider_key c' = ce_provider_key c"
          "latency_of c' \<le> latency_of c"
        using add_candidate_keeps by blast
      moreover have "latency_of c' \<le> latency_of d"
        using calculation(3) c(4) by (rule order_trans)
      ultimately show ?thesis
        using True c(3) by (auto simp: new)
    qed (use c in \<open>auto simp: new\<close>)
  qed
  moreover have "distinct (map fst (index_evaluation e idx))"
    using assms False by (simp add: index_ok_def index_evaluation_def distinct_keys_update)
  ultimately show ?thesis
    using ok assms by (auto simp: index_ok_def new intro: candidate_ok_mono)
qed

lemma index_ok_passed: "index_ok evaluations (passed_by_agent evaluations)"
proof (induction evaluations rule: rev_induct)
  case Nil
  then show ?case
    by (simp add: index_ok_def passed_by_agent_def)
next
  case (snoc e es)
  then show ?case
    using index_evaluation_ok by (simp add: passed_by_agent_def)
qed

text \<open>So the measures the code takes with \<open>expect\<close> are there.\<close>

lemma passed_index:
  "map_of (passed_by_agent es) agent = Some cs \<Longrightarrow> c \<in> set cs \<Longrightarrow>
   c \<in> set es \<and> passed c \<noteq> None \<and> ce_agent_id c = agent"
  using index_ok_passed[of es] by (auto simp: index_ok_def candidate_ok_def)

section \<open>Routes\<close>

text \<open>What makes a route sound: a passing evaluation of this provider for this agent, a case.\<close>

definition measured :: "candidate_evaluation list \<Rightarrow> string \<Rightarrow> string \<Rightarrow> bool" where
  "measured es agent key \<longleftrightarrow>
     (\<exists>e \<in> set es. passed e \<noteq> None \<and> ce_agent_id e = agent \<and> ce_provider_key e = key)"

definition sound_routes :: "agent_case list \<Rightarrow> candidate_evaluation list \<Rightarrow> routes \<Rightarrow> bool" where
  "sound_routes cases es routes \<longleftrightarrow> bt_wf routes \<and>
     (\<forall>agent key. map_of routes agent = Some key \<longrightarrow>
        agent \<in> case_agent_id ` set cases \<and> measured es agent key)"

lemma sound_collect:
  assumes "\<And>agent key. (agent, key) \<in> set kvs \<Longrightarrow> agent \<in> case_agent_id ` set cases \<and> measured es agent key"
  shows "sound_routes cases es (bt_collect kvs)"
  using assms by (auto simp: sound_routes_def dest!: map_of_SomeD)

lemma set_map_filter: "set (List.map_filter f xs) = {y. \<exists>x \<in> set xs. f x = Some y}"
  by (force simp: map_filter_def)

lemma selected_measured:
  assumes "Option.bind (map_of (passed_by_agent es) agent) (\<lambda>cs. map_option f (min_by (candidate_le order) cs)) =
    Some y"
  obtains cs m where "y = f m" "map_of (passed_by_agent es) agent = Some cs" "m \<in> set cs"
    "\<And>c. c \<in> set cs \<Longrightarrow> candidate_le order m c" "measured es agent (ce_provider_key m)"
proof -
  obtain cs m where m: "map_of (passed_by_agent es) agent = Some cs" "min_by (candidate_le order) cs = Some m"
    "y = f m"
    using assms by (auto simp: bind_eq_Some_conv)
  have best: "m \<in> set cs" "\<And>c. c \<in> set cs \<Longrightarrow> candidate_le order m c"
    using best_candidate[OF m(2)] by auto
  show ?thesis
    using passed_index[OF m(1) best(1)] by (intro that[OF m(3,1) best]) (auto simp: measured_def)
qed

lemma select_routes_sound: "sound_routes cases es (select_routes cases (passed_by_agent es) order)"
  unfolding select_routes_def
  by (rule sound_collect) (auto simp: set_map_filter elim!: selected_measured)

lemma evaluation_for_Some:
  "evaluation_for (passed_by_agent es) agent key = Some e \<Longrightarrow>
   e \<in> set es \<and> passed e \<noteq> None \<and> ce_agent_id e = agent \<and> ce_provider_key e = key"
  by (auto simp: evaluation_for_def bind_eq_Some_conv find_Some_iff dest!: passed_index)

lemma shared_routes_sound:
  assumes "shared_routes cases (passed_by_agent es) = Some routes"
  shows "sound_routes cases es routes"
proof -
  let ?idx = "passed_by_agent es"
  let ?fastest = "select_routes cases ?idx LatencyOrder"
  obtain shared where routes: "routes = bt_collect (List.map_filter (\<lambda>c.
             if evaluation_for ?idx (case_agent_id c) shared \<noteq> None
             then Some (case_agent_id c, shared)
             else map_option (Pair (case_agent_id c)) (map_of ?fastest (case_agent_id c))) cases)"
    using assms by (auto simp: shared_routes_def Let_def bind_eq_Some_conv split: if_splits)
  show ?thesis
    unfolding routes
  proof (rule sound_collect)
    fix agent key
    assume "(agent, key) \<in> set (List.map_filter (\<lambda>c.
        if evaluation_for ?idx (case_agent_id c) shared \<noteq> None then Some (case_agent_id c, shared)
        else map_option (Pair (case_agent_id c)) (map_of ?fastest (case_agent_id c))) cases)"
    then consider e where "agent \<in> case_agent_id ` set cases" "evaluation_for ?idx agent shared = Some e"
        "key = shared"
      | "map_of ?fastest agent = Some key"
      by (auto simp: set_map_filter split: if_splits)
    then show "agent \<in> case_agent_id ` set cases \<and> measured es agent key"
    proof cases
      case 1
      then show ?thesis
        using evaluation_for_Some[OF 1(2)] unfolding measured_def by blast
    next
      case 2
      then show ?thesis
        using select_routes_sound[of cases es LatencyOrder] by (simp add: sound_routes_def)
    qed
  qed
qed

lemma second_fastest_measured:
  assumes "second_fastest (passed_by_agent es) agent = Some e"
  shows "measured es agent (ce_provider_key e)"
proof -
  obtain cs where cs: "map_of (passed_by_agent es) agent = Some cs"
    and second: "(case sort_key latency_of cs of _ # second # _ \<Rightarrow> Some second | _ \<Rightarrow> None) = Some e"
    using assms by (auto simp: second_fastest_def bind_eq_Some_conv)
  from second have "\<exists>a l. sort_key latency_of cs = a # e # l"
    by (auto split: list.splits)
  then have "e \<in> set (sort_key latency_of cs)"
    by (metis list.set_intros)
  then show ?thesis
    using passed_index[OF cs, of e] unfolding measured_def by auto
qed

lemma sound_insert:
  "sound_routes cases es routes \<Longrightarrow> agent \<in> case_agent_id ` set cases \<Longrightarrow> measured es agent key \<Longrightarrow>
   sound_routes cases es (bt_insert agent key routes)"
  by (auto simp: sound_routes_def)

section \<open>The list of combinations\<close>

definition plan_ok ::
    "agent_case list \<Rightarrow> candidate_evaluation list \<Rightarrow> route_combination list \<Rightarrow> bool" where
  "plan_ok cases es combs \<longleftrightarrow>
     length combs \<le> MAX_COMBINATIONS \<and> distinct (map comb_routes combs) \<and>
     (\<exists>rest. combs = current_combination cases # rest \<and>
        (\<forall>c \<in> set rest. comb_kind c \<noteq> CurrentRoutes \<and> sound_routes cases es (comb_routes c)))"

lemma plan_ok_push:
  assumes "plan_ok cases es combs" "comb_kind c \<noteq> CurrentRoutes" "sound_routes cases es (comb_routes c)"
  shows "plan_ok cases es (push_unique c combs)"
  using assms by (auto simp: plan_ok_def push_unique_def list_ex_iff)

lemma plan_ok_current: "plan_ok cases es (push_unique (current_combination cases) [])"
  by (simp add: plan_ok_def push_unique_def MAX_COMBINATIONS_def)

lemma plan_ok_substitutions:
  assumes "plan_ok cases es combs" "sound_routes cases es fastest"
    "\<And>i agent. (i, agent) \<in> set agents \<Longrightarrow> agent \<in> case_agent_id ` set cases"
  shows "plan_ok cases es (push_substitutions (passed_by_agent es) fastest agents combs)"
  using assms(1,3)
proof (induction agents arbitrary: combs)
  case (Cons a rest)
  obtain i agent where a: "a = (i, agent)"
    by fastforce
  show ?case
  proof (cases "second_fastest (passed_by_agent es) agent")
    case None
    then show ?thesis
      using Cons.IH[OF Cons.prems(1)] Cons.prems(2) by (auto simp: a)
  next
    case (Some e)
    have agent: "agent \<in> case_agent_id ` set cases"
      using Cons.prems(2)[of i agent] by (simp add: a)
    have "plan_ok cases es (push_unique (substitution i agent (ce_provider_key e) fastest) combs)"
      using sound_insert[OF assms(2) agent second_fastest_measured[OF Some]]
      by (intro plan_ok_push[OF Cons.prems(1)]) (simp_all add: substitution_def Let_def)
    from Cons.IH[OF this] Cons.prems(2) Some this show ?thesis
      by (auto simp: a Let_def)
  qed
qed simp

lemma slow_agents_cases:
  assumes "(agent, ms) \<in> set (slow_agents idx (select_routes cases (passed_by_agent es) order))"
  shows "agent \<in> case_agent_id ` set cases"
  using assms select_routes_sound[of cases es order]
  by (auto simp: slow_agents_def set_map_filter sound_routes_def bt_entry)

lemma enumerate_snd: "(i, x) \<in> set (List.enumerate n xs) \<Longrightarrow> x \<in> set xs"
  by (metis enumerate_eq_zip set_zip_rightD)

lemma plan_ok_generated:
  assumes "sorts_descending unstable"
  shows "plan_ok cases es (generate_combinations unstable cases es)"
proof -
  have perm: "set (unstable xs) = set xs" for xs
    using assms by (metis sorts_descending_def set_mset_mset)
  have push: "plan_ok cases es (push_fastest cases (select_routes cases (passed_by_agent es) LatencyOrder) cs)"
    "plan_ok cases es (push_lowest_memory cases (select_routes cases (passed_by_agent es) MemoryOrder) cs)"
    "plan_ok cases es (push_shared (shared_routes cases (passed_by_agent es)) cs)"
    if "plan_ok cases es cs" for cs
    using that select_routes_sound shared_routes_sound
    by (auto simp: push_fastest_def push_lowest_memory_def push_shared_def intro!: plan_ok_push
      split: option.splits)
  show ?thesis
    unfolding generate_combinations_def Let_def
    by (rule plan_ok_substitutions[OF push(3)[OF push(2)[OF push(1)[OF plan_ok_current]]] select_routes_sound])
      (auto dest!: enumerate_snd in_set_takeD slow_agents_cases simp: perm)
qed

section \<open>Kinds of combinations\<close>

lemma push_unique_set: "set (push_unique c combs) \<subseteq> insert c (set combs)"
  by (auto simp: push_unique_def)

lemma push_substitutions_set:
  "c \<in> set (push_substitutions idx fastest agents combs) \<Longrightarrow> c \<in> set combs \<or> comb_kind c = Substitution"
proof (induction agents arbitrary: combs)
  case (Cons a rest)
  obtain i agent where a: "a = (i, agent)"
    by fastforce
  show ?case
  proof (cases "second_fastest idx agent")
    case None
    then show ?thesis
      using Cons by (simp add: a)
  next
    case (Some e)
    let ?s = "substitution i agent (ce_provider_key e) fastest"
    have "c \<in> set (push_unique ?s combs) \<or> comb_kind c = Substitution"
      using Cons.prems Cons.IH[of "push_unique ?s combs"] Some by (auto simp: a Let_def split: if_splits)
    moreover have "comb_kind ?s = Substitution"
      by (simp add: substitution_def Let_def)
    ultimately show ?thesis
      using push_unique_set[of ?s combs] by auto
  qed
qed simp

lemma generated_fastest:
  assumes "c \<in> set (generate_combinations unstable cases es)" "comb_kind c = FastestLocal"
  shows "comb_routes c = select_routes cases (passed_by_agent es) LatencyOrder \<and>
    length (comb_routes c) = length cases"
proof -
  have "c \<in> set (push_shared (shared_routes cases (passed_by_agent es))
      (push_lowest_memory cases (select_routes cases (passed_by_agent es) MemoryOrder)
        (push_fastest cases (select_routes cases (passed_by_agent es) LatencyOrder)
          (push_unique (current_combination cases) []))))"
    using assms push_substitutions_set unfolding generate_combinations_def Let_def by fastforce
  then show ?thesis
    using assms(2)
    by (auto simp: push_shared_def push_lowest_memory_def push_fastest_def current_combination_def
      split: option.splits if_splits dest!: push_unique_set[THEN subsetD])
qed

lemma complete_routes:
  assumes "sound_routes cases es routes" "length routes = length cases"
  shows "dom (map_of routes) = case_agent_id ` set cases"
proof (rule card_subset_eq)
  show sub: "dom (map_of routes) \<subseteq> case_agent_id ` set cases"
    using assms(1) by (auto simp: sound_routes_def)
  have "card (dom (map_of routes)) = length routes"
    using assms(1) bt_wf_distinct[of routes] distinct_card[of "map fst routes"]
    by (simp add: sound_routes_def dom_map_of_conv_image_fst)
  moreover have "card (case_agent_id ` set cases) \<le> length cases"
    by (metis card_image_le card_length le_trans List.finite_set)
  moreover have "card (dom (map_of routes)) \<le> card (case_agent_id ` set cases)"
    by (rule card_mono[OF _ sub]) simp
  ultimately show "card (dom (map_of routes)) = card (case_agent_id ` set cases)"
    using assms(2) by linarith
qed simp

lemma fastest_selected:
  assumes "map_of (select_routes cases (passed_by_agent es) LatencyOrder) agent = Some key"
  shows "\<exists>e \<in> set es. passed e \<noteq> None \<and> ce_agent_id e = agent \<and> ce_provider_key e = key \<and>
    (\<forall>e' \<in> set es. passed e' \<noteq> None \<and> ce_agent_id e' = agent \<longrightarrow> latency_of e \<le> latency_of e')"
proof -
  have "(agent, key) \<in> set (List.map_filter (\<lambda>c.
       Option.bind (map_of (passed_by_agent es) (case_agent_id c)) (\<lambda>candidates.
       map_option (\<lambda>selected. (case_agent_id c, ce_provider_key selected))
         (min_by (candidate_le LatencyOrder) candidates))) cases)"
    using assms by (auto simp: select_routes_def dest: map_of_SomeD)
  then obtain c :: agent_case where "Option.bind (map_of (passed_by_agent es) (case_agent_id c)) (\<lambda>candidates.
       map_option (\<lambda>selected. (case_agent_id c, ce_provider_key selected))
         (min_by (candidate_le LatencyOrder) candidates)) = Some (agent, key)"
    by (auto simp: set_map_filter)
  then obtain cs m where m: "(agent, key) = (case_agent_id c, ce_provider_key m)"
    "map_of (passed_by_agent es) (case_agent_id c) = Some cs" "m \<in> set cs"
    "\<And>d. d \<in> set cs \<Longrightarrow> latency_of m \<le> latency_of d"
    by (rule selected_measured) auto
  have "latency_of m \<le> latency_of e'" if e': "e' \<in> set es" "passed e' \<noteq> None" "ce_agent_id e' = agent" for e'
  proof -
    obtain ds d where "map_of (passed_by_agent es) (ce_agent_id e') = Some ds" "d \<in> set ds"
      "latency_of d \<le> latency_of e'"
      using index_ok_passed[of es] e'(1,2) unfolding index_ok_def by blast
    then show ?thesis
      using m e'(3) by (fastforce intro: order_trans)
  qed
  moreover have "m \<in> set es \<and> passed m \<noteq> None \<and> ce_agent_id m = agent \<and> ce_provider_key m = key"
    using passed_index[OF m(2,3)] m(1) by simp
  ultimately show ?thesis
    by blast
qed

lemma push_unique_keeps: "c \<in> set combs \<Longrightarrow> c \<in> set (push_unique d combs)"
  by (simp add: push_unique_def)

lemma push_substitutions_keeps:
  "c \<in> set combs \<Longrightarrow> c \<in> set (push_substitutions idx fastest agents combs)"
proof (induction agents arbitrary: combs)
  case (Cons a rest)
  then show ?case
    by (cases a) (auto simp: Let_def push_unique_keeps split: option.splits)
qed simp

lemma push_keeps:
  "c \<in> set combs \<Longrightarrow> c \<in> set (push_lowest_memory cases lowest combs)"
  "c \<in> set combs \<Longrightarrow> c \<in> set (push_shared shared combs)"
  by (auto simp: push_lowest_memory_def push_shared_def push_unique_keeps split: option.splits)

section \<open>Pairs of agents and providers\<close>

lemma set_pairs: "set (concat (map (\<lambda>c. map (Pair (f c)) ks) cs)) = f ` set cs \<times> set ks"
  by auto

lemma filter_pairs:
  "set (filter (\<lambda>p. p \<in> A) (map f (filter P xs))) \<subseteq> set (map f (filter (\<lambda>e. f e \<in> A) xs))"
  by auto

lemma length_filter_all: "length (filter P xs) = length xs \<longleftrightarrow> (\<forall>x \<in> set xs. P x)"
  by (metis filter_True length_filter_less nat_less_le)

lemma missing_distinct:
  assumes "distinct ks" "distinct (map f cs)"
  shows "distinct (concat (map (\<lambda>c. map (Pair (f c)) (filter (\<lambda>k. (f c, k) \<notin> E) ks)) cs))"
  using assms(2)
proof (induction cs)
  case (Cons c cs)
  then show ?case
    using assms(1) by (auto simp: distinct_map inj_on_def)
qed simp

lemma missing_length:
  assumes "distinct ks" "distinct (map f cs)" "E \<subseteq> f ` set cs \<times> set ks"
  shows "card E + length (concat (map (\<lambda>c. map (Pair (f c)) (filter (\<lambda>k. (f c, k) \<notin> E) ks)) cs)) =
    length cs * length ks"
proof -
  let ?missing = "concat (map (\<lambda>c. map (Pair (f c)) (filter (\<lambda>k. (f c, k) \<notin> E) ks)) cs)"
  have all: "card (f ` set cs \<times> set ks) = length cs * length ks"
    using assms(1) distinct_card[OF assms(2)] distinct_card[OF assms(1)] by (simp add: card_cartesian_product)
  have "set ?missing = f ` set cs \<times> set ks - E"
    by auto
  then have "length ?missing = card (f ` set cs \<times> set ks - E)"
    by (subst distinct_card[OF missing_distinct[OF assms(1,2)], symmetric]) (rule arg_cong[of _ _ card])
  also have "\<dots> = length cs * length ks - card E"
    by (subst card_Diff_subset[OF finite_subset[OF assms(3)] assms(3)]) (simp_all add: all)
  finally show ?thesis
    using card_mono[OF _ assms(3)] all by simp
qed

section \<open>A benchmark\<close>

definition sample_evaluation :: "string \<Rightarrow> string \<Rightarrow> u64 \<Rightarrow> candidate_evaluation" where
  "sample_evaluation agent key latency =
     \<lparr>ce_agent_id = agent, ce_provider_key = key, ce_outcome = CandidatePassed
        \<lparr>range_median = latency, range_min = latency, range_max = latency, range_samples = 3\<rparr>
        None None None\<rparr>"

definition sample_cases :: "agent_case list" where
  "sample_cases = [\<lparr>case_agent_id = ''a'', case_capability = ''chat'', case_provider_key = ''x''\<rparr>]"

definition sample_evaluations :: "candidate_evaluation list" where
  "sample_evaluations = [sample_evaluation ''a'' ''x'' 9, sample_evaluation ''a'' ''y'' 4]"

definition stable_descending :: "(string \<times> u64) list \<Rightarrow> (string \<times> u64) list" where
  "stable_descending xs = rev (sort_key snd xs)"

lemma stable_descending: "sorts_descending stable_descending"
proof -
  have "sorted_wrt (\<lambda>a b. snd b \<le> snd a) (stable_descending xs)" for xs
    using sorted_sort_key[of snd xs]
    by (simp add: stable_descending_def sorted_wrt_rev sorted_map)
  then show ?thesis
    by (simp add: sorts_descending_def stable_descending_def)
qed

section \<open>Properties\<close>

text \<open>The planner's list of combinations is bounded and sound: at most eight combinations with
  pairwise different routes, the first of them the current routes, and every other one routes only
  agents of the cases, each to a provider with a passing evaluation for this agent.\<close>

theorem planner_combinations_sound:
  assumes "sorts_descending unstable"
    and "combinations = generate_combinations unstable cases evaluations"
  shows "length combinations \<le> 8 \<and> distinct (map comb_routes combinations) \<and>
    (\<exists>rest. combinations = current_combination cases # rest \<and>
      (\<forall>c \<in> set rest. \<forall>agent key. map_of (comb_routes c) agent = Some key \<longrightarrow>
        agent \<in> case_agent_id ` set cases \<and>
        (\<exists>e \<in> set evaluations. passed e \<noteq> None \<and> ce_agent_id e = agent \<and> ce_provider_key e = key)))"
  using plan_ok_generated[OF assms(1), of cases evaluations] unfolding assms(2) plan_ok_def
  by (auto simp: MAX_COMBINATIONS_def sound_routes_def measured_def)

theorem planner_combinations_sound_witness:
  "length (generate_combinations stable_descending sample_cases sample_evaluations) \<le> 8 \<and>
   distinct (map comb_routes (generate_combinations stable_descending sample_cases sample_evaluations))"
  using planner_combinations_sound[OF stable_descending refl, of sample_cases sample_evaluations] by simp

text \<open>The combination named fastest routes every agent of the cases, each to a provider whose
  measured median latency for this agent is the lowest of all passing evaluations of the agent.\<close>

theorem fastest_combination_optimal:
  assumes "c \<in> set (generate_combinations unstable cases evaluations)" and "comb_kind c = FastestLocal"
  shows "dom (map_of (comb_routes c)) = case_agent_id ` set cases \<and>
    (\<forall>agent key. map_of (comb_routes c) agent = Some key \<longrightarrow>
      (\<exists>e \<in> set evaluations. passed e \<noteq> None \<and> ce_agent_id e = agent \<and> ce_provider_key e = key \<and>
        (\<forall>e' \<in> set evaluations. passed e' \<noteq> None \<and> ce_agent_id e' = agent \<longrightarrow>
          latency_of e \<le> latency_of e')))"
  using generated_fastest[OF assms] complete_routes[OF select_routes_sound] fastest_selected by metis

theorem fastest_combination_optimal_witness:
  "\<exists>c. c \<in> set (generate_combinations stable_descending sample_cases sample_evaluations) \<and>
    comb_kind c = FastestLocal \<and> dom (map_of (comb_routes c)) = {''a''} \<and> comb_routes c = [(''a'', ''y'')]"
proof -
  let ?c = "\<lparr>comb_id = ''fastest-local'', comb_label = ''fastest-local'', comb_kind = FastestLocal,
    comb_explanation = ''Fastest passing configured candidate for every agent'',
    comb_routes = [(''a'', ''y'')]\<rparr>"
  have c: "?c \<in> set (generate_combinations stable_descending sample_cases sample_evaluations)"
  proof -
    let ?x = "sample_evaluation ''a'' ''x'' 9" and ?y = "sample_evaluation ''a'' ''y'' 4"
    have measures: "passed ?x \<noteq> None" "passed ?y \<noteq> None" "latency_of ?x = 9" "latency_of ?y = 4"
      "ce_agent_id ?x = ''a''" "ce_agent_id ?y = ''a''" "ce_provider_key ?x = ''x''" "ce_provider_key ?y = ''y''"
      by (simp_all add: sample_evaluation_def passed_def latency_of_def)
    then have index: "passed_by_agent sample_evaluations = [(''a'', [?x, ?y])]"
      by (simp add: sample_evaluations_def passed_by_agent_def index_evaluation_def)
    have fastest: "select_routes sample_cases [(''a'', [?x, ?y])] LatencyOrder = [(''a'', ''y'')]"
      using measures by (simp add: select_routes_def sample_cases_def map_filter_def bt_collect_def)
    have "?c \<in> set (push_fastest sample_cases [(''a'', ''y'')]
        (push_unique (current_combination sample_cases) []))"
      by (simp add: push_fastest_def push_unique_def current_combination_def sample_cases_def
        MAX_COMBINATIONS_def bt_collect_def)
    then show ?thesis
      unfolding generate_combinations_def Let_def index fastest
      by (intro push_substitutions_keeps push_keeps)
  qed
  show ?thesis
    using fastest_combination_optimal[OF c] c
    by (intro exI[of _ ?c] conjI) (simp_all add: sample_cases_def)
qed

text \<open>The coverage report accounts for every pair: with distinct providers and agents, each
  provider is expected with each agent, a pair is either evaluated or listed as missing, the passed
  pairs are among the evaluated ones, and nothing is missing exactly when every configured model
  counts as tested.\<close>

theorem coverage_accounts:
  assumes "distinct keys" and "distinct (map case_agent_id cases)"
    and "cov = coverage keys cases evaluations"
  shows "cov_expected_pairs cov = length cases * length keys \<and>
    cov_evaluated_pairs cov + length (cov_missing cov) = cov_expected_pairs cov \<and>
    cov_passed_pairs cov \<le> cov_evaluated_pairs cov \<and>
    (cov_missing cov = [] \<longleftrightarrow> cov_tested_models cov = cov_configured_models cov)"
proof -
  let ?all = "case_agent_id ` set cases \<times> set keys"
  let ?evaluated = "set (map evaluation_pair (filter (\<lambda>e. evaluation_pair e \<in> ?all) evaluations))"
  note cov = assms(3)[unfolded coverage_def Let_def set_pairs]
  have sub: "?evaluated \<subseteq> ?all"
    by auto
  have "cov_expected_pairs cov = length cases * length keys"
    using distinct_card[OF assms(1)] distinct_card[OF assms(2)]
    by (simp add: cov card_cartesian_product)
  moreover have "cov_evaluated_pairs cov + length (cov_missing cov) = length cases * length keys"
    using missing_length[OF assms(1,2) sub] by (simp add: cov)
  moreover have "cov_passed_pairs cov \<le> cov_evaluated_pairs cov"
    unfolding cov by (simp only: optimization_coverage.simps, rule card_mono[OF _ filter_pairs]) simp
  moreover have "cov_missing cov = [] \<longleftrightarrow> cov_tested_models cov = cov_configured_models cov"
    by (simp add: cov length_filter_all list_all_iff) (auto simp: filter_empty_conv)
  ultimately show ?thesis
    by simp
qed

theorem coverage_accounts_witness:
  "cov_evaluated_pairs (coverage [''x'', ''y'', ''z''] sample_cases sample_evaluations) +
     length (cov_missing (coverage [''x'', ''y'', ''z''] sample_cases sample_evaluations)) = 3"
  using coverage_accounts[OF _ _ refl, of "[''x'', ''y'', ''z'']" sample_cases sample_evaluations]
  by (simp add: sample_cases_def)

text \<open>Activating routes makes every later call use them, undoing brings back exactly the routes
  that were active before, and only one undo is possible.\<close>

theorem undo_restores_routes:
  assumes "overrides_activate routes s = (Inr generation, s1)"
  shows "provider_for agent s1 = map_of routes agent \<and>
    (\<exists>s2. overrides_undo s1 = (Some (ov_generation s2), s2) \<and> ov_routes s2 = ov_routes s \<and>
      seq_before generation (ov_generation s2) \<and> overrides_undo s2 = (None, s2))"
  using assms
  by (auto simp: overrides_activate_def overrides_undo_def provider_for_def next_generation_def Let_def
    split: if_splits)

theorem undo_restores_routes_witness:
  "\<exists>s1 s2. overrides_activate [(''a'', ''y'')] overrides_default = (Inr 1, s1) \<and>
    overrides_undo s1 = (Some (ov_generation s2), s2) \<and> ov_routes s2 = []"
proof -
  let ?s1 = "\<lparr>ov_generation = 1, ov_routes = [(''a'', ''y'')], ov_previous = Some []\<rparr>"
  have "overrides_activate [(''a'', ''y'')] overrides_default = (Inr 1, ?s1)"
    by (simp add: overrides_activate_def overrides_default_def next_generation_def Let_def trim_def
      is_whitespace_def saturating_add_def)
  from undo_restores_routes[OF this] this show ?thesis
    by (auto simp: overrides_default_def)
qed

end
