(* ===== verification/Comparison_Upload.thy ===== *)
theory Comparison_Upload
  imports Route_Planner
begin

text \<open>
  The comparison reports of \<open>crates/vifu-gateway/src/optimization.rs\<close> a gateway uploads to its server,
  and the checks both sides run on them (\<open>RuntimeComparisonUpload::validate\<close>).
\<close>

section \<open>Data\<close>

datatype comparison_status = ComparisonCompleted | ComparisonFailed

fun comparison_status_name :: "comparison_status \<Rightarrow> string" where
  "comparison_status_name ComparisonCompleted = ''completed''"
| "comparison_status_name ComparisonFailed = ''failed''"

datatype comparison_outcome = RunPassed | RunFailed

fun comparison_outcome_name :: "comparison_outcome \<Rightarrow> string" where
  "comparison_outcome_name RunPassed = ''passed''"
| "comparison_outcome_name RunFailed = ''failed''"

record comparison_device =
  device_architecture :: string
  device_backend :: "string option"
  device_os :: "string option"

record comparison_run =
  run_id :: uuid
  run_combination_id :: string
  run_label :: string
  run_rule :: string
  run_routes :: "(string, string) btree"
  run_route_labels :: "(string, string) btree"
  run_outcome :: comparison_outcome
  run_first_total_ms :: "u64 option"
  run_first_run_cold :: "bool option"
  run_repeat_runs_resident :: "bool option"
  run_repeat_total :: "metric_range option"
  run_repeat_ttft :: "metric_range option"
  run_tokens_per_second :: "f64 option"
  run_first_process_cpu :: "f64 option"
  run_process_cpu :: "f64 option"
  run_peak_rss_bytes :: "u64 option"
  run_error :: "string option"

record comparison_upload =
  up_id :: uuid
  up_deployment_id :: uuid
  up_status :: comparison_status
  up_recommendation :: "string option"
  up_not_exhaustive :: bool
  up_sequential_replay :: bool
  up_corpus_agents :: "32 word"
  up_configured_models :: "32 word"
  up_tested_models :: "32 word"
  up_passed_models :: "32 word"
  up_device :: comparison_device
  up_started_at_ms :: u64
  up_completed_at_ms :: "u64 option"
  up_monotonic_duration_ms :: u64
  up_runs :: "comparison_run list"

definition MAX_COMPARISON_AGENTS :: nat where "MAX_COMPARISON_AGENTS = 128"
definition MAX_COMPARISON_MODELS :: "32 word" where "MAX_COMPARISON_MODELS = 512"
definition MAX_COMPARISON_DURATION_MS :: u64 where
  "MAX_COMPARISON_DURATION_MS = 24 * 60 * 60 * 1000"
definition REQUIRED_COMPARISON_REPEAT_SAMPLES :: "32 word" where
  "REQUIRED_COMPARISON_REPEAT_SAMPLES = 3"

text \<open>\<open>i64::MAX as u64\<close>.\<close>

definition i64_max :: u64 where "i64_max = 9223372036854775807"

section \<open>Checks of values\<close>

definition comparison_text_ok :: "string \<Rightarrow> nat \<Rightarrow> bool" where
  "comparison_text_ok text max_len \<longleftrightarrow>
     trim text \<noteq> [] \<and> length (trim text) \<le> max_len \<and> \<not> any_control (trim text)"

definition validate_comparison_text :: "string \<Rightarrow> string \<Rightarrow> nat \<Rightarrow> (string, unit) result" where
  "validate_comparison_text name text max_len =
     ensure (comparison_text_ok text max_len) (name @ '' is invalid'')"

definition validate_duration :: "u64 \<Rightarrow> (string, unit) result" where
  "validate_duration ms = ensure (ms \<le> MAX_COMPARISON_DURATION_MS)
     ''comparison duration exceeds the supported window''"

definition validate_metric_range :: "metric_range \<Rightarrow> (string, unit) result" where
  "validate_metric_range r =
     and_then (ensure (range_samples r \<noteq> 0 \<and> range_samples r \<le> 64 \<and>
         range_min r \<le> range_median r \<and> range_median r \<le> range_max r)
       ''comparison metric range is invalid'') (\<lambda>_.
     validate_duration (range_max r))"

text \<open>
  \<open>is_finite\<close> and \<open>(0.0..=max).contains\<close> on the bits of an \<open>f64\<close>: the order of non-negative floats is
  the order of their bits, infinities and NaNs have larger bits than any finite number, and \<open>-0.0\<close>
  is equal to \<open>0.0\<close>.
\<close>

definition f64_between_zero_and :: "f64 \<Rightarrow> f64 \<Rightarrow> bool" where
  "f64_between_zero_and max_bits x \<longleftrightarrow> x \<le> max_bits \<or> x = 0x8000000000000000"

definition f64_1e9 :: f64 where "f64_1e9 = 0x41CDCD6500000000"
definition f64_1e6 :: f64 where "f64_1e6 = 0x412E848000000000"

definition validate_token_rate :: "f64 \<Rightarrow> (string, unit) result" where
  "validate_token_rate x =
     ensure (f64_between_zero_and f64_1e9 x) ''comparison token rate is invalid''"

definition validate_process_cpu :: "f64 option \<Rightarrow> (string, unit) result" where
  "validate_process_cpu = optional_check (\<lambda>x.
     ensure (f64_between_zero_and f64_1e6 x) ''comparison process CPU is invalid'')"

definition sensitive_marker_list :: "string list" where
  "sensitive_marker_list =
     [''authorization:'', ''authorization='', ''api_key='', ''api-key='', ''apikey='',
      ''access_token='', ''access token:'', ''token='', ''token:'', ''secret='', ''secret:'',
      ''password='', ''password:'', ''credential='', ''credential:'', ''cookie='', ''cookie:'',
      ''session='', ''session:'', ''vifu_pk_'', ''vifu_gw_'']"

definition contains_sensitive_marker :: "string \<Rightarrow> bool" where
  "contains_sensitive_marker text =
     (let lower = to_ascii_lowercase (trim text)
      in starts_with lower ''data:'' \<or> starts_with lower ''bearer '' \<or> starts_with lower ''basic '' \<or>
         list_ex (\<lambda>marker. str_contains lower marker) sensitive_marker_list)"

section \<open>Checks of a run\<close>

text \<open>\<open>usize::saturating_add\<close>.\<close>

definition usize_saturating_add :: "nat \<Rightarrow> nat \<Rightarrow> nat" where
  "usize_saturating_add a b = min (a + b) (2 ^ 64 - 1)"

definition check_route :: "string \<times> string \<Rightarrow> nat \<Rightarrow> (string, nat) result" where
  "check_route = (\<lambda>(route, provider) bytes.
     and_then (validate_comparison_text ''comparison route'' route 128) (\<lambda>_.
     and_then (validate_comparison_text ''comparison provider'' provider 128) (\<lambda>_.
     Inr (usize_saturating_add (usize_saturating_add bytes (length route)) (length provider)))))"

definition check_run_error :: "string \<Rightarrow> (string, unit) result" where
  "check_run_error error =
     and_then (validate_comparison_text ''comparison error'' error 512) (\<lambda>_.
     ensure (\<not> contains_sensitive_marker error) ''comparison error contains sensitive data'')"

definition check_run_outcome :: "comparison_run \<Rightarrow> (string, unit) result" where
  "check_run_outcome run =
     (case run_outcome run of
        RunPassed \<Rightarrow>
          and_then (ensure (run_first_total_ms run \<noteq> None \<and> run_repeat_total run \<noteq> None \<and>
              run_error run = None)
            ''passing comparison run is missing measured totals'') (\<lambda>_.
          optional_check (\<lambda>r. ensure (range_samples r = REQUIRED_COMPARISON_REPEAT_SAMPLES)
              (''passing comparison run must include exactly '' @
               show_nat (unat REQUIRED_COMPARISON_REPEAT_SAMPLES) @ '' repeat samples''))
            (run_repeat_total run))
      | RunFailed \<Rightarrow>
          ensure (run_error run \<noteq> None) ''failed comparison run must include a bounded error'')"

definition validate_comparison_run :: "comparison_run \<Rightarrow> (string, unit) result" where
  "validate_comparison_run run =
     and_then (validate_comparison_text ''combination id'' (run_combination_id run) 128) (\<lambda>_.
     and_then (validate_comparison_text ''comparison label'' (run_label run) 128) (\<lambda>_.
     and_then (validate_comparison_text ''comparison rule'' (run_rule run) 512) (\<lambda>_.
     and_then (ensure (run_routes run \<noteq> [] \<and> length (run_routes run) \<le> MAX_COMPARISON_AGENTS)
       (''comparison run routes must contain between 1 and '' @ show_nat MAX_COMPARISON_AGENTS @
        '' entries'')) (\<lambda>_.
     and_then (fold_result check_route (run_routes run) 0) (\<lambda>route_bytes.
     and_then (ensure (route_bytes \<le> 32 * 1024) ''comparison routes are too large'') (\<lambda>_.
     and_then (ensure (length (run_route_labels run) = length (run_routes run) \<and>
         map fst (run_route_labels run) = map fst (run_routes run))
       ''comparison route labels must match route binding IDs'') (\<lambda>_.
     and_then (for_each (\<lambda>label. validate_comparison_text ''comparison route label'' label 128)
       (map snd (run_route_labels run))) (\<lambda>_.
     and_then (optional_check validate_duration (run_first_total_ms run)) (\<lambda>_.
     and_then (optional_check validate_metric_range (run_repeat_total run)) (\<lambda>_.
     and_then (optional_check validate_metric_range (run_repeat_ttft run)) (\<lambda>_.
     and_then (optional_check validate_token_rate (run_tokens_per_second run)) (\<lambda>_.
     and_then (validate_process_cpu (run_first_process_cpu run)) (\<lambda>_.
     and_then (validate_process_cpu (run_process_cpu run)) (\<lambda>_.
     and_then (optional_check (\<lambda>bytes. ensure (bytes \<le> i64_max) ''comparison peak RSS is invalid'')
       (run_peak_rss_bytes run)) (\<lambda>_.
     and_then (optional_check check_run_error (run_error run)) (\<lambda>_.
     check_run_outcome run))))))))))))))))"

section \<open>Checks of an upload\<close>

type_synonym runs_seen = "uuid set \<times> string set \<times> string list option"

definition check_upload_run :: "comparison_run \<Rightarrow> runs_seen \<Rightarrow> (string, runs_seen) result" where
  "check_upload_run = (\<lambda>run (run_ids, combination_ids, expected_routes).
     and_then (validate_comparison_run run) (\<lambda>_.
     and_then (ensure (run_id run \<notin> run_ids \<and> run_combination_id run \<notin> combination_ids)
       ''comparison run identifiers must be unique'') (\<lambda>_.
     let routes = map fst (run_routes run) in
     and_then (ensure (case expected_routes of None \<Rightarrow> True | Some expected \<Rightarrow> expected = routes)
       ''comparison runs must cover the same routes'') (\<lambda>_.
     Inr (insert (run_id run) run_ids, insert (run_combination_id run) combination_ids,
       Some (case expected_routes of None \<Rightarrow> routes | Some expected \<Rightarrow> expected))))))"

definition check_recommendation :: "comparison_upload \<Rightarrow> (string, unit) result" where
  "check_recommendation u = optional_check (\<lambda>recommendation.
     and_then (validate_comparison_text ''recommendation'' recommendation 128) (\<lambda>_.
     ensure (list_ex (\<lambda>run. run_combination_id run = recommendation \<and> run_outcome run = RunPassed)
         (up_runs u))
       ''comparison recommendation must identify a passing run'')) (up_recommendation u)"

definition check_window :: "comparison_upload \<Rightarrow> (string, unit) result" where
  "check_window u =
     and_then (ensure (up_started_at_ms u \<noteq> 0 \<and> up_started_at_ms u \<le> i64_max)
       ''comparison start timestamp is invalid'') (\<lambda>_.
     and_then (ok_or (up_completed_at_ms u) ''comparison completion timestamp is required'')
       (\<lambda>completed_at_ms.
     and_then (ensure (up_started_at_ms u \<le> completed_at_ms \<and> completed_at_ms \<le> i64_max)
       ''comparison completion timestamp is invalid'') (\<lambda>_.
     ensure (up_monotonic_duration_ms u \<le> MAX_COMPARISON_DURATION_MS \<and>
         saturating_sub completed_at_ms (up_started_at_ms u) \<le> MAX_COMPARISON_DURATION_MS)
       ''comparison duration exceeds the supported window'')))"

definition validate_comparison :: "comparison_upload \<Rightarrow> (string, unit) result" where
  "validate_comparison u =
     and_then (ensure (unat (up_corpus_agents u) \<le> MAX_COMPARISON_AGENTS)
       (''comparison corpus must contain at most '' @ show_nat MAX_COMPARISON_AGENTS @ '' agents'')) (\<lambda>_.
     and_then (ensure (up_configured_models u \<le> MAX_COMPARISON_MODELS \<and>
         up_tested_models u \<le> up_configured_models u \<and> up_passed_models u \<le> up_tested_models u)
       ''comparison model coverage is invalid'') (\<lambda>_.
     and_then (validate_comparison_text ''device architecture''
       (device_architecture (up_device u)) 64) (\<lambda>_.
     and_then (optional_check (\<lambda>backend. validate_comparison_text ''device backend'' backend 128)
       (device_backend (up_device u))) (\<lambda>_.
     and_then (optional_check (\<lambda>os. validate_comparison_text ''device OS'' os 64)
       (device_os (up_device u))) (\<lambda>_.
     and_then (check_window u) (\<lambda>_.
     and_then (ensure (length (up_runs u) \<le> MAX_COMBINATIONS)
       (''comparison must contain at most '' @ show_nat MAX_COMBINATIONS @ '' runs'')) (\<lambda>_.
     and_then (ensure (\<not> (up_status u = ComparisonCompleted \<and> up_runs u = []))
       ''completed comparison must contain at least one run'') (\<lambda>_.
     and_then (fold_result check_upload_run (up_runs u) ({}, {}, None)) (\<lambda>_.
     and_then (check_recommendation u) (\<lambda>_.
     ensure (\<not> (up_status u = ComparisonFailed \<and> up_recommendation u \<noteq> None))
       ''failed comparison cannot have a recommendation''))))))))))"

section \<open>What a valid upload is\<close>

definition valid_range :: "metric_range \<Rightarrow> bool" where
  "valid_range r \<longleftrightarrow> 1 \<le> range_samples r \<and> range_samples r \<le> 64 \<and>
     range_min r \<le> range_median r \<and> range_median r \<le> range_max r \<and>
     range_max r \<le> MAX_COMPARISON_DURATION_MS"

definition valid_run :: "comparison_run \<Rightarrow> bool" where
  "valid_run run \<longleftrightarrow>
     comparison_text_ok (run_combination_id run) 128 \<and> comparison_text_ok (run_label run) 128 \<and>
     comparison_text_ok (run_rule run) 512 \<and>
     1 \<le> length (run_routes run) \<and> length (run_routes run) \<le> 128 \<and>
     (\<forall>(route, provider) \<in> set (run_routes run).
        comparison_text_ok route 128 \<and> comparison_text_ok provider 128) \<and>
     (\<Sum>(route, provider) \<leftarrow> run_routes run. length route + length provider) \<le> 32768 \<and>
     map fst (run_route_labels run) = map fst (run_routes run) \<and>
     (\<forall>label \<in> snd ` set (run_route_labels run). comparison_text_ok label 128) \<and>
     (\<forall>ms. run_first_total_ms run = Some ms \<longrightarrow> ms \<le> MAX_COMPARISON_DURATION_MS) \<and>
     (\<forall>r. run_repeat_total run = Some r \<or> run_repeat_ttft run = Some r \<longrightarrow> valid_range r) \<and>
     (\<forall>x. run_tokens_per_second run = Some x \<longrightarrow> f64_between_zero_and f64_1e9 x) \<and>
     (\<forall>x. run_first_process_cpu run = Some x \<or> run_process_cpu run = Some x \<longrightarrow>
        f64_between_zero_and f64_1e6 x) \<and>
     (\<forall>bytes. run_peak_rss_bytes run = Some bytes \<longrightarrow> bytes \<le> i64_max) \<and>
     (\<forall>e. run_error run = Some e \<longrightarrow> comparison_text_ok e 512 \<and> \<not> contains_sensitive_marker e) \<and>
     (case run_outcome run of
        RunPassed \<Rightarrow> run_first_total_ms run \<noteq> None \<and> run_error run = None \<and>
          (\<exists>r. run_repeat_total run = Some r \<and> range_samples r = 3)
      | RunFailed \<Rightarrow> run_error run \<noteq> None)"

definition valid_upload :: "comparison_upload \<Rightarrow> bool" where
  "valid_upload u \<longleftrightarrow>
     unat (up_corpus_agents u) \<le> 128 \<and>
     up_passed_models u \<le> up_tested_models u \<and> up_tested_models u \<le> up_configured_models u \<and>
     up_configured_models u \<le> 512 \<and>
     comparison_text_ok (device_architecture (up_device u)) 64 \<and>
     (\<forall>t. device_backend (up_device u) = Some t \<longrightarrow> comparison_text_ok t 128) \<and>
     (\<forall>t. device_os (up_device u) = Some t \<longrightarrow> comparison_text_ok t 64) \<and>
     1 \<le> up_started_at_ms u \<and> up_monotonic_duration_ms u \<le> MAX_COMPARISON_DURATION_MS \<and>
     (\<exists>done_ms. up_completed_at_ms u = Some done_ms \<and> up_started_at_ms u \<le> done_ms \<and>
        done_ms \<le> i64_max \<and> done_ms - up_started_at_ms u \<le> MAX_COMPARISON_DURATION_MS) \<and>
     length (up_runs u) \<le> 8 \<and> (up_status u = ComparisonCompleted \<longrightarrow> up_runs u \<noteq> []) \<and>
     (\<forall>run \<in> set (up_runs u). valid_run run) \<and>
     distinct (map run_id (up_runs u)) \<and> distinct (map run_combination_id (up_runs u)) \<and>
     (\<forall>run \<in> set (up_runs u). \<forall>run' \<in> set (up_runs u).
        map fst (run_routes run) = map fst (run_routes run')) \<and>
     (\<forall>name. up_recommendation u = Some name \<longrightarrow>
        up_status u = ComparisonCompleted \<and> comparison_text_ok name 128 \<and>
        (\<exists>run \<in> set (up_runs u). run_combination_id run = name \<and> run_outcome run = RunPassed))"

section \<open>The checks accept exactly the valid uploads\<close>

named_theorems check_iff \<open>when the checks of an upload succeed\<close>

lemma text_iff [check_iff]:
  "validate_comparison_text name text n = Inr u \<longleftrightarrow> comparison_text_ok text n"
  by (simp add: validate_comparison_text_def)

declare optional_check_iff [check_iff]

lemma duration_iff [check_iff]: "validate_duration ms = Inr u \<longleftrightarrow> ms \<le> MAX_COMPARISON_DURATION_MS"
  by (simp add: validate_duration_def)

lemma word32_nonzero: "(n :: 32 word) \<noteq> 0 \<longleftrightarrow> 1 \<le> n"
  by (simp add: word_le_nat_alt unat_eq_zero Suc_le_eq) (metis not_gr_zero unat_eq_zero)

lemma word64_nonzero: "(n :: u64) \<noteq> 0 \<longleftrightarrow> 1 \<le> n"
  by (simp add: word_le_nat_alt unat_eq_zero Suc_le_eq) (metis not_gr_zero unat_eq_zero)

lemma range_iff [check_iff]: "validate_metric_range r = Inr u \<longleftrightarrow> valid_range r"
  by (auto simp: validate_metric_range_def valid_range_def and_then_eq_Inr duration_iff word32_nonzero)

lemma cpu_iff [check_iff]:
  "validate_process_cpu x = Inr u \<longleftrightarrow> (\<forall>y. x = Some y \<longrightarrow> f64_between_zero_and f64_1e6 y)"
  by (simp add: validate_process_cpu_def optional_check_iff)

lemma token_rate_iff [check_iff]: "validate_token_rate x = Inr u \<longleftrightarrow> f64_between_zero_and f64_1e9 x"
  by (simp add: validate_token_rate_def)

lemma run_error_iff [check_iff]:
  "check_run_error e = Inr u \<longleftrightarrow> comparison_text_ok e 512 \<and> \<not> contains_sensitive_marker e"
  by (auto simp: check_run_error_def and_then_eq_Inr text_iff)

lemma saturated_bound: "usize_saturating_add a b + c \<le> 32768 \<longleftrightarrow> a + b + c \<le> 32768"
  by (auto simp: usize_saturating_add_def min_def)

lemma check_routes_iff:
  "(\<exists>m. fold_result check_route routes n = Inr m \<and> m \<le> 32768) \<longleftrightarrow>
     (\<forall>(route, provider) \<in> set routes. comparison_text_ok route 128 \<and> comparison_text_ok provider 128) \<and>
     n + (\<Sum>(route, provider) \<leftarrow> routes. length route + length provider) \<le> 32768"
proof (induction routes arbitrary: n)
  case (Cons a routes)
  obtain route provider where a: "a = (route, provider)"
    by fastforce
  let ?n = "usize_saturating_add (usize_saturating_add n (length route)) (length provider)"
  have "?n + (\<Sum>(r, p) \<leftarrow> routes. length r + length p) \<le> 32768 \<longleftrightarrow>
      n + (\<Sum>(r, p) \<leftarrow> a # routes. length r + length p) \<le> 32768"
    using saturated_bound[of "usize_saturating_add n (length route)" "length provider"]
      saturated_bound[of n "length route"] by (simp add: a add.assoc)
  then show ?case
    using Cons[of ?n] by (auto simp: a check_route_def and_then_eq_Inr text_iff)
qed simp

lemma run_outcome_iff [check_iff]:
  "check_run_outcome run = Inr u \<longleftrightarrow>
     (case run_outcome run of
        RunPassed \<Rightarrow> run_first_total_ms run \<noteq> None \<and> run_error run = None \<and>
          (\<exists>r. run_repeat_total run = Some r \<and> range_samples r = 3)
      | RunFailed \<Rightarrow> run_error run \<noteq> None)"
  by (auto simp: check_run_outcome_def and_then_eq_Inr optional_check_iff
    REQUIRED_COMPARISON_REPEAT_SAMPLES_def split: comparison_outcome.splits)

lemma validate_run_iff [check_iff]: "validate_comparison_run run = Inr u \<longleftrightarrow> valid_run run"
proof -
  have routes: "(\<exists>bytes. fold_result check_route (run_routes run) 0 = Inr bytes \<and>
        (\<exists>x. ensure (bytes \<le> 32 * 1024) e = Inr x \<and> P)) \<longleftrightarrow>
      (\<forall>(route, provider) \<in> set (run_routes run).
        comparison_text_ok route 128 \<and> comparison_text_ok provider 128) \<and>
      (\<Sum>(route, provider) \<leftarrow> run_routes run. length route + length provider) \<le> 32768 \<and> P"
    for e :: string and P
    using check_routes_iff[of "run_routes run" 0] by auto
  have length_labels: "map fst (run_route_labels run) = map fst (run_routes run) \<Longrightarrow>
      length (run_route_labels run) = length (run_routes run)"
    by (metis length_map)
  show ?thesis
    unfolding validate_comparison_run_def and_then_eq_Inr routes
    using length_labels
    by (simp add: valid_run_def check_iff MAX_COMPARISON_AGENTS_def Suc_le_eq) blast
qed

definition runs_agree :: "comparison_run list \<Rightarrow> string list option \<Rightarrow> bool" where
  "runs_agree runs expected \<longleftrightarrow>
     (\<forall>run \<in> set runs. \<forall>run' \<in> set runs. map fst (run_routes run) = map fst (run_routes run')) \<and>
     (\<forall>e. expected = Some e \<longrightarrow> (\<forall>run \<in> set runs. map fst (run_routes run) = e))"

lemma check_runs_iff:
  "(\<exists>s. fold_result check_upload_run runs (ids, names, expected) = Inr s) \<longleftrightarrow>
     (\<forall>run \<in> set runs. valid_run run) \<and>
     distinct (map run_id runs) \<and> run_id ` set runs \<inter> ids = {} \<and>
     distinct (map run_combination_id runs) \<and> run_combination_id ` set runs \<inter> names = {} \<and>
     runs_agree runs expected"
proof (induction runs arbitrary: ids names expected)
  case Nil
  then show ?case
    by (simp add: runs_agree_def)
next
  case (Cons run runs)
  let ?routes = "map fst (run_routes run)"
  have agree: "runs_agree (run # runs) expected \<longleftrightarrow>
      (case expected of None \<Rightarrow> True | Some e \<Rightarrow> e = ?routes) \<and> runs_agree runs (Some ?routes)"
    by (cases expected) (auto simp: runs_agree_def)
  have step: "(\<exists>s. fold_result check_upload_run (run # runs) (ids, names, expected) = Inr s) \<longleftrightarrow>
      valid_run run \<and> run_id run \<notin> ids \<and> run_combination_id run \<notin> names \<and>
      (case expected of None \<Rightarrow> True | Some e \<Rightarrow> e = ?routes) \<and>
      (\<exists>s. fold_result check_upload_run runs (insert (run_id run) ids,
        insert (run_combination_id run) names, Some ?routes) = Inr s)"
    by (cases expected) (auto simp: check_upload_run_def and_then_eq_Inr check_iff Let_def)
  show ?case
    unfolding step Cons.IH agree by auto
qed

lemma window_iff [check_iff]:
  "check_window u = Inr v \<longleftrightarrow>
     1 \<le> up_started_at_ms u \<and> up_monotonic_duration_ms u \<le> MAX_COMPARISON_DURATION_MS \<and>
     (\<exists>done_ms. up_completed_at_ms u = Some done_ms \<and> up_started_at_ms u \<le> done_ms \<and>
        done_ms \<le> i64_max \<and> done_ms - up_started_at_ms u \<le> MAX_COMPARISON_DURATION_MS)"
proof -
  have "saturating_sub b a = b - a" if "a \<le> b" for a b
    using that by (simp add: saturating_sub_def)
  then show ?thesis
    by (auto simp: check_window_def and_then_eq_Inr word64_nonzero)
qed

lemma recommendation_iff [check_iff]:
  "check_recommendation u = Inr v \<longleftrightarrow>
     (\<forall>name. up_recommendation u = Some name \<longrightarrow> comparison_text_ok name 128 \<and>
        (\<exists>run \<in> set (up_runs u). run_combination_id run = name \<and> run_outcome run = RunPassed))"
  by (auto simp: check_recommendation_def optional_check_iff and_then_eq_Inr text_iff list_ex_iff)

section \<open>Properties\<close>

text \<open>The check of a comparison report accepts exactly the well-formed reports: bounded counts in
  order, a time window of at most a day, at most eight valid runs with distinct identifiers over the
  same routes, measured totals of three samples for every passing run and an error text without
  credentials for every failed one, and a recommendation only for a passing run of a completed
  comparison.\<close>

theorem comparison_validation_exact: "validate_comparison u = Inr () \<longleftrightarrow> valid_upload u"
proof -
  have runs: "(\<exists>x. fold_result check_upload_run (up_runs u) ({}, {}, None) = Inr x \<and> P) \<longleftrightarrow>
      (\<forall>run \<in> set (up_runs u). valid_run run) \<and> distinct (map run_id (up_runs u)) \<and>
      distinct (map run_combination_id (up_runs u)) \<and> runs_agree (up_runs u) None \<and> P" for P
    using check_runs_iff[of "up_runs u" "{}" "{}" None] by auto
  show ?thesis
    unfolding validate_comparison_def and_then_eq_Inr runs
    by (cases "up_status u") (auto simp: check_iff valid_upload_def runs_agree_def MAX_COMPARISON_AGENTS_def
      MAX_COMPARISON_MODELS_def MAX_COMBINATIONS_def)
qed

end
