(* ===== verification/Trace_Io.thy ===== *)
theory Trace_Io
  imports Protocol Redaction Btree
begin

text \<open>
  The summaries of inputs and outputs in \<open>crates/vifu-gateway/src/protocol.rs\<close>: a gateway reduces what
  an invocation received and returned to a bounded, redacted value
  (\<open>canonical_trace_io_summary\<close>), and sender and receiver check that a summary is such a value
  (\<open>validate_trace_io_summaries\<close>). JSON text (\<open>serde_json::to_vec\<close>, \<open>from_str\<close>) is the parameter
  \<open>text_codec\<close> of \<open>Protocol\<close>.
\<close>

section \<open>Summaries\<close>

definition MAX_TRACE_IO_SUMMARY_BYTES :: nat where "MAX_TRACE_IO_SUMMARY_BYTES = 131072"
definition MAX_TRACE_IO_DEPTH :: nat where "MAX_TRACE_IO_DEPTH = 5"
definition MAX_TRACE_IO_ITEMS :: nat where "MAX_TRACE_IO_ITEMS = 128"
definition MAX_TRACE_IO_STRING_CHARS :: nat where "MAX_TRACE_IO_STRING_CHARS = 98304"

record trace_io_summary =
  summary_value :: json
  summary_truncated :: bool

definition char_count :: "string \<Rightarrow> nat" where
  "char_count s = length (utf8_chars s)"

definition trim_start :: "string \<Rightarrow> string" where
  "trim_start s = concat (dropWhile is_whitespace (utf8_chars s))"

definition ellipsis :: string where
  "ellipsis = [CHR 0xE2, CHR 0x80, CHR 0xA6]"

fun is_container :: "json \<Rightarrow> bool" where
  "is_container (JObject _) = True"
| "is_container (JArray _) = True"
| "is_container _ = False"

fun trace_value_shape :: "json \<Rightarrow> string" where
  "trace_value_shape JNull = ''null''"
| "trace_value_shape (JBool _) = ''boolean''"
| "trace_value_shape (JNumber _) = ''number''"
| "trace_value_shape (JString _) = ''string''"
| "trace_value_shape (JArray _) = ''array''"
| "trace_value_shape (JObject _) = ''object''"

definition trace_tool_call_container :: "nat \<Rightarrow> string option \<Rightarrow> bool" where
  "trace_tool_call_container depth key_hint =
     (case key_hint of
        None \<Rightarrow> False
      | Some key \<Rightarrow>
          let lower = to_ascii_lowercase key in
          if lower = ''tool_calls'' \<or> lower = ''toolcalls'' then depth = 5
          else if lower = ''function'' then depth \<le> 6
          else if lower = ''arguments'' \<or> lower = ''args'' then depth \<le> 7
          else False)"

definition trace_tool_call_arguments_key :: "string \<Rightarrow> bool" where
  "trace_tool_call_arguments_key key \<longleftrightarrow>
     to_ascii_lowercase key = ''arguments'' \<or> to_ascii_lowercase key = ''args''"

definition canonical_trace_placeholder :: "string \<Rightarrow> bool" where
  "canonical_trace_placeholder v \<longleftrightarrow>
     v = ''[REDACTED]'' \<or> v = ''[REDACTED sensitive value]'' \<or>
     v = ''<_vifuBinary object omitted>'' \<or> v = ''<more fields>'' \<or>
     starts_with v ''<'' \<and> ends_with v '' omitted>'' \<or>
     starts_with v ''<media/binary omitted: '' \<and> ends_with v '' chars>''"

definition trace_sensitive_values :: "string list" where
  "trace_sensitive_values =
     [''authorization:'', ''authorization='', ''bearer '', ''basic '', ''api_key='', ''api-key='',
      ''apikey='', ''access_token='', ''refresh_token='', ''token='', ''password='', ''password:'',
      ''secret='', ''secret:'', ''credential='', ''cookie:'', ''session='']"

definition trace_sensitive_value_string :: "string \<Rightarrow> bool" where
  "trace_sensitive_value_string v \<longleftrightarrow>
     list_ex (str_contains (to_ascii_lowercase (trim v))) trace_sensitive_values"

definition trace_sensitive_keys :: "string list" where
  "trace_sensitive_keys =
     [''authorization'', ''apikey'', ''accesstoken'', ''refreshtoken'', ''token'', ''secret'',
      ''password'', ''credential'', ''cookie'', ''session'', ''sessionid'']"

definition trace_sensitive_key :: "string \<Rightarrow> bool" where
  "trace_sensitive_key key \<longleftrightarrow> list_ex (\<lambda>candidate.
     normalized_key key = candidate \<or> ends_with (normalized_key key) candidate) trace_sensitive_keys"

definition trace_media_or_binary_key :: "string \<Rightarrow> bool" where
  "trace_media_or_binary_key key \<longleftrightarrow>
     normalized_key key = ''data'' \<or>
     list_ex (str_contains (normalized_key key))
       [''image'', ''audio'', ''media'', ''binary'', ''base64'']"

definition trace_looks_like_base64 :: "string \<Rightarrow> bool" where
  "trace_looks_like_base64 v \<longleftrightarrow>
     (let compact = trim v in 128 \<le> length compact \<and> 4 dvd length compact \<and>
        list_all (\<lambda>b. is_ascii_alphanumeric b \<or> b \<in> set ''+/='') compact)"

text \<open>
  \<open>redact_trace_io_value\<close> sets a flag through a mutable reference, and only ever to true: here every
  call returns its value with whether it set the flag. A string under an arguments key that parses
  to a container is redacted as that container.
\<close>

definition decoded_arguments :: "text_codec \<Rightarrow> string option \<Rightarrow> string \<Rightarrow> json option" where
  "decoded_arguments c key_hint text =
     (case key_hint of
        None \<Rightarrow> None
      | Some key \<Rightarrow>
          if trace_tool_call_arguments_key key
          then (case parse_json c text of
                  Some decoded \<Rightarrow> if is_container decoded then Some decoded else None
                | None \<Rightarrow> None)
          else None)"

definition cut_string :: "string \<Rightarrow> string" where
  "cut_string text =
     (let suffix = ellipsis @ '' <'' @ show_nat (char_count text) @ '' chars total>''
      in concat (take (MAX_TRACE_IO_STRING_CHARS - char_count suffix) (utf8_chars text)) @ suffix)"

definition redact_trace_string :: "string option \<Rightarrow> string \<Rightarrow> json \<times> bool" where
  "redact_trace_string key_hint text =
     (if canonical_trace_placeholder text then (JString text, True)
      else if trace_sensitive_value_string text then (JString ''[REDACTED sensitive value]'', True)
      else if (case key_hint of None \<Rightarrow> False | Some key \<Rightarrow> trace_media_or_binary_key key) \<or>
          starts_with (to_ascii_lowercase (trim_start text)) ''data:'' \<or> trace_looks_like_base64 text
      then (JString (''<media/binary omitted: '' @ show_nat (char_count text) @ '' chars>''), True)
      else if MAX_TRACE_IO_STRING_CHARS \<le> char_count text
      then (JString (if char_count text = MAX_TRACE_IO_STRING_CHARS then text else cut_string text), True)
      else (JString text, False))"

definition has_binary_marker :: "(string \<times> json) list \<Rightarrow> bool" where
  "has_binary_marker kvs =
     (case map_of kvs ''_vifuBinary'' of
        None \<Rightarrow> False | Some marker \<Rightarrow> as_bool marker = Some True \<or> \<not> is_null marker)"

text \<open>Every container below the fifth level needs an exception, and there is none from the eighth on.\<close>

lemma tool_call_container_depth: "trace_tool_call_container depth hint \<Longrightarrow> depth \<le> 7"
  by (auto simp: trace_tool_call_container_def Let_def split: option.splits if_splits)

lemma decoded_container: "decoded_arguments c hint text = Some v \<Longrightarrow> is_container v"
  by (auto simp: decoded_arguments_def split: option.splits if_splits)

function redact_trace_io_value ::
    "text_codec \<Rightarrow> json \<Rightarrow> nat \<Rightarrow> string option \<Rightarrow> json \<times> bool" where
  "redact_trace_io_value c v depth key_hint =
     (if MAX_TRACE_IO_DEPTH \<le> depth \<and> is_container v \<and> \<not> trace_tool_call_container depth key_hint
      then (JString (''<'' @ trace_value_shape v @ '' omitted>''), True)
      else case v of
        JObject kvs \<Rightarrow>
          if has_binary_marker kvs then (JString ''<_vifuBinary object omitted>'', True)
          else let fields = map (\<lambda>(key, x).
                 (key, if trace_sensitive_key key then (JString ''[REDACTED]'', True)
                       else redact_trace_io_value c x (depth + 1) (Some key)))
                 (take MAX_TRACE_IO_ITEMS kvs);
               output = map (\<lambda>(key, x, _). (key, x)) fields
             in (JObject (if MAX_TRACE_IO_ITEMS < length kvs
                          then bt_insert ellipsis (JString ''<more fields>'') output else output),
                 MAX_TRACE_IO_ITEMS \<le> length kvs \<or> list_ex (\<lambda>(_, _, truncated). truncated) fields)
      | JArray vs \<Rightarrow>
          let items = map (\<lambda>x. redact_trace_io_value c x (depth + 1) key_hint)
                (take MAX_TRACE_IO_ITEMS vs)
          in (JArray (map fst items), MAX_TRACE_IO_ITEMS \<le> length vs \<or> list_ex snd items)
      | JString text \<Rightarrow>
          (case decoded_arguments c key_hint text of
             Some decoded \<Rightarrow> redact_trace_io_value c decoded depth key_hint
           | None \<Rightarrow> redact_trace_string key_hint text)
      | _ \<Rightarrow> (v, False))"
  by pat_completeness auto

termination
proof (relation "measures [\<lambda>(c, v, depth, hint). 8 - depth,
    \<lambda>(c, v, depth, hint). case v of JString _ \<Rightarrow> 1 | _ \<Rightarrow> 0]")
  fix c v depth hint t decoded
  assume "v = JString t" and "decoded_arguments c hint t = Some decoded"
  then show "((c, decoded, depth, hint), (c, v, depth, hint)) \<in> measures
      [\<lambda>(c, v, depth, hint). 8 - depth, \<lambda>(c, v, depth, hint). case v of JString _ \<Rightarrow> 1 | _ \<Rightarrow> 0]"
    using decoded_container[of c hint t decoded] by (cases decoded) auto
qed (auto simp: MAX_TRACE_IO_DEPTH_def not_le less_diff_conv dest!: tool_call_container_depth)

declare redact_trace_io_value.simps [simp del]

definition canonical_trace_io_summary :: "text_codec \<Rightarrow> json \<Rightarrow> trace_io_summary" where
  "canonical_trace_io_summary c v =
     (let (summary, truncated) = redact_trace_io_value c v 0 None
      in if (case print_json c summary of
               Inl _ \<Rightarrow> True | Inr encoded \<Rightarrow> MAX_TRACE_IO_SUMMARY_BYTES < length encoded)
         then \<lparr>summary_value = JObject [(''summary'', JString (trace_value_shape v)),
                 (''truncated'', JBool True)], summary_truncated = True\<rparr>
         else \<lparr>summary_value = summary, summary_truncated = truncated\<rparr>)"

fun trace_io_summary_requires_truncation :: "json \<Rightarrow> bool" where
  "trace_io_summary_requires_truncation (JObject kvs) \<longleftrightarrow>
     MAX_TRACE_IO_ITEMS \<le> length kvs \<or>
     Option.bind (map_of kvs ''truncated'') as_bool = Some True \<or>
     list_ex (\<lambda>(_, x). trace_io_summary_requires_truncation x) kvs"
| "trace_io_summary_requires_truncation (JArray vs) \<longleftrightarrow>
     MAX_TRACE_IO_ITEMS \<le> length vs \<or> list_ex trace_io_summary_requires_truncation vs"
| "trace_io_summary_requires_truncation (JString text) \<longleftrightarrow>
     MAX_TRACE_IO_STRING_CHARS \<le> char_count text \<or> canonical_trace_placeholder text \<or>
     str_contains text '' chars total>''"
| "trace_io_summary_requires_truncation _ \<longleftrightarrow> False"

definition effective_truncated :: "trace_io_summary \<Rightarrow> bool" where
  "effective_truncated s \<longleftrightarrow>
     summary_truncated s \<or> trace_io_summary_requires_truncation (summary_value s)"

definition validate_json :: "text_codec \<Rightarrow> string \<Rightarrow> json \<Rightarrow> nat \<Rightarrow> (string, unit) result" where
  "validate_json c name v max_bytes =
     (case print_json c v of
        Inl _ \<Rightarrow> Inl (''invalid '' @ name)
      | Inr encoded \<Rightarrow> ensure (length encoded \<le> max_bytes) (name @ '' is too large''))"

fun validate_trace_io_summary ::
    "text_codec \<Rightarrow> string \<times> trace_io_summary option \<Rightarrow> (string, unit) result" where
  "validate_trace_io_summary c (name, None) = Inr ()"
| "validate_trace_io_summary c (name, Some s) =
     and_then (validate_json c name (summary_value s) MAX_TRACE_IO_SUMMARY_BYTES) (\<lambda>_.
     and_then (ensure (summary_value (canonical_trace_io_summary c (summary_value s)) = summary_value s)
       (''trace '' @ name @ '' is not canonical'')) (\<lambda>_.
     ensure (effective_truncated s = summary_truncated s)
       (''trace '' @ name @ '' under-reports truncation'')))"

definition validate_trace_io_summaries ::
    "text_codec \<Rightarrow> trace_io_summary option \<Rightarrow> trace_io_summary option \<Rightarrow> (string, unit) result" where
  "validate_trace_io_summaries c root_input root_output =
     for_each (validate_trace_io_summary c)
       [(''root input summary'', root_input), (''root output summary'', root_output)]"

section \<open>Equations of the redaction\<close>

abbreviation omitted :: "json \<Rightarrow> nat \<Rightarrow> string option \<Rightarrow> bool" where
  "omitted v depth hint \<equiv>
     MAX_TRACE_IO_DEPTH \<le> depth \<and> is_container v \<and> \<not> trace_tool_call_container depth hint"

definition redacted_field :: "text_codec \<Rightarrow> nat \<Rightarrow> string \<Rightarrow> json \<Rightarrow> json" where
  "redacted_field c depth key x =
     (if trace_sensitive_key key then JString ''[REDACTED]''
      else fst (redact_trace_io_value c x (Suc depth) (Some key)))"

definition redacted_fields :: "text_codec \<Rightarrow> nat \<Rightarrow> (string \<times> json) list \<Rightarrow> (string \<times> json) list" where
  "redacted_fields c depth kvs = map (\<lambda>(key, x). (key, redacted_field c depth key x)) kvs"

definition object_output :: "text_codec \<Rightarrow> nat \<Rightarrow> (string \<times> json) list \<Rightarrow> (string \<times> json) list" where
  "object_output c depth kvs =
     (let output = redacted_fields c depth (take MAX_TRACE_IO_ITEMS kvs)
      in if MAX_TRACE_IO_ITEMS < length kvs
         then bt_insert ellipsis (JString ''<more fields>'') output else output)"

lemma object_output_entry:
  assumes "(key, x) \<in> set (object_output c depth kvs)"
  obtains "key = ellipsis" and "x = JString ''<more fields>''"
  | y where "(key, y) \<in> set (take MAX_TRACE_IO_ITEMS kvs)" and "x = redacted_field c depth key y"
proof -
  have "(key, x) \<in> insert (ellipsis, JString ''<more fields>'')
      (set (redacted_fields c depth (take MAX_TRACE_IO_ITEMS kvs)))"
    using assms set_bt_insert[of ellipsis "JString ''<more fields>''"
      "redacted_fields c depth (take MAX_TRACE_IO_ITEMS kvs)"]
    by (auto simp: object_output_def Let_def split: if_splits)
  with that show thesis by (auto simp: redacted_fields_def)
qed

lemma length_object_output:
  "length (object_output c depth kvs) \<le> Suc MAX_TRACE_IO_ITEMS"
  using length_bt_insert[of ellipsis "JString ''<more fields>''"
      "redacted_fields c depth (take MAX_TRACE_IO_ITEMS kvs)"]
  by (auto simp: object_output_def redacted_fields_def Let_def)

lemma ellipsis_plain [simp]:
  "\<not> trace_sensitive_key ellipsis" "\<not> trace_tool_call_arguments_key ellipsis"
  by code_simp+

lemma redact_omitted:
  "omitted v depth hint \<Longrightarrow>
     redact_trace_io_value c v depth hint = (JString (''<'' @ trace_value_shape v @ '' omitted>''), True)"
  by (subst redact_trace_io_value.simps) simp

lemma redact_object:
  assumes "\<not> omitted (JObject kvs) depth hint" and "\<not> has_binary_marker kvs"
  shows "fst (redact_trace_io_value c (JObject kvs) depth hint) = JObject (object_output c depth kvs)"
    and "snd (redact_trace_io_value c (JObject kvs) depth hint) \<longleftrightarrow>
      MAX_TRACE_IO_ITEMS \<le> length kvs \<or>
      (\<exists>(key, x) \<in> set (take MAX_TRACE_IO_ITEMS kvs).
         trace_sensitive_key key \<or> snd (redact_trace_io_value c x (Suc depth) (Some key)))"
proof -
  have split_pair: "(case if b then (r, True) else p of (x, _) \<Rightarrow> (k, x)) = (k, if b then r else fst p)"
    for b r k and p :: "json \<times> bool"
    by (cases p) simp
  have fields: "map (\<lambda>(key, x, _). (key, x)) (map (\<lambda>(key, x). (key, if trace_sensitive_key key
      then (JString ''[REDACTED]'', True) else redact_trace_io_value c x (depth + 1) (Some key))) xs)
      = redacted_fields c depth xs" for xs
    by (induction xs) (auto simp: redacted_fields_def redacted_field_def split_pair split: prod.splits)
  show "fst (redact_trace_io_value c (JObject kvs) depth hint) = JObject (object_output c depth kvs)"
    using assms by (subst redact_trace_io_value.simps)
      (simp add: object_output_def Let_def fields del: map_map)
  show "snd (redact_trace_io_value c (JObject kvs) depth hint) \<longleftrightarrow>
      MAX_TRACE_IO_ITEMS \<le> length kvs \<or>
      (\<exists>(key, x) \<in> set (take MAX_TRACE_IO_ITEMS kvs).
         trace_sensitive_key key \<or> snd (redact_trace_io_value c x (Suc depth) (Some key)))"
    using assms by (subst redact_trace_io_value.simps)
      (auto simp: Let_def list_ex_iff case_prod_beta split: if_splits)
qed

lemma redact_binary:
  assumes "\<not> omitted (JObject kvs) depth hint" and "has_binary_marker kvs"
  shows "redact_trace_io_value c (JObject kvs) depth hint =
      (JString ''<_vifuBinary object omitted>'', True)"
  using assms by (subst redact_trace_io_value.simps) simp

lemma redact_array:
  assumes "\<not> omitted (JArray vs) depth hint"
  shows "redact_trace_io_value c (JArray vs) depth hint =
      (JArray (map (\<lambda>x. fst (redact_trace_io_value c x (Suc depth) hint)) (take MAX_TRACE_IO_ITEMS vs)),
       MAX_TRACE_IO_ITEMS \<le> length vs \<or>
       (\<exists>x \<in> set (take MAX_TRACE_IO_ITEMS vs). snd (redact_trace_io_value c x (Suc depth) hint)))"
  using assms by (subst redact_trace_io_value.simps) (simp add: Let_def list_ex_iff)

lemma redact_string:
  "redact_trace_io_value c (JString s) depth hint =
     (case decoded_arguments c hint s of
        Some decoded \<Rightarrow> redact_trace_io_value c decoded depth hint
      | None \<Rightarrow> redact_trace_string hint s)"
  by (subst redact_trace_io_value.simps) simp

lemma redact_scalar [simp]:
  "redact_trace_io_value c JNull depth hint = (JNull, False)"
  "redact_trace_io_value c (JBool b) depth hint = (JBool b, False)"
  "redact_trace_io_value c (JNumber n) depth hint = (JNumber n, False)"
  by (subst redact_trace_io_value.simps, simp)+

text \<open>Induction over the calls of the redaction, one case per branch.\<close>

lemma redact_induct [case_names omitted binary object array decoded string scalar]:
  assumes omitted: "\<And>v depth hint. omitted v depth hint \<Longrightarrow> P v depth hint"
    and binary: "\<And>kvs depth hint. \<not> omitted (JObject kvs) depth hint \<Longrightarrow> has_binary_marker kvs \<Longrightarrow>
      P (JObject kvs) depth hint"
    and object: "\<And>kvs depth hint. \<not> omitted (JObject kvs) depth hint \<Longrightarrow> \<not> has_binary_marker kvs \<Longrightarrow>
      (\<And>key x. (key, x) \<in> set (take MAX_TRACE_IO_ITEMS kvs) \<Longrightarrow> \<not> trace_sensitive_key key \<Longrightarrow>
        P x (Suc depth) (Some key)) \<Longrightarrow> P (JObject kvs) depth hint"
    and array: "\<And>vs depth hint. \<not> omitted (JArray vs) depth hint \<Longrightarrow>
      (\<And>x. x \<in> set (take MAX_TRACE_IO_ITEMS vs) \<Longrightarrow> P x (Suc depth) hint) \<Longrightarrow> P (JArray vs) depth hint"
    and decoded: "\<And>s depth hint decoded. decoded_arguments c hint s = Some decoded \<Longrightarrow>
      P decoded depth hint \<Longrightarrow> P (JString s) depth hint"
    and string: "\<And>s depth hint. decoded_arguments c hint s = None \<Longrightarrow> P (JString s) depth hint"
    and scalar: "\<And>v depth hint. \<not> is_container v \<Longrightarrow> \<forall>s. v \<noteq> JString s \<Longrightarrow> P v depth hint"
  shows "P v depth hint"
proof -
  have "c' = c \<longrightarrow> P v depth hint" for c'
  proof (induction c' v depth hint rule: redact_trace_io_value.induct[case_names call])
    case (call c' v depth hint)
    show ?case
    proof (cases "omitted v depth hint \<or> c' \<noteq> c")
      case True
      then show ?thesis using omitted by blast
    next
      case False
      then have visited: "\<not> omitted v depth hint" and c: "c' = c" by blast+
      show ?thesis
      proof (cases v)
        case (JObject kvs)
        show ?thesis
        proof (cases "has_binary_marker kvs")
          case True
          then show ?thesis using binary visited JObject by blast
        next
          case False
          then show ?thesis
            using object[where kvs = kvs and depth = depth and hint = hint] visited JObject c call(3)[OF visited JObject False] by auto
        qed
      next
        case (JArray vs)
        then show ?thesis
          using array[where vs = vs and depth = depth and hint = hint] visited c call(2)[OF visited JArray] by auto
      next
        case (JString s)
        show ?thesis
        proof (cases "decoded_arguments c hint s")
          case None
          then show ?thesis using string JString by blast
        next
          case (Some decoded)
          then show ?thesis
            using decoded JString c call(1)[OF visited JString] by blast
        qed
      qed (use scalar in auto)
    qed
  qed
  then show ?thesis by blast
qed

section \<open>What a summary contains\<close>

text \<open>
  Fields with a sensitive name hold the marker, and a string that contains a credential marker is a
  placeholder or was cut.
\<close>

definition cut_mark :: string where "cut_mark = '' chars total>''"

fun trace_clean :: "json \<Rightarrow> bool" where
  "trace_clean (JObject kvs) \<longleftrightarrow> list_all (\<lambda>(key, x).
     if trace_sensitive_key key then x = JString ''[REDACTED]'' else trace_clean x) kvs"
| "trace_clean (JArray vs) \<longleftrightarrow> list_all trace_clean vs"
| "trace_clean (JString s) \<longleftrightarrow>
     canonical_trace_placeholder s \<or> ends_with s cut_mark \<or> \<not> trace_sensitive_value_string s"
| "trace_clean _ \<longleftrightarrow> True"

text \<open>At most \<open>n\<close> levels of containers, of bounded sizes.\<close>

fun within_levels :: "nat \<Rightarrow> json \<Rightarrow> bool" where
  "within_levels n (JObject kvs) \<longleftrightarrow>
     0 < n \<and> length kvs \<le> Suc MAX_TRACE_IO_ITEMS \<and> list_all (\<lambda>(_, x). within_levels (n - 1) x) kvs"
| "within_levels n (JArray vs) \<longleftrightarrow>
     0 < n \<and> length vs \<le> MAX_TRACE_IO_ITEMS \<and> list_all (within_levels (n - 1)) vs"
| "within_levels n _ \<longleftrightarrow> True"

lemma placeholders [simp]:
  "canonical_trace_placeholder ''[REDACTED]''"
  "canonical_trace_placeholder ''[REDACTED sensitive value]''"
  "canonical_trace_placeholder ''<_vifuBinary object omitted>''"
  "canonical_trace_placeholder ''<more fields>''"
  "canonical_trace_placeholder (CHR ''<'' # s @ '' omitted>'')"
  "canonical_trace_placeholder (''<media/binary omitted: '' @ s @ '' chars>'')"
  by (auto simp: canonical_trace_placeholder_def starts_with_def ends_with_def suffix_def
      intro: exI[of _ "CHR ''<'' # s"] exI[of _ "''<media/binary omitted: '' @ s"])

lemma cut_string_mark: "ends_with (cut_string s) cut_mark"
  by (auto simp: cut_string_def Let_def ends_with_def suffix_def cut_mark_def)

lemma redact_trace_string_clean: "trace_clean (fst (redact_trace_string hint s))"
  using cut_string_mark[of s] by (simp add: redact_trace_string_def del: append.simps)

lemma redact_clean_value: "trace_clean (fst (redact_trace_io_value c v depth hint))"
proof (induction v depth hint rule: redact_induct[where c = c])
  case (object kvs depth hint)
  have "if trace_sensitive_key key then x = JString ''[REDACTED]'' else trace_clean x"
    if "(key, x) \<in> set (object_output c depth kvs)" for key x
    using that object.IH by (elim object_output_entry) (auto simp: redacted_field_def)
  with object.hyps show ?case by (auto simp: redact_object list_all_iff)
next
  case (decoded s depth hint decoded)
  then show ?case by (simp add: redact_string)
next
  case (string s depth hint)
  then show ?case by (simp add: redact_string redact_trace_string_clean)
next
  case (scalar v depth hint)
  then show ?case by (cases v) simp_all
qed (auto simp: redact_omitted redact_binary redact_array list_all_iff)

lemma visited_depth: "\<not> omitted v depth hint \<Longrightarrow> is_container v \<Longrightarrow> depth \<le> 7"
  using tool_call_container_depth[of depth hint] by (auto simp: MAX_TRACE_IO_DEPTH_def)

lemma redact_levels: "within_levels (8 - depth) (fst (redact_trace_io_value c v depth hint))"
proof (induction v depth hint rule: redact_induct[where c = c])
  case (object kvs depth hint)
  have "within_levels (8 - depth - 1) x" if "(key, x) \<in> set (object_output c depth kvs)" for key x
    using that object.IH by (elim object_output_entry) (auto simp: redacted_field_def)
  with object.hyps visited_depth[OF object.hyps(1)] length_object_output[of c depth kvs] show ?case
    by (auto simp: redact_object list_all_iff)
next
  case (array vs depth hint)
  with visited_depth[OF array.hyps] show ?case by (auto simp: redact_array list_all_iff)
next
  case (decoded s depth hint decoded)
  then show ?case by (simp add: redact_string)
next
  case (string s depth hint)
  then show ?case by (simp add: redact_string redact_trace_string_def)
next
  case (scalar v depth hint)
  then show ?case by (cases v) simp_all
qed (auto simp: redact_omitted redact_binary)

section \<open>Summaries of summaries\<close>

text \<open>
  A value is settled if no object has more than 128 fields and no string was cut. A summary with this
  property is its own summary: that is what the receiver checks. The parser must refuse the
  placeholders, which are not JSON.
\<close>

fun settled :: "json \<Rightarrow> bool" where
  "settled (JObject kvs) \<longleftrightarrow>
     length kvs \<le> MAX_TRACE_IO_ITEMS \<and> list_all (\<lambda>(_, x). settled x) kvs"
| "settled (JArray vs) \<longleftrightarrow> list_all settled vs"
| "settled (JString s) \<longleftrightarrow> \<not> ends_with s cut_mark"
| "settled _ \<longleftrightarrow> True"

definition refuses_placeholders :: "text_codec \<Rightarrow> bool" where
  "refuses_placeholders c \<longleftrightarrow>
     (\<forall>s. canonical_trace_placeholder s \<longrightarrow> parse_json c s = None)"

lemma placeholder_fixed:
  assumes "refuses_placeholders c" and "canonical_trace_placeholder s"
  shows "redact_trace_io_value c (JString s) depth hint = (JString s, True)"
proof -
  have "decoded_arguments c hint s = None"
    using assms by (simp add: decoded_arguments_def refuses_placeholders_def split: option.splits)
  with assms(2) show ?thesis by (simp add: redact_string redact_trace_string_def)
qed

lemma redact_trace_string_cases:
  "(\<exists>t. redact_trace_string hint s = (JString t, True) \<and> canonical_trace_placeholder t) \<or>
   fst (redact_trace_string hint s) = JString s \<or>
   redact_trace_string hint s = (JString (cut_string s), True)"
  using placeholders by (simp add: redact_trace_string_def del: append.simps)

lemma map_of_redacted_fields:
  "map_of (redacted_fields c depth kvs) key = map_option (redacted_field c depth key) (map_of kvs key)"
  by (induction kvs) (auto simp: redacted_fields_def)

lemma redacted_field_null: "\<not> trace_sensitive_key key \<Longrightarrow> redacted_field c depth key JNull = JNull"
  by (simp add: redacted_field_def)

lemma binary_key_plain: "\<not> trace_sensitive_key ''_vifuBinary''" "''_vifuBinary'' \<noteq> ellipsis"
proof -
  show "\<not> trace_sensitive_key ''_vifuBinary''" by code_simp
qed (simp add: ellipsis_def)

lemma binary_marker_gone:
  assumes "\<not> has_binary_marker kvs"
  shows "\<not> has_binary_marker (object_output c depth kvs)"
proof -
  let ?b = "''_vifuBinary''"
  note plain = binary_key_plain(1) and other = binary_key_plain(2)
  have front: "map_of (take MAX_TRACE_IO_ITEMS kvs) ?b = None \<or>
      map_of (take MAX_TRACE_IO_ITEMS kvs) ?b = map_of kvs ?b"
  proof (cases "map_of (take MAX_TRACE_IO_ITEMS kvs) ?b")
    case (Some x)
    then have "map_of (take MAX_TRACE_IO_ITEMS kvs @ drop MAX_TRACE_IO_ITEMS kvs) ?b = Some x"
      by (simp only: map_of_append map_add_find_right)
    with Some show ?thesis by simp
  qed blast
  have "map_of (object_output c depth kvs) ?b =
      map_option (redacted_field c depth ?b) (map_of (take MAX_TRACE_IO_ITEMS kvs) ?b)"
    using other by (simp add: object_output_def Let_def map_of_bt_insert_other map_of_redacted_fields)
  with front assms plain show ?thesis
    by (auto simp: has_binary_marker_def is_null_def redacted_field_null as_bool_def
        split: option.splits)
qed

lemma redacted_fields_fixed:
  assumes "\<And>key x. (key, x) \<in> set kvs \<Longrightarrow> redacted_field c depth key x = x"
  shows "redacted_fields c depth kvs = kvs"
  using assms by (auto simp: redacted_fields_def intro!: map_idI)

lemma redact_settled:
  assumes "refuses_placeholders c"
    and "settled (fst (redact_trace_io_value c v depth hint))"
  shows "fst (redact_trace_io_value c (fst (redact_trace_io_value c v depth hint)) depth hint)
    = fst (redact_trace_io_value c v depth hint)"
  using assms(2)
proof (induction v depth hint rule: redact_induct[where c = c])
  case (omitted v depth hint)
  then show ?case using placeholder_fixed[OF assms(1)] by (simp add: redact_omitted)
next
  case (binary kvs depth hint)
  then show ?case using placeholder_fixed[OF assms(1)] by (simp add: redact_binary)
next
  case (object kvs depth hint)
  let ?out = "object_output c depth kvs"
  have visited: "\<not> omitted (JObject ?out) depth hint" using object.hyps(1) by simp
  have len: "length ?out \<le> MAX_TRACE_IO_ITEMS" and settled: "\<forall>(_, x) \<in> set ?out. settled x"
    using object.prems by (auto simp: redact_object[OF object.hyps] list_all_iff)
  have "redacted_field c depth key x = x" if "(key, x) \<in> set ?out" for key x
    using that
  proof (cases rule: object_output_entry)
    case 1
    then show ?thesis using placeholder_fixed[OF assms(1)] by (simp add: redacted_field_def)
  next
    case (2 y)
    then show ?thesis
      using object.IH[of key y] settled that by (auto simp: redacted_field_def split: if_splits)
  qed
  then have "object_output c depth ?out = ?out"
    using len by (simp add: object_output_def[of c depth ?out] redacted_fields_fixed)
  then show ?case
    using redact_object(1)[OF visited binary_marker_gone[OF object.hyps(2)]]
    by (simp add: redact_object(1)[OF object.hyps])
next
  case (array vs depth hint)
  then show ?case by (auto simp: redact_array list_all_iff take_map)
next
  case (decoded s depth hint decoded)
  then show ?case by (simp add: redact_string)
next
  case (string s depth hint)
  consider t where "redact_trace_string hint s = (JString t, True)" and "canonical_trace_placeholder t"
    | "fst (redact_trace_string hint s) = JString s"
    | "redact_trace_string hint s = (JString (cut_string s), True)"
    using redact_trace_string_cases[of hint s] by blast
  then show ?case
  proof cases
    case (1 t)
    then show ?thesis using string.hyps placeholder_fixed[OF assms(1), of t] by (simp add: redact_string)
  next
    case 2
    then show ?thesis using string.hyps by (simp add: redact_string)
  next
    case 3
    then show ?thesis using string by (simp add: redact_string cut_string_mark)
  qed
next
  case (scalar v depth hint)
  then show ?case by (cases v) simp_all
qed

section \<open>The summary a gateway sends\<close>

definition shape_summary :: "json \<Rightarrow> json" where
  "shape_summary v =
     JObject [(''summary'', JString (trace_value_shape v)), (''truncated'', JBool True)]"

definition prints_within :: "text_codec \<Rightarrow> json \<Rightarrow> bool" where
  "prints_within c v \<longleftrightarrow> (\<exists>t. print_json c v = Inr t \<and> length t \<le> MAX_TRACE_IO_SUMMARY_BYTES)"

lemma canonical_cases:
  "canonical_trace_io_summary c v =
     (if prints_within c (fst (redact_trace_io_value c v 0 None))
      then \<lparr>summary_value = fst (redact_trace_io_value c v 0 None),
            summary_truncated = snd (redact_trace_io_value c v 0 None)\<rparr>
      else \<lparr>summary_value = shape_summary v, summary_truncated = True\<rparr>)"
  by (auto simp: canonical_trace_io_summary_def prints_within_def shape_summary_def not_less
      split: sum.splits prod.splits)

lemma trace_value_shape_plain:
  "\<not> canonical_trace_placeholder (trace_value_shape v)"
  "\<not> trace_sensitive_value_string (trace_value_shape v)"
  "\<not> starts_with (to_ascii_lowercase (trim_start (trace_value_shape v))) ''data:''"
  "\<not> trace_looks_like_base64 (trace_value_shape v)"
  "char_count (trace_value_shape v) < 8"
proof -
  let ?plain = "\<lambda>s. \<not> canonical_trace_placeholder s \<and> \<not> trace_sensitive_value_string s \<and>
    \<not> starts_with (to_ascii_lowercase (trim_start s)) ''data:'' \<and> \<not> trace_looks_like_base64 s \<and>
    char_count s < 8"
  have "list_all ?plain [''null'', ''boolean'', ''number'', ''string'', ''array'', ''object'']"
    by code_simp
  moreover have "trace_value_shape v \<in>
      set [''null'', ''boolean'', ''number'', ''string'', ''array'', ''object'']"
    by (cases v) simp_all
  ultimately have "?plain (trace_value_shape v)" unfolding list_all_iff by blast
  then show "\<not> canonical_trace_placeholder (trace_value_shape v)"
    and "\<not> trace_sensitive_value_string (trace_value_shape v)"
    and "\<not> starts_with (to_ascii_lowercase (trim_start (trace_value_shape v))) ''data:''"
    and "\<not> trace_looks_like_base64 (trace_value_shape v)"
    and "char_count (trace_value_shape v) < 8"
    by blast+
qed

lemma field_names_plain [simp]:
  "\<not> trace_sensitive_key ''summary''" "\<not> trace_sensitive_key ''truncated''"
  "trace_sensitive_key ''token''"
  "\<not> trace_media_or_binary_key ''summary''" "\<not> trace_tool_call_arguments_key ''summary''"
proof -
  have "\<not> trace_sensitive_key ''summary'' \<and> \<not> trace_sensitive_key ''truncated'' \<and>
      trace_sensitive_key ''token'' \<and>
      \<not> trace_media_or_binary_key ''summary'' \<and> \<not> trace_tool_call_arguments_key ''summary''"
    by code_simp
  then show "\<not> trace_sensitive_key ''summary''" "\<not> trace_sensitive_key ''truncated''"
    "trace_sensitive_key ''token''"
    "\<not> trace_media_or_binary_key ''summary''" "\<not> trace_tool_call_arguments_key ''summary''"
    by blast+
qed

lemma shape_string_fixed:
  "redact_trace_io_value c (JString (trace_value_shape v)) depth (Some ''summary'')
     = (JString (trace_value_shape v), False)"
  using trace_value_shape_plain[of v]
  by (simp add: redact_string decoded_arguments_def redact_trace_string_def
      MAX_TRACE_IO_STRING_CHARS_def)

lemma shape_summary_fixed:
  "fst (redact_trace_io_value c (shape_summary v) 0 None) = shape_summary v"
proof -
  have visited: "\<not> omitted (shape_summary v) 0 None" by (simp add: MAX_TRACE_IO_DEPTH_def)
  show ?thesis
    using visited unfolding shape_summary_def
    by (simp add: redact_object has_binary_marker_def object_output_def redacted_fields_def
        redacted_field_def MAX_TRACE_IO_ITEMS_def shape_string_fixed)
qed

lemma canonical_fixed:
  assumes "refuses_placeholders c" and "prints_within c (shape_summary v)"
    and "settled (summary_value (canonical_trace_io_summary c v))"
  shows "summary_value (canonical_trace_io_summary c (summary_value (canonical_trace_io_summary c v)))
    = summary_value (canonical_trace_io_summary c v)"
proof (cases "prints_within c (fst (redact_trace_io_value c v 0 None))")
  case True
  with assms redact_settled[of c v 0 None] show ?thesis by (simp add: canonical_cases)
next
  case False
  with assms(2) show ?thesis by (simp add: canonical_cases shape_summary_fixed)
qed

lemma canonical_prints:
  "prints_within c (shape_summary v) \<Longrightarrow>
     prints_within c (summary_value (canonical_trace_io_summary c v))"
  by (simp add: canonical_cases)

section \<open>Properties\<close>

text \<open>C24: What a gateway sends as the summary of an input or output holds no value of a sensitive field
  and, except in placeholders and in strings that were cut, no credential marker; it has at most
  eight levels of arrays of at most 128 elements and objects of at most 129 fields, and its text fits
  128 KiB, the fallback for values that do not being a summary of their shape.\<close>

theorem canonical_summary_safe:
  assumes "print_json c (shape_summary v) = Inr t" and "length t \<le> MAX_TRACE_IO_SUMMARY_BYTES"
  shows "trace_clean (summary_value (canonical_trace_io_summary c v)) \<and>
    within_levels 8 (summary_value (canonical_trace_io_summary c v)) \<and>
    (\<exists>encoded. print_json c (summary_value (canonical_trace_io_summary c v)) = Inr encoded \<and>
       length encoded \<le> 128 * 1024)"
proof -
  have "prints_within c (shape_summary v)" using assms by (auto simp: prints_within_def)
  from canonical_prints[OF this] show ?thesis
    using redact_clean_value[of c v 0 None] redact_levels[of 0 c v None] trace_value_shape_plain[of v]
    by (auto simp: canonical_cases shape_summary_def MAX_TRACE_IO_ITEMS_def prints_within_def
        MAX_TRACE_IO_SUMMARY_BYTES_def)
qed

text \<open>A codec and an input for the examples: texts are the shapes, and nothing parses.\<close>

definition sample_codec :: text_codec where
  "sample_codec = \<lparr>print_json = (\<lambda>v. Inr (trace_value_shape v)), parse_json = (\<lambda>_. None)\<rparr>"

definition sample_input :: json where
  "sample_input = JArray [JObject [(''token'', JString ''abc'')]]"

lemma sample_codec_prints: "print_json sample_codec v = Inr (trace_value_shape v)"
  by (simp add: sample_codec_def)

lemma sample_within: "prints_within sample_codec v"
  by (cases v) (auto simp: prints_within_def sample_codec_prints MAX_TRACE_IO_SUMMARY_BYTES_def)

lemma sample_refuses: "refuses_placeholders sample_codec"
  by (simp add: refuses_placeholders_def sample_codec_def)

lemma sample_summary:
  "canonical_trace_io_summary sample_codec sample_input =
     \<lparr>summary_value = JArray [JObject [(''token'', JString ''[REDACTED]'')]], summary_truncated = True\<rparr>"
proof -
  have "redact_trace_io_value sample_codec (JObject [(''token'', JString ''abc'')]) 1 None =
      (JObject [(''token'', JString ''[REDACTED]'')], True)"
    by (simp add: prod_eq_iff redact_object has_binary_marker_def object_output_def
        redacted_fields_def redacted_field_def MAX_TRACE_IO_ITEMS_def MAX_TRACE_IO_DEPTH_def)
  then show ?thesis
    by (simp add: canonical_cases sample_within)
      (simp add: sample_input_def redact_array MAX_TRACE_IO_DEPTH_def MAX_TRACE_IO_ITEMS_def)
qed

theorem canonical_summary_safe_witness:
  "print_json sample_codec (shape_summary sample_input) = Inr ''object'' \<and>
   trace_clean (summary_value (canonical_trace_io_summary sample_codec sample_input))"
  using canonical_summary_safe[of sample_codec sample_input "''object''"]
  by (simp add: sample_codec_prints shape_summary_def MAX_TRACE_IO_SUMMARY_BYTES_def)

text \<open>C25: A summary whose objects have at most 128 fields, whose strings were not cut and whose flag is
  the effective one is accepted by the receiver of the telemetry: canonicalising it again gives the
  same value.\<close>

theorem canonical_summary_accepted:
  assumes "refuses_placeholders c" and "prints_within c (shape_summary v)"
    and "settled (summary_value (canonical_trace_io_summary c v))"
    and "effective_truncated (canonical_trace_io_summary c v)
      = summary_truncated (canonical_trace_io_summary c v)"
  shows "validate_trace_io_summaries c (Some (canonical_trace_io_summary c v)) None = Inr ()"
  using canonical_fixed[OF assms(1-3)] canonical_prints[OF assms(2)] assms(4)
  by (auto simp: validate_trace_io_summaries_def validate_json_def prints_within_def)

theorem canonical_summary_accepted_witness:
  "validate_trace_io_summaries sample_codec
     (Some \<lparr>summary_value = JArray [JObject [(''token'', JString ''[REDACTED]'')]],
            summary_truncated = True\<rparr>) None = Inr ()"
proof -
  have "\<not> ends_with ''[REDACTED]'' cut_mark" by code_simp
  then show ?thesis
    using canonical_summary_accepted[OF sample_refuses sample_within, of sample_input]
    by (simp add: sample_summary effective_truncated_def MAX_TRACE_IO_ITEMS_def)
qed

definition truncated_input :: json where
  "truncated_input = JObject [(''truncated'', JBool True)]"

text \<open>A gateway's own summary can be refused. The flag of a summary does not depend on the names
  of its fields, but the receiver requires it when the value has a field \<open>truncated\<close> that is true: the
  summary of an input with such a field fails the check, and with it the command that carries it.\<close>

theorem own_summary_refused:
  assumes "print_json c truncated_input = Inr t" and "length t \<le> MAX_TRACE_IO_SUMMARY_BYTES"
  shows "validate_trace_io_summaries c (Some (canonical_trace_io_summary c truncated_input)) None =
    Inl ''trace root input summary under-reports truncation''"
proof -
  have fixed: "redact_trace_io_value c truncated_input 0 None = (truncated_input, False)"
    by (simp add: prod_eq_iff redact_object has_binary_marker_def object_output_def
        redacted_fields_def redacted_field_def MAX_TRACE_IO_ITEMS_def MAX_TRACE_IO_DEPTH_def
        truncated_input_def)
  with assms have own: "canonical_trace_io_summary c truncated_input =
      \<lparr>summary_value = truncated_input, summary_truncated = False\<rparr>"
    by (auto simp: canonical_cases prints_within_def)
  show ?thesis
    using assms by (simp add: own validate_trace_io_summaries_def validate_json_def effective_truncated_def)
      (simp add: truncated_input_def as_bool_def ensure_def)
qed

theorem own_summary_refused_witness:
  "validate_trace_io_summaries sample_codec
     (Some (canonical_trace_io_summary sample_codec truncated_input)) None \<noteq> Inr ()"
proof -
  have "print_json sample_codec truncated_input = Inr ''object''"
    by (simp add: sample_codec_prints truncated_input_def)
  from own_summary_refused[OF this] show ?thesis by (simp add: MAX_TRACE_IO_SUMMARY_BYTES_def)
qed

text \<open>
  Texts that look like a placeholder are kept, whatever they contain.
\<close>

lemma placeholder_hides_credential:
  assumes "refuses_placeholders c"
  shows "fst (redact_trace_io_value c (JString ''<authorization: key1 omitted>'') depth hint) =
      JString ''<authorization: key1 omitted>'' \<and>
    trace_sensitive_value_string ''<authorization: key1 omitted>''"
proof -
  have "canonical_trace_placeholder ''<authorization: key1 omitted>''"
    "trace_sensitive_value_string ''<authorization: key1 omitted>''"
    by (simp_all add: canonical_trace_placeholder_def starts_with_def ends_with_def suffix_def
      exI[of _ "''<authorization: key1''"], code_simp)
  with placeholder_fixed[OF assms, of "''<authorization: key1 omitted>''" depth hint] show ?thesis by simp
qed

text \<open>
  When an object has more than 128 fields and a kept one sorts after the ellipsis, its summary is not
  a summary of itself: it has 129 fields, the summary of it 128.
\<close>

lemma keys_redacted_fields [simp]: "map fst (redacted_fields c depth kvs) = map fst kvs"
  by (induction kvs) (auto simp: redacted_fields_def)

lemma fst_redacted_fields: "fst ` set (redacted_fields c depth kvs) = fst ` set kvs"
  by (force simp: redacted_fields_def)

lemma bt_wf_redacted [simp]: "bt_wf (redacted_fields c depth kvs) = bt_wf kvs"
  by (simp add: bt_wf_def)

lemma wide_object_unstable:
  assumes wf: "bt_wf kvs" and wide: "MAX_TRACE_IO_ITEMS < length kvs"
    and plain: "\<not> has_binary_marker kvs" and fresh: "ellipsis \<notin> fst ` set kvs"
    and after: "key \<in> fst ` set (take MAX_TRACE_IO_ITEMS kvs)" "ellipsis < key"
  shows "fst (redact_trace_io_value c (fst (redact_trace_io_value c (JObject kvs) 0 None)) 0 None)
    \<noteq> fst (redact_trace_io_value c (JObject kvs) 0 None)"
proof -
  let ?n = MAX_TRACE_IO_ITEMS and ?mf = "JString ''<more fields>''"
  let ?kept = "redacted_fields c 0 (take ?n kvs)" and ?once = "object_output c 0 kvs"
  have top: "\<not> omitted (JObject xs) 0 None" for xs :: "(string \<times> json) list"
    by (simp add: MAX_TRACE_IO_DEPTH_def)
  have once: "?once = bt_insert ellipsis ?mf ?kept"
    using wide by (simp add: object_output_def)
  have keys: "set (map fst ?once) = insert ellipsis (fst ` set (take ?n kvs))"
    unfolding once keys_bt_insert keys_redacted_fields by simp
  have wf_once: "bt_wf ?once" unfolding once using wf by (simp add: bt_wf_take)
  have "ellipsis \<notin> fst ` set ?kept" 
    using fresh set_take_subset[of ?n kvs] by (auto simp: fst_redacted_fields)
  then have len_once: "length ?once = Suc ?n"
    unfolding once using wide length_bt_insert_new[of ellipsis ?kept ?mf]
    by (simp add: redacted_fields_def)
  have "ellipsis \<in> fst ` set (take ?n ?once)"
    using bt_not_last[OF wf_once len_once _ _ after(2)] keys after(1) by auto
  then have old: "ellipsis \<in> fst ` set (redacted_fields c 0 (take ?n ?once))"
    by (simp add: fst_redacted_fields)
  have "length (object_output c 0 ?once) = ?n"
    using len_once length_bt_insert_old[OF _ old, of ?mf] wf_once
    by (simp add: object_output_def[of c 0 ?once] bt_wf_take) (simp add: redacted_fields_def)
  then have "object_output c 0 ?once \<noteq> ?once" using len_once by auto
  then show ?thesis
    using redact_object(1)[OF top binary_marker_gone[OF plain]]
    by (simp add: redact_object(1)[OF top plain])
qed

end
