(* ===== verification/Serde.thy ===== *)
theory Serde
  imports Protocol
begin

text \<open>
  Shapes of data in JSON, as the derived \<open>serde\<close> implementations of the gateway protocol have them:
  structs with optional and defaulted fields, lists, numbers, and unit variants. Texts of UUIDs (the
  \<open>uuid\<close> crate) are a parameter. Writers and readers are paired by round-trip rules, so that the round
  trip of a struct is one step of simplification.
\<close>

record uuid_codec =
  uuid_print :: "uuid \<Rightarrow> string"
  uuid_parse :: "string \<Rightarrow> uuid option"

text \<open>A UUID is parsed from its own text, which is not empty and not the identifier of the hello request.\<close>

definition uuid_texts :: "uuid_codec \<Rightarrow> bool" where
  "uuid_texts u \<longleftrightarrow> (\<forall>x. uuid_parse u (uuid_print u x) = Some x \<and> uuid_print u x \<noteq> []) \<and>
     uuid_parse u ''gateway.hello'' = None"

section \<open>Writing\<close>

text \<open>\<open>serde_json::to_value\<close> of a struct: the fields that are not skipped, in the order of their names.\<close>

definition json_object :: "(string \<times> json option) list \<Rightarrow> json" where
  "json_object fs = JObject (List.map_filter (\<lambda>(k, v). map_option (Pair k) v) fs)"

definition json_list :: "('a \<Rightarrow> json) \<Rightarrow> 'a list \<Rightarrow> json" where
  "json_list f xs = JArray (map f xs)"

definition json_uuid :: "uuid_codec \<Rightarrow> uuid \<Rightarrow> json" where
  "json_uuid u x = JString (uuid_print u x)"

definition json_u32 :: "32 word \<Rightarrow> json" where
  "json_u32 n = JNumber (PosInt (ucast n))"

section \<open>Reading\<close>

definition as_string :: "json \<Rightarrow> string option" where
  "as_string v = (case v of JString s \<Rightarrow> Some s | _ \<Rightarrow> None)"

definition as_uuid :: "uuid_codec \<Rightarrow> json \<Rightarrow> uuid option" where
  "as_uuid u v = Option.bind (as_string v) (uuid_parse u)"

definition as_u32 :: "json \<Rightarrow> 32 word option" where
  "as_u32 v = Option.bind (as_u64 v) (\<lambda>n. if n \<le> 0xFFFFFFFF then Some (ucast n) else None)"

fun all_some :: "'a option list \<Rightarrow> 'a list option" where
  "all_some [] = Some []"
| "all_some (None # xs) = None"
| "all_some (Some x # xs) = map_option (Cons x) (all_some xs)"

definition as_list :: "(json \<Rightarrow> 'a option) \<Rightarrow> json \<Rightarrow> 'a list option" where
  "as_list f v = (case v of JArray vs \<Rightarrow> all_some (map f vs) | _ \<Rightarrow> None)"

text \<open>A unit variant is its name, or an object with its name and \<open>null\<close>.\<close>

definition as_variant :: "(string \<times> 'a) list \<Rightarrow> json \<Rightarrow> 'a option" where
  "as_variant names v = (case v of
     JString s \<Rightarrow> map_of names s
   | JObject [(s, JNull)] \<Rightarrow> map_of names s
   | _ \<Rightarrow> None)"

text \<open>
  Fields of a struct. A missing field is an error, unless it is an \<open>Option\<close>, for which \<open>null\<close> is none
  too, or has a default.
\<close>

definition required :: "(json \<Rightarrow> 'a option) \<Rightarrow> json option \<Rightarrow> 'a option" where
  "required f v = Option.bind v f"

definition optional :: "(json \<Rightarrow> 'a option) \<Rightarrow> json option \<Rightarrow> 'a option option" where
  "optional f v = (case v of
     None \<Rightarrow> Some None
   | Some x \<Rightarrow> if is_null x then Some None else map_option Some (f x))"

definition defaulted :: "'a \<Rightarrow> (json \<Rightarrow> 'a option) \<Rightarrow> json option \<Rightarrow> 'a option" where
  "defaulted d f v = (case v of None \<Rightarrow> Some d | Some x \<Rightarrow> f x)"

text \<open>A struct without \<open>deny_unknown_fields\<close> ignores other fields.\<close>

definition open_struct_fields :: "string list \<Rightarrow> json \<Rightarrow> (string \<rightharpoonup> json) option" where
  "open_struct_fields names v = (case v of
     JObject kvs \<Rightarrow> if distinct (map fst kvs) then Some (map_of kvs) else None
   | _ \<Rightarrow> struct_fields names v)"

section \<open>Round trips\<close>

named_theorems serde \<open>writers and readers that belong together\<close>

lemma map_filter_fields:
  assumes "distinct (map fst fs)"
  shows "distinct (map fst (List.map_filter (\<lambda>(k, v). map_option (Pair k) v) fs))"
    and "set (map fst (List.map_filter (\<lambda>(k, v). map_option (Pair k) v) fs)) \<subseteq> set (map fst fs)"
    and "map_of (List.map_filter (\<lambda>(k, v). map_option (Pair k) v) fs) k = Option.bind (map_of fs k) id"
proof -
  have sub: "set (map fst (List.map_filter (\<lambda>(k, v). map_option (Pair k) v) fs)) \<subseteq> set (map fst fs)" for fs
    by (induction fs) (auto simp: List.map_filter_simps split: option.splits)
  then show "set (map fst (List.map_filter (\<lambda>(k, v). map_option (Pair k) v) fs)) \<subseteq> set (map fst fs)" .
  show "distinct (map fst (List.map_filter (\<lambda>(k, v). map_option (Pair k) v) fs))"
    using assms
  proof (induction fs)
    case (Cons f fs)
    then show ?case using sub[of fs] by (cases f) (auto simp: List.map_filter_simps split: option.splits)
  qed (simp add: List.map_filter_simps)
  show "map_of (List.map_filter (\<lambda>(k, v). map_option (Pair k) v) fs) k = Option.bind (map_of fs k) id"
    using assms
  proof (induction fs)
    case (Cons f fs)
    then show ?case using sub[of fs]
      by (cases f) (auto simp: List.map_filter_simps map_of_eq_None_iff split: option.splits)
  qed (simp add: List.map_filter_simps)
qed

lemma list_all_keys: "list_all (\<lambda>(k, _). k \<in> S) kvs \<longleftrightarrow> set (map fst kvs) \<subseteq> S"
  by (induction kvs) auto

lemma struct_fields_object [serde]:
  assumes "distinct (map fst fs)" and "set (map fst fs) \<subseteq> set names"
  shows "struct_fields names (json_object fs) = Some (\<lambda>k. Option.bind (map_of fs k) id)"
  using map_filter_fields[OF assms(1)] assms(2)
  by (auto simp: struct_fields_def json_object_def list_all_keys fun_eq_iff simp del: set_map)

lemma open_struct_fields_object [serde]:
  assumes "distinct (map fst fs)"
  shows "open_struct_fields names (json_object fs) = Some (\<lambda>k. Option.bind (map_of fs k) id)"
  using map_filter_fields[OF assms(1)]
  by (auto simp: open_struct_fields_def json_object_def fun_eq_iff)

lemma json_object_not_null [serde]: "json_object fs \<noteq> JNull"
  by (simp add: json_object_def)

lemma required_Some [serde]: "required f (Some v) = f v"
  by (simp add: required_def)

lemma defaulted_Some [serde]: "defaulted d f (Some v) = f v"
  by (simp add: defaulted_def)

lemma optional_fields [serde]:
  assumes "\<And>x. f (g x) = Some x" and "\<And>x. g x \<noteq> JNull"
  shows "optional f (map_option g v) = Some v"
  using assms by (simp add: optional_def is_null_def split: option.splits)

lemma as_list_json [serde]:
  assumes "\<And>x. f (g x) = Some x"
  shows "as_list f (json_list g xs) = Some xs"
proof -
  have "all_some (map (f \<circ> g) xs) = Some xs"
    using assms by (induction xs) simp_all
  then show ?thesis by (simp add: as_list_def json_list_def)
qed

lemma scalar_shapes [serde]:
  "as_string (JString s) = Some s" "as_u64 (json_u64 n) = Some n" "as_bool (JBool b) = Some b"
  "json_u64 n \<noteq> JNull" "json_uuid u x \<noteq> JNull" "json_list g xs \<noteq> JNull"
  by (simp_all add: as_string_def as_u64_def json_u64_def as_bool_def json_uuid_def json_list_def)

lemma unat_widened: "unat (ucast (n :: 32 word) :: 64 word) = unat n"
proof -
  have "unat n < 2 ^ LENGTH(32)" by (rule unsigned_less)
  then show ?thesis by (simp add: unsigned_ucast_eq take_bit_nat_eq_self)
qed

lemma as_u32_json [serde]: "as_u32 (json_u32 n) = Some n"
proof -
  have bound: "unat n < 2 ^ LENGTH(32)" by (rule unsigned_less)
  then have "(ucast n :: 64 word) \<le> 0xFFFFFFFF"
    by (simp add: word_le_nat_alt unat_widened)
  moreover have "(ucast (ucast n :: 64 word) :: 32 word) = n"
    using bound by (simp add: word_eq_iff_unsigned unsigned_ucast_eq take_bit_nat_eq_self take_bit_word_eq_self)
  ultimately show ?thesis
    by (simp add: as_u32_def as_u64_def json_u32_def)
qed

lemma as_uuid_json [serde]: "uuid_texts u \<Longrightarrow> as_uuid u (json_uuid u x) = Some x"
  by (simp add: as_uuid_def json_uuid_def uuid_texts_def as_string_def)

end
