(* ===== verification/Gateway_Telemetry.thy ===== *)
theory Gateway_Telemetry
  imports Trace_Io Serde Invocations
begin

text \<open>
  The telemetry of \<open>crates/vifu-gateway/src/protocol.rs\<close>: what a gateway reports of a running
  invocation, the checks on it, and its shape in JSON. The fields of the variants of
  \<open>TraceTelemetry\<close> keep their names (\<open>rename_all\<close> of an enum renames only the variants).
\<close>

section \<open>Data\<close>

definition MAX_TRACE_DURATION_MS :: u64 where "MAX_TRACE_DURATION_MS = 24 * 60 * 60 * 1000"
definition MAX_TRACE_TOKEN_COUNT :: u64 where "MAX_TRACE_TOKEN_COUNT = 1000000000"
definition MAX_TRACE_TELEMETRY_EVENTS :: nat where "MAX_TRACE_TELEMETRY_EVENTS = 32"
definition MAX_TRACE_DROPPED_EVENTS :: "32 word" where "MAX_TRACE_DROPPED_EVENTS = 10000"

datatype trace_stage_status = TraceStarted | TraceCompleted | TraceFailed

datatype trace_delivery_status = Delivered | DeliveryFailed

record trace_started =
  started_provider_key :: string
  started_capability :: string
  started_model :: "string option"

record trace_stage =
  stage_observation_id :: uuid
  stage_of :: provider_stage
  stage_status :: trace_stage_status
  stage_start_offset_ms :: u64
  stage_end_offset_ms :: "u64 option"
  stage_elapsed_ms :: "u64 option"
  stage_request_elapsed_ms :: "u64 option"
  stage_input_tokens :: "u64 option"
  stage_output_tokens :: "u64 option"
  stage_resident :: "bool option"
  stage_error :: "string option"

record trace_delivery =
  delivery_observation_id :: uuid
  delivery_status :: trace_delivery_status
  delivery_start_offset_ms :: u64
  delivery_end_offset_ms :: u64
  delivery_elapsed_ms :: u64
  delivery_error :: "string option"

datatype trace_telemetry =
    InvocationStarted trace_started
  | TraceStage trace_stage
  | Delivery trace_delivery

datatype feedback_event = OutputAccepted | ActionApplied | FramePresented

datatype feedback_outcome = FeedbackPass | FeedbackFail | FeedbackUnknown | FeedbackNotApplicable

record application_feedback =
  feedback_of :: feedback_event
  feedback_result :: feedback_outcome
  feedback_message :: "string option"
  feedback_path :: "string option"

record trace_telemetry_batch =
  batch_events :: "trace_telemetry list"
  batch_dropped_events :: "32 word"
  batch_input_summary :: "trace_io_summary option"
  batch_output_summary :: "trace_io_summary option"

datatype telemetry_terminal_status = TerminalCompleted | TerminalCancelled | TerminalError

record telemetry_terminal =
  terminal_status :: telemetry_terminal_status
  terminal_duration_ms :: u64
  terminal_ended_at_ms :: u64
  terminal_error :: "string option"

record host_metrics =
  process_rss_bytes :: "u64 option"
  total_memory_bytes :: "u64 option"

record runtime_telemetry_batch =
  rt_deployment_id :: uuid
  rt_trace_id :: string
  rt_invocation_id :: string
  rt_project_id :: string
  rt_endpoint :: string
  rt_agent_id :: string
  rt_started_at_ms :: u64
  rt_events :: "trace_telemetry list"
  rt_dropped_events :: "32 word"
  rt_input_summary :: "trace_io_summary option"
  rt_output_summary :: "trace_io_summary option"
  rt_host_metrics :: "host_metrics option"
  rt_terminal :: "telemetry_terminal option"

section \<open>Checks of texts\<close>

definition protocol_byte :: "char \<Rightarrow> bool" where
  "protocol_byte b \<longleftrightarrow> is_ascii_alphanumeric b \<or> b \<in> set ''-_.:''"

definition validate_protocol_identifier :: "string \<Rightarrow> string \<Rightarrow> (string, unit) result" where
  "validate_protocol_identifier name v =
     and_then (ensure (3 \<le> length v \<and> length v \<le> 128) (''invalid '' @ name @ '' length'')) (\<lambda>_.
     ensure (list_all protocol_byte v) (''invalid '' @ name @ '' characters''))"

definition validate_token :: "string \<Rightarrow> string \<Rightarrow> nat \<Rightarrow> nat \<Rightarrow> (string, unit) result" where
  "validate_token name v min_len max_len =
     ensure (min_len \<le> length v \<and> length v \<le> max_len \<and> list_all protocol_byte v) (''invalid '' @ name)"

definition validate_text :: "string \<Rightarrow> string \<Rightarrow> nat \<Rightarrow> nat \<Rightarrow> (string, unit) result" where
  "validate_text name v min_len max_len =
     ensure (min_len \<le> length v \<and> length v \<le> max_len \<and> CHR 0x00 \<notin> set v) (''invalid '' @ name)"

section \<open>Checks of telemetry\<close>

definition validate_stage_status :: "trace_stage \<Rightarrow> (string, unit) result" where
  "validate_stage_status s =
     and_then (ensure (\<not> (stage_status s = TraceStarted \<and> stage_elapsed_ms s \<noteq> None))
       ''started trace stage cannot have elapsed time'') (\<lambda>_.
     and_then (ensure (\<not> (stage_status s \<noteq> TraceStarted \<and> stage_elapsed_ms s = None))
       ''completed trace stage requires elapsed time'') (\<lambda>_.
     ensure (\<not> (stage_status s = TraceFailed \<and> stage_error s = None))
       ''failed trace stage requires an error''))"

definition validate_stage_offsets :: "trace_stage \<Rightarrow> (string, unit) result" where
  "validate_stage_offsets s =
     and_then (ensure (stage_start_offset_ms s \<le> MAX_TRACE_DURATION_MS)
       ''trace stage startOffsetMs is out of range'') (\<lambda>_.
     case (stage_status s, stage_end_offset_ms s) of
       (TraceStarted, None) \<Rightarrow> Inr ()
     | (TraceStarted, Some _) \<Rightarrow> Inl ''started trace stage cannot have an end offset''
     | (_, Some end_offset_ms) \<Rightarrow>
         ensure (stage_start_offset_ms s \<le> end_offset_ms \<and> end_offset_ms \<le> MAX_TRACE_DURATION_MS)
           ''trace stage endOffsetMs is out of range''
     | (_, None) \<Rightarrow> Inl ''completed trace stage requires an end offset'')"

definition validate_at_most :: "u64 \<Rightarrow> string \<times> u64 option \<Rightarrow> (string, unit) result" where
  "validate_at_most bound = (\<lambda>(name, v).
     ensure (\<not> (case v of None \<Rightarrow> False | Some n \<Rightarrow> bound < n)) (name @ '' is out of range''))"

definition validate_trace_stage :: "trace_stage \<Rightarrow> (string, unit) result" where
  "validate_trace_stage s =
     and_then (validate_stage_status s) (\<lambda>_.
     and_then (optional_check (\<lambda>e. validate_text ''trace stage error'' e 1 512) (stage_error s)) (\<lambda>_.
     and_then (validate_stage_offsets s) (\<lambda>_.
     and_then (for_each (validate_at_most MAX_TRACE_DURATION_MS)
       [(''trace stage elapsedMs'', stage_elapsed_ms s),
        (''trace stage requestElapsedMs'', stage_request_elapsed_ms s)]) (\<lambda>_.
     for_each (validate_at_most MAX_TRACE_TOKEN_COUNT)
       [(''trace stage inputTokens'', stage_input_tokens s),
        (''trace stage outputTokens'', stage_output_tokens s)]))))"

definition validate_trace_delivery :: "trace_delivery \<Rightarrow> (string, unit) result" where
  "validate_trace_delivery d =
     and_then (ensure (delivery_start_offset_ms d \<le> delivery_end_offset_ms d \<and>
         delivery_end_offset_ms d \<le> MAX_TRACE_DURATION_MS)
       ''trace delivery offsets are out of range'') (\<lambda>_.
     and_then (ensure (delivery_elapsed_ms d \<le> MAX_TRACE_DURATION_MS)
       ''trace delivery elapsedMs is out of range'') (\<lambda>_.
     and_then (ensure (\<not> (delivery_status d = DeliveryFailed \<and> delivery_error d = None))
       ''failed trace delivery requires an error'') (\<lambda>_.
     optional_check (\<lambda>e. validate_text ''trace delivery error'' e 1 512) (delivery_error d))))"

fun validate_trace_telemetry :: "trace_telemetry \<Rightarrow> (string, unit) result" where
  "validate_trace_telemetry (InvocationStarted s) =
     and_then (validate_protocol_identifier ''trace provider key'' (started_provider_key s)) (\<lambda>_.
     and_then (validate_protocol_identifier ''trace capability'' (started_capability s)) (\<lambda>_.
     optional_check (\<lambda>m. validate_text ''trace model'' m 1 512) (started_model s)))"
| "validate_trace_telemetry (TraceStage s) = validate_trace_stage s"
| "validate_trace_telemetry (Delivery d) = validate_trace_delivery d"

definition validate_trace_telemetry_batch ::
    "text_codec \<Rightarrow> trace_telemetry_batch \<Rightarrow> (string, unit) result" where
  "validate_trace_telemetry_batch c b =
     and_then (ensure (\<not> (batch_events b = [] \<and> batch_input_summary b = None \<and>
           batch_output_summary b = None) \<and>
         length (batch_events b) \<le> MAX_TRACE_TELEMETRY_EVENTS)
       ''trace telemetry batch size is out of range'') (\<lambda>_.
     and_then (ensure (batch_dropped_events b \<le> MAX_TRACE_DROPPED_EVENTS)
       ''trace telemetry dropped event count is out of range'') (\<lambda>_.
     and_then (for_each validate_trace_telemetry (batch_events b)) (\<lambda>_.
     validate_trace_io_summaries c (batch_input_summary b) (batch_output_summary b))))"

definition validate_terminal :: "runtime_telemetry_batch \<Rightarrow> telemetry_terminal \<Rightarrow> (string, unit) result" where
  "validate_terminal b t =
     and_then (ensure (terminal_duration_ms t \<le> MAX_TRACE_DURATION_MS \<and>
         rt_started_at_ms b \<le> terminal_ended_at_ms t)
       ''runtime telemetry terminal timing is out of range'') (\<lambda>_.
     optional_check (\<lambda>e. validate_text ''runtime telemetry error'' e 1 512) (terminal_error t))"

definition validate_runtime_telemetry_batch ::
    "text_codec \<Rightarrow> runtime_telemetry_batch \<Rightarrow> (string, unit) result" where
  "validate_runtime_telemetry_batch c b =
     and_then (validate_protocol_identifier ''runtime trace id'' (rt_trace_id b)) (\<lambda>_.
     and_then (validate_protocol_identifier ''runtime invocation id'' (rt_invocation_id b)) (\<lambda>_.
     and_then (validate_protocol_identifier ''runtime project id'' (rt_project_id b)) (\<lambda>_.
     and_then (validate_protocol_identifier ''runtime endpoint'' (rt_endpoint b)) (\<lambda>_.
     and_then (validate_protocol_identifier ''runtime agent id'' (rt_agent_id b)) (\<lambda>_.
     and_then (ensure (rt_started_at_ms b \<noteq> 0) ''runtime telemetry start time is required'') (\<lambda>_.
     and_then (ensure (\<not> (rt_events b = [] \<and> rt_terminal b = None))
       ''runtime telemetry must include events or a terminal outcome'') (\<lambda>_.
     and_then (ensure (length (rt_events b) \<le> MAX_TRACE_TELEMETRY_EVENTS)
       ''runtime telemetry batch size is out of range'') (\<lambda>_.
     and_then (ensure (rt_dropped_events b \<le> MAX_TRACE_DROPPED_EVENTS)
       ''runtime telemetry dropped event count is out of range'') (\<lambda>_.
     and_then (for_each validate_trace_telemetry (rt_events b)) (\<lambda>_.
     and_then (validate_trace_io_summaries c (rt_input_summary b) (rt_output_summary b)) (\<lambda>_.
     optional_check (validate_terminal b) (rt_terminal b))))))))))))"

section \<open>JSON\<close>

definition stage_statuses :: "(string \<times> trace_stage_status) list" where
  "stage_statuses =
     [(''started'', TraceStarted), (''completed'', TraceCompleted), (''failed'', TraceFailed)]"

definition delivery_statuses :: "(string \<times> trace_delivery_status) list" where
  "delivery_statuses = [(''delivered'', Delivered), (''failed'', DeliveryFailed)]"

definition provider_stages :: "(string \<times> provider_stage) list" where
  "provider_stages =
     [(''queue'', StageQueue), (''load'', StageLoad), (''tokenize'', StageTokenize),
      (''prefill'', StagePrefill), (''firstToken'', StageFirstToken), (''decode'', StageDecode),
      (''validate'', StageValidate)]"

definition terminal_statuses :: "(string \<times> telemetry_terminal_status) list" where
  "terminal_statuses =
     [(''completed'', TerminalCompleted), (''cancelled'', TerminalCancelled), (''error'', TerminalError)]"

definition feedback_events :: "(string \<times> feedback_event) list" where
  "feedback_events =
     [(''OUTPUT_ACCEPTED'', OutputAccepted), (''ACTION_APPLIED'', ActionApplied),
      (''FRAME_PRESENTED'', FramePresented)]"

definition feedback_outcomes :: "(string \<times> feedback_outcome) list" where
  "feedback_outcomes =
     [(''pass'', FeedbackPass), (''fail'', FeedbackFail), (''unknown'', FeedbackUnknown),
      (''notApplicable'', FeedbackNotApplicable)]"

text \<open>The name of a unit variant.\<close>

definition variant_json :: "(string \<times> 'a) list \<Rightarrow> 'a \<Rightarrow> json" where
  "variant_json names x =
     (case find (\<lambda>(_, y). y = x) names of None \<Rightarrow> JNull | Some (name, _) \<Rightarrow> JString name)"

definition started_to_json :: "trace_started \<Rightarrow> json" where
  "started_to_json s = json_object
     [(''capability'', Some (JString (started_capability s))),
      (''model'', map_option JString (started_model s)),
      (''provider_key'', Some (JString (started_provider_key s))),
      (''type'', Some (JString ''invocationStarted''))]"

definition stage_to_json :: "uuid_codec \<Rightarrow> trace_stage \<Rightarrow> json" where
  "stage_to_json u s = json_object
     [(''elapsed_ms'', map_option json_u64 (stage_elapsed_ms s)),
      (''end_offset_ms'', map_option json_u64 (stage_end_offset_ms s)),
      (''error'', map_option JString (stage_error s)),
      (''input_tokens'', map_option json_u64 (stage_input_tokens s)),
      (''observation_id'', Some (json_uuid u (stage_observation_id s))),
      (''output_tokens'', map_option json_u64 (stage_output_tokens s)),
      (''request_elapsed_ms'', map_option json_u64 (stage_request_elapsed_ms s)),
      (''resident'', map_option JBool (stage_resident s)),
      (''stage'', Some (variant_json provider_stages (stage_of s))),
      (''start_offset_ms'', Some (json_u64 (stage_start_offset_ms s))),
      (''status'', Some (variant_json stage_statuses (stage_status s))),
      (''type'', Some (JString ''providerStage''))]"

definition delivery_to_json :: "uuid_codec \<Rightarrow> trace_delivery \<Rightarrow> json" where
  "delivery_to_json u d = json_object
     [(''elapsed_ms'', Some (json_u64 (delivery_elapsed_ms d))),
      (''end_offset_ms'', Some (json_u64 (delivery_end_offset_ms d))),
      (''error'', map_option JString (delivery_error d)),
      (''observation_id'', Some (json_uuid u (delivery_observation_id d))),
      (''start_offset_ms'', Some (json_u64 (delivery_start_offset_ms d))),
      (''status'', Some (variant_json delivery_statuses (delivery_status d))),
      (''type'', Some (JString ''delivery''))]"

fun telemetry_to_json :: "uuid_codec \<Rightarrow> trace_telemetry \<Rightarrow> json" where
  "telemetry_to_json u (InvocationStarted s) = started_to_json s"
| "telemetry_to_json u (TraceStage s) = stage_to_json u s"
| "telemetry_to_json u (Delivery d) = delivery_to_json u d"

definition started_of_json :: "json \<Rightarrow> trace_started option" where
  "started_of_json v =
     Option.bind (struct_fields [''type'', ''provider_key'', ''capability'', ''model''] v) (\<lambda>m.
     Option.bind (required as_string (m ''provider_key'')) (\<lambda>provider_key.
     Option.bind (required as_string (m ''capability'')) (\<lambda>capability.
     Option.bind (optional as_string (m ''model'')) (\<lambda>model.
     Some \<lparr>started_provider_key = provider_key, started_capability = capability,
           started_model = model\<rparr>))))"

definition stage_of_json :: "uuid_codec \<Rightarrow> json \<Rightarrow> trace_stage option" where
  "stage_of_json u v =
     Option.bind (struct_fields [''type'', ''observation_id'', ''stage'', ''status'', ''start_offset_ms'',
       ''end_offset_ms'', ''elapsed_ms'', ''request_elapsed_ms'', ''input_tokens'', ''output_tokens'',
       ''resident'', ''error''] v) (\<lambda>m.
     Option.bind (required (as_uuid u) (m ''observation_id'')) (\<lambda>observation_id.
     Option.bind (required (as_variant provider_stages) (m ''stage'')) (\<lambda>stage.
     Option.bind (required (as_variant stage_statuses) (m ''status'')) (\<lambda>status.
     Option.bind (required as_u64 (m ''start_offset_ms'')) (\<lambda>start_offset_ms.
     Option.bind (optional as_u64 (m ''end_offset_ms'')) (\<lambda>end_offset_ms.
     Option.bind (optional as_u64 (m ''elapsed_ms'')) (\<lambda>elapsed_ms.
     Option.bind (optional as_u64 (m ''request_elapsed_ms'')) (\<lambda>request_elapsed_ms.
     Option.bind (optional as_u64 (m ''input_tokens'')) (\<lambda>input_tokens.
     Option.bind (optional as_u64 (m ''output_tokens'')) (\<lambda>output_tokens.
     Option.bind (optional as_bool (m ''resident'')) (\<lambda>resident.
     Option.bind (optional as_string (m ''error'')) (\<lambda>error.
     Some \<lparr>stage_observation_id = observation_id, stage_of = stage, stage_status = status,
           stage_start_offset_ms = start_offset_ms, stage_end_offset_ms = end_offset_ms,
           stage_elapsed_ms = elapsed_ms, stage_request_elapsed_ms = request_elapsed_ms,
           stage_input_tokens = input_tokens, stage_output_tokens = output_tokens,
           stage_resident = resident, stage_error = error\<rparr>))))))))))))"

definition delivery_of_json :: "uuid_codec \<Rightarrow> json \<Rightarrow> trace_delivery option" where
  "delivery_of_json u v =
     Option.bind (struct_fields [''type'', ''observation_id'', ''status'', ''start_offset_ms'',
       ''end_offset_ms'', ''elapsed_ms'', ''error''] v) (\<lambda>m.
     Option.bind (required (as_uuid u) (m ''observation_id'')) (\<lambda>observation_id.
     Option.bind (required (as_variant delivery_statuses) (m ''status'')) (\<lambda>status.
     Option.bind (required as_u64 (m ''start_offset_ms'')) (\<lambda>start_offset_ms.
     Option.bind (required as_u64 (m ''end_offset_ms'')) (\<lambda>end_offset_ms.
     Option.bind (required as_u64 (m ''elapsed_ms'')) (\<lambda>elapsed_ms.
     Option.bind (optional as_string (m ''error'')) (\<lambda>error.
     Some \<lparr>delivery_observation_id = observation_id, delivery_status = status,
           delivery_start_offset_ms = start_offset_ms, delivery_end_offset_ms = end_offset_ms,
           delivery_elapsed_ms = elapsed_ms, delivery_error = error\<rparr>)))))))"

text \<open>The tag of an internally tagged enum: the field \<open>type\<close>, or the first element of an array.\<close>

definition type_tag :: "json \<Rightarrow> string option" where
  "type_tag v = (case v of
     JObject kvs \<Rightarrow> Option.bind (map_of kvs ''type'') as_string
   | JArray (x # _) \<Rightarrow> as_string x
   | _ \<Rightarrow> None)"

definition telemetry_of_json :: "uuid_codec \<Rightarrow> json \<Rightarrow> trace_telemetry option" where
  "telemetry_of_json u v =
     Option.bind (type_tag v) (\<lambda>tag.
       if tag = ''invocationStarted'' then map_option InvocationStarted (started_of_json v)
       else if tag = ''providerStage'' then map_option TraceStage (stage_of_json u v)
       else if tag = ''delivery'' then map_option Delivery (delivery_of_json u v)
       else None)"

definition io_summary_to_json :: "trace_io_summary \<Rightarrow> json" where
  "io_summary_to_json s = json_object
     [(''truncated'', Some (JBool (summary_truncated s))), (''value'', Some (summary_value s))]"

definition io_summary_of_json :: "json \<Rightarrow> trace_io_summary option" where
  "io_summary_of_json v =
     Option.bind (struct_fields [''value'', ''truncated''] v) (\<lambda>m.
     Option.bind (required Some (m ''value'')) (\<lambda>value.
     Option.bind (required as_bool (m ''truncated'')) (\<lambda>truncated.
     Some \<lparr>summary_value = value, summary_truncated = truncated\<rparr>)))"

definition terminal_to_json :: "telemetry_terminal \<Rightarrow> json" where
  "terminal_to_json t = json_object
     [(''durationMs'', Some (json_u64 (terminal_duration_ms t))),
      (''endedAtMs'', Some (json_u64 (terminal_ended_at_ms t))),
      (''error'', map_option JString (terminal_error t)),
      (''status'', Some (variant_json terminal_statuses (terminal_status t)))]"

definition terminal_of_json :: "json \<Rightarrow> telemetry_terminal option" where
  "terminal_of_json v =
     Option.bind (struct_fields [''status'', ''durationMs'', ''endedAtMs'', ''error''] v) (\<lambda>m.
     Option.bind (required (as_variant terminal_statuses) (m ''status'')) (\<lambda>status.
     Option.bind (required as_u64 (m ''durationMs'')) (\<lambda>duration_ms.
     Option.bind (required as_u64 (m ''endedAtMs'')) (\<lambda>ended_at_ms.
     Option.bind (optional as_string (m ''error'')) (\<lambda>error.
     Some \<lparr>terminal_status = status, terminal_duration_ms = duration_ms,
           terminal_ended_at_ms = ended_at_ms, terminal_error = error\<rparr>)))))"

definition host_metrics_to_json :: "host_metrics \<Rightarrow> json" where
  "host_metrics_to_json h = json_object
     [(''processRssBytes'', map_option json_u64 (process_rss_bytes h)),
      (''totalMemoryBytes'', map_option json_u64 (total_memory_bytes h))]"

definition host_metrics_of_json :: "json \<Rightarrow> host_metrics option" where
  "host_metrics_of_json v =
     Option.bind (struct_fields [''processRssBytes'', ''totalMemoryBytes''] v) (\<lambda>m.
     Option.bind (optional as_u64 (m ''processRssBytes'')) (\<lambda>rss.
     Option.bind (optional as_u64 (m ''totalMemoryBytes'')) (\<lambda>total_memory.
     Some \<lparr>process_rss_bytes = rss, total_memory_bytes = total_memory\<rparr>)))"

definition runtime_batch_to_json :: "uuid_codec \<Rightarrow> runtime_telemetry_batch \<Rightarrow> json" where
  "runtime_batch_to_json u b = json_object
     [(''agentId'', Some (JString (rt_agent_id b))),
      (''deploymentId'', Some (json_uuid u (rt_deployment_id b))),
      (''droppedEvents'', Some (json_u32 (rt_dropped_events b))),
      (''endpoint'', Some (JString (rt_endpoint b))),
      (''events'', Some (json_list (telemetry_to_json u) (rt_events b))),
      (''hostMetrics'', map_option host_metrics_to_json (rt_host_metrics b)),
      (''invocationId'', Some (JString (rt_invocation_id b))),
      (''projectId'', Some (JString (rt_project_id b))),
      (''rootInputSummary'', map_option io_summary_to_json (rt_input_summary b)),
      (''rootOutputSummary'', map_option io_summary_to_json (rt_output_summary b)),
      (''startedAtMs'', Some (json_u64 (rt_started_at_ms b))),
      (''terminal'', map_option terminal_to_json (rt_terminal b)),
      (''traceId'', Some (JString (rt_trace_id b)))]"

definition runtime_batch_of_json :: "uuid_codec \<Rightarrow> json \<Rightarrow> runtime_telemetry_batch option" where
  "runtime_batch_of_json u v =
     Option.bind (struct_fields [''deploymentId'', ''traceId'', ''invocationId'', ''projectId'',
       ''endpoint'', ''agentId'', ''startedAtMs'', ''events'', ''droppedEvents'', ''rootInputSummary'',
       ''rootOutputSummary'', ''hostMetrics'', ''terminal''] v) (\<lambda>m.
     Option.bind (required (as_uuid u) (m ''deploymentId'')) (\<lambda>deployment_id.
     Option.bind (required as_string (m ''traceId'')) (\<lambda>trace_id.
     Option.bind (required as_string (m ''invocationId'')) (\<lambda>invocation_id.
     Option.bind (required as_string (m ''projectId'')) (\<lambda>project_id.
     Option.bind (required as_string (m ''endpoint'')) (\<lambda>endpoint.
     Option.bind (required as_string (m ''agentId'')) (\<lambda>agent_id.
     Option.bind (required as_u64 (m ''startedAtMs'')) (\<lambda>started_at_ms.
     Option.bind (defaulted [] (as_list (telemetry_of_json u)) (m ''events'')) (\<lambda>events.
     Option.bind (defaulted 0 as_u32 (m ''droppedEvents'')) (\<lambda>dropped_events.
     Option.bind (optional io_summary_of_json (m ''rootInputSummary'')) (\<lambda>input_summary.
     Option.bind (optional io_summary_of_json (m ''rootOutputSummary'')) (\<lambda>output_summary.
     Option.bind (optional host_metrics_of_json (m ''hostMetrics'')) (\<lambda>host_metrics.
     Option.bind (optional terminal_of_json (m ''terminal'')) (\<lambda>terminal.
     Some \<lparr>rt_deployment_id = deployment_id, rt_trace_id = trace_id,
           rt_invocation_id = invocation_id, rt_project_id = project_id, rt_endpoint = endpoint,
           rt_agent_id = agent_id, rt_started_at_ms = started_at_ms, rt_events = events,
           rt_dropped_events = dropped_events, rt_input_summary = input_summary,
           rt_output_summary = output_summary, rt_host_metrics = host_metrics,
           rt_terminal = terminal\<rparr>))))))))))))))"

definition feedback_to_json :: "application_feedback \<Rightarrow> json" where
  "feedback_to_json f = json_object
     [(''event'', Some (variant_json feedback_events (feedback_of f))),
      (''message'', map_option JString (feedback_message f)),
      (''outcome'', Some (variant_json feedback_outcomes (feedback_result f))),
      (''path'', map_option JString (feedback_path f))]"

definition feedback_of_json :: "json \<Rightarrow> application_feedback option" where
  "feedback_of_json v =
     Option.bind (struct_fields [''event'', ''outcome'', ''message'', ''path''] v) (\<lambda>m.
     Option.bind (required (as_variant feedback_events) (m ''event'')) (\<lambda>event.
     Option.bind (required (as_variant feedback_outcomes) (m ''outcome'')) (\<lambda>result.
     Option.bind (optional as_string (m ''message'')) (\<lambda>message.
     Option.bind (optional as_string (m ''path'')) (\<lambda>path.
     Some \<lparr>feedback_of = event, feedback_result = result, feedback_message = message,
           feedback_path = path\<rparr>)))))"

section \<open>Round trips\<close>

lemma variant_roundtrip:
  assumes "x \<in> snd ` set names" and "distinct (map fst names)"
  shows "as_variant names (variant_json names x) = Some x"
proof -
  obtain name y where found: "find (\<lambda>(_, y). y = x) names = Some (name, y)"
    using assms(1) by (cases "find (\<lambda>(_, y). y = x) names") (auto simp: find_None_iff)
  then have "(name, x) \<in> set names"
    by (auto simp: find_Some_iff in_set_conv_nth)
  with assms(2) found show ?thesis
    by (simp add: as_variant_def variant_json_def)
qed

lemma variants_json [serde]:
  "as_variant stage_statuses (variant_json stage_statuses x1) = Some x1"
  "as_variant delivery_statuses (variant_json delivery_statuses x2) = Some x2"
  "as_variant provider_stages (variant_json provider_stages x3) = Some x3"
  "as_variant terminal_statuses (variant_json terminal_statuses x4) = Some x4"
  "as_variant feedback_events (variant_json feedback_events x5) = Some x5"
  "as_variant feedback_outcomes (variant_json feedback_outcomes x6) = Some x6"
proof -
  note tables = stage_statuses_def delivery_statuses_def provider_stages_def terminal_statuses_def
    feedback_events_def feedback_outcomes_def
  show "as_variant stage_statuses (variant_json stage_statuses x1) = Some x1"
    by (rule variant_roundtrip; cases x1; simp add: tables)
  show "as_variant delivery_statuses (variant_json delivery_statuses x2) = Some x2"
    by (rule variant_roundtrip; cases x2; simp add: tables)
  show "as_variant provider_stages (variant_json provider_stages x3) = Some x3"
    by (rule variant_roundtrip; cases x3; simp add: tables)
  show "as_variant terminal_statuses (variant_json terminal_statuses x4) = Some x4"
    by (rule variant_roundtrip; cases x4; simp add: tables)
  show "as_variant feedback_events (variant_json feedback_events x5) = Some x5"
    by (rule variant_roundtrip; cases x5; simp add: tables)
  show "as_variant feedback_outcomes (variant_json feedback_outcomes x6) = Some x6"
    by (rule variant_roundtrip; cases x6; simp add: tables)
qed

lemma started_roundtrip: "started_of_json (started_to_json s) = Some s"
  by (simp add: started_of_json_def started_to_json_def serde)

lemma stage_roundtrip: "uuid_texts u \<Longrightarrow> stage_of_json u (stage_to_json u s) = Some s"
  by (simp add: stage_of_json_def stage_to_json_def serde)

lemma delivery_roundtrip: "uuid_texts u \<Longrightarrow> delivery_of_json u (delivery_to_json u d) = Some d"
  by (simp add: delivery_of_json_def delivery_to_json_def serde)

lemma type_tag_object [serde]:
  "distinct (map fst fs) \<Longrightarrow>
     type_tag (json_object fs) = Option.bind (Option.bind (map_of fs ''type'') id) as_string"
  using map_filter_fields(3)[of fs "''type''"] by (simp add: type_tag_def json_object_def)

lemma telemetry_tags:
  "type_tag (started_to_json s) = Some ''invocationStarted''"
  "type_tag (stage_to_json u t) = Some ''providerStage''"
  "type_tag (delivery_to_json u d) = Some ''delivery''"
  by (simp_all add: started_to_json_def stage_to_json_def delivery_to_json_def serde)

lemma telemetry_roundtrip [serde]:
  "uuid_texts u \<Longrightarrow> telemetry_of_json u (telemetry_to_json u t) = Some t"
  by (cases t) (simp_all add: telemetry_of_json_def telemetry_tags started_roundtrip stage_roundtrip
      delivery_roundtrip)

lemma io_summary_roundtrip [serde]:
  "io_summary_of_json (io_summary_to_json s) = Some s" "io_summary_to_json s \<noteq> JNull"
  by (simp_all add: io_summary_of_json_def io_summary_to_json_def serde)

lemma terminal_roundtrip [serde]:
  "terminal_of_json (terminal_to_json t) = Some t" "terminal_to_json t \<noteq> JNull"
  by (simp_all add: terminal_of_json_def terminal_to_json_def serde)

lemma host_metrics_roundtrip [serde]:
  "host_metrics_of_json (host_metrics_to_json h) = Some h" "host_metrics_to_json h \<noteq> JNull"
  by (simp_all add: host_metrics_of_json_def host_metrics_to_json_def serde)

lemma feedback_roundtrip [serde]:
  "feedback_of_json (feedback_to_json f) = Some f" "feedback_to_json f \<noteq> JNull"
  by (simp_all add: feedback_of_json_def feedback_to_json_def serde)

lemma runtime_batch_roundtrip [serde]:
  "uuid_texts u \<Longrightarrow> runtime_batch_of_json u (runtime_batch_to_json u b) = Some b"
  by (simp add: runtime_batch_of_json_def runtime_batch_to_json_def serde)

section \<open>What accepted telemetry is\<close>

text \<open>A stage report is consistent with its status.\<close>

definition valid_stage :: "trace_stage \<Rightarrow> bool" where
  "valid_stage s \<longleftrightarrow>
     (stage_status s = TraceStarted \<longleftrightarrow> stage_end_offset_ms s = None) \<and>
     (stage_status s = TraceStarted \<longleftrightarrow> stage_elapsed_ms s = None) \<and>
     (stage_status s = TraceFailed \<longrightarrow> stage_error s \<noteq> None) \<and>
     stage_start_offset_ms s \<le> MAX_TRACE_DURATION_MS \<and>
     (\<forall>n. stage_end_offset_ms s = Some n \<longrightarrow> stage_start_offset_ms s \<le> n \<and> n \<le> MAX_TRACE_DURATION_MS) \<and>
     (\<forall>n. stage_elapsed_ms s = Some n \<or> stage_request_elapsed_ms s = Some n \<longrightarrow> n \<le> MAX_TRACE_DURATION_MS) \<and>
     (\<forall>n. stage_input_tokens s = Some n \<or> stage_output_tokens s = Some n \<longrightarrow> n \<le> MAX_TRACE_TOKEN_COUNT) \<and>
     (\<forall>e. stage_error s = Some e \<longrightarrow> 1 \<le> length e \<and> length e \<le> 512 \<and> CHR 0x00 \<notin> set e)"

definition valid_delivery :: "trace_delivery \<Rightarrow> bool" where
  "valid_delivery d \<longleftrightarrow>
     delivery_start_offset_ms d \<le> delivery_end_offset_ms d \<and>
     delivery_end_offset_ms d \<le> MAX_TRACE_DURATION_MS \<and> delivery_elapsed_ms d \<le> MAX_TRACE_DURATION_MS \<and>
     (delivery_status d = DeliveryFailed \<longrightarrow> delivery_error d \<noteq> None) \<and>
     (\<forall>e. delivery_error d = Some e \<longrightarrow> 1 \<le> length e \<and> length e \<le> 512 \<and> CHR 0x00 \<notin> set e)"

definition protocol_identifier :: "string \<Rightarrow> bool" where
  "protocol_identifier v \<longleftrightarrow> 3 \<le> length v \<and> length v \<le> 128 \<and> (\<forall>b \<in> set v. protocol_byte b)"

fun valid_telemetry :: "trace_telemetry \<Rightarrow> bool" where
  "valid_telemetry (InvocationStarted s) \<longleftrightarrow>
     protocol_identifier (started_provider_key s) \<and> protocol_identifier (started_capability s) \<and>
     (\<forall>m. started_model s = Some m \<longrightarrow> 1 \<le> length m \<and> length m \<le> 512 \<and> CHR 0x00 \<notin> set m)"
| "valid_telemetry (TraceStage s) \<longleftrightarrow> valid_stage s"
| "valid_telemetry (Delivery d) \<longleftrightarrow> valid_delivery d"

lemma identifier_iff: "validate_protocol_identifier name v = Inr u \<longleftrightarrow> protocol_identifier v"
  by (auto simp: validate_protocol_identifier_def protocol_identifier_def and_then_eq_Inr list_all_iff)

lemma text_iff_protocol:
  "validate_text name v a b = Inr u \<longleftrightarrow> a \<le> length v \<and> length v \<le> b \<and> CHR 0x00 \<notin> set v"
  by (simp add: validate_text_def)

lemma at_most_iff: "validate_at_most bound (name, v) = Inr u \<longleftrightarrow> (\<forall>n. v = Some n \<longrightarrow> n \<le> bound)"
  by (cases v) (auto simp: validate_at_most_def)

lemma stage_offsets_iff:
  "validate_stage_offsets s = Inr u \<longleftrightarrow>
     stage_start_offset_ms s \<le> MAX_TRACE_DURATION_MS \<and>
     (stage_status s = TraceStarted \<longleftrightarrow> stage_end_offset_ms s = None) \<and>
     (\<forall>n. stage_end_offset_ms s = Some n \<longrightarrow> stage_start_offset_ms s \<le> n \<and> n \<le> MAX_TRACE_DURATION_MS)"
  by (cases "stage_status s"; cases "stage_end_offset_ms s")
    (simp_all add: validate_stage_offsets_def and_then_eq_Inr)

lemma stage_iff: "validate_trace_stage s = Inr u \<longleftrightarrow> valid_stage s"
  unfolding validate_trace_stage_def valid_stage_def and_then_eq_Inr optional_check_iff
    stage_offsets_iff for_each_eq_Inr text_iff_protocol validate_stage_status_def
  by (auto simp: at_most_iff)

lemma delivery_iff: "validate_trace_delivery d = Inr u \<longleftrightarrow> valid_delivery d"
  by (auto simp: validate_trace_delivery_def valid_delivery_def and_then_eq_Inr optional_check_iff
      text_iff_protocol)

lemma telemetry_iff: "validate_trace_telemetry t = Inr u \<longleftrightarrow> valid_telemetry t"
  by (cases t) (auto simp: and_then_eq_Inr optional_check_iff text_iff_protocol identifier_iff
      stage_iff delivery_iff)

section \<open>Properties\<close>

text \<open>The check of a runtime's telemetry accepts exactly the batches with valid identifiers and at
  most 32 reports, each consistent with its status (a started stage has neither end nor duration, a
  completed or failed one has both, in order and within a day, a failed one has an error), summaries
  that are canonical, and, if the invocation ended, an end after its start; a batch without reports must
  be the last one of its invocation.\<close>

theorem telemetry_validation_exact:
  "validate_runtime_telemetry_batch c b = Inr () \<longleftrightarrow>
     protocol_identifier (rt_trace_id b) \<and> protocol_identifier (rt_invocation_id b) \<and>
     protocol_identifier (rt_project_id b) \<and> protocol_identifier (rt_endpoint b) \<and>
     protocol_identifier (rt_agent_id b) \<and> rt_started_at_ms b \<noteq> 0 \<and>
     \<not> (rt_events b = [] \<and> rt_terminal b = None) \<and> length (rt_events b) \<le> 32 \<and>
     rt_dropped_events b \<le> 10000 \<and> list_all valid_telemetry (rt_events b) \<and>
     validate_trace_io_summaries c (rt_input_summary b) (rt_output_summary b) = Inr () \<and>
     (case rt_terminal b of None \<Rightarrow> True
      | Some t \<Rightarrow> terminal_duration_ms t \<le> 24 * 60 * 60 * 1000 \<and> rt_started_at_ms b \<le> terminal_ended_at_ms t \<and>
          (case terminal_error t of None \<Rightarrow> True
           | Some e \<Rightarrow> 1 \<le> length e \<and> length e \<le> 512 \<and> CHR 0x00 \<notin> set e))"
  unfolding validate_runtime_telemetry_batch_def and_then_eq_Inr identifier_iff for_each_eq_Inr
    telemetry_iff optional_check_iff validate_terminal_def text_iff_protocol
  by (auto simp: list_all_iff MAX_TRACE_TELEMETRY_EVENTS_def MAX_TRACE_DROPPED_EVENTS_def
      MAX_TRACE_DURATION_MS_def split: option.splits)

end
