(* ===== verification/Gateway_Protocol.thy ===== *)
theory Gateway_Protocol
  imports Gateway_Telemetry
begin

text \<open>
  The commands of \<open>crates/vifu-gateway/src/protocol.rs\<close> between a gateway and its server, their checks
  (\<open>validate_command\<close>) and their frames (\<open>to_gateway_frame\<close>, \<open>from_gateway_frame\<close>), and the text of a
  frame (\<open>crates/vifu-gateway/src/gateway_frame.rs\<close>). A command holds its payload as a record with the
  fields of the private payload struct of the same name.
\<close>

section \<open>Commands\<close>

definition VERSION :: string where "VERSION = ''vifu.agent-gateway/1''"
definition MAX_BODY_BYTES :: nat where "MAX_BODY_BYTES = 512 * 1024"
definition MAX_INVOCATION_BODY_BYTES :: nat where "MAX_INVOCATION_BODY_BYTES = 16 * 1024 * 1024"
definition MAX_PATH_BYTES :: nat where "MAX_PATH_BYTES = 2 * 1024"
definition MAX_GATEWAY_AGENTS :: nat where "MAX_GATEWAY_AGENTS = 256"

record agent_descriptor =
  descriptor_id :: string
  descriptor_name :: string
  descriptor_metadata :: json

record machine_proof =
  machine_id :: string
  machine_public_key :: string
  machine_signature :: string
  machine_signed_at :: u64

record hello_auth =
  hello_device_token :: "string option"

record welcome_auth =
  welcome_device_token :: string
  welcome_generation :: u64
  welcome_expires_at :: string

record challenge_payload =
  challenge_nonce :: string
  challenge_timestamp :: u64
  challenge_audience :: string

record hello_params =
  hello_protocol :: string
  hello_resume_session_id :: "uuid option"
  hello_agents :: "agent_descriptor list"
  hello_metadata :: json
  hello_machine :: machine_proof
  hello_auth_of :: hello_auth
  hello_followup :: "string option"

record welcome_payload =
  welcome_gateway_id :: string
  welcome_connection_id :: uuid
  welcome_session_id :: uuid
  welcome_heartbeat_interval_ms :: u64
  welcome_resumed :: bool
  welcome_auth_of :: "welcome_auth option"

record pairing_payload =
  pairing_request_id :: uuid
  pairing_auth_url :: string
  pairing_retryable :: bool
  pairing_recommended_next_step :: string
  pairing_retry_after_ms :: u64

record invoke_params =
  invoke_channel_id :: u64
  invoke_endpoint_id :: uuid
  invoke_profile_id :: uuid
  invoke_binding_id :: uuid
  invoke_agent_id :: string
  invoke_binding :: json
  invoke_input :: json
  invoke_timeout_ms :: u64

record result_payload =
  result_channel_id :: u64
  result_output :: json

record feedback_payload =
  fp_request_id :: uuid
  fp_observation_id :: uuid
  fp_start_offset_ms :: u64
  fp_end_offset_ms :: u64
  fp_feedback :: application_feedback

datatype gateway_command =
    Challenge challenge_payload
  | Hello hello_params
  | Welcome welcome_payload
  | PairingRequired pairing_payload
  | InvokeCommand uuid invoke_params
  | ResultCommand uuid result_payload
  | ErrorCommand "uuid option" "u64 option" string string
  | CancelCommand uuid u64
  | InvocationActivityReady
  | InvocationActivity uuid u64
  | Heartbeat uuid
  | HeartbeatAck uuid
  | RuntimeConfigChanged "uuid list"
  | RuntimeMonitoringReady
  | RuntimeHostMetricsReady
  | RuntimeTelemetry runtime_telemetry_batch
  | FeedbackCommand feedback_payload

section \<open>Checks\<close>

definition validate_channel :: "u64 \<Rightarrow> (string, unit) result" where
  "validate_channel channel_id = ensure (channel_id \<noteq> 0) ''channel id must be greater than zero''"

definition code_byte :: "char \<Rightarrow> bool" where
  "code_byte b \<longleftrightarrow> (65 \<le> byte b \<and> byte b \<le> 90) \<or> is_ascii_digit b \<or> b = CHR ''_''"

definition validate_code :: "string \<Rightarrow> (string, unit) result" where
  "validate_code v =
     and_then (ensure (v \<noteq> [] \<and> length v \<le> 64) ''invalid error code length'') (\<lambda>_.
     ensure (list_all code_byte v) ''invalid error code characters'')"

definition validate_path :: "string \<Rightarrow> (string, unit) result" where
  "validate_path path =
     and_then (ensure (path \<noteq> [] \<and> length path \<le> MAX_PATH_BYTES) ''invalid request path length'') (\<lambda>_.
     and_then (ensure (starts_with path ''/'' \<and> \<not> starts_with path ''//'')
       ''request path must be absolute-path only'') (\<lambda>_.
     and_then (ensure (\<not> str_contains path ''..'') ''request path must not contain parent traversal'') (\<lambda>_.
     ensure (\<not> list_ex (\<lambda>b. byte b < 0x20 \<or> byte b = 0x7F \<or> b = CHR 0x09) path)
       ''request path contains control characters'')))"

definition validate_method :: "string \<Rightarrow> (string, unit) result" where
  "validate_method method_name =
     ensure (method_name = ''GET'' \<or> method_name = ''POST'') ''only GET and POST requests are supported''"

definition validate_body :: "string \<Rightarrow> (string, unit) result" where
  "validate_body body = ensure (length body \<le> MAX_BODY_BYTES) ''protocol body is too large''"

definition validate_challenge :: "challenge_payload \<Rightarrow> (string, unit) result" where
  "validate_challenge p =
     and_then (validate_token ''challenge nonce'' (challenge_nonce p) 32 256) (\<lambda>_.
     and_then (ensure (challenge_timestamp p \<noteq> 0) ''challenge timestamp is required'') (\<lambda>_.
     validate_text ''challenge audience'' (challenge_audience p) 1 512))"

definition validate_agent :: "text_codec \<Rightarrow> agent_descriptor \<Rightarrow> (string, unit) result" where
  "validate_agent c a =
     and_then (validate_protocol_identifier ''agent id'' (descriptor_id a)) (\<lambda>_.
     and_then (validate_text ''agent name'' (descriptor_name a) 1 128) (\<lambda>_.
     validate_json c ''agent metadata'' (descriptor_metadata a) (64 * 1024)))"

definition validate_machine :: "machine_proof \<Rightarrow> (string, unit) result" where
  "validate_machine m =
     and_then (validate_protocol_identifier ''Gateway machine id'' (machine_id m)) (\<lambda>_.
     and_then (validate_token ''Gateway machine public key'' (machine_public_key m) 32 256) (\<lambda>_.
     and_then (validate_token ''Gateway machine signature'' (machine_signature m) 32 256) (\<lambda>_.
     ensure (machine_signed_at m \<noteq> 0) ''Gateway machine signature timestamp is required'')))"

definition validate_hello :: "text_codec \<Rightarrow> hello_params \<Rightarrow> (string, unit) result" where
  "validate_hello c p =
     and_then (ensure (hello_protocol p = VERSION)
       (''unsupported agent gateway protocol: '' @ hello_protocol p)) (\<lambda>_.
     and_then (ensure (length (hello_agents p) \<le> MAX_GATEWAY_AGENTS)
       ''too many agent gateway agents'') (\<lambda>_.
     and_then (for_each (validate_agent c) (hello_agents p)) (\<lambda>_.
     and_then (validate_json c ''agent gateway metadata'' (hello_metadata p) (64 * 1024)) (\<lambda>_.
     and_then (validate_machine (hello_machine p)) (\<lambda>_.
     and_then (optional_check (\<lambda>t. validate_token ''Gateway device token'' t 48 256)
       (hello_device_token (hello_auth_of p))) (\<lambda>_.
     optional_check (\<lambda>t. validate_token ''Gateway follow-up'' t 16 512) (hello_followup p)))))))"

definition validate_welcome :: "welcome_payload \<Rightarrow> (string, unit) result" where
  "validate_welcome p =
     and_then (validate_protocol_identifier ''agent gateway id'' (welcome_gateway_id p)) (\<lambda>_.
     and_then (ensure (1000 \<le> welcome_heartbeat_interval_ms p \<and> welcome_heartbeat_interval_ms p \<le> 60000)
       ''invalid heartbeat interval'') (\<lambda>_.
     optional_check (\<lambda>auth.
       and_then (validate_token ''Gateway device token'' (welcome_device_token auth) 48 256) (\<lambda>_.
       ensure (welcome_generation auth \<noteq> 0 \<and> welcome_expires_at auth \<noteq> [] \<and>
           length (welcome_expires_at auth) \<le> 64)
         ''invalid Gateway authorization update'')) (welcome_auth_of p)))"

definition validate_pairing :: "pairing_payload \<Rightarrow> (string, unit) result" where
  "validate_pairing p =
     and_then (validate_text ''Gateway authorization URL'' (pairing_auth_url p) 1 2048) (\<lambda>_.
     and_then (validate_token ''Gateway pairing next step'' (pairing_recommended_next_step p) 3 64) (\<lambda>_.
     ensure (250 \<le> pairing_retry_after_ms p \<and> pairing_retry_after_ms p \<le> 60000)
       ''invalid Gateway pairing retry interval''))"

definition validate_invoke :: "text_codec \<Rightarrow> invoke_params \<Rightarrow> (string, unit) result" where
  "validate_invoke c p =
     and_then (validate_channel (invoke_channel_id p)) (\<lambda>_.
     and_then (validate_protocol_identifier ''agent id'' (invoke_agent_id p)) (\<lambda>_.
     and_then (validate_json c ''binding'' (invoke_binding p) (64 * 1024)) (\<lambda>_.
     and_then (validate_json c ''input'' (invoke_input p) MAX_INVOCATION_BODY_BYTES) (\<lambda>_.
     ensure (500 \<le> invoke_timeout_ms p \<and> invoke_timeout_ms p \<le> 120000)
       ''invalid request timeout''))))"

definition validate_error ::
    "uuid option \<Rightarrow> u64 option \<Rightarrow> string \<Rightarrow> string \<Rightarrow> (string, unit) result" where
  "validate_error rid channel_id code message =
     and_then (ensure ((rid \<noteq> None) = (channel_id \<noteq> None))
       ''request and channel ids must be provided together'') (\<lambda>_.
     and_then (optional_check validate_channel channel_id) (\<lambda>_.
     and_then (validate_code code) (\<lambda>_.
     validate_text ''error message'' message 1 2048)))"

definition validate_config_changed :: "uuid list \<Rightarrow> (string, unit) result" where
  "validate_config_changed ids =
     and_then (ensure (ids \<noteq> [] \<and> length ids \<le> 256)
       ''runtime configuration notification must name deployments'') (\<lambda>_.
     ensure (distinct ids) ''runtime configuration notification contains duplicates'')"

definition validate_feedback :: "feedback_payload \<Rightarrow> (string, unit) result" where
  "validate_feedback p =
     and_then (ensure (fp_start_offset_ms p \<le> fp_end_offset_ms p \<and>
         fp_end_offset_ms p \<le> MAX_TRACE_DURATION_MS)
       ''application feedback offsets are out of range'') (\<lambda>_.
     and_then (optional_check (\<lambda>m. validate_text ''application feedback message'' m 1 512)
       (feedback_message (fp_feedback p))) (\<lambda>_.
     optional_check (\<lambda>t. validate_text ''application feedback path'' t 1 512)
       (feedback_path (fp_feedback p))))"

fun validate_command :: "text_codec \<Rightarrow> gateway_command \<Rightarrow> (string, unit) result" where
  "validate_command c (Challenge p) = validate_challenge p"
| "validate_command c (Hello p) = validate_hello c p"
| "validate_command c (Welcome p) = validate_welcome p"
| "validate_command c (PairingRequired p) = validate_pairing p"
| "validate_command c (InvokeCommand rid p) = validate_invoke c p"
| "validate_command c (ResultCommand rid p) =
     and_then (validate_channel (result_channel_id p)) (\<lambda>_.
     validate_json c ''output'' (result_output p) MAX_INVOCATION_BODY_BYTES)"
| "validate_command c (ErrorCommand rid channel_id code message) =
     validate_error rid channel_id code message"
| "validate_command c (CancelCommand rid channel_id) = validate_channel channel_id"
| "validate_command c (InvocationActivity rid channel_id) = validate_channel channel_id"
| "validate_command c InvocationActivityReady = Inr ()"
| "validate_command c (Heartbeat session_id) = Inr ()"
| "validate_command c (HeartbeatAck session_id) = Inr ()"
| "validate_command c (RuntimeConfigChanged ids) = validate_config_changed ids"
| "validate_command c RuntimeMonitoringReady = Inr ()"
| "validate_command c RuntimeHostMetricsReady = Inr ()"
| "validate_command c (RuntimeTelemetry batch) = validate_runtime_telemetry_batch c batch"
| "validate_command c (FeedbackCommand p) = validate_feedback p"

section \<open>Payloads in JSON\<close>

definition descriptor_to_json :: "agent_descriptor \<Rightarrow> json" where
  "descriptor_to_json a = json_object
     [(''id'', Some (JString (descriptor_id a))), (''metadata'', Some (descriptor_metadata a)),
      (''name'', Some (JString (descriptor_name a)))]"

definition descriptor_of_json :: "json \<Rightarrow> agent_descriptor option" where
  "descriptor_of_json v =
     Option.bind (open_struct_fields [''id'', ''name'', ''metadata''] v) (\<lambda>m.
     Option.bind (required as_string (m ''id'')) (\<lambda>ident.
     Option.bind (required as_string (m ''name'')) (\<lambda>name.
     Option.bind (defaulted JNull Some (m ''metadata'')) (\<lambda>metadata.
     Some \<lparr>descriptor_id = ident, descriptor_name = name, descriptor_metadata = metadata\<rparr>))))"

definition machine_to_json :: "machine_proof \<Rightarrow> json" where
  "machine_to_json p = json_object
     [(''id'', Some (JString (machine_id p))), (''publicKey'', Some (JString (machine_public_key p))),
      (''signature'', Some (JString (machine_signature p))),
      (''signedAt'', Some (json_u64 (machine_signed_at p)))]"

definition machine_of_json :: "json \<Rightarrow> machine_proof option" where
  "machine_of_json v =
     Option.bind (struct_fields [''id'', ''publicKey'', ''signature'', ''signedAt''] v) (\<lambda>m.
     Option.bind (required as_string (m ''id'')) (\<lambda>ident.
     Option.bind (required as_string (m ''publicKey'')) (\<lambda>public_key.
     Option.bind (required as_string (m ''signature'')) (\<lambda>signature.
     Option.bind (required as_u64 (m ''signedAt'')) (\<lambda>signed_at.
     Some \<lparr>machine_id = ident, machine_public_key = public_key, machine_signature = signature,
           machine_signed_at = signed_at\<rparr>)))))"

definition hello_auth_to_json :: "hello_auth \<Rightarrow> json" where
  "hello_auth_to_json a = json_object
     [(''deviceToken'', map_option JString (hello_device_token a))]"

definition hello_auth_of_json :: "json \<Rightarrow> hello_auth option" where
  "hello_auth_of_json v =
     Option.bind (struct_fields [''deviceToken''] v) (\<lambda>m.
     Option.bind (optional as_string (m ''deviceToken'')) (\<lambda>device_token.
     Some \<lparr>hello_device_token = device_token\<rparr>))"

definition hello_to_json :: "uuid_codec \<Rightarrow> hello_params \<Rightarrow> json" where
  "hello_to_json u p = json_object
     [(''agents'', Some (json_list descriptor_to_json (hello_agents p))),
      (''auth'', Some (hello_auth_to_json (hello_auth_of p))),
      (''followup'', map_option JString (hello_followup p)),
      (''machine'', Some (machine_to_json (hello_machine p))),
      (''metadata'', Some (hello_metadata p)),
      (''protocol'', Some (JString (hello_protocol p))),
      (''resumeSessionId'', map_option (json_uuid u) (hello_resume_session_id p))]"

definition hello_of_json :: "uuid_codec \<Rightarrow> json \<Rightarrow> hello_params option" where
  "hello_of_json u v =
     Option.bind (struct_fields [''protocol'', ''resumeSessionId'', ''agents'', ''metadata'', ''machine'',
       ''auth'', ''followup''] v) (\<lambda>m.
     Option.bind (required as_string (m ''protocol'')) (\<lambda>protocol.
     Option.bind (optional (as_uuid u) (m ''resumeSessionId'')) (\<lambda>resume_session_id.
     Option.bind (required (as_list descriptor_of_json) (m ''agents'')) (\<lambda>agents.
     Option.bind (defaulted JNull Some (m ''metadata'')) (\<lambda>metadata.
     Option.bind (required machine_of_json (m ''machine'')) (\<lambda>machine.
     Option.bind (defaulted \<lparr>hello_device_token = None\<rparr> hello_auth_of_json (m ''auth'')) (\<lambda>auth.
     Option.bind (optional as_string (m ''followup'')) (\<lambda>followup.
     Some \<lparr>hello_protocol = protocol, hello_resume_session_id = resume_session_id,
           hello_agents = agents, hello_metadata = metadata, hello_machine = machine,
           hello_auth_of = auth, hello_followup = followup\<rparr>))))))))"

definition welcome_auth_to_json :: "welcome_auth \<Rightarrow> json" where
  "welcome_auth_to_json a = json_object
     [(''deviceToken'', Some (JString (welcome_device_token a))),
      (''expiresAt'', Some (JString (welcome_expires_at a))),
      (''generation'', Some (json_u64 (welcome_generation a)))]"

definition welcome_auth_of_json :: "json \<Rightarrow> welcome_auth option" where
  "welcome_auth_of_json v =
     Option.bind (struct_fields [''deviceToken'', ''generation'', ''expiresAt''] v) (\<lambda>m.
     Option.bind (required as_string (m ''deviceToken'')) (\<lambda>device_token.
     Option.bind (required as_u64 (m ''generation'')) (\<lambda>generation.
     Option.bind (required as_string (m ''expiresAt'')) (\<lambda>expires_at.
     Some \<lparr>welcome_device_token = device_token, welcome_generation = generation,
           welcome_expires_at = expires_at\<rparr>))))"

definition welcome_to_json :: "uuid_codec \<Rightarrow> welcome_payload \<Rightarrow> json" where
  "welcome_to_json u p = json_object
     [(''auth'', map_option welcome_auth_to_json (welcome_auth_of p)),
      (''connectionId'', Some (json_uuid u (welcome_connection_id p))),
      (''gatewayId'', Some (JString (welcome_gateway_id p))),
      (''heartbeatIntervalMs'', Some (json_u64 (welcome_heartbeat_interval_ms p))),
      (''resumed'', Some (JBool (welcome_resumed p))),
      (''sessionId'', Some (json_uuid u (welcome_session_id p)))]"

definition welcome_of_json :: "uuid_codec \<Rightarrow> json \<Rightarrow> welcome_payload option" where
  "welcome_of_json u v =
     Option.bind (struct_fields [''gatewayId'', ''connectionId'', ''sessionId'', ''heartbeatIntervalMs'',
       ''resumed'', ''auth''] v) (\<lambda>m.
     Option.bind (required as_string (m ''gatewayId'')) (\<lambda>gateway_id.
     Option.bind (required (as_uuid u) (m ''connectionId'')) (\<lambda>connection_id.
     Option.bind (required (as_uuid u) (m ''sessionId'')) (\<lambda>session_id.
     Option.bind (required as_u64 (m ''heartbeatIntervalMs'')) (\<lambda>heartbeat_interval_ms.
     Option.bind (required as_bool (m ''resumed'')) (\<lambda>resumed.
     Option.bind (optional welcome_auth_of_json (m ''auth'')) (\<lambda>auth.
     Some \<lparr>welcome_gateway_id = gateway_id, welcome_connection_id = connection_id,
           welcome_session_id = session_id,
           welcome_heartbeat_interval_ms = heartbeat_interval_ms, welcome_resumed = resumed,
           welcome_auth_of = auth\<rparr>)))))))"

definition challenge_to_json :: "challenge_payload \<Rightarrow> json" where
  "challenge_to_json p = json_object
     [(''audience'', Some (JString (challenge_audience p))),
      (''nonce'', Some (JString (challenge_nonce p))),
      (''timestamp'', Some (json_u64 (challenge_timestamp p)))]"

definition challenge_of_json :: "json \<Rightarrow> challenge_payload option" where
  "challenge_of_json v =
     Option.bind (struct_fields [''nonce'', ''timestamp'', ''audience''] v) (\<lambda>m.
     Option.bind (required as_string (m ''nonce'')) (\<lambda>nonce.
     Option.bind (required as_u64 (m ''timestamp'')) (\<lambda>timestamp.
     Option.bind (required as_string (m ''audience'')) (\<lambda>audience.
     Some \<lparr>challenge_nonce = nonce, challenge_timestamp = timestamp,
           challenge_audience = audience\<rparr>))))"

definition pairing_to_json :: "uuid_codec \<Rightarrow> pairing_payload \<Rightarrow> json" where
  "pairing_to_json u p = json_object
     [(''authUrl'', Some (JString (pairing_auth_url p))),
      (''recommendedNextStep'', Some (JString (pairing_recommended_next_step p))),
      (''requestId'', Some (json_uuid u (pairing_request_id p))),
      (''retryAfterMs'', Some (json_u64 (pairing_retry_after_ms p))),
      (''retryable'', Some (JBool (pairing_retryable p)))]"

definition pairing_of_json :: "uuid_codec \<Rightarrow> json \<Rightarrow> pairing_payload option" where
  "pairing_of_json u v =
     Option.bind (struct_fields [''requestId'', ''authUrl'', ''retryable'', ''recommendedNextStep'',
       ''retryAfterMs''] v) (\<lambda>m.
     Option.bind (required (as_uuid u) (m ''requestId'')) (\<lambda>rid.
     Option.bind (required as_string (m ''authUrl'')) (\<lambda>auth_url.
     Option.bind (required as_bool (m ''retryable'')) (\<lambda>retryable.
     Option.bind (required as_string (m ''recommendedNextStep'')) (\<lambda>next_step.
     Option.bind (required as_u64 (m ''retryAfterMs'')) (\<lambda>retry_after_ms.
     Some \<lparr>pairing_request_id = rid, pairing_auth_url = auth_url, pairing_retryable = retryable,
           pairing_recommended_next_step = next_step, pairing_retry_after_ms = retry_after_ms\<rparr>))))))"

definition invoke_to_json :: "uuid_codec \<Rightarrow> invoke_params \<Rightarrow> json" where
  "invoke_to_json u p = json_object
     [(''agentId'', Some (JString (invoke_agent_id p))),
      (''binding'', Some (invoke_binding p)),
      (''bindingId'', Some (json_uuid u (invoke_binding_id p))),
      (''channelId'', Some (json_u64 (invoke_channel_id p))),
      (''endpointId'', Some (json_uuid u (invoke_endpoint_id p))),
      (''input'', Some (invoke_input p)),
      (''profileId'', Some (json_uuid u (invoke_profile_id p))),
      (''timeoutMs'', Some (json_u64 (invoke_timeout_ms p)))]"

definition invoke_of_json :: "uuid_codec \<Rightarrow> json \<Rightarrow> invoke_params option" where
  "invoke_of_json u v =
     Option.bind (struct_fields [''channelId'', ''endpointId'', ''profileId'', ''bindingId'', ''agentId'',
       ''binding'', ''input'', ''timeoutMs''] v) (\<lambda>m.
     Option.bind (required as_u64 (m ''channelId'')) (\<lambda>channel_id.
     Option.bind (required (as_uuid u) (m ''endpointId'')) (\<lambda>endpoint_id.
     Option.bind (required (as_uuid u) (m ''profileId'')) (\<lambda>profile_id.
     Option.bind (required (as_uuid u) (m ''bindingId'')) (\<lambda>binding_id.
     Option.bind (required as_string (m ''agentId'')) (\<lambda>agent_id.
     Option.bind (required Some (m ''binding'')) (\<lambda>binding.
     Option.bind (required Some (m ''input'')) (\<lambda>input.
     Option.bind (required as_u64 (m ''timeoutMs'')) (\<lambda>timeout_ms.
     Some \<lparr>invoke_channel_id = channel_id, invoke_endpoint_id = endpoint_id,
           invoke_profile_id = profile_id, invoke_binding_id = binding_id,
           invoke_agent_id = agent_id, invoke_binding = binding, invoke_input = input,
           invoke_timeout_ms = timeout_ms\<rparr>)))))))))"

definition result_to_json :: "result_payload \<Rightarrow> json" where
  "result_to_json p = json_object
     [(''channelId'', Some (json_u64 (result_channel_id p))), (''output'', Some (result_output p))]"

definition result_of_json :: "json \<Rightarrow> result_payload option" where
  "result_of_json v =
     Option.bind (struct_fields [''channelId'', ''output''] v) (\<lambda>m.
     Option.bind (required as_u64 (m ''channelId'')) (\<lambda>channel_id.
     Option.bind (required Some (m ''output'')) (\<lambda>output.
     Some \<lparr>result_channel_id = channel_id, result_output = output\<rparr>)))"

definition error_details_of_json :: "json \<Rightarrow> u64 option" where
  "error_details_of_json v =
     Option.bind (struct_fields [''channelId''] v) (\<lambda>m. required as_u64 (m ''channelId''))"

text \<open>\<open>CancelPayload\<close> and \<open>InvocationActivityPayload\<close> have the same fields.\<close>

definition call_to_json :: "uuid_codec \<Rightarrow> uuid \<Rightarrow> u64 \<Rightarrow> json" where
  "call_to_json u rid channel_id = json_object
     [(''channelId'', Some (json_u64 channel_id)), (''requestId'', Some (json_uuid u rid))]"

definition call_of_json :: "uuid_codec \<Rightarrow> json \<Rightarrow> (uuid \<times> u64) option" where
  "call_of_json u v =
     Option.bind (struct_fields [''requestId'', ''channelId''] v) (\<lambda>m.
     Option.bind (required (as_uuid u) (m ''requestId'')) (\<lambda>rid.
     Option.bind (required as_u64 (m ''channelId'')) (\<lambda>channel_id.
     Some (rid, channel_id))))"

definition heartbeat_to_json :: "uuid_codec \<Rightarrow> uuid \<Rightarrow> json" where
  "heartbeat_to_json u session_id = json_object [(''sessionId'', Some (json_uuid u session_id))]"

definition heartbeat_of_json :: "uuid_codec \<Rightarrow> json \<Rightarrow> uuid option" where
  "heartbeat_of_json u v =
     Option.bind (struct_fields [''sessionId''] v) (\<lambda>m. required (as_uuid u) (m ''sessionId''))"

definition error_event_to_json :: "string \<Rightarrow> string \<Rightarrow> json" where
  "error_event_to_json code message = json_object
     [(''code'', Some (JString code)), (''message'', Some (JString message))]"

definition error_event_of_json :: "json \<Rightarrow> (string \<times> string) option" where
  "error_event_of_json v =
     Option.bind (struct_fields [''code'', ''message''] v) (\<lambda>m.
     Option.bind (required as_string (m ''code'')) (\<lambda>code.
     Option.bind (required as_string (m ''message'')) (\<lambda>message. Some (code, message))))"

definition config_to_json :: "uuid_codec \<Rightarrow> uuid list \<Rightarrow> json" where
  "config_to_json u ids = json_object [(''deploymentIds'', Some (json_list (json_uuid u) ids))]"

definition config_of_json :: "uuid_codec \<Rightarrow> json \<Rightarrow> uuid list option" where
  "config_of_json u v =
     Option.bind (struct_fields [''deploymentIds''] v) (\<lambda>m.
       required (as_list (as_uuid u)) (m ''deploymentIds''))"

definition empty_to_json :: json where "empty_to_json = json_object []"

definition empty_of_json :: "json \<Rightarrow> unit option" where
  "empty_of_json v = map_option (\<lambda>_. ()) (struct_fields [] v)"

definition feedback_payload_to_json :: "uuid_codec \<Rightarrow> feedback_payload \<Rightarrow> json" where
  "feedback_payload_to_json u p = json_object
     [(''endOffsetMs'', Some (json_u64 (fp_end_offset_ms p))),
      (''feedback'', Some (feedback_to_json (fp_feedback p))),
      (''observationId'', Some (json_uuid u (fp_observation_id p))),
      (''requestId'', Some (json_uuid u (fp_request_id p))),
      (''startOffsetMs'', Some (json_u64 (fp_start_offset_ms p)))]"

definition feedback_payload_of_json :: "uuid_codec \<Rightarrow> json \<Rightarrow> feedback_payload option" where
  "feedback_payload_of_json u v =
     Option.bind (struct_fields [''requestId'', ''observationId'', ''startOffsetMs'', ''endOffsetMs'',
       ''feedback''] v) (\<lambda>m.
     Option.bind (required (as_uuid u) (m ''requestId'')) (\<lambda>rid.
     Option.bind (required (as_uuid u) (m ''observationId'')) (\<lambda>observation_id.
     Option.bind (required as_u64 (m ''startOffsetMs'')) (\<lambda>start_offset_ms.
     Option.bind (required as_u64 (m ''endOffsetMs'')) (\<lambda>end_offset_ms.
     Option.bind (required feedback_of_json (m ''feedback'')) (\<lambda>feedback.
     Some \<lparr>fp_request_id = rid, fp_observation_id = observation_id,
           fp_start_offset_ms = start_offset_ms, fp_end_offset_ms = end_offset_ms,
           fp_feedback = feedback\<rparr>))))))"

section \<open>Frames\<close>

definition make_request_frame :: "string \<Rightarrow> string \<Rightarrow> json \<Rightarrow> protocol_frame" where
  "make_request_frame ident method_name params =
     RequestFrame \<lparr>request_id = ident, request_method = method_name, request_params = Some params\<rparr>"

definition make_response_frame :: "string \<Rightarrow> json \<Rightarrow> protocol_frame" where
  "make_response_frame ident payload =
     ResponseFrame \<lparr>response_id = ident, response_ok = True, response_payload = Some payload,
       response_error = None\<rparr>"

definition make_event_frame :: "string \<Rightarrow> json \<Rightarrow> protocol_frame" where
  "make_event_frame event payload =
     EventFrame \<lparr>frame_event = event, frame_payload = Some payload, frame_seq = None,
       frame_state_version = None\<rparr>"

fun command_frame :: "uuid_codec \<Rightarrow> gateway_command \<Rightarrow> (string, protocol_frame) result" where
  "command_frame u (Challenge p) = Inr (make_event_frame ''gateway.challenge'' (challenge_to_json p))"
| "command_frame u (Hello p) = Inr (make_request_frame ''gateway.hello'' ''gateway.hello'' (hello_to_json u p))"
| "command_frame u (Welcome p) = Inr (make_response_frame ''gateway.hello'' (welcome_to_json u p))"
| "command_frame u (PairingRequired p) = Inr (make_event_frame ''gateway.pairingRequired'' (pairing_to_json u p))"
| "command_frame u (InvokeCommand rid p) =
     Inr (make_request_frame (uuid_print u rid) ''agent.invoke'' (invoke_to_json u p))"
| "command_frame u (ResultCommand rid p) = Inr (make_response_frame (uuid_print u rid) (result_to_json p))"
| "command_frame u (ErrorCommand (Some rid) (Some channel_id) code message) =
     Inr (ResponseFrame \<lparr>response_id = uuid_print u rid, response_ok = False, response_payload = None,
       response_error = Some \<lparr>error_code = code, error_message = message,
         error_details = Some (JObject [(''channelId'', json_u64 channel_id)]),
         error_retryable = None, error_retry_after_ms = None\<rparr>\<rparr>)"
| "command_frame u (ErrorCommand None None code message) =
     Inr (make_event_frame ''gateway.error'' (error_event_to_json code message))"
| "command_frame u (ErrorCommand _ _ code message) =
     Inl ''request and channel ids must be provided together''"
| "command_frame u (CancelCommand rid channel_id) =
     Inr (make_event_frame ''agent.cancel'' (call_to_json u rid channel_id))"
| "command_frame u InvocationActivityReady =
     Inr (make_event_frame ''agent.invocationActivity.ready'' empty_to_json)"
| "command_frame u (InvocationActivity rid channel_id) =
     Inr (make_event_frame ''agent.invocationActivity'' (call_to_json u rid channel_id))"
| "command_frame u (Heartbeat session_id) =
     Inr (make_event_frame ''gateway.heartbeat'' (heartbeat_to_json u session_id))"
| "command_frame u (HeartbeatAck session_id) =
     Inr (make_event_frame ''gateway.heartbeatAck'' (heartbeat_to_json u session_id))"
| "command_frame u (RuntimeConfigChanged ids) =
     Inr (make_event_frame ''runtime.config.changed'' (config_to_json u ids))"
| "command_frame u RuntimeMonitoringReady =
     Inr (make_event_frame ''runtime.monitoring.ready'' empty_to_json)"
| "command_frame u RuntimeHostMetricsReady =
     Inr (make_event_frame ''runtime.hostMetrics.ready'' empty_to_json)"
| "command_frame u (RuntimeTelemetry batch) =
     Inr (make_event_frame ''runtime.telemetry'' (runtime_batch_to_json u batch))"
| "command_frame u (FeedbackCommand p) =
     Inr (make_event_frame ''trace.applicationFeedback'' (feedback_payload_to_json u p))"

definition to_gateway_frame ::
    "text_codec \<Rightarrow> uuid_codec \<Rightarrow> gateway_command \<Rightarrow> (string, protocol_frame) result" where
  "to_gateway_frame c u command = and_then (validate_command c command) (\<lambda>_. command_frame u command)"

definition decode_required :: "(json \<Rightarrow> 'a option) \<Rightarrow> json option \<Rightarrow> string \<Rightarrow> (string, 'a) result" where
  "decode_required f v name =
     and_then (ok_or v (name @ '' is required'')) (\<lambda>x. ok_or (f x) (''invalid '' @ name))"

definition parse_uuid :: "uuid_codec \<Rightarrow> string \<Rightarrow> string \<Rightarrow> (string, uuid) result" where
  "parse_uuid u name v = ok_or (uuid_parse u v) (''invalid '' @ name)"

definition map_result :: "('a \<Rightarrow> 'b) \<Rightarrow> (string, 'a) result \<Rightarrow> (string, 'b) result" where
  "map_result f r = and_then r (\<lambda>x. Inr (f x))"

definition from_request_frame :: "uuid_codec \<Rightarrow> request_frame \<Rightarrow> (string, gateway_command) result" where
  "from_request_frame u r =
     (if request_method r = ''gateway.hello''
      then map_result Hello (decode_required (hello_of_json u) (request_params r) ''gateway.hello params'')
      else if request_method r = ''agent.invoke''
      then and_then (parse_uuid u ''request id'' (request_id r)) (\<lambda>rid.
        map_result (InvokeCommand rid)
          (decode_required (invoke_of_json u) (request_params r) ''agent.invoke params''))
      else Inl (''unsupported agent gateway request method: '' @ request_method r))"

definition from_response_frame :: "uuid_codec \<Rightarrow> response_frame \<Rightarrow> (string, gateway_command) result" where
  "from_response_frame u r =
     (if response_id r = ''gateway.hello''
      then if \<not> response_ok r
        then map_result (\<lambda>e. ErrorCommand None None (error_code e) (error_message e))
          (ok_or (response_error r) ''gateway.hello error is required'')
        else map_result Welcome
          (decode_required (welcome_of_json u) (response_payload r) ''gateway.hello payload'')
      else and_then (parse_uuid u ''request id'' (response_id r)) (\<lambda>rid.
        if response_ok r
        then map_result (ResultCommand rid)
          (decode_required result_of_json (response_payload r) ''agent.invoke payload'')
        else and_then (ok_or (response_error r) ''response error is required'') (\<lambda>e.
          map_result (\<lambda>channel_id. ErrorCommand (Some rid) (Some channel_id) (error_code e) (error_message e))
            (decode_required error_details_of_json (error_details e) ''agent.invoke error details''))))"

definition from_event_frame :: "uuid_codec \<Rightarrow> event_frame \<Rightarrow> (string, gateway_command) result" where
  "from_event_frame u e =
     (let event = frame_event e; payload = frame_payload e in
      if event = ''gateway.challenge''
      then map_result Challenge (decode_required challenge_of_json payload ''gateway.challenge payload'')
      else if event = ''gateway.pairingRequired''
      then map_result PairingRequired
        (decode_required (pairing_of_json u) payload ''gateway.pairingRequired payload'')
      else if event = ''agent.cancel''
      then map_result (\<lambda>(rid, channel_id). CancelCommand rid channel_id)
        (decode_required (call_of_json u) payload ''agent.cancel payload'')
      else if event = ''agent.invocationActivity.ready''
      then map_result (\<lambda>_. InvocationActivityReady)
        (decode_required empty_of_json payload ''agent.invocationActivity.ready payload'')
      else if event = ''agent.invocationActivity''
      then map_result (\<lambda>(rid, channel_id). InvocationActivity rid channel_id)
        (decode_required (call_of_json u) payload ''agent.invocationActivity payload'')
      else if event = ''gateway.heartbeat''
      then map_result Heartbeat
        (decode_required (heartbeat_of_json u) payload ''gateway.heartbeat payload'')
      else if event = ''gateway.heartbeatAck''
      then map_result HeartbeatAck
        (decode_required (heartbeat_of_json u) payload ''gateway.heartbeatAck payload'')
      else if event = ''gateway.error''
      then map_result (\<lambda>(code, message). ErrorCommand None None code message)
        (decode_required error_event_of_json payload ''gateway.error payload'')
      else if event = ''runtime.config.changed''
      then map_result RuntimeConfigChanged
        (decode_required (config_of_json u) payload ''runtime.config.changed payload'')
      else if event = ''runtime.monitoring.ready''
      then map_result (\<lambda>_. RuntimeMonitoringReady)
        (decode_required empty_of_json payload ''runtime.monitoring.ready payload'')
      else if event = ''runtime.hostMetrics.ready''
      then map_result (\<lambda>_. RuntimeHostMetricsReady)
        (decode_required empty_of_json payload ''runtime.hostMetrics.ready payload'')
      else if event = ''runtime.telemetry''
      then map_result RuntimeTelemetry
        (decode_required (runtime_batch_of_json u) payload ''runtime.telemetry payload'')
      else if event = ''trace.applicationFeedback''
      then map_result FeedbackCommand
        (decode_required (feedback_payload_of_json u) payload ''trace.applicationFeedback payload'')
      else Inl (''unsupported agent gateway event: '' @ event))"

fun frame_command :: "uuid_codec \<Rightarrow> protocol_frame \<Rightarrow> (string, gateway_command) result" where
  "frame_command u (RequestFrame r) = from_request_frame u r"
| "frame_command u (ResponseFrame r) = from_response_frame u r"
| "frame_command u (EventFrame e) = from_event_frame u e"

definition from_gateway_frame ::
    "text_codec \<Rightarrow> uuid_codec \<Rightarrow> protocol_frame \<Rightarrow> (string, gateway_command) result" where
  "from_gateway_frame c u frame =
     and_then (frame_command u frame) (\<lambda>command.
     and_then (validate_command c command) (\<lambda>_. Inr command))"

text \<open>
  \<open>gateway_frame::encode\<close> and \<open>decode\<close>: the texts of the runtime's protocol, with the word \<open>gateway\<close> in
  the errors.
\<close>

definition gateway_error :: "string \<Rightarrow> string" where
  "gateway_error = str_replace ''protocol frame'' ''gateway frame''"

definition gateway_encode :: "text_codec \<Rightarrow> protocol_frame \<Rightarrow> (string, string) result" where
  "gateway_encode c frame = map_sum gateway_error id (encode_protocol_frame c frame)"

definition gateway_decode :: "text_codec \<Rightarrow> string \<Rightarrow> (string, protocol_frame) result" where
  "gateway_decode c source = map_sum gateway_error id (decode_protocol_frame c source)"

section \<open>The signed text of a hello\<close>

text \<open>SHA-256 is the parameter \<open>digest\<close>.\<close>

definition gateway_signature_payload ::
    "(string \<Rightarrow> string) \<Rightarrow> string \<Rightarrow> string \<Rightarrow> u64 \<Rightarrow> u64 \<Rightarrow> string \<Rightarrow> string option \<Rightarrow> string option \<Rightarrow> string"
  where
  "gateway_signature_payload digest server_origin nonce challenge_time signed_at machine followup
      device_token =
     VERSION @ newline # server_origin @ newline # nonce @ newline #
     show_nat (unat challenge_time) @ newline # show_nat (unat signed_at) @ newline #
     machine @ newline # ''gateway'' @ newline #
     (case followup of None \<Rightarrow> [] | Some t \<Rightarrow> t) @ newline #
     hex (digest (case device_token of None \<Rightarrow> [] | Some t \<Rightarrow> t))"

section \<open>Round trips\<close>

lemma payload_roundtrips [serde]:
  "descriptor_of_json (descriptor_to_json a) = Some a"
  "machine_of_json (machine_to_json mp) = Some mp"
  "hello_auth_of_json (hello_auth_to_json ha) = Some ha"
  "welcome_auth_of_json (welcome_auth_to_json wa) = Some wa"
  "welcome_auth_to_json wa \<noteq> JNull"
  "challenge_of_json (challenge_to_json ch) = Some ch"
  "result_of_json (result_to_json r) = Some r"
  "error_event_of_json (error_event_to_json code message) = Some (code, message)"
  "empty_of_json empty_to_json = Some ()"
  by (simp_all add: descriptor_of_json_def descriptor_to_json_def machine_of_json_def
      machine_to_json_def hello_auth_of_json_def hello_auth_to_json_def welcome_auth_of_json_def
      welcome_auth_to_json_def challenge_of_json_def challenge_to_json_def result_of_json_def
      result_to_json_def error_event_of_json_def error_event_to_json_def empty_of_json_def
      empty_to_json_def serde)

lemma uuid_payload_roundtrips [serde]:
  assumes "uuid_texts u"
  shows "hello_of_json u (hello_to_json u h) = Some h"
    "welcome_of_json u (welcome_to_json u w) = Some w"
    "pairing_of_json u (pairing_to_json u pp) = Some pp"
    "invoke_of_json u (invoke_to_json u i) = Some i"
    "call_of_json u (call_to_json u rid channel_id) = Some (rid, channel_id)"
    "heartbeat_of_json u (heartbeat_to_json u sid) = Some sid"
    "config_of_json u (config_to_json u ids) = Some ids"
    "feedback_payload_of_json u (feedback_payload_to_json u fp) = Some fp"
  using assms
  by (simp_all add: hello_of_json_def hello_to_json_def welcome_of_json_def welcome_to_json_def
      pairing_of_json_def pairing_to_json_def invoke_of_json_def invoke_to_json_def
      call_of_json_def call_to_json_def heartbeat_of_json_def heartbeat_to_json_def
      config_of_json_def config_to_json_def feedback_payload_of_json_def
      feedback_payload_to_json_def serde)

lemma error_details_roundtrip [serde]:
  "error_details_of_json (JObject [(''channelId'', json_u64 n)]) = Some n"
  by (simp add: error_details_of_json_def struct_fields_def serde)

lemma uuid_not_hello: "uuid_texts u \<Longrightarrow> uuid_print u x \<noteq> ''gateway.hello''"
  by (auto simp: uuid_texts_def) (metis option.distinct(1))

lemma command_roundtrip:
  assumes "uuid_texts u" and "command_frame u command = Inr frame"
  shows "frame_command u frame = Inr command"
proof -
  have parse: "uuid_parse u (uuid_print u x) = Some x" for x
    using assms(1) by (simp add: uuid_texts_def)
  note frames = make_event_frame_def make_request_frame_def make_response_frame_def
    from_event_frame_def from_request_frame_def from_response_frame_def decode_required_def
    map_result_def parse_uuid_def parse
  show ?thesis
    using assms by (cases "(u, command)" rule: command_frame.cases)
      (auto simp: frames serde uuid_not_hello)
qed

section \<open>What an accepted command is\<close>

definition protocol_token :: "nat \<Rightarrow> nat \<Rightarrow> string \<Rightarrow> bool" where
  "protocol_token a b v \<longleftrightarrow> a \<le> length v \<and> length v \<le> b \<and> (\<forall>x \<in> set v. protocol_byte x)"

definition plain_text :: "nat \<Rightarrow> string \<Rightarrow> bool" where
  "plain_text b v \<longleftrightarrow> 1 \<le> length v \<and> length v \<le> b \<and> CHR 0x00 \<notin> set v"

definition json_within :: "text_codec \<Rightarrow> nat \<Rightarrow> json \<Rightarrow> bool" where
  "json_within c b v \<longleftrightarrow> (\<exists>t. print_json c v = Inr t \<and> length t \<le> b)"

fun valid_command :: "text_codec \<Rightarrow> gateway_command \<Rightarrow> bool" where
  "valid_command c (Challenge p) \<longleftrightarrow>
     protocol_token 32 256 (challenge_nonce p) \<and> challenge_timestamp p \<noteq> 0 \<and>
     plain_text 512 (challenge_audience p)"
| "valid_command c (Hello p) \<longleftrightarrow>
     hello_protocol p = ''vifu.agent-gateway/1'' \<and> length (hello_agents p) \<le> 256 \<and>
     (\<forall>a \<in> set (hello_agents p). protocol_identifier (descriptor_id a) \<and>
        plain_text 128 (descriptor_name a) \<and> json_within c 65536 (descriptor_metadata a)) \<and>
     json_within c 65536 (hello_metadata p) \<and> protocol_identifier (machine_id (hello_machine p)) \<and>
     protocol_token 32 256 (machine_public_key (hello_machine p)) \<and>
     protocol_token 32 256 (machine_signature (hello_machine p)) \<and>
     machine_signed_at (hello_machine p) \<noteq> 0 \<and>
     (\<forall>t. hello_device_token (hello_auth_of p) = Some t \<longrightarrow> protocol_token 48 256 t) \<and>
     (\<forall>t. hello_followup p = Some t \<longrightarrow> protocol_token 16 512 t)"
| "valid_command c (Welcome p) \<longleftrightarrow>
     protocol_identifier (welcome_gateway_id p) \<and>
     1000 \<le> welcome_heartbeat_interval_ms p \<and> welcome_heartbeat_interval_ms p \<le> 60000 \<and>
     (\<forall>a. welcome_auth_of p = Some a \<longrightarrow> protocol_token 48 256 (welcome_device_token a) \<and>
        welcome_generation a \<noteq> 0 \<and> welcome_expires_at a \<noteq> [] \<and> length (welcome_expires_at a) \<le> 64)"
| "valid_command c (PairingRequired p) \<longleftrightarrow>
     plain_text 2048 (pairing_auth_url p) \<and> protocol_token 3 64 (pairing_recommended_next_step p) \<and>
     250 \<le> pairing_retry_after_ms p \<and> pairing_retry_after_ms p \<le> 60000"
| "valid_command c (InvokeCommand rid p) \<longleftrightarrow>
     invoke_channel_id p \<noteq> 0 \<and> protocol_identifier (invoke_agent_id p) \<and>
     json_within c 65536 (invoke_binding p) \<and> json_within c 16777216 (invoke_input p) \<and>
     500 \<le> invoke_timeout_ms p \<and> invoke_timeout_ms p \<le> 120000"
| "valid_command c (ResultCommand rid p) \<longleftrightarrow>
     result_channel_id p \<noteq> 0 \<and> json_within c 16777216 (result_output p)"
| "valid_command c (ErrorCommand rid channel_id code message) \<longleftrightarrow>
     (rid = None \<longleftrightarrow> channel_id = None) \<and> channel_id \<noteq> Some 0 \<and>
     1 \<le> length code \<and> length code \<le> 64 \<and> (\<forall>b \<in> set code. code_byte b) \<and> plain_text 2048 message"
| "valid_command c (CancelCommand rid channel_id) \<longleftrightarrow> channel_id \<noteq> 0"
| "valid_command c (InvocationActivity rid channel_id) \<longleftrightarrow> channel_id \<noteq> 0"
| "valid_command c (RuntimeConfigChanged ids) \<longleftrightarrow> ids \<noteq> [] \<and> length ids \<le> 256 \<and> distinct ids"
| "valid_command c (RuntimeTelemetry batch) \<longleftrightarrow> validate_runtime_telemetry_batch c batch = Inr ()"
| "valid_command c (FeedbackCommand p) \<longleftrightarrow>
     fp_start_offset_ms p \<le> fp_end_offset_ms p \<and> fp_end_offset_ms p \<le> MAX_TRACE_DURATION_MS \<and>
     (\<forall>t. feedback_message (fp_feedback p) = Some t \<or> feedback_path (fp_feedback p) = Some t \<longrightarrow>
        plain_text 512 t)"
| "valid_command c _ \<longleftrightarrow> True"

lemma token_iff: "validate_token name v a b = Inr u \<longleftrightarrow> protocol_token a b v"
  by (simp add: validate_token_def protocol_token_def list_all_iff)

lemma plain_text_iff: "validate_text name v (Suc 0) b = Inr u \<longleftrightarrow> plain_text b v"
  by (auto simp: text_iff_protocol plain_text_def)

lemma json_iff: "validate_json c name v b = Inr u \<longleftrightarrow> json_within c b v"
  by (auto simp: validate_json_def json_within_def split: sum.splits)

lemma code_iff: "validate_code v = Inr u \<longleftrightarrow> 1 \<le> length v \<and> length v \<le> 64 \<and> (\<forall>b \<in> set v. code_byte b)"
  by (cases v) (auto simp: validate_code_def and_then_eq_Inr list_all_iff)

lemmas payload_iff = and_then_eq_Inr optional_check_iff for_each_eq_Inr identifier_iff token_iff
  plain_text_iff json_iff code_iff

lemma validate_iff: "validate_command c command = Inr () \<longleftrightarrow> valid_command c command"
proof (cases command)
  case (Hello p)
  then show ?thesis
    by (auto simp: validate_hello_def validate_agent_def validate_machine_def payload_iff VERSION_def
        MAX_GATEWAY_AGENTS_def)
next
  case (ErrorCommand rid channel_id code message)
  then show ?thesis
    by (auto simp: validate_error_def validate_channel_def payload_iff)
qed (auto simp: validate_challenge_def validate_welcome_def validate_pairing_def validate_invoke_def
    validate_channel_def validate_config_changed_def validate_feedback_def payload_iff
    MAX_INVOCATION_BODY_BYTES_def)

section \<open>Properties\<close>

text \<open>C22: A command that is sent arrives: its frame is encoded to a text from which the receiver decodes
  the same frame and accepts the same command, when the payload of the frame is nested at most 126
  deep and has no floats and no repeated keys. Assumed are a JSON parser that reads back such values
  (as \<open>serde_json\<close> does) and UUIDs that are parsed from their own text.\<close>

theorem gateway_command_arrives:
  assumes "uuid_texts u" and "reads_back c" and "frame_exact frame"
    and "to_gateway_frame c u command = Inr frame" and "gateway_encode c frame = Inr text"
  shows "gateway_decode c text = Inr frame \<and> from_gateway_frame c u frame = Inr command"
proof -
  have "encode_protocol_frame c frame = Inr text"
    using assms(5) by (cases "encode_protocol_frame c frame") (simp_all add: gateway_encode_def)
  with assms(2,3) have "decode_protocol_frame c text = Inr frame" by (rule encoded_frame_decodes)
  moreover have "from_gateway_frame c u frame = Inr command"
    using assms(4) command_roundtrip[OF assms(1)]
    by (auto simp: to_gateway_frame_def from_gateway_frame_def and_then_eq_Inr)
  ultimately show ?thesis by (simp add: gateway_decode_def)
qed

text \<open>Decimal texts of UUIDs, and a codec for one frame.\<close>

definition decimal_uuids :: uuid_codec where
  "decimal_uuids =
     \<lparr>uuid_print = (\<lambda>x. show_nat (unat x)),
      uuid_parse = (\<lambda>s. if s \<noteq> [] \<and> list_all is_ascii_digit s
        then Some (of_nat (read_nat s)) else None)\<rparr>"

lemma decimal_uuids_ok: "uuid_texts decimal_uuids"
proof -
  have "show_nat n \<noteq> []" for n by (subst show_nat.simps) simp
  moreover have "list_all is_ascii_digit (show_nat n)" for n
    using show_nat_digits by (auto simp: list_all_iff)
  ultimately show ?thesis
    by (simp add: uuid_texts_def decimal_uuids_def) (simp add: is_ascii_digit_def)
qed

definition heartbeat_frame :: protocol_frame where
  "heartbeat_frame = make_event_frame ''gateway.heartbeat'' (heartbeat_to_json decimal_uuids 7)"

definition heartbeat_text :: text_codec where
  "heartbeat_text =
     \<lparr>print_json = (\<lambda>v. if v = frame_to_json heartbeat_frame then Inr ''{7}'' else Inl ''unprintable''),
      parse_json = (\<lambda>t. if t = ''{7}'' then Some (frame_to_json heartbeat_frame) else None)\<rparr>"

theorem gateway_command_arrives_witness:
  "to_gateway_frame heartbeat_text decimal_uuids (Heartbeat 7) = Inr heartbeat_frame \<and>
   gateway_encode heartbeat_text heartbeat_frame = Inr ''{7}'' \<and>
   gateway_decode heartbeat_text ''{7}'' = Inr heartbeat_frame \<and>
   from_gateway_frame heartbeat_text decimal_uuids heartbeat_frame = Inr (Heartbeat 7)"
proof -
  have codec: "reads_back heartbeat_text"
    by (auto simp: reads_back_def heartbeat_text_def split: if_splits)
  have sent: "to_gateway_frame heartbeat_text decimal_uuids (Heartbeat 7) = Inr heartbeat_frame"
    by (simp add: to_gateway_frame_def heartbeat_frame_def)
  have enc: "gateway_encode heartbeat_text heartbeat_frame = Inr ''{7}''"
    by (simp add: gateway_encode_def encode_protocol_frame_def heartbeat_text_def)
      (simp add: heartbeat_frame_def make_event_frame_def validate_non_empty_def
        MAX_PROTOCOL_FRAME_BYTES_def)
  have "frame_exact heartbeat_frame"
    by (simp add: heartbeat_frame_def make_event_frame_def heartbeat_to_json_def json_object_def json_uuid_def)
  from gateway_command_arrives[OF decimal_uuids_ok codec this sent enc] sent enc show ?thesis by blast
qed

text \<open>C23: A receiver accepts a frame as a command exactly if the frame has the shape of the command and
  the command is valid: identifiers, tokens, texts and JSON within their bounds, channels that are not
  zero, both identifiers of a call or none, intervals and timeouts in their windows, and distinct
  deployments.\<close>

theorem accepted_commands_valid:
  "from_gateway_frame c u frame = Inr command \<longleftrightarrow>
     frame_command u frame = Inr command \<and> valid_command c command"
  by (auto simp: from_gateway_frame_def and_then_eq_Inr validate_iff)

text \<open>The text a gateway signs determines what it signs: the origin of the server, the challenge and
  its time, the time of the signature, the machine, the follow-up and, through its hash, the device
  token, provided that none of the texts has a line break.\<close>

theorem signature_payload_binds:
  assumes "\<forall>t \<in> {origin, nonce, machine, origin', nonce', machine'}. newline \<notin> set t"
    and "\<forall>t \<in> set_option followup \<union> set_option followup'. newline \<notin> set t \<and> t \<noteq> []"
    and "gateway_signature_payload digest origin nonce time signed_at machine followup token =
      gateway_signature_payload digest origin' nonce' time' signed_at' machine' followup' token'"
  shows "origin = origin' \<and> nonce = nonce' \<and> time = time' \<and> signed_at = signed_at' \<and> machine = machine' \<and>
    followup = followup' \<and>
    digest (case token of None \<Rightarrow> [] | Some t \<Rightarrow> t) = digest (case token' of None \<Rightarrow> [] | Some t \<Rightarrow> t)"
proof -
  let ?text = "\<lambda>v :: string option. case v of None \<Rightarrow> [] | Some t \<Rightarrow> t"
  have follow: "newline \<notin> set (?text followup)" "newline \<notin> set (?text followup')"
    using assms(2) by (auto split: option.splits)
  have "newline \<notin> set ''gateway''" by (simp add: newline_def)
  with assms(1,3) follow have eq: "origin = origin'" "nonce = nonce'" "unat time = unat time'"
    "unat signed_at = unat signed_at'" "machine = machine'" "?text followup = ?text followup'"
    "digest (?text token) = digest (?text token')"
    by (simp_all add: gateway_signature_payload_def line_eq show_nat_line hex_inj)
  have "followup = followup'"
    using eq(6) assms(2) by (auto split: option.splits)
  with eq show ?thesis by (simp add: word_unat_eq_iff)
qed

theorem signature_payload_binds_witness:
  "gateway_signature_payload rev ''https://a'' ''nonce1'' 1 2 ''machine'' None (Some ''t'') \<noteq>
   gateway_signature_payload rev ''https://a'' ''nonce2'' 1 2 ''machine'' None (Some ''t'')"
proof
  assume eq: "gateway_signature_payload rev ''https://a'' ''nonce1'' 1 2 ''machine'' None (Some ''t'') =
    gateway_signature_payload rev ''https://a'' ''nonce2'' 1 2 ''machine'' None (Some ''t'')"
  have "\<forall>t \<in> {''https://a'', ''nonce1'', ''machine'', ''https://a'', ''nonce2'', ''machine''}. newline \<notin> set t"
    by (simp add: newline_def)
  moreover have "\<forall>t \<in> set_option (None :: string option) \<union> set_option None. newline \<notin> set t \<and> t \<noteq> []"
    by simp
  ultimately show False
    using signature_payload_binds[OF _ _ eq] by simp
qed

end
