(* ===== verification/Sqlite_Store.thy ===== *)
theory Sqlite_Store
  imports Runtime_Store "HOL-Library.Multiset"
begin

text \<open>
  \<open>crates/vifu-runtime/src/sqlite_store.rs\<close>: the store of an embedded runtime in an SQLite database. The
  tables of the schema are association lists or lists of rows with the constraints of their primary
  keys, unique keys and foreign key, and every operation is the effect of its statements; rows hold
  JSON text (\<open>serde_json\<close> is a parameter) and signed 64-bit integers. Reading the system clock is a
  field of the state. Failures of the database itself (disk, locks) and the file system are not
  modelled.
\<close>

section \<open>Rows\<close>

record row_texts =
  manifest_codec :: codec
  state_text :: "json \<Rightarrow> (string, string) result"
  state_of_text :: "string \<Rightarrow> (string, json) result"
  binding_text :: "local_provider_binding \<Rightarrow> (string, string) result"
  binding_of_text :: "string \<Rightarrow> (string, local_provider_binding) result"
  trace_text :: "runtime_trace_record \<Rightarrow> (string, string) result"
  trace_of_text :: "string \<Rightarrow> (string, runtime_trace_record) result"
  conversion_error :: "nat \<Rightarrow> string \<Rightarrow> string \<Rightarrow> string"

record release_row =
  row_project :: string
  row_version :: int
  row_content_hash :: string
  row_manifest_json :: string
  row_installed_at_ms :: int

record trace_row =
  row_trace_id :: string
  row_trace_project :: string
  row_payload_json :: string
  row_created_at_ms :: int

record sqlite_store =
  sq_sessions :: "string \<times> string \<rightharpoonup> int \<times> string"
  sq_releases :: "release_row list"
  sq_active_releases :: "string \<rightharpoonup> int"
  sq_provider_bindings :: "((string \<times> string) \<times> string) list"
  sq_trace_outbox :: "trace_row list"
  sq_host_state :: "string \<times> string \<rightharpoonup> string \<times> int"
  sq_now :: u64

definition MAX_TRACE_OUTBOX_RECORDS :: nat where "MAX_TRACE_OUTBOX_RECORDS = 1000"
definition MAX_HOST_STATE_BYTES :: nat where "MAX_HOST_STATE_BYTES = 65536"

text \<open>An empty database, after \<open>from_connection\<close> created the tables.\<close>

definition sqlite_empty :: "u64 \<Rightarrow> sqlite_store" where
  "sqlite_empty now =
     \<lparr>sq_sessions = Map.empty, sq_releases = [], sq_active_releases = Map.empty,
      sq_provider_bindings = [], sq_trace_outbox = [], sq_host_state = Map.empty, sq_now = now\<rparr>"

text \<open>Errors as texts of the store; \<open>i64::try_from\<close> and \<open>u64::try_from\<close>.\<close>

definition store_text :: "(string, 'a) result \<Rightarrow> 'a rt" where
  "store_text r = map_sum Store id r"

definition try_i64 :: "u64 \<Rightarrow> (string, int) result" where
  "try_i64 n =
     (if uint n < 2 ^ 63 then Inr (uint n)
      else Inl ''out of range integral type conversion attempted'')"

definition try_u64 :: "int \<Rightarrow> (string, u64) result" where
  "try_u64 n =
     (if 0 \<le> n then Inr (word_of_int n)
      else Inl ''out of range integral type conversion attempted'')"

abbreviation i64_of_u64 :: "u64 \<Rightarrow> int rt" where "i64_of_u64 n \<equiv> store_text (try_i64 n)"
abbreviation u64_of_i64 :: "int \<Rightarrow> u64 rt" where "u64_of_i64 n \<equiv> store_text (try_u64 n)"

section \<open>Sessions\<close>

definition sqlite_load ::
    "row_texts \<Rightarrow> sqlite_store \<Rightarrow> string \<Rightarrow> string \<Rightarrow> runtime_snapshot option rt" where
  "sqlite_load x s project session =
     (case sq_sessions s (project, session) of
        None \<Rightarrow> Inr None
      | Some (revision, state_json) \<Rightarrow>
          and_then (u64_of_i64 revision) (\<lambda>revision.
          and_then (store_text (state_of_text x state_json)) (\<lambda>state.
          Inr (Some \<lparr>snapshot_revision = revision, snapshot_state = state\<rparr>))))"

definition sqlite_save ::
    "row_texts \<Rightarrow> sqlite_store \<Rightarrow> string \<Rightarrow> string \<Rightarrow> runtime_snapshot \<Rightarrow> sqlite_store rt" where
  "sqlite_save x s project session snapshot =
     and_then (store_text (state_text x (snapshot_state snapshot))) (\<lambda>state_json.
     and_then (i64_of_u64 (snapshot_revision snapshot)) (\<lambda>revision.
     Inr (s\<lparr>sq_sessions := (sq_sessions s)((project, session) \<mapsto> (revision, state_json))\<rparr>)))"

section \<open>Releases\<close>

definition release_from_row :: "row_texts \<Rightarrow> release_row \<Rightarrow> runtime_release rt" where
  "release_from_row x row =
     and_then (map_sum (\<lambda>e. Store (conversion_error x (length (row_manifest_json row)) ''Text'' e)) id
       (decode_manifest (manifest_codec x) (row_manifest_json row))) (\<lambda>manifest.
     and_then (map_sum (\<lambda>e. Store (conversion_error x 8 ''Integer'' e)) id
       (try_u64 (row_version row))) (\<lambda>version.
     Inr \<lparr>release_version = version, release_content_hash = row_content_hash row,
          release_manifest = manifest\<rparr>))"

definition sqlite_load_release ::
    "row_texts \<Rightarrow> sqlite_store \<Rightarrow> string \<Rightarrow> u64 \<Rightarrow> runtime_release option rt" where
  "sqlite_load_release x s project version =
     and_then (i64_of_u64 version) (\<lambda>version.
       case find (\<lambda>row. row_project row = project \<and> row_version row = version) (sq_releases s) of
         None \<Rightarrow> Inr None
       | Some row \<Rightarrow> and_then (release_from_row x row) (\<lambda>r. Inr (Some r)))"

text \<open>
  \<open>INSERT OR IGNORE\<close> skips a row that violates the primary key or the unique content of a project,
  and returns the number of rows inserted.
\<close>

definition insert_or_ignore_release :: "release_row \<Rightarrow> release_row list \<Rightarrow> nat \<times> release_row list" where
  "insert_or_ignore_release row rows =
     (if list_ex (\<lambda>old. row_project old = row_project row \<and>
           (row_version old = row_version row \<or> row_content_hash old = row_content_hash row)) rows
      then (0, rows) else (1, rows @ [row]))"

definition sqlite_save_release ::
    "row_texts \<Rightarrow> sqlite_store \<Rightarrow> runtime_release \<Rightarrow> sqlite_store rt" where
  "sqlite_save_release x s r =
     and_then (RuntimeRelease_validate (manifest_codec x) r) (\<lambda>_.
     and_then (i64_of_u64 (release_version r)) (\<lambda>version.
     and_then (store_text (encode_manifest (manifest_codec x) (release_manifest r))) (\<lambda>manifest_json.
     and_then (i64_of_u64 (sq_now s)) (\<lambda>installed_at_ms.
     let project = manifest_project_id (release_manifest r);
         (inserted, rows) = insert_or_ignore_release
           \<lparr>row_project = project, row_version = version, row_content_hash = release_content_hash r,
            row_manifest_json = manifest_json, row_installed_at_ms = installed_at_ms\<rparr> (sq_releases s);
         s' = s\<lparr>sq_releases := rows\<rparr>
     in if inserted = 0
        then and_then (sqlite_load_release x s' project (release_version r)) (\<lambda>existing.
          if existing \<noteq> Some r then Inl (Store ''runtime release versions are immutable'') else Inr s')
        else Inr s'))))"

fun collect_results :: "('e, 'a) result list \<Rightarrow> ('e, 'a list) result" where
  "collect_results [] = Inr []"
| "collect_results (r # rs) = and_then r (\<lambda>x. and_then (collect_results rs) (\<lambda>xs. Inr (x # xs)))"

definition sqlite_list_releases ::
    "row_texts \<Rightarrow> sqlite_store \<Rightarrow> string \<Rightarrow> runtime_release list rt" where
  "sqlite_list_releases x s project =
     collect_results (map (release_from_row x) (sort_key (\<lambda>row. - row_version row)
       (filter (\<lambda>row. row_project row = project) (sq_releases s))))"

definition sqlite_active_release :: "sqlite_store \<Rightarrow> string \<Rightarrow> u64 option rt" where
  "sqlite_active_release s project =
     (case sq_active_releases s project of
        None \<Rightarrow> Inr None
      | Some version \<Rightarrow> and_then (u64_of_i64 version) (\<lambda>v. Inr (Some v)))"

text \<open>The foreign key: an active version must be a row of the releases.\<close>

definition sqlite_set_active_release :: "sqlite_store \<Rightarrow> string \<Rightarrow> u64 \<Rightarrow> sqlite_store rt" where
  "sqlite_set_active_release s project version =
     and_then (i64_of_u64 version) (\<lambda>version.
       if list_ex (\<lambda>row. row_project row = project \<and> row_version row = version) (sq_releases s)
       then Inr (s\<lparr>sq_active_releases := (sq_active_releases s)(project \<mapsto> version)\<rparr>)
       else Inl (Store ''FOREIGN KEY constraint failed''))"

section \<open>Provider bindings\<close>

definition sqlite_save_local_provider_binding ::
    "row_texts \<Rightarrow> sqlite_store \<Rightarrow> string \<Rightarrow> local_provider_binding \<Rightarrow> sqlite_store rt" where
  "sqlite_save_local_provider_binding x s project b =
     and_then (store_text (binding_text x b)) (\<lambda>binding_json.
     Inr (s\<lparr>sq_provider_bindings :=
       AList.update (project, binding_provider_id b) binding_json (sq_provider_bindings s)\<rparr>))"

definition sqlite_local_provider_bindings ::
    "row_texts \<Rightarrow> sqlite_store \<Rightarrow> string \<Rightarrow> local_provider_binding list rt" where
  "sqlite_local_provider_bindings x s project =
     collect_results (map (\<lambda>row. store_text (binding_of_text x (snd row)))
       (sort_key (\<lambda>((_, provider_id), _). provider_id)
         (filter (\<lambda>((stored_project, _), _). stored_project = project) (sq_provider_bindings s))))"

section \<open>The trace outbox\<close>

text \<open>\<open>ORDER BY created_at_ms, trace_id\<close>; the delete keeps the last thousand rows of that order.\<close>

definition outbox_order :: "trace_row list \<Rightarrow> trace_row list" where
  "outbox_order rows = sort_key row_created_at_ms (sort_key row_trace_id rows)"

definition delete_oldest :: "nat \<Rightarrow> trace_row list \<Rightarrow> trace_row list" where
  "delete_oldest keep rows =
     (let doomed = map row_trace_id (drop keep (rev (outbox_order rows)))
      in filter (\<lambda>row. row_trace_id row \<notin> set doomed) rows)"

definition insert_or_ignore_trace :: "trace_row \<Rightarrow> trace_row list \<Rightarrow> trace_row list" where
  "insert_or_ignore_trace row rows =
     (if list_ex (\<lambda>old. row_trace_id old = row_trace_id row) rows then rows else rows @ [row])"

definition sqlite_enqueue_trace ::
    "row_texts \<Rightarrow> sqlite_store \<Rightarrow> runtime_trace_record \<Rightarrow> sqlite_store rt" where
  "sqlite_enqueue_trace x s t =
     and_then (store_text (trace_text x t)) (\<lambda>payload_json.
     and_then (i64_of_u64 (trace_created_at_ms t)) (\<lambda>created_at_ms.
     Inr (s\<lparr>sq_trace_outbox := delete_oldest MAX_TRACE_OUTBOX_RECORDS
       (insert_or_ignore_trace
         \<lparr>row_trace_id = trace_id t, row_trace_project = trace_project_id t,
          row_payload_json = payload_json, row_created_at_ms = created_at_ms\<rparr> (sq_trace_outbox s))\<rparr>)))"

definition sqlite_pending_traces ::
    "row_texts \<Rightarrow> sqlite_store \<Rightarrow> nat \<Rightarrow> runtime_trace_record list rt" where
  "sqlite_pending_traces x s limit =
     collect_results (map (\<lambda>row. store_text (trace_of_text x (row_payload_json row)))
       (take (min limit MAX_TRACE_OUTBOX_RECORDS) (outbox_order (sq_trace_outbox s))))"

definition sqlite_acknowledge_traces :: "sqlite_store \<Rightarrow> string list \<Rightarrow> sqlite_store rt" where
  "sqlite_acknowledge_traces s ids =
     Inr (s\<lparr>sq_trace_outbox :=
       fold (\<lambda>ident. filter (\<lambda>row. row_trace_id row \<noteq> ident)) ids (sq_trace_outbox s)\<rparr>)"

section \<open>Host state\<close>

definition validate_host_state_key :: "string \<Rightarrow> string \<Rightarrow> unit rt" where
  "validate_host_state_key v label =
     ensure (v \<noteq> [] \<and> length v \<le> 512 \<and> \<not> any_control v) (Store (''invalid host state '' @ label))"

definition load_host_state ::
    "row_texts \<Rightarrow> sqlite_store \<Rightarrow> string \<Rightarrow> string \<Rightarrow> json option rt" where
  "load_host_state x s namespace state_key =
     and_then (validate_host_state_key namespace ''namespace'') (\<lambda>_.
     and_then (validate_host_state_key state_key ''state key'') (\<lambda>_.
       case sq_host_state s (namespace, state_key) of
         None \<Rightarrow> Inr None
       | Some (value_json, _) \<Rightarrow>
           and_then (store_text (state_of_text x value_json)) (\<lambda>v. Inr (Some v))))"

definition save_host_state ::
    "row_texts \<Rightarrow> sqlite_store \<Rightarrow> string \<Rightarrow> string \<Rightarrow> json \<Rightarrow> sqlite_store rt" where
  "save_host_state x s namespace state_key v =
     and_then (validate_host_state_key namespace ''namespace'') (\<lambda>_.
     and_then (validate_host_state_key state_key ''state key'') (\<lambda>_.
     and_then (store_text (state_text x v)) (\<lambda>value_json.
     and_then (ensure (length value_json \<le> MAX_HOST_STATE_BYTES) (Store ''host state is too large'')) (\<lambda>_.
     and_then (i64_of_u64 (sq_now s)) (\<lambda>updated_at_ms.
     Inr (s\<lparr>sq_host_state :=
       (sq_host_state s)((namespace, state_key) \<mapsto> (value_json, updated_at_ms))\<rparr>))))))"

section \<open>The store interface\<close>

definition sqlite_store_ops :: "row_texts \<Rightarrow> sqlite_store store_ops" where
  "sqlite_store_ops x =
     \<lparr>so_load = sqlite_load x, so_save = sqlite_save x, so_save_release = sqlite_save_release x,
      so_load_release = sqlite_load_release x, so_list_releases = sqlite_list_releases x,
      so_active_release = sqlite_active_release, so_set_active_release = sqlite_set_active_release,
      so_save_local_provider_binding = sqlite_save_local_provider_binding x,
      so_local_provider_bindings = sqlite_local_provider_bindings x,
      so_enqueue_trace = sqlite_enqueue_trace x, so_pending_traces = sqlite_pending_traces x,
      so_acknowledge_traces = sqlite_acknowledge_traces\<rparr>"

lemma sqlite_store_ops_simps [simp]:
  "so_load (sqlite_store_ops x) = sqlite_load x"
  "so_save (sqlite_store_ops x) = sqlite_save x"
  "so_save_release (sqlite_store_ops x) = sqlite_save_release x"
  "so_load_release (sqlite_store_ops x) = sqlite_load_release x"
  "so_active_release (sqlite_store_ops x) = sqlite_active_release"
  "so_set_active_release (sqlite_store_ops x) = sqlite_set_active_release"
  "so_enqueue_trace (sqlite_store_ops x) = sqlite_enqueue_trace x"
  by (simp_all add: sqlite_store_ops_def)

text \<open>
  The texts of rows are read back as what was written, where \<open>serde_json\<close> does that: for values
  nested at most 127 deep, without floats. A stored call is exact if what it stores is such a value.
\<close>

definition rows_readable :: "row_texts \<Rightarrow> bool" where
  "rows_readable x \<longleftrightarrow>
     (\<forall>v t. exact_value JSON_NESTING v \<and> state_text x v = Inr t \<longrightarrow> state_of_text x t = Inr v) \<and>
     (\<forall>b t. binding_exact b \<and> binding_text x b = Inr t \<longrightarrow> binding_of_text x t = Inr b) \<and>
     (\<forall>r t. trace_text x r = Inr t \<longrightarrow> trace_of_text x t = Inr r) \<and>
     (\<forall>m t. manifest_exact m \<and> encode_manifest (manifest_codec x) m = Inr t \<longrightarrow>
        decode_manifest (manifest_codec x) t = Inr m)"

fun call_exact :: "store_call \<Rightarrow> bool" where
  "call_exact (SaveSession p i snap) \<longleftrightarrow> exact_value JSON_NESTING (snapshot_state snap)"
| "call_exact (SaveRelease r) \<longleftrightarrow> manifest_exact (release_manifest r)"
| "call_exact (SaveBinding p b) \<longleftrightarrow> binding_exact b"
| "call_exact call \<longleftrightarrow> True"

definition release_row_key :: "release_row \<Rightarrow> string \<times> int" where
  "release_row_key row = (row_project row, row_version row)"

text \<open>What the invariant says of a row of the releases.\<close>

definition release_row_ok :: "row_texts \<Rightarrow> release_row \<Rightarrow> bool" where
  "release_row_ok x row \<longleftrightarrow> 0 \<le> row_version row \<and> row_version row < 2 ^ 63 \<and>
     (\<exists>r. release_from_row x row = Inr r \<and> RuntimeRelease_validate (manifest_codec x) r = Inr () \<and>
        manifest_project_id (release_manifest r) = row_project row)"

definition sqlite_inv :: "row_texts \<Rightarrow> sqlite_store \<Rightarrow> bool" where
  "sqlite_inv x s \<longleftrightarrow> rows_readable x \<and>
     distinct (map release_row_key (sq_releases s)) \<and>
     distinct (map (\<lambda>row. (row_project row, row_content_hash row)) (sq_releases s)) \<and>
     (\<forall>row \<in> set (sq_releases s). release_row_ok x row) \<and>
     (\<forall>p v. sq_active_releases s p = Some v \<longrightarrow> (p, v) \<in> release_row_key ` set (sq_releases s)) \<and>
     distinct (map fst (sq_provider_bindings s)) \<and>
     distinct (map row_trace_id (sq_trace_outbox s)) \<and>
     length (sq_trace_outbox s) \<le> MAX_TRACE_OUTBOX_RECORDS"

section \<open>Numbers and rows\<close>

lemma store_text_iff [simp]: "store_text r = Inr v \<longleftrightarrow> r = Inr v"
  by (cases r) (simp_all add: store_text_def)

lemma store_text_Inr [simp]: "store_text (Inr v) = Inr v"
  by (simp add: store_text_def)

lemma try_i64_iff [simp]: "try_i64 n = Inr i \<longleftrightarrow> uint n < 2 ^ 63 \<and> i = uint n"
  by (auto simp: try_i64_def)

lemma try_i64_small [simp]: "uint n < 2 ^ 63 \<Longrightarrow> try_i64 n = Inr (uint n)"
  by simp

lemma try_u64_uint [simp]: "try_u64 (uint n) = Inr n"
  by (simp add: try_u64_def)

text \<open>The row of a release.\<close>

definition release_row_of :: "int \<Rightarrow> runtime_release \<Rightarrow> string \<Rightarrow> release_row" where
  "release_row_of now r manifest_json =
     \<lparr>row_project = manifest_project_id (release_manifest r), row_version = uint (release_version r),
      row_content_hash = release_content_hash r, row_manifest_json = manifest_json,
      row_installed_at_ms = now\<rparr>"

lemma release_row_readable:
  "rows_readable x \<Longrightarrow> manifest_exact (release_manifest r) \<Longrightarrow>
     encode_manifest (manifest_codec x) (release_manifest r) = Inr t \<Longrightarrow>
     release_from_row x (release_row_of now r t) = Inr r"
  by (simp add: release_from_row_def release_row_of_def rows_readable_def)

definition find_release :: "sqlite_store \<Rightarrow> string \<Rightarrow> int \<Rightarrow> release_row option" where
  "find_release s project version =
     find (\<lambda>row. row_project row = project \<and> row_version row = version) (sq_releases s)"

lemma sqlite_load_release_eq:
  "sqlite_load_release x s project version =
     and_then (i64_of_u64 version) (\<lambda>version.
       case find_release s project version of
         None \<Rightarrow> Inr None
       | Some row \<Rightarrow> and_then (release_from_row x row) (\<lambda>r. Inr (Some r)))"
  by (simp add: sqlite_load_release_def find_release_def)

lemma find_release_Some:
  "find_release s p v = Some row \<Longrightarrow> row \<in> set (sq_releases s) \<and> row_project row = p \<and> row_version row = v"
  by (auto simp: find_release_def find_Some_iff)

lemma find_release_None:
  "find_release s p v = None \<longleftrightarrow> (p, v) \<notin> release_row_key ` set (sq_releases s)"
  by (auto simp: find_release_def find_None_iff release_row_key_def)

lemma find_append: "find P (xs @ ys) = (case find P xs of None \<Rightarrow> find P ys | Some x \<Rightarrow> Some x)"
  by (induction xs) auto

lemma sqlite_load_release_row:
  assumes "sqlite_inv x s"
  shows "sqlite_load_release x s p v = Inr (Some r) \<longleftrightarrow>
    (\<exists>row. find_release s p (uint v) = Some row \<and> release_from_row x row = Inr r)"
proof -
  have "uint v < 2 ^ 63" if "find_release s p (uint v) = Some row" for row
    using assms find_release_Some[OF that] by (auto simp: sqlite_inv_def release_row_ok_def)
  then show ?thesis
    by (auto simp: sqlite_load_release_eq and_then_eq_Inr try_i64_iff split: option.splits)
qed

text \<open>A release clashes with a row of its project that has its version or its content.\<close>

definition release_clash :: "sqlite_store \<Rightarrow> runtime_release \<Rightarrow> bool" where
  "release_clash s r \<longleftrightarrow> (\<exists>row \<in> set (sq_releases s). row_project row = fst (release_key r) \<and>
     (row_version row = uint (release_version r) \<or> row_content_hash row = release_content_hash r))"

lemma insert_or_ignore_release_row:
  "insert_or_ignore_release (release_row_of now r t) (sq_releases s) =
     (if release_clash s r then (0, sq_releases s)
      else (1, sq_releases s @ [release_row_of now r t]))"
  by (simp add: insert_or_ignore_release_def release_clash_def release_row_of_def release_key_def
      list_ex_iff)

lemma sqlite_save_release_Inr:
  "sqlite_save_release x s r = Inr s' \<longleftrightarrow>
     RuntimeRelease_validate (manifest_codec x) r = Inr () \<and> uint (release_version r) < 2 ^ 63 \<and>
     uint (sq_now s) < 2 ^ 63 \<and>
     (\<exists>t. encode_manifest (manifest_codec x) (release_manifest r) = Inr t \<and>
       (if release_clash s r
        then s' = s \<and> sqlite_load_release x s (fst (release_key r)) (snd (release_key r)) = Inr (Some r)
        else s' = s\<lparr>sq_releases := sq_releases s @ [release_row_of (uint (sq_now s)) r t]\<rparr>))"
  unfolding sqlite_save_release_def Let_def
  by (cases "release_clash s r")
    (auto simp: and_then_eq_Inr insert_or_ignore_release_row [unfolded release_row_of_def]
      release_key_def release_row_of_def split: if_splits)

section \<open>The invariant\<close>

lemma sqlite_inv_empty: "rows_readable x \<Longrightarrow> sqlite_inv x (sqlite_empty now)"
  by (simp add: sqlite_inv_def sqlite_empty_def)

lemma sqlite_inv_save: "sqlite_inv x s \<Longrightarrow> sqlite_save x s p i snap = Inr s' \<Longrightarrow> sqlite_inv x s'"
  by (auto simp: sqlite_save_def sqlite_inv_def and_then_eq_Inr)

lemma release_row_of_ok:
  assumes "rows_readable x" and "manifest_exact (release_manifest r)"
    and "encode_manifest (manifest_codec x) (release_manifest r) = Inr t"
    and "RuntimeRelease_validate (manifest_codec x) r = Inr ()" and "uint (release_version r) < 2 ^ 63"
  shows "release_row_ok x (release_row_of now r t)"
  using release_row_readable[OF assms(1-3)] assms(4,5)
  by (auto simp: release_row_ok_def) (auto simp: release_row_of_def)

lemma sqlite_inv_save_release:
  assumes inv: "sqlite_inv x s" and exact: "manifest_exact (release_manifest r)"
    and save: "sqlite_save_release x s r = Inr s'"
  shows "sqlite_inv x s'"
proof (cases "release_clash s r")
  case True
  with save inv show ?thesis by (auto simp: sqlite_save_release_Inr)
next
  case False
  with save obtain t where s': "s' = s\<lparr>sq_releases := sq_releases s @ [release_row_of (uint (sq_now s)) r t]\<rparr>"
    and t: "encode_manifest (manifest_codec x) (release_manifest r) = Inr t"
    and valid: "RuntimeRelease_validate (manifest_codec x) r = Inr ()" "uint (release_version r) < 2 ^ 63"
    by (auto simp: sqlite_save_release_Inr)
  let ?row = "release_row_of (uint (sq_now s)) r t"
  have "release_row_ok x ?row" using inv exact t valid by (intro release_row_of_ok) (simp_all add: sqlite_inv_def)
  moreover have "release_row_key ?row \<notin> release_row_key ` set (sq_releases s)"
    "(row_project ?row, row_content_hash ?row) \<notin> (\<lambda>row. (row_project row, row_content_hash row)) ` set (sq_releases s)"
    using False by (auto simp: release_row_key_def release_clash_def release_row_of_def release_key_def)
  ultimately show ?thesis using inv by (auto simp: s' sqlite_inv_def)
qed

lemma sqlite_set_active_cases:
  assumes "sqlite_set_active_release s p v = Inr s'"
  shows "s' = s\<lparr>sq_active_releases := (sq_active_releases s)(p \<mapsto> uint v)\<rparr>"
    and "(p, uint v) \<in> release_row_key ` set (sq_releases s)"
  using assms
  by (auto simp: sqlite_set_active_release_def and_then_eq_Inr try_i64_iff list_ex_iff
      release_row_key_def split: if_splits)

lemma sqlite_inv_set_active:
  assumes "sqlite_inv x s" and "sqlite_set_active_release s p v = Inr s'"
  shows "sqlite_inv x s'"
  using assms(1) sqlite_set_active_cases[OF assms(2)] by (auto simp: sqlite_inv_def)

lemma set_outbox_order [simp]: "set (outbox_order rows) = set rows"
  by (simp add: outbox_order_def)

lemma length_outbox_order [simp]: "length (outbox_order rows) = length rows"
  by (simp add: outbox_order_def)

lemma distinct_outbox_order [simp]:
  "distinct (map row_trace_id (outbox_order rows)) = distinct (map row_trace_id rows)"
proof -
  have "mset (map row_trace_id (outbox_order rows)) = mset (map row_trace_id rows)"
    by (simp only: outbox_order_def mset_map mset_sort)
  then show ?thesis by (rule mset_eq_imp_distinct_iff)
qed

lemma delete_oldest_keeps:
  assumes "distinct (map row_trace_id rows)"
  shows "set (delete_oldest n rows) = set (take n (rev (outbox_order rows)))"
    and "distinct (map row_trace_id (delete_oldest n rows))"
    and "length (delete_oldest n rows) \<le> n"
proof -
  let ?sorted = "rev (outbox_order rows)"
  have dist: "distinct (map row_trace_id ?sorted)"
    using assms by (simp add: rev_map [symmetric])
  have split: "set rows = set (take n ?sorted) \<union> set (drop n ?sorted)"
    by (metis append_take_drop_id set_append set_outbox_order set_rev)
  have apart: "row_trace_id a \<noteq> row_trace_id b"
    if "a \<in> set (take n ?sorted)" "b \<in> set (drop n ?sorted)" for a b
  proof -
    have "distinct (map row_trace_id (take n ?sorted) @ map row_trace_id (drop n ?sorted))"
      using dist by (simp only: map_append [symmetric] append_take_drop_id)
    with that show ?thesis by (metis disjoint_iff distinct_append image_eqI list.set_map)
  qed
  show kept: "set (delete_oldest n rows) = set (take n ?sorted)"
    using split apart by (auto simp: delete_oldest_def)
  show dist': "distinct (map row_trace_id (delete_oldest n rows))"
    using assms by (simp add: delete_oldest_def distinct_map_filter)
  have "length (delete_oldest n rows) = card (set (delete_oldest n rows))"
    using dist' by (metis distinct_card distinct_map)
  also have "\<dots> \<le> length (take n ?sorted)" unfolding kept by (rule card_length)
  finally show "length (delete_oldest n rows) \<le> n" by simp
qed

definition trace_row_of :: "runtime_trace_record \<Rightarrow> string \<Rightarrow> trace_row" where
  "trace_row_of t payload_json =
     \<lparr>row_trace_id = trace_id t, row_trace_project = trace_project_id t,
      row_payload_json = payload_json, row_created_at_ms = uint (trace_created_at_ms t)\<rparr>"

lemma sqlite_enqueue_Inr:
  "sqlite_enqueue_trace x s t = Inr s' \<longleftrightarrow> uint (trace_created_at_ms t) < 2 ^ 63 \<and>
     (\<exists>payload_json. trace_text x t = Inr payload_json \<and>
       s' = s\<lparr>sq_trace_outbox := delete_oldest MAX_TRACE_OUTBOX_RECORDS
         (insert_or_ignore_trace (trace_row_of t payload_json) (sq_trace_outbox s))\<rparr>)"
  unfolding sqlite_enqueue_trace_def trace_row_of_def
  by (simp add: and_then_eq_Inr) blast

lemma distinct_insert_or_ignore:
  "distinct (map row_trace_id rows) \<Longrightarrow> distinct (map row_trace_id (insert_or_ignore_trace row rows))"
  by (auto simp: insert_or_ignore_trace_def list_ex_iff)

lemma sqlite_inv_enqueue_trace:
  assumes "sqlite_inv x s" and "sqlite_enqueue_trace x s t = Inr s'"
  shows "sqlite_inv x s'"
proof -
  from assms(2) obtain payload_json where s': "s' = s\<lparr>sq_trace_outbox :=
      delete_oldest MAX_TRACE_OUTBOX_RECORDS (insert_or_ignore_trace (trace_row_of t payload_json) (sq_trace_outbox s))\<rparr>"
    by (auto simp: sqlite_enqueue_Inr)
  have "distinct (map row_trace_id (insert_or_ignore_trace (trace_row_of t payload_json) (sq_trace_outbox s)))"
    using assms(1) by (intro distinct_insert_or_ignore) (simp add: sqlite_inv_def)
  from delete_oldest_keeps(2,3)[OF this] assms(1) show ?thesis
    by (simp add: s' sqlite_inv_def)
qed

lemma acknowledged_rows:
  "fold (\<lambda>ident. filter (\<lambda>row. row_trace_id row \<noteq> ident)) ids rows =
     filter (\<lambda>row. row_trace_id row \<notin> set ids) rows"
  by (induction ids arbitrary: rows) (auto intro: filter_cong)

lemma sqlite_inv_acknowledge:
  "sqlite_inv x s \<Longrightarrow> sqlite_acknowledge_traces s ids = Inr s' \<Longrightarrow> sqlite_inv x s'"
  by (auto simp: sqlite_acknowledge_traces_def acknowledged_rows sqlite_inv_def distinct_map_filter
      intro: le_trans [OF length_filter_le])

lemma sqlite_inv_save_binding:
  "sqlite_inv x s \<Longrightarrow> sqlite_save_local_provider_binding x s p b = Inr s' \<Longrightarrow> sqlite_inv x s'"
  by (auto simp: sqlite_save_local_provider_binding_def sqlite_inv_def and_then_eq_Inr distinct_keys_update)

section \<open>The database implements the interface\<close>

lemma find_release_append:
  "find_release (s\<lparr>sq_releases := sq_releases s @ [row]\<rparr>) p v =
     (case find_release s p v of
        None \<Rightarrow> if row_project row = p \<and> row_version row = v then Some row else None
      | Some old \<Rightarrow> Some old)"
  by (simp add: find_release_def find_append split: option.splits)

lemma load_save_release_row:
  assumes inv: "sqlite_inv x s" and exact: "manifest_exact (release_manifest r)"
    and save: "sqlite_save_release x s r = Inr s'"
  shows "sqlite_load_release x s' p v =
    (if (p, v) = release_key r then Inr (Some r) else sqlite_load_release x s p v)"
proof (cases "release_clash s r")
  case True
  with save show ?thesis by (cases "release_key r") (auto simp: sqlite_save_release_Inr)
next
  case False
  with save obtain t where s': "s' = s\<lparr>sq_releases := sq_releases s @ [release_row_of (uint (sq_now s)) r t]\<rparr>"
    and t: "encode_manifest (manifest_codec x) (release_manifest r) = Inr t"
    and small: "uint (release_version r) < 2 ^ 63"
    by (auto simp: sqlite_save_release_Inr)
  have read: "release_from_row x (release_row_of now r t) = Inr r" for now
    using inv exact t by (intro release_row_readable) (simp_all add: sqlite_inv_def)
  have new: "find_release s (fst (release_key r)) (uint (release_version r)) = None"
    using False by (auto simp: find_release_None release_row_key_def release_clash_def)
  have key: "row_project (release_row_of now r t) = p \<and> row_version (release_row_of now r t) = uint v \<longleftrightarrow>
      (p, v) = release_key r" for now
    by (auto simp: release_row_of_def release_key_def word_uint_eq_iff)
  show ?thesis
    unfolding s' sqlite_load_release_eq find_release_append
    using new read small key
    by (cases "(p, v) = release_key r") (auto simp: release_key_def and_then_def split: option.splits sum.splits)
qed

lemma sqlite_load_release_key:
  assumes inv: "sqlite_inv x s" and load: "sqlite_load_release x s p v = Inr (Some r)"
  shows "release_key r = (p, v) \<and> RuntimeRelease_validate (manifest_codec x) r = Inr ()"
proof -
  from load obtain row where row: "find_release s p (uint v) = Some row" "release_from_row x row = Inr r"
    by (auto simp: sqlite_load_release_row [OF inv])
  from find_release_Some [OF this(1)] inv have "release_row_ok x row" "row_project row = p"
    "row_version row = uint v" by (auto simp: sqlite_inv_def)
  with row(2) show ?thesis
    by (auto simp: release_row_ok_def release_key_def) (auto simp: release_from_row_def and_then_eq_Inr)
qed

lemma sqlite_loads_stored_key:
  assumes "sqlite_inv x s" and "(p, uint v) \<in> release_row_key ` set (sq_releases s)"
  shows "\<exists>r. sqlite_load_release x s p v = Inr (Some r)"
proof -
  obtain row where row: "find_release s p (uint v) = Some row"
    using assms(2) find_release_None [of s p "uint v"] by auto
  with find_release_Some [OF row] assms(1) show ?thesis
    by (auto simp: sqlite_load_release_row [OF assms(1)] sqlite_inv_def release_row_ok_def)
qed

interpretation sqlite: partial_release_store "sqlite_store_ops x" "sqlite_inv x"
  "\<lambda>snap. exact_value JSON_NESTING (snapshot_state snap)"
  "\<lambda>r. manifest_exact (release_manifest r)" "manifest_codec x"
proof (unfold_locales, goal_cases)
  case (1 s p i snap s')
  then show ?case by (simp add: sqlite_inv_save)
next
  case (2 s snap p i s')
  then show ?case
    by (auto simp: sqlite_save_def sqlite_load_def and_then_eq_Inr sqlite_inv_def rows_readable_def)
next
  case (3 s p i snap s' p' i')
  then show ?case by (auto simp: sqlite_save_def sqlite_load_def and_then_eq_Inr)
next
  case (4 s t s')
  then show ?case by (simp add: sqlite_inv_enqueue_trace)
next
  case (5 s t s')
  then show ?case by (auto simp: sqlite_enqueue_Inr sqlite_load_def fun_eq_iff)
next
  case (6 s r s')
  then show ?case by (simp add: sqlite_inv_save_release)
next
  case (7 s p v s')
  then show ?case by (simp add: sqlite_inv_set_active)
next
  case (8 s r s')
  then show ?case by (simp add: sqlite_save_release_Inr)
next
  case (9 s r s' r')
  then show ?case
    using load_save_release_row [of x s r s' "fst (release_key r)" "snd (release_key r)"]
    by (auto simp: sqlite_save_release_Inr release_clash_def release_key_def
        sqlite_load_release_row find_release_None release_row_key_def
        dest!: find_release_Some split: if_splits)
next
  case (10 s r s' p v)
  then show ?case by (simp add: load_save_release_row)
next
  case (11 s r s' p)
  then show ?case
    by (auto simp: sqlite_active_release_def sqlite_save_release_Inr split: if_splits)
next
  case (12 s p v r)
  then show ?case by (simp add: sqlite_load_release_key)
next
  case (13 s p v s' p')
  from sqlite_set_active_cases(1) [OF 13(2)[simplified]] show ?case
    by (simp add: sqlite_active_release_def)
next
  case (14 s p v s')
  from sqlite_set_active_cases(1) [OF 14(2)[simplified]] show ?case
    by (simp add: fun_eq_iff sqlite_load_release_def)
next
  case (15 s p v r)
  then show ?case
    by (auto simp: sqlite_set_active_release_def sqlite_load_release_row list_ex_iff and_then_eq_Inr
        dest!: find_release_Some simp: sqlite_inv_def release_row_ok_def)
next
  case (16 s p v)
  then obtain w where w: "sq_active_releases s p = Some w" and "u64_of_i64 w = Inr v"
    by (auto simp: sqlite_active_release_def and_then_eq_Inr split: option.splits)
  moreover from w 16 have key: "(p, w) \<in> release_row_key ` set (sq_releases s)"
    by (simp add: sqlite_inv_def)
  moreover from key 16 have "0 \<le> w" "w < 2 ^ 63"
    by (auto simp: sqlite_inv_def release_row_ok_def release_row_key_def)
  ultimately have "w = uint v"
    by (auto simp: try_u64_def uint_word_of_int_eq intro!: take_bit_int_eq_self [symmetric])
  with key 16 show ?case by (simp add: sqlite_loads_stored_key)
qed

section \<open>Histories and the in-memory store\<close>

fun sqlite_call_result :: "row_texts \<Rightarrow> store_call \<Rightarrow> sqlite_store \<Rightarrow> sqlite_store rt" where
  "sqlite_call_result x (SaveSession p i snap) s = sqlite_save x s p i snap"
| "sqlite_call_result x (SaveRelease r) s = sqlite_save_release x s r"
| "sqlite_call_result x (SetActiveRelease p v) s = sqlite_set_active_release s p v"
| "sqlite_call_result x (SaveBinding p b) s = sqlite_save_local_provider_binding x s p b"
| "sqlite_call_result x (EnqueueTrace t) s = sqlite_enqueue_trace x s t"
| "sqlite_call_result x (AcknowledgeTraces ids) s = sqlite_acknowledge_traces s ids"

text \<open>Calls with the clock each of them reads; a history ends at the first failure.\<close>

definition sqlite_history :: "row_texts \<Rightarrow> (u64 \<times> store_call) list \<Rightarrow> sqlite_store rt" where
  "sqlite_history x calls =
     fold_result (\<lambda>(now, call) s. sqlite_call_result x call (s\<lparr>sq_now := now\<rparr>)) calls (sqlite_empty 0)"

lemma sqlite_inv_now [simp]: "sqlite_inv x (s\<lparr>sq_now := now\<rparr>) = sqlite_inv x s"
  by (simp add: sqlite_inv_def)

lemma sqlite_call_inv:
  "sqlite_inv x s \<Longrightarrow> call_exact call \<Longrightarrow> sqlite_call_result x call s = Inr s' \<Longrightarrow> sqlite_inv x s'"
  by (cases call)
    (auto intro: sqlite_inv_save sqlite_inv_save_release sqlite_inv_set_active
      sqlite_inv_save_binding sqlite_inv_enqueue_trace sqlite_inv_acknowledge)

lemma sqlite_history_snoc:
  "sqlite_history x (calls @ [(now, call)]) = and_then (sqlite_history x calls)
     (\<lambda>s. sqlite_call_result x call (s\<lparr>sq_now := now\<rparr>))"
  by (simp add: sqlite_history_def fold_result_append) (simp add: and_then_def split: sum.splits)

lemma sqlite_history_inv:
  "rows_readable x \<Longrightarrow> \<forall>call \<in> snd ` set calls. call_exact call \<Longrightarrow> sqlite_history x calls = Inr s \<Longrightarrow>
     sqlite_inv x s"
proof (induction calls arbitrary: s rule: rev_induct)
  case Nil
  then show ?case by (auto simp: sqlite_history_def sqlite_inv_empty)
next
  case (snoc c calls)
  then show ?case
    by (cases c) (auto simp: sqlite_history_snoc and_then_eq_Inr
        intro: sqlite_call_inv [OF iffD2 [OF sqlite_inv_now]])
qed




















section \<open>Order of the outbox\<close>

definition outbox_before :: "trace_row \<Rightarrow> trace_row \<Rightarrow> bool" where
  "outbox_before a b \<longleftrightarrow> row_created_at_ms a < row_created_at_ms b \<or>
     row_created_at_ms a = row_created_at_ms b \<and> row_trace_id a \<le> row_trace_id b"

lemma insort_outbox:
  assumes "sorted_wrt outbox_before zs" and "\<forall>z \<in> set zs. row_trace_id y \<le> row_trace_id z"
  shows "sorted_wrt outbox_before (insort_key row_created_at_ms y zs)"
  using assms
proof (induction zs)
  case (Cons z zs)
  show ?case
  proof (cases "row_created_at_ms y \<le> row_created_at_ms z")
    case True
    with Cons.prems have "outbox_before y w" if "w \<in> set (z # zs)" for w
      using that by (force simp: outbox_before_def)
    with True Cons.prems(1) show ?thesis by simp
  next
    case False
    then have "outbox_before z y" by (simp add: outbox_before_def)
    with False Cons show ?thesis by (simp add: set_insort_key)
  qed
qed simp

lemma sort_outbox:
  assumes "sorted (map row_trace_id xs)"
  shows "sorted_wrt outbox_before (sort_key row_created_at_ms xs)"
  using assms
proof (induction xs)
  case (Cons x xs)
  then have "sorted_wrt outbox_before (sort_key row_created_at_ms xs)"
    and "\<forall>z \<in> set (sort_key row_created_at_ms xs). row_trace_id x \<le> row_trace_id z" by simp_all
  then show ?case by (simp add: insort_outbox)
qed simp

lemma outbox_order_sorted: "sorted_wrt outbox_before (outbox_order rows)"
  unfolding outbox_order_def by (rule sort_outbox) simp

lemma sorted_wrt_split:
  assumes "sorted_wrt P xs" and "a \<in> set (take n xs)" and "b \<in> set (drop n xs)"
  shows "P a b"
  using assms sorted_wrt_append [of P "take n xs" "drop n xs"] by simp

lemma delete_oldest_newest:
  assumes "distinct (map row_trace_id rows)" and "a \<in> set rows" and "a \<notin> set (delete_oldest n rows)"
    and "b \<in> set (delete_oldest n rows)"
  shows "outbox_before a b"
proof -
  let ?rev = "rev (outbox_order rows)"
  have kept: "b \<in> set (take n ?rev)" "a \<notin> set (take n ?rev)"
    using assms by (simp_all add: delete_oldest_keeps(1))
  have "set (take n ?rev) \<union> set (drop n ?rev) = set rows"
    by (metis append_take_drop_id set_append set_outbox_order set_rev)
  with kept(2) assms(2) have "a \<in> set (drop n ?rev)" by blast
  moreover have "sorted_wrt (\<lambda>x y. outbox_before y x) ?rev"
    using outbox_order_sorted by (simp add: sorted_wrt_rev)
  ultimately show ?thesis using sorted_wrt_split kept(1) by fastforce
qed

section \<open>Properties\<close>

definition sample_trace :: "string \<Rightarrow> u64 \<Rightarrow> runtime_trace_record" where
  "sample_trace ident created_at_ms =
     \<lparr>trace_id = ident, trace_project_id = ''demo'', trace_invocation_id = ''inv-1'',
      trace_endpoint = ''chat'', trace_agent = None, trace_provider = None, trace_capability = None,
      trace_status = ''completed'', trace_duration_ms = 5, trace_created_at_ms = created_at_ms\<rparr>"

definition sample_rows :: row_texts where
  "sample_rows =
     \<lparr>manifest_codec = sample_codec\<lparr>encode_manifest := (\<lambda>m. if m = sample_manifest then Inr ''demo'' else Inl ''too large'')\<rparr>,
      state_text = (\<lambda>v. if v = JNull then Inr ''null'' else Inl ''too large''),
      state_of_text = (\<lambda>t. Inr JNull),
      binding_text = (\<lambda>b. Inl ''too large''), binding_of_text = (\<lambda>t. Inl ''syntax''),
      trace_text = (\<lambda>r. if r = sample_trace ''t'' 10 then Inr ''trace'' else Inl ''too large''),
      trace_of_text = (\<lambda>t. Inr (sample_trace ''t'' 10)),
      conversion_error = (\<lambda>n kind e. kind @ e)\<rparr>"

lemma sample_rows_readable: "rows_readable sample_rows"
  by (auto simp: rows_readable_def sample_rows_def sample_codec_def split: if_splits)

lemma sample_manifest_exact: "manifest_exact sample_manifest"
  by (simp add: manifest_exact_def sample_manifest_def)

lemma sample_rows_encode:
  "encode_manifest (manifest_codec sample_rows) sample_manifest = Inr ''demo''"
  "RuntimeManifest_to_json (manifest_codec sample_rows) sample_manifest = Inr ''demo''"
proof -
  show enc: "encode_manifest (manifest_codec sample_rows) sample_manifest = Inr ''demo''"
    by (simp add: sample_rows_def)
  have "encode_manifest sample_codec sample_manifest = Inr ''demo''"
    by (simp add: sample_codec_def sample_manifest_def)
  with sample_manifest_valid enc have "valid_manifest (manifest_codec sample_rows) sample_manifest"
    by (simp add: valid_manifest_def)
  with enc show "RuntimeManifest_to_json (manifest_codec sample_rows) sample_manifest = Inr ''demo''"
    by (simp add: RuntimeManifest_to_json_iff)
qed

lemma sample_rows_release:
  assumes "v \<noteq> 0"
  shows "RuntimeRelease_validate (manifest_codec sample_rows) (sample_release\<lparr>release_version := v\<rparr>) = Inr ()"
proof -
  have "content_hash (manifest_codec sample_rows) sample_manifest = Inr ''sha256:6465''"
    using sample_digest by (simp add: content_hash_def sample_rows_encode)
      (simp add: sample_rows_def sample_codec_def)
  moreover have "valid_manifest (manifest_codec sample_rows) sample_manifest"
    using sample_rows_encode(2) by (simp add: RuntimeManifest_to_json_iff)
  ultimately show ?thesis using assms
    by (simp add: RuntimeRelease_validate_iff) (simp add: sample_release_def)
qed

lemma sample_rows_save:
  assumes "uint (sq_now s) < 2 ^ 63" and "\<not> release_clash s sample_release"
  shows "sqlite_save_release sample_rows s sample_release = Inr (s\<lparr>sq_releases := sq_releases s @
    [release_row_of (uint (sq_now s)) sample_release ''demo'']\<rparr>)"
proof -
  have "RuntimeRelease_validate (manifest_codec sample_rows) sample_release = Inr ()"
    using sample_rows_release [of 1] by (simp add: sample_release_def)
  then show ?thesis
    using assms sample_rows_encode(1) by (simp add: sqlite_save_release_Inr) (simp add: sample_release_def)
qed



text \<open>
  The limit is one of the reader only: a state nested deeper is saved, with success, over the state
  that was there, and from then on the session cannot be loaded; the in-memory store returns it.
\<close>

definition refuses_deep_states :: "row_texts \<Rightarrow> bool" where
  "refuses_deep_states x \<longleftrightarrow> (\<forall>n t. JSON_NESTING < n \<and> state_text x (nested_arrays n) = Inr t \<longrightarrow>
     state_of_text x t = Inl ''recursion limit exceeded'')"

theorem deep_state_unreadable:
  assumes "refuses_deep_states x" and "127 < n" and "state_text x (nested_arrays n) = Inr t"
    and "uint revision < 2 ^ 63"
  shows "\<exists>s'. sqlite_save x s p i \<lparr>snapshot_revision = revision, snapshot_state = nested_arrays n\<rparr> = Inr s' \<and>
    sqlite_load x s' p i = Inl (Store ''recursion limit exceeded'') \<and>
    (\<exists>m'. memory_save m p i \<lparr>snapshot_revision = revision, snapshot_state = nested_arrays n\<rparr> = Inr m' \<and>
      memory_load m' p i = Inr (Some \<lparr>snapshot_revision = revision, snapshot_state = nested_arrays n\<rparr>))"
  using assms
  by (simp add: refuses_deep_states_def JSON_NESTING_def sqlite_save_def sqlite_load_def memory_save_def
      memory_load_def store_text_def)

text \<open>in the database, unlike in memory, a project has no two releases of the same content:
  publishing the content of a stored release again under a new version is refused as a change of
  an immutable version, although that version does not exist.
\<close>

theorem same_content_refused:
  assumes "sqlite_inv x s" and "sqlite_load_release x s p v = Inr (Some r)"
    and "w \<noteq> 0" and "uint w < 2 ^ 63" and "uint (sq_now s) < 2 ^ 63"
    and "sqlite_load_release x s p w = Inr None"
    and "encode_manifest (manifest_codec x) (release_manifest r) = Inr t"
  shows "sqlite_save_release x s (r\<lparr>release_version := w\<rparr>) =
    Inl (Store ''runtime release versions are immutable'')"
proof -
  let ?r = "r\<lparr>release_version := w\<rparr>"
  from sqlite_load_release_key [OF assms(1,2)] have key: "release_key r = (p, v)"
    and valid: "RuntimeRelease_validate (manifest_codec x) r = Inr ()" by simp_all
  then have valid': "RuntimeRelease_validate (manifest_codec x) ?r = Inr ()"
    using assms(3) by (simp add: RuntimeRelease_validate_iff)
  from assms(2) obtain row where "find_release s p (uint v) = Some row"
    and "release_from_row x row = Inr r"
    by (auto simp: sqlite_load_release_row [OF assms(1)])
  then have "row \<in> set (sq_releases s)" "row_project row = p"
    "row_content_hash row = release_content_hash r"
    by (auto dest: find_release_Some simp: release_from_row_def and_then_eq_Inr)
  then have "insert_or_ignore_release \<lparr>row_project = p, row_version = uint w,
      row_content_hash = release_content_hash r, row_manifest_json = t,
      row_installed_at_ms = uint (sq_now s)\<rparr> (sq_releases s) = (0, sq_releases s)"
    by (auto simp: insert_or_ignore_release_def list_ex_iff)
  then show ?thesis
    using assms(4-7) valid' key
    by (simp add: sqlite_save_release_def Let_def release_key_def)
qed

theorem same_content_refused_witness:
  "\<exists>s. sqlite_save_release sample_rows (sqlite_empty 5) sample_release = Inr s \<and>
     sqlite_save_release sample_rows s (sample_release\<lparr>release_version := 2\<rparr>) =
       Inl (Store ''runtime release versions are immutable'') \<and>
     RuntimeRelease_validate (manifest_codec sample_rows) (sample_release\<lparr>release_version := 2\<rparr>) = Inr ()"
proof -
  let ?row = "release_row_of 5 sample_release ''demo''"
  let ?s = "(sqlite_empty 5)\<lparr>sq_releases := [?row]\<rparr>"
  have save: "sqlite_save_release sample_rows (sqlite_empty 5) sample_release = Inr ?s"
    using sample_rows_save [of "sqlite_empty 5"] by (simp add: sqlite_empty_def release_clash_def)
  have exact: "manifest_exact (release_manifest sample_release)"
    using sample_manifest_exact by (simp add: sample_release_def)
  note inv = sqlite_inv_save_release [OF sqlite_inv_empty [OF sample_rows_readable] exact save]
  have "release_from_row sample_rows ?row = Inr sample_release"
    using sample_rows_encode(1)
    by (intro release_row_readable [OF sample_rows_readable exact]) (simp add: sample_release_def)
  then have load: "sqlite_load_release sample_rows ?s ''demo'' 1 = Inr (Some sample_release)"
    by (simp add: sqlite_load_release_def)
      (simp add: release_row_of_def sample_release_def sample_manifest_def)
  have none: "sqlite_load_release sample_rows ?s ''demo'' 2 = Inr None"
    by (simp add: sqlite_load_release_def)
      (simp add: release_row_of_def sample_release_def)
  have "encode_manifest (manifest_codec sample_rows) (release_manifest sample_release) = Inr ''demo''"
    using sample_rows_encode(1) by (simp add: sample_release_def)
  from same_content_refused [OF inv load _ _ _ none this] save sample_rows_release [of 2]
  show ?thesis by (simp add: sqlite_empty_def)
qed

text \<open>the trace outbox of the database holds at most 1000 rows, no trace twice, and keeps the newest:
  every row that queueing a trace drops, the queued one included, comes before every row it keeps, in the order
  of creation time and identifier in which the pending traces are read.
\<close>

theorem outbox_keeps_newest:
  assumes "rows_readable x" and "\<forall>call \<in> snd ` set calls. call_exact call"
    and "sqlite_history x calls = Inr s" and "sqlite_enqueue_trace x s t = Inr s'"
  shows "length (sq_trace_outbox s') \<le> 1000 \<and> distinct (map row_trace_id (sq_trace_outbox s')) \<and>
    sorted_wrt outbox_before (outbox_order (sq_trace_outbox s')) \<and>
    (\<forall>a. a \<in> set (sq_trace_outbox s) \<and> a \<notin> set (sq_trace_outbox s') \<longrightarrow>
      (\<forall>b \<in> set (sq_trace_outbox s'). outbox_before a b))"
proof -
  note inv = sqlite_history_inv [OF assms(1-3)]
  note inv' = sqlite_inv_enqueue_trace [OF inv assms(4)]
  from assms(4) obtain payload_json where s': "s' = s\<lparr>sq_trace_outbox :=
      delete_oldest MAX_TRACE_OUTBOX_RECORDS
        (insert_or_ignore_trace (trace_row_of t payload_json) (sq_trace_outbox s))\<rparr>"
    by (auto simp: sqlite_enqueue_Inr)
  let ?rows = "insert_or_ignore_trace (trace_row_of t payload_json) (sq_trace_outbox s)"
  have dist: "distinct (map row_trace_id ?rows)"
    using inv by (intro distinct_insert_or_ignore) (simp add: sqlite_inv_def)
  have sub: "set (sq_trace_outbox s) \<subseteq> set ?rows" by (auto simp: insert_or_ignore_trace_def)
  have "outbox_before a b" if "a \<in> set (sq_trace_outbox s)" "a \<notin> set (sq_trace_outbox s')"
    "b \<in> set (sq_trace_outbox s')" for a b
    using delete_oldest_newest [OF dist, of a MAX_TRACE_OUTBOX_RECORDS b] that sub by (auto simp: s')
  with inv' outbox_order_sorted [of "sq_trace_outbox s'"] show ?thesis
    by (auto simp: sqlite_inv_def MAX_TRACE_OUTBOX_RECORDS_def)
qed

theorem outbox_keeps_newest_witness:
  "\<exists>s'. sqlite_enqueue_trace sample_rows (sqlite_empty 0) (sample_trace ''t'' 10) = Inr s' \<and>
     length (sq_trace_outbox s') \<le> 1000"
proof -
  have run: "sqlite_history sample_rows [] = Inr (sqlite_empty 0)" by (simp add: sqlite_history_def)
  obtain s' where s': "sqlite_enqueue_trace sample_rows (sqlite_empty 0) (sample_trace ''t'' 10) = Inr s'"
    by (simp add: sqlite_enqueue_trace_def) (simp add: sample_rows_def sample_trace_def)
  have "\<forall>call \<in> snd ` set ([] :: (u64 \<times> store_call) list). call_exact call" by simp
  from outbox_keeps_newest [OF sample_rows_readable this run s'] s' show ?thesis by blast
qed

text \<open>saved host state, nested at most 127 deep and without floats, is read back under its namespace and key, every other entry is
  unchanged, and no stored value exceeds 64 KiB.
\<close>

theorem host_state_roundtrip:
  assumes "rows_readable x" and "exact_value JSON_NESTING v"
    and "save_host_state x s namespace state_key v = Inr s'"
  shows "load_host_state x s' namespace state_key = Inr (Some v) \<and>
    (\<forall>n k. (n, k) \<noteq> (namespace, state_key) \<longrightarrow> load_host_state x s' n k = load_host_state x s n k) \<and>
    (\<exists>value_json at. sq_host_state s' (namespace, state_key) = Some (value_json, at) \<and>
      length value_json \<le> 65536)"
  using assms
  by (auto simp: save_host_state_def load_host_state_def and_then_eq_Inr rows_readable_def
      MAX_HOST_STATE_BYTES_def split: option.splits)

theorem host_state_roundtrip_witness:
  "\<exists>s'. save_host_state sample_rows (sqlite_empty 7) ''gateway'' ''session'' JNull = Inr s' \<and>
     load_host_state sample_rows s' ''gateway'' ''session'' = Inr (Some JNull)"
proof -
  have keys: "\<not> any_control ''gateway''" "\<not> any_control ''session''" by code_simp+
  obtain s' where s': "save_host_state sample_rows (sqlite_empty 7) ''gateway'' ''session'' JNull = Inr s'"
    using keys by (simp add: save_host_state_def validate_host_state_key_def)
      (simp add: sample_rows_def sqlite_empty_def MAX_HOST_STATE_BYTES_def)
  have "exact_value JSON_NESTING JNull" by simp
  from host_state_roundtrip [OF sample_rows_readable this s'] s' show ?thesis by blast
qed

end
