(* ===== verification/Api_Error.thy ===== *)
theory Api_Error
  imports Json
begin

text \<open>
  \<open>crates/vifu-server/src/error.rs\<close>: the errors of the server and their HTTP responses. Of the errors
  of the database crate only the questions the code asks of them are kept.
\<close>

datatype sqlx_error =
    SqlxDatabase (unique_violation: bool) (foreign_key_violation: bool)
  | SqlxOther

datatype api_error =
    Unauthorized
  | Forbidden
  | Invalid string
  | NotFound
  | Conflict string
  | ModelRequired
  | AgentAccessDenied
  | EndpointAccessDenied
  | AgentGatewayCredentialRevoked
  | AgentGatewayDown
  | AgentDeploymentUnavailable
  | GatewayBackpressure
  | RequestTimeout
  | RuntimeNotPublished
  | RuntimeExtensionUnavailable
  | DeploymentAuthorityUnavailable
  | AgentGatewayError string
  | ProviderError string
  | Database sqlx_error
  | Migration
  | InternalError

type_synonym 'a api = "(api_error, 'a) result"

text \<open>\<open>Display\<close>.\<close>

fun ApiError_display :: "api_error \<Rightarrow> string" where
  "ApiError_display Unauthorized = ''authentication required''"
| "ApiError_display Forbidden = ''forbidden''"
| "ApiError_display (Invalid m) = m"
| "ApiError_display NotFound = ''resource not found''"
| "ApiError_display (Conflict m) = m"
| "ApiError_display ModelRequired = ''model is required''"
| "ApiError_display AgentAccessDenied = ''the requested agent is not available to this project key''"
| "ApiError_display EndpointAccessDenied = ''the API key does not permit this endpoint''"
| "ApiError_display AgentGatewayCredentialRevoked = ''the agent gateway credential was revoked''"
| "ApiError_display AgentGatewayDown = ''agent gateway is not available''"
| "ApiError_display AgentDeploymentUnavailable =
     ''the agent is not assigned to a deployment that allows remote invocation''"
| "ApiError_display GatewayBackpressure = ''agent gateway is busy''"
| "ApiError_display RequestTimeout = ''agent request timed out''"
| "ApiError_display RuntimeNotPublished = ''the project runtime has not been published''"
| "ApiError_display RuntimeExtensionUnavailable = ''the project runtime is temporarily unavailable''"
| "ApiError_display DeploymentAuthorityUnavailable = ''deployment authority is temporarily unavailable''"
| "ApiError_display (AgentGatewayError m) = m"
| "ApiError_display (ProviderError m) = m"
| "ApiError_display (Database e) = ''database request failed''"
| "ApiError_display Migration = ''migration failed''"
| "ApiError_display InternalError = ''internal server error''"

fun status_and_code :: "api_error \<Rightarrow> nat \<times> string" where
  "status_and_code Unauthorized = (401, ''UNAUTHORIZED'')"
| "status_and_code Forbidden = (403, ''FORBIDDEN'')"
| "status_and_code (Invalid m) = (400, ''INVALID_REQUEST'')"
| "status_and_code NotFound = (404, ''NOT_FOUND'')"
| "status_and_code (Conflict m) = (409, ''CONFLICT'')"
| "status_and_code ModelRequired = (400, ''model_required'')"
| "status_and_code AgentAccessDenied = (403, ''agent_access_denied'')"
| "status_and_code EndpointAccessDenied = (403, ''endpoint_access_denied'')"
| "status_and_code AgentGatewayCredentialRevoked = (409, ''gateway_credential_revoked'')"
| "status_and_code AgentGatewayDown = (503, ''AGENT_GATEWAY_UNAVAILABLE'')"
| "status_and_code AgentDeploymentUnavailable = (503, ''AGENT_DEPLOYMENT_UNAVAILABLE'')"
| "status_and_code GatewayBackpressure = (429, ''BACKPRESSURE'')"
| "status_and_code RequestTimeout = (504, ''REQUEST_TIMEOUT'')"
| "status_and_code RuntimeNotPublished = (409, ''project_runtime_not_published'')"
| "status_and_code RuntimeExtensionUnavailable = (503, ''runtime_extension_unavailable'')"
| "status_and_code DeploymentAuthorityUnavailable = (503, ''deployment_authority_unavailable'')"
| "status_and_code (AgentGatewayError m) = (502, ''AGENT_GATEWAY_ERROR'')"
| "status_and_code (ProviderError m) = (502, ''PROVIDER_ERROR'')"
| "status_and_code (Database e) = (500, ''INTERNAL_ERROR'')"
| "status_and_code Migration = (500, ''INTERNAL_ERROR'')"
| "status_and_code InternalError = (500, ''INTERNAL_ERROR'')"

definition into_response :: "api_error \<Rightarrow> nat \<times> json" where
  "into_response e =
     (case status_and_code e of (status, code) \<Rightarrow>
        let message = (if status = 500 then ''Internal server error'' else ApiError_display e)
        in (status, JObject [(''error'',
             JObject [(''code'', JString code), (''message'', JString message)])]))"

definition map_database_error :: "sqlx_error \<Rightarrow> api_error" where
  "map_database_error e = (case e of
     SqlxDatabase unique foreign_key \<Rightarrow>
       if unique then Conflict ''resource already exists''
       else if foreign_key then Invalid ''referenced resource does not exist''
       else Database e
   | SqlxOther \<Rightarrow> Database e)"

lemma internal_errors_alike:
  "fst (status_and_code e) = 500 \<Longrightarrow> into_response e = into_response InternalError"
  by (cases e) (simp_all add: into_response_def)

end
