(* ===== verification/Server_Auth.thy ===== *)
theory Server_Auth
  imports Api_Error Serde
begin

text \<open>
  \<open>crates/vifu-server/src/auth.rs\<close>: who may do what on a server. The deployment administrator presents
  the admin key; other users exchange an access token of an external authority for a short-lived signed
  credential. The primitives (SHA-256, HMAC, base64, AES-GCM, JSON text) and the answer of the
  authority are parameters; time is in whole seconds since the epoch. A request is the text of its
  \<open>Authorization\<close> header, if it has one that is text.
\<close>

section \<open>Operations and identities\<close>

datatype operation = DeploymentRead | DeploymentWrite | ProjectRead | ProjectWrite

fun as_scope :: "operation \<Rightarrow> string" where
  "as_scope DeploymentRead = ''deployment:read''"
| "as_scope DeploymentWrite = ''deployment:write''"
| "as_scope ProjectRead = ''project:read''"
| "as_scope ProjectWrite = ''project:write''"

record acting_user =
  user_subject :: string
  user_issuer :: string
  user_operations :: "operation list"

datatype identity = DeploymentAdmin | ActingUser acting_user

definition operation_of_scope :: "string \<Rightarrow> operation option" where
  "operation_of_scope = map_of
     [(''deployment:read'', DeploymentRead), (''deployment:write'', DeploymentWrite),
      (''project:read'', ProjectRead), (''project:write'', ProjectWrite)]"

definition operation_from_scope :: "string \<Rightarrow> operation api" where
  "operation_from_scope scope = ok_or (operation_of_scope scope) Unauthorized"

definition operation_allowed :: "acting_user \<Rightarrow> operation \<Rightarrow> bool" where
  "operation_allowed u operation \<longleftrightarrow>
     operation \<in> set (user_operations u) \<or>
     operation = DeploymentRead \<and> DeploymentWrite \<in> set (user_operations u) \<or>
     operation = ProjectRead \<and> ProjectWrite \<in> set (user_operations u)"

definition require_operation :: "identity \<Rightarrow> operation \<Rightarrow> unit api" where
  "require_operation identity operation = (case identity of
     DeploymentAdmin \<Rightarrow> Inr ()
   | ActingUser u \<Rightarrow> ensure (operation_allowed u operation) Forbidden)"

definition require_project_operation ::
    "identity \<Rightarrow> operation \<Rightarrow> string option \<Rightarrow> unit api" where
  "require_project_operation identity operation owner_user_id =
     and_then (require_operation identity operation) (\<lambda>_.
     case identity of
       DeploymentAdmin \<Rightarrow> Inr ()
     | ActingUser u \<Rightarrow> ensure (owner_user_id = Some (user_subject u)) Forbidden)"

section \<open>Primitives\<close>

record auth_crypto =
  sha256_digest :: "string \<Rightarrow> string"
  hmac_sign :: "string \<Rightarrow> string \<Rightarrow> string"
  base64url_encode :: "string \<Rightarrow> string"
  base64url_decode :: "string \<Rightarrow> string option"
  base64_encode :: "string \<Rightarrow> string"
  base64_decode :: "string \<Rightarrow> string option"
  aead_seal :: "string \<Rightarrow> string \<Rightarrow> string \<Rightarrow> string option"
  aead_open :: "string \<Rightarrow> string \<Rightarrow> string \<Rightarrow> string option"
  is_utf8 :: "string \<Rightarrow> bool"
  json_text :: text_codec

definition nul :: char where "nul = CHR 0x00"

definition checked_add :: "u64 \<Rightarrow> u64 \<Rightarrow> u64 option" where
  "checked_add a b = (if unat a + unat b < 2 ^ 64 then Some (a + b) else None)"

definition checked_mul :: "u64 \<Rightarrow> u64 \<Rightarrow> u64 option" where
  "checked_mul a b = (if unat a * unat b < 2 ^ 64 then Some (a * b) else None)"

text \<open>Both loops look at every byte, whatever differs first.\<close>

definition constant_time_eq :: "string \<Rightarrow> string \<Rightarrow> bool" where
  "constant_time_eq left right =
     (if length left \<noteq> length right then False
      else fold (\<lambda>(a, b) same. same \<and> a = b) (zip left right) True)"

definition is_secret_match :: "string \<Rightarrow> string \<Rightarrow> bool" where
  "is_secret_match actual expected = constant_time_eq actual expected"

definition is_hash_match :: "string \<Rightarrow> string \<Rightarrow> bool" where
  "is_hash_match actual expected = constant_time_eq actual expected"

definition hmac_verify :: "auth_crypto \<Rightarrow> string \<Rightarrow> string \<Rightarrow> string \<Rightarrow> bool" where
  "hmac_verify k key message tag \<longleftrightarrow> hmac_sign k key message = tag"

text \<open>\<open>str::split\<close> at a character.\<close>

fun split_at :: "char \<Rightarrow> string \<Rightarrow> string list" where
  "split_at d [] = [[]]"
| "split_at d (c # cs) =
     (if c = d then [] # split_at d cs
      else (case split_at d cs of [] \<Rightarrow> [[c]] | p # ps \<Rightarrow> (c # p) # ps))"

section \<open>Deployment credentials\<close>

definition DEPLOYMENT_CREDENTIAL_PREFIX :: string where "DEPLOYMENT_CREDENTIAL_PREFIX = ''vifu_dc1''"
definition DEPLOYMENT_CREDENTIAL_LIFETIME :: u64 where "DEPLOYMENT_CREDENTIAL_LIFETIME = 300"
definition DEPLOYMENT_CREDENTIAL_CLOCK_SKEW :: u64 where "DEPLOYMENT_CREDENTIAL_CLOCK_SKEW = 60"

record issued_credential =
  issued_text :: string
  issued_expires_at :: u64

record credential_issuer =
  issuer_deployment_id :: string
  issuer_signing_key :: string

record credential_payload =
  payload_version :: "8 word"
  payload_deployment_id :: string
  payload_subject :: string
  payload_issuer :: string
  payload_operations :: "string list"
  payload_issued_at :: u64
  payload_expires_at :: u64

definition credential_payload_to_json :: "credential_payload \<Rightarrow> json" where
  "credential_payload_to_json p = json_object
     [(''version'', Some (json_u64 (ucast (payload_version p)))),
      (''deploymentId'', Some (JString (payload_deployment_id p))),
      (''subject'', Some (JString (payload_subject p))),
      (''issuer'', Some (JString (payload_issuer p))),
      (''operations'', Some (json_list JString (payload_operations p))),
      (''issuedAt'', Some (json_u64 (payload_issued_at p))),
      (''expiresAt'', Some (json_u64 (payload_expires_at p)))]"

definition as_u8 :: "json \<Rightarrow> 8 word option" where
  "as_u8 v = Option.bind (as_u64 v) (\<lambda>n. if n \<le> 255 then Some (ucast n) else None)"

definition credential_payload_of_json :: "json \<Rightarrow> credential_payload option" where
  "credential_payload_of_json v =
     Option.bind (open_struct_fields [''version'', ''deploymentId'', ''subject'', ''issuer'',
       ''operations'', ''issuedAt'', ''expiresAt''] v) (\<lambda>f.
     Option.bind (required as_u8 (f ''version'')) (\<lambda>version.
     Option.bind (required as_string (f ''deploymentId'')) (\<lambda>deployment_id.
     Option.bind (required as_string (f ''subject'')) (\<lambda>subject.
     Option.bind (required as_string (f ''issuer'')) (\<lambda>issuer.
     Option.bind (required (as_list as_string) (f ''operations'')) (\<lambda>operations.
     Option.bind (required as_u64 (f ''issuedAt'')) (\<lambda>issued_at.
     Option.bind (required as_u64 (f ''expiresAt'')) (\<lambda>expires_at.
     Some \<lparr>payload_version = version, payload_deployment_id = deployment_id, payload_subject = subject,
        payload_issuer = issuer, payload_operations = operations, payload_issued_at = issued_at,
        payload_expires_at = expires_at\<rparr>))))))))"

definition DeploymentCredentialIssuer_new :: "auth_crypto \<Rightarrow> string \<Rightarrow> string \<Rightarrow> credential_issuer" where
  "DeploymentCredentialIssuer_new k admin_key deployment_id =
     \<lparr>issuer_deployment_id = deployment_id,
      issuer_signing_key = sha256_digest k
        (''vifu-deployment-credential-signing-key-v1'' @ [nul] @ admin_key)\<rparr>"

text \<open>Seconds since the epoch; a time before it is an error.\<close>

definition unix_seconds :: "int \<Rightarrow> u64 api" where
  "unix_seconds now = (if now < 0 then Inl InternalError else Inr (word_of_int now))"

definition signing_input :: "string \<Rightarrow> string" where
  "signing_input payload = DEPLOYMENT_CREDENTIAL_PREFIX @ ''.'' @ payload"

definition issue ::
    "auth_crypto \<Rightarrow> credential_issuer \<Rightarrow> identity \<Rightarrow> int \<Rightarrow> issued_credential api" where
  "issue k i identity now = (case identity of
     DeploymentAdmin \<Rightarrow> Inl Forbidden
   | ActingUser u \<Rightarrow>
       and_then (unix_seconds now) (\<lambda>issued_at.
       and_then (ok_or (checked_add issued_at DEPLOYMENT_CREDENTIAL_LIFETIME) InternalError) (\<lambda>expires_at.
       and_then (map_sum (\<lambda>_. InternalError) id (print_json (json_text k) (credential_payload_to_json
         \<lparr>payload_version = 1, payload_deployment_id = issuer_deployment_id i,
          payload_subject = user_subject u, payload_issuer = user_issuer u,
          payload_operations = map as_scope (user_operations u),
          payload_issued_at = issued_at, payload_expires_at = expires_at\<rparr>))) (\<lambda>bytes.
       let input = signing_input (base64url_encode k bytes);
           signature = base64url_encode k (hmac_sign k (issuer_signing_key i) input)
       in and_then (ok_or (checked_mul expires_at 1000) InternalError) (\<lambda>expires_at_ms.
          Inr \<lparr>issued_text = input @ ''.'' @ signature, issued_expires_at = expires_at_ms\<rparr>)))))"

definition validated_identity_value :: "string \<Rightarrow> string api" where
  "validated_identity_value v =
     (let v = trim v
      in if v = [] \<or> 512 < length v \<or> any_control v then Inl Unauthorized else Inr v)"

fun collect_operations :: "string list \<Rightarrow> operation list api" where
  "collect_operations [] = Inr []"
| "collect_operations (s # ss) =
     and_then (operation_from_scope s) (\<lambda>operation.
     and_then (collect_operations ss) (\<lambda>operations. Inr (operation # operations)))"

definition check_payload :: "credential_issuer \<Rightarrow> credential_payload \<Rightarrow> u64 \<Rightarrow> bool" where
  "check_payload i p now \<longleftrightarrow> \<not> (payload_version p \<noteq> 1 \<or>
     payload_deployment_id p \<noteq> issuer_deployment_id i \<or>
     saturating_add now DEPLOYMENT_CREDENTIAL_CLOCK_SKEW < payload_issued_at p \<or>
     payload_expires_at p \<le> now \<or>
     DEPLOYMENT_CREDENTIAL_LIFETIME < saturating_sub (payload_expires_at p) (payload_issued_at p))"

definition verify :: "auth_crypto \<Rightarrow> credential_issuer \<Rightarrow> string \<Rightarrow> int \<Rightarrow> identity api" where
  "verify k i credential now =
     (if 8192 < length credential then Inl Unauthorized
      else case split_at (CHR ''.'') credential of
        [scheme, payload, signature] \<Rightarrow>
          and_then (ensure (scheme = DEPLOYMENT_CREDENTIAL_PREFIX) Unauthorized) (\<lambda>_.
          and_then (ok_or (base64url_decode k signature) Unauthorized) (\<lambda>signature.
          and_then (ensure (hmac_verify k (issuer_signing_key i) (signing_input payload) signature)
            Unauthorized) (\<lambda>_.
          and_then (ok_or (base64url_decode k payload) Unauthorized) (\<lambda>bytes.
          and_then (ok_or (Option.bind (parse_json (json_text k) bytes) credential_payload_of_json)
            Unauthorized) (\<lambda>p.
          and_then (unix_seconds now) (\<lambda>now.
          and_then (ensure (check_payload i p now) Unauthorized) (\<lambda>_.
          and_then (validated_identity_value (payload_subject p)) (\<lambda>subject.
          and_then (validated_identity_value (payload_issuer p)) (\<lambda>issuer.
          and_then (collect_operations (payload_operations p)) (\<lambda>operations.
          let operations = remdups_adj (sort_key as_scope operations)
          in if operations = [] then Inl Unauthorized
             else Inr (ActingUser \<lparr>user_subject = subject, user_issuer = issuer,
               user_operations = operations\<rparr>)))))))))))
      | _ \<Rightarrow> Inl Unauthorized)"

section \<open>Access token authorities\<close>

record authorization_response =
  response_authorized :: bool
  response_subject :: "string option"
  response_issuer :: "string option"
  response_operations :: "string list"

definition authorization_of_json :: "json \<Rightarrow> authorization_response option" where
  "authorization_of_json v =
     Option.bind (open_struct_fields [''isAuthorized'', ''subject'', ''issuer'', ''allowedOperations''] v) (\<lambda>f.
     Option.bind (required as_bool (f ''isAuthorized'')) (\<lambda>is_authorized.
     Option.bind (optional as_string (f ''subject'')) (\<lambda>subject.
     Option.bind (optional as_string (f ''issuer'')) (\<lambda>issuer.
     Option.bind (defaulted [] (as_list as_string) (f ''allowedOperations'')) (\<lambda>operations.
     Some \<lparr>response_authorized = is_authorized, response_subject = subject, response_issuer = issuer,
        response_operations = operations\<rparr>)))))"

definition identity_value :: "string option \<Rightarrow> string option" where
  "identity_value v = (case map_option trim v of
     Some s \<Rightarrow> if s \<noteq> [] \<and> length s \<le> 512 \<and> \<not> any_control s then Some s else None
   | None \<Rightarrow> None)"

definition response_identity :: "authorization_response \<Rightarrow> identity api" where
  "response_identity r =
     (if \<not> response_authorized r then Inl Forbidden
      else and_then (ok_or (identity_value (response_subject r)) DeploymentAuthorityUnavailable) (\<lambda>subject.
        Inr (ActingUser
          \<lparr>user_subject = subject,
           user_issuer = (case identity_value (response_issuer r) of
             Some issuer \<Rightarrow> issuer | None \<Rightarrow> ''access-token-authority''),
           user_operations = List.map_filter operation_of_scope (response_operations r)\<rparr>)))"

text \<open>The request body, and what the answer of the authority (a status and a body, or none) means.\<close>

definition authorization_request :: "string \<Rightarrow> operation \<Rightarrow> json" where
  "authorization_request deployment_id operation = JObject
     [(''deploymentId'', JString deployment_id), (''action'', JString (as_scope operation))]"

definition http_is_authorized :: "auth_crypto \<Rightarrow> (nat \<times> string) option \<Rightarrow> identity api" where
  "http_is_authorized k reply = (case reply of
     None \<Rightarrow> Inl DeploymentAuthorityUnavailable
   | Some (status, body) \<Rightarrow>
       if status = 401 then Inl Unauthorized
       else if status = 403 then Inl Forbidden
       else if \<not> (200 \<le> status \<and> status < 300) then Inl DeploymentAuthorityUnavailable
       else and_then (ok_or (Option.bind (parse_json (json_text k) body) authorization_of_json)
           DeploymentAuthorityUnavailable) response_identity)"

section \<open>Authorization\<close>

text \<open>The authority: how it answers an access token and a request, or none.\<close>

record application_auth =
  auth_admin_key :: string
  auth_authority :: "(string \<times> (string \<Rightarrow> json \<Rightarrow> (nat \<times> string) option)) option"
  auth_issuer :: "credential_issuer option"

definition with_access_token_authority ::
    "auth_crypto \<Rightarrow> string \<Rightarrow> (string \<times> (string \<Rightarrow> json \<Rightarrow> (nat \<times> string) option)) option \<Rightarrow> application_auth" where
  "with_access_token_authority k admin_key authority =
     \<lparr>auth_admin_key = admin_key, auth_authority = authority,
      auth_issuer = map_option (\<lambda>(deployment_id, _). DeploymentCredentialIssuer_new k admin_key deployment_id)
        authority\<rparr>"

definition is_authorized :: "auth_crypto \<Rightarrow> application_auth \<Rightarrow> string \<Rightarrow> operation \<Rightarrow> identity api" where
  "is_authorized k a access_token operation = (case auth_authority a of
     None \<Rightarrow> Inl Forbidden
   | Some (deployment_id, ask) \<Rightarrow>
       http_is_authorized k (ask access_token (authorization_request deployment_id operation)))"

definition strip_prefix :: "string \<Rightarrow> string \<Rightarrow> string option" where
  "strip_prefix p s = (if prefix p s then Some (drop (length p) s) else None)"

definition authorization_token :: "string option \<Rightarrow> string \<Rightarrow> string option" where
  "authorization_token header p =
     Option.bind header (\<lambda>v.
     Option.bind (strip_prefix p v) (\<lambda>rest.
     let token = trim rest in if token = [] then None else Some token))"

definition bearer_token :: "string option \<Rightarrow> string option" where
  "bearer_token header = authorization_token header ''Bearer ''"

definition deployment_credential :: "string option \<Rightarrow> string option" where
  "deployment_credential header = (case authorization_token header ''Vifu '' of
     Some token \<Rightarrow> Some token | None \<Rightarrow> bearer_token header)"

definition authorize_token ::
    "auth_crypto \<Rightarrow> application_auth \<Rightarrow> int \<Rightarrow> string \<Rightarrow> operation \<Rightarrow> identity api" where
  "authorize_token k a now token operation =
     and_then (if is_secret_match token (auth_admin_key a) then Inr DeploymentAdmin
       else case auth_issuer a of
         Some i \<Rightarrow> verify k i token now
       | None \<Rightarrow> Inl Unauthorized) (\<lambda>identity.
     and_then (require_operation identity operation) (\<lambda>_. Inr identity))"

definition authorize ::
    "auth_crypto \<Rightarrow> application_auth \<Rightarrow> int \<Rightarrow> string option \<Rightarrow> operation \<Rightarrow> identity api" where
  "authorize k a now header operation =
     and_then (ok_or (deployment_credential header) Unauthorized) (\<lambda>token.
     authorize_token k a now token operation)"

definition authorize_project ::
    "auth_crypto \<Rightarrow> application_auth \<Rightarrow> int \<Rightarrow> string option \<Rightarrow> operation \<Rightarrow> string option \<Rightarrow> identity api" where
  "authorize_project k a now header operation owner_user_id =
     and_then (ok_or (deployment_credential header) Unauthorized) (\<lambda>token.
     and_then (authorize_token k a now token operation) (\<lambda>identity.
     and_then (require_project_operation identity operation owner_user_id) (\<lambda>_. Inr identity)))"

definition exchange_access_token ::
    "auth_crypto \<Rightarrow> application_auth \<Rightarrow> int \<Rightarrow> string \<Rightarrow> issued_credential api" where
  "exchange_access_token k a now access_token =
     and_then (ok_or (auth_issuer a) Forbidden) (\<lambda>i.
     and_then (is_authorized k a access_token ProjectRead) (\<lambda>identity.
     and_then (require_operation identity ProjectRead) (\<lambda>_.
     issue k i identity now)))"

definition require_admin :: "string option \<Rightarrow> string \<Rightarrow> unit api" where
  "require_admin header expected =
     and_then (ok_or (bearer_token header) Unauthorized) (\<lambda>token.
     ensure (is_secret_match token expected) Forbidden)"

section \<open>Hashes and secrets\<close>

definition hash_preimage :: "string \<Rightarrow> string \<Rightarrow> string \<Rightarrow> string" where
  "hash_preimage domain v pepper = domain @ [nul] @ pepper @ [nul] @ v"

definition hash_credential :: "auth_crypto \<Rightarrow> string \<Rightarrow> string \<Rightarrow> string \<Rightarrow> string" where
  "hash_credential k domain v pepper = sha256_digest k (hash_preimage domain v pepper)"

definition hash_api_key :: "auth_crypto \<Rightarrow> string \<Rightarrow> string \<Rightarrow> string" where
  "hash_api_key k = hash_credential k ''vifu-project-api-key-v1''"

definition hash_agent_gateway_credential :: "auth_crypto \<Rightarrow> string \<Rightarrow> string \<Rightarrow> string" where
  "hash_agent_gateway_credential k = hash_credential k ''vifu-agent-gateway-credential-v1''"

definition hash_agent_gateway_enrollment :: "auth_crypto \<Rightarrow> string \<Rightarrow> string \<Rightarrow> string" where
  "hash_agent_gateway_enrollment k = hash_credential k ''vifu-agent-gateway-enrollment-v1''"

definition hash_guest_claim_token :: "auth_crypto \<Rightarrow> string \<Rightarrow> string \<Rightarrow> string" where
  "hash_guest_claim_token k = hash_credential k ''vifu-guest-claim-v1''"

definition derive_guest_claim_token :: "auth_crypto \<Rightarrow> string \<Rightarrow> string \<Rightarrow> string" where
  "derive_guest_claim_token k gateway_credential pepper =
     ''vifu_gc_'' @ hex (hash_credential k ''vifu-guest-claim-token-v1'' gateway_credential pepper)"

definition derive_guest_project_key :: "auth_crypto \<Rightarrow> string \<Rightarrow> string \<Rightarrow> string" where
  "derive_guest_project_key k gateway_credential pepper =
     ''vifu_pk_'' @ hex (hash_credential k ''vifu-guest-project-key-v1'' gateway_credential pepper)"

definition provider_secret_key :: "auth_crypto \<Rightarrow> string \<Rightarrow> string" where
  "provider_secret_key k secret = sha256_digest k (''vifu-provider-secret-key-v1'' @ [nul] @ secret)"

text \<open>The nonce is what the system's random generator gave, twelve bytes, or its failure.\<close>

definition encrypt_secret_json ::
    "auth_crypto \<Rightarrow> string option \<Rightarrow> string \<Rightarrow> string \<Rightarrow> string api" where
  "encrypt_secret_json k random v secret =
     and_then (ok_or random InternalError) (\<lambda>nonce.
     and_then (ok_or (aead_seal k (provider_secret_key k secret) nonce v) InternalError) (\<lambda>payload.
     Inr (base64_encode k (nonce @ payload))))"

definition decrypt_secret_json :: "auth_crypto \<Rightarrow> string \<Rightarrow> string \<Rightarrow> string api" where
  "decrypt_secret_json k v secret =
     and_then (ok_or (base64_decode k v) (Invalid ''provider secret is invalid'')) (\<lambda>payload.
     if length payload \<le> 12 then Inl (Invalid ''provider secret is invalid'')
     else and_then (ok_or (aead_open k (provider_secret_key k secret) (take 12 payload) (drop 12 payload))
         (Invalid ''provider secret is invalid'')) (\<lambda>plaintext.
       if is_utf8 k plaintext then Inr plaintext else Inl (Invalid ''provider secret is invalid'')))"

section \<open>Comparing, splitting and trimming\<close>

lemma fold_same_bytes: "fold (\<lambda>(a, b) same. same \<and> a = b) zs v \<longleftrightarrow> v \<and> (\<forall>(a, b) \<in> set zs. a = b)"
  by (induction zs arbitrary: v) auto

lemma constant_time_eq_iff [simp]: "constant_time_eq a b \<longleftrightarrow> a = b"
  by (auto simp: constant_time_eq_def fold_same_bytes list_eq_iff_zip_eq)

lemma split_at_not_Nil [simp]: "split_at d s \<noteq> []"
  by (induction s) (auto split: list.splits)

lemma split_at_none [simp]: "d \<notin> set s \<Longrightarrow> split_at d s = [s]"
  by (induction s) auto

lemma split_at_append [simp]: "d \<notin> set a \<Longrightarrow> split_at d (a @ d # b) = a # split_at d b"
  by (induction a) auto

lemma split_at_parts: "p \<in> set (split_at d s) \<Longrightarrow> d \<notin> set p"
proof (induction s arbitrary: p)
  case (Cons c s)
  then show ?case by (cases "split_at d s") (auto split: if_splits)
qed simp

fun join_with :: "char \<Rightarrow> string list \<Rightarrow> string" where
  "join_with d [] = []"
| "join_with d [p] = p"
| "join_with d (p # q # ps) = p @ d # join_with d (q # ps)"

lemma join_split_at: "join_with d (split_at d s) = s"
proof (induction s)
  case (Cons c s)
  then show ?case by (cases "split_at d s"; cases "tl (split_at d s)") auto
qed simp

lemma split_at_three:
  "split_at d s = [x, y, z] \<longleftrightarrow>
     s = x @ d # y @ d # z \<and> d \<notin> set x \<and> d \<notin> set y \<and> d \<notin> set z"
proof
  assume split: "split_at d s = [x, y, z]"
  with join_split_at [of d s] split_at_parts [of _ d s]
  show "s = x @ d # y @ d # z \<and> d \<notin> set x \<and> d \<notin> set y \<and> d \<notin> set z" by auto
qed simp

text \<open>Groups of bytes that were split once are split the same way again.\<close>

lemma utf8_chars_prefix: "utf8_chars s = cs @ bs \<Longrightarrow> utf8_chars (concat cs) = cs"
proof (induction s arbitrary: cs rule: utf8_chars.induct)
  case (2 c s)
  let ?n = "utf8_len c - 1"
  show ?case
  proof (cases cs)
    case (Cons x rest)
    with 2(2) have x: "x = c # take ?n s" and rest: "utf8_chars (drop ?n s) = rest @ bs" by simp_all
    from 2(1) [OF rest] have IH: "utf8_chars (concat rest) = rest" .
    show ?thesis
    proof (cases "?n \<le> length s")
      case True
      with x Cons IH show ?thesis by simp
    next
      case False
      with rest have "rest = []" by simp
      with x Cons show ?thesis by simp
    qed
  qed simp
qed simp

lemma utf8_chars_suffix: "utf8_chars s = as @ cs \<Longrightarrow> utf8_chars (concat cs) = cs"
proof (induction as arbitrary: s)
  case Nil
  then show ?case by (metis append_Nil concat_utf8_chars)
next
  case (Cons a as)
  then show ?case by (cases s) auto
qed

lemma utf8_chars_middle:
  assumes "utf8_chars s = as @ cs @ bs"
  shows "utf8_chars (concat cs) = cs"
proof -
  from assms have "utf8_chars (concat (cs @ bs)) = cs @ bs" by (rule utf8_chars_suffix)
  then show ?thesis by (rule utf8_chars_prefix)
qed

definition trimmed_chars :: "string list \<Rightarrow> string list" where
  "trimmed_chars cs = rev (dropWhile is_whitespace (rev (dropWhile is_whitespace cs)))"

lemma trimmed_chars_middle: "\<exists>as bs. cs = as @ trimmed_chars cs @ bs"
proof -
  have "cs = takeWhile is_whitespace cs @ dropWhile is_whitespace cs" by simp
  moreover have "dropWhile is_whitespace cs =
      trimmed_chars cs @ rev (takeWhile is_whitespace (rev (dropWhile is_whitespace cs)))"
    unfolding trimmed_chars_def
    by (metis rev_append rev_rev_ident takeWhile_dropWhile_id)
  ultimately show ?thesis by metis
qed

lemma dropWhile_trimmed: "dropWhile P (rev (dropWhile P (rev (dropWhile P xs)))) = rev (dropWhile P (rev (dropWhile P xs)))"
proof (cases "dropWhile P xs")
  case (Cons y ys)
  then have "\<not> P y" by (metis hd_dropWhile list.distinct(1) list.sel(1))
  with Cons show ?thesis by (simp add: dropWhile_append)
next
  case Nil
  then show ?thesis by (simp only: rev.simps dropWhile.simps)
qed

lemma trimmed_chars_again [simp]: "trimmed_chars (trimmed_chars cs) = trimmed_chars cs"
proof -
  have "dropWhile is_whitespace (trimmed_chars cs) = trimmed_chars cs"
    unfolding trimmed_chars_def by (rule dropWhile_trimmed)
  then show ?thesis
    by (simp add: trimmed_chars_def [of "trimmed_chars cs"]) (simp add: trimmed_chars_def)
qed

lemma trim_trimmed [simp]: "trim (trim s) = trim s"
proof -
  obtain as bs where "utf8_chars s = as @ trimmed_chars (utf8_chars s) @ bs"
    using trimmed_chars_middle by blast
  then have "utf8_chars (concat (trimmed_chars (utf8_chars s))) = trimmed_chars (utf8_chars s)"
    by (rule utf8_chars_middle)
  then show ?thesis by (simp add: trim_def trimmed_chars_def [symmetric])
qed

section \<open>Scopes and payloads\<close>

lemma operation_of_scope_iff: "operation_of_scope s = Some p \<longleftrightarrow> s = as_scope p"
  by (cases p) (auto simp: operation_of_scope_def split: if_splits)

lemma operation_from_as_scope [simp]: "operation_from_scope (as_scope p) = Inr p"
  by (simp add: operation_from_scope_def operation_of_scope_iff)

lemma as_scope_inj [simp]: "as_scope p = as_scope q \<longleftrightarrow> p = q"
  by (cases p; cases q) simp_all

lemma collect_operations_iff: "collect_operations ss = Inr ps \<longleftrightarrow> ss = map as_scope ps"
  by (induction ss arbitrary: ps)
    (auto simp: and_then_eq_Inr operation_from_scope_def operation_of_scope_iff)

lemma unat_widened_byte: "unat (ucast (n :: 8 word) :: 64 word) = unat n"
proof -
  have "unat n < 2 ^ LENGTH(8)" by (rule unsigned_less)
  then show ?thesis by (simp add: unsigned_ucast_eq take_bit_nat_eq_self)
qed

lemma as_u8_json [serde]: "as_u8 (json_u64 (ucast n)) = Some n"
proof -
  have bound: "unat n < 2 ^ LENGTH(8)" by (rule unsigned_less)
  then have "(ucast n :: 64 word) \<le> 255" by (simp add: word_le_nat_alt unat_widened_byte)
  moreover have "(ucast (ucast n :: 64 word) :: 8 word) = n"
    using bound by (simp add: word_eq_iff_unsigned unsigned_ucast_eq take_bit_nat_eq_self take_bit_word_eq_self)
  ultimately show ?thesis by (simp add: as_u8_def as_u64_def json_u64_def)
qed

lemma as_list_strings [serde]: "as_list as_string (json_list JString xs) = Some xs"
  by (rule as_list_json) (simp add: as_string_def)

lemma credential_payload_json [serde]:
  "credential_payload_of_json (credential_payload_to_json p) = Some p"
  by (simp add: credential_payload_of_json_def credential_payload_to_json_def serde)

section \<open>Times and identities\<close>

lemma unix_seconds_iff:
  "unix_seconds now = Inr n \<longleftrightarrow> 0 \<le> now \<and> n = word_of_int now"
  by (auto simp: unix_seconds_def)

lemma unat_seconds: "0 \<le> now \<Longrightarrow> now < 2 ^ 63 \<Longrightarrow> unat (word_of_int now :: u64) = nat now"
  by (simp add: unat_eq_nat_uint uint_word_of_int_eq take_bit_int_eq_self)

lemma check_payload_iff:
  assumes "0 \<le> now" and "now < 2 ^ 63"
  shows "check_payload i p (word_of_int now) \<longleftrightarrow>
    payload_version p = 1 \<and> payload_deployment_id p = issuer_deployment_id i \<and>
    unat (payload_issued_at p) \<le> nat now + 60 \<and> nat now < unat (payload_expires_at p) \<and>
    unat (payload_expires_at p) \<le> unat (payload_issued_at p) + 300"
  using assms
  by (auto simp: check_payload_def word_less_nat_alt word_le_nat_alt not_less unat_saturating_add
      unat_saturating_sub unat_seconds DEPLOYMENT_CREDENTIAL_LIFETIME_def
      DEPLOYMENT_CREDENTIAL_CLOCK_SKEW_def)

definition plain_identity_value :: "string \<Rightarrow> bool" where
  "plain_identity_value v \<longleftrightarrow> trim v = v \<and> v \<noteq> [] \<and> length v \<le> 512 \<and> \<not> any_control v"

lemma validated_identity_value_iff:
  "validated_identity_value v = Inr w \<longleftrightarrow> w = trim v \<and> plain_identity_value w"
  by (auto simp: validated_identity_value_def plain_identity_value_def Let_def)

lemma identity_value_iff: "identity_value v = Some w \<longleftrightarrow> map_option trim v = Some w \<and> plain_identity_value w"
  by (auto simp: identity_value_def plain_identity_value_def split: option.splits if_splits)

lemma access_token_authority_plain: "plain_identity_value ''access-token-authority''"
  by code_simp

text \<open>The users an authority vouches for have plain names.\<close>

lemma authorized_user:
  assumes "is_authorized k a token operation = Inr identity"
  obtains u where "identity = ActingUser u" and "plain_identity_value (user_subject u)"
    and "plain_identity_value (user_issuer u)"
proof -
  from assms obtain r where r: "response_identity r = Inr identity"
    by (auto simp: is_authorized_def http_is_authorized_def and_then_eq_Inr
        split: option.splits prod.splits if_splits)
  then obtain subject where subject: "identity_value (response_subject r) = Some subject"
    and identity: "identity = ActingUser \<lparr>user_subject = subject,
      user_issuer = (case identity_value (response_issuer r) of
        Some issuer \<Rightarrow> issuer | None \<Rightarrow> ''access-token-authority''),
      user_operations = List.map_filter operation_of_scope (response_operations r)\<rparr>"
    by (auto simp: response_identity_def and_then_eq_Inr split: if_splits)
  have "plain_identity_value (case identity_value (response_issuer r) of
      Some issuer \<Rightarrow> issuer | None \<Rightarrow> ''access-token-authority'')"
    using access_token_authority_plain by (auto simp: identity_value_iff split: option.splits)
  with subject identity that show thesis by (simp add: identity_value_iff)
qed

section \<open>What a verified credential says\<close>

definition granted_operations :: "operation list \<Rightarrow> operation list" where
  "granted_operations operations = remdups_adj (sort_key as_scope operations)"

lemma set_granted_operations [simp]: "set (granted_operations operations) = set operations"
  by (simp add: granted_operations_def)

lemma granted_operations_Nil [simp]: "granted_operations operations = [] \<longleftrightarrow> operations = []"
  by (metis set_empty set_granted_operations)

text \<open>A payload that grants an identity at a time.\<close>

definition grants :: "credential_issuer \<Rightarrow> credential_payload \<Rightarrow> int \<Rightarrow> acting_user \<Rightarrow> bool" where
  "grants i p now u \<longleftrightarrow> 0 \<le> now \<and> check_payload i p (word_of_int now) \<and>
     user_subject u = trim (payload_subject p) \<and> plain_identity_value (user_subject u) \<and>
     user_issuer u = trim (payload_issuer p) \<and> plain_identity_value (user_issuer u) \<and>
     (\<exists>operations. payload_operations p = map as_scope operations \<and> operations \<noteq> [] \<and>
        user_operations u = granted_operations operations)"

text \<open>The parts of a signed credential.\<close>

definition signed_credential ::
    "auth_crypto \<Rightarrow> credential_issuer \<Rightarrow> string \<Rightarrow> credential_payload \<Rightarrow> bool" where
  "signed_credential k i token p \<longleftrightarrow> (\<exists>payload signature bytes v.
     token = signing_input payload @ ''.'' @ signature \<and>
     CHR ''.'' \<notin> set payload \<and> CHR ''.'' \<notin> set signature \<and>
     base64url_decode k signature = Some (hmac_sign k (issuer_signing_key i) (signing_input payload)) \<and>
     base64url_decode k payload = Some bytes \<and>
     parse_json (json_text k) bytes = Some v \<and> credential_payload_of_json v = Some p)"

lemma prefix_dot: "CHR ''.'' \<notin> set DEPLOYMENT_CREDENTIAL_PREFIX"
  by (simp add: DEPLOYMENT_CREDENTIAL_PREFIX_def)

lemma verify_iff:
  "verify k i credential now = Inr identity \<longleftrightarrow>
     length credential \<le> 8192 \<and>
     (\<exists>p u. signed_credential k i credential p \<and> grants i p now u \<and> identity = ActingUser u)"
    (is "?verified \<longleftrightarrow> ?spec")
proof
  assume ?verified
  then obtain payload signature where parts: "split_at (CHR ''.'') credential =
      [DEPLOYMENT_CREDENTIAL_PREFIX, payload, signature]" and len: "length credential \<le> 8192"
    by (auto simp: verify_def and_then_eq_Inr split: if_splits list.splits)
  with \<open>?verified\<close> obtain bytes p v subject issuer operations where
    sign: "base64url_decode k signature = Some (hmac_sign k (issuer_signing_key i) (signing_input payload))"
    and dec: "base64url_decode k payload = Some bytes"
      "parse_json (json_text k) bytes = Some v" "credential_payload_of_json v = Some p"
    and now: "0 \<le> now" "check_payload i p (word_of_int now)"
    and who: "validated_identity_value (payload_subject p) = Inr subject"
      "validated_identity_value (payload_issuer p) = Inr issuer"
    and ops: "collect_operations (payload_operations p) = Inr operations" "operations \<noteq> []"
    and identity: "identity = ActingUser \<lparr>user_subject = subject, user_issuer = issuer,
      user_operations = granted_operations operations\<rparr>"
    by (auto simp: verify_def and_then_eq_Inr unix_seconds_iff hmac_verify_def Let_def bind_eq_Some_conv
        granted_operations_def [symmetric] split: if_splits)
  have "signed_credential k i credential p"
    using parts sign dec
    by (auto simp: signed_credential_def signing_input_def split_at_three)
  moreover have "grants i p now \<lparr>user_subject = subject, user_issuer = issuer,
      user_operations = granted_operations operations\<rparr>"
    using now who ops by (auto simp: grants_def validated_identity_value_iff collect_operations_iff)
  ultimately show ?spec using len identity by blast
next
  assume ?spec
  then obtain p u where len: "length credential \<le> 8192" and signed: "signed_credential k i credential p"
    and grant: "grants i p now u" and identity: "identity = ActingUser u" by blast
  from signed obtain payload signature bytes v where
    "split_at (CHR ''.'') credential = [DEPLOYMENT_CREDENTIAL_PREFIX, payload, signature]"
    and "base64url_decode k signature = Some (hmac_sign k (issuer_signing_key i) (signing_input payload))"
    and "base64url_decode k payload = Some bytes"
    and "parse_json (json_text k) bytes = Some v" "credential_payload_of_json v = Some p"
    by (auto simp: signed_credential_def signing_input_def prefix_dot)
  moreover from grant obtain operations where "collect_operations (payload_operations p) = Inr operations"
    and "operations \<noteq> []" and "user_operations u = granted_operations operations"
    by (auto simp: grants_def collect_operations_iff)
  moreover from grant have "validated_identity_value (payload_subject p) = Inr (user_subject u)"
    "validated_identity_value (payload_issuer p) = Inr (user_issuer u)"
    "unix_seconds now = Inr (word_of_int now)" "check_payload i p (word_of_int now)"
    by (auto simp: grants_def validated_identity_value_iff unix_seconds_def)
  ultimately show ?verified
    using len identity
    by (simp add: verify_def hmac_verify_def granted_operations_def [symmetric] Let_def)
qed

section \<open>Properties\<close>

lemma map_sum_Inr_iff [simp]: "map_sum f id r = Inr x \<longleftrightarrow> r = Inr x"
  by (cases r) simp_all

lemma operation_allowed_granted [simp]:
  "operation_allowed (u\<lparr>user_operations := granted_operations (user_operations u)\<rparr>) operation =
     operation_allowed u operation"
  by (simp add: operation_allowed_def)

text \<open>What the code relies on: decoding undoes encoding, and encoded text has no dot.\<close>

definition lawful_crypto :: "auth_crypto \<Rightarrow> bool" where
  "lawful_crypto k \<longleftrightarrow>
     (\<forall>b. base64url_decode k (base64url_encode k b) = Some b \<and> CHR ''.'' \<notin> set (base64url_encode k b)) \<and>
     (\<forall>b. base64_decode k (base64_encode k b) = Some b) \<and>
     (\<forall>key nonce m c. aead_seal k key nonce m = Some c \<longrightarrow>
        aead_open k key nonce c = Some m \<and> length c = length m + 16) \<and>
     reads_back (json_text k)"

lemma credential_payload_exact: "json_exact JSON_NESTING (credential_payload_to_json p)"
  by (auto simp: credential_payload_to_json_def json_object_def json_list_def json_u64_def
      JSON_NESTING_def)

fun escape_dots :: "string \<Rightarrow> string" where
  "escape_dots [] = []"
| "escape_dots (c # cs) =
     (if c = CHR ''.'' then ''-d'' else if c = CHR ''-'' then ''--'' else [c]) @ escape_dots cs"

fun unescape_dots :: "string \<Rightarrow> string" where
  "unescape_dots [] = []"
| "unescape_dots [c] = [c]"
| "unescape_dots (c # d # cs) =
     (if c = CHR ''-'' then (if d = CHR ''d'' then CHR ''.'' else CHR ''-'') # unescape_dots cs
      else c # unescape_dots (d # cs))"

lemma unescape_plain: "c \<noteq> CHR ''-'' \<Longrightarrow> unescape_dots (c # s) = c # unescape_dots s"
  by (cases s) simp_all

lemma unescape_dots [simp]: "unescape_dots (escape_dots s) = s"
  by (induction s) (auto simp: unescape_plain)

lemma escape_no_dot [simp]: "CHR ''.'' \<notin> set (escape_dots s)"
  by (induction s) auto

definition sample_payload :: credential_payload where
  "sample_payload = \<lparr>payload_version = 1, payload_deployment_id = ''dep'', payload_subject = ''ada'',
     payload_issuer = ''access-token-authority'', payload_operations = [''project:write''],
     payload_issued_at = 1000, payload_expires_at = 1300\<rparr>"

definition sample_crypto :: auth_crypto where
  "sample_crypto =
     \<lparr>sha256_digest = take 4, hmac_sign = (\<lambda>key m. key @ m),
      base64url_encode = escape_dots, base64url_decode = (\<lambda>s. Some (unescape_dots s)),
      base64_encode = (\<lambda>s. s), base64_decode = Some,
      aead_seal = (\<lambda>key nonce m. Some (m @ replicate 16 nul)),
      aead_open = (\<lambda>key nonce c. Some (take (length c - 16) c)),
      is_utf8 = (\<lambda>s. True),
      json_text = \<lparr>print_json = (\<lambda>v. if v = credential_payload_to_json sample_payload then Inr ''payload''
          else Inl ''too large''),
        parse_json = (\<lambda>t. if t = ''payload'' then Some (credential_payload_to_json sample_payload)
          else Some (JObject [(''isAuthorized'', JBool True), (''subject'', JString ''ada''),
            (''allowedOperations'', JArray [JString ''project:write''])]))\<rparr>\<rparr>"

lemma sample_crypto_lawful: "lawful_crypto sample_crypto"
  by (auto simp: lawful_crypto_def reads_back_def sample_crypto_def split: if_splits)

definition sample_auth :: application_auth where
  "sample_auth = with_access_token_authority sample_crypto ''admin''
     (Some (''dep'', \<lambda>token request. Some (200, ''authority'')))"

lemma issued_text_verifies:
  assumes lawful: "lawful_crypto k" and issue: "issue k i (ActingUser u) t = Inr c"
    and plain: "plain_identity_value (user_subject u)" "plain_identity_value (user_issuer u)"
    and ops: "user_operations u \<noteq> []" and size: "length (issued_text c) \<le> 8192"
    and time: "t < 2 ^ 62" "0 \<le> now" "t \<le> now + 60" "now < t + 300"
  shows "verify k i (issued_text c) now =
    Inr (ActingUser (u\<lparr>user_operations := granted_operations (user_operations u)\<rparr>))"
proof -
  from issue have t: "0 \<le> t" by (auto simp: issue_def and_then_eq_Inr unix_seconds_iff)
  let ?p = "\<lparr>payload_version = 1, payload_deployment_id = issuer_deployment_id i,
    payload_subject = user_subject u, payload_issuer = user_issuer u,
    payload_operations = map as_scope (user_operations u),
    payload_issued_at = word_of_int t, payload_expires_at = word_of_int t + 300\<rparr>"
  have expires: "unat (word_of_int t + 300 :: u64) = nat t + 300"
    using unat_seconds [OF t] time(1) t by (subst unat_add_lem [THEN iffD1]) auto
  from issue obtain bytes where bytes: "print_json (json_text k) (credential_payload_to_json ?p) = Inr bytes"
    and c: "issued_text c = signing_input (base64url_encode k bytes) @ ''.'' @
      base64url_encode k (hmac_sign k (issuer_signing_key i) (signing_input (base64url_encode k bytes)))"
    by (auto simp: issue_def and_then_eq_Inr unix_seconds_iff checked_add_def Let_def
        DEPLOYMENT_CREDENTIAL_LIFETIME_def split: if_splits sum.splits)
  have "signed_credential k i (issued_text c) ?p"
    unfolding signed_credential_def c
    using lawful bytes credential_payload_exact [of ?p]
    by (intro exI conjI) (auto simp: lawful_crypto_def reads_back_def serde)
  moreover have "check_payload i ?p (word_of_int now)"
    using time t expires unat_seconds [OF t] by (subst check_payload_iff) auto
  then have "grants i ?p now (u\<lparr>user_operations := granted_operations (user_operations u)\<rparr>)"
    using plain ops time(2) by (auto simp: grants_def plain_identity_value_def)
  ultimately show ?thesis using size by (auto simp: verify_iff)
qed

definition sample_user :: acting_user where
  "sample_user = \<lparr>user_subject = ''ada'', user_issuer = ''access-token-authority'',
     user_operations = [ProjectWrite]\<rparr>"

lemma sample_plain: "plain_identity_value ''ada''"
  by (simp add: plain_identity_value_def trim_def is_whitespace_def any_control_def is_control_def utf8_len_def)

lemma sample_identity: "is_authorized sample_crypto sample_auth ''token'' ProjectRead = Inr (ActingUser sample_user)"
proof -
  have "identity_value (Some ''ada'') = Some ''ada''" "identity_value None = None"
    using sample_plain by (simp_all add: identity_value_def plain_identity_value_def)
  then show ?thesis
    by (simp add: is_authorized_def sample_auth_def with_access_token_authority_def http_is_authorized_def
        sample_crypto_def authorization_of_json_def open_struct_fields_def required_def optional_def
        defaulted_def as_bool_def as_string_def as_list_def is_null_def response_identity_def
        sample_user_def operation_of_scope_def List.map_filter_simps)
qed

definition sample_input :: string where
  "sample_input = ''vifu_dc1.payload''"

definition sample_token :: string where
  "sample_token = sample_input @ ''.'' @ escape_dots (''vifu'' @ sample_input)"

lemma sample_exchange:
  "exchange_access_token sample_crypto sample_auth 1000 ''token'' =
     Inr \<lparr>issued_text = sample_token, issued_expires_at = 1300000\<rparr>"
proof -
  have "issue sample_crypto (DeploymentCredentialIssuer_new sample_crypto ''admin'' ''dep'')
      (ActingUser sample_user) 1000 = Inr \<lparr>issued_text = sample_token, issued_expires_at = 1300000\<rparr>"
    by (simp add: issue_def unix_seconds_def checked_add_def checked_mul_def
        DEPLOYMENT_CREDENTIAL_LIFETIME_def DeploymentCredentialIssuer_new_def sample_user_def
        sample_crypto_def sample_payload_def signing_input_def DEPLOYMENT_CREDENTIAL_PREFIX_def
        sample_token_def sample_input_def Let_def)
  then show ?thesis
    by (simp add: exchange_access_token_def sample_identity)
      (simp add: sample_auth_def with_access_token_authority_def require_operation_def
        operation_allowed_def sample_user_def)
qed

lemma sample_token_text: "length sample_token \<le> 8192" "sample_token \<noteq> auth_admin_key sample_auth"
  by (simp_all add: sample_token_def sample_input_def sample_auth_def with_access_token_authority_def)

text \<open>exchanging an access token works: a credential the server issued is accepted while it is
  valid (for five minutes, and from a minute before the server's clock), for the user the authority
  named and for exactly the operations it allowed, reading included in writing.
\<close>

theorem exchanged_credential_accepted:
  assumes lawful: "lawful_crypto k"
    and exchange: "exchange_access_token k a t access_token = Inr c"
    and size: "length (issued_text c) \<le> 8192" and other: "issued_text c \<noteq> auth_admin_key a"
    and time: "t < 2 ^ 62" "0 \<le> now" "t \<le> now + 60" "now < t + 300"
  shows "\<exists>u. is_authorized k a access_token ProjectRead = Inr (ActingUser u) \<and>
    (\<forall>operation. authorize_token k a now (issued_text c) operation =
      (if operation_allowed u operation
       then Inr (ActingUser (u\<lparr>user_operations := granted_operations (user_operations u)\<rparr>))
       else Inl Forbidden))"
proof -
  from exchange obtain i identity where i: "auth_issuer a = Some i"
    and who: "is_authorized k a access_token ProjectRead = Inr identity"
    and allowed: "require_operation identity ProjectRead = Inr ()"
    and issued: "issue k i identity t = Inr c"
    by (auto simp: exchange_access_token_def and_then_eq_Inr)
  from authorized_user [OF who] obtain u where u: "identity = ActingUser u"
    and plain: "plain_identity_value (user_subject u)" "plain_identity_value (user_issuer u)" .
  have ops: "user_operations u \<noteq> []"
    using allowed by (auto simp: u require_operation_def operation_allowed_def)
  note accepted = issued_text_verifies [OF lawful issued [unfolded u] plain ops size time]
  have "authorize_token k a now (issued_text c) operation =
      (if operation_allowed u operation
       then Inr (ActingUser (u\<lparr>user_operations := granted_operations (user_operations u)\<rparr>))
       else Inl Forbidden)" for operation
    using other i accepted
    by (cases "operation_allowed u operation")
      (simp_all add: authorize_token_def is_secret_match_def require_operation_def)
  with who u show ?thesis by blast
qed

theorem exchanged_credential_accepted_witness:
  "exchange_access_token sample_crypto sample_auth 1000 ''token'' =
     Inr \<lparr>issued_text = sample_token, issued_expires_at = 1300000\<rparr> \<and>
   authorize_token sample_crypto sample_auth 1299 sample_token ProjectRead = Inr (ActingUser sample_user)"
proof -
  from exchanged_credential_accepted [OF sample_crypto_lawful sample_exchange, of 1299] sample_token_text
    sample_identity sample_exchange
  show ?thesis by (auto simp: operation_allowed_def granted_operations_def sample_user_def)
qed

text \<open>C14: nobody else gets in: a project request is authorized only with the admin key, or, where an
  authority is configured, with a credential signed with the key derived from it for this
  deployment, not expired and valid for at most five minutes, that grants the operation to the owner
  of the project.
\<close>

theorem authorization_sound:
  assumes "authorize_project k a now header operation owner = Inr identity" and "now < 2 ^ 63"
  shows "\<exists>token. deployment_credential header = Some token \<and>
    (token = auth_admin_key a \<and> identity = DeploymentAdmin \<or>
     (\<exists>i p u. auth_issuer a = Some i \<and> identity = ActingUser u \<and>
        signed_credential k i token p \<and> length token \<le> 8192 \<and>
        payload_deployment_id p = issuer_deployment_id i \<and>
        unat (payload_issued_at p) \<le> nat now + 60 \<and> nat now < unat (payload_expires_at p) \<and>
        unat (payload_expires_at p) \<le> unat (payload_issued_at p) + 300 \<and>
        user_subject u = trim (payload_subject p) \<and> owner = Some (user_subject u) \<and>
        (as_scope operation \<in> set (payload_operations p) \<or>
         operation = DeploymentRead \<and> ''deployment:write'' \<in> set (payload_operations p) \<or>
         operation = ProjectRead \<and> ''project:write'' \<in> set (payload_operations p))))"
proof -
  from assms(1) obtain token where token: "deployment_credential header = Some token"
    and auth: "authorize_token k a now token operation = Inr identity"
    and own: "require_project_operation identity operation owner = Inr ()"
    by (auto simp: authorize_project_def and_then_eq_Inr)
  show ?thesis
  proof (cases "token = auth_admin_key a")
    case True
    with auth token show ?thesis
      by (auto simp: authorize_token_def is_secret_match_def and_then_eq_Inr)
  next
    case False
    with auth obtain i where i: "auth_issuer a = Some i" and ver: "verify k i token now = Inr identity"
      by (auto simp: authorize_token_def is_secret_match_def and_then_eq_Inr split: option.splits)
    from ver obtain p u where signed: "signed_credential k i token p" and grant: "grants i p now u"
      and u: "identity = ActingUser u" and size: "length token \<le> 8192"
      by (auto simp: verify_iff)
    from own u have allowed: "operation_allowed u operation" and owner: "owner = Some (user_subject u)"
      by (auto simp: require_project_operation_def require_operation_def and_then_eq_Inr)
    from grant obtain operations where ops: "payload_operations p = map as_scope operations"
      and granted: "user_operations u = granted_operations operations"
      by (auto simp: grants_def)
    have scopes: "as_scope operation \<in> set (payload_operations p) \<or>
        operation = DeploymentRead \<and> ''deployment:write'' \<in> set (payload_operations p) \<or>
        operation = ProjectRead \<and> ''project:write'' \<in> set (payload_operations p)"
      using allowed image_eqI [of "''deployment:write''" as_scope DeploymentWrite "set operations"]
        image_eqI [of "''project:write''" as_scope ProjectWrite "set operations"]
      by (auto simp: operation_allowed_def granted ops)
    from grant assms(2) have
      "payload_deployment_id p = issuer_deployment_id i \<and> user_subject u = trim (payload_subject p) \<and>
       unat (payload_issued_at p) \<le> nat now + 60 \<and> nat now < unat (payload_expires_at p) \<and>
       unat (payload_expires_at p) \<le> unat (payload_issued_at p) + 300"
      by (auto simp: grants_def check_payload_iff)
    with token i u signed size owner scopes show ?thesis by blast
  qed
qed

lemma sample_header: "deployment_credential (Some (''Vifu '' @ sample_token)) = Some sample_token"
  by (simp add: deployment_credential_def authorization_token_def strip_prefix_def sample_token_def
      sample_input_def trim_def utf8_len_def is_whitespace_def Let_def)

theorem authorization_sound_witness:
  "authorize_project sample_crypto sample_auth 1010 (Some (''Vifu '' @ sample_token)) ProjectWrite
     (Some ''ada'') = Inr (ActingUser sample_user) \<and>
   (\<exists>i p. signed_credential sample_crypto i sample_token p \<and> ''project:write'' \<in> set (payload_operations p))"
proof -
  let ?i = "DeploymentCredentialIssuer_new sample_crypto ''admin'' ''dep''"
  have issuer: "auth_issuer sample_auth = Some ?i"
    by (simp add: sample_auth_def with_access_token_authority_def)
  then have issued: "issue sample_crypto ?i (ActingUser sample_user) 1000 =
      Inr \<lparr>issued_text = sample_token, issued_expires_at = 1300000\<rparr>"
    using sample_exchange by (auto simp: exchange_access_token_def and_then_eq_Inr sample_identity)
  have "verify sample_crypto ?i sample_token 1010 = Inr (ActingUser sample_user)"
    using issued_text_verifies [OF sample_crypto_lawful issued, of 1010] sample_token_text(1) sample_plain
      access_token_authority_plain
    by (simp add: sample_user_def granted_operations_def)
  then have run: "authorize_project sample_crypto sample_auth 1010 (Some (''Vifu '' @ sample_token))
      ProjectWrite (Some ''ada'') = Inr (ActingUser sample_user)"
    using sample_header issuer sample_token_text(2)
    by (simp add: authorize_project_def authorize_token_def is_secret_match_def require_operation_def
        require_project_operation_def operation_allowed_def sample_user_def)
  from authorization_sound [OF run] run sample_header show ?thesis by auto
qed

text \<open>a decrypted provider secret is the encrypted one.\<close>

theorem provider_secret_roundtrip:
  assumes "lawful_crypto k" and "length nonce = 12" and "is_utf8 k v"
    and "encrypt_secret_json k (Some nonce) v secret = Inr t"
  shows "decrypt_secret_json k t secret = Inr v"
proof -
  from assms(4) obtain c where seal: "aead_seal k (provider_secret_key k secret) nonce v = Some c"
    and t: "t = base64_encode k (nonce @ c)"
    by (auto simp: encrypt_secret_json_def and_then_eq_Inr)
  from assms(1) seal have "aead_open k (provider_secret_key k secret) nonce c = Some v"
    and "length c = length v + 16" and "base64_decode k t = Some (nonce @ c)"
    by (simp_all add: lawful_crypto_def t)
  with assms(2,3) show ?thesis by (simp add: decrypt_secret_json_def)
qed

text \<open>Hashes of different kinds of credentials are hashes of different texts.\<close>

definition credential_domains :: "string list" where
  "credential_domains =
     [''vifu-project-api-key-v1'', ''vifu-agent-gateway-credential-v1'', ''vifu-agent-gateway-enrollment-v1'',
      ''vifu-guest-claim-v1'', ''vifu-guest-claim-token-v1'', ''vifu-guest-project-key-v1'']"

lemma hash_domains_apart:
  assumes "domain \<in> set credential_domains" and "domain' \<in> set credential_domains"
    and "hash_preimage domain v pepper = hash_preimage domain' v' pepper"
  shows "domain = domain' \<and> v = v'"
proof -
  have free: "nul \<notin> set d" if "d \<in> set credential_domains" for d
    using that by (auto simp: credential_domains_def nul_def)
  have "domain = domain'"
    using split_at_append [OF free [OF assms(1)]] split_at_append [OF free [OF assms(2)]] assms(3)
    by (metis append_Cons append_Nil hash_preimage_def list.inject)
  with assms(3) show ?thesis by (simp add: hash_preimage_def)
qed

end
