(* ===== verification/Gateway_Registry.thy ===== *)
theory Gateway_Registry
  imports Api_Error
begin

text \<open>
  The part of \<open>crates/vifu-server/src/db/sqlite.rs\<close> that decides which gateways belong to whom:
  machines and their keys, authorizations with device tokens, pairing requests, enrollments,
  distributions and the gateways assigned to deployments. Tables are lists of rows with the keys of the
  schema in \<open>migrations-sqlite\<close>; a failed statement leaves them unchanged, as its transaction is rolled
  back. Times are numbers of milliseconds, and the time a statement reads is an argument. The long-lived
  gateway credentials, with \<open>consume_agent_gateway_enrollment\<close> that issues them for an enrollment, are
  left out: no route of the server leads to it.
\<close>

section \<open>Tables\<close>

record authorization_row =
  az_gateway_id :: string
  az_machine_id :: string
  az_owner :: "string option"
  az_active :: bool
  az_token_prefix :: string
  az_token_hash :: string
  az_generation :: int
  az_expires_at :: int
  az_previous :: "(string \<times> int) option"

datatype pairing_status = Pending | Approved | Consumed | Rejected | Expired

record pairing_row =
  pr_id :: uuid
  pr_machine_id :: string
  pr_status :: pairing_status
  pr_owner :: "string option"
  pr_expires_at :: int
  pr_created_at :: int
  pr_resolved_at :: "int option"

record enrollment_row =
  en_id :: uuid
  en_project :: uuid
  en_deployment :: uuid
  en_owner :: string
  en_token_hash :: string
  en_expires_at :: int
  en_gateway_id :: "string option"
  en_consumed_at :: "int option"
  en_revoked_at :: "int option"

record distribution_row =
  di_id :: uuid
  di_project :: uuid
  di_deployment :: uuid
  di_public_id :: string
  di_active :: bool
  di_max_gateways :: nat

record distribution_gateway =
  dg_distribution :: uuid
  dg_machine_id :: string
  dg_gateway_id :: string

record deployment_row =
  dp_id :: uuid
  dp_project :: uuid
  dp_primary :: bool

record project_row =
  pj_id :: uuid
  pj_owner :: "string option"
  pj_gateway_id :: string

record gateway_db =
  gd_machines :: "(string \<times> string) list"
  gd_authorizations :: "authorization_row list"
  gd_pairings :: "pairing_row list"
  gd_enrollments :: "enrollment_row list"
  gd_distributions :: "distribution_row list"
  gd_distribution_gateways :: "distribution_gateway list"
  gd_deployments :: "deployment_row list"
  gd_deployment_gateways :: "(uuid \<times> string) list"
  gd_projects :: "project_row list"

type_synonym 'a query = "gateway_db \<Rightarrow> ('a \<times> gateway_db) api"

definition update_rows :: "('r \<Rightarrow> bool) \<Rightarrow> ('r \<Rightarrow> 'r) \<Rightarrow> 'r list \<Rightarrow> 'r list" where
  "update_rows P f = map (\<lambda>r. if P r then f r else r)"

text \<open>\<open>map_database_error\<close> of a violated constraint.\<close>

definition unique_violation_error :: api_error where
  "unique_violation_error = map_database_error (SqlxDatabase True False)"

definition foreign_key_error :: api_error where
  "foreign_key_error = map_database_error (SqlxDatabase False True)"

section \<open>Machines and authorizations\<close>

definition upsert_agent_gateway_machine :: "string \<Rightarrow> string \<Rightarrow> unit query" where
  "upsert_agent_gateway_machine machine_id public_key db =
     (case map_of (gd_machines db) machine_id of
        Some registered \<Rightarrow>
          if registered = public_key then Inr ((), db)
          else Inl (Conflict ''Gateway machine identity does not match its registered public key'')
      | None \<Rightarrow>
          if public_key \<in> snd ` set (gd_machines db) then Inl unique_violation_error
          else Inr ((), db\<lparr>gd_machines := gd_machines db @ [(machine_id, public_key)]\<rparr>))"

definition authorization_for_machine :: "string \<Rightarrow> gateway_db \<Rightarrow> authorization_row option" where
  "authorization_for_machine machine_id db = find (\<lambda>a. az_machine_id a = machine_id) (gd_authorizations db)"

definition get_agent_gateway_authorization :: "string \<Rightarrow> gateway_db \<Rightarrow> authorization_row api" where
  "get_agent_gateway_authorization gateway_id db =
     ok_or (find (\<lambda>a. az_gateway_id a = gateway_id) (gd_authorizations db)) NotFound"

record new_token =
  nt_prefix :: string
  nt_hash :: string
  nt_expires_at :: int

text \<open>The token hash of another row, or the previous one, may not be used again.\<close>

definition create_agent_gateway_authorization ::
    "string \<Rightarrow> string \<Rightarrow> string option \<Rightarrow> new_token \<Rightarrow> authorization_row query" where
  "create_agent_gateway_authorization gateway_id machine_id owner_user_id token db =
     (let row = \<lparr>az_gateway_id = gateway_id, az_machine_id = machine_id, az_owner = owner_user_id,
        az_active = True, az_token_prefix = nt_prefix token, az_token_hash = nt_hash token,
        az_generation = 1, az_expires_at = nt_expires_at token, az_previous = None\<rparr>
      in if list_ex (\<lambda>a. az_gateway_id a = gateway_id \<or> az_machine_id a = machine_id \<or>
           az_token_hash a = nt_hash token) (gd_authorizations db) then Inl unique_violation_error
         else if map_of (gd_machines db) machine_id = None then Inl foreign_key_error
         else Inr (row, db\<lparr>gd_authorizations := gd_authorizations db @ [row]\<rparr>))"

definition rotated_row :: "int \<Rightarrow> new_token \<Rightarrow> authorization_row \<Rightarrow> authorization_row" where
  "rotated_row now token a = a\<lparr>
     az_previous := (if az_active a then Some (az_token_hash a, min (az_expires_at a) (now + 600000)) else None),
     az_token_prefix := nt_prefix token, az_token_hash := nt_hash token,
     az_generation := az_generation a + 1, az_expires_at := nt_expires_at token, az_active := True\<rparr>"

definition rotate_agent_gateway_authorization ::
    "int \<Rightarrow> string \<Rightarrow> new_token \<Rightarrow> authorization_row query" where
  "rotate_agent_gateway_authorization now gateway_id token db =
     (case find (\<lambda>a. az_gateway_id a = gateway_id) (gd_authorizations db) of
        None \<Rightarrow> Inl NotFound
      | Some a \<Rightarrow>
          if list_ex (\<lambda>other. az_gateway_id other \<noteq> gateway_id \<and>
               (az_token_hash other = nt_hash token \<or>
                az_active a \<and> map_option fst (az_previous other) = Some (az_token_hash a)))
               (gd_authorizations db) then Inl (Database (SqlxDatabase True False))
          else Inr (rotated_row now token a, db\<lparr>gd_authorizations :=
            update_rows (\<lambda>a. az_gateway_id a = gateway_id) (rotated_row now token) (gd_authorizations db)\<rparr>))"

definition claim_agent_gateway_authorization_owner :: "string \<Rightarrow> string \<Rightarrow> authorization_row query" where
  "claim_agent_gateway_authorization_owner gateway_id owner_user_id db =
     (let claimable = (\<lambda>a. az_gateway_id a = gateway_id \<and>
        (az_owner a = None \<or> az_owner a = Some owner_user_id))
      in case find claimable (gd_authorizations db) of
        None \<Rightarrow> Inl (Conflict ''Gateway is already owned by another account'')
      | Some a \<Rightarrow> Inr (a\<lparr>az_owner := Some owner_user_id\<rparr>, db\<lparr>gd_authorizations :=
          update_rows claimable (\<lambda>a. a\<lparr>az_owner := Some owner_user_id\<rparr>) (gd_authorizations db)\<rparr>))"

definition token_matches :: "int \<Rightarrow> string \<Rightarrow> authorization_row \<Rightarrow> bool" where
  "token_matches now token_hash a \<longleftrightarrow> az_active a \<and>
     (az_token_hash a = token_hash \<and> now < az_expires_at a \<or>
      (case az_previous a of Some (hash, expires_at) \<Rightarrow> hash = token_hash \<and> now < expires_at
       | None \<Rightarrow> False))"

definition authenticate_agent_gateway_device_token :: "int \<Rightarrow> string \<Rightarrow> gateway_db \<Rightarrow> string api" where
  "authenticate_agent_gateway_device_token now token_hash db =
     map_sum id az_gateway_id (ok_or (find (token_matches now token_hash) (gd_authorizations db)) Forbidden)"

definition revoke_agent_gateway_authorization :: "string \<Rightarrow> authorization_row query" where
  "revoke_agent_gateway_authorization gateway_id db =
     (case find (\<lambda>a. az_gateway_id a = gateway_id) (gd_authorizations db) of
        None \<Rightarrow> Inl NotFound
      | Some a \<Rightarrow> Inr (a\<lparr>az_active := False, az_previous := None\<rparr>, db\<lparr>gd_authorizations :=
          update_rows (\<lambda>a. az_gateway_id a = gateway_id) (\<lambda>a. a\<lparr>az_active := False, az_previous := None\<rparr>)
            (gd_authorizations db)\<rparr>))"

section \<open>Deployments\<close>

definition deployments_of :: "uuid \<Rightarrow> gateway_db \<Rightarrow> uuid set" where
  "deployments_of project_id db = dp_id ` {d \<in> set (gd_deployments db). dp_project d = project_id}"

definition link_gateway :: "uuid \<Rightarrow> string \<Rightarrow> gateway_db \<Rightarrow> gateway_db" where
  "link_gateway deployment_id gateway_id db =
     (if (deployment_id, gateway_id) \<in> set (gd_deployment_gateways db) then db
      else db\<lparr>gd_deployment_gateways := gd_deployment_gateways db @ [(deployment_id, gateway_id)]\<rparr>)"

text \<open>A gateway serves one deployment of a project; the gateway of the primary one is the project's.\<close>

definition assign_gateway :: "uuid \<Rightarrow> uuid \<Rightarrow> string \<Rightarrow> gateway_db \<Rightarrow> gateway_db" where
  "assign_gateway project_id deployment_id gateway_id db =
     (let db1 = db\<lparr>gd_deployment_gateways := filter (\<lambda>(d, g). \<not> (g = gateway_id \<and>
            d \<noteq> deployment_id \<and> d \<in> deployments_of project_id db)) (gd_deployment_gateways db)\<rparr>;
          db2 = link_gateway deployment_id gateway_id db1
      in if list_ex (\<lambda>d. dp_id d = deployment_id \<and> dp_project d = project_id \<and> dp_primary d) (gd_deployments db2)
         then db2\<lparr>gd_projects := update_rows (\<lambda>p. pj_id p = project_id)
           (\<lambda>p. p\<lparr>pj_gateway_id := gateway_id\<rparr>) (gd_projects db2)\<rparr>
         else db2)"

section \<open>Enrollments\<close>

definition create_agent_gateway_enrollment :: "int \<Rightarrow> enrollment_row \<Rightarrow> unit query" where
  "create_agent_gateway_enrollment now e db =
     (let open_rows = update_rows (\<lambda>old. en_deployment old = en_deployment e \<and>
            en_consumed_at old = None \<and> en_revoked_at old = None) (\<lambda>old. old\<lparr>en_revoked_at := Some now\<rparr>)
            (gd_enrollments db)
      in if list_ex (\<lambda>old. en_id old = en_id e \<or> en_token_hash old = en_token_hash e) open_rows
         then Inl unique_violation_error
         else if \<not> list_ex (\<lambda>p. pj_id p = en_project e) (gd_projects db) \<or>
           \<not> list_ex (\<lambda>d. dp_id d = en_deployment e) (gd_deployments db) then Inl foreign_key_error
         else Inr ((), db\<lparr>gd_enrollments := open_rows @
           [e\<lparr>en_gateway_id := None, en_consumed_at := None, en_revoked_at := None\<rparr>]\<rparr>))"

definition enrollment_open :: "int \<Rightarrow> string \<Rightarrow> enrollment_row \<Rightarrow> bool" where
  "enrollment_open now token_hash e \<longleftrightarrow> en_token_hash e = token_hash \<and> en_consumed_at e = None \<and>
     en_revoked_at e = None \<and> now < en_expires_at e"

definition enrollment_mine :: "int \<Rightarrow> string \<Rightarrow> string \<Rightarrow> enrollment_row \<Rightarrow> bool" where
  "enrollment_mine now token_hash gateway_id e \<longleftrightarrow> en_token_hash e = token_hash \<and>
     en_gateway_id e = Some gateway_id \<and> en_consumed_at e \<noteq> None \<and> en_revoked_at e = None \<and>
     now < en_expires_at e"

definition consume_agent_gateway_machine_enrollment ::
    "int \<Rightarrow> string \<Rightarrow> string \<Rightarrow> enrollment_row query" where
  "consume_agent_gateway_machine_enrollment now token_hash gateway_id db =
     and_then (case find (enrollment_open now token_hash) (gd_enrollments db) of
         Some e \<Rightarrow> Inr (e\<lparr>en_gateway_id := Some gateway_id, en_consumed_at := Some now\<rparr>,
           db\<lparr>gd_enrollments := update_rows (enrollment_open now token_hash)
             (\<lambda>e. e\<lparr>en_gateway_id := Some gateway_id, en_consumed_at := Some now\<rparr>) (gd_enrollments db)\<rparr>)
       | None \<Rightarrow> (case find (\<lambda>e. en_token_hash e = token_hash) (gd_enrollments db) of
           None \<Rightarrow> Inl Unauthorized
         | Some e \<Rightarrow> if \<not> enrollment_mine now token_hash gateway_id e then Inl Unauthorized else Inr (e, db)))
     (\<lambda>(e, db1). Inr (e, assign_gateway (en_project e) (en_deployment e) gateway_id db1))"

definition revoke_agent_gateway_enrollment :: "int \<Rightarrow> uuid \<Rightarrow> (string option \<times> bool) query" where
  "revoke_agent_gateway_enrollment now enrollment_id db =
     (case find (\<lambda>e. en_id e = enrollment_id) (gd_enrollments db) of
        None \<Rightarrow> Inl NotFound
      | Some e \<Rightarrow>
          let db1 = db\<lparr>gd_enrollments := update_rows (\<lambda>e. en_id e = enrollment_id)
                (\<lambda>e. e\<lparr>en_revoked_at := Some (case en_revoked_at e of Some t \<Rightarrow> t | None \<Rightarrow> now)\<rparr>)
                (gd_enrollments db)\<rparr>
          in case en_gateway_id e of
            None \<Rightarrow> Inr ((None, False), db1)
          | Some gateway_id \<Rightarrow>
              let db2 = db1\<lparr>gd_deployment_gateways :=
                    filter (\<lambda>x. x \<noteq> (en_deployment e, gateway_id)) (gd_deployment_gateways db1)\<rparr>;
                  remaining = find (\<lambda>(d, _). list_ex (\<lambda>row. dp_id row = d \<and> dp_project row = en_project e \<and>
                    dp_primary row) (gd_deployments db2)) (gd_deployment_gateways db2);
                  db3 = db2\<lparr>gd_projects := update_rows
                    (\<lambda>p. pj_id p = en_project e \<and> pj_gateway_id p = gateway_id)
                    (\<lambda>p. p\<lparr>pj_gateway_id := (case remaining of Some (_, g) \<Rightarrow> g | None \<Rightarrow> [])\<rparr>) (gd_projects db2)\<rparr>
              in Inr ((Some gateway_id, \<not> list_ex (\<lambda>(_, g). g = gateway_id) (gd_deployment_gateways db3)), db3))"

section \<open>Pairing\<close>

definition expire_pairings :: "int \<Rightarrow> string \<Rightarrow> pairing_row list \<Rightarrow> pairing_row list" where
  "expire_pairings now machine_id = update_rows (\<lambda>p. pr_machine_id p = machine_id \<and>
     pr_status p = Pending \<and> pr_expires_at p \<le> now) (\<lambda>p. p\<lparr>pr_status := Expired, pr_resolved_at := Some now\<rparr>)"

text \<open>The identifier is the random one the code draws.\<close>

definition create_or_get_agent_gateway_pairing ::
    "int \<Rightarrow> uuid \<Rightarrow> string \<Rightarrow> int \<Rightarrow> pairing_row query" where
  "create_or_get_agent_gateway_pairing now fresh_id machine_id expires_at db =
     (let rows = expire_pairings now machine_id (gd_pairings db)
      in case find (\<lambda>p. pr_machine_id p = machine_id \<and> pr_status p = Pending) rows of
        Some p \<Rightarrow> Inr (p, db\<lparr>gd_pairings := rows\<rparr>)
      | None \<Rightarrow>
          let row = \<lparr>pr_id = fresh_id, pr_machine_id = machine_id, pr_status = Pending, pr_owner = None,
                pr_expires_at = expires_at, pr_created_at = now, pr_resolved_at = None\<rparr>
          in if list_ex (\<lambda>p. pr_id p = fresh_id) rows then Inl (Database (SqlxDatabase True False))
             else if map_of (gd_machines db) machine_id = None then Inl (Database (SqlxDatabase False True))
             else Inr (row, db\<lparr>gd_pairings := rows @ [row]\<rparr>))"

definition get_agent_gateway_pairing :: "uuid \<Rightarrow> gateway_db \<Rightarrow> pairing_row api" where
  "get_agent_gateway_pairing i db = ok_or (find (\<lambda>p. pr_id p = i) (gd_pairings db)) NotFound"

definition pairing_usable :: "int \<Rightarrow> string \<Rightarrow> pairing_row \<Rightarrow> bool" where
  "pairing_usable now machine_id p \<longleftrightarrow> pr_machine_id p = machine_id \<and> pr_status p = Approved \<and> now < pr_expires_at p"

definition consume_agent_gateway_pairing :: "int \<Rightarrow> uuid \<Rightarrow> string \<Rightarrow> pairing_row query" where
  "consume_agent_gateway_pairing now i machine_id db =
     (let usable = (\<lambda>p. pr_id p = i \<and> pairing_usable now machine_id p)
      in case find usable (gd_pairings db) of
        None \<Rightarrow> Inl Unauthorized
      | Some p \<Rightarrow> Inr (p\<lparr>pr_status := Consumed\<rparr>,
          db\<lparr>gd_pairings := update_rows usable (\<lambda>p. p\<lparr>pr_status := Consumed\<rparr>) (gd_pairings db)\<rparr>))"

definition pairing_age :: "pairing_row \<Rightarrow> int" where
  "pairing_age p = (case pr_resolved_at p of Some t \<Rightarrow> t | None \<Rightarrow> pr_created_at p)"

definition consume_approved_agent_gateway_pairing_for_machine ::
    "int \<Rightarrow> string \<Rightarrow> pairing_row option query" where
  "consume_approved_agent_gateway_pairing_for_machine now machine_id db =
     (case sort_key pairing_age (sort_key pr_created_at (filter (pairing_usable now machine_id) (gd_pairings db))) of
        [] \<Rightarrow> Inr (None, db)
      | p # _ \<Rightarrow> Inr (Some (p\<lparr>pr_status := Consumed\<rparr>),
          db\<lparr>gd_pairings := update_rows (\<lambda>q. pr_id q = pr_id p) (\<lambda>q. q\<lparr>pr_status := Consumed\<rparr>) (gd_pairings db)\<rparr>))"

definition resolve_agent_gateway_pairing ::
    "int \<Rightarrow> uuid \<Rightarrow> string \<Rightarrow> string option \<Rightarrow> pairing_row query" where
  "resolve_agent_gateway_pairing now i status owner_user_id db =
     (if status \<noteq> ''approved'' \<and> status \<noteq> ''rejected'' then Inl (Invalid ''pairing status is invalid'')
      else
        let pending = (\<lambda>p. pr_id p = i \<and> pr_status p = Pending \<and> now < pr_expires_at p);
            resolve = (\<lambda>p. p\<lparr>pr_status := if status = ''approved'' then Approved else Rejected,
              pr_owner := owner_user_id, pr_resolved_at := Some now\<rparr>)
        in case find pending (gd_pairings db) of
          None \<Rightarrow> Inl (Conflict ''Gateway pairing request is no longer pending'')
        | Some p \<Rightarrow> Inr (resolve p, db\<lparr>gd_pairings := update_rows pending resolve (gd_pairings db)\<rparr>))"

section \<open>Distributions\<close>

definition devices_of :: "uuid \<Rightarrow> gateway_db \<Rightarrow> distribution_gateway list" where
  "devices_of distribution_id db = filter (\<lambda>g. dg_distribution g = distribution_id) (gd_distribution_gateways db)"

definition create_runtime_distribution :: "distribution_row \<Rightarrow> distribution_row query" where
  "create_runtime_distribution d db =
     (let row = d\<lparr>di_active := True\<rparr>
      in if list_ex (\<lambda>old. di_id old = di_id d \<or> di_public_id old = di_public_id d) (gd_distributions db)
         then Inl unique_violation_error
         else if \<not> list_ex (\<lambda>p. pj_id p = di_project d) (gd_projects db) \<or>
           \<not> list_ex (\<lambda>dep. dp_id dep = di_deployment d) (gd_deployments db) then Inl foreign_key_error
         else Inr (row, db\<lparr>gd_distributions := gd_distributions db @ [row]\<rparr>))"

definition revoke_runtime_distribution :: "uuid \<Rightarrow> uuid \<Rightarrow> distribution_row query" where
  "revoke_runtime_distribution project_id distribution_id db =
     (let mine = (\<lambda>d. di_id d = distribution_id \<and> di_project d = project_id)
      in case find mine (gd_distributions db) of
        None \<Rightarrow> Inl NotFound
      | Some d \<Rightarrow> Inr (d\<lparr>di_active := False\<rparr>,
          db\<lparr>gd_distributions := update_rows mine (\<lambda>d. d\<lparr>di_active := False\<rparr>) (gd_distributions db)\<rparr>))"

text \<open>The gateway of a machine within a distribution, added when there is room for it.\<close>

definition distribution_device ::
    "distribution_row \<Rightarrow> string \<Rightarrow> string \<Rightarrow> gateway_db \<Rightarrow> (string \<times> gateway_db) api" where
  "distribution_device d machine_id suggested_gateway_id db =
     (let mine = (\<lambda>g. dg_distribution g = di_id d \<and> dg_machine_id g = machine_id);
          room = length (devices_of (di_id d) db) < di_max_gateways d;
          row = \<lparr>dg_distribution = di_id d, dg_machine_id = machine_id, dg_gateway_id = suggested_gateway_id\<rparr>
      in case find mine (gd_distribution_gateways db) of
        Some g \<Rightarrow> Inr (dg_gateway_id g, db)
      | None \<Rightarrow>
          if \<not> room then Inl (Conflict ''runtime distribution device limit reached'')
          else if list_ex (\<lambda>g. dg_gateway_id g = suggested_gateway_id) (gd_distribution_gateways db)
          then Inl unique_violation_error
          else Inr (suggested_gateway_id,
            db\<lparr>gd_distribution_gateways := gd_distribution_gateways db @ [row]\<rparr>))"

text \<open>The gateway a distribution assigns to a machine and the owner of its project.\<close>

definition authorize_runtime_distribution_gateway ::
    "string \<Rightarrow> string \<Rightarrow> string \<Rightarrow> (string \<times> string option) query" where
  "authorize_runtime_distribution_gateway public_id machine_id suggested_gateway_id db =
     (case find (\<lambda>d. di_public_id d = public_id \<and> di_active d \<and>
          list_ex (\<lambda>p. pj_id p = di_project d) (gd_projects db)) (gd_distributions db) of
        None \<Rightarrow> Inl Unauthorized
      | Some d \<Rightarrow>
          let owner_user_id = Option.bind (find (\<lambda>p. pj_id p = di_project d) (gd_projects db)) pj_owner
          in and_then (distribution_device d machine_id suggested_gateway_id db)
            (\<lambda>(gateway_id, db1). Inr ((gateway_id, owner_user_id),
               link_gateway (di_deployment d) gateway_id db1)))"

section \<open>Guest projects\<close>

text \<open>
  The gateways and enrollments of a guest project go to the account that claims it: of the gateways
  assigned to a deployment of the project those without an owner or owned by the guest, of its
  enrollments those of the guest. \<open>project_text\<close> is the text of the project's identifier.
\<close>

definition guest_owner :: "string \<Rightarrow> string" where
  "guest_owner project_text = ''guest:'' @ project_text"

definition transfer_guest_gateways :: "uuid \<Rightarrow> string \<Rightarrow> string \<Rightarrow> gateway_db \<Rightarrow> gateway_db" where
  "transfer_guest_gateways project_id project_text owner_user_id db =
     db\<lparr>gd_authorizations := update_rows
           (\<lambda>a. (az_owner a = None \<or> az_owner a = Some (guest_owner project_text)) \<and>
             list_ex (\<lambda>(d, g). g = az_gateway_id a \<and> d \<in> deployments_of project_id db) (gd_deployment_gateways db))
           (\<lambda>a. a\<lparr>az_owner := Some owner_user_id\<rparr>) (gd_authorizations db),
         gd_enrollments := update_rows
           (\<lambda>e. en_project e = project_id \<and> en_owner e = guest_owner project_text)
           (\<lambda>e. e\<lparr>en_owner := owner_user_id\<rparr>) (gd_enrollments db)\<rparr>"

definition repair_guest_project_gateway_ownership :: "uuid \<Rightarrow> string \<Rightarrow> string \<Rightarrow> unit query" where
  "repair_guest_project_gateway_ownership project_id project_text owner_user_id db =
     Inr ((), transfer_guest_gateways project_id project_text owner_user_id db)"

text \<open>What the statements on the table of guest projects found, the project and whether it is claimed
  only now, is an argument.\<close>

definition claim_guest_project :: "(uuid \<times> bool) api \<Rightarrow> string \<Rightarrow> string \<Rightarrow> uuid query" where
  "claim_guest_project claimed project_text owner_user_id db =
     and_then claimed (\<lambda>(project_id, newly_claimed).
       let unowned = (\<lambda>p. pj_id p = project_id \<and> pj_owner p = None)
       in if newly_claimed \<and> \<not> list_ex unowned (gd_projects db)
          then Inl (Conflict ''guest project already has an owner'')
          else Inr (project_id, transfer_guest_gateways project_id project_text owner_user_id
            (if newly_claimed then db\<lparr>gd_projects :=
               update_rows unowned (\<lambda>p. p\<lparr>pj_owner := Some owner_user_id\<rparr>) (gd_projects db)\<rparr> else db)))"

section \<open>Histories\<close>

datatype registry_call =
    UpsertMachine string string
  | CreateAuthorization string string "string option" new_token
  | RotateAuthorization string new_token
  | ClaimOwner string string
  | RevokeAuthorization string
  | CreateEnrollment enrollment_row
  | ConsumeEnrollment string string
  | RevokeEnrollment uuid
  | CreatePairing uuid string int
  | ConsumePairing uuid string
  | ConsumeApproved string
  | ResolvePairing uuid string "string option"
  | CreateDistribution distribution_row
  | RevokeDistribution uuid uuid
  | AuthorizeDistribution string string string
  | ClaimGuestProject "(uuid \<times> bool) api" string string
  | RepairGuestProject uuid string string

definition committed :: "gateway_db \<Rightarrow> ('a \<times> gateway_db) api \<Rightarrow> gateway_db" where
  "committed db r = (case r of Inl e \<Rightarrow> db | Inr (x, db') \<Rightarrow> db')"

fun registry_step :: "int \<Rightarrow> registry_call \<Rightarrow> gateway_db \<Rightarrow> gateway_db" where
  "registry_step now (UpsertMachine m key) db = committed db (upsert_agent_gateway_machine m key db)"
| "registry_step now (CreateAuthorization g m owner token) db =
     committed db (create_agent_gateway_authorization g m owner token db)"
| "registry_step now (RotateAuthorization g token) db =
     committed db (rotate_agent_gateway_authorization now g token db)"
| "registry_step now (ClaimOwner g owner) db = committed db (claim_agent_gateway_authorization_owner g owner db)"
| "registry_step now (RevokeAuthorization g) db = committed db (revoke_agent_gateway_authorization g db)"
| "registry_step now (CreateEnrollment e) db = committed db (create_agent_gateway_enrollment now e db)"
| "registry_step now (ConsumeEnrollment h g) db =
     committed db (consume_agent_gateway_machine_enrollment now h g db)"
| "registry_step now (RevokeEnrollment i) db = committed db (revoke_agent_gateway_enrollment now i db)"
| "registry_step now (CreatePairing i m t) db = committed db (create_or_get_agent_gateway_pairing now i m t db)"
| "registry_step now (ConsumePairing i m) db = committed db (consume_agent_gateway_pairing now i m db)"
| "registry_step now (ConsumeApproved m) db =
     committed db (consume_approved_agent_gateway_pairing_for_machine now m db)"
| "registry_step now (ResolvePairing i status owner) db =
     committed db (resolve_agent_gateway_pairing now i status owner db)"
| "registry_step now (CreateDistribution d) db = committed db (create_runtime_distribution d db)"
| "registry_step now (RevokeDistribution p d) db = committed db (revoke_runtime_distribution p d db)"
| "registry_step now (AuthorizeDistribution i m g) db =
     committed db (authorize_runtime_distribution_gateway i m g db)"
| "registry_step now (ClaimGuestProject claimed pt owner) db =
     committed db (claim_guest_project claimed pt owner db)"
| "registry_step now (RepairGuestProject p pt owner) db =
     committed db (repair_guest_project_gateway_ownership p pt owner db)"

definition registry_run :: "(int \<times> registry_call) list \<Rightarrow> gateway_db \<Rightarrow> gateway_db" where
  "registry_run calls = fold (\<lambda>(now, call). registry_step now call) calls"

lemma committed_simps [simp]: "committed db (Inl e) = db" "committed db (Inr (x, db')) = db'"
  by (simp_all add: committed_def)

text \<open>What every committed statement keeps, the whole history keeps.\<close>

lemma registry_run_keeps:
  assumes "\<And>now call db. (now, call) \<in> set calls \<Longrightarrow> P db \<Longrightarrow> P (registry_step now call db)" and "P db"
  shows "P (registry_run calls db)"
  using assms
proof (induction calls arbitrary: db)
  case (Cons c calls)
  then show ?case by (cases c) (auto simp: registry_run_def)
qed (simp add: registry_run_def)

lemma map_update_rows: "(\<And>r. k (f r) = k r) \<Longrightarrow> map k (update_rows P f rows) = map k rows"
  by (simp add: update_rows_def)

lemma image_update_rows: "(\<And>r. k (f r) = k r) \<Longrightarrow> k ` set (update_rows P f rows) = k ` set rows"
  by (simp add: map_update_rows flip: set_map)

lemma set_update_rows: "set (update_rows P f rows) = f ` {r \<in> set rows. P r} \<union> {r \<in> set rows. \<not> P r}"
  by (auto simp: update_rows_def)

lemma find_SomeD: "find P rows = Some r \<Longrightarrow> r \<in> set rows \<and> P r"
  by (auto simp: find_Some_iff)

lemma ball_update_rows:
  "(\<forall>r \<in> set (update_rows P f rows). Q r) \<longleftrightarrow> (\<forall>r \<in> set rows. Q (if P r then f r else r))"
  by (auto simp: update_rows_def)

lemma bex_update_rows:
  "(\<exists>r \<in> set (update_rows P f rows). Q r) \<longleftrightarrow> (\<exists>r \<in> set rows. Q (if P r then f r else r))"
  by (auto simp: update_rows_def)

text \<open>Which tables a statement leaves alone.\<close>

lemma link_gateway_same [simp]:
  "gd_authorizations (link_gateway d g db) = gd_authorizations db"
  "gd_pairings (link_gateway d g db) = gd_pairings db"
  "gd_enrollments (link_gateway d g db) = gd_enrollments db"
  "gd_distributions (link_gateway d g db) = gd_distributions db"
  "gd_distribution_gateways (link_gateway d g db) = gd_distribution_gateways db"
  "gd_machines (link_gateway d g db) = gd_machines db"
  by (simp_all add: link_gateway_def)

lemma assign_gateway_same [simp]:
  "gd_authorizations (assign_gateway p d g db) = gd_authorizations db"
  "gd_pairings (assign_gateway p d g db) = gd_pairings db"
  "gd_enrollments (assign_gateway p d g db) = gd_enrollments db"
  "gd_distributions (assign_gateway p d g db) = gd_distributions db"
  "gd_distribution_gateways (assign_gateway p d g db) = gd_distribution_gateways db"
  "gd_machines (assign_gateway p d g db) = gd_machines db"
  by (simp_all add: assign_gateway_def Let_def)

lemmas registry_defs =
  upsert_agent_gateway_machine_def create_agent_gateway_authorization_def
  rotate_agent_gateway_authorization_def claim_agent_gateway_authorization_owner_def
  revoke_agent_gateway_authorization_def create_agent_gateway_enrollment_def
  consume_agent_gateway_machine_enrollment_def revoke_agent_gateway_enrollment_def
  create_or_get_agent_gateway_pairing_def consume_agent_gateway_pairing_def
  consume_approved_agent_gateway_pairing_for_machine_def resolve_agent_gateway_pairing_def
  create_runtime_distribution_def revoke_runtime_distribution_def
  authorize_runtime_distribution_gateway_def distribution_device_def
  claim_guest_project_def repair_guest_project_gateway_ownership_def transfer_guest_gateways_def

text \<open>A call for a guest project fails or transfers, of a database that differs in projects only.\<close>

lemma guest_call_cases:
  assumes "call = ClaimGuestProject claimed pt owner \<or> call = RepairGuestProject p pt owner"
  obtains "registry_step now call db = db"
  | q db' where "registry_step now call db = transfer_guest_gateways q pt owner db'"
      "gd_authorizations db' = gd_authorizations db" "gd_enrollments db' = gd_enrollments db"
proof (cases "registry_step now call db = db")
  case changed: False
  have "\<exists>q db'. registry_step now call db = transfer_guest_gateways q pt owner db' \<and>
      gd_authorizations db' = gd_authorizations db \<and> gd_enrollments db' = gd_enrollments db"
  proof (cases "call = RepairGuestProject p pt owner")
    case True
    then have "registry_step now call db = transfer_guest_gateways p pt owner db"
      by (simp add: repair_guest_project_gateway_ownership_def)
    then show ?thesis by blast
  next
    case False
    with assms have call: "call = ClaimGuestProject claimed pt owner" by simp
    with changed obtain q newly where claimed: "claimed = Inr (q, newly)"
      by (cases claimed) (auto simp: claim_guest_project_def and_then_def)
    let ?unowned = "\<lambda>p. pj_id p = q \<and> pj_owner p = None"
    let ?db = "if newly then db\<lparr>gd_projects := update_rows ?unowned
      (\<lambda>p. p\<lparr>pj_owner := Some owner\<rparr>) (gd_projects db)\<rparr> else db"
    from changed have "registry_step now call db = transfer_guest_gateways q pt owner ?db"
      by (simp add: call claimed claim_guest_project_def and_then_def Let_def split: if_splits)
    moreover have "gd_authorizations ?db = gd_authorizations db" "gd_enrollments ?db = gd_enrollments db"
      by simp_all
    ultimately show ?thesis by blast
  qed
  then show ?thesis using that(2) by blast
qed

text \<open>The calls that write a table.\<close>

fun writes_authorizations :: "registry_call \<Rightarrow> bool" where
  "writes_authorizations (CreateAuthorization g m owner token) = True"
| "writes_authorizations (RotateAuthorization g token) = True"
| "writes_authorizations (ClaimOwner g owner) = True"
| "writes_authorizations (RevokeAuthorization g) = True"
| "writes_authorizations (ClaimGuestProject claimed pt owner) = True"
| "writes_authorizations (RepairGuestProject p pt owner) = True"
| "writes_authorizations call = False"

fun writes_pairings :: "registry_call \<Rightarrow> bool" where
  "writes_pairings (CreatePairing i m t) = True"
| "writes_pairings (ConsumePairing i m) = True"
| "writes_pairings (ConsumeApproved m) = True"
| "writes_pairings (ResolvePairing i status owner) = True"
| "writes_pairings call = False"

fun writes_enrollments :: "registry_call \<Rightarrow> bool" where
  "writes_enrollments (CreateEnrollment e) = True"
| "writes_enrollments (ConsumeEnrollment h g) = True"
| "writes_enrollments (RevokeEnrollment i) = True"
| "writes_enrollments (ClaimGuestProject claimed pt owner) = True"
| "writes_enrollments (RepairGuestProject p pt owner) = True"
| "writes_enrollments call = False"

fun writes_distributions :: "registry_call \<Rightarrow> bool" where
  "writes_distributions (CreateDistribution d) = True"
| "writes_distributions (RevokeDistribution p d) = True"
| "writes_distributions (AuthorizeDistribution i m g) = True"
| "writes_distributions call = False"

lemma other_tables:
  "\<not> writes_authorizations call \<Longrightarrow> gd_authorizations (registry_step now call db) = gd_authorizations db"
  "\<not> writes_pairings call \<Longrightarrow> gd_pairings (registry_step now call db) = gd_pairings db"
  "\<not> writes_enrollments call \<Longrightarrow> gd_enrollments (registry_step now call db) = gd_enrollments db"
  "\<not> writes_distributions call \<Longrightarrow> gd_distributions (registry_step now call db) = gd_distributions db"
  "\<not> writes_distributions call \<Longrightarrow>
     gd_distribution_gateways (registry_step now call db) = gd_distribution_gateways db"
  by (cases call; auto simp: registry_defs committed_def and_then_def Let_def
      split: option.splits list.splits sum.splits prod.splits)+

section \<open>Device tokens\<close>

text \<open>The hashes of the tokens a history issues to a gateway.\<close>

fun issued_by :: "string \<Rightarrow> registry_call \<Rightarrow> string set" where
  "issued_by g (CreateAuthorization g' m owner token) = (if g' = g then {nt_hash token} else {})"
| "issued_by g (RotateAuthorization g' token) = (if g' = g then {nt_hash token} else {})"
| "issued_by g call = {}"

definition issued_hashes :: "string \<Rightarrow> (int \<times> registry_call) list \<Rightarrow> string set" where
  "issued_hashes g calls = (\<Union>(now, call) \<in> set calls. issued_by g call)"

text \<open>The gateway \<open>g\<close> answers only to the hashes in \<open>H\<close>, and to any other until \<open>limit\<close> at most.\<close>

definition answers_only :: "string \<Rightarrow> string set \<Rightarrow> int \<Rightarrow> authorization_row \<Rightarrow> bool" where
  "answers_only g H limit a \<longleftrightarrow> (az_gateway_id a = g \<longrightarrow> az_active a \<longrightarrow>
     az_token_hash a \<in> H \<and>
     (case az_previous a of None \<Rightarrow> True | Some (hash, expires_at) \<Rightarrow> hash \<in> H \<or> expires_at \<le> limit))"

lemma answers_only_match:
  assumes "answers_only g H limit a" and "token_matches now h a" and "az_gateway_id a = g" and "limit \<le> now"
  shows "h \<in> H"
  using assms by (auto simp: answers_only_def token_matches_def split: option.splits)

lemma answers_only_rotated:
  assumes "answers_only g H limit a" and "az_gateway_id a = g \<Longrightarrow> nt_hash token \<in> H"
  shows "answers_only g H limit (rotated_row now token a)"
  using assms by (auto simp: answers_only_def rotated_row_def)

lemma answers_only_step:
  assumes H: "issued_by g call \<subseteq> H"
    and rows: "\<forall>a \<in> set (gd_authorizations db). answers_only g H limit a"
  shows "\<forall>a \<in> set (gd_authorizations (registry_step now call db)). answers_only g H limit a"
proof (cases "writes_authorizations call")
  case True
  then show ?thesis
  proof (cases call)
    case (CreateAuthorization g' m owner token)
    then show ?thesis using assms
      by (auto simp: create_agent_gateway_authorization_def Let_def answers_only_def split: if_splits)
  next
    case (RotateAuthorization g' token)
    then show ?thesis using assms
      by (auto simp: rotate_agent_gateway_authorization_def ball_update_rows
          split: option.splits if_splits intro!: answers_only_rotated)
  next
    case (ClaimOwner g' owner)
    then show ?thesis using rows
      by (auto simp: claim_agent_gateway_authorization_owner_def Let_def ball_update_rows answers_only_def
          split: option.splits)
  next
    case (RevokeAuthorization g')
    then show ?thesis using rows
      by (auto simp: revoke_agent_gateway_authorization_def ball_update_rows answers_only_def
          split: option.splits)
  next
    case (ClaimGuestProject claimed pt owner)
    from disjI1 [OF this] show ?thesis
      by (rule guest_call_cases[where now = now and db = db])
        (use rows in \<open>auto simp: transfer_guest_gateways_def ball_update_rows answers_only_def\<close>)
  next
    case (RepairGuestProject p pt owner)
    from disjI2 [OF this] show ?thesis
      by (rule guest_call_cases[where now = now and db = db])
        (use rows in \<open>auto simp: transfer_guest_gateways_def ball_update_rows answers_only_def\<close>)
  qed simp_all
qed (use rows in \<open>simp add: other_tables\<close>)

lemma answers_only_run:
  assumes "issued_hashes g calls \<subseteq> H" and "\<forall>a \<in> set (gd_authorizations db). answers_only g H limit a"
  shows "\<forall>a \<in> set (gd_authorizations (registry_run calls db)). answers_only g H limit a"
proof (rule registry_run_keeps[where P = "\<lambda>db. \<forall>a \<in> set (gd_authorizations db). answers_only g H limit a"])
  fix now call and db :: gateway_db
  assume call: "(now, call) \<in> set calls" and rows: "\<forall>a \<in> set (gd_authorizations db). answers_only g H limit a"
  from call have "issued_by g call \<subseteq> H" using assms(1) by (auto simp: issued_hashes_def)
  then show "\<forall>a \<in> set (gd_authorizations (registry_step now call db)). answers_only g H limit a"
    using rows by (rule answers_only_step)
qed (rule assms(2))

lemma authenticated_row:
  assumes "authenticate_agent_gateway_device_token now h db = Inr g"
  obtains a where "a \<in> set (gd_authorizations db)" "token_matches now h a" "az_gateway_id a = g"
  using assms
  by (auto simp: authenticate_agent_gateway_device_token_def ok_or_def split: option.splits dest: find_SomeD)

text \<open>C16: once a gateway is revoked, only tokens issued to it afterwards authenticate it, whatever else
  happens to the registry.\<close>

theorem revoked_gateway_stays_out:
  assumes "authenticate_agent_gateway_device_token now h
     (registry_run calls (registry_step revoked_at (RevokeAuthorization g) db)) = Inr g"
  shows "h \<in> issued_hashes g calls"
proof -
  let ?H = "issued_hashes g calls"
  let ?db = "registry_step revoked_at (RevokeAuthorization g) db"
  have "\<forall>a \<in> set (gd_authorizations ?db). answers_only g ?H now a"
    by (auto simp: revoke_agent_gateway_authorization_def ball_update_rows answers_only_def find_None_iff
        split: option.splits)
  then have run: "\<forall>a \<in> set (gd_authorizations (registry_run calls ?db)). answers_only g ?H now a"
    by (rule answers_only_run[OF order_refl])
  from assms obtain a where "a \<in> set (gd_authorizations (registry_run calls ?db))" "token_matches now h a"
    "az_gateway_id a = g" by (rule authenticated_row)
  then show ?thesis using run by (blast intro: answers_only_match)
qed

text \<open>A rotation retires every earlier token of the gateway within ten minutes.\<close>

theorem rotation_retires_tokens:
  assumes rotated: "rotate_agent_gateway_authorization t g token db = Inr (row, rotated)"
    and auth: "authenticate_agent_gateway_device_token now h (registry_run calls rotated) = Inr g"
    and later: "t + 600000 \<le> now"
  shows "h = nt_hash token \<or> h \<in> issued_hashes g calls"
proof -
  let ?H = "insert (nt_hash token) (issued_hashes g calls)"
  have "gd_authorizations rotated =
      update_rows (\<lambda>a. az_gateway_id a = g) (rotated_row t token) (gd_authorizations db)"
    using rotated by (auto simp: rotate_agent_gateway_authorization_def split: option.splits if_splits)
  then have "\<forall>a \<in> set (gd_authorizations rotated). answers_only g ?H (t + 600000) a"
    by (simp add: ball_update_rows answers_only_def rotated_row_def)
  then have run: "\<forall>a \<in> set (gd_authorizations (registry_run calls rotated)). answers_only g ?H (t + 600000) a"
    by (rule answers_only_run[rotated]) blast
  from auth obtain a where "a \<in> set (gd_authorizations (registry_run calls rotated))" "token_matches now h a"
    "az_gateway_id a = g" by (rule authenticated_row)
  with run have "h \<in> ?H" by (intro answers_only_match[OF _ _ _ later]) blast+
  then show ?thesis by simp
qed

section \<open>Pairings and enrollments are used once\<close>

definition pairing_final :: "pairing_row \<Rightarrow> bool" where
  "pairing_final p \<longleftrightarrow> pr_status p \<in> {Consumed, Rejected, Expired}"

definition pairing_kept :: "pairing_row \<Rightarrow> gateway_db \<Rightarrow> bool" where
  "pairing_kept p db \<longleftrightarrow> p \<in> set (gd_pairings db) \<and> distinct (map pr_id (gd_pairings db))"

lemma update_rows_keeps:
  assumes "r \<in> set rows" and "\<not> P r"
  shows "r \<in> set (update_rows P f rows)"
  using assms by (force simp: set_update_rows)

lemma pr_id_expire: "map pr_id (expire_pairings now m rows) = map pr_id rows"
  by (simp add: expire_pairings_def map_update_rows)

lemma unique_pairing:
  assumes "pairing_kept p db" and "q \<in> set (gd_pairings db)" and "pr_id q = pr_id p"
  shows "q = p"
  using assms by (auto simp: pairing_kept_def distinct_map dest: inj_onD)

lemma sort_key_head:
  assumes "sort_key k (sort_key k' (filter P rows)) = r # rs"
  shows "r \<in> set rows \<and> P r"
proof -
  have "r \<in> set (sort_key k (sort_key k' (filter P rows)))" by (simp add: assms)
  then show ?thesis by simp
qed

lemma pairing_kept_step:
  assumes final: "pairing_final p" and kept: "pairing_kept p db"
  shows "pairing_kept p (registry_step now call db)"
proof (cases "writes_pairings call")
  case True
  then show ?thesis
  proof (cases call)
    case (CreatePairing i m t)
    have "p \<in> set (expire_pairings now m (gd_pairings db))"
      using assms unfolding expire_pairings_def
      by (intro update_rows_keeps) (auto simp: pairing_kept_def pairing_final_def)
    moreover have "distinct (map pr_id (expire_pairings now m (gd_pairings db)))"
      using kept by (simp only: pr_id_expire pairing_kept_def)
    ultimately show ?thesis using CreatePairing kept
      by (auto simp: create_or_get_agent_gateway_pairing_def Let_def pairing_kept_def list_ex_iff
          split: option.splits)
  next
    case (ConsumePairing i m)
    then show ?thesis using assms
      by (auto simp: consume_agent_gateway_pairing_def pairing_kept_def pairing_final_def pairing_usable_def
          map_update_rows Let_def split: option.splits intro!: update_rows_keeps)
  next
    case (ConsumeApproved m)
    show ?thesis
    proof (cases "sort_key pairing_age (sort_key pr_created_at
        (filter (pairing_usable now m) (gd_pairings db)))")
      case Nil
      then show ?thesis using kept ConsumeApproved
        by (simp add: consume_approved_agent_gateway_pairing_for_machine_def)
    next
      case (Cons q qs)
      have q: "q \<in> set (gd_pairings db)" "pairing_usable now m q" using sort_key_head[OF Cons] by auto
      have "pr_id q \<noteq> pr_id p"
        using unique_pairing[OF kept q(1)] q(2) final by (auto simp: pairing_usable_def pairing_final_def)
      then show ?thesis using kept ConsumeApproved Cons
        by (auto simp: consume_approved_agent_gateway_pairing_for_machine_def pairing_kept_def
            map_update_rows intro!: update_rows_keeps)
    qed
  next
    case (ResolvePairing i status owner)
    then show ?thesis using assms
      by (auto simp: resolve_agent_gateway_pairing_def pairing_kept_def pairing_final_def map_update_rows
          Let_def split: option.splits intro!: update_rows_keeps)
  qed simp_all
qed (use kept in \<open>simp add: pairing_kept_def other_tables\<close>)

text \<open>a pairing that was consumed, rejected or has expired is final: no later call changes its row, and
  it never authorizes a machine again.\<close>

theorem resolved_pairing_is_final:
  assumes "p \<in> set (gd_pairings db)" and "distinct (map pr_id (gd_pairings db))" and final: "pairing_final p"
  shows "let later = registry_run calls db in p \<in> set (gd_pairings later) \<and>
     consume_agent_gateway_pairing now (pr_id p) machine_id later = Inl Unauthorized \<and>
     resolve_agent_gateway_pairing now (pr_id p) ''approved'' owner later =
       Inl (Conflict ''Gateway pairing request is no longer pending'')"
proof -
  from assms(1,2) have "pairing_kept p db" by (simp add: pairing_kept_def)
  then have kept: "pairing_kept p (registry_run calls db)"
    by (rule registry_run_keeps[rotated]) (rule pairing_kept_step[OF final])
  have none: "find (\<lambda>q. pr_id q = pr_id p \<and> Q q) (gd_pairings (registry_run calls db)) = None"
    if "\<not> Q p" for Q
    using that unique_pairing[OF kept] by (auto simp: find_None_iff)
  have "\<not> pairing_usable now machine_id p" "\<not> (pr_status p = Pending \<and> now < pr_expires_at p)"
    using final by (auto simp: pairing_usable_def pairing_final_def)
  then show ?thesis using kept
    by (simp add: Let_def consume_agent_gateway_pairing_def resolve_agent_gateway_pairing_def
        pairing_kept_def none)
qed

definition enrollment_bound :: "string \<Rightarrow> string \<Rightarrow> gateway_db \<Rightarrow> bool" where
  "enrollment_bound h g db \<longleftrightarrow>
     (\<exists>e \<in> set (gd_enrollments db). en_token_hash e = h \<and> en_consumed_at e \<noteq> None \<and> en_gateway_id e = Some g) \<and>
     distinct (map en_token_hash (gd_enrollments db))"

lemma enrollment_bound_update:
  assumes bound: "enrollment_bound h g db"
    and same: "\<And>e. en_token_hash (f e) = en_token_hash e"
    and kept: "\<And>e. en_token_hash e = h \<Longrightarrow> P e \<Longrightarrow> en_consumed_at e \<noteq> None \<Longrightarrow>
      en_consumed_at (f e) \<noteq> None \<and> en_gateway_id (f e) = en_gateway_id e"
  shows "enrollment_bound h g (db\<lparr>gd_enrollments := update_rows P f (gd_enrollments db)\<rparr>)"
proof -
  obtain e where e: "e \<in> set (gd_enrollments db)" "en_token_hash e = h" "en_consumed_at e \<noteq> None"
    "en_gateway_id e = Some g" using bound by (auto simp: enrollment_bound_def)
  let ?e = "if P e then f e else e"
  have "?e \<in> set (update_rows P f (gd_enrollments db))" using e(1) by (auto simp: update_rows_def)
  moreover have "en_token_hash ?e = h \<and> en_consumed_at ?e \<noteq> None \<and> en_gateway_id ?e = Some g"
    using e kept[of e] same by auto
  ultimately show ?thesis using bound same by (auto simp: enrollment_bound_def map_update_rows)
qed

lemma create_enrollment_bound:
  assumes "enrollment_bound h g db"
  shows "enrollment_bound h g (committed db (create_agent_gateway_enrollment now e db))"
proof -
  let ?db = "db\<lparr>gd_enrollments := update_rows (\<lambda>old. en_deployment old = en_deployment e \<and>
    en_consumed_at old = None \<and> en_revoked_at old = None) (\<lambda>old. old\<lparr>en_revoked_at := Some now\<rparr>) (gd_enrollments db)\<rparr>"
  have "enrollment_bound h g ?db" by (rule enrollment_bound_update[OF assms]) auto
  with assms show ?thesis
    by (auto simp: create_agent_gateway_enrollment_def Let_def enrollment_bound_def list_ex_iff)
qed

lemma consume_enrollment_bound:
  assumes "enrollment_bound h g db"
  shows "enrollment_bound h g (committed db (consume_agent_gateway_machine_enrollment now h' g' db))"
proof (cases "find (enrollment_open now h') (gd_enrollments db)")
  case None
  then show ?thesis using assms
    by (cases "find (\<lambda>e. en_token_hash e = h') (gd_enrollments db)")
      (simp_all add: consume_agent_gateway_machine_enrollment_def and_then_def enrollment_bound_def)
next
  case (Some e)
  let ?db = "db\<lparr>gd_enrollments := update_rows (enrollment_open now h')
    (\<lambda>e. e\<lparr>en_gateway_id := Some g', en_consumed_at := Some now\<rparr>) (gd_enrollments db)\<rparr>"
  have "enrollment_bound h g ?db"
    by (rule enrollment_bound_update[OF assms]) (auto simp: enrollment_open_def)
  with Some show ?thesis
    by (simp add: consume_agent_gateway_machine_enrollment_def and_then_def)
      (simp add: enrollment_bound_def)
qed

lemma revoke_enrollment_bound:
  assumes "enrollment_bound h g db"
  shows "enrollment_bound h g (committed db (revoke_agent_gateway_enrollment now i db))"
proof -
  let ?db = "db\<lparr>gd_enrollments := update_rows (\<lambda>e. en_id e = i)
    (\<lambda>e. e\<lparr>en_revoked_at := Some (case en_revoked_at e of Some t \<Rightarrow> t | None \<Rightarrow> now)\<rparr>) (gd_enrollments db)\<rparr>"
  have bound: "enrollment_bound h g ?db" by (rule enrollment_bound_update[OF assms]) auto
  show ?thesis
  proof (cases "find (\<lambda>e. en_id e = i) (gd_enrollments db)")
    case None
    with assms show ?thesis by (simp add: revoke_agent_gateway_enrollment_def)
  next
    case (Some e)
    with bound show ?thesis
      by (cases "en_gateway_id e")
        (simp_all add: revoke_agent_gateway_enrollment_def Let_def enrollment_bound_def)
  qed
qed

lemma transfer_enrollment_bound:
  assumes "enrollment_bound h g db" and "gd_enrollments db' = gd_enrollments db"
  shows "enrollment_bound h g (transfer_guest_gateways p pt owner db')"
proof -
  have "enrollment_bound h g (db\<lparr>gd_enrollments := update_rows
      (\<lambda>e. en_project e = p \<and> en_owner e = guest_owner pt) (\<lambda>e. e\<lparr>en_owner := owner\<rparr>) (gd_enrollments db)\<rparr>)"
    by (rule enrollment_bound_update[OF assms(1)]) auto
  then show ?thesis using assms(2) by (simp add: enrollment_bound_def transfer_guest_gateways_def)
qed

lemma enrollment_bound_step:
  assumes "enrollment_bound h g db"
  shows "enrollment_bound h g (registry_step now call db)"
proof (cases "writes_enrollments call")
  case True
  show ?thesis
  proof (cases "\<exists>claimed p pt owner. call = ClaimGuestProject claimed pt owner \<or>
      call = RepairGuestProject p pt owner")
    case True
    then obtain claimed p pt owner where
      "call = ClaimGuestProject claimed pt owner \<or> call = RepairGuestProject p pt owner" by blast
    then show ?thesis
      by (rule guest_call_cases[where now = now and db = db])
        (simp_all add: assms transfer_enrollment_bound[OF assms])
  next
    case False
    with \<open>writes_enrollments call\<close> assms show ?thesis
      by (cases call) (simp_all add: create_enrollment_bound consume_enrollment_bound revoke_enrollment_bound)
  qed
qed (use assms in \<open>simp add: other_tables enrollment_bound_def\<close>)

text \<open>C17: an enrollment token admits one gateway: after it was consumed by \<open>g\<close>, no other gateway is
  admitted with it, whatever else happens to the registry.\<close>

theorem enrollment_admits_one_gateway:
  assumes unique: "distinct (map en_token_hash (gd_enrollments db))"
    and consumed: "consume_agent_gateway_machine_enrollment t h g db = Inr (e, db1)"
    and again: "consume_agent_gateway_machine_enrollment now h g' (registry_run calls db1) = Inr (e', db2)"
  shows "g' = g"
proof -
  have "enrollment_bound h g db1"
  proof (cases "find (enrollment_open t h) (gd_enrollments db)")
    case None
    then obtain e where "find (\<lambda>e. en_token_hash e = h) (gd_enrollments db) = Some e" "enrollment_mine t h g e"
      "gd_enrollments db1 = gd_enrollments db"
      using consumed by (auto simp: consume_agent_gateway_machine_enrollment_def and_then_def
          split: option.splits if_splits)
    then show ?thesis using unique by (auto simp: enrollment_bound_def enrollment_mine_def dest: find_SomeD)
  next
    case (Some e)
    then have "gd_enrollments db1 = update_rows (enrollment_open t h)
        (\<lambda>e. e\<lparr>en_gateway_id := Some g, en_consumed_at := Some t\<rparr>) (gd_enrollments db)"
      using consumed by (auto simp: consume_agent_gateway_machine_enrollment_def and_then_def)
    moreover have "e\<lparr>en_gateway_id := Some g, en_consumed_at := Some t\<rparr> \<in> set (update_rows (enrollment_open t h)
        (\<lambda>e. e\<lparr>en_gateway_id := Some g, en_consumed_at := Some t\<rparr>) (gd_enrollments db))"
      using find_SomeD[OF Some] by (auto simp: set_update_rows)
    ultimately show ?thesis using unique find_SomeD[OF Some]
      by (auto simp: enrollment_bound_def map_update_rows enrollment_open_def intro: bexI[rotated])
  qed
  then have bound: "enrollment_bound h g (registry_run calls db1)"
    by (rule registry_run_keeps[rotated]) (rule enrollment_bound_step)
  let ?rows = "gd_enrollments (registry_run calls db1)"
  have mine: "en_consumed_at e \<noteq> None \<and> en_gateway_id e = Some g"
    if "e \<in> set ?rows" "en_token_hash e = h" for e
    using bound that by (auto simp: enrollment_bound_def distinct_map dest: inj_onD)
  then have "find (enrollment_open now h) ?rows = None"
    by (auto simp: find_None_iff enrollment_open_def)
  then obtain e where "find (\<lambda>e. en_token_hash e = h) ?rows = Some e" "enrollment_mine now h g' e"
    using again by (auto simp: consume_agent_gateway_machine_enrollment_def and_then_def
        split: option.splits if_splits)
  then show ?thesis using mine[of e] by (auto simp: enrollment_mine_def dest: find_SomeD)
qed

section \<open>The device limit of a distribution\<close>

text \<open>Rows have the keys of the schema, every device row belongs to a distribution, and no distribution
  has more devices than it allows.\<close>

definition well_distributed :: "gateway_db \<Rightarrow> bool" where
  "well_distributed db \<longleftrightarrow> distinct (map di_id (gd_distributions db)) \<and>
     distinct (map dg_gateway_id (gd_distribution_gateways db)) \<and>
     distinct (map (\<lambda>g. (dg_distribution g, dg_machine_id g)) (gd_distribution_gateways db)) \<and>
     dg_distribution ` set (gd_distribution_gateways db) \<subseteq> di_id ` set (gd_distributions db) \<and>
     (\<forall>d \<in> set (gd_distributions db). length (devices_of (di_id d) db) \<le> di_max_gateways d)"

lemma well_distributed_same:
  assumes "gd_distributions db' = gd_distributions db"
    and "gd_distribution_gateways db' = gd_distribution_gateways db"
  shows "well_distributed db' \<longleftrightarrow> well_distributed db"
  using assms by (simp add: well_distributed_def devices_of_def)

lemma no_devices:
  assumes "i \<notin> di_id ` set (gd_distributions db)"
    and "dg_distribution ` set (gd_distribution_gateways db) \<subseteq> di_id ` set (gd_distributions db)"
  shows "devices_of i db = []"
  using assms by (auto simp: devices_of_def filter_empty_conv)

lemma create_distribution_distributed:
  assumes "well_distributed db"
  shows "well_distributed (committed db (create_runtime_distribution d db))"
proof (cases "create_runtime_distribution d db")
  case (Inr r)
  then have new: "di_id d \<notin> di_id ` set (gd_distributions db)"
    and r: "snd r = db\<lparr>gd_distributions := gd_distributions db @ [d\<lparr>di_active := True\<rparr>]\<rparr>"
    by (auto simp: create_runtime_distribution_def Let_def list_ex_iff split: if_splits)
  have "devices_of (di_id d) db = []" using new assms by (intro no_devices) (simp_all add: well_distributed_def)
  then show ?thesis using assms new r Inr
    by (cases r) (auto simp: well_distributed_def devices_of_def)
qed (use assms in simp)

lemma revoke_distribution_distributed:
  assumes "well_distributed db"
  shows "well_distributed (committed db (revoke_runtime_distribution p i db))"
  using assms
  by (auto simp: revoke_runtime_distribution_def Let_def well_distributed_def map_update_rows devices_of_def
      ball_update_rows image_update_rows split: option.splits)

lemma add_device_distributed:
  assumes wf: "well_distributed db" and d: "d \<in> set (gd_distributions db)"
    and room: "length (devices_of (di_id d) db) < di_max_gateways d"
    and machine: "\<not> list_ex (\<lambda>g. dg_distribution g = di_id d \<and> dg_machine_id g = m) (gd_distribution_gateways db)"
    and gateway: "\<not> list_ex (\<lambda>g. dg_gateway_id g = new) (gd_distribution_gateways db)"
  shows "well_distributed (db\<lparr>gd_distribution_gateways := gd_distribution_gateways db @
    [\<lparr>dg_distribution = di_id d, dg_machine_id = m, dg_gateway_id = new\<rparr>]\<rparr>)"
proof -
  have "d' = d" if "d' \<in> set (gd_distributions db)" "di_id d' = di_id d" for d'
    using that d wf by (auto simp: well_distributed_def distinct_map dest: inj_onD)
  then show ?thesis using assms
    by (auto simp: well_distributed_def devices_of_def list_ex_iff)
qed

lemma distribution_device_distributed:
  assumes wf: "well_distributed db" and d: "d \<in> set (gd_distributions db)"
    and added: "distribution_device d m g db = Inr (gateway_id, db')"
  shows "well_distributed db'"
proof (cases "find (\<lambda>g. dg_distribution g = di_id d \<and> dg_machine_id g = m) (gd_distribution_gateways db)")
  case None
  then have "\<not> list_ex (\<lambda>g. dg_distribution g = di_id d \<and> dg_machine_id g = m) (gd_distribution_gateways db)"
    by (simp add: find_None_iff list_ex_iff)
  with added None show ?thesis
    by (auto simp: distribution_device_def Let_def split: if_splits intro!: add_device_distributed[OF wf d])
qed (use wf added in \<open>simp add: distribution_device_def Let_def\<close>)

lemma authorize_distribution_distributed:
  assumes wf: "well_distributed db"
  shows "well_distributed (committed db (authorize_runtime_distribution_gateway i m g db))"
proof (cases "authorize_runtime_distribution_gateway i m g db")
  case (Inr r)
  then obtain d gateway_id db1 where d: "d \<in> set (gd_distributions db)"
    "distribution_device d m g db = Inr (gateway_id, db1)" and r: "snd r = link_gateway (di_deployment d) gateway_id db1"
    by (auto simp: authorize_runtime_distribution_gateway_def Let_def and_then_def
        split: option.splits sum.splits dest: find_SomeD)
  have "well_distributed db1" by (rule distribution_device_distributed[OF wf d])
  moreover have "well_distributed (link_gateway (di_deployment d) gateway_id db1) = well_distributed db1"
    by (rule well_distributed_same) simp_all
  ultimately show ?thesis using Inr r by (cases r) simp
qed (use wf in simp)

lemma well_distributed_step:
  assumes "well_distributed db"
  shows "well_distributed (registry_step now call db)"
proof (cases "writes_distributions call")
  case True
  with assms show ?thesis
    by (cases call) (simp_all add: create_distribution_distributed revoke_distribution_distributed
        authorize_distribution_distributed)
next
  case False
  with assms show ?thesis by (simp add: other_tables well_distributed_def devices_of_def)
qed

text \<open>C18: no sequence of registry calls gives a distribution more gateways than its limit, a machine two
  gateways of it, or a gateway to two machines.\<close>

theorem device_limit_holds:
  assumes "well_distributed db" and "later = registry_run calls db"
    and "d \<in> set (gd_distributions later)"
  shows "card (dg_machine_id ` set (devices_of (di_id d) later)) \<le> di_max_gateways d \<and>
     inj_on dg_machine_id (set (devices_of (di_id d) later)) \<and>
     inj_on dg_gateway_id (set (gd_distribution_gateways later))"
proof -
  have later: "well_distributed later"
    unfolding assms(2) by (rule registry_run_keeps[OF well_distributed_step assms(1)])
  have "card (dg_machine_id ` set (devices_of (di_id d) later)) \<le> length (devices_of (di_id d) later)"
    by (rule order_trans[OF card_image_le card_length]) simp
  moreover have "length (devices_of (di_id d) later) \<le> di_max_gateways d"
    using later assms(3) by (auto simp: well_distributed_def)
  moreover have "inj_on dg_machine_id (set (devices_of (di_id d) later))"
    using later by (auto simp: well_distributed_def devices_of_def inj_on_def distinct_map)
  ultimately show ?thesis using later by (auto simp: well_distributed_def distinct_map)
qed

section \<open>Examples\<close>

definition sample_token :: "string \<Rightarrow> new_token" where
  "sample_token h = \<lparr>nt_prefix = ''gw'', nt_hash = h, nt_expires_at = 1000\<rparr>"

definition sample_row :: authorization_row where
  "sample_row = \<lparr>az_gateway_id = ''gw'', az_machine_id = ''m'', az_owner = None, az_active = True,
     az_token_prefix = ''gw'', az_token_hash = ''h0'', az_generation = 1, az_expires_at = 1000, az_previous = None\<rparr>"

definition sample_pairing :: pairing_row where
  "sample_pairing = \<lparr>pr_id = 1, pr_machine_id = ''m'', pr_status = Approved, pr_owner = Some ''ada'',
     pr_expires_at = 100, pr_created_at = 0, pr_resolved_at = Some 5\<rparr>"

definition sample_enrollment :: enrollment_row where
  "sample_enrollment = \<lparr>en_id = 2, en_project = 3, en_deployment = 4, en_owner = ''ada'', en_token_hash = ''e'',
     en_expires_at = 100, en_gateway_id = None, en_consumed_at = None, en_revoked_at = None\<rparr>"

definition sample_distribution :: distribution_row where
  "sample_distribution = \<lparr>di_id = 5, di_project = 3, di_deployment = 4, di_public_id = ''app'', di_active = True,
     di_max_gateways = 1\<rparr>"

definition sample_gateway_db :: gateway_db where
  "sample_gateway_db = \<lparr>gd_machines = [(''m'', ''key'')], gd_authorizations = [sample_row],
     gd_pairings = [sample_pairing], gd_enrollments = [sample_enrollment],
     gd_distributions = [], gd_distribution_gateways = [],
     gd_deployments = [\<lparr>dp_id = 4, dp_project = 3, dp_primary = True\<rparr>], gd_deployment_gateways = [],
     gd_projects = [\<lparr>pj_id = 3, pj_owner = Some ''ada'', pj_gateway_id = []\<rparr>]\<rparr>"

lemmas sample_registry_defs =
  sample_gateway_db_def sample_row_def sample_token_def sample_enrollment_def sample_distribution_def
  registry_run_def registry_defs update_rows_def rotated_row_def token_matches_def ok_or_def
  authenticate_agent_gateway_device_token_def enrollment_open_def enrollment_mine_def and_then_def
  assign_gateway_def link_gateway_def deployments_of_def devices_of_def Let_def

theorem revoked_gateway_stays_out_witness:
  "''h1'' \<in> issued_hashes ''gw'' [(2, RotateAuthorization ''gw'' (sample_token ''h1''))]"
proof (rule revoked_gateway_stays_out)
  show "authenticate_agent_gateway_device_token 3 ''h1''
      (registry_run [(2, RotateAuthorization ''gw'' (sample_token ''h1''))]
        (registry_step 1 (RevokeAuthorization ''gw'') sample_gateway_db)) = Inr ''gw''"
    by (simp add: sample_registry_defs)
qed

theorem resolved_pairing_is_final_witness:
  "consume_agent_gateway_pairing 7 1 ''m'' (registry_run []
     (registry_step 6 (ConsumePairing 1 ''m'') sample_gateway_db)) = Inl Unauthorized"
proof -
  let ?p = "sample_pairing\<lparr>pr_status := Consumed\<rparr>" and ?db = "registry_step 6 (ConsumePairing 1 ''m'') sample_gateway_db"
  have "gd_pairings ?db = [?p]"
    by (simp add: consume_agent_gateway_pairing_def pairing_usable_def Let_def sample_gateway_db_def sample_pairing_def
        update_rows_def)
  then have "?p \<in> set (gd_pairings ?db)" "distinct (map pr_id (gd_pairings ?db))" "pairing_final ?p"
    by (simp_all add: pairing_final_def)
  from resolved_pairing_is_final[OF this, of "[]" 7 "''m''" None] show ?thesis
    by (simp add: Let_def sample_pairing_def)
qed

definition sample_enrolled :: gateway_db where
  "sample_enrolled = registry_step 1 (ConsumeEnrollment ''e'' ''gw'') sample_gateway_db"

theorem enrollment_admits_one_gateway_witness:
  "\<forall>g'. consume_agent_gateway_machine_enrollment 2 ''e'' g' (registry_run [] sample_enrolled) \<in> range Inr \<longleftrightarrow>
     g' = ''gw''"
proof (rule allI, rule iffI)
  fix g'
  let ?e = "sample_enrollment\<lparr>en_gateway_id := Some ''gw'', en_consumed_at := Some 1\<rparr>"
  have first: "consume_agent_gateway_machine_enrollment 1 ''e'' ''gw'' sample_gateway_db = Inr (?e, sample_enrolled)"
    by (simp add: sample_registry_defs sample_enrolled_def)
  assume "consume_agent_gateway_machine_enrollment 2 ''e'' g' (registry_run [] sample_enrolled) \<in> range Inr"
  then obtain e' db2 where "consume_agent_gateway_machine_enrollment 2 ''e'' g' (registry_run [] sample_enrolled) =
      Inr (e', db2)" by auto
  from _ first this show "g' = ''gw''"
    by (rule enrollment_admits_one_gateway) (simp add: sample_gateway_db_def)
next
  fix g'
  assume "g' = ''gw''"
  then show "consume_agent_gateway_machine_enrollment 2 ''e'' g' (registry_run [] sample_enrolled) \<in> range Inr"
    by (simp add: sample_registry_defs sample_enrolled_def)
qed

definition sample_distribution_calls :: "(int \<times> registry_call) list" where
  "sample_distribution_calls = [(1, CreateDistribution sample_distribution),
     (2, AuthorizeDistribution ''app'' ''m'' ''gw''), (3, AuthorizeDistribution ''app'' ''m2'' ''gw2'')]"

theorem device_limit_holds_witness:
  "card (dg_machine_id ` set (devices_of 5 (registry_run sample_distribution_calls sample_gateway_db))) \<le> 1"
proof -
  let ?later = "registry_run sample_distribution_calls sample_gateway_db"
  have "well_distributed sample_gateway_db" by (simp add: well_distributed_def sample_gateway_db_def)
  moreover have "sample_distribution \<in> set (gd_distributions ?later)"
    by (simp add: sample_distribution_calls_def sample_registry_defs)
  ultimately show ?thesis using device_limit_holds[OF _ refl, of sample_gateway_db sample_distribution sample_distribution_calls]
    by (simp add: sample_distribution_def)
qed

end
