(* ===== verification/Gateway_Admission.thy ===== *)
theory Gateway_Admission
  imports Server_Auth Gateway_Registry
begin

text \<open>
  How the server decides whether a machine may connect as a gateway
  (\<open>crates/vifu-server/src/websocket.rs\<close>, \<open>authorize_gateway_machine_with_local_access\<close>): approval by an
  enrollment token, a distribution, a pairing or the bootstrap token, the device token of a known
  gateway, guests, and the pairing request of everyone else. Each database call is one transaction, and
  other sessions commit between two of them: what they commit before a call is part of the environment.
  A refused admission keeps what its earlier calls committed.
\<close>

section \<open>The environment of an admission\<close>

text \<open>The awaited statements, in the order of the code.\<close>

datatype await_point =
    LoadAuthorization | ConsumeFollowup | AssignLocal | TakeApproved
  | ClaimAuthorization | CheckToken | WriteAuthorization | WritePairing

text \<open>Configuration, the clock at each statement, the calls others commit before it, the random values
  the code draws, and the App that the local bootstrap provides.\<close>

record admission =
  ad_crypto :: auth_crypto
  ad_uuids :: uuid_codec
  ad_pepper :: string
  ad_bootstrap_token :: string
  ad_guest_enabled :: bool
  ad_local :: bool
  ad_local_app :: "gateway_db \<Rightarrow> (string + string) \<times> gateway_db"
  ad_clock :: "await_point \<Rightarrow> int"
  ad_others :: "await_point \<Rightarrow> (int \<times> registry_call) list"
  ad_gateway_id :: string
  ad_token :: string
  ad_pairing :: uuid

type_synonym 'a effect = "gateway_db \<Rightarrow> (string + 'a) \<times> gateway_db"

definition return :: "'a \<Rightarrow> 'a effect" where
  "return x db = (Inr x, db)"

definition and_next :: "'a effect \<Rightarrow> ('a \<Rightarrow> 'b effect) \<Rightarrow> 'b effect" where
  "and_next m f db = (case m db of (Inl e, db1) \<Rightarrow> (Inl e, db1) | (Inr x, db1) \<Rightarrow> f x db1)"

text \<open>An awaited database call; its error is shown as text.\<close>

definition await :: "admission \<Rightarrow> await_point \<Rightarrow> (int \<Rightarrow> 'a query) \<Rightarrow> 'a effect" where
  "await E pt q db = (let db1 = registry_run (ad_others E pt) db
     in case q (ad_clock E pt) db1 of
       Inl e \<Rightarrow> (Inl (ApiError_display e), db1)
     | Inr (x, db2) \<Rightarrow> (Inr x, db2))"

text \<open>A call whose error only counts as no result.\<close>

definition attempt :: "'a effect \<Rightarrow> 'a option effect" where
  "attempt m db = (case m db of (Inl e, db1) \<Rightarrow> (Inr None, db1) | (Inr x, db1) \<Rightarrow> (Inr (Some x), db1))"

section \<open>Approval\<close>

definition DEVICE_TOKEN_LIFETIME_DAYS :: int where "DEVICE_TOKEN_LIFETIME_DAYS = 180"
definition DEVICE_TOKEN_ROTATION_WINDOW_DAYS :: int where "DEVICE_TOKEN_ROTATION_WINDOW_DAYS = 30"
definition PAIRING_LIFETIME_MINUTES :: int where "PAIRING_LIFETIME_MINUTES = 10"

definition days :: "int \<Rightarrow> int" where "days n = n * 86400000"
definition minutes :: "int \<Rightarrow> int" where "minutes n = n * 60000"

definition ascii_hexdigit :: "char \<Rightarrow> bool" where
  "ascii_hexdigit c \<longleftrightarrow> c \<in> set ''0123456789abcdefABCDEF''"

definition is_runtime_distribution_id :: "string \<Rightarrow> bool" where
  "is_runtime_distribution_id v =
     (let p = (if starts_with v ''vifu_app_'' then ''vifu_app_'' else ''vifu_di_'')
      in length v = length p + 64 \<and> starts_with v p \<and> list_all ascii_hexdigit (drop (length p) v))"

record approval =
  ap_owner :: "string option"
  ap_explicit :: bool
  ap_gateway :: "string option"
  ap_enrollment :: "uuid option"

definition no_approval :: approval where
  "no_approval = \<lparr>ap_owner = None, ap_explicit = False, ap_gateway = None, ap_enrollment = None\<rparr>"

definition distribution_approval :: "string \<times> string option \<Rightarrow> approval" where
  "distribution_approval r = \<lparr>ap_owner = snd r, ap_explicit = True, ap_gateway = Some (fst r), ap_enrollment = None\<rparr>"

definition followup_approval ::
    "admission \<Rightarrow> string \<Rightarrow> string option \<Rightarrow> bool \<Rightarrow> authorization_row option \<Rightarrow> approval effect" where
  "followup_approval E machine_id followup local_peer current =
     (let gateway_id = (case current of Some a \<Rightarrow> az_gateway_id a | None \<Rightarrow> ad_gateway_id E)
      in case followup of
        None \<Rightarrow> return no_approval
      | Some v \<Rightarrow>
          if starts_with v ''vifu_ge_'' then
            and_next (await E ConsumeFollowup (\<lambda>now. consume_agent_gateway_machine_enrollment now
                (hash_agent_gateway_enrollment (ad_crypto E) v (ad_pepper E)) gateway_id))
              (\<lambda>e. return \<lparr>ap_owner = Some (en_owner e), ap_explicit = True, ap_gateway = Some gateway_id,
                 ap_enrollment = Some (en_id e)\<rparr>)
          else if is_runtime_distribution_id v then
            and_next (await E ConsumeFollowup (\<lambda>now. authorize_runtime_distribution_gateway v machine_id gateway_id))
              (return \<circ> distribution_approval)
          else case uuid_parse (ad_uuids E) v of
            Some i \<Rightarrow>
              and_next (attempt (await E ConsumeFollowup (\<lambda>now. consume_agent_gateway_pairing now i machine_id)))
                (\<lambda>p. return (case p of
                     Some p \<Rightarrow> no_approval\<lparr>ap_owner := pr_owner p, ap_explicit := True\<rparr>
                   | None \<Rightarrow> no_approval))
          | None \<Rightarrow>
              if \<not> is_secret_match v (ad_bootstrap_token E) then return no_approval
              else if local_peer \<and> ad_local E then
                and_next (ad_local_app E) (\<lambda>app_id.
                and_next (await E AssignLocal (\<lambda>now. authorize_runtime_distribution_gateway app_id machine_id gateway_id))
                  (return \<circ> distribution_approval))
              else return (no_approval\<lparr>ap_explicit := True\<rparr>))"

text \<open>Without one, an approved pairing of the machine that is still waiting.\<close>

definition waiting_approval :: "admission \<Rightarrow> string \<Rightarrow> approval \<Rightarrow> approval effect" where
  "waiting_approval E machine_id approval =
     (if ap_explicit approval then return approval
      else and_next (await E TakeApproved (\<lambda>now. consume_approved_agent_gateway_pairing_for_machine now machine_id))
        (\<lambda>p. return (case p of
             Some p \<Rightarrow> approval\<lparr>ap_owner := pr_owner p, ap_explicit := True\<rparr>
           | None \<Rightarrow> approval)))"

section \<open>Admission\<close>

datatype authorization_outcome =
    AuthorizedGateway authorization_row "string option" "uuid option"
  | PairingRequired uuid

definition issue_device_token :: "admission \<Rightarrow> int \<Rightarrow> new_token" where
  "issue_device_token E now = \<lparr>nt_prefix = take 20 (ad_token E),
     nt_hash = hash_agent_gateway_credential (ad_crypto E) (ad_token E) (ad_pepper E),
     nt_expires_at = now + days DEVICE_TOKEN_LIFETIME_DAYS\<rparr>"

definition pending_pairing :: "admission \<Rightarrow> string \<Rightarrow> authorization_outcome effect" where
  "pending_pairing E machine_id =
     and_next (await E WritePairing (\<lambda>now. create_or_get_agent_gateway_pairing now (ad_pairing E) machine_id
         (now + minutes PAIRING_LIFETIME_MINUTES)))
       (\<lambda>p. return (PairingRequired (pr_id p)))"

definition can_recover_missing_guest_token :: "bool \<Rightarrow> string option \<Rightarrow> bool" where
  "can_recover_missing_guest_token guest_bootstrap_enabled owner \<longleftrightarrow> guest_bootstrap_enabled \<and> owner = None"

definition rotate_admission :: "admission \<Rightarrow> authorization_row \<Rightarrow> uuid option \<Rightarrow> authorization_outcome effect" where
  "rotate_admission E a enrollment_id =
     and_next (await E WriteAuthorization (\<lambda>now. rotate_agent_gateway_authorization now (az_gateway_id a)
         (issue_device_token E now)))
       (\<lambda>rotated. return (AuthorizedGateway rotated (Some (ad_token E)) enrollment_id))"

definition create_admission :: "admission \<Rightarrow> string \<Rightarrow> approval \<Rightarrow> authorization_outcome effect" where
  "create_admission E machine_id approval =
     and_next (await E WriteAuthorization (\<lambda>now. create_agent_gateway_authorization
         (case ap_gateway approval of Some g \<Rightarrow> g | None \<Rightarrow> ad_gateway_id E) machine_id (ap_owner approval)
         (issue_device_token E now)))
       (\<lambda>created. return (AuthorizedGateway created (Some (ad_token E)) (ap_enrollment approval)))"

text \<open>A known gateway that shows its device token keeps it unless it is about to expire.\<close>

definition token_admission ::
    "admission \<Rightarrow> string \<Rightarrow> authorization_row \<Rightarrow> string option \<Rightarrow> authorization_outcome effect" where
  "token_admission E machine_id a device_token =
     (case device_token of
        Some t \<Rightarrow>
          and_next (attempt (await E CheckToken (\<lambda>now db. map_sum id (\<lambda>g. (g, db))
              (authenticate_agent_gateway_device_token now
                (hash_agent_gateway_credential (ad_crypto E) t (ad_pepper E)) db))))
            (\<lambda>g. if g \<noteq> Some (az_gateway_id a) then pending_pairing E machine_id
               else if ad_clock E CheckToken + days DEVICE_TOKEN_ROTATION_WINDOW_DAYS < az_expires_at a
               then return (AuthorizedGateway a None None)
               else rotate_admission E a None)
      | None \<Rightarrow>
          if \<not> can_recover_missing_guest_token (ad_guest_enabled E) (az_owner a)
          then pending_pairing E machine_id else rotate_admission E a None)"

definition authorize_gateway_machine_with_local_access ::
    "admission \<Rightarrow> string \<Rightarrow> string option \<Rightarrow> string option \<Rightarrow> bool \<Rightarrow> authorization_outcome effect" where
  "authorize_gateway_machine_with_local_access E machine_id device_token followup local_peer =
     and_next (await E LoadAuthorization (\<lambda>now db. Inr (authorization_for_machine machine_id db, db))) (\<lambda>current.
     and_next (followup_approval E machine_id followup local_peer current) (\<lambda>given.
     and_next (waiting_approval E machine_id given) (\<lambda>approval.
       case current of
         None \<Rightarrow>
           if ap_explicit approval \<or> ad_guest_enabled E then create_admission E machine_id approval
           else pending_pairing E machine_id
       | Some loaded \<Rightarrow>
           and_next (case ap_owner approval of
               Some owner \<Rightarrow> await E ClaimAuthorization (\<lambda>now.
                 claim_agent_gateway_authorization_owner (az_gateway_id loaded) owner)
             | None \<Rightarrow> return loaded) (\<lambda>a.
           if ap_explicit approval then rotate_admission E a (ap_enrollment approval)
           else if \<not> az_active a then pending_pairing E machine_id
           else token_admission E machine_id a device_token))))"

section \<open>Effects\<close>

lemma effect_simps [simp]:
  "return x db = (Inr x, db)"
  "and_next (return x) f db = f x db"
  by (simp_all add: return_def and_next_def)

lemma and_next_Inr:
  "and_next m f db = (Inr y, db') \<longleftrightarrow> (\<exists>x db1. m db = (Inr x, db1) \<and> f x db1 = (Inr y, db'))"
  by (auto simp: and_next_def split: prod.splits sum.splits)

lemma await_Inr:
  "await E pt q db = (Inr x, db') \<longleftrightarrow> q (ad_clock E pt) (registry_run (ad_others E pt) db) = Inr (x, db')"
  by (auto simp: await_def Let_def split: sum.splits)

lemma attempt_Inr:
  "attempt m db = (Inr y, db') \<longleftrightarrow>
     (\<exists>x. m db = (Inr x, db') \<and> y = Some x) \<or> (\<exists>e. m db = (Inl e, db') \<and> y = None)"
  by (auto simp: attempt_def split: prod.splits sum.splits)

lemmas effect_Inr = and_next_Inr await_Inr attempt_Inr

lemma registry_run_append: "registry_run (xs @ ys) db = registry_run ys (registry_run xs db)"
  by (simp add: registry_run_def)

section \<open>Admission without approval\<close>

definition no_waiting_approval :: "int \<Rightarrow> string \<Rightarrow> gateway_db \<Rightarrow> bool" where
  "no_waiting_approval now machine_id db \<longleftrightarrow> \<not> list_ex (pairing_usable now machine_id) (gd_pairings db)"

lemma no_waiting_approval_taken:
  assumes "no_waiting_approval now machine_id db"
  shows "consume_approved_agent_gateway_pairing_for_machine now machine_id db = Inr (None, db)"
proof -
  have "filter (pairing_usable now machine_id) (gd_pairings db) = []"
    using assms by (auto simp: no_waiting_approval_def list_ex_iff filter_empty_conv)
  then show ?thesis by (simp add: consume_approved_agent_gateway_pairing_for_machine_def)
qed

lemma pending_pairing_result:
  "pending_pairing E machine_id db = (Inr r, db') \<Longrightarrow> \<exists>i. r = PairingRequired i"
  by (auto simp: pending_pairing_def effect_Inr)

lemma rotate_admission_result:
  assumes "rotate_admission E a e db = (Inr (AuthorizedGateway row token enrollment), db')"
  shows "az_gateway_id row = az_gateway_id a"
  using assms
  by (auto simp: rotate_admission_def effect_Inr rotate_agent_gateway_authorization_def rotated_row_def
      split: option.splits if_splits dest: find_SomeD)

text \<open>The states in which the device token of an unapproved machine is checked.\<close>

definition checked_db :: "admission \<Rightarrow> gateway_db \<Rightarrow> gateway_db" where
  "checked_db E = registry_run (ad_others E LoadAuthorization @ ad_others E TakeApproved @ ad_others E CheckToken)"

lemma token_admission_result:
  assumes "token_admission E machine_id a device_token db = (Inr (AuthorizedGateway row token enrollment), db')"
    and "\<not> ad_guest_enabled E"
  shows "\<exists>t. device_token = Some t \<and> authenticate_agent_gateway_device_token (ad_clock E CheckToken)
     (hash_agent_gateway_credential (ad_crypto E) t (ad_pepper E))
     (registry_run (ad_others E CheckToken) db) = Inr (az_gateway_id row)"
proof (cases device_token)
  case None
  with assms show ?thesis
    by (auto simp: token_admission_def can_recover_missing_guest_token_def dest: pending_pairing_result)
next
  case (Some t)
  let ?check = "authenticate_agent_gateway_device_token (ad_clock E CheckToken)
     (hash_agent_gateway_credential (ad_crypto E) t (ad_pepper E)) (registry_run (ad_others E CheckToken) db)"
  have "?check = Inr (az_gateway_id a) \<and> az_gateway_id row = az_gateway_id a"
    using assms(1) Some
    by (cases ?check) (auto simp: token_admission_def effect_Inr await_def Let_def
        split: if_splits dest: pending_pairing_result rotate_admission_result)
  with Some show ?thesis by simp
qed

text \<open>C15: without a followup, an approved pairing or guest access, a machine is admitted only as the
  gateway registered for it, while that is active, and only with a device token that authenticates that
  gateway, whatever other sessions commit meanwhile.\<close>

theorem admission_needs_device_token:
  assumes admitted: "authorize_gateway_machine_with_local_access E machine_id device_token None local_peer db =
      (Inr (AuthorizedGateway row token enrollment), db')"
    and no_guests: "\<not> ad_guest_enabled E"
    and no_approval: "no_waiting_approval (ad_clock E TakeApproved) machine_id
      (registry_run (ad_others E LoadAuthorization @ ad_others E TakeApproved) db)"
  shows "(\<exists>a t. authorization_for_machine machine_id (registry_run (ad_others E LoadAuthorization) db) = Some a \<and>
      az_active a \<and> az_gateway_id row = az_gateway_id a \<and> device_token = Some t \<and>
      authenticate_agent_gateway_device_token (ad_clock E CheckToken)
        (hash_agent_gateway_credential (ad_crypto E) t (ad_pepper E)) (checked_db E db) = Inr (az_gateway_id row))"
proof -
  let ?db1 = "registry_run (ad_others E LoadAuthorization) db"
  let ?db2 = "registry_run (ad_others E TakeApproved) ?db1"
  have taken: "await E TakeApproved (\<lambda>now. consume_approved_agent_gateway_pairing_for_machine now machine_id) ?db1 =
      (Inr None, ?db2)"
    using no_waiting_approval_taken[OF no_approval] by (simp add: await_Inr registry_run_append)
  have loaded: "await E LoadAuthorization (\<lambda>now db. Inr (authorization_for_machine machine_id db, db)) db =
      (Inr (authorization_for_machine machine_id ?db1), ?db1)"
    by (simp add: await_Inr)
  show ?thesis
  proof (cases "authorization_for_machine machine_id ?db1")
    case None
    with admitted no_guests show ?thesis
      by (auto simp: authorize_gateway_machine_with_local_access_def and_next_def loaded taken
          followup_approval_def waiting_approval_def no_approval_def dest: pending_pairing_result)
  next
    case (Some a)
    with admitted have "(if \<not> az_active a then pending_pairing E machine_id
        else token_admission E machine_id a device_token) ?db2 = (Inr (AuthorizedGateway row token enrollment), db')"
      by (simp add: authorize_gateway_machine_with_local_access_def and_next_def loaded taken
          followup_approval_def waiting_approval_def no_approval_def)
    then have active: "az_active a" and run: "token_admission E machine_id a device_token ?db2 =
        (Inr (AuthorizedGateway row token enrollment), db')"
      by (auto split: if_splits dest: pending_pairing_result)
    have "az_gateway_id row = az_gateway_id a"
      using run by (auto simp: token_admission_def effect_Inr split: option.splits if_splits
          dest: pending_pairing_result rotate_admission_result)
    with token_admission_result[OF run no_guests] Some active show ?thesis
      by (auto simp: checked_db_def registry_run_append)
  qed
qed

section \<open>The issued token\<close>

definition issued_row :: "admission \<Rightarrow> string \<Rightarrow> authorization_row \<Rightarrow> gateway_db \<Rightarrow> bool" where
  "issued_row E token row db \<longleftrightarrow> token = ad_token E \<and> row \<in> set (gd_authorizations db) \<and> az_active row \<and>
     az_token_hash row = hash_agent_gateway_credential (ad_crypto E) token (ad_pepper E)"

lemma create_admission_issues:
  assumes "create_admission E machine_id approval db = (Inr (AuthorizedGateway row (Some token) e), db')"
  shows "issued_row E token row db'"
  using assms
  by (auto simp: create_admission_def effect_Inr create_agent_gateway_authorization_def Let_def
      issued_row_def issue_device_token_def split: if_splits)

lemma rotate_admission_issues:
  assumes "rotate_admission E a enrollment db = (Inr (AuthorizedGateway row (Some token) e), db')"
  shows "issued_row E token row db'"
proof -
  let ?now = "ad_clock E WriteAuthorization"
  let ?db = "registry_run (ad_others E WriteAuthorization) db"
  obtain old where old: "find (\<lambda>r. az_gateway_id r = az_gateway_id a) (gd_authorizations ?db) = Some old"
    and row: "row = rotated_row ?now (issue_device_token E ?now) old" and token: "token = ad_token E"
    and db': "gd_authorizations db' = update_rows (\<lambda>r. az_gateway_id r = az_gateway_id a)
      (rotated_row ?now (issue_device_token E ?now)) (gd_authorizations ?db)"
    using assms by (auto simp: rotate_admission_def effect_Inr rotate_agent_gateway_authorization_def
        split: option.splits if_splits)
  from find_SomeD[OF old] have "row \<in> set (gd_authorizations db')"
    by (auto simp: row db' set_update_rows)
  then show ?thesis by (simp add: issued_row_def token row rotated_row_def issue_device_token_def)
qed

lemma admission_issues:
  assumes "authorize_gateway_machine_with_local_access E machine_id device_token followup local_peer db =
    (Inr (AuthorizedGateway row (Some token) e), db')"
  shows "issued_row E token row db'"
proof -
  obtain current approval db1 where "(case current of
         None \<Rightarrow>
           if ap_explicit approval \<or> ad_guest_enabled E then create_admission E machine_id approval
           else pending_pairing E machine_id
       | Some loaded \<Rightarrow>
           and_next (case ap_owner approval of
               Some owner \<Rightarrow> await E ClaimAuthorization (\<lambda>now.
                 claim_agent_gateway_authorization_owner (az_gateway_id loaded) owner)
             | None \<Rightarrow> return loaded) (\<lambda>a.
           if ap_explicit approval then rotate_admission E a (ap_enrollment approval)
           else if \<not> az_active a then pending_pairing E machine_id
           else token_admission E machine_id a device_token)) db1 =
      (Inr (AuthorizedGateway row (Some token) e), db')"
    using assms by (auto simp: authorize_gateway_machine_with_local_access_def and_next_Inr)
  then show ?thesis
    by (auto simp: and_next_Inr token_admission_def effect_Inr split: option.splits if_splits
        dest: pending_pairing_result intro: create_admission_issues rotate_admission_issues)
qed

text \<open>a device token the server hands out authenticates its gateway until it expires, when no other
  gateway has a token of the same hash.\<close>

theorem issued_token_authenticates:
  assumes admitted: "authorize_gateway_machine_with_local_access E machine_id device_token followup local_peer db =
      (Inr (AuthorizedGateway row (Some token) e), db')"
    and h: "h = hash_agent_gateway_credential (ad_crypto E) token (ad_pepper E)"
    and alone: "\<And>a. a \<in> set (gd_authorizations db') \<Longrightarrow> az_token_hash a = h \<or> map_option fst (az_previous a) = Some h
      \<Longrightarrow> az_gateway_id a = az_gateway_id row"
    and fresh: "now < az_expires_at row"
  shows "authenticate_agent_gateway_device_token now h db' = Inr (az_gateway_id row)"
proof -
  have row: "row \<in> set (gd_authorizations db')" "token_matches now h row"
    using admission_issues[OF admitted] fresh by (auto simp: issued_row_def token_matches_def h)
  then obtain a where a: "find (token_matches now h) (gd_authorizations db') = Some a"
    by (metis find_None_iff option.exhaust)
  have "az_gateway_id a = az_gateway_id row"
    using find_SomeD[OF a] by (intro alone) (auto simp: token_matches_def split: option.splits)
  with a show ?thesis by (simp add: authenticate_agent_gateway_device_token_def ok_or_def)
qed

section \<open>Owners\<close>

definition owned :: "string \<Rightarrow> string \<Rightarrow> gateway_db \<Rightarrow> bool" where
  "owned g owner db \<longleftrightarrow> (\<exists>a \<in> set (gd_authorizations db). az_gateway_id a = g) \<and>
     (\<forall>a \<in> set (gd_authorizations db). az_gateway_id a = g \<longrightarrow> az_owner a = Some owner)"

lemma owned_same_rows:
  "owned g owner db \<Longrightarrow> gd_authorizations db' = gd_authorizations db \<Longrightarrow> owned g owner db'"
  by (simp add: owned_def)

lemma owned_update:
  assumes "owned g owner db"
    and "\<And>a. az_gateway_id (f a) = az_gateway_id a"
    and "\<And>a. P a \<Longrightarrow> az_owner a = Some owner \<Longrightarrow> az_gateway_id a = g \<Longrightarrow> az_owner (f a) = Some owner"
  shows "owned g owner (db\<lparr>gd_authorizations := update_rows P f (gd_authorizations db)\<rparr>)"
proof -
  obtain a where "a \<in> set (gd_authorizations db)" "az_gateway_id a = g" using assms(1) by (auto simp: owned_def)
  then have "\<exists>a \<in> set (update_rows P f (gd_authorizations db)). az_gateway_id a = g"
    using assms(2) by (auto simp: update_rows_def)
  with assms show ?thesis by (auto simp: owned_def ball_update_rows)
qed

text \<open>The guest accounts whose gateways a history gives to the accounts that claim their projects.\<close>

fun transfers_from :: "registry_call \<Rightarrow> string set" where
  "transfers_from (ClaimGuestProject claimed pt owner) = {guest_owner pt}"
| "transfers_from (RepairGuestProject p pt owner) = {guest_owner pt}"
| "transfers_from call = {}"

definition claimed_guests :: "(int \<times> registry_call) list \<Rightarrow> string set" where
  "claimed_guests calls = (\<Union>(now, call) \<in> set calls. transfers_from call)"

lemma owned_transfer:
  assumes "owned g owner db" and "gd_authorizations db' = gd_authorizations db" and "owner \<noteq> guest_owner pt"
  shows "owned g owner (transfer_guest_gateways p pt owner' db')"
proof -
  let ?P = "\<lambda>a. (az_owner a = None \<or> az_owner a = Some (guest_owner pt)) \<and>
    list_ex (\<lambda>(d, h). h = az_gateway_id a \<and> d \<in> deployments_of p db') (gd_deployment_gateways db')"
  have "owned g owner (db\<lparr>gd_authorizations :=
      update_rows ?P (\<lambda>a. a\<lparr>az_owner := Some owner'\<rparr>) (gd_authorizations db)\<rparr>)"
  proof (rule owned_update[OF assms(1)])
    fix a assume "?P a" and "az_owner a = Some owner"
    with assms(3) have False by (elim conjE disjE) simp_all
    then show "az_owner (a\<lparr>az_owner := Some owner'\<rparr>) = Some owner" ..
  qed simp
  then show ?thesis
    by (rule owned_same_rows) (simp add: transfer_guest_gateways_def assms(2))
qed

lemma owned_step:
  assumes "owned g owner db" and guest: "owner \<notin> transfers_from call"
  shows "owned g owner (registry_step now call db)"
proof (cases "writes_authorizations call")
  case True
  then show ?thesis
  proof (cases call)
    case (CreateAuthorization g' m owner' token)
    with assms show ?thesis
      by (auto simp: create_agent_gateway_authorization_def Let_def owned_def list_ex_iff)
  next
    case (RotateAuthorization g' token)
    with assms show ?thesis
      by (auto simp: rotate_agent_gateway_authorization_def rotated_row_def split: option.splits
          intro!: owned_update)
  next
    case (ClaimOwner g' owner')
    with assms show ?thesis
      by (auto simp: claim_agent_gateway_authorization_owner_def Let_def split: option.splits
          intro!: owned_update)
  next
    case (RevokeAuthorization g')
    with assms show ?thesis
      by (auto simp: revoke_agent_gateway_authorization_def split: option.splits intro!: owned_update)
  next
    case (ClaimGuestProject claimed pt owner')
    from disjI1 [OF this] show ?thesis
      by (rule guest_call_cases[where now = now and db = db])
        (use ClaimGuestProject guest in \<open>simp_all add: assms(1) owned_transfer[OF assms(1)]\<close>)
  next
    case (RepairGuestProject p pt owner')
    from disjI2 [OF this] show ?thesis
      by (rule guest_call_cases[where now = now and db = db])
        (use RepairGuestProject guest in \<open>simp_all add: assms(1) owned_transfer[OF assms(1)]\<close>)
  qed simp_all
qed (use assms in \<open>simp add: owned_def other_tables\<close>)

lemma owned_run:
  assumes "owned g owner db" and "owner \<notin> claimed_guests calls"
  shows "owned g owner (registry_run calls db)"
proof (rule registry_run_keeps[where P = "owned g owner"])
  fix now call db
  assume "(now, call) \<in> set calls" and "owned g owner db"
  moreover from this(1) assms(2) have "owner \<notin> transfers_from call" by (auto simp: claimed_guests_def)
  ultimately show "owned g owner (registry_step now call db)" by (blast intro: owned_step)
qed (rule assms(1))

text \<open>An owned gateway keeps its owner, and no enrollment, distribution or pairing of another account
  takes it over, unless its owner is a guest whose project is claimed.\<close>

theorem gateway_owner_is_permanent:
  assumes "owned g owner db" and "owner \<notin> claimed_guests calls"
    and "claim_agent_gateway_authorization_owner g owner' (registry_run calls db) = Inr r"
  shows "owner' = owner"
proof -
  have "owned g owner (registry_run calls db)" by (rule owned_run[OF assms(1,2)])
  with assms(3) show ?thesis
    by (auto simp: owned_def claim_agent_gateway_authorization_owner_def Let_def split: option.splits
        dest!: find_SomeD)
qed

text \<open>A claimed guest project takes its gateways along: every gateway assigned to one of its deployments
  that was the guest's, or nobody's, belongs to the account that claims it.\<close>

theorem guest_gateways_follow_claim:
  assumes "claim_guest_project (Inr (p, True)) pt owner db = Inr (q, db')"
    and "(d, g) \<in> set (gd_deployment_gateways db)" and "d \<in> deployments_of p db"
    and "\<exists>a \<in> set (gd_authorizations db). az_gateway_id a = g"
    and "\<forall>a \<in> set (gd_authorizations db). az_gateway_id a = g \<longrightarrow>
      az_owner a = None \<or> az_owner a = Some (guest_owner pt)"
  shows "owned g owner db'"
proof -
  have rows: "gd_authorizations db' = update_rows
      (\<lambda>a. (az_owner a = None \<or> az_owner a = Some (guest_owner pt)) \<and>
        list_ex (\<lambda>(d, h). h = az_gateway_id a \<and> d \<in> deployments_of p db) (gd_deployment_gateways db))
      (\<lambda>a. a\<lparr>az_owner := Some owner\<rparr>) (gd_authorizations db)"
    using assms(1)
    by (auto simp: claim_guest_project_def transfer_guest_gateways_def deployments_of_def Let_def split: if_splits)
  have assigned: "list_ex (\<lambda>(d, h). h = g \<and> d \<in> deployments_of p db) (gd_deployment_gateways db)"
    using assms(2,3) by (auto simp: list_ex_iff)
  have "az_owner a = Some owner" if "a \<in> set (gd_authorizations db')" "az_gateway_id a = g" for a
  proof -
    from that(1) obtain b where b: "b \<in> set (gd_authorizations db)"
      "a = (if (az_owner b = None \<or> az_owner b = Some (guest_owner pt)) \<and>
        list_ex (\<lambda>(d, h). h = az_gateway_id b \<and> d \<in> deployments_of p db) (gd_deployment_gateways db)
        then b\<lparr>az_owner := Some owner\<rparr> else b)"
      unfolding rows update_rows_def by auto
    then have "az_gateway_id b = g" using that(2) by (simp split: if_splits)
    with b assms(5) assigned show ?thesis by simp
  qed
  moreover have "\<exists>a \<in> set (gd_authorizations db'). az_gateway_id a = g"
    using assms(4) unfolding rows bex_update_rows by simp blast
  ultimately show ?thesis unfolding owned_def by blast
qed

text \<open>An enrollment token presented by a machine whose gateway belongs to another account is refused, but
  only after it was consumed and the gateway assigned to the deployment of the enrollment.\<close>

theorem refused_claim_keeps_assignment:
  assumes quiet: "ad_others E = (\<lambda>pt. [])"
    and known: "authorization_for_machine machine_id db = Some a"
    and theirs: "owned (az_gateway_id a) owner db"
    and token: "starts_with v ''vifu_ge_''"
    and consumed: "consume_agent_gateway_machine_enrollment (ad_clock E ConsumeFollowup)
      (hash_agent_gateway_enrollment (ad_crypto E) v (ad_pepper E)) (az_gateway_id a) db = Inr (e, db1)"
    and other: "en_owner e \<noteq> owner"
  shows "authorize_gateway_machine_with_local_access E machine_id device_token (Some v) local_peer db =
      (Inl ''Gateway is already owned by another account'', db1) \<and>
      (en_deployment e, az_gateway_id a) \<in> set (gd_deployment_gateways db1)"
proof
  have same: "gd_authorizations db1 = gd_authorizations db"
    using consumed by (auto simp: consume_agent_gateway_machine_enrollment_def and_then_def
        split: option.splits if_splits)
  have "claim_agent_gateway_authorization_owner (az_gateway_id a) (en_owner e) db1 =
      Inl (Conflict ''Gateway is already owned by another account'')"
    using theirs other
    by (auto simp: claim_agent_gateway_authorization_owner_def Let_def same owned_def find_None_iff
        split: option.split dest!: find_SomeD)
  then show "authorize_gateway_machine_with_local_access E machine_id device_token (Some v) local_peer db =
      (Inl ''Gateway is already owned by another account'', db1)"
    using consumed known token
    by (simp add: authorize_gateway_machine_with_local_access_def and_next_def await_def quiet registry_run_def
        followup_approval_def waiting_approval_def Let_def)
  show "(en_deployment e, az_gateway_id a) \<in> set (gd_deployment_gateways db1)"
    using consumed
    by (auto simp: consume_agent_gateway_machine_enrollment_def and_then_def assign_gateway_def
        link_gateway_def Let_def split: option.splits if_splits)
qed

section \<open>Examples\<close>

definition sample_gateway_crypto :: auth_crypto where
  "sample_gateway_crypto = sample_crypto\<lparr>sha256_digest := (\<lambda>t. t)\<rparr>"

definition sample_hash :: "string \<Rightarrow> string" where
  "sample_hash t = hash_agent_gateway_credential sample_gateway_crypto t ''p''"

definition sample_authorization :: authorization_row where
  "sample_authorization = \<lparr>az_gateway_id = ''gw'', az_machine_id = ''m'', az_owner = None, az_active = True,
     az_token_prefix = ''tok'', az_token_hash = sample_hash ''tok'', az_generation = 1,
     az_expires_at = days 20, az_previous = None\<rparr>"

definition sample_registry :: gateway_db where
  "sample_registry = \<lparr>gd_machines = [(''m'', ''key'')], gd_authorizations = [sample_authorization],
     gd_pairings = [], gd_enrollments = [], gd_distributions = [], gd_distribution_gateways = [],
     gd_deployments = [], gd_deployment_gateways = [], gd_projects = []\<rparr>"

definition sample_admission :: "(int \<times> registry_call) list \<Rightarrow> admission" where
  "sample_admission interleaved = \<lparr>ad_crypto = sample_gateway_crypto,
     ad_uuids = \<lparr>uuid_print = (\<lambda>i. []), uuid_parse = (\<lambda>t. None)\<rparr>, ad_pepper = ''p'',
     ad_bootstrap_token = ''boot'', ad_guest_enabled = False, ad_local = False,
     ad_local_app = (\<lambda>db. (Inl [], db)), ad_clock = (\<lambda>pt. 0),
     ad_others = (\<lambda>pt. if pt = WriteAuthorization then interleaved else []),
     ad_gateway_id = ''fresh'', ad_token = ''new'', ad_pairing = 7\<rparr>"

definition rotated_sample :: authorization_row where
  "rotated_sample = sample_authorization\<lparr>az_token_prefix := ''new'', az_token_hash := sample_hash ''new'',
     az_generation := 2, az_expires_at := days 180\<rparr>"

lemma sample_hashes: "sample_hash ''tok'' \<noteq> sample_hash ''new''"
  by (simp add: sample_hash_def hash_agent_gateway_credential_def hash_credential_def hash_preimage_def
      sample_gateway_crypto_def)

lemmas sample_admission_simps =
  authorize_gateway_machine_with_local_access_def and_next_def await_def attempt_def Let_def registry_run_def
  followup_approval_def waiting_approval_def no_approval_def token_admission_def rotate_admission_def
  sample_admission_def sample_registry_def sample_authorization_def authorization_for_machine_def
  consume_approved_agent_gateway_pairing_for_machine_def authenticate_agent_gateway_device_token_def
  token_matches_def ok_or_def rotate_agent_gateway_authorization_def rotated_row_def update_rows_def
  revoke_agent_gateway_authorization_def issue_device_token_def days_def
  DEVICE_TOKEN_LIFETIME_DAYS_def DEVICE_TOKEN_ROTATION_WINDOW_DAYS_def

text \<open>A gateway that is revoked while its admission rotates the device token is active again: the
  rotation does not look at the status that was checked before.\<close>

theorem revocation_can_be_undone:
  "let r = authorize_gateway_machine_with_local_access
       (sample_admission [(0, RevokeAuthorization ''gw'')]) ''m'' (Some ''tok'') None False sample_registry
   in fst r = Inr (AuthorizedGateway rotated_sample (Some ''new'') None) \<and>
     authenticate_agent_gateway_device_token 0 (sample_hash ''new'') (snd r) = Inr ''gw''"
  using sample_hashes
  by (simp add: sample_admission_simps rotated_sample_def sample_hash_def)

theorem admission_needs_device_token_witness:
  "authenticate_agent_gateway_device_token 0 (sample_hash ''tok'') sample_registry = Inr ''gw''"
proof -
  let ?E = "sample_admission []"
  let ?row = "rotated_sample\<lparr>az_previous := Some (sample_hash ''tok'', 600000)\<rparr>"
  have "fst (authorize_gateway_machine_with_local_access ?E ''m'' (Some ''tok'') None False sample_registry) =
      Inr (AuthorizedGateway ?row (Some ''new'') None)"
    using sample_hashes by (simp add: sample_admission_simps rotated_sample_def sample_hash_def)
  then obtain db' where run: "authorize_gateway_machine_with_local_access ?E ''m'' (Some ''tok'') None False
      sample_registry = (Inr (AuthorizedGateway ?row (Some ''new'') None), db')"
    by (metis prod.collapse)
  have "\<not> ad_guest_enabled ?E" by (simp add: sample_admission_def)
  moreover have "no_waiting_approval (ad_clock ?E TakeApproved) ''m''
      (registry_run (ad_others ?E LoadAuthorization @ ad_others ?E TakeApproved) sample_registry)"
    by (simp add: no_waiting_approval_def sample_admission_def sample_registry_def registry_run_def)
  ultimately show ?thesis using admission_needs_device_token[OF run]
    by (auto simp add: checked_db_def sample_admission_def registry_run_def sample_hash_def rotated_sample_def
        sample_authorization_def)
qed

theorem issued_token_authenticates_witness:
  "\<exists>db'. authenticate_agent_gateway_device_token 5 (sample_hash ''new'') db' = Inr ''gw''"
proof -
  let ?E = "sample_admission []"
  let ?row = "rotated_sample\<lparr>az_previous := Some (sample_hash ''tok'', 600000)\<rparr>"
  let ?db = "sample_registry\<lparr>gd_authorizations := [?row]\<rparr>"
  have run: "authorize_gateway_machine_with_local_access ?E ''m'' (Some ''tok'') None False sample_registry =
      (Inr (AuthorizedGateway ?row (Some ''new'') None), ?db)"
    using sample_hashes by (simp add: sample_admission_simps rotated_sample_def sample_hash_def)
  have "sample_hash ''new'' = hash_agent_gateway_credential (ad_crypto ?E) ''new'' (ad_pepper ?E)"
    by (simp add: sample_hash_def sample_admission_def)
  from issued_token_authenticates[OF run this, of 5] show ?thesis
    by (auto simp: rotated_sample_def sample_authorization_def days_def sample_registry_def)
qed

end
