(* ===== verification/Server_Monitor.thy ===== *)
theory Server_Monitor
  imports Server_Auth Gateway_Protocol "HOL-Library.Multiset"
begin

text \<open>
  \<open>crates/vifu-server/src/monitor.rs\<close>: the hub of monitor events of a server, and the sockets of
  monitor clients. A client sees the whole deployment or some projects; what it may see is asked of the
  database (a parameter) for every event. The broadcast channel (\<open>tokio\<close>) keeps the last events up
  to its capacity: a receiver that fell behind is told so and continues with the oldest kept event.
\<close>

section \<open>Events and the hub\<close>

record gateway_snapshot =
  gs_gateway_id :: string
  gs_agents :: "agent_descriptor list"

datatype monitor_event =
    Snapshot "gateway_snapshot list"
  | GatewayConnected string "agent_descriptor list"
  | GatewayDisconnected string
  | GatewayEnrolled string uuid
  | TelemetryEvent string runtime_telemetry_batch

record monitor_hub =
  mh_sent :: "monitor_event list"
  mh_capacity :: nat
  mh_gateways :: "(string \<times> agent_descriptor list) list"

text \<open>The capacity of the channel is rounded by \<open>tokio\<close> from at least 64.\<close>

definition ServerMonitorHub_new :: "(nat \<Rightarrow> nat) \<Rightarrow> nat \<Rightarrow> monitor_hub" where
  "ServerMonitorHub_new rounded capacity =
     \<lparr>mh_sent = [], mh_capacity = rounded (max capacity 64), mh_gateways = []\<rparr>"

text \<open>\<open>publish\<close> releases the lock of the table before it sends: two atomic steps.\<close>

definition publish_update :: "monitor_event \<Rightarrow> monitor_hub \<Rightarrow> monitor_hub" where
  "publish_update event h = (case event of
     GatewayConnected gateway_id agents \<Rightarrow>
       h\<lparr>mh_gateways := AList.update gateway_id agents (mh_gateways h)\<rparr>
   | GatewayDisconnected gateway_id \<Rightarrow> h\<lparr>mh_gateways := AList.delete gateway_id (mh_gateways h)\<rparr>
   | _ \<Rightarrow> h)"

definition publish_send :: "monitor_event \<Rightarrow> monitor_hub \<Rightarrow> monitor_hub" where
  "publish_send event h = h\<lparr>mh_sent := mh_sent h @ [event]\<rparr>"

definition publish :: "monitor_event \<Rightarrow> monitor_hub \<Rightarrow> monitor_hub" where
  "publish event h = publish_send event (publish_update event h)"

definition hub_snapshot :: "monitor_hub \<Rightarrow> monitor_event" where
  "hub_snapshot h = Snapshot (sort_key gs_gateway_id
     (map (\<lambda>(gateway_id, agents). \<lparr>gs_gateway_id = gateway_id, gs_agents = agents\<rparr>) (mh_gateways h)))"

section \<open>Scopes\<close>

datatype monitor_scope = Deployment | Projects "uuid set" "string set"

text \<open>The queries; \<open>None\<close> is a failure of the database.\<close>

record monitor_db =
  md_projects_for_gateway :: "string \<Rightarrow> (uuid \<times> string) list option"
  md_resources :: "uuid \<Rightarrow> (string \<times> string) list option"
  md_profile_slugs :: "uuid \<Rightarrow> string list option"

definition allows_project_slug :: "monitor_scope \<Rightarrow> string \<Rightarrow> bool" where
  "allows_project_slug scope slug = (case scope of Deployment \<Rightarrow> True | Projects ids slugs \<Rightarrow> slug \<in> slugs)"

definition allows_gateway :: "monitor_db \<Rightarrow> monitor_scope \<Rightarrow> string \<Rightarrow> bool" where
  "allows_gateway db scope gateway_id = (case scope of
     Deployment \<Rightarrow> True
   | Projects ids slugs \<Rightarrow> (case md_projects_for_gateway db gateway_id of
       Some projects \<Rightarrow> list_ex (\<lambda>(i, _). i \<in> ids) projects | None \<Rightarrow> False))"

definition monitor_resource_matches_agent :: "(string \<times> string) set \<Rightarrow> agent_descriptor \<Rightarrow> bool" where
  "monitor_resource_matches_agent allowed agent \<longleftrightarrow>
     (let provider_key = Option.bind (json_get (descriptor_metadata agent) ''providerKey'') as_string
      in \<exists>(allowed_provider, resource_id) \<in> allowed. resource_id = descriptor_id agent \<and>
           (case provider_key of None \<Rightarrow> True | Some key \<Rightarrow> key = allowed_provider))"

text \<open>The resources of the projects, and the agents of projects that declare no resources.\<close>

fun collect_access ::
    "monitor_db \<Rightarrow> uuid list \<Rightarrow> (string \<times> string) set \<times> string set \<Rightarrow>
     ((string \<times> string) set \<times> string set) option" where
  "collect_access db [] acc = Some acc"
| "collect_access db (i # is) (resources, legacy) =
     Option.bind (md_resources db i) (\<lambda>found.
     if found = [] then
       Option.bind (md_profile_slugs db i) (\<lambda>slugs. collect_access db is (resources, legacy \<union> set slugs))
     else collect_access db is (resources \<union> set found, legacy))"

definition gateway_agents ::
    "monitor_db \<Rightarrow> monitor_scope \<Rightarrow> string \<Rightarrow> agent_descriptor list \<Rightarrow> agent_descriptor list option" where
  "gateway_agents db scope gateway_id agents = (case scope of
     Deployment \<Rightarrow> Some agents
   | Projects ids slugs \<Rightarrow>
       Option.bind (md_projects_for_gateway db gateway_id) (\<lambda>assigned.
       let visible = filter (\<lambda>i. i \<in> ids) (map fst assigned)
       in if visible = [] then None
          else map_option (\<lambda>(resources, legacy).
              filter (\<lambda>agent. descriptor_id agent \<in> legacy \<or> monitor_resource_matches_agent resources agent) agents)
            (collect_access db visible ({}, {}))))"

definition scoped_gateways :: "monitor_db \<Rightarrow> monitor_scope \<Rightarrow> gateway_snapshot list \<Rightarrow> gateway_snapshot list" where
  "scoped_gateways db scope = List.map_filter (\<lambda>g.
     map_option (\<lambda>agents. g\<lparr>gs_agents := agents\<rparr>) (gateway_agents db scope (gs_gateway_id g) (gs_agents g)))"

fun scoped_event_optional :: "monitor_db \<Rightarrow> monitor_scope \<Rightarrow> monitor_event \<Rightarrow> monitor_event option" where
  "scoped_event_optional db scope (Snapshot gateways) = Some (Snapshot (scoped_gateways db scope gateways))"
| "scoped_event_optional db scope (GatewayConnected gateway_id agents) =
     map_option (GatewayConnected gateway_id) (gateway_agents db scope gateway_id agents)"
| "scoped_event_optional db scope (GatewayDisconnected gateway_id) =
     (if allows_gateway db scope gateway_id then Some (GatewayDisconnected gateway_id) else None)"
| "scoped_event_optional db scope (GatewayEnrolled gateway_id enrollment_id) =
     (if allows_gateway db scope gateway_id then Some (GatewayEnrolled gateway_id enrollment_id) else None)"
| "scoped_event_optional db scope (TelemetryEvent gateway_id batch) =
     (if allows_project_slug scope (rt_project_id batch) then Some (TelemetryEvent gateway_id batch) else None)"

definition scoped_event :: "monitor_db \<Rightarrow> monitor_scope \<Rightarrow> monitor_event \<Rightarrow> monitor_event" where
  "scoped_event db scope event =
     (case scoped_event_optional db scope event of Some e \<Rightarrow> e | None \<Rightarrow> Snapshot [])"

section \<open>The scope of a request\<close>

definition project_scope :: "(uuid \<times> string) list \<Rightarrow> monitor_scope" where
  "project_scope projects = Projects (set (map fst projects)) (set (map snd projects))"

datatype resource_permission = NoAccess | ReadAccess | WriteAccess

record project_key =
  pk_project_id :: uuid
  pk_permission :: resource_permission

text \<open>The queries for the projects of a user, for an active project key by its hash, and for a project.\<close>

record scope_db =
  sd_projects_of_user :: "string \<Rightarrow> (uuid \<times> string) list api"
  sd_active_key :: "string \<Rightarrow> project_key api"
  sd_project :: "uuid \<Rightarrow> (uuid \<times> string) api"

definition scope_of_key ::
    "auth_crypto \<Rightarrow> string \<Rightarrow> scope_db \<Rightarrow> string option \<Rightarrow> api_error \<Rightarrow> monitor_scope api" where
  "scope_of_key k pepper db header deployment_error =
     (case bearer_token header of
        Some token \<Rightarrow>
          if \<not> starts_with token ''vifu_pk_'' then Inl deployment_error
          else and_then (sd_active_key db (hash_api_key k token pepper)) (\<lambda>key.
            if pk_permission key = NoAccess then Inl EndpointAccessDenied
            else and_then (sd_project db (pk_project_id key)) (\<lambda>project. Inr (project_scope [project])))
      | None \<Rightarrow> Inl deployment_error)"

definition monitor_scope_of ::
    "auth_crypto \<Rightarrow> application_auth \<Rightarrow> int \<Rightarrow> string \<Rightarrow> scope_db \<Rightarrow> string option \<Rightarrow> monitor_scope api" where
  "monitor_scope_of k a now pepper db header =
     (case authorize k a now header ProjectRead of
        Inr DeploymentAdmin \<Rightarrow> Inr Deployment
      | Inr (ActingUser u) \<Rightarrow>
          and_then (sd_projects_of_user db (user_subject u)) (\<lambda>projects. Inr (project_scope projects))
      | Inl e \<Rightarrow> scope_of_key k pepper db header e)"

section \<open>A monitor socket\<close>

text \<open>Receiving at a position of the channel.\<close>

datatype received = NothingYet | Received monitor_event nat | Lagged nat

definition broadcast_recv :: "monitor_hub \<Rightarrow> nat \<Rightarrow> received" where
  "broadcast_recv h pos =
     (if length (mh_sent h) \<le> pos then NothingYet
      else if pos + mh_capacity h < length (mh_sent h) then Lagged (length (mh_sent h) - mh_capacity h)
      else Received (mh_sent h ! pos) (Suc pos))"

datatype client_phase = Subscribed | Serving | Closed

record monitor_client =
  mc_scope :: monitor_scope
  mc_position :: nat
  mc_phase :: client_phase
  mc_received :: "monitor_event list"

definition client_subscribe :: "monitor_scope \<Rightarrow> monitor_hub \<Rightarrow> monitor_client" where
  "client_subscribe scope h =
     \<lparr>mc_scope = scope, mc_position = length (mh_sent h), mc_phase = Subscribed, mc_received = []\<rparr>"

text \<open>Sending on the socket; when it fails, the socket is closed.\<close>

definition send_event :: "bool \<Rightarrow> monitor_event \<Rightarrow> client_phase \<Rightarrow> monitor_client \<Rightarrow> monitor_client" where
  "send_event ok event phase c =
     (if ok then c\<lparr>mc_received := mc_received c @ [event], mc_phase := phase\<rparr>
      else c\<lparr>mc_phase := Closed\<rparr>)"

definition client_start :: "monitor_db \<Rightarrow> bool \<Rightarrow> monitor_hub \<Rightarrow> monitor_client \<Rightarrow> monitor_client" where
  "client_start db ok h c = send_event ok (scoped_event db (mc_scope c) (hub_snapshot h)) Serving c"

definition client_receive :: "monitor_db \<Rightarrow> bool \<Rightarrow> monitor_hub \<Rightarrow> monitor_client \<Rightarrow> monitor_client" where
  "client_receive db ok h c = (case broadcast_recv h (mc_position c) of
     NothingYet \<Rightarrow> c
   | Received event pos \<Rightarrow> (case scoped_event_optional db (mc_scope c) event of
       Some e \<Rightarrow> send_event ok e Serving (c\<lparr>mc_position := pos\<rparr>)
     | None \<Rightarrow> c\<lparr>mc_position := pos\<rparr>)
   | Lagged pos \<Rightarrow>
       send_event ok (scoped_event db (mc_scope c) (hub_snapshot h)) Serving (c\<lparr>mc_position := pos\<rparr>))"

text \<open>A message of the client is ignored, the end of its messages closes the socket.\<close>

definition client_message :: "bool \<Rightarrow> monitor_client \<Rightarrow> monitor_client" where
  "client_message ends c = (if ends then c\<lparr>mc_phase := Closed\<rparr> else c)"

section \<open>What a scope shows\<close>

definition assigned_to :: "monitor_db \<Rightarrow> uuid set \<Rightarrow> string \<Rightarrow> bool" where
  "assigned_to db ids gateway_id \<longleftrightarrow> (\<exists>projects. md_projects_for_gateway db gateway_id = Some projects \<and>
     (\<exists>(i, _) \<in> set projects. i \<in> ids))"

text \<open>A project makes an agent visible by a resource, or by a profile if it declares no resources.\<close>

definition project_shows :: "monitor_db \<Rightarrow> uuid \<Rightarrow> agent_descriptor \<Rightarrow> bool" where
  "project_shows db i agent \<longleftrightarrow>
     (\<exists>found. md_resources db i = Some found \<and> monitor_resource_matches_agent (set found) agent) \<or>
     md_resources db i = Some [] \<and> (\<exists>slugs. md_profile_slugs db i = Some slugs \<and> descriptor_id agent \<in> set slugs)"

definition agent_visible :: "monitor_db \<Rightarrow> uuid set \<Rightarrow> string \<Rightarrow> agent_descriptor \<Rightarrow> bool" where
  "agent_visible db ids gateway_id agent \<longleftrightarrow>
     (\<exists>projects. md_projects_for_gateway db gateway_id = Some projects \<and>
        (\<exists>(i, _) \<in> set projects. i \<in> ids \<and> project_shows db i agent))"

lemma matches_agent_Un [simp]:
  "monitor_resource_matches_agent (A \<union> B) agent \<longleftrightarrow>
     monitor_resource_matches_agent A agent \<or> monitor_resource_matches_agent B agent"
  by (auto simp: monitor_resource_matches_agent_def Let_def)

lemma matches_agent_empty [simp]: "\<not> monitor_resource_matches_agent {} agent"
  by (simp add: monitor_resource_matches_agent_def)

lemma collect_access_shows:
  assumes "collect_access db is (resources, legacy) = Some (resources', legacy')"
  shows "(descriptor_id agent \<in> legacy' \<or> monitor_resource_matches_agent resources' agent) \<longleftrightarrow>
    (descriptor_id agent \<in> legacy \<or> monitor_resource_matches_agent resources agent) \<or>
    (\<exists>i \<in> set is. project_shows db i agent)"
  using assms
proof (induction db "is" "(resources, legacy)" arbitrary: resources legacy rule: collect_access.induct)
  case (2 db i "is" resources legacy)
  from 2(3) obtain found where found: "md_resources db i = Some found"
    by (auto simp: bind_eq_Some_conv)
  show ?case
  proof (cases "found = []")
    case True
    with 2(3) found obtain slugs where slugs: "md_profile_slugs db i = Some slugs"
      and rest: "collect_access db is (resources, legacy \<union> set slugs) = Some (resources', legacy')"
      by (auto simp: bind_eq_Some_conv)
    from 2(1) [OF found True slugs rest] show ?thesis
      using found slugs True by (auto simp: project_shows_def)
  next
    case False
    with 2(3) found have rest: "collect_access db is (resources \<union> set found, legacy) = Some (resources', legacy')"
      by simp
    from 2(2) [OF found False rest] show ?thesis
      using found False by (auto simp: project_shows_def)
  qed
qed simp

lemma allows_gateway_projects: "allows_gateway db (Projects ids slugs) gateway_id \<longleftrightarrow> assigned_to db ids gateway_id"
  by (cases "md_projects_for_gateway db gateway_id")
    (simp_all add: allows_gateway_def assigned_to_def list_ex_iff)

lemma gateway_agents_project:
  assumes "gateway_agents db (Projects ids slugs) gateway_id agents = Some shown"
  shows "assigned_to db ids gateway_id" and "shown = filter (agent_visible db ids gateway_id) agents"
proof -
  from assms obtain projects resources legacy where
    projects: "md_projects_for_gateway db gateway_id = Some projects"
    and some: "filter (\<lambda>i. i \<in> ids) (map fst projects) \<noteq> []"
    and access: "collect_access db (filter (\<lambda>i. i \<in> ids) (map fst projects)) ({}, {}) = Some (resources, legacy)"
    and shown: "shown = filter (\<lambda>agent. descriptor_id agent \<in> legacy \<or>
      monitor_resource_matches_agent resources agent) agents"
    by (auto simp: gateway_agents_def bind_eq_Some_conv Let_def split: if_splits)
  show "assigned_to db ids gateway_id"
  proof -
    from some obtain x where "x \<in> set projects" "fst x \<in> ids" by (auto simp: filter_empty_conv)
    with projects show ?thesis by (cases x) (auto simp: assigned_to_def)
  qed
  have "agent_visible db ids gateway_id agent \<longleftrightarrow>
      descriptor_id agent \<in> legacy \<or> monitor_resource_matches_agent resources agent" for agent
  proof -
    have "(\<exists>i \<in> set (filter (\<lambda>i. i \<in> ids) (map fst projects)). project_shows db i agent) \<longleftrightarrow>
        agent_visible db ids gateway_id agent"
      by (simp add: agent_visible_def projects case_prod_unfold)
    with collect_access_shows [OF access] show ?thesis by simp
  qed
  with shown show "shown = filter (agent_visible db ids gateway_id) agents" by presburger
qed

section \<open>What a client of the deployment knows\<close>

text \<open>The gateways and agents a client knows from the events it received.\<close>

fun view_apply :: "monitor_event \<Rightarrow> (string \<rightharpoonup> agent_descriptor list) \<Rightarrow> (string \<rightharpoonup> agent_descriptor list)" where
  "view_apply (Snapshot gateways) v = map_of (map (\<lambda>g. (gs_gateway_id g, gs_agents g)) gateways)"
| "view_apply (GatewayConnected gateway_id agents) v = v(gateway_id \<mapsto> agents)"
| "view_apply (GatewayDisconnected gateway_id) v = v(gateway_id := None)"
| "view_apply (GatewayEnrolled gateway_id enrollment_id) v = v"
| "view_apply (TelemetryEvent gateway_id batch) v = v"

definition known_gateways :: "monitor_event list \<Rightarrow> (string \<rightharpoonup> agent_descriptor list)" where
  "known_gateways events = fold view_apply events Map.empty"

fun is_change :: "monitor_event \<Rightarrow> bool" where
  "is_change (Snapshot gateways) = False"
| "is_change event = True"

fun last_word :: "string \<Rightarrow> monitor_event list \<Rightarrow> agent_descriptor list option option" where
  "last_word gateway_id [] = None"
| "last_word gateway_id (e # es) = (case last_word gateway_id es of
     Some w \<Rightarrow> Some w
   | None \<Rightarrow> (case e of
       GatewayConnected g agents \<Rightarrow> if g = gateway_id then Some (Some agents) else None
     | GatewayDisconnected g \<Rightarrow> if g = gateway_id then Some None else None
     | _ \<Rightarrow> None))"

lemma fold_view_last:
  assumes "list_all is_change es"
  shows "fold view_apply es v gateway_id = (case last_word gateway_id es of Some w \<Rightarrow> w | None \<Rightarrow> v gateway_id)"
  using assms
proof (induction es arbitrary: v)
  case (Cons e es)
  then show ?case by (cases e) (auto split: option.splits)
qed simp

text \<open>Hearing old changes again leaves a view as it is.\<close>

lemma fold_view_again:
  assumes "list_all is_change (ds @ es)"
  shows "fold view_apply es (fold view_apply (ds @ es) v) = fold view_apply (ds @ es) v"
proof
  fix g
  show "fold view_apply es (fold view_apply (ds @ es) v) g = fold view_apply (ds @ es) v g"
    using assms by (simp add: fold_view_last split: option.split)
qed

lemma scoped_gateways_all [simp]: "scoped_gateways db Deployment gateways = gateways"
  by (induction gateways) (simp_all add: scoped_gateways_def gateway_agents_def List.map_filter_simps)

lemma scoped_event_all [simp]: "scoped_event_optional db Deployment e = Some e"
  by (cases e) (simp_all add: gateway_agents_def allows_gateway_def allows_project_slug_def)

lemma map_of_sorted:
  assumes "distinct (map f xs)"
  shows "map_of (map (\<lambda>x. (f x, g x)) (sort_key f xs)) = map_of (map (\<lambda>x. (f x, g x)) xs)"
proof -
  have "mset (map f (sort_key f xs)) = mset (map f xs)" by (simp only: mset_map mset_sort)
  then have "distinct (map f (sort_key f xs)) = distinct (map f xs)" by (rule mset_eq_imp_distinct_iff)
  with assms show ?thesis by (intro map_of_inject_set [THEN iffD2]) (simp_all add: comp_def)
qed

lemma view_snapshot:
  assumes "distinct (map fst (mh_gateways h))"
  shows "view_apply (hub_snapshot h) v = map_of (mh_gateways h)"
proof -
  let ?rows = "map (\<lambda>(gateway_id, agents). \<lparr>gs_gateway_id = gateway_id, gs_agents = agents\<rparr>) (mh_gateways h)"
  have "map gs_gateway_id ?rows = map fst (mh_gateways h)"
    and "map (\<lambda>g. (gs_gateway_id g, gs_agents g)) ?rows = mh_gateways h"
    by (simp_all add: comp_def case_prod_unfold)
  with map_of_sorted [of gs_gateway_id ?rows gs_agents] assms show ?thesis
    by (simp only: hub_snapshot_def view_apply.simps)
qed

section \<open>Histories of a hub and a client\<close>

text \<open>Publishing of changes, one after the other, and the steps of a client whose socket works.\<close>

inductive monitor_reach :: "monitor_db \<Rightarrow> monitor_hub \<Rightarrow> monitor_client option \<Rightarrow> bool" for db where
  reach_new: "0 < capacity \<Longrightarrow>
    monitor_reach db \<lparr>mh_sent = [], mh_capacity = capacity, mh_gateways = []\<rparr> None"
| reach_publish: "monitor_reach db h c \<Longrightarrow> is_change e \<Longrightarrow> monitor_reach db (publish e h) c"
| reach_subscribe: "monitor_reach db h None \<Longrightarrow> monitor_reach db h (Some (client_subscribe Deployment h))"
| reach_start: "monitor_reach db h (Some c) \<Longrightarrow> mc_phase c = Subscribed \<Longrightarrow>
    monitor_reach db h (Some (client_start db True h c))"
| reach_receive: "monitor_reach db h (Some c) \<Longrightarrow> mc_phase c = Serving \<Longrightarrow>
    monitor_reach db h (Some (client_receive db True h c))"

definition hub_ok :: "monitor_hub \<Rightarrow> bool" where
  "hub_ok h \<longleftrightarrow> 0 < mh_capacity h \<and> distinct (map fst (mh_gateways h)) \<and>
     list_all is_change (mh_sent h) \<and> map_of (mh_gateways h) = known_gateways (mh_sent h)"

definition client_ok :: "monitor_hub \<Rightarrow> monitor_client \<Rightarrow> bool" where
  "client_ok h c \<longleftrightarrow> mc_scope c = Deployment \<and> mc_position c \<le> length (mh_sent h) \<and>
     (mc_phase c = Subscribed \<or> mc_phase c = Serving) \<and>
     (mc_phase c = Serving \<longrightarrow>
       fold view_apply (drop (mc_position c) (mh_sent h)) (known_gateways (mc_received c)) =
         map_of (mh_gateways h))"

lemma distinct_keys_delete: "distinct (map fst m) \<Longrightarrow> distinct (map fst (AList.delete k m))"
  by (simp add: distinct_delete)

lemma publish_gateways:
  assumes "is_change e"
  shows "map_of (mh_gateways (publish_update e h)) = view_apply e (map_of (mh_gateways h))"
    and "distinct (map fst (mh_gateways h)) \<Longrightarrow> distinct (map fst (mh_gateways (publish_update e h)))"
    and "mh_sent (publish_update e h) = mh_sent h" "mh_capacity (publish_update e h) = mh_capacity h"
  using assms by (cases e; simp add: publish_update_def distinct_keys_update distinct_keys_delete)+

lemma hub_ok_publish: "hub_ok h \<Longrightarrow> is_change e \<Longrightarrow> hub_ok (publish e h)"
  by (simp add: hub_ok_def publish_def publish_send_def publish_gateways known_gateways_def)

lemma client_ok_publish: "client_ok h c \<Longrightarrow> is_change e \<Longrightarrow> client_ok (publish e h) c"
  by (auto simp: client_ok_def publish_def publish_send_def publish_gateways)

lemma known_gateways_snoc [simp]: "known_gateways (es @ [e]) = view_apply e (known_gateways es)"
  by (simp add: known_gateways_def)

text \<open>A client that just heard a snapshot knows the table, whatever old changes it hears again.\<close>

lemma snapshot_then_old:
  assumes "hub_ok h"
  shows "fold view_apply (drop n (mh_sent h)) (view_apply (hub_snapshot h) v) = map_of (mh_gateways h)"
proof -
  have "list_all is_change (take n (mh_sent h) @ drop n (mh_sent h))"
    using assms by (simp add: hub_ok_def)
  from fold_view_again [OF this, of Map.empty] assms show ?thesis
    by (simp add: hub_ok_def view_snapshot known_gateways_def)
qed

lemma client_ok_start:
  assumes "hub_ok h" and "client_ok h c"
  shows "client_ok h (client_start db True h c)"
  using assms snapshot_then_old [OF assms(1)]
  by (simp add: client_ok_def client_start_def send_event_def scoped_event_def)

lemma client_ok_receive:
  assumes hub: "hub_ok h" and c: "client_ok h c" and serving: "mc_phase c = Serving"
  shows "client_ok h (client_receive db True h c)"
    and "mc_phase (client_receive db True h c) = Serving"
    and "mc_position c < length (mh_sent h) \<Longrightarrow> mc_position c < mc_position (client_receive db True h c)"
    and "length (mh_sent h) \<le> mc_position c \<Longrightarrow> client_receive db True h c = c"
proof -
  let ?n = "length (mh_sent h)"
  consider (none) "?n \<le> mc_position c"
    | (lagged) "mc_position c < ?n" "mc_position c + mh_capacity h < ?n"
    | (event) "mc_position c < ?n" "\<not> mc_position c + mh_capacity h < ?n" by linarith
  note cases = this
  show "mc_phase (client_receive db True h c) = Serving"
    using serving c by (cases rule: cases)
      (simp_all add: client_ok_def client_receive_def broadcast_recv_def send_event_def scoped_event_def)
  show "mc_position c < mc_position (client_receive db True h c)" if "mc_position c < ?n"
    using that c by (cases rule: cases)
      (simp_all add: client_ok_def client_receive_def broadcast_recv_def send_event_def)
  show "client_receive db True h c = c" if "?n \<le> mc_position c"
    using that by (simp add: client_receive_def broadcast_recv_def)
  show "client_ok h (client_receive db True h c)"
  proof (cases rule: cases)
    case none
    with c show ?thesis by (simp add: client_receive_def broadcast_recv_def)
  next
    case lagged
    with c hub snapshot_then_old [OF hub] show ?thesis
      by (simp add: client_receive_def broadcast_recv_def send_event_def scoped_event_def client_ok_def hub_ok_def)
  next
    case event
    then have "drop (mc_position c) (mh_sent h) =
        mh_sent h ! mc_position c # drop (Suc (mc_position c)) (mh_sent h)"
      by (simp add: Cons_nth_drop_Suc)
    with event c serving show ?thesis
      by (simp add: client_receive_def broadcast_recv_def send_event_def client_ok_def)
  qed
qed

lemma client_serving_start: "mc_phase (client_start db True h c) = Serving"
  by (simp add: client_start_def send_event_def)

lemma reach_ok: "monitor_reach db h c \<Longrightarrow> hub_ok h \<and> (case c of None \<Rightarrow> True | Some c \<Rightarrow> client_ok h c)"
proof (induction rule: monitor_reach.induct)
  case (reach_new capacity)
  then show ?case by (simp add: hub_ok_def known_gateways_def)
next
  case (reach_publish h c e)
  then show ?case by (auto intro: hub_ok_publish client_ok_publish split: option.splits)
next
  case (reach_subscribe h)
  then show ?case by (simp add: client_subscribe_def client_ok_def)
next
  case (reach_start h c)
  then show ?case by (simp add: client_ok_start)
next
  case (reach_receive h c)
  then show ?case by (simp add: client_ok_receive)
qed

text \<open>Receiving until nothing is left.\<close>

definition drain_client :: "monitor_db \<Rightarrow> monitor_hub \<Rightarrow> nat \<Rightarrow> monitor_client \<Rightarrow> monitor_client" where
  "drain_client db h n c = (client_receive db True h ^^ n) c"

lemma drain_client_ok:
  assumes "hub_ok h" and "client_ok h c" and "mc_phase c = Serving"
    and "length (mh_sent h) \<le> mc_position c + n"
  shows "client_ok h (drain_client db h n c) \<and> mc_phase (drain_client db h n c) = Serving \<and>
    mc_position (drain_client db h n c) = length (mh_sent h)"
  using assms(2-)
proof (induction n arbitrary: c)
  case 0
  then show ?case by (simp add: drain_client_def client_ok_def)
next
  case (Suc n)
  note step = client_ok_receive [OF assms(1) Suc.prems(1,2), where db = db]
  have "length (mh_sent h) \<le> mc_position (client_receive db True h c) + n"
  proof (cases "mc_position c < length (mh_sent h)")
    case True
    with step(3) Suc.prems(3) show ?thesis by linarith
  next
    case False
    with step(4) show ?thesis by simp
  qed
  note rest = this
  from Suc.IH [OF step(1,2) rest] show ?case
    by (simp add: drain_client_def funpow_swap1)
qed

section \<open>Properties\<close>

text \<open>a monitor client of the deployment catches up: whatever was published and however far it fell
  behind, once it received as often as events were sent it knows exactly the connected gateways and
  their agents.
\<close>

theorem monitor_client_catches_up:
  assumes "monitor_reach db h (Some c)" and "mc_phase c = Serving"
  shows "known_gateways (mc_received (drain_client db h (length (mh_sent h)) c)) = map_of (mh_gateways h)"
proof -
  from reach_ok [OF assms(1)] have "hub_ok h" "client_ok h c" by simp_all
  from drain_client_ok [OF this assms(2), where db = db and n = "length (mh_sent h)"] show ?thesis
    by (auto simp: client_ok_def)
qed

definition sample_db :: monitor_db where
  "sample_db = \<lparr>md_projects_for_gateway = (\<lambda>g. if g = ''gw-1'' then Some [(1, ''demo'')] else Some []),
     md_resources = (\<lambda>i. Some [(''llama'', ''writer'')]), md_profile_slugs = (\<lambda>i. Some [])\<rparr>"

definition sample_agent :: "string \<Rightarrow> agent_descriptor" where
  "sample_agent ident = \<lparr>descriptor_id = ident, descriptor_name = ident, descriptor_metadata = empty_object\<rparr>"

theorem monitor_client_catches_up_witness:
  "\<exists>h c. monitor_reach sample_db h (Some c) \<and> mc_phase c = Serving \<and>
     length (mh_sent h) = 2 \<and> mc_position c = 0 \<and>
     known_gateways (mc_received (drain_client sample_db h (length (mh_sent h)) c)) = map_of (mh_gateways h) \<and>
     map_of (mh_gateways h) ''gw-1'' = None"
proof -
  let ?new = "\<lparr>mh_sent = [], mh_capacity = 1, mh_gateways = []\<rparr>"
  let ?c = "client_start sample_db True ?new (client_subscribe Deployment ?new)"
  let ?h = "publish (GatewayDisconnected ''gw-1'') (publish (GatewayConnected ''gw-1'' [sample_agent ''writer'']) ?new)"
  have "monitor_reach sample_db ?new None" by (rule reach_new) simp
  from reach_subscribe [OF this] have "monitor_reach sample_db ?new (Some ?c)"
    by (rule reach_start) (simp add: client_subscribe_def)
  then have "monitor_reach sample_db (publish (GatewayConnected ''gw-1'' [sample_agent ''writer'']) ?new) (Some ?c)"
    by (rule reach_publish) simp
  then have reach: "monitor_reach sample_db ?h (Some ?c)" by (rule reach_publish) simp
  have serving: "mc_phase ?c = Serving" by (rule client_serving_start)
  have "length (mh_sent ?h) = 2" "mc_position ?c = 0" "map_of (mh_gateways ?h) ''gw-1'' = None"
    by (simp_all add: publish_def publish_send_def publish_update_def client_start_def send_event_def
        client_subscribe_def)
  with monitor_client_catches_up [OF reach serving] reach serving show ?thesis by blast
qed

text \<open>The two halves of \<open>publish\<close> are not one step: two tasks that report about the same gateway can
  leave every client with the wrong state.\<close>

theorem publish_can_be_reordered:
  "let connected = GatewayConnected ''gw-1'' [sample_agent ''writer'']; gone = GatewayDisconnected ''gw-1'';
       h = publish_send connected (publish_send gone (publish_update gone (publish_update connected
         \<lparr>mh_sent = [], mh_capacity = 64, mh_gateways = []\<rparr>)))
   in map_of (mh_gateways h) ''gw-1'' = None \<and>
      known_gateways (mh_sent h) ''gw-1'' = Some [sample_agent ''writer'']"
  by (simp add: Let_def publish_send_def publish_update_def known_gateways_def)

text \<open>C21: a client of some projects sees nothing else: telemetry only of its projects, gateways only if they
  serve one of its projects, and of their agents exactly those that one of its projects uses.
\<close>

theorem monitor_scope_isolates:
  assumes "scoped_event_optional db (Projects ids slugs) event = Some shown"
  shows "case shown of
      Snapshot gateways \<Rightarrow> (\<exists>all. event = Snapshot all \<and> (\<forall>g \<in> set gateways.
        assigned_to db ids (gs_gateway_id g) \<and> (\<exists>g' \<in> set all. gs_gateway_id g' = gs_gateway_id g \<and>
          gs_agents g = filter (agent_visible db ids (gs_gateway_id g)) (gs_agents g'))))
    | GatewayConnected gateway_id agents \<Rightarrow> assigned_to db ids gateway_id \<and>
        (\<exists>all. event = GatewayConnected gateway_id all \<and> agents = filter (agent_visible db ids gateway_id) all)
    | GatewayDisconnected gateway_id \<Rightarrow> event = shown \<and> assigned_to db ids gateway_id
    | GatewayEnrolled gateway_id enrollment_id \<Rightarrow> event = shown \<and> assigned_to db ids gateway_id
    | TelemetryEvent gateway_id batch \<Rightarrow> event = shown \<and> rt_project_id batch \<in> slugs"
proof (cases event)
  case (Snapshot all)
  have "assigned_to db ids (gs_gateway_id g) \<and> (\<exists>g' \<in> set all. gs_gateway_id g' = gs_gateway_id g \<and>
      gs_agents g = filter (agent_visible db ids (gs_gateway_id g)) (gs_agents g'))"
    if "g \<in> set (scoped_gateways db (Projects ids slugs) all)" for g
  proof -
    from that obtain g' agents where g': "g' \<in> set all" "g = g'\<lparr>gs_agents := agents\<rparr>"
      "gateway_agents db (Projects ids slugs) (gs_gateway_id g') (gs_agents g') = Some agents"
      by (auto simp: scoped_gateways_def List.map_filter_def)
    with gateway_agents_project [OF g'(3)] show ?thesis by auto
  qed
  with Snapshot assms show ?thesis by auto
next
  case (GatewayConnected gateway_id all)
  with assms gateway_agents_project [of db ids slugs gateway_id all] show ?thesis by auto
qed (use assms in \<open>auto simp: allows_gateway_projects allows_project_slug_def split: if_splits\<close>)

theorem monitor_scope_isolates_witness:
  "scoped_event_optional sample_db (Projects {1} {''demo''})
     (GatewayConnected ''gw-1'' [sample_agent ''writer'', sample_agent ''painter'']) =
       Some (GatewayConnected ''gw-1'' [sample_agent ''writer'']) \<and>
   assigned_to sample_db {1} ''gw-1'' \<and> agent_visible sample_db {1} ''gw-1'' (sample_agent ''writer'')"
proof -
  have shown: "scoped_event_optional sample_db (Projects {1} {''demo''})
     (GatewayConnected ''gw-1'' [sample_agent ''writer'', sample_agent ''painter'']) =
       Some (GatewayConnected ''gw-1'' [sample_agent ''writer''])"
    by (simp add: gateway_agents_def sample_db_def sample_agent_def monitor_resource_matches_agent_def Let_def)
  from monitor_scope_isolates [OF this] shown show ?thesis
    by (auto simp: filter_eq_Cons_iff sample_agent_def split: if_splits)
qed

end
