(* ===== verification/Gateway_Socket.thy ===== *)
theory Gateway_Socket
  imports Relay_Hub Server_Monitor
begin

text \<open>
  The connection of an admitted gateway (\<open>crates/vifu-server/src/websocket.rs\<close>, \<open>run_socket\<close> from the
  opening of its session): how one task drives the relay hub, the monitor and the sessions of the
  database. A step runs from one await point to the next, and every result the task awaits (of a send, of
  a received frame, of the storage of telemetry) is an argument of the step. Many tasks run interleaved
  with each other and with the calls of the hub.
\<close>

section \<open>Sessions of the database\<close>

record session_row =
  ss_session_id :: uuid
  ss_gateway_id :: string
  ss_connected :: bool

text \<open>Opening disconnects the gateway's session and resumes or creates one; at most one is connected.\<close>

definition open_agent_gateway_session ::
    "string \<Rightarrow> uuid option \<Rightarrow> uuid \<Rightarrow> session_row list \<Rightarrow> ((uuid \<times> bool) \<times> session_row list) option" where
  "open_agent_gateway_session gateway_id resume_session_id fresh rows =
     (let closed = map (\<lambda>r. if ss_gateway_id r = gateway_id then r\<lparr>ss_connected := False\<rparr> else r) rows;
          mine = (\<lambda>i r. ss_session_id r = i \<and> ss_gateway_id r = gateway_id)
      in case resume_session_id of
        Some i \<Rightarrow>
          if list_ex (mine i) closed
          then Some ((i, True), map (\<lambda>r. if mine i r then r\<lparr>ss_connected := True\<rparr> else r) closed)
          else if list_ex (\<lambda>r. ss_session_id r = fresh) closed then None
          else Some ((fresh, False), closed @ [\<lparr>ss_session_id = fresh, ss_gateway_id = gateway_id, ss_connected = True\<rparr>])
      | None \<Rightarrow>
          if list_ex (\<lambda>r. ss_session_id r = fresh) closed then None
          else Some ((fresh, False), closed @ [\<lparr>ss_session_id = fresh, ss_gateway_id = gateway_id, ss_connected = True\<rparr>]))"

definition close_agent_gateway_session :: "uuid \<Rightarrow> session_row list \<Rightarrow> session_row list" where
  "close_agent_gateway_session i = map (\<lambda>r. if ss_session_id r = i then r\<lparr>ss_connected := False\<rparr> else r)"

text \<open>The index of connected sessions refuses a second one; the caller only logs the refusal.\<close>

definition touch_agent_gateway_session :: "uuid \<Rightarrow> session_row list \<Rightarrow> session_row list" where
  "touch_agent_gateway_session i rows =
     (let other = (\<lambda>r. ss_connected r \<and> ss_session_id r \<noteq> i \<and>
            (\<exists>mine \<in> set rows. ss_session_id mine = i \<and> ss_gateway_id mine = ss_gateway_id r))
      in if list_ex other rows then rows
         else map (\<lambda>r. if ss_session_id r = i then r\<lparr>ss_connected := True\<rparr> else r) rows)"

section \<open>Features of a gateway\<close>

definition gateway_supports_feature :: "json \<Rightarrow> string \<Rightarrow> bool" where
  "gateway_supports_feature metadata feature =
     (case json_get metadata ''features'' of
        Some (JArray features) \<Rightarrow> JString feature \<in> set features
      | _ \<Rightarrow> False)"

definition MAX_GATEWAY_NAME_CHARS :: nat where "MAX_GATEWAY_NAME_CHARS = 128"

definition bounded_gateway_name :: "json \<Rightarrow> string option" where
  "bounded_gateway_name v = (case v of
     JString name \<Rightarrow> (let name = trim name
       in if name = [] \<or> MAX_GATEWAY_NAME_CHARS < char_count name then None else Some name)
   | _ \<Rightarrow> None)"

definition or_else :: "'a option \<Rightarrow> 'a option \<Rightarrow> 'a option" where
  "or_else a b = (case a of Some x \<Rightarrow> Some x | None \<Rightarrow> b)"

definition normalized_gateway_metadata :: "json \<Rightarrow> agent_descriptor list \<Rightarrow> json" where
  "normalized_gateway_metadata metadata agents =
     (let members = (case metadata of JObject kvs \<Rightarrow> kvs | _ \<Rightarrow> []);
          reported = or_else (Option.bind (map_of members ''name'') bounded_gateway_name)
            (or_else (Option.bind (Option.bind (map_of members ''application'') (\<lambda>a. json_get a ''name''))
               bounded_gateway_name)
              (case agents of [] \<Rightarrow> None | a # _ \<Rightarrow> bounded_gateway_name (JString (descriptor_name a))));
          name = (case reported of Some name \<Rightarrow> name | None \<Rightarrow> ''Vifu Gateway'')
      in JObject (bt_insert ''name'' (JString name) members))"

definition APPLICATION_FEEDBACK_FEATURE :: string where
  "APPLICATION_FEEDBACK_FEATURE = ''trace.application-feedback.v1''"
definition EMBEDDED_LIVE_MONITOR_FEATURE :: string where
  "EMBEDDED_LIVE_MONITOR_FEATURE = ''embedded-live-monitor-v1''"
definition RUNTIME_HOST_METRICS_FEATURE :: string where
  "RUNTIME_HOST_METRICS_FEATURE = ''runtime-host-metrics-v1''"
definition INVOCATION_ACTIVITY_FEATURE :: string where
  "INVOCATION_ACTIVITY_FEATURE = ''agent.invocation-activity.v1''"

section \<open>Tasks\<close>

text \<open>\<open>SocketAborted\<close> is a return by \<open>?\<close>, which skips the unregistration.\<close>

datatype socket_phase =
    SocketOpened
  | SocketWelcoming
  | SocketReadying "Gateway_Protocol.gateway_command list"
  | SocketServing nat
  | SocketClosing "(string, unit) result"
  | SocketLeaving "(string, unit) result"
  | SocketPublishing "(string, unit) result"
  | SocketEnded "(string, unit) result"
  | SocketAborted string

record socket_task =
  sk_gateway :: string
  sk_connection :: uuid
  sk_session :: uuid
  sk_sender :: nat
  sk_agents :: "agent_descriptor list"
  sk_enrollment :: "uuid option"
  sk_metadata :: json
  sk_phase :: socket_phase

record socket_server =
  sv_relay :: relay_hub
  sv_monitor :: monitor_hub
  sv_sessions :: "session_row list"
  sv_tasks :: "nat \<rightharpoonup> socket_task"
  sv_interval :: nat  \<comment> \<open>the heartbeat interval in milliseconds\<close>

definition supports :: "socket_task \<Rightarrow> string \<Rightarrow> bool" where
  "supports t = gateway_supports_feature (sk_metadata t)"

definition set_socket :: "nat \<Rightarrow> socket_task \<Rightarrow> socket_phase \<Rightarrow> socket_server \<Rightarrow> socket_server" where
  "set_socket n t phase s = s\<lparr>sv_tasks := (sv_tasks s)(n \<mapsto> t\<lparr>sk_phase := phase\<rparr>)\<rparr>"

definition on_relay :: "(relay_hub \<Rightarrow> relay_hub) \<Rightarrow> socket_server \<Rightarrow> socket_server" where
  "on_relay f s = s\<lparr>sv_relay := f (sv_relay s)\<rparr>"

definition on_monitor :: "(monitor_hub \<Rightarrow> monitor_hub) \<Rightarrow> socket_server \<Rightarrow> socket_server" where
  "on_monitor f s = s\<lparr>sv_monitor := f (sv_monitor s)\<rparr>"

definition on_sessions :: "(session_row list \<Rightarrow> session_row list) \<Rightarrow> socket_server \<Rightarrow> socket_server" where
  "on_sessions f s = s\<lparr>sv_sessions := f (sv_sessions s)\<rparr>"

text \<open>The receiver of the commands is dropped with the task.\<close>

definition close_channel :: "nat \<Rightarrow> relay_hub \<Rightarrow> relay_hub" where
  "close_channel i hub = (case hub_channels hub i of
     Some ch \<Rightarrow> hub\<lparr>hub_channels := (hub_channels hub)(i \<mapsto> ch\<lparr>channel_closed := True\<rparr>)\<rparr>
   | None \<Rightarrow> hub)"

definition end_socket :: "nat \<Rightarrow> socket_task \<Rightarrow> socket_phase \<Rightarrow> socket_server \<Rightarrow> socket_server" where
  "end_socket n t phase s = set_socket n t phase (on_relay (close_channel (sk_sender t)) s)"

section \<open>Before serving\<close>

definition socket_open ::
    "nat \<Rightarrow> string \<Rightarrow> uuid option \<Rightarrow> uuid \<Rightarrow> uuid \<Rightarrow> nat \<Rightarrow> agent_descriptor list \<Rightarrow> uuid option \<Rightarrow> json \<Rightarrow>
     socket_server \<Rightarrow> socket_server option" where
  "socket_open n gateway_id resume fresh connection_id sender agents enrollment_id metadata s =
     map_option (\<lambda>((session_id, resumed), rows). s\<lparr>sv_sessions := rows, sv_tasks := (sv_tasks s)(n \<mapsto>
         \<lparr>sk_gateway = gateway_id, sk_connection = connection_id, sk_session = session_id, sk_sender = sender,
          sk_agents = agents, sk_enrollment = enrollment_id,
          sk_metadata = normalized_gateway_metadata metadata agents, sk_phase = SocketOpened\<rparr>)\<rparr>)
       (open_agent_gateway_session gateway_id resume fresh (sv_sessions s))"

definition socket_connection :: "socket_task \<Rightarrow> gateway_connection" where
  "socket_connection t = \<lparr>gc_connection_id = sk_connection t, gc_session_id = sk_session t,
     gc_sender = sk_sender t, gc_feedback_supported = supports t APPLICATION_FEEDBACK_FEATURE,
     gc_activity_supported = supports t INVOCATION_ACTIVITY_FEATURE\<rparr>"

definition socket_register :: "nat \<Rightarrow> socket_task \<Rightarrow> socket_server \<Rightarrow> socket_server" where
  "socket_register n t s = set_socket n t SocketWelcoming
     (on_relay (relay_register (sk_gateway t) (socket_connection t) \<circ> open_channel (sk_sender t)) s)"

definition ready_commands :: "socket_task \<Rightarrow> Gateway_Protocol.gateway_command list" where
  "ready_commands t =
     (if supports t EMBEDDED_LIVE_MONITOR_FEATURE then [RuntimeMonitoringReady] else []) @
     (if supports t RUNTIME_HOST_METRICS_FEATURE then [RuntimeHostMetricsReady] else []) @
     (if supports t INVOCATION_ACTIVITY_FEATURE then [InvocationActivityReady] else [])"

definition socket_welcome ::
    "(string, unit) result \<Rightarrow> nat \<Rightarrow> socket_task \<Rightarrow> socket_server \<Rightarrow> socket_server" where
  "socket_welcome sent n t s = (case sent of
     Inl e \<Rightarrow> end_socket n t (SocketAborted e) s
   | Inr _ \<Rightarrow> set_socket n t (SocketReadying (ready_commands t))
       (on_monitor ((case sk_enrollment t of Some i \<Rightarrow> publish (GatewayEnrolled (sk_gateway t) i) | None \<Rightarrow> id) \<circ>
          publish (GatewayConnected (sk_gateway t) (sk_agents t))) s))"

definition socket_ready ::
    "(string, unit) result \<Rightarrow> nat \<Rightarrow> nat \<Rightarrow> socket_task \<Rightarrow> Gateway_Protocol.gateway_command list \<Rightarrow>
     socket_server \<Rightarrow> socket_server" where
  "socket_ready sent now n t commands s = (case commands of
     [] \<Rightarrow> set_socket n t (SocketServing now) s
   | c # rest \<Rightarrow> (case sent of
       Inl e \<Rightarrow> end_socket n t (SocketAborted e) s
     | Inr _ \<Rightarrow> set_socket n t (SocketReadying rest) s))"

section \<open>The loop\<close>

fun ends_connection :: "Relay_Hub.gateway_command \<Rightarrow> bool" where
  "ends_connection (Relay_Hub.ErrorCommand r ch code m) \<longleftrightarrow>
     code = ''SESSION_REPLACED'' \<or> code = ''CREDENTIAL_REVOKED''"
| "ends_connection c \<longleftrightarrow> False"

text \<open>\<open>receiver.recv()\<close>: the next queued command, or the end when no sender is left.\<close>

definition socket_outbound ::
    "(string, unit) result \<Rightarrow> nat \<Rightarrow> socket_task \<Rightarrow> socket_server \<Rightarrow> socket_server option" where
  "socket_outbound sent n t s = (case hub_channels (sv_relay s) (sk_sender t) of
     None \<Rightarrow> None
   | Some ch \<Rightarrow> (case channel_queue ch of
       c # rest \<Rightarrow>
         let received = on_relay (\<lambda>hub. hub\<lparr>hub_channels := (hub_channels hub)(sk_sender t \<mapsto>
               ch\<lparr>channel_queue := rest\<rparr>)\<rparr>) s
         in Some (case sent of
              Inl e \<Rightarrow> set_socket n t (SocketClosing (Inl e)) received
            | Inr _ \<Rightarrow> if ends_connection c then set_socket n t (SocketClosing (Inr ())) received else received)
     | [] \<Rightarrow>
         if list_ex (\<lambda>(_, c). gc_sender c = sk_sender t) (hub_connections (sv_relay s)) then None
         else Some (set_socket n t (SocketClosing (Inr ())) s)))"

datatype incoming = Message Gateway_Protocol.gateway_command | ReceiveError string

text \<open>The outcome of \<open>persist_runtime_telemetry\<close>.\<close>

datatype telemetry_persisted = TelemetryStored | TelemetryOff | TelemetryInvalid string | TelemetryStorageError

definition heartbeat_received :: "nat \<Rightarrow> socket_task \<Rightarrow> uuid \<Rightarrow> bool \<Rightarrow> (string, unit) result \<Rightarrow> nat \<Rightarrow>
    socket_server \<Rightarrow> socket_server" where
  "heartbeat_received n t received answered sent now s =
     (if received \<noteq> sk_session t
      then set_socket n t (SocketClosing (Inl ''heartbeat session does not match this connection'')) s
      else
        let touched = on_sessions (touch_agent_gateway_session (sk_session t)) s
        in case (answered, sent) of
          (True, Inl e) \<Rightarrow> end_socket n t (SocketAborted e) touched
        | _ \<Rightarrow> set_socket n t (SocketServing now) touched)"

definition telemetry_received :: "nat \<Rightarrow> socket_task \<Rightarrow> runtime_telemetry_batch \<Rightarrow> telemetry_persisted \<Rightarrow>
    nat \<Rightarrow> socket_server \<Rightarrow> socket_server" where
  "telemetry_received n t batch persisted now s = (case persisted of
     TelemetryStored \<Rightarrow> set_socket n t (SocketServing now)
       (on_monitor (publish (TelemetryEvent (sk_gateway t) batch)) s)
   | TelemetryInvalid m \<Rightarrow> set_socket n t (SocketClosing (Inl m)) s
   | _ \<Rightarrow> set_socket n t (SocketServing now) s)"

text \<open>One frame of the gateway at time \<open>now\<close>; \<open>sent\<close> is the result of sending an acknowledgement.\<close>

definition socket_incoming ::
    "incoming \<Rightarrow> telemetry_persisted \<Rightarrow> (string, unit) result \<Rightarrow> nat \<Rightarrow> nat \<Rightarrow> socket_task \<Rightarrow>
     socket_server \<Rightarrow> socket_server" where
  "socket_incoming frame persisted sent now n t s =
     (let stay = set_socket n t (SocketServing now);
          unexpected = set_socket n t (SocketClosing (Inl ''agent gateway sent an unexpected message'')) s
      in case frame of
        ReceiveError e \<Rightarrow> set_socket n t
          (SocketClosing (if e = ''agent gateway disconnected'' then Inr () else Inl e)) s
      | Message (ResultCommand request r) \<Rightarrow> stay (on_relay (snd \<circ>
          complete_result (sk_connection t) request (result_channel_id r) (result_output r)) s)
      | Message (InvocationActivity request channel_id) \<Rightarrow>
          if supports t INVOCATION_ACTIVITY_FEATURE
          then stay (on_relay (snd \<circ> record_invocation_activity (sk_connection t) request channel_id) s)
          else unexpected
      | Message (Gateway_Protocol.ErrorCommand (Some request) (Some channel_id) code m) \<Rightarrow>
          stay (on_relay (snd \<circ> complete_error (sk_connection t) request channel_id m) s)
      | Message (Heartbeat received) \<Rightarrow> heartbeat_received n t received True sent now s
      | Message (HeartbeatAck received) \<Rightarrow> heartbeat_received n t received False sent now s
      | Message (Gateway_Protocol.ErrorCommand None channel_id code m) \<Rightarrow> stay s
      | Message (RuntimeTelemetry batch) \<Rightarrow>
          if supports t EMBEDDED_LIVE_MONITOR_FEATURE then telemetry_received n t batch persisted now s
          else unexpected
      | Message _ \<Rightarrow> unexpected)"

definition socket_tick ::
    "(string, unit) result \<Rightarrow> nat \<Rightarrow> nat \<Rightarrow> nat \<Rightarrow> socket_task \<Rightarrow> socket_server \<Rightarrow> socket_server" where
  "socket_tick sent now last_seen n t s =
     (if 3 * sv_interval s < now - last_seen
      then set_socket n t (SocketClosing (Inl ''agent gateway heartbeat timed out'')) s
      else case sent of
        Inl e \<Rightarrow> set_socket n t (SocketClosing (Inl e)) s
      | Inr _ \<Rightarrow> s)"

section \<open>The end\<close>

definition socket_close :: "nat \<Rightarrow> socket_task \<Rightarrow> (string, unit) result \<Rightarrow> socket_server \<Rightarrow> socket_server" where
  "socket_close n t r s =
     (let (removed_current, hub) = relay_unregister (sk_gateway t) (sk_connection t) (sv_relay s);
          unregistered = s\<lparr>sv_relay := hub\<rparr>
      in if removed_current then set_socket n t (SocketLeaving r) unregistered
         else end_socket n t (SocketEnded r) unregistered)"

text \<open>The session is closed in the database, which may fail; a failure is only logged.\<close>

definition socket_leave ::
    "(string, unit) result \<Rightarrow> nat \<Rightarrow> socket_task \<Rightarrow> (string, unit) result \<Rightarrow> socket_server \<Rightarrow> socket_server" where
  "socket_leave persisted n t r s = set_socket n t (SocketPublishing r)
     (case persisted of
        Inl e \<Rightarrow> s
      | Inr _ \<Rightarrow> on_sessions (close_agent_gateway_session (sk_session t)) s)"

text \<open>The task goes on after it awaited the database, publishes the disconnect and returns.\<close>

definition socket_publish :: "nat \<Rightarrow> socket_task \<Rightarrow> (string, unit) result \<Rightarrow> socket_server \<Rightarrow> socket_server" where
  "socket_publish n t r s = end_socket n t (SocketEnded r)
     (on_monitor (publish (GatewayDisconnected (sk_gateway t))) s)"

section \<open>Steps\<close>

text \<open>The hub is also used by invocations and by the API, which leave the connections alone.\<close>

inductive socket_step :: "socket_server \<Rightarrow> socket_server \<Rightarrow> bool" where
  opens: "sv_tasks s n = None \<Longrightarrow>
    \<forall>t \<in> ran (sv_tasks s). sk_connection t \<noteq> connection_id \<and> sk_sender t \<noteq> sender \<Longrightarrow>
    socket_open n gateway_id resume fresh connection_id sender agents enrollment_id metadata s = Some s' \<Longrightarrow>
    socket_step s s'"
| registers: "sv_tasks s n = Some t \<Longrightarrow> sk_phase t = SocketOpened \<Longrightarrow> socket_step s (socket_register n t s)"
| open_fails: "sv_tasks s n = Some t \<Longrightarrow> sk_phase t = SocketOpened \<Longrightarrow>
    socket_step s (set_socket n t (SocketEnded (Inl e)) s)"
| welcomes: "sv_tasks s n = Some t \<Longrightarrow> sk_phase t = SocketWelcoming \<Longrightarrow> socket_step s (socket_welcome sent n t s)"
| readies: "sv_tasks s n = Some t \<Longrightarrow> sk_phase t = SocketReadying commands \<Longrightarrow>
    socket_step s (socket_ready sent now n t commands s)"
| sends: "sv_tasks s n = Some t \<Longrightarrow> sk_phase t = SocketServing last_seen \<Longrightarrow>
    socket_outbound sent n t s = Some s' \<Longrightarrow> socket_step s s'"
| receives: "sv_tasks s n = Some t \<Longrightarrow> sk_phase t = SocketServing last_seen \<Longrightarrow>
    socket_step s (socket_incoming frame persisted sent now n t s)"
| ticks: "sv_tasks s n = Some t \<Longrightarrow> sk_phase t = SocketServing last_seen \<Longrightarrow>
    socket_step s (socket_tick sent now last_seen n t s)"
| closes: "sv_tasks s n = Some t \<Longrightarrow> sk_phase t = SocketClosing r \<Longrightarrow> socket_step s (socket_close n t r s)"
| leaves: "sv_tasks s n = Some t \<Longrightarrow> sk_phase t = SocketLeaving r \<Longrightarrow>
    socket_step s (socket_leave persisted n t r s)"
| publishes: "sv_tasks s n = Some t \<Longrightarrow> sk_phase t = SocketPublishing r \<Longrightarrow> socket_step s (socket_publish n t r s)"
| relays: "hub_connections hub = hub_connections (sv_relay s) \<Longrightarrow> socket_step s (s\<lparr>sv_relay := hub\<rparr>)"

text \<open>Runs of a server that starts without connections.\<close>

definition no_sockets :: "socket_server \<Rightarrow> bool" where
  "no_sockets s \<longleftrightarrow> sv_tasks s = Map.empty \<and> hub_connections (sv_relay s) = []"

inductive socket_reach :: "socket_server \<Rightarrow> socket_server \<Rightarrow> bool" for s0 where
  start: "no_sockets s0 \<Longrightarrow> socket_reach s0 s0"
| step: "socket_reach s0 s \<Longrightarrow> socket_step s s' \<Longrightarrow> socket_reach s0 s'"

section \<open>What the steps leave alone\<close>

named_theorems socket_frame

lemma sv_set_socket [socket_frame, simp]:
  "sv_relay (set_socket n t phase s) = sv_relay s"
  "sv_monitor (set_socket n t phase s) = sv_monitor s"
  "sv_sessions (set_socket n t phase s) = sv_sessions s"
  "sv_tasks (set_socket n t phase s) = (sv_tasks s)(n \<mapsto> t\<lparr>sk_phase := phase\<rparr>)"
  by (simp_all add: set_socket_def)

lemma sv_on [socket_frame, simp]:
  "sv_relay (on_relay f s) = f (sv_relay s)" "sv_monitor (on_relay f s) = sv_monitor s"
  "sv_sessions (on_relay f s) = sv_sessions s" "sv_tasks (on_relay f s) = sv_tasks s"
  "sv_relay (on_monitor g s) = sv_relay s" "sv_monitor (on_monitor g s) = g (sv_monitor s)"
  "sv_sessions (on_monitor g s) = sv_sessions s" "sv_tasks (on_monitor g s) = sv_tasks s"
  "sv_relay (on_sessions h s) = sv_relay s" "sv_monitor (on_sessions h s) = sv_monitor s"
  "sv_sessions (on_sessions h s) = h (sv_sessions s)" "sv_tasks (on_sessions h s) = sv_tasks s"
  by (simp_all add: on_relay_def on_monitor_def on_sessions_def)

lemma close_channel_same [simp]:
  "hub_connections (close_channel i hub) = hub_connections hub"
  "hub_pending (close_channel i hub) = hub_pending hub"
  "hub_calls (close_channel i hub) = hub_calls hub"
  by (auto simp: close_channel_def split: option.split)

lemma sv_end_socket [simp]:
  "hub_connections (sv_relay (end_socket n t phase s)) = hub_connections (sv_relay s)"
  "hub_pending (sv_relay (end_socket n t phase s)) = hub_pending (sv_relay s)"
  "sv_monitor (end_socket n t phase s) = sv_monitor s"
  "sv_sessions (end_socket n t phase s) = sv_sessions s"
  "sv_tasks (end_socket n t phase s) = (sv_tasks s)(n \<mapsto> t\<lparr>sk_phase := phase\<rparr>)"
  by (simp_all add: end_socket_def)

lemma reports_connections [simp]:
  "hub_connections (snd (relay_complete c r ch x hub)) = hub_connections hub"
  "hub_connections (snd (complete_result c r ch out hub)) = hub_connections hub"
  "hub_connections (snd (complete_error c r ch m hub)) = hub_connections hub"
  "hub_connections (snd (record_invocation_activity c r ch hub)) = hub_connections hub"
  by (auto simp: complete_result_def complete_error_def relay_complete_def record_invocation_activity_def
      split: option.splits)

fun holds_connection :: "socket_phase \<Rightarrow> bool" where
  "holds_connection SocketOpened = False"
| "holds_connection (SocketLeaving r) = False"
| "holds_connection (SocketPublishing r) = False"
| "holds_connection (SocketEnded r) = False"
| "holds_connection phase = True"

text \<open>A frame leaves the connections alone, and its task keeps its connection.\<close>

lemma socket_incoming_same:
  "hub_connections (sv_relay (socket_incoming frame persisted sent now n t s)) = hub_connections (sv_relay s) \<and>
   (\<exists>phase. holds_connection phase \<and>
     sv_tasks (socket_incoming frame persisted sent now n t s) = (sv_tasks s)(n \<mapsto> t\<lparr>sk_phase := phase\<rparr>))"
proof (cases frame)
  case (Message c)
  then show ?thesis
    by (cases c) (force simp: socket_incoming_def Let_def heartbeat_received_def telemetry_received_def
        split: option.split sum.split telemetry_persisted.split)+
next
  case (ReceiveError e)
  then show ?thesis by (force simp: socket_incoming_def)
qed

section \<open>Connections and tasks\<close>

definition task_owns :: "socket_task \<Rightarrow> string \<Rightarrow> gateway_connection \<Rightarrow> bool" where
  "task_owns t g c \<longleftrightarrow> sk_gateway t = g \<and> gc_connection_id c = sk_connection t \<and> gc_sender c = sk_sender t \<and>
     gc_session_id c = sk_session t \<and> holds_connection (sk_phase t)"

definition socket_inv :: "socket_server \<Rightarrow> bool" where
  "socket_inv s \<longleftrightarrow> distinct (map fst (hub_connections (sv_relay s))) \<and>
     (\<forall>n m t t'. sv_tasks s n = Some t \<longrightarrow> sv_tasks s m = Some t' \<longrightarrow> sk_connection t = sk_connection t' \<longrightarrow> n = m) \<and>
     (\<forall>(g, c) \<in> set (hub_connections (sv_relay s)). \<exists>t \<in> ran (sv_tasks s). task_owns t g c)"

lemma socket_inv_task:
  assumes inv: "socket_inv s" and t: "sv_tasks s n = Some t"
    and tasks: "sv_tasks s' = (sv_tasks s)(n \<mapsto> t\<lparr>sk_phase := phase\<rparr>)"
    and fewer: "set (hub_connections (sv_relay s')) \<subseteq> set (hub_connections (sv_relay s))"
    and keys: "distinct (map fst (hub_connections (sv_relay s')))"
    and keeps: "\<And>g c. (g, c) \<in> set (hub_connections (sv_relay s')) \<Longrightarrow> task_owns t g c \<Longrightarrow> holds_connection phase"
  shows "socket_inv s'"
proof -
  have "\<exists>t' \<in> ran (sv_tasks s'). task_owns t' g c" if c: "(g, c) \<in> set (hub_connections (sv_relay s'))" for g c
  proof -
    from inv c fewer obtain m u where u: "sv_tasks s m = Some u" "task_owns u g c"
      by (force simp: socket_inv_def ran_def)
    show ?thesis
    proof (cases "m = n")
      case True
      with u t keeps[OF c] have "task_owns (t\<lparr>sk_phase := phase\<rparr>) g c" by (simp add: task_owns_def)
      then show ?thesis by (auto simp: tasks ran_def)
    next
      case False
      with u have "sv_tasks s' m = Some u" by (simp add: tasks)
      with u show ?thesis by (auto simp: ran_def)
    qed
  qed
  moreover have "\<forall>n m t t'. sv_tasks s' n = Some t \<longrightarrow> sv_tasks s' m = Some t' \<longrightarrow>
      sk_connection t = sk_connection t' \<longrightarrow> n = m"
  proof (intro allI impI)
    fix i j u v
    assume u: "sv_tasks s' i = Some u" and v: "sv_tasks s' j = Some v" and eq: "sk_connection u = sk_connection v"
    have "\<exists>u'. sv_tasks s i = Some u' \<and> sk_connection u' = sk_connection u"
      using u t by (auto simp: tasks split: if_splits)
    moreover have "\<exists>v'. sv_tasks s j = Some v' \<and> sk_connection v' = sk_connection v"
      using v t by (auto simp: tasks split: if_splits)
    ultimately show "i = j" using inv eq unfolding socket_inv_def by metis
  qed
  ultimately show ?thesis using keys unfolding socket_inv_def by auto
qed

lemma socket_inv_phase:
  assumes "socket_inv s" and "sv_tasks s n = Some t"
    and "sv_tasks s' = (sv_tasks s)(n \<mapsto> t\<lparr>sk_phase := phase\<rparr>)"
    and "hub_connections (sv_relay s') = hub_connections (sv_relay s)"
    and "holds_connection (sk_phase t) \<Longrightarrow> holds_connection phase"
  shows "socket_inv s'"
  by (rule socket_inv_task[OF assms(1-3)])
    (use assms in \<open>auto simp: task_owns_def socket_inv_def\<close>)

lemma register_connections:
  "hub_connections (relay_register g c (open_channel i hub)) = AList.update g c (hub_connections hub)"
  by (auto simp: relay_register_def open_channel_def Let_def split: option.split)

lemma socket_inv_register:
  assumes inv: "socket_inv s" and t: "sv_tasks s n = Some t" and opened: "sk_phase t = SocketOpened"
  shows "socket_inv (socket_register n t s)"
proof -
  let ?s1 = "set_socket n t SocketWelcoming s"
  let ?s2 = "socket_register n t s"
  have 1: "socket_inv ?s1" by (rule socket_inv_phase[OF inv t, where phase = SocketWelcoming]) simp_all
  have conns: "hub_connections (sv_relay ?s2) =
      AList.update (sk_gateway t) (socket_connection t) (hub_connections (sv_relay s))"
    by (simp add: socket_register_def register_connections)
  have tasks: "sv_tasks ?s2 = sv_tasks ?s1" by (simp add: socket_register_def)
  have "\<exists>u \<in> ran (sv_tasks ?s2). task_owns u g c" if "(g, c) \<in> set (hub_connections (sv_relay ?s2))" for g c
  proof -
    have "distinct (map fst (hub_connections (sv_relay ?s2)))"
      using inv by (simp add: conns socket_inv_def distinct_update)
    with that have "map_of (hub_connections (sv_relay ?s2)) g = Some c" by simp
    then have "(g, c) = (sk_gateway t, socket_connection t) \<or> map_of (hub_connections (sv_relay s)) g = Some c"
      by (simp add: conns update_conv' split: if_splits)
    then have "(g, c) = (sk_gateway t, socket_connection t) \<or> (g, c) \<in> set (hub_connections (sv_relay s))"
      using map_of_SomeD by fast
    then show ?thesis
    proof
      assume "(g, c) = (sk_gateway t, socket_connection t)"
      then have "task_owns (t\<lparr>sk_phase := SocketWelcoming\<rparr>) g c"
        by (simp add: task_owns_def socket_connection_def)
      then show ?thesis by (auto simp: tasks ran_def)
    next
      assume "(g, c) \<in> set (hub_connections (sv_relay s))"
      with 1 show ?thesis by (force simp: socket_inv_def tasks)
    qed
  qed
  moreover have "distinct (map fst (hub_connections (sv_relay ?s2)))"
    using inv by (simp add: conns socket_inv_def distinct_update)
  moreover have "sv_tasks ?s2 i = Some u \<Longrightarrow> sv_tasks ?s2 j = Some v \<Longrightarrow> sk_connection u = sk_connection v \<Longrightarrow> i = j"
    for i j u v using 1 unfolding socket_inv_def tasks by blast
  ultimately show ?thesis unfolding socket_inv_def by blast
qed

lemma socket_inv_close:
  assumes inv: "socket_inv s" and t: "sv_tasks s n = Some t"
  shows "socket_inv (socket_close n t r s)"
proof -
  let ?hub = "snd (relay_unregister (sk_gateway t) (sk_connection t) (sv_relay s))"
  let ?removed = "fst (relay_unregister (sk_gateway t) (sk_connection t) (sv_relay s))"
  have keys: "distinct (map fst (hub_connections (sv_relay s)))" using inv by (simp add: socket_inv_def)
  have conns: "hub_connections (sv_relay (socket_close n t r s)) = hub_connections ?hub"
    by (simp add: socket_close_def Let_def case_prod_beta)
  have hub: "hub_connections ?hub = (if ?removed then AList.delete (sk_gateway t) (hub_connections (sv_relay s))
      else hub_connections (sv_relay s))"
    by (simp add: relay_unregister_def Let_def send_responses_same)
  have gone: "\<not> task_owns t g c" if "(g, c) \<in> set (hub_connections ?hub)" for g c
  proof
    assume owns: "task_owns t g c"
    have "(g, c) \<in> set (hub_connections (sv_relay s))"
      using that by (auto simp: hub AList.delete_eq split: if_splits)
    with keys have "map_of (hub_connections (sv_relay s)) g = Some c" by simp
    with owns have "?removed" by (simp add: relay_unregister_def Let_def task_owns_def)
    with that owns show False by (simp add: hub AList.delete_eq task_owns_def)
  qed
  show ?thesis
  proof (rule socket_inv_task[OF inv t])
    show "sv_tasks (socket_close n t r s) =
        (sv_tasks s)(n \<mapsto> t\<lparr>sk_phase := if ?removed then SocketLeaving r else SocketEnded r\<rparr>)"
      by (simp add: socket_close_def Let_def case_prod_beta)
    show "set (hub_connections (sv_relay (socket_close n t r s))) \<subseteq> set (hub_connections (sv_relay s))"
      by (auto simp: conns hub AList.delete_eq)
    show "distinct (map fst (hub_connections (sv_relay (socket_close n t r s))))"
      using keys by (simp add: conns hub distinct_delete)
  qed (use gone in \<open>simp add: conns\<close>)
qed

lemma socket_inv_open:
  assumes inv: "socket_inv s" and new: "sv_tasks s n = None"
    and fresh: "\<forall>t \<in> ran (sv_tasks s). sk_connection t \<noteq> connection_id \<and> sk_sender t \<noteq> sender"
    and opened: "socket_open n gateway_id resume row connection_id sender agents enrollment_id metadata s = Some s'"
  shows "socket_inv s'"
proof -
  obtain t where tasks: "sv_tasks s' = (sv_tasks s)(n \<mapsto> t)" and t: "sk_connection t = connection_id"
    and relay: "sv_relay s' = sv_relay s"
    using opened by (auto simp: socket_open_def)
  have ran: "ran (sv_tasks s) \<subseteq> ran (sv_tasks s')" using new by (simp add: tasks ran_map_upd subset_insertI)
  have "i = j" if "sv_tasks s' i = Some u" "sv_tasks s' j = Some v" "sk_connection u = sk_connection v" for i j u v
    using that inv fresh t by (auto simp: tasks socket_inv_def ran_def split: if_splits)
  with inv ran show ?thesis unfolding socket_inv_def relay by fast
qed

lemma socket_outbound_same:
  assumes "socket_outbound sent n t s = Some s'"
  shows "hub_connections (sv_relay s') = hub_connections (sv_relay s) \<and>
    (sv_tasks s' = sv_tasks s \<or> (\<exists>r. sv_tasks s' = (sv_tasks s)(n \<mapsto> t\<lparr>sk_phase := SocketClosing r\<rparr>)))"
  using assms
  by (auto simp: socket_outbound_def Let_def split: option.splits list.splits sum.splits if_splits)

lemma socket_tick_same:
  "hub_connections (sv_relay (socket_tick sent now last_seen n t s)) = hub_connections (sv_relay s) \<and>
    (sv_tasks (socket_tick sent now last_seen n t s) = sv_tasks s \<or>
     (\<exists>r. sv_tasks (socket_tick sent now last_seen n t s) = (sv_tasks s)(n \<mapsto> t\<lparr>sk_phase := SocketClosing r\<rparr>)))"
  by (auto simp: socket_tick_def split: sum.split)

lemma socket_inv_same:
  assumes "socket_inv s" and "hub_connections (sv_relay s') = hub_connections (sv_relay s)"
    and "sv_tasks s' = sv_tasks s"
  shows "socket_inv s'"
  using assms by (simp add: socket_inv_def)

lemma socket_inv_step:
  assumes "socket_step s s'" and inv: "socket_inv s"
  shows "socket_inv s'"
  using assms(1)
proof cases
  case (opens n connection_id sender gateway_id resume fresh agents enrollment_id metadata)
  then show ?thesis using inv by (blast intro: socket_inv_open)
next
  case (registers n t)
  then show ?thesis using inv by (simp add: socket_inv_register)
next
  case (open_fails n t e)
  show ?thesis unfolding open_fails(1)
    by (rule socket_inv_phase[OF inv open_fails(2), where phase = "SocketEnded (Inl e)"]) (simp_all add: open_fails)
next
  case (welcomes n t sent)
  have "\<exists>phase. holds_connection phase \<and> sv_tasks s' = (sv_tasks s)(n \<mapsto> t\<lparr>sk_phase := phase\<rparr>)"
    "hub_connections (sv_relay s') = hub_connections (sv_relay s)"
    unfolding welcomes(1) by (force simp: socket_welcome_def split: sum.split)+
  then show ?thesis using socket_inv_phase[OF inv welcomes(2)] by blast
next
  case (readies n t commands sent now)
  have "\<exists>phase. holds_connection phase \<and> sv_tasks s' = (sv_tasks s)(n \<mapsto> t\<lparr>sk_phase := phase\<rparr>)"
    "hub_connections (sv_relay s') = hub_connections (sv_relay s)"
    unfolding readies(1) by (force simp: socket_ready_def split: sum.split list.split)+
  then show ?thesis using socket_inv_phase[OF inv readies(2)] by blast
next
  case (sends n t last_seen sent)
  with socket_outbound_same[OF sends(3)] show ?thesis
    using socket_inv_same[OF inv] socket_inv_phase[OF inv sends(1)] holds_connection.simps(8) by blast
next
  case (receives n t last_seen frame persisted sent now)
  then show ?thesis
    using socket_inv_phase[OF inv receives(2)] socket_incoming_same[of frame persisted sent now n t s] by auto
next
  case (ticks n t last_seen sent now)
  with socket_tick_same[of sent now last_seen n t s] show ?thesis
    using socket_inv_same[OF inv] socket_inv_phase[OF inv ticks(2)] holds_connection.simps(8) by blast
next
  case (closes n t r)
  then show ?thesis using inv by (simp add: socket_inv_close)
next
  case (leaves n t r persisted)
  show ?thesis unfolding leaves(1)
    by (rule socket_inv_phase[OF inv leaves(2), where phase = "SocketPublishing r"])
      (simp_all add: leaves socket_leave_def split: sum.split)
next
  case (publishes n t r)
  show ?thesis unfolding publishes(1)
    by (rule socket_inv_phase[OF inv publishes(2), where phase = "SocketEnded r"]) (simp_all add: publishes socket_publish_def)
next
  case (relays hub)
  then show ?thesis using inv by (simp add: socket_inv_def)
qed

lemma socket_inv_reach: "socket_reach s0 s \<Longrightarrow> socket_inv s"
proof (induction rule: socket_reach.induct)
  case start
  then show ?case by (simp add: no_sockets_def socket_inv_def)
qed (blast intro: socket_inv_step)

text \<open>C19: every connection the hub routes to belongs to one task that is still running, or that was
  aborted by a failed send: whatever the order of connects, replacements, frames and failures, a task that
  ended by its loop leaves no connection behind.\<close>

theorem registered_connection_has_task:
  assumes "socket_reach s0 s" and "map_of (hub_connections (sv_relay s)) g = Some c"
  shows "\<exists>!n. \<exists>t. sv_tasks s n = Some t \<and> sk_gateway t = g \<and> sk_connection t = gc_connection_id c \<and>
    sk_sender t = gc_sender c \<and> sk_session t = gc_session_id c \<and> holds_connection (sk_phase t)"
proof -
  have inv: "socket_inv s" by (rule socket_inv_reach[OF assms(1)])
  with map_of_SomeD[OF assms(2)] obtain n t where t: "sv_tasks s n = Some t" "task_owns t g c"
    by (force simp: socket_inv_def ran_def)
  show ?thesis
  proof (rule ex1I[of _ n])
    show "\<exists>t. sv_tasks s n = Some t \<and> sk_gateway t = g \<and> sk_connection t = gc_connection_id c \<and>
        sk_sender t = gc_sender c \<and> sk_session t = gc_session_id c \<and> holds_connection (sk_phase t)"
      using t by (simp add: task_owns_def)
    fix m
    assume "\<exists>t. sv_tasks s m = Some t \<and> sk_gateway t = g \<and> sk_connection t = gc_connection_id c \<and>
        sk_sender t = gc_sender c \<and> sk_session t = gc_session_id c \<and> holds_connection (sk_phase t)"
    then obtain u where "sv_tasks s m = Some u" "sk_connection u = sk_connection t"
      using t by (auto simp: task_owns_def)
    then show "m = n" using t(1) inv unfolding socket_inv_def by blast
  qed
qed

section \<open>Frames of a gateway\<close>

definition other_calls_kept :: "uuid \<Rightarrow> relay_hub \<Rightarrow> relay_hub \<Rightarrow> bool" where
  "other_calls_kept connection hub hub' \<longleftrightarrow>
     (\<forall>r p. map_of (hub_pending hub) r = Some p \<longrightarrow> pc_connection_id p \<noteq> connection \<longrightarrow>
        map_of (hub_pending hub') r = Some p)"

lemma reports_keep_others:
  "other_calls_kept connection hub (snd (relay_complete connection r ch x hub))"
  "other_calls_kept connection hub (snd (record_invocation_activity connection r ch hub))"
  by (auto simp: other_calls_kept_def relay_complete_def record_invocation_activity_def delete_conv'
      split: option.splits)

lemma touch_other_sessions:
  "filter (\<lambda>row. ss_session_id row \<noteq> i) (touch_agent_gateway_session i rows) =
     filter (\<lambda>row. ss_session_id row \<noteq> i) rows"
  by (auto simp: touch_agent_gateway_session_def Let_def filter_map o_def
      intro!: trans[OF map_cong[OF refl] list.map_id0[THEN fun_cong, unfolded id_apply]] filter_cong)

text \<open>a frame of a gateway acts only for its own connection: it changes no connection of the hub, no
  call that waits on another connection, no other task, no other session, and not the list of the
  gateways that monitors see.\<close>

theorem frame_acts_for_its_connection:
  assumes "s' = socket_incoming frame persisted sent now n t s"
  shows "hub_connections (sv_relay s') = hub_connections (sv_relay s) \<and>
    other_calls_kept (sk_connection t) (sv_relay s) (sv_relay s') \<and>
    (\<forall>m. m \<noteq> n \<longrightarrow> sv_tasks s' m = sv_tasks s m) \<and>
    filter (\<lambda>row. ss_session_id row \<noteq> sk_session t) (sv_sessions s') =
      filter (\<lambda>row. ss_session_id row \<noteq> sk_session t) (sv_sessions s) \<and>
    mh_gateways (sv_monitor s') = mh_gateways (sv_monitor s)"
proof -
  have refl: "other_calls_kept (sk_connection t) hub hub" "other_calls_kept (sk_connection t) hub (close_channel i hub)"
    for hub i by (simp_all add: other_calls_kept_def)
  have calls: "other_calls_kept (sk_connection t) (sv_relay s) (sv_relay s') \<and>
      filter (\<lambda>row. ss_session_id row \<noteq> sk_session t) (sv_sessions s') =
        filter (\<lambda>row. ss_session_id row \<noteq> sk_session t) (sv_sessions s) \<and>
      mh_gateways (sv_monitor s') = mh_gateways (sv_monitor s)"
  proof (cases frame)
    case (Message c)
    then show ?thesis unfolding assms
      by (cases c) (simp_all add: socket_incoming_def Let_def heartbeat_received_def telemetry_received_def
          reports_keep_others refl complete_result_def complete_error_def touch_other_sessions end_socket_def
          publish_def publish_update_def publish_send_def
          split: option.split sum.split telemetry_persisted.split)
  next
    case (ReceiveError e)
    then show ?thesis unfolding assms by (simp add: socket_incoming_def refl)
  qed
  moreover from socket_incoming_same[of frame persisted sent now n t s]
  have "hub_connections (sv_relay s') = hub_connections (sv_relay s)" "\<forall>m. m \<noteq> n \<longrightarrow> sv_tasks s' m = sv_tasks s m"
    unfolding assms by auto
  ultimately show ?thesis by blast
qed

section \<open>Leaving\<close>

text \<open>The hub routes to the connection of a task.\<close>

definition current_connection :: "socket_task \<Rightarrow> socket_server \<Rightarrow> bool" where
  "current_connection t s \<longleftrightarrow>
     map_option gc_connection_id (map_of (hub_connections (sv_relay s)) (sk_gateway t)) = Some (sk_connection t)"

lemma unregister_removes:
  "fst (relay_unregister (sk_gateway t) (sk_connection t) (sv_relay s)) \<longleftrightarrow> current_connection t s"
  "hub_connections (snd (relay_unregister (sk_gateway t) (sk_connection t) (sv_relay s))) =
     (if current_connection t s then AList.delete (sk_gateway t) (hub_connections (sv_relay s))
      else hub_connections (sv_relay s))"
  by (auto simp: current_connection_def relay_unregister_def Let_def send_responses_same split: option.splits)

lemma socket_close_hub:
  "hub_connections (sv_relay (socket_close n t r s)) =
     hub_connections (snd (relay_unregister (sk_gateway t) (sk_connection t) (sv_relay s)))"
  "hub_pending (sv_relay (socket_close n t r s)) =
     hub_pending (snd (relay_unregister (sk_gateway t) (sk_connection t) (sv_relay s)))"
  "hub_calls (sv_relay (socket_close n t r s)) =
     hub_calls (snd (relay_unregister (sk_gateway t) (sk_connection t) (sv_relay s)))"
  "map_option sk_phase (sv_tasks (socket_close n t r s) n) =
     Some (if current_connection t s then SocketLeaving r else SocketEnded r)"
  by (simp_all add: socket_close_def Let_def case_prod_beta unregister_removes end_socket_def)

abbreviation heartbeat_timeout :: "(string, unit) result" where
  "heartbeat_timeout \<equiv> Inl ''agent gateway heartbeat timed out''"

text \<open>C20: a gateway that has been silent for more than three heartbeat intervals is disconnected from the
  next tick on: the tick ends its loop; then, whatever other tasks did meanwhile, its task takes its
  connection out of the hub, so that nothing is routed to it, and answers every call that waits on
  the connection as unavailable, so that none waits there any longer, while a newer connection of
  the gateway is left alone and ends the matter; otherwise the task closes its session, unless the
  database fails, and publishes the disconnect, after which the monitors no longer see the gateway.\<close>

theorem silent_gateway_is_disconnected:
  assumes "3 * sv_interval s < now - last_seen"
    and "closing = t\<lparr>sk_phase := SocketClosing heartbeat_timeout\<rparr>"
    and "leaving = t\<lparr>sk_phase := SocketLeaving heartbeat_timeout\<rparr>"
    and "publishing = t\<lparr>sk_phase := SocketPublishing heartbeat_timeout\<rparr>"
  shows "sv_tasks (socket_tick sent now last_seen n t s) n = Some closing \<and>
    (let s2 = socket_close n closing heartbeat_timeout s1 in
      \<not> current_connection t s2 \<and>
      (\<forall>(r, p) \<in> set (hub_pending (sv_relay s2)). pc_connection_id p \<noteq> sk_connection t) \<and>
      (\<forall>(r, p) \<in> set (hub_pending (sv_relay s1)). pc_connection_id p = sk_connection t \<longrightarrow>
        hub_calls (sv_relay s2) (pc_call p) =
          map_option (respond (Inl AgentGatewayUnavailable)) (hub_calls (sv_relay s1) (pc_call p))) \<and>
      (if current_connection t s1 then sv_tasks s2 n = Some leaving
       else sv_tasks s2 n = Some (t\<lparr>sk_phase := SocketEnded heartbeat_timeout\<rparr>) \<and>
         hub_connections (sv_relay s2) = hub_connections (sv_relay s1))) \<and>
    (let s4 = socket_leave persisted n leaving heartbeat_timeout s3 in
      sv_tasks s4 n = Some publishing \<and>
      (persisted = Inr () \<longrightarrow> (\<forall>row \<in> set (sv_sessions s4). ss_session_id row = sk_session t \<longrightarrow> \<not> ss_connected row))) \<and>
    (let s6 = socket_publish n publishing heartbeat_timeout s5 in
      sv_tasks s6 n = Some (t\<lparr>sk_phase := SocketEnded heartbeat_timeout\<rparr>) \<and>
      map_of (mh_gateways (sv_monitor s6)) (sk_gateway t) = None)"
proof (intro conjI)
  let ?s2 = "socket_close n closing heartbeat_timeout s1"
  have same: "current_connection closing s' = current_connection t s'" for s'
    by (simp add: assms(2) current_connection_def)
  have keys: "sk_gateway closing = sk_gateway t" "sk_connection closing = sk_connection t" by (simp_all add: assms(2))
  show "sv_tasks (socket_tick sent now last_seen n t s) n = Some closing"
    using assms(1) by (simp add: socket_tick_def assms(2))
  note hub = socket_close_hub[of n closing heartbeat_timeout s1, unfolded unregister_removes same keys]
  have "\<not> current_connection t ?s2"
    by (auto simp: current_connection_def hub(1) delete_conv')
  moreover have "hub_pending (sv_relay ?s2) =
      filter (\<lambda>(r, p). pc_connection_id p \<noteq> sk_connection t) (hub_pending (sv_relay s1))"
    using hub(2) by (simp add: unregister_pending)
  moreover have "hub_calls (sv_relay ?s2) m = (if \<exists>r p. (r, p) \<in> set (hub_pending (sv_relay s1)) \<and>
        pc_connection_id p = sk_connection t \<and> pc_call p = m
      then map_option (respond (Inl AgentGatewayUnavailable)) (hub_calls (sv_relay s1) m)
      else hub_calls (sv_relay s1) m)" for m
    using hub(3) by (simp add: unregister_calls)
  moreover have "sv_tasks ?s2 n = Some (if current_connection t s1 then leaving
      else t\<lparr>sk_phase := SocketEnded heartbeat_timeout\<rparr>)"
    by (simp add: socket_close_def Let_def case_prod_beta unregister_removes keys same end_socket_def assms(2,3))
  ultimately show "let s2 = ?s2 in \<not> current_connection t s2 \<and>
      (\<forall>(r, p) \<in> set (hub_pending (sv_relay s2)). pc_connection_id p \<noteq> sk_connection t) \<and>
      (\<forall>(r, p) \<in> set (hub_pending (sv_relay s1)). pc_connection_id p = sk_connection t \<longrightarrow>
        hub_calls (sv_relay s2) (pc_call p) =
          map_option (respond (Inl AgentGatewayUnavailable)) (hub_calls (sv_relay s1) (pc_call p))) \<and>
      (if current_connection t s1 then sv_tasks s2 n = Some leaving
       else sv_tasks s2 n = Some (t\<lparr>sk_phase := SocketEnded heartbeat_timeout\<rparr>) \<and>
         hub_connections (sv_relay s2) = hub_connections (sv_relay s1))"
    unfolding Let_def using hub(1) by auto
  show "let s4 = socket_leave persisted n leaving heartbeat_timeout s3 in sv_tasks s4 n = Some publishing \<and>
      (persisted = Inr () \<longrightarrow> (\<forall>row \<in> set (sv_sessions s4). ss_session_id row = sk_session t \<longrightarrow> \<not> ss_connected row))"
    by (auto simp: socket_leave_def assms(3,4) close_agent_gateway_session_def split: sum.split)
  show "let s6 = socket_publish n publishing heartbeat_timeout s5 in
      sv_tasks s6 n = Some (t\<lparr>sk_phase := SocketEnded heartbeat_timeout\<rparr>) \<and>
      map_of (mh_gateways (sv_monitor s6)) (sk_gateway t) = None"
    by (simp add: socket_publish_def assms(4) publish_def publish_update_def publish_send_def delete_conv')
qed

section \<open>Flaws\<close>

text \<open>A send that fails before the loop, or the acknowledgement of a heartbeat that fails in it, returns
  without unregistering: the hub keeps the connection although its channel is closed, the monitors keep
  the gateway, and its session stays connected.\<close>

theorem aborted_connection_stays_registered:
  assumes "s' = socket_ready (Inl e) now n t (c # rest) s \<or>
     s' = heartbeat_received n t (sk_session t) True (Inl e) now s"
  shows "map_option sk_phase (sv_tasks s' n) = Some (SocketAborted e) \<and>
    hub_connections (sv_relay s') = hub_connections (sv_relay s) \<and>
    mh_gateways (sv_monitor s') = mh_gateways (sv_monitor s) \<and>
    (hub_channels (sv_relay s) (sk_sender t) = Some ch \<longrightarrow>
      hub_channels (sv_relay s') (sk_sender t) = Some (ch\<lparr>channel_closed := True\<rparr>))"
  using assms
  by (auto simp: socket_ready_def heartbeat_received_def end_socket_def close_channel_def split: option.split)

text \<open>The code that a revoked enrollment sends does not end the connection, unlike that of a revoked
  authorization; and a full queue drops either.\<close>

theorem finished_job_keeps_connection:
  assumes "hub_channels (sv_relay s) (sk_sender t) = Some ch"
    and "channel_queue ch = [Relay_Hub.ErrorCommand None None ''JOB_FINISHED'' m]"
    and "socket_outbound (Inr ()) n t s = Some s'"
  shows "sv_tasks s' = sv_tasks s \<and> hub_connections (sv_relay s') = hub_connections (sv_relay s)"
  using assms by (auto simp: socket_outbound_def Let_def)

theorem full_queue_drops_revocation:
  assumes "map_of (hub_connections hub) g = Some c" and "hub_channels hub (gc_sender c) = Some ch"
    and "hub_capacity hub \<le> length (channel_queue ch)"
  shows "relay_disconnect g code hub = (False, hub)"
  using assms by (auto simp: relay_disconnect_def send_or_drop_def try_send_def)

text \<open>Between unregistering and publishing the disconnect the gateway can connect again: then the
  monitors lose a gateway that is connected.\<close>

definition sample_sockets :: socket_server where
  "sample_sockets = \<lparr>sv_relay = relay_new 8, sv_monitor = ServerMonitorHub_new id 64, sv_sessions = [],
     sv_tasks = Map.empty, sv_interval = 1000\<rparr>"

lemma sample_sockets_fields [simp]:
  "hub_connections (sv_relay sample_sockets) = []" "sv_tasks sample_sockets = Map.empty"
  "sv_sessions sample_sockets = []" "sv_interval sample_sockets = 1000"
  by (simp_all add: sample_sockets_def relay_new_def)

definition sample_socket :: "uuid \<Rightarrow> uuid \<Rightarrow> nat \<Rightarrow> socket_phase \<Rightarrow> socket_task" where
  "sample_socket i j k phase = \<lparr>sk_gateway = ''g'', sk_connection = j,
     sk_session = i, sk_sender = k, sk_agents = [], sk_enrollment = None,
     sk_metadata = normalized_gateway_metadata JNull [], sk_phase = phase\<rparr>"

lemma no_features [simp]: "ready_commands (sample_socket i j k phase) = []"
  by (simp add: ready_commands_def supports_def sample_socket_def gateway_supports_feature_def json_get_def
      normalized_gateway_metadata_def or_else_def)

lemma sample_socket_phase [simp]:
  "(sample_socket i j k phase)\<lparr>sk_phase := phase'\<rparr> =
     sample_socket i j k phase'"
  "sk_phase (sample_socket i j k phase) = phase"
  "sk_gateway (sample_socket i j k phase) = ''g''"
  "sk_connection (sample_socket i j k phase) = j"
  "sk_session (sample_socket i j k phase) = i"
  "sk_sender (sample_socket i j k phase) = k"
  "sk_agents (sample_socket i j k phase) = []"
  "sk_enrollment (sample_socket i j k phase) = None"
  by (simp_all add: sample_socket_def)

text \<open>A gateway that connects and is served.\<close>

definition connect_sample :: "nat \<Rightarrow> uuid \<Rightarrow> socket_server \<Rightarrow> socket_server" where
  "connect_sample n i s =
     (let opened = the (socket_open n ''g'' None i i n [] None JNull s);
          registered = socket_register n (sample_socket i i n SocketOpened) opened;
          welcomed = socket_welcome (Inr ()) n (sample_socket i i n SocketWelcoming) registered
      in socket_ready (Inr ()) 0 n (sample_socket i i n (SocketReadying [])) [] welcomed)"

definition opened_rows :: "uuid \<Rightarrow> session_row list \<Rightarrow> session_row list" where
  "opened_rows i rows = map (\<lambda>r. if ss_gateway_id r = ''g'' then r\<lparr>ss_connected := False\<rparr> else r) rows @
     [\<lparr>ss_session_id = i, ss_gateway_id = ''g'', ss_connected = True\<rparr>]"

lemma socket_open_sample:
  assumes "\<not> list_ex (\<lambda>r. ss_session_id r = i) (sv_sessions s)"
  shows "socket_open n ''g'' None i i n [] None JNull s =
    Some (s\<lparr>sv_sessions := opened_rows i (sv_sessions s),
      sv_tasks := (sv_tasks s)(n \<mapsto> sample_socket i i n SocketOpened)\<rparr>)"
  using assms
  by (auto simp: socket_open_def open_agent_gateway_session_def Let_def sample_socket_def list_ex_iff opened_rows_def)

lemma connect_sample_reach:
  assumes "socket_reach s0 s" and new: "sv_tasks s n = None"
    and fresh: "\<forall>t \<in> ran (sv_tasks s). sk_connection t \<noteq> i \<and> sk_sender t \<noteq> n"
    and row: "\<not> list_ex (\<lambda>r. ss_session_id r = i) (sv_sessions s)"
  shows "socket_reach s0 (connect_sample n i s)"
proof -
  let ?s1 = "s\<lparr>sv_sessions := opened_rows i (sv_sessions s),
    sv_tasks := (sv_tasks s)(n \<mapsto> sample_socket i i n SocketOpened)\<rparr>"
  let ?s2 = "socket_register n (sample_socket i i n SocketOpened) ?s1"
  let ?s3 = "socket_welcome (Inr ()) n (sample_socket i i n SocketWelcoming) ?s2"
  note opened = socket_open_sample[OF row, of n]
  have "socket_step s ?s1" by (rule opens[OF new fresh opened])
  moreover have "socket_step ?s1 ?s2" by (rule registers) simp_all
  moreover have "socket_step ?s2 ?s3" by (rule welcomes) (simp_all add: socket_register_def)
  moreover have "socket_step ?s3 (socket_ready (Inr ()) 0 n (sample_socket i i n (SocketReadying [])) [] ?s3)"
    by (rule readies) (simp_all add: socket_welcome_def)
  ultimately show ?thesis using assms(1)
    by (simp add: connect_sample_def opened) (blast intro: socket_reach.step)
qed

lemma connect_sample_state:
  assumes "\<not> list_ex (\<lambda>r. ss_session_id r = i) (sv_sessions s)"
  shows "sv_tasks (connect_sample n i s) = (sv_tasks s)(n \<mapsto> sample_socket i i n (SocketServing 0))"
    "sv_sessions (connect_sample n i s) = opened_rows i (sv_sessions s)"
    "hub_connections (sv_relay (connect_sample n i s)) = AList.update ''g''
       (socket_connection (sample_socket i i n SocketOpened)) (hub_connections (sv_relay s))"
    "mh_gateways (sv_monitor (connect_sample n i s)) = AList.update ''g'' [] (mh_gateways (sv_monitor s))"
  by (simp_all add: connect_sample_def socket_open_sample[OF assms] Let_def socket_register_def socket_welcome_def
      socket_ready_def register_connections publish_def publish_update_def publish_send_def)

text \<open>The first connection is lost and unregistered, the gateway connects again, and then the first task
  publishes the disconnect.\<close>

definition sample_unregistered :: socket_server where
  "sample_unregistered = socket_close 0 (sample_socket 1 1 0 (SocketClosing (Inr ()))) (Inr ())
     (set_socket 0 (sample_socket 1 1 0 (SocketServing 0)) (SocketClosing (Inr ())) (connect_sample 0 1 sample_sockets))"

definition sample_reconnected :: socket_server where
  "sample_reconnected = connect_sample 2 2 sample_unregistered"

lemma sample_unregistered_state:
  "sv_tasks sample_unregistered = [0 \<mapsto> sample_socket 1 1 0 (SocketLeaving (Inr ()))]"
  "map ss_session_id (sv_sessions sample_unregistered) = [1]"
  "hub_connections (sv_relay sample_unregistered) = []"
  "socket_reach sample_sockets sample_unregistered"
proof -
  have row: "\<not> list_ex (\<lambda>r. ss_session_id r = 1) (sv_sessions sample_sockets)" by simp
  note state = connect_sample_state[OF row, of 0]
  let ?s1 = "connect_sample 0 1 sample_sockets"
  let ?s2 = "set_socket 0 (sample_socket 1 1 0 (SocketServing 0)) (SocketClosing (Inr ())) ?s1"
  have conns: "hub_connections (sv_relay ?s1) = [(''g'', socket_connection (sample_socket 1 1 0 SocketOpened))]"
    by (simp add: state)
  have id: "gc_connection_id (socket_connection (sample_socket 1 1 0 SocketOpened)) = 1"
    by (simp add: socket_connection_def)
  have removed: "fst (relay_unregister ''g'' 1 (sv_relay ?s1))"
    by (simp add: relay_unregister_def Let_def conns id)
  have empty: "hub_connections (snd (relay_unregister ''g'' 1 (sv_relay ?s1))) = []"
    by (simp add: relay_unregister_def Let_def conns id send_responses_same)
  show "sv_tasks sample_unregistered = [0 \<mapsto> sample_socket 1 1 0 (SocketLeaving (Inr ()))]"
    "map ss_session_id (sv_sessions sample_unregistered) = [1]"
    "hub_connections (sv_relay sample_unregistered) = []"
    by (simp_all add: sample_unregistered_def socket_close_def Let_def case_prod_beta removed empty state
        opened_rows_def)
  have "socket_reach sample_sockets sample_sockets"
    by (rule start) (simp add: no_sockets_def)
  then have "socket_reach sample_sockets ?s1"
    by (rule connect_sample_reach) simp_all
  moreover have "socket_step ?s1 ?s2"
    using receives[of ?s1 0 "sample_socket 1 1 0 (SocketServing 0)" 0 "ReceiveError ''agent gateway disconnected''"]
    by (simp add: state socket_incoming_def)
  moreover have "socket_step ?s2 sample_unregistered"
    unfolding sample_unregistered_def by (rule closes) (simp_all add: state)
  ultimately show "socket_reach sample_sockets sample_unregistered" by (rule socket_reach.step[OF socket_reach.step])
qed

theorem stale_disconnect_hides_gateway:
  "\<exists>s. socket_reach sample_sockets s \<and> map_of (hub_connections (sv_relay s)) ''g'' \<noteq> None \<and>
     map_option sk_phase (sv_tasks s 2) = Some (SocketServing 0) \<and> map_of (mh_gateways (sv_monitor s)) ''g'' = None"
proof -
  have row: "\<not> list_ex (\<lambda>r. ss_session_id r = 2) (sv_sessions sample_unregistered)"
    using sample_unregistered_state(2) by (auto simp: list_ex_iff)
  note state = connect_sample_state[OF row, of 2]
  let ?t = "sample_socket 1 1 0 (SocketLeaving (Inr ()))"
  let ?u = "sample_socket 1 1 0 (SocketPublishing (Inr ()))"
  let ?s1 = "socket_leave (Inr ()) 0 ?t (Inr ()) sample_reconnected"
  let ?s = "socket_publish 0 ?u (Inr ()) ?s1"
  have "socket_reach sample_sockets sample_reconnected" unfolding sample_reconnected_def
    by (rule connect_sample_reach[OF sample_unregistered_state(4)])
      (use row in \<open>simp_all add: sample_unregistered_state\<close>)
  moreover have "socket_step sample_reconnected ?s1"
    by (rule leaves) (simp_all add: sample_reconnected_def state sample_unregistered_state)
  moreover have "socket_step ?s1 ?s" by (rule publishes) (simp_all add: socket_leave_def)
  ultimately have "socket_reach sample_sockets ?s" by (rule socket_reach.step[OF socket_reach.step])
  moreover have "map_of (hub_connections (sv_relay ?s)) ''g'' \<noteq> None"
    "map_option sk_phase (sv_tasks ?s 2) = Some (SocketServing 0)"
    "map_of (mh_gateways (sv_monitor ?s)) ''g'' = None"
    by (simp_all add: socket_leave_def socket_publish_def sample_reconnected_def state sample_unregistered_state
        publish_def publish_update_def publish_send_def delete_conv')
  ultimately show ?thesis by blast
qed

section \<open>Examples\<close>

theorem registered_connection_has_task_witness:
  "\<exists>!n. \<exists>t. sv_tasks (connect_sample 0 1 sample_sockets) n = Some t \<and> sk_gateway t = ''g'' \<and> sk_connection t = 1 \<and>
    sk_sender t = 0 \<and> sk_session t = 1 \<and> holds_connection (sk_phase t)"
proof -
  let ?c = "socket_connection (sample_socket 1 1 0 SocketOpened)"
  have row: "\<not> list_ex (\<lambda>r. ss_session_id r = 1) (sv_sessions sample_sockets)" by simp
  have "socket_reach sample_sockets sample_sockets"
    by (rule start) (simp add: no_sockets_def)
  then have "socket_reach sample_sockets (connect_sample 0 1 sample_sockets)"
    by (rule connect_sample_reach) simp_all
  moreover have "map_of (hub_connections (sv_relay (connect_sample 0 1 sample_sockets))) ''g'' = Some ?c"
    by (simp add: connect_sample_state[OF row])
  ultimately show ?thesis using registered_connection_has_task[of sample_sockets _ "''g''" ?c]
    by (simp add: socket_connection_def)
qed

theorem frame_acts_for_its_connection_witness:
  "hub_connections (sv_relay (socket_incoming (Message (Heartbeat 1)) TelemetryOff (Inr ()) 5 0
     (sample_socket 1 1 0 (SocketServing 0)) sample_sockets)) = []"
  using frame_acts_for_its_connection[OF refl, of "Message (Heartbeat 1)" TelemetryOff "Inr ()" 5 0
    "sample_socket 1 1 0 (SocketServing 0)" sample_sockets]
  by simp

theorem silent_gateway_is_disconnected_witness:
  "\<exists>s2. s2 = socket_close 0 (sample_socket 1 1 0 (SocketClosing heartbeat_timeout)) heartbeat_timeout
       (connect_sample 0 1 sample_sockets) \<and>
     sv_tasks (socket_tick (Inr ()) 3001 0 0 (sample_socket 1 1 0 (SocketServing 0)) sample_sockets) 0 =
       Some (sample_socket 1 1 0 (SocketClosing heartbeat_timeout)) \<and>
     sv_tasks s2 0 = Some (sample_socket 1 1 0 (SocketLeaving heartbeat_timeout))"
proof -
  let ?t = "sample_socket 1 1 0 (SocketServing 0)"
  have silent: "3 * sv_interval sample_sockets < 3001 - 0" by simp
  have row: "\<not> list_ex (\<lambda>r. ss_session_id r = 1) (sv_sessions sample_sockets)" by simp
  have "current_connection ?t (connect_sample 0 1 sample_sockets)"
    by (simp add: current_connection_def connect_sample_state[OF row]) (simp add: socket_connection_def)
  with silent_gateway_is_disconnected[OF silent, of "sample_socket 1 1 0 (SocketClosing heartbeat_timeout)" ?t
      "sample_socket 1 1 0 (SocketLeaving heartbeat_timeout)" "sample_socket 1 1 0 (SocketPublishing heartbeat_timeout)"
      "Inr ()" 0 "connect_sample 0 1 sample_sockets"]
  show ?thesis by (simp add: Let_def)
qed

end
