(* ===== verification/Gateway_Recorder.thy ===== *)
theory Gateway_Recorder
  imports Gateway_Telemetry
begin

text \<open>
  What a gateway records of one invocation (\<open>crates/vifu-gateway/src/relay.rs\<close>): the events of its
  provider become telemetry with observation identifiers and offsets, in a bounded list whose overflow is
  counted, until the recorder is sealed and its batch is uploaded. Random identifiers and elapsed times are
  arguments.
\<close>

section \<open>Texts of errors\<close>

definition MAX_ERROR_CHARS :: nat where "MAX_ERROR_CHARS = 512"

definition visible_char :: "string \<Rightarrow> string" where
  "visible_char ch = (if is_control ch \<and> ch \<noteq> [CHR 0x0A] then '' '' else ch)"

definition sanitize_error :: "string \<Rightarrow> string" where
  "sanitize_error v = (let out = concat (map visible_char (take MAX_ERROR_CHARS (utf8_chars v)))
     in if trim out = [] then ''unknown error'' else out)"

definition observer_markers :: "string list" where
  "observer_markers = [''authorization'', ''bearer '', ''basic '', ''api key'', ''api_key'', ''apikey'',
     ''access token'', ''access_token'', ''secret'', ''token='', ''token:'', ''password'', ''credential'',
     ''cookie'', ''session='', ''session:'']"

definition safe_observer_error :: "string \<Rightarrow> string" where
  "safe_observer_error v =
     (if list_ex (str_contains (to_ascii_lowercase v)) observer_markers
      then ''Provider failed; sensitive details were redacted'' else sanitize_error v)"

section \<open>The recorder\<close>

record active_observation =
  ao_stage :: provider_stage
  ao_id :: uuid
  ao_start :: u64

record invocation_telemetry =
  it_events :: "trace_telemetry list"
  it_active :: "active_observation list"
  it_dropped :: "32 word"
  it_input :: "trace_io_summary option"
  it_output :: "trace_io_summary option"
  it_sealed :: bool

definition recorder_new :: "string \<Rightarrow> string \<Rightarrow> string option \<Rightarrow> invocation_telemetry" where
  "recorder_new provider_key capability model =
     \<lparr>it_events = [InvocationStarted \<lparr>started_provider_key = provider_key, started_capability = capability,
        started_model = model\<rparr>], it_active = [], it_dropped = 0, it_input = None, it_output = None,
      it_sealed = False\<rparr>"

definition set_root_input_summary :: "trace_io_summary \<Rightarrow> invocation_telemetry \<Rightarrow> invocation_telemetry" where
  "set_root_input_summary v r = (if it_sealed r then r else r\<lparr>it_input := Some v\<rparr>)"

definition set_root_output_summary :: "trace_io_summary \<Rightarrow> invocation_telemetry \<Rightarrow> invocation_telemetry" where
  "set_root_output_summary v r = (if it_sealed r then r else r\<lparr>it_output := Some v\<rparr>)"

definition one_more_dropped :: "32 word \<Rightarrow> 32 word" where
  "one_more_dropped n = min (if n = - 1 then n else n + 1) MAX_TRACE_DROPPED_EVENTS"

definition recorder_push :: "trace_telemetry \<Rightarrow> invocation_telemetry \<Rightarrow> invocation_telemetry" where
  "recorder_push event r =
     (if it_sealed r then r
      else if length (it_events r) < MAX_TRACE_TELEMETRY_EVENTS then r\<lparr>it_events := it_events r @ [event]\<rparr>
      else r\<lparr>it_dropped := one_more_dropped (it_dropped r)\<rparr>)"

definition position :: "('a \<Rightarrow> bool) \<Rightarrow> 'a list \<Rightarrow> nat option" where
  "position P xs = (let i = length (takeWhile (\<lambda>x. \<not> P x) xs) in if i < length xs then Some i else None)"

fun observation_of :: "trace_telemetry \<Rightarrow> uuid option" where
  "observation_of (TraceStage s) = Some (stage_observation_id s)"
| "observation_of (Delivery d) = Some (delivery_observation_id d)"
| "observation_of (InvocationStarted s) = None"

fun is_started_stage :: "trace_telemetry \<Rightarrow> bool" where
  "is_started_stage (TraceStage s) \<longleftrightarrow> stage_status s = TraceStarted"
| "is_started_stage other \<longleftrightarrow> False"

text \<open>The place a terminal event takes in a full list: the start of its own stage, of another one, or
  the second place.\<close>

definition terminal_place :: "trace_telemetry \<Rightarrow> trace_telemetry list \<Rightarrow> nat" where
  "terminal_place event events =
     (case observation_of event of
        Some i \<Rightarrow> (case position (\<lambda>e. is_started_stage e \<and> observation_of e = Some i) events of
            Some n \<Rightarrow> n
          | None \<Rightarrow> (case position is_started_stage events of Some n \<Rightarrow> n | None \<Rightarrow> min 1 (length events - 1)))
      | None \<Rightarrow> (case position is_started_stage events of Some n \<Rightarrow> n | None \<Rightarrow> min 1 (length events - 1)))"

definition push_terminal :: "trace_telemetry \<Rightarrow> invocation_telemetry \<Rightarrow> invocation_telemetry" where
  "push_terminal event r =
     (if length (it_events r) < MAX_TRACE_TELEMETRY_EVENTS then r\<lparr>it_events := it_events r @ [event]\<rparr>
      else r\<lparr>it_events := (it_events r)[terminal_place event (it_events r) := event],
             it_dropped := one_more_dropped (it_dropped r)\<rparr>)"

definition failed_stage :: "u64 \<Rightarrow> string option \<Rightarrow> active_observation \<Rightarrow> trace_telemetry" where
  "failed_stage end_offset_ms e a = TraceStage
     \<lparr>stage_observation_id = ao_id a, stage_of = ao_stage a, stage_status = TraceFailed,
      stage_start_offset_ms = ao_start a, stage_end_offset_ms = Some (max end_offset_ms (ao_start a)),
      stage_elapsed_ms = Some (saturating_sub end_offset_ms (ao_start a)), stage_request_elapsed_ms = None,
      stage_input_tokens = None, stage_output_tokens = None, stage_resident = None,
      stage_error = map_option safe_observer_error e\<rparr>"

definition fail_active ::
    "u64 \<Rightarrow> string option \<Rightarrow> invocation_telemetry \<Rightarrow> trace_telemetry list \<times> invocation_telemetry" where
  "fail_active end_offset_ms e r =
     (let failed = map (failed_stage end_offset_ms e) (it_active r)
      in (failed, fold push_terminal failed (r\<lparr>it_active := []\<rparr>)))"

definition recorder_finish :: "invocation_telemetry \<Rightarrow> trace_telemetry_batch \<times> invocation_telemetry" where
  "recorder_finish r =
     (\<lparr>batch_events = it_events r, batch_dropped_events = it_dropped r, batch_input_summary = it_input r,
       batch_output_summary = it_output r\<rparr>,
      r\<lparr>it_sealed := True, it_active := [], it_events := [], it_input := None, it_output := None\<rparr>)"

section \<open>Events of the provider\<close>

fun stage_event :: "provider_event \<Rightarrow> (provider_stage \<times> trace_stage_status \<times> u64 option \<times> json \<times> string option) option" where
  "stage_event Activity = None"
| "stage_event (OutputDelta d) = None"
| "stage_event (StageStarted stage metadata) = Some (stage, TraceStarted, None, metadata, None)"
| "stage_event (StageCompleted stage elapsed metadata) = Some (stage, TraceCompleted, Some elapsed, metadata, None)"
| "stage_event (StageFailed stage elapsed e metadata) =
     Some (stage, TraceFailed, Some elapsed, metadata, Some (safe_observer_error e))"

text \<open>The observation of the event, the running ones after it: a start opens one unless its stage runs,
  and another event closes the one of its stage.\<close>

definition observe_stage ::
    "provider_stage \<Rightarrow> trace_stage_status \<Rightarrow> u64 \<Rightarrow> u64 \<Rightarrow> uuid \<Rightarrow> active_observation list \<Rightarrow>
     (uuid \<times> u64) \<times> active_observation list" where
  "observe_stage stage status offset elapsed fresh active =
     (case position (\<lambda>a. ao_stage a = stage) active of
        Some n \<Rightarrow> ((ao_id (active ! n), ao_start (active ! n)),
          if status = TraceStarted then active else take n active @ drop (Suc n) active)
      | None \<Rightarrow>
          if status = TraceStarted
          then ((fresh, offset), active @ [\<lparr>ao_stage = stage, ao_id = fresh, ao_start = offset\<rparr>])
          else ((fresh, saturating_sub offset elapsed), active))"

definition safe_trace_telemetry ::
    "provider_event \<Rightarrow> u64 \<Rightarrow> uuid \<Rightarrow> invocation_telemetry \<Rightarrow> trace_telemetry option \<times> invocation_telemetry" where
  "safe_trace_telemetry event offset fresh r =
     (if it_sealed r then (None, r)
      else case stage_event event of
        None \<Rightarrow> (None, r)
      | Some (stage, status, elapsed, metadata, e) \<Rightarrow>
          let ((observation_id, start), active) = observe_stage stage status offset
                (case elapsed of Some n \<Rightarrow> n | None \<Rightarrow> 0) fresh (it_active r);
              telemetry = TraceStage
                \<lparr>stage_observation_id = observation_id, stage_of = stage, stage_status = status,
                 stage_start_offset_ms = start,
                 stage_end_offset_ms = (if status = TraceStarted then None else Some (max offset start)),
                 stage_elapsed_ms = elapsed,
                 stage_request_elapsed_ms = (if stage = StageFirstToken \<and> status = TraceCompleted
                   then Some offset else None),
                 stage_input_tokens = Option.bind (json_get metadata ''inputTokens'') as_u64,
                 stage_output_tokens = Option.bind (json_get metadata ''outputTokens'') as_u64,
                 stage_resident = Option.bind (json_get metadata ''resident'') as_bool,
                 stage_error = e\<rparr>
          in (Some telemetry, recorder_push telemetry (r\<lparr>it_active := active\<rparr>)))"

section \<open>Recordings\<close>

text \<open>What the call of an invocation does to its recorder, in any order.\<close>

datatype recorder_op =
    ProviderReport provider_event u64 uuid
  | RootInput json
  | RootOutput json
  | DeliveryReport uuid bool u64 u64 u64
  | FailActive u64 "string option"

definition delivery_report :: "uuid \<Rightarrow> bool \<Rightarrow> u64 \<Rightarrow> u64 \<Rightarrow> u64 \<Rightarrow> trace_telemetry" where
  "delivery_report observation_id delivered start_offset_ms end_offset_ms elapsed_ms = Delivery
     \<lparr>delivery_observation_id = observation_id,
      delivery_status = (if delivered then Delivered else DeliveryFailed),
      delivery_start_offset_ms = start_offset_ms, delivery_end_offset_ms = end_offset_ms,
      delivery_elapsed_ms = elapsed_ms,
      delivery_error = (if delivered then None else Some ''Agent Gateway result could not be delivered'')\<rparr>"

fun record_op :: "text_codec \<Rightarrow> recorder_op \<Rightarrow> invocation_telemetry \<Rightarrow> invocation_telemetry" where
  "record_op c (ProviderReport event offset fresh) r = snd (safe_trace_telemetry event offset fresh r)"
| "record_op c (RootInput v) r = set_root_input_summary (canonical_trace_io_summary c v) r"
| "record_op c (RootOutput v) r = set_root_output_summary (canonical_trace_io_summary c v) r"
| "record_op c (DeliveryReport i delivered start_ms end_ms elapsed_ms) r =
     recorder_push (delivery_report i delivered start_ms end_ms elapsed_ms) r"
| "record_op c (FailActive offset e) r = snd (fail_active offset e r)"

definition recording ::
    "text_codec \<Rightarrow> string \<Rightarrow> string \<Rightarrow> string option \<Rightarrow> recorder_op list \<Rightarrow> invocation_telemetry" where
  "recording c provider_key capability model ops =
     fold (record_op c) ops (recorder_new provider_key capability model)"

text \<open>A property of the running recorder is one of every report: what a call does is a change of the
  running observations, and pushes.\<close>

lemma safe_trace_telemetry_cases:
  assumes "\<not> it_sealed r"
  obtains (nothing) "stage_event event = None" and "safe_trace_telemetry event offset fresh r = (None, r)"
  | (report) stage status elapsed metadata e observation_id start active s where
    "stage_event event = Some (stage, status, elapsed, metadata, e)" and
    "observe_stage stage status offset (case elapsed of Some n \<Rightarrow> n | None \<Rightarrow> 0) fresh (it_active r) =
       ((observation_id, start), active)" and
    "s = \<lparr>stage_observation_id = observation_id, stage_of = stage, stage_status = status,
       stage_start_offset_ms = start,
       stage_end_offset_ms = (if status = TraceStarted then None else Some (max offset start)),
       stage_elapsed_ms = elapsed,
       stage_request_elapsed_ms = (if stage = StageFirstToken \<and> status = TraceCompleted
         then Some offset else None),
       stage_input_tokens = Option.bind (json_get metadata ''inputTokens'') as_u64,
       stage_output_tokens = Option.bind (json_get metadata ''outputTokens'') as_u64,
       stage_resident = Option.bind (json_get metadata ''resident'') as_bool,
       stage_error = e\<rparr>" and
    "safe_trace_telemetry event offset fresh r =
       (Some (TraceStage s), recorder_push (TraceStage s) (r\<lparr>it_active := active\<rparr>))"
proof (cases "stage_event event")
  case None
  with assms that(1) show thesis by (simp add: safe_trace_telemetry_def)
next
  case (Some x)
  obtain stage status elapsed metadata e where x: "x = (stage, status, elapsed, metadata, e)"
    by (cases x) auto
  obtain observation_id start active where o: "observe_stage stage status offset
      (case elapsed of Some n \<Rightarrow> n | None \<Rightarrow> 0) fresh (it_active r) = ((observation_id, start), active)"
    by (metis surj_pair)
  show thesis
    by (rule that(2)[OF _ o refl]) (use Some x assms o in \<open>simp_all add: safe_trace_telemetry_def Let_def\<close>)
qed

lemma position_Nil [simp]: "position P [] = None"
  by (simp add: position_def)

lemma position_Cons [simp]:
  "position P (x # xs) = (if P x then Some 0 else map_option Suc (position P xs))"
  by (simp add: position_def Let_def)

lemma position_bound: "position P xs = Some n \<Longrightarrow> n < length xs \<and> P (xs ! n)"
  by (induction xs arbitrary: n) (auto split: if_splits)

lemma position_None: "position P xs = None \<longleftrightarrow> (\<forall>x \<in> set xs. \<not> P x)"
  by (induction xs) auto

lemma terminal_place_bound:
  assumes "events \<noteq> []"
  shows "terminal_place event events < length events"
proof -
  have "min 1 (length events - 1) < length events" using assms by (cases events) auto
  then show ?thesis
    by (auto simp: terminal_place_def dest: position_bound split: option.splits)
qed

lemma one_more_dropped_le [simp]: "one_more_dropped n \<le> MAX_TRACE_DROPPED_EVENTS"
  by (simp add: one_more_dropped_def)

lemma one_more_dropped_nonzero [simp]: "one_more_dropped n \<noteq> 0"
proof (cases "n = - 1")
  case True
  then show ?thesis by (simp add: one_more_dropped_def MAX_TRACE_DROPPED_EVENTS_def min_def)
next
  case False
  then have "n + 1 \<noteq> 0" by (metis add.commute add_eq_0_iff)
  with False show ?thesis by (simp add: one_more_dropped_def MAX_TRACE_DROPPED_EVENTS_def min_def)
qed

subsection \<open>What the server accepts\<close>

text \<open>A Rust string is UTF-8: a zero byte is a character of its own.\<close>

definition utf8_text :: "string \<Rightarrow> bool" where
  "utf8_text v \<longleftrightarrow> (\<forall>ch \<in> set (utf8_chars v). ch = [CHR 0x00] \<or> CHR 0x00 \<notin> set ch)"

definition short_error :: "string \<Rightarrow> bool" where
  "short_error e \<longleftrightarrow> utf8_text e \<and> length e \<le> 512"

text \<open>
  What is asked of the inputs of a recording: the texts of errors have at most 512 bytes, times are
  within a day, token counts within a milliard, a failure says why, and a root value is one whose
  summary is final (its objects have at most 128 fields, its strings were not cut, and no field
  \<open>truncated\<close> claims what the flag does not say).
\<close>

definition final_summary :: "text_codec \<Rightarrow> json \<Rightarrow> bool" where
  "final_summary c v \<longleftrightarrow> prints_within c (shape_summary v) \<and>
     settled (summary_value (canonical_trace_io_summary c v)) \<and>
     (trace_io_summary_requires_truncation (summary_value (canonical_trace_io_summary c v)) \<longrightarrow>
        summary_truncated (canonical_trace_io_summary c v))"

definition within_a_day :: "u64 \<Rightarrow> bool" where
  "within_a_day ms \<longleftrightarrow> ms \<le> 86400000"

definition few_tokens :: "json \<Rightarrow> string \<Rightarrow> bool" where
  "few_tokens metadata key \<longleftrightarrow>
     (\<forall>n. Option.bind (json_get metadata key) as_u64 = Some n \<longrightarrow> n \<le> 1000000000)"

fun event_ok :: "provider_event \<Rightarrow> bool" where
  "event_ok (StageStarted stage metadata) \<longleftrightarrow>
     few_tokens metadata ''inputTokens'' \<and> few_tokens metadata ''outputTokens''"
| "event_ok (StageCompleted stage elapsed metadata) \<longleftrightarrow> within_a_day elapsed \<and>
     few_tokens metadata ''inputTokens'' \<and> few_tokens metadata ''outputTokens''"
| "event_ok (StageFailed stage elapsed e metadata) \<longleftrightarrow> within_a_day elapsed \<and> short_error e \<and>
     few_tokens metadata ''inputTokens'' \<and> few_tokens metadata ''outputTokens''"
| "event_ok other \<longleftrightarrow> True"

fun op_ok :: "text_codec \<Rightarrow> recorder_op \<Rightarrow> bool" where
  "op_ok c (ProviderReport event offset fresh) \<longleftrightarrow> within_a_day offset \<and> event_ok event"
| "op_ok c (RootInput v) \<longleftrightarrow> final_summary c v"
| "op_ok c (RootOutput v) \<longleftrightarrow> final_summary c v"
| "op_ok c (DeliveryReport i delivered start_ms end_ms elapsed_ms) \<longleftrightarrow>
     start_ms \<le> end_ms \<and> within_a_day end_ms \<and> within_a_day elapsed_ms"
| "op_ok c (FailActive offset e) \<longleftrightarrow> within_a_day offset \<and> (\<exists>t. e = Some t \<and> short_error t)"

definition acceptable :: "text_codec \<Rightarrow> invocation_telemetry \<Rightarrow> bool" where
  "acceptable c r \<longleftrightarrow> it_events r \<noteq> [] \<and> length (it_events r) \<le> MAX_TRACE_TELEMETRY_EVENTS \<and>
     (\<forall>t \<in> set (it_events r). valid_telemetry t) \<and> it_dropped r \<le> MAX_TRACE_DROPPED_EVENTS \<and>
     validate_trace_io_summary c (''root input summary'', it_input r) = Inr () \<and>
     validate_trace_io_summary c (''root output summary'', it_output r) = Inr () \<and>
     (\<forall>a \<in> set (it_active r). ao_start a \<le> MAX_TRACE_DURATION_MS) \<and> \<not> it_sealed r"

lemma visible_char_zero: "ch = [CHR 0x00] \<or> CHR 0x00 \<notin> set ch \<Longrightarrow> CHR 0x00 \<notin> set (visible_char ch)"
  by (auto simp: visible_char_def is_control_def)

lemma sanitize_error_text:
  "utf8_text v \<Longrightarrow> CHR 0x00 \<notin> set (sanitize_error v)" "sanitize_error v \<noteq> []"
proof -
  show "CHR 0x00 \<notin> set (sanitize_error v)" if "utf8_text v"
    using that visible_char_zero
    by (auto simp: sanitize_error_def Let_def utf8_text_def dest: in_set_takeD)
  have "trim [] = []" by (simp add: trim_def)
  then show "sanitize_error v \<noteq> []"
    unfolding sanitize_error_def Let_def by (metis list.simps(3))
qed

lemma utf8_chars_nonempty: "[] \<notin> set (utf8_chars v)"
  by (induction v rule: utf8_chars.induct) auto

lemma visible_chars_shorter:
  "[] \<notin> set chs \<Longrightarrow> length (concat (map visible_char chs)) \<le> length (concat chs)"
proof (induction chs)
  case (Cons ch chs)
  then have "length (visible_char ch) \<le> length ch"
    by (cases ch) (auto simp: visible_char_def)
  with Cons show ?case by simp
qed simp

text \<open>Sanitizing makes no text longer than 512 bytes if it was not longer.\<close>

lemma safe_observer_error_short:
  assumes "length e \<le> 512"
  shows "length (safe_observer_error e) \<le> 512"
proof -
  let ?chs = "take MAX_ERROR_CHARS (utf8_chars e)"
  have "[] \<notin> set ?chs" using utf8_chars_nonempty by (auto dest: in_set_takeD)
  then have "length (concat (map visible_char ?chs)) \<le> length (concat ?chs)" by (rule visible_chars_shorter)
  also have "\<dots> \<le> length e"
  proof -
    have "concat ?chs @ concat (drop MAX_ERROR_CHARS (utf8_chars e)) = e"
      by (metis append_take_drop_id concat_append concat_utf8_chars)
    from arg_cong [OF this, of length] show ?thesis unfolding length_append by linarith
  qed
  finally show ?thesis
    using assms by (simp add: safe_observer_error_def sanitize_error_def Let_def)
qed

lemma short_error_accepted:
  assumes "short_error e"
  shows "1 \<le> length (safe_observer_error e) \<and> length (safe_observer_error e) \<le> 512 \<and>
    CHR 0x00 \<notin> set (safe_observer_error e)"
proof -
  have "safe_observer_error e \<noteq> []" using sanitize_error_text(2) by (simp add: safe_observer_error_def)
  then have "1 \<le> length (safe_observer_error e)" by (simp add: Suc_le_eq)
  moreover have "CHR 0x00 \<notin> set (safe_observer_error e)"
    using assms sanitize_error_text(1) by (simp add: safe_observer_error_def short_error_def)
  ultimately show ?thesis using assms safe_observer_error_short by (simp add: short_error_def)
qed

lemma bounds_match:
  "within_a_day n \<longleftrightarrow> n \<le> MAX_TRACE_DURATION_MS"
  "few_tokens metadata key \<longleftrightarrow>
     (\<forall>n. Option.bind (json_get metadata key) as_u64 = Some n \<longrightarrow> n \<le> MAX_TRACE_TOKEN_COUNT)"
  by (simp_all add: within_a_day_def few_tokens_def MAX_TRACE_DURATION_MS_def MAX_TRACE_TOKEN_COUNT_def)

text \<open>The event of a report, as the recorder reads it.\<close>

lemma event_ok_stage:
  assumes "event_ok event" and "stage_event event = Some (stage, status, elapsed, metadata, e)"
  shows "\<forall>n. elapsed = Some n \<longrightarrow> n \<le> MAX_TRACE_DURATION_MS"
    and "\<forall>n. Option.bind (json_get metadata ''inputTokens'') as_u64 = Some n \<longrightarrow> n \<le> MAX_TRACE_TOKEN_COUNT"
    and "\<forall>n. Option.bind (json_get metadata ''outputTokens'') as_u64 = Some n \<longrightarrow> n \<le> MAX_TRACE_TOKEN_COUNT"
    and "\<forall>t. e = Some t \<longrightarrow> 1 \<le> length t \<and> length t \<le> 512 \<and> CHR 0x00 \<notin> set t"
  using assms short_error_accepted by (cases event; auto simp: bounds_match)+

lemma final_summary_accepted:
  assumes "refuses_placeholders c" and "final_summary c v"
  shows "validate_trace_io_summary c (name, Some (canonical_trace_io_summary c v)) = Inr ()"
  using canonical_fixed[OF assms(1), of v] canonical_prints[of c v] assms(2)
  by (auto simp: final_summary_def effective_truncated_def validate_json_def prints_within_def)

lemma delivery_report_valid:
  assumes "op_ok c (DeliveryReport i delivered start_ms end_ms elapsed_ms)"
  shows "valid_telemetry (delivery_report i delivered start_ms end_ms elapsed_ms)"
  using assms by (simp add: delivery_report_def valid_delivery_def bounds_match)

lemma saturating_sub_le: "saturating_sub a b \<le> (a :: u64)"
  by (simp add: saturating_sub_def word_sub_le)

lemma recorder_push_acceptable:
  "acceptable c r \<Longrightarrow> valid_telemetry t \<Longrightarrow> acceptable c (recorder_push t r)"
  by (auto simp: acceptable_def recorder_push_def)

lemma push_terminal_acceptable:
  assumes "acceptable c r" and "valid_telemetry t"
  shows "acceptable c (push_terminal t r)"
proof -
  have "\<forall>x \<in> set ((it_events r)[n := t]). valid_telemetry x" for n
    using assms set_update_subset_insert[of "it_events r" n t] by (auto simp: acceptable_def)
  with assms show ?thesis by (auto simp: acceptable_def push_terminal_def)
qed

lemma active_start:
  assumes "observe_stage stage status offset elapsed fresh active = ((i, start), active')"
    and "\<forall>a \<in> set active. ao_start a \<le> bound" and "offset \<le> bound"
  shows "start \<le> bound \<and> (\<forall>a \<in> set active'. ao_start a \<le> bound)"
proof (cases "position (\<lambda>a. ao_stage a = stage) active")
  case None
  have "saturating_sub offset elapsed \<le> bound"
    using saturating_sub_le[of offset elapsed] assms(3) by simp
  with None assms show ?thesis by (auto simp: observe_stage_def split: if_splits)
next
  case (Some n)
  then have "active ! n \<in> set active" using position_bound[of _ active n] by simp
  moreover have "\<forall>a \<in> set (take n active) \<union> set (drop (Suc n) active). ao_start a \<le> bound"
    using assms(2) by (auto dest: in_set_takeD in_set_dropD)
  ultimately show ?thesis using Some assms by (auto simp: observe_stage_def split: if_splits)
qed

lemma stage_event_error:
  "stage_event event = Some (stage, status, elapsed, metadata, e) \<Longrightarrow>
     (status = TraceStarted \<longleftrightarrow> elapsed = None) \<and> (status = TraceFailed \<longrightarrow> e \<noteq> None) \<and>
     (\<forall>t. e = Some t \<longrightarrow> (\<exists>s n text m. event = StageFailed s n text m \<and> t = safe_observer_error text))"
  by (cases event) auto

lemma provider_report_acceptable:
  assumes r: "acceptable c r" and ok: "op_ok c (ProviderReport event offset fresh)"
  shows "acceptable c (snd (safe_trace_telemetry event offset fresh r))"
proof -
  from r have open_r: "\<not> it_sealed r" by (simp add: acceptable_def)
  from open_r show ?thesis
  proof (cases rule: safe_trace_telemetry_cases[where event = event and offset = offset and fresh = fresh])
    case nothing
    with r show ?thesis by simp
  next
    case (report stage status elapsed metadata e observation_id start active s)
    note start = active_start[OF report(2), of MAX_TRACE_DURATION_MS]
    from r ok start have starts: "start \<le> MAX_TRACE_DURATION_MS"
      "\<forall>a \<in> set active. ao_start a \<le> MAX_TRACE_DURATION_MS" "offset \<le> MAX_TRACE_DURATION_MS"
      by (auto simp: acceptable_def bounds_match)
    from ok have "event_ok event" by simp
    note read = event_ok_stage[OF this report(1)]
    with stage_event_error[OF report(1)] starts have "valid_stage s"
      by (auto simp: report(3) valid_stage_def)
    moreover have "acceptable c (r\<lparr>it_active := active\<rparr>)"
      using r starts by (simp add: acceptable_def)
    ultimately show ?thesis
      using recorder_push_acceptable by (simp add: report(4))
  qed
qed

lemma fail_active_acceptable:
  assumes r: "acceptable c r" and ok: "op_ok c (FailActive offset e)"
  shows "acceptable c (snd (fail_active offset e r))"
proof -
  obtain t where e: "e = Some t" and t: "short_error t" and offset: "offset \<le> MAX_TRACE_DURATION_MS"
    using ok by (auto simp: bounds_match)
  have valid: "valid_telemetry (failed_stage offset e a)" if "a \<in> set (it_active r)" for a
  proof -
    have "ao_start a \<le> MAX_TRACE_DURATION_MS" using r that by (simp add: acceptable_def)
    moreover have "saturating_sub offset (ao_start a) \<le> MAX_TRACE_DURATION_MS"
      using saturating_sub_le[of offset "ao_start a"] offset by (auto intro: order_trans)
    ultimately show ?thesis
      using offset short_error_accepted[OF t] by (auto simp: failed_stage_def e valid_stage_def)
  qed
  have "acceptable c (fold push_terminal ts r')" if "acceptable c r'" "\<forall>t \<in> set ts. valid_telemetry t" for ts r'
    using that by (induction ts arbitrary: r') (auto intro: push_terminal_acceptable)
  moreover have "acceptable c (r\<lparr>it_active := []\<rparr>)" using r by (simp add: acceptable_def)
  ultimately show ?thesis using valid by (auto simp: fail_active_def Let_def)
qed

lemma summary_acceptable:
  assumes "refuses_placeholders c" and "acceptable c r" and "final_summary c v"
  shows "acceptable c (set_root_input_summary (canonical_trace_io_summary c v) r)"
    and "acceptable c (set_root_output_summary (canonical_trace_io_summary c v) r)"
  using assms final_summary_accepted[OF assms(1,3)]
  by (simp_all add: acceptable_def set_root_input_summary_def set_root_output_summary_def
      del: validate_trace_io_summary.simps)

lemma record_op_acceptable:
  assumes "refuses_placeholders c" and "acceptable c r" and "op_ok c op"
  shows "acceptable c (record_op c op r)"
proof (cases op)
  case (ProviderReport event offset fresh)
  then show ?thesis using provider_report_acceptable assms by (simp del: op_ok.simps)
next
  case (FailActive offset e)
  then show ?thesis using fail_active_acceptable assms by (simp del: op_ok.simps)
next
  case (DeliveryReport i delivered start_ms end_ms elapsed_ms)
  then show ?thesis using recorder_push_acceptable delivery_report_valid assms by (simp del: op_ok.simps)
qed (use assms summary_acceptable in simp_all)

text \<open>C39: The telemetry a gateway records of an invocation is telemetry the server accepts, in whatever order and
  however often its provider, its root values, its delivery and its failures are reported, also when the
  list overflows: if the provider and capability have valid names, times are within a day and in order,
  token counts within a milliard, the texts of errors UTF-8 of at most 512 bytes, every failure has one,
  and the summaries of the root values are final, the batch of the sealed recorder passes the check of
  the upload.\<close>

theorem recorded_batch_is_accepted:
  assumes "refuses_placeholders c" and "protocol_identifier provider_key" and "protocol_identifier capability"
    and "\<forall>m. model = Some m \<longrightarrow> 1 \<le> length m \<and> length m \<le> 512 \<and> CHR 0x00 \<notin> set m"
    and "list_all (op_ok c) ops"
  shows "validate_trace_telemetry_batch c
    (fst (recorder_finish (recording c provider_key capability model ops))) = Inr ()"
proof -
  have "acceptable c (recorder_new provider_key capability model)"
    using assms by (simp add: acceptable_def recorder_new_def MAX_TRACE_TELEMETRY_EVENTS_def
        MAX_TRACE_DROPPED_EVENTS_def)
  moreover have "acceptable c (fold (record_op c) os r)" if "acceptable c r" "list_all (op_ok c) os" for os r
    using that by (induction os arbitrary: r) (auto intro: record_op_acceptable[OF assms(1)])
  ultimately have "acceptable c (recording c provider_key capability model ops)"
    using assms(5) by (simp add: recording_def)
  then show ?thesis
    by (simp add: acceptable_def recorder_finish_def validate_trace_telemetry_batch_def telemetry_iff
        validate_trace_io_summaries_def and_then_eq_Inr)
qed

subsection \<open>Every stage that started ends\<close>

definition ended_stages :: "trace_telemetry list \<Rightarrow> uuid set" where
  "ended_stages ts = {stage_observation_id s |s. TraceStage s \<in> set ts \<and> stage_status s \<noteq> TraceStarted}"

definition stages_closed :: "uuid set \<Rightarrow> trace_telemetry list \<Rightarrow> bool" where
  "stages_closed running ts \<longleftrightarrow> (\<forall>earlier s after. ts = earlier @ TraceStage s # after \<and> stage_status s = TraceStarted \<longrightarrow>
     stage_observation_id s \<in> running \<union> ended_stages after)"

lemma stages_closed_snoc:
  assumes closed: "stages_closed running ts"
    and kept: "running \<subseteq> running' \<union> ended_stages [t]"
    and start: "\<And>s. t = TraceStage s \<Longrightarrow> stage_status s = TraceStarted \<Longrightarrow> stage_observation_id s \<in> running'"
  shows "stages_closed running' (ts @ [t])"
  unfolding stages_closed_def
proof (intro allI impI, elim conjE)
  fix earlier s after
  assume list: "ts @ [t] = earlier @ TraceStage s # after" and started: "stage_status s = TraceStarted"
  show "stage_observation_id s \<in> running' \<union> ended_stages after"
  proof (cases after rule: rev_cases)
    case Nil
    with list start started show ?thesis by simp
  next
    case (snoc later t')
    with list have "ts = earlier @ TraceStage s # later" and t: "t' = t" by auto
    with closed started have "stage_observation_id s \<in> running \<union> ended_stages later"
      by (auto simp: stages_closed_def)
    moreover have "ended_stages after = ended_stages later \<union> ended_stages [t]"
      by (auto simp: snoc t ended_stages_def)
    ultimately show ?thesis using kept by auto
  qed
qed

definition recorder_closed :: "invocation_telemetry \<Rightarrow> bool" where
  "recorder_closed r \<longleftrightarrow> \<not> it_sealed r \<and> (it_dropped r = 0 \<longrightarrow> stages_closed (ao_id ` set (it_active r)) (it_events r))"

lemma push_closed:
  assumes "recorder_closed r" and "ao_id ` set (it_active r) \<subseteq> ao_id ` set active \<union> ended_stages [t]"
    and "\<And>s. t = TraceStage s \<Longrightarrow> stage_status s = TraceStarted \<Longrightarrow> stage_observation_id s \<in> ao_id ` set active"
  shows "recorder_closed (recorder_push t (r\<lparr>it_active := active\<rparr>))"
  using assms stages_closed_snoc[of "ao_id ` set (it_active r)" "it_events r" "ao_id ` set active" t]
  by (auto simp: recorder_closed_def recorder_push_def)

lemma observe_stage_ids:
  assumes "observe_stage stage status offset elapsed fresh active = ((i, start), active')"
  shows "status = TraceStarted \<Longrightarrow> i \<in> ao_id ` set active' \<and> ao_id ` set active \<subseteq> ao_id ` set active'"
    and "status \<noteq> TraceStarted \<Longrightarrow> ao_id ` set active \<subseteq> insert i (ao_id ` set active')"
proof -
  have split_at: "set active = insert (active ! n) (set (take n active) \<union> set (drop (Suc n) active))"
    if "n < length active" for n
    using arg_cong[OF id_take_nth_drop[OF that], of set] by auto
  show "i \<in> ao_id ` set active' \<and> ao_id ` set active \<subseteq> ao_id ` set active'" if "status = TraceStarted"
    using assms that by (auto simp: observe_stage_def dest!: position_bound split: option.splits)
  show "ao_id ` set active \<subseteq> insert i (ao_id ` set active')" if "status \<noteq> TraceStarted"
  proof (cases "position (\<lambda>a. ao_stage a = stage) active")
    case None
    with assms that show ?thesis by (auto simp: observe_stage_def)
  next
    case (Some n)
    then have "n < length active" using position_bound by blast
    from split_at[OF this] Some assms that show ?thesis by (auto simp: observe_stage_def)
  qed
qed

lemma provider_report_closed:
  assumes r: "recorder_closed r"
  shows "recorder_closed (snd (safe_trace_telemetry event offset fresh r))"
proof -
  from r have "\<not> it_sealed r" by (simp add: recorder_closed_def)
  then show ?thesis
  proof (cases rule: safe_trace_telemetry_cases[where event = event and offset = offset and fresh = fresh])
    case nothing
    with r show ?thesis by simp
  next
    case (report stage status elapsed metadata e observation_id start active s)
    note ids = observe_stage_ids[OF report(2)]
    have "recorder_closed (recorder_push (TraceStage s) (r\<lparr>it_active := active\<rparr>))"
    proof (rule push_closed[OF r])
      show "ao_id ` set (it_active r) \<subseteq> ao_id ` set active \<union> ended_stages [TraceStage s]"
        using ids by (cases "status = TraceStarted") (auto simp: ended_stages_def report(3))
    qed (use ids report(3) in auto)
    then show ?thesis by (simp add: report(4))
  qed
qed

lemma push_terminals_closed:
  assumes "it_dropped r = 0 \<longrightarrow> stages_closed (ao_id ` set as) (it_events r)"
  shows "it_dropped (fold push_terminal (map (failed_stage offset e) as) r) = 0 \<longrightarrow>
    stages_closed {} (it_events (fold push_terminal (map (failed_stage offset e) as) r))"
  using assms
proof (induction as arbitrary: r)
  case (Cons a as)
  let ?r = "push_terminal (failed_stage offset e a) r"
  have "it_dropped ?r = 0 \<longrightarrow> stages_closed (ao_id ` set as) (it_events ?r)"
    using Cons.prems stages_closed_snoc[of "ao_id ` set (a # as)" "it_events r" "ao_id ` set as"
        "failed_stage offset e a"]
    by (auto simp: push_terminal_def failed_stage_def ended_stages_def)
  from Cons.IH[OF this] show ?case by simp
qed simp

lemma fold_push_terminal_frame:
  "it_sealed (fold push_terminal ts r) = it_sealed r" "it_active (fold push_terminal ts r) = it_active r"
  by (induction ts arbitrary: r) (simp_all add: push_terminal_def)

lemma fail_active_closed:
  assumes "recorder_closed r"
  shows "recorder_closed (snd (fail_active offset e r)) \<and> it_active (snd (fail_active offset e r)) = []"
  using assms push_terminals_closed[of "r\<lparr>it_active := []\<rparr>" "it_active r" offset e]
  by (simp add: recorder_closed_def fail_active_def Let_def fold_push_terminal_frame)

lemma record_op_closed: "recorder_closed r \<Longrightarrow> recorder_closed (record_op c op r)"
proof (cases op)
  case (DeliveryReport i delivered start_ms end_ms elapsed_ms)
  assume "recorder_closed r"
  then show ?thesis
    using push_closed[of r "it_active r" "delivery_report i delivered start_ms end_ms elapsed_ms"]
    by (simp add: DeliveryReport) (simp add: delivery_report_def)
next
  case (RootInput v)
  assume "recorder_closed r"
  then show ?thesis by (simp add: RootInput recorder_closed_def set_root_input_summary_def)
next
  case (RootOutput v)
  assume "recorder_closed r"
  then show ?thesis by (simp add: RootOutput recorder_closed_def set_root_output_summary_def)
qed (simp_all add: provider_report_closed fail_active_closed)

text \<open>No stage stays open in the record of a call that ended without a result: if no report was dropped, every
  stage that started has, later in the batch, its completion or failure under the same observation id.\<close>

theorem failed_call_leaves_no_stage_open:
  assumes "batch = fst (recorder_finish (recording c provider_key capability model (ops @ [FailActive offset e])))"
    and "batch_dropped_events batch = 0"
    and "batch_events batch = earlier @ TraceStage s # after" and "stage_status s = TraceStarted"
  shows "\<exists>t. TraceStage t \<in> set after \<and> stage_status t \<noteq> TraceStarted \<and>
    stage_observation_id t = stage_observation_id s"
proof -
  let ?r = "recording c provider_key capability model ops"
  have "recorder_closed (recorder_new provider_key capability model)"
    by (auto simp: recorder_closed_def recorder_new_def stages_closed_def Cons_eq_append_conv)
  moreover have "recorder_closed (fold (record_op c) os r)" if "recorder_closed r" for os r
    using that by (induction os arbitrary: r) (auto intro: record_op_closed)
  ultimately have "recorder_closed ?r" by (simp add: recording_def)
  from fail_active_closed[OF this, of offset e]
  have closed: "recorder_closed (snd (fail_active offset e ?r))"
    and idle: "it_active (snd (fail_active offset e ?r)) = []" by auto
  have "batch_events batch = it_events (snd (fail_active offset e ?r))"
    "batch_dropped_events batch = it_dropped (snd (fail_active offset e ?r))"
    by (simp_all add: assms(1) recorder_finish_def recording_def)
  then have "stages_closed {} (batch_events batch)"
    using closed assms(2) by (simp add: recorder_closed_def idle)
  with assms(3,4) have "stage_observation_id s \<in> ended_stages after"
    by (auto simp: stages_closed_def)
  then show ?thesis by (auto simp: ended_stages_def)
qed

section \<open>Examples\<close>

definition sample_reports :: "recorder_op list" where
  "sample_reports =
     [ProviderReport (StageStarted StageLoad (JObject [])) 5 0,
      ProviderReport (StageStarted StagePrefill (JObject [])) 9 2,
      ProviderReport (StageCompleted StageLoad 7 (JObject [])) 12 3]"

lemma recorded_batch_is_accepted_witness:
  "validate_trace_telemetry_batch Trace_Io.sample_codec
     (fst (recorder_finish (recording Trace_Io.sample_codec ''local-llm'' ''chat'' (Some ''base'')
       (RootInput JNull # sample_reports @ [DeliveryReport 4 True 12 13 1])))) = Inr ()"
proof (rule recorded_batch_is_accepted)
  show "refuses_placeholders Trace_Io.sample_codec" by (rule sample_refuses)
  show "protocol_identifier ''local-llm''" "protocol_identifier ''chat''"
    by (simp_all add: protocol_identifier_def protocol_byte_def is_ascii_alphanumeric_def
        is_ascii_alphabetic_def)
  have "final_summary Trace_Io.sample_codec JNull"
    by (simp add: final_summary_def canonical_cases prints_within_def sample_codec_prints shape_summary_def
        MAX_TRACE_IO_SUMMARY_BYTES_def)
  then show "list_all (op_ok Trace_Io.sample_codec)
      (RootInput JNull # sample_reports @ [DeliveryReport 4 True 12 13 1])"
    by (simp add: sample_reports_def within_a_day_def few_tokens_def json_get_def)
qed simp

lemma failed_call_leaves_no_stage_open_witness:
  "\<exists>t. TraceStage t \<in> set (drop 3 (it_events (recording Trace_Io.sample_codec ''local-llm'' ''chat'' None
      (sample_reports @ [FailActive 20 (Some ''lost'')])))) \<and> stage_status t \<noteq> TraceStarted \<and>
    stage_observation_id t = 2"
proof -
  let ?r = "recording Trace_Io.sample_codec ''local-llm'' ''chat'' None (sample_reports @ [FailActive 20 (Some ''lost'')])"
  note run = recording_def sample_reports_def recorder_new_def safe_trace_telemetry_def Let_def
    observe_stage_def recorder_push_def MAX_TRACE_TELEMETRY_EVENTS_def fail_active_def push_terminal_def
    failed_stage_def
  obtain earlier s where list: "it_events ?r = earlier @ TraceStage s # drop 3 (it_events ?r)"
    and s: "stage_status s = TraceStarted" "stage_observation_id s = 2"
    by (auto simp: run)
  have "it_dropped ?r = 0" by (simp add: run)
  then show ?thesis
    using failed_call_leaves_no_stage_open[OF refl, where provider_key = "''local-llm''"
        and capability = "''chat''" and model = None and ops = sample_reports and offset = 20
        and e = "Some ''lost''" and c = Trace_Io.sample_codec and earlier = earlier and s = s
        and after = "drop 3 (it_events ?r)"] list s
    by (simp add: recorder_finish_def)
qed

text \<open>An error of 300 accented letters has 300 characters but 600 bytes: it passes the limit of
  characters of the recorder and not the limit of bytes of the upload, so the whole batch is refused.\<close>

definition accents :: "nat \<Rightarrow> string" where
  "accents n = concat (replicate n [CHR 0xC3, CHR 0xA9])"

lemma accent_chars: "utf8_chars (accents n) = replicate n [CHR 0xC3, CHR 0xA9]"
proof -
  have "chars_ok (replicate n [CHR 0xC3, CHR 0xA9])" for n
  proof (induction n)
    case (Suc n)
    then show ?case by (cases n) (simp_all add: utf8_len_def)
  qed simp
  then show ?thesis by (simp only: accents_def utf8_chars_concat)
qed

lemma trim_accents: "trim (accents n) = accents n"
proof -
  have "dropWhile is_whitespace (replicate n [CHR 0xC3, CHR 0xA9]) = replicate n [CHR 0xC3, CHR 0xA9]"
    by (cases n) (simp_all add: is_whitespace_def)
  then have "trim (accents n) = concat (replicate n [CHR 0xC3, CHR 0xA9])"
    by (simp only: trim_def accent_chars rev_replicate)
  then show ?thesis by (simp only: accents_def)
qed

lemma observer_markers_ascii:
  "list_all (\<lambda>m. m \<noteq> [] \<and> hd m \<noteq> CHR 0xC3 \<and> hd m \<noteq> CHR 0xA9) observer_markers"
  by (simp add: observer_markers_def)

lemma accents_bytes: "set (accents n) \<subseteq> {CHR 0xC3, CHR 0xA9}"
  by (auto simp: accents_def)

lemma accents_unmarked: "\<not> list_ex (str_contains (accents n)) observer_markers"
proof
  assume "list_ex (str_contains (accents n)) observer_markers"
  then obtain m where m: "m \<in> set observer_markers" and "str_contains (accents n) m"
    unfolding list_ex_iff by blast
  then have "set m \<subseteq> {CHR 0xC3, CHR 0xA9}"
    using accents_bytes[of n] set_mono_sublist[of m "accents n"] by (simp only: str_contains_def) blast
  moreover have "hd m \<in> set m" and "hd m \<noteq> CHR 0xC3 \<and> hd m \<noteq> CHR 0xA9"
    using m observer_markers_ascii unfolding list_all_iff by (blast intro: hd_in_set)+
  ultimately show False by blast
qed

lemma lower_accents: "to_ascii_lowercase (accents n) = accents n"
proof -
  have "map ascii_lower [CHR 0xC3, CHR 0xA9] = [CHR 0xC3, CHR 0xA9]"
    by (simp add: ascii_lower_def)
  then show ?thesis
    by (simp only: to_ascii_lowercase_def accents_def map_concat map_replicate)
qed

lemma accents_kept:
  assumes "0 < n" and "n \<le> 512"
  shows "safe_observer_error (accents n) = accents n"
proof -
  have "map visible_char (replicate n [CHR 0xC3, CHR 0xA9]) = replicate n [CHR 0xC3, CHR 0xA9]"
    by (simp add: visible_char_def is_control_def)
  then have "map visible_char (take MAX_ERROR_CHARS (utf8_chars (accents n))) = utf8_chars (accents n)"
    using assms(2) by (simp only: accent_chars MAX_ERROR_CHARS_def take_replicate min_absorb2)
  moreover have "accents n \<noteq> []" using assms(1) by (simp add: accents_def)
  ultimately show ?thesis
    using accents_unmarked[of n] by (simp add: safe_observer_error_def sanitize_error_def trim_accents lower_accents)
qed

theorem accented_error_loses_telemetry:
  "validate_trace_telemetry_batch c (fst (recorder_finish (recording c ''local-llm'' ''chat'' None
     [ProviderReport (StageFailed StagePrefill 5 (accents 300) (JObject [])) 9 2]))) =
   Inl ''invalid trace stage error''"
proof -
  have "length (accents 300) = 600" and kept: "safe_observer_error (accents 300) = accents 300"
    using accents_kept[of 300] by (simp_all add: accents_def length_concat sum_list_replicate)
  then show ?thesis
    by (simp add: recording_def recorder_new_def safe_trace_telemetry_def Let_def observe_stage_def
        recorder_push_def recorder_finish_def validate_trace_telemetry_batch_def kept
        MAX_TRACE_TELEMETRY_EVENTS_def MAX_TRACE_DROPPED_EVENTS_def validate_trace_stage_def
        validate_stage_status_def optional_check_def validate_text_def
        validate_protocol_identifier_def protocol_byte_def is_ascii_alphanumeric_def
        is_ascii_alphabetic_def ensure_def)
qed

end
