(* ===== verification/Telemetry_Backlog.thy ===== *)
theory Telemetry_Backlog
  imports Gateway_Recorder "HOL-Library.Multiset"
begin

text \<open>
  The upload of recorded telemetry (\<open>crates/vifu-gateway/src/relay.rs\<close>): every finished invocation uploads
  its batch itself or leaves it in a bounded backlog, which one flusher at a time empties, with growing
  delays while the server is away. The tasks of a gateway interleave; a step of one runs from a lock, a
  permit or an await to the next. Permits limit the uploads at a time. A client stands for the device
  token its task uploads with, and the server's answer to an upload is an argument of its step.
\<close>

section \<open>The backlog\<close>

definition MAX_PENDING_TELEMETRY_BATCHES :: nat where "MAX_PENDING_TELEMETRY_BATCHES = 512"
definition MAX_CONCURRENT_TELEMETRY_UPLOADS :: nat where "MAX_CONCURRENT_TELEMETRY_UPLOADS = 4"
definition TELEMETRY_RETRY_INITIAL_DELAY :: nat where "TELEMETRY_RETRY_INITIAL_DELAY = 250"
definition TELEMETRY_RETRY_MAX_DELAY :: nat where "TELEMETRY_RETRY_MAX_DELAY = 5000"

record pending_batch =
  pb_request_id :: uuid
  pb_batch :: trace_telemetry_batch

record telemetry_backlog =
  bl_pending :: "pending_batch list"
  bl_flushing :: bool
  bl_permanent_drops :: u64
  bl_overflow_drops :: u64

datatype upload_result = UploadAccepted | UploadRetryable | UploadPermanent

text \<open>The status of a refusal decides whether it is worth another attempt.\<close>

definition classify_trace_observation_status :: "nat \<Rightarrow> upload_result" where
  "classify_trace_observation_status status =
     (if status = 408 \<or> status = 429 \<or> 500 \<le> status \<and> status < 600 then UploadRetryable else UploadPermanent)"

text \<open>The answer of the server: no response in time, a status, a status of success with a body
  that reads as an acknowledgement or not.\<close>

datatype upload_answer =
    NoAnswer
  | AnswerStatus nat
  | Acknowledged "uuid option"

definition upload_trace_observations_classified ::
    "text_codec \<Rightarrow> pending_batch \<Rightarrow> upload_answer \<Rightarrow> upload_result" where
  "upload_trace_observations_classified c b answer =
     (if validate_trace_telemetry_batch c (pb_batch b) \<noteq> Inr () then UploadPermanent
      else case answer of
        NoAnswer \<Rightarrow> UploadRetryable
      | AnswerStatus status \<Rightarrow> classify_trace_observation_status status
      | Acknowledged None \<Rightarrow> UploadPermanent
      | Acknowledged (Some accepted) \<Rightarrow>
          if accepted = pb_request_id b then UploadAccepted else UploadPermanent)"

definition enqueue_telemetry_batch :: "pending_batch \<Rightarrow> telemetry_backlog \<Rightarrow> telemetry_backlog" where
  "enqueue_telemetry_batch b l =
     (if length (bl_pending l) = MAX_PENDING_TELEMETRY_BATCHES
      then l\<lparr>bl_pending := tl (bl_pending l) @ [b], bl_overflow_drops := saturating_add (bl_overflow_drops l) 1\<rparr>
      else l\<lparr>bl_pending := bl_pending l @ [b]\<rparr>)"

definition restore_retryable_telemetry :: "pending_batch \<Rightarrow> telemetry_backlog \<Rightarrow> telemetry_backlog" where
  "restore_retryable_telemetry b l =
     (if length (bl_pending l) = MAX_PENDING_TELEMETRY_BATCHES
      then l\<lparr>bl_overflow_drops := saturating_add (bl_overflow_drops l) 1\<rparr>
      else l\<lparr>bl_pending := b # bl_pending l\<rparr>)"

definition record_permanent_telemetry_drop :: "telemetry_backlog \<Rightarrow> telemetry_backlog" where
  "record_permanent_telemetry_drop l =
     l\<lparr>bl_permanent_drops := saturating_add (bl_permanent_drops l) 1\<rparr>"

text \<open>Whether the flusher goes on without a pause, and the backlog after the answer.\<close>

definition handle_telemetry_flush_result ::
    "pending_batch \<Rightarrow> upload_result \<Rightarrow> telemetry_backlog \<Rightarrow> bool \<times> telemetry_backlog" where
  "handle_telemetry_flush_result b result l =
     (case result of
        UploadAccepted \<Rightarrow> (True, l)
      | UploadRetryable \<Rightarrow> (False, restore_retryable_telemetry b l)
      | UploadPermanent \<Rightarrow> (True, record_permanent_telemetry_drop l))"

section \<open>Tasks\<close>

text \<open>A sender is the end of an invocation, from the release of its call permit; a shed one does not
  upload itself. A flusher empties the backlog.\<close>

datatype telemetry_task =
    Offering nat pending_batch
  | Shedding nat pending_batch
  | DirectUpload nat pending_batch
  | DirectAnswered nat
  | Triggering nat
  | FlushWaiting nat nat
  | FlushHolding nat nat
  | FlushUploading nat nat pending_batch
  | FlushAnswered nat nat pending_batch upload_result
  | FlushSleeping nat nat
  | FlushReleasing
  | TaskEnded

record telemetry_system =
  tm_backlog :: telemetry_backlog
  tm_permits :: nat
  tm_tasks :: "telemetry_task list"

definition telemetry_start :: telemetry_system where
  "telemetry_start = \<lparr>tm_backlog = \<lparr>bl_pending = [], bl_flushing = False, bl_permanent_drops = 0,
     bl_overflow_drops = 0\<rparr>, tm_permits = MAX_CONCURRENT_TELEMETRY_UPLOADS, tm_tasks = []\<rparr>"

datatype telemetry_label =
    BatchOffered pending_batch
  | BatchUploaded pending_batch
  | BatchRefused pending_batch
  | BatchOverflowed pending_batch
  | BatchAborted pending_batch

definition become :: "nat \<Rightarrow> telemetry_task \<Rightarrow> telemetry_system \<Rightarrow> telemetry_system" where
  "become i t s = s\<lparr>tm_tasks := (tm_tasks s)[i := t]\<rparr>"

definition on_backlog :: "(telemetry_backlog \<Rightarrow> telemetry_backlog) \<Rightarrow> telemetry_system \<Rightarrow> telemetry_system" where
  "on_backlog f s = s\<lparr>tm_backlog := f (tm_backlog s)\<rparr>"

definition release_permit :: "telemetry_system \<Rightarrow> telemetry_system" where
  "release_permit s = s\<lparr>tm_permits := tm_permits s + 1\<rparr>"

definition trigger_telemetry_flush :: "nat \<Rightarrow> telemetry_system \<Rightarrow> telemetry_system" where
  "trigger_telemetry_flush client s =
     (if bl_flushing (tm_backlog s) \<or> bl_pending (tm_backlog s) = [] then s
      else on_backlog (\<lambda>l. l\<lparr>bl_flushing := True\<rparr>)
        (s\<lparr>tm_tasks := tm_tasks s @ [FlushWaiting client TELEMETRY_RETRY_INITIAL_DELAY]\<rparr>))"

definition overflow_labels :: "telemetry_backlog \<Rightarrow> pending_batch list \<Rightarrow> telemetry_label list" where
  "overflow_labels l dropped =
     (if length (bl_pending l) = MAX_PENDING_TELEMETRY_BATCHES then map BatchOverflowed dropped else [])"

text \<open>The next step of the task, with the server's answer if it is uploading.\<close>

fun task_step ::
    "nat \<Rightarrow> upload_result \<Rightarrow> telemetry_task \<Rightarrow> telemetry_system \<Rightarrow> (telemetry_label list \<times> telemetry_system) option" where
  "task_step i answer (Offering client b) s =
     (if tm_permits s = 0
      then Some (overflow_labels (tm_backlog s) (take 1 (bl_pending (tm_backlog s))),
        become i (Triggering client) (on_backlog (enqueue_telemetry_batch b) s))
      else Some ([], become i (DirectUpload client b) (s\<lparr>tm_permits := tm_permits s - 1\<rparr>)))"
| "task_step i answer (Shedding client b) s =
     Some (overflow_labels (tm_backlog s) (take 1 (bl_pending (tm_backlog s))),
       become i (Triggering client) (on_backlog (enqueue_telemetry_batch b) s))"
| "task_step i answer (DirectUpload client b) s =
     (case answer of
        UploadAccepted \<Rightarrow> Some ([BatchUploaded b], become i (DirectAnswered client) s)
      | UploadRetryable \<Rightarrow>
          Some (overflow_labels (tm_backlog s) (take 1 (bl_pending (tm_backlog s))),
            become i (DirectAnswered client) (on_backlog (enqueue_telemetry_batch b) s))
      | UploadPermanent \<Rightarrow>
          Some ([BatchRefused b], become i (DirectAnswered client) (on_backlog record_permanent_telemetry_drop s)))"
| "task_step i answer (DirectAnswered client) s = Some ([], become i (Triggering client) (release_permit s))"
| "task_step i answer (Triggering client) s =
     Some ([], trigger_telemetry_flush client (become i TaskEnded s))"
| "task_step i answer (FlushWaiting client delay) s =
     (if tm_permits s = 0 then None
      else Some ([], become i (FlushHolding client delay) (s\<lparr>tm_permits := tm_permits s - 1\<rparr>)))"
| "task_step i answer (FlushHolding client delay) s =
     (case bl_pending (tm_backlog s) of
        b # rest \<Rightarrow> Some ([], become i (FlushUploading client delay b) (on_backlog (\<lambda>l. l\<lparr>bl_pending := rest\<rparr>) s))
      | [] \<Rightarrow> Some ([], become i FlushReleasing (on_backlog (\<lambda>l. l\<lparr>bl_flushing := False\<rparr>) s)))"
| "task_step i answer (FlushUploading client delay b) s =
     Some ((case answer of UploadAccepted \<Rightarrow> [BatchUploaded b] | _ \<Rightarrow> []),
       become i (FlushAnswered client delay b answer) (release_permit s))"
| "task_step i answer (FlushAnswered client delay b result) s =
     (let (go_on, l) = handle_telemetry_flush_result b result (tm_backlog s)
      in Some ((case result of UploadAccepted \<Rightarrow> [] | UploadRetryable \<Rightarrow> overflow_labels (tm_backlog s) [b]
                | UploadPermanent \<Rightarrow> [BatchRefused b]),
         become i (if go_on then FlushWaiting client TELEMETRY_RETRY_INITIAL_DELAY else FlushSleeping client delay)
           (s\<lparr>tm_backlog := l\<rparr>)))"
| "task_step i answer (FlushSleeping client delay) s =
     Some ([], become i (FlushWaiting client (min (2 * delay) TELEMETRY_RETRY_MAX_DELAY)) s)"
| "task_step i answer FlushReleasing s = Some ([], become i TaskEnded (release_permit s))"
| "task_step i answer TaskEnded s = None"

datatype telemetry_action =
    InvocationEnded nat pending_batch
  | InvocationShed nat pending_batch
  | ClientConnected nat
  | TaskRuns nat upload_result
  | TaskAborts nat

text \<open>A connection that ends aborts the tasks of its calls, at an await: of the ones here, the upload.\<close>

fun task_abort :: "nat \<Rightarrow> telemetry_task \<Rightarrow> telemetry_system \<Rightarrow> (telemetry_label list \<times> telemetry_system) option" where
  "task_abort i (DirectUpload client b) s = Some ([BatchAborted b], become i TaskEnded (release_permit s))"
| "task_abort i t s = None"

fun telemetry_step :: "telemetry_action \<Rightarrow> telemetry_system \<Rightarrow> (telemetry_label list \<times> telemetry_system) option" where
  "telemetry_step (InvocationEnded client b) s =
     Some ([BatchOffered b], s\<lparr>tm_tasks := tm_tasks s @ [Offering client b]\<rparr>)"
| "telemetry_step (InvocationShed client b) s =
     Some ([BatchOffered b], s\<lparr>tm_tasks := tm_tasks s @ [Shedding client b]\<rparr>)"
| "telemetry_step (ClientConnected client) s = Some ([], trigger_telemetry_flush client s)"
| "telemetry_step (TaskRuns i answer) s =
     (if i < length (tm_tasks s) then task_step i answer (tm_tasks s ! i) s else None)"
| "telemetry_step (TaskAborts i) s =
     (if i < length (tm_tasks s) then task_abort i (tm_tasks s ! i) s else None)"

text \<open>The labels and the state after some actions; an action that is not possible does not happen.\<close>

fun telemetry_run :: "telemetry_action list \<Rightarrow> telemetry_system \<Rightarrow> telemetry_label list \<times> telemetry_system" where
  "telemetry_run [] s = ([], s)"
| "telemetry_run (a # as) s =
     (case telemetry_step a s of
        None \<Rightarrow> telemetry_run as s
      | Some (ls, s') \<Rightarrow> (let (ls', s'') = telemetry_run as s' in (ls @ ls', s'')))"

section \<open>Batches and permits\<close>

definition offered :: "telemetry_label list \<Rightarrow> pending_batch multiset" where
  "offered ls = mset [b. BatchOffered b <- ls]"
definition uploaded :: "telemetry_label list \<Rightarrow> pending_batch multiset" where
  "uploaded ls = mset [b. BatchUploaded b <- ls]"
definition refused :: "telemetry_label list \<Rightarrow> pending_batch multiset" where
  "refused ls = mset [b. BatchRefused b <- ls]"
definition overflowed :: "telemetry_label list \<Rightarrow> pending_batch multiset" where
  "overflowed ls = mset [b. BatchOverflowed b <- ls]"
definition aborted :: "telemetry_label list \<Rightarrow> pending_batch multiset" where
  "aborted ls = mset [b. BatchAborted b <- ls]"

lemma label_simps [simp]:
  "offered [] = {#}" "uploaded [] = {#}" "refused [] = {#}" "overflowed [] = {#}"
  "offered (ls @ ms) = offered ls + offered ms" "uploaded (ls @ ms) = uploaded ls + uploaded ms"
  "refused (ls @ ms) = refused ls + refused ms" "overflowed (ls @ ms) = overflowed ls + overflowed ms"
  "offered (BatchOffered b # ls) = add_mset b (offered ls)" "uploaded (BatchOffered b # ls) = uploaded ls"
  "refused (BatchOffered b # ls) = refused ls" "overflowed (BatchOffered b # ls) = overflowed ls"
  "offered (BatchUploaded b # ls) = offered ls" "uploaded (BatchUploaded b # ls) = add_mset b (uploaded ls)"
  "refused (BatchUploaded b # ls) = refused ls" "overflowed (BatchUploaded b # ls) = overflowed ls"
  "offered (BatchRefused b # ls) = offered ls" "uploaded (BatchRefused b # ls) = uploaded ls"
  "refused (BatchRefused b # ls) = add_mset b (refused ls)" "overflowed (BatchRefused b # ls) = overflowed ls"
  "offered (BatchOverflowed b # ls) = offered ls" "uploaded (BatchOverflowed b # ls) = uploaded ls"
  "refused (BatchOverflowed b # ls) = refused ls" "overflowed (BatchOverflowed b # ls) = add_mset b (overflowed ls)"
  "aborted [] = {#}" "aborted (ls @ ms) = aborted ls + aborted ms"
  "aborted (BatchOffered b # ls) = aborted ls" "aborted (BatchUploaded b # ls) = aborted ls"
  "aborted (BatchRefused b # ls) = aborted ls" "aborted (BatchOverflowed b # ls) = aborted ls"
  "aborted (BatchAborted b # ls) = add_mset b (aborted ls)" "offered (BatchAborted b # ls) = offered ls"
  "uploaded (BatchAborted b # ls) = uploaded ls" "refused (BatchAborted b # ls) = refused ls"
  "overflowed (BatchAborted b # ls) = overflowed ls"
  by (simp_all add: offered_def uploaded_def refused_def overflowed_def aborted_def)

text \<open>The batches a task carries, the permits it holds, and whether it is the flusher of the flag.\<close>

fun carried :: "telemetry_task \<Rightarrow> pending_batch multiset" where
  "carried (Offering client b) = {#b#}"
| "carried (Shedding client b) = {#b#}"
| "carried (DirectUpload client b) = {#b#}"
| "carried (FlushUploading client delay b) = {#b#}"
| "carried (FlushAnswered client delay b result) = (if result = UploadAccepted then {#} else {#b#})"
| "carried task = {#}"

fun held_permits :: "telemetry_task \<Rightarrow> nat" where
  "held_permits (DirectUpload client b) = 1"
| "held_permits (DirectAnswered client) = 1"
| "held_permits (FlushHolding client delay) = 1"
| "held_permits (FlushUploading client delay b) = 1"
| "held_permits FlushReleasing = 1"
| "held_permits task = 0"

fun flushes :: "telemetry_task \<Rightarrow> nat" where
  "flushes (FlushWaiting client delay) = 1"
| "flushes (FlushHolding client delay) = 1"
| "flushes (FlushUploading client delay b) = 1"
| "flushes (FlushAnswered client delay b result) = 1"
| "flushes (FlushSleeping client delay) = 1"
| "flushes task = 0"

fun retry_delay_ok :: "telemetry_task \<Rightarrow> bool" where
  "retry_delay_ok (FlushWaiting client delay) \<longleftrightarrow> 250 \<le> delay \<and> delay \<le> 5000"
| "retry_delay_ok (FlushHolding client delay) \<longleftrightarrow> 250 \<le> delay \<and> delay \<le> 5000"
| "retry_delay_ok (FlushUploading client delay b) \<longleftrightarrow> 250 \<le> delay \<and> delay \<le> 5000"
| "retry_delay_ok (FlushAnswered client delay b result) \<longleftrightarrow> 250 \<le> delay \<and> delay \<le> 5000"
| "retry_delay_ok (FlushSleeping client delay) \<longleftrightarrow> 250 \<le> delay \<and> delay \<le> 5000"
| "retry_delay_ok task \<longleftrightarrow> True"

fun triggers :: "telemetry_task \<Rightarrow> nat" where
  "triggers (DirectAnswered client) = 1"
| "triggers (Triggering client) = 1"
| "triggers task = 0"

definition over_tasks :: "(telemetry_task \<Rightarrow> 'a::comm_monoid_add) \<Rightarrow> telemetry_system \<Rightarrow> 'a" where
  "over_tasks f s = sum_list (map f (tm_tasks s))"

lemma sum_list_update:
  fixes f :: "'a \<Rightarrow> 'b::comm_monoid_add"
  shows "i < length xs \<Longrightarrow> sum_list (map f (xs[i := x])) + f (xs ! i) = sum_list (map f xs) + f x"
proof (induction xs arbitrary: i)
  case (Cons y ys)
  show ?case
  proof (cases i)
    case (Suc j)
    with Cons have "sum_list (map f (ys[j := x])) + f (ys ! j) = sum_list (map f ys) + f x" by simp
    then show ?thesis by (simp add: Suc add.assoc)
  qed (simp add: ac_simps)
qed simp

definition telemetry_conserved :: "telemetry_label list \<Rightarrow> telemetry_system \<Rightarrow> bool" where
  "telemetry_conserved ls s \<longleftrightarrow>
     offered ls = uploaded ls + refused ls + overflowed ls + aborted ls + mset (bl_pending (tm_backlog s)) + over_tasks carried s \<and>
     unat (bl_permanent_drops (tm_backlog s)) = min (size (refused ls)) (2 ^ 64 - 1) \<and>
     unat (bl_overflow_drops (tm_backlog s)) = min (size (overflowed ls)) (2 ^ 64 - 1)"

definition telemetry_ok :: "telemetry_system \<Rightarrow> bool" where
  "telemetry_ok s \<longleftrightarrow>
     length (bl_pending (tm_backlog s)) \<le> MAX_PENDING_TELEMETRY_BATCHES \<and>
     tm_permits s + over_tasks held_permits s = MAX_CONCURRENT_TELEMETRY_UPLOADS \<and>
     over_tasks flushes s = (if bl_flushing (tm_backlog s) then 1 else 0) \<and>
     (\<forall>t \<in> set (tm_tasks s). retry_delay_ok t) \<and>
     (bl_pending (tm_backlog s) \<noteq> [] \<longrightarrow> 0 < over_tasks flushes s + over_tasks triggers s)"

lemma over_tasks_simps [simp]:
  "over_tasks f (on_backlog g s) = over_tasks f s"
  "over_tasks f (release_permit s) = over_tasks f s"
  "over_tasks f (s\<lparr>tm_permits := n\<rparr>) = over_tasks f s"
  "over_tasks f (s\<lparr>tm_backlog := l\<rparr>) = over_tasks f s"
  "over_tasks f (s\<lparr>tm_tasks := ts @ [t]\<rparr>) = sum_list (map f ts) + f t"
  by (simp_all add: over_tasks_def on_backlog_def release_permit_def)

lemma over_tasks_become:
  assumes "i < length (tm_tasks s)" and "tm_tasks s ! i = t"
  shows "over_tasks f (become i t' s) + f t = over_tasks f s + f t'"
  using sum_list_update[OF assms(1), of f t'] assms(2) by (simp add: over_tasks_def become_def)

lemma length_enqueue:
  "length (bl_pending l) \<le> MAX_PENDING_TELEMETRY_BATCHES \<Longrightarrow>
     length (bl_pending (enqueue_telemetry_batch b l)) \<le> MAX_PENDING_TELEMETRY_BATCHES"
  by (auto simp: enqueue_telemetry_batch_def MAX_PENDING_TELEMETRY_BATCHES_def)

lemma retry_update:
  "\<forall>t \<in> set (tm_tasks s). retry_delay_ok t \<Longrightarrow> retry_delay_ok t' \<Longrightarrow>
     \<forall>t \<in> set ((tm_tasks s)[i := t']). retry_delay_ok t"
  using set_update_subset_insert[of "tm_tasks s" i t'] by auto

lemma on_backlog_frame [simp]:
  "tm_tasks (on_backlog g s) = tm_tasks s" "tm_permits (on_backlog g s) = tm_permits s"
  "tm_backlog (on_backlog g s) = g (tm_backlog s)"
  "tm_tasks (release_permit s) = tm_tasks s" "tm_permits (release_permit s) = Suc (tm_permits s)"
  "tm_backlog (release_permit s) = tm_backlog s"
  "tm_tasks (become i t s) = (tm_tasks s)[i := t]" "tm_permits (become i t s) = tm_permits s"
  "tm_backlog (become i t s) = tm_backlog s"
  by (simp_all add: on_backlog_def release_permit_def become_def)

lemma enqueue_frame [simp]:
  "bl_flushing (enqueue_telemetry_batch b l) = bl_flushing l"
  "bl_permanent_drops (enqueue_telemetry_batch b l) = bl_permanent_drops l"
  "bl_flushing (restore_retryable_telemetry b l) = bl_flushing l"
  "bl_permanent_drops (restore_retryable_telemetry b l) = bl_permanent_drops l"
  "bl_flushing (record_permanent_telemetry_drop l) = bl_flushing l"
  "bl_pending (record_permanent_telemetry_drop l) = bl_pending l"
  "bl_overflow_drops (record_permanent_telemetry_drop l) = bl_overflow_drops l"
  by (simp_all add: enqueue_telemetry_batch_def restore_retryable_telemetry_def
      record_permanent_telemetry_drop_def)

lemma become_ok:
  assumes ok: "telemetry_ok s0" and i: "i < length (tm_tasks s0)" "tm_tasks s0 ! i = t"
    and tasks: "tm_tasks s = tm_tasks s0"
    and pending: "length (bl_pending (tm_backlog s)) \<le> MAX_PENDING_TELEMETRY_BATCHES"
    and permits: "tm_permits s + held_permits t' = tm_permits s0 + held_permits t"
    and flag: "(if bl_flushing (tm_backlog s) then 1 else 0) + flushes t =
      (if bl_flushing (tm_backlog s0) then 1 else 0) + flushes t'"
    and delay: "retry_delay_ok t \<Longrightarrow> retry_delay_ok t'"
    and alive: "bl_pending (tm_backlog s) \<noteq> [] \<Longrightarrow>
      0 < flushes t' + triggers t' \<or> (bl_pending (tm_backlog s0) \<noteq> [] \<and> flushes t + triggers t = 0)"
  shows "telemetry_ok (become i t' s)"
proof -
  have same: "over_tasks f s = over_tasks f s0" for f :: "telemetry_task \<Rightarrow> nat"
    by (simp add: over_tasks_def tasks)
  have sums: "over_tasks f (become i t' s) + f t = over_tasks f s0 + f t'" for f :: "telemetry_task \<Rightarrow> nat"
    using over_tasks_become[of i s t f t'] i same[of f] by (simp add: tasks)
  have "retry_delay_ok t" using ok i by (auto simp: telemetry_ok_def)
  then have "\<forall>t \<in> set (tm_tasks (become i t' s)). retry_delay_ok t"
    using ok retry_update[of s0 t' i] delay by (simp add: telemetry_ok_def tasks)
  moreover have "tm_permits s + over_tasks held_permits (become i t' s) = MAX_CONCURRENT_TELEMETRY_UPLOADS"
    using sums[of held_permits] permits ok by (simp add: telemetry_ok_def)
  moreover have "over_tasks flushes (become i t' s) = (if bl_flushing (tm_backlog s) then 1 else 0)"
    using sums[of flushes] flag ok by (simp add: telemetry_ok_def)
  moreover have "0 < over_tasks flushes (become i t' s) + over_tasks triggers (become i t' s)"
    if "bl_pending (tm_backlog s) \<noteq> []"
  proof -
    have le: "f t \<le> over_tasks f s0" for f :: "telemetry_task \<Rightarrow> nat"
      unfolding over_tasks_def using i by (intro member_le_sum_list) auto
    have "bl_pending (tm_backlog s0) \<noteq> [] \<longrightarrow> 0 < over_tasks flushes s0 + over_tasks triggers s0"
      using ok by (auto simp: telemetry_ok_def)
    with alive[OF that] sums[of flushes] sums[of triggers] le[of flushes] le[of triggers]
    show ?thesis by arith
  qed
  ultimately show ?thesis using pending by (simp add: telemetry_ok_def)
qed

lemma trigger_ok:
  assumes ok: "telemetry_ok s" 
  shows "telemetry_ok (trigger_telemetry_flush client s)"
  using ok by (auto simp: telemetry_ok_def trigger_telemetry_flush_def over_tasks_def TELEMETRY_RETRY_INITIAL_DELAY_def)

text \<open>A trigger makes up for the trigger its task no longer owes.\<close>

lemma triggering_ok:
  assumes ok: "telemetry_ok s" and i: "i < length (tm_tasks s)" "tm_tasks s ! i = Triggering client"
  shows "telemetry_ok (trigger_telemetry_flush client (become i TaskEnded s))"
proof -
  let ?e = "become i TaskEnded s"
  have sums: "over_tasks f ?e + f (Triggering client) = over_tasks f s + f TaskEnded"
    for f :: "telemetry_task \<Rightarrow> nat"
    by (rule over_tasks_become[OF i])
  have "\<forall>t \<in> set (tm_tasks ?e). retry_delay_ok t"
    using ok retry_update[of s TaskEnded i] by (simp add: telemetry_ok_def)
  with ok sums[of flushes] sums[of held_permits] show ?thesis
    by (auto simp: telemetry_ok_def trigger_telemetry_flush_def over_tasks_def
        TELEMETRY_RETRY_INITIAL_DELAY_def)
qed

lemma task_step_ok:
  assumes ok: "telemetry_ok s" and i: "i < length (tm_tasks s)" "tm_tasks s ! i = t"
    and step: "task_step i answer t s = Some (ls, s')"
  shows "telemetry_ok s'"
proof -
  have bound: "length (bl_pending (tm_backlog s)) \<le> MAX_PENDING_TELEMETRY_BATCHES"
    using ok by (simp add: telemetry_ok_def)
  note become = become_ok[OF ok i]
  have flag: "bl_flushing (tm_backlog s)" if "flushes t = 1"
  proof -
    have "flushes t \<le> over_tasks flushes s"
      unfolding over_tasks_def using i by (intro member_le_sum_list) auto
    with ok that show ?thesis by (auto simp: telemetry_ok_def split: if_splits)
  qed
  show ?thesis
  proof (cases t)
    case (Offering client b)
    with step show ?thesis
      by (auto split: if_splits intro!: become length_enqueue bound)
  next
    case (Shedding client b)
    with step show ?thesis by (auto intro!: become length_enqueue bound)
  next
    case (DirectUpload client b)
    with step show ?thesis
      by (auto split: upload_result.splits intro!: become length_enqueue bound)
  next
    case (DirectAnswered client)
    with step show ?thesis by (auto intro!: become bound)
  next
    case (Triggering client)
    with step triggering_ok[OF ok, of i client] i show ?thesis by auto
  next
    case (FlushWaiting client delay)
    with step show ?thesis by (auto split: if_splits intro!: become bound)
  next
    case (FlushHolding client delay)
    with step bound flag show ?thesis
      by (auto split: list.splits intro!: become)
  next
    case (FlushUploading client delay b)
    with step show ?thesis by (auto intro!: become bound)
  next
    case (FlushAnswered client delay b result)
    with step bound show ?thesis
      by (cases result) (auto simp: handle_telemetry_flush_result_def restore_retryable_telemetry_def
          TELEMETRY_RETRY_INITIAL_DELAY_def MAX_PENDING_TELEMETRY_BATCHES_def record_permanent_telemetry_drop_def
          intro!: become)
  next
    case (FlushSleeping client delay)
    with step show ?thesis by (auto simp: TELEMETRY_RETRY_MAX_DELAY_def intro!: become bound)
  next
    case FlushReleasing
    with step show ?thesis by (auto intro!: become bound)
  next
    case TaskEnded
    with step show ?thesis by simp
  qed
qed

lemma task_abort_cases:
  assumes "task_abort i t s = Some (ls, s')"
  obtains client b where "t = DirectUpload client b" and "ls = [BatchAborted b]"
    and "s' = become i TaskEnded (release_permit s)"
  using assms by (cases t) auto

lemma task_abort_ok:
  assumes ok: "telemetry_ok s" and i: "i < length (tm_tasks s)" "tm_tasks s ! i = t"
    and abort: "task_abort i t s = Some (ls, s')"
  shows "telemetry_ok s'"
  using abort
proof (rule task_abort_cases)
  fix client b assume t: "t = DirectUpload client b" and s': "s' = become i TaskEnded (release_permit s)"
  show ?thesis
    unfolding s' by (rule become_ok[OF ok i]) (use ok t in \<open>auto simp: telemetry_ok_def\<close>)
qed

lemma spawn_ok:
  assumes "telemetry_ok s" and "held_permits t = 0" and "flushes t = 0" and "retry_delay_ok t"
  shows "telemetry_ok (s\<lparr>tm_tasks := tm_tasks s @ [t]\<rparr>)"
proof -
  have "over_tasks f (s\<lparr>tm_tasks := tm_tasks s @ [t]\<rparr>) = over_tasks f s + f t" for f :: "telemetry_task \<Rightarrow> nat"
    by (simp add: over_tasks_def)
  with assms show ?thesis
    unfolding telemetry_ok_def by (auto simp del: over_tasks_simps)
qed

lemma telemetry_step_ok:
  assumes ok: "telemetry_ok s" and step: "telemetry_step a s = Some (ls, s')"
  shows "telemetry_ok s'"
proof (cases a)
  case (TaskRuns i answer)
  with step ok task_step_ok show ?thesis by (auto split: if_splits)
next
  case (TaskAborts i)
  with step ok task_abort_ok show ?thesis by (auto split: if_splits)
next
  case (ClientConnected client)
  with step ok trigger_ok show ?thesis by auto
next
  case (InvocationEnded client b)
  with step ok show ?thesis by (auto intro: spawn_ok)
next
  case (InvocationShed client b)
  with step ok show ?thesis by (auto intro: spawn_ok)
qed

lemma telemetry_run_ok: "telemetry_ok s \<Longrightarrow> telemetry_ok (snd (telemetry_run as s))"
proof (induction as arbitrary: s)
  case (Cons a as)
  show ?case
  proof (cases "telemetry_step a s")
    case (Some x)
    with telemetry_step_ok[OF Cons.prems] have "telemetry_ok (snd x)" by (cases x) simp
    from Cons.IH[OF this] Some show ?thesis by (simp add: case_prod_beta)
  qed (use Cons in simp)
qed simp

subsection \<open>No batch disappears\<close>

lemma overflow_count:
  "overflowed (overflow_labels l bs) = (if length (bl_pending l) = MAX_PENDING_TELEMETRY_BATCHES then mset bs else {#})"
  "offered (overflow_labels l bs) = {#}" "uploaded (overflow_labels l bs) = {#}" "refused (overflow_labels l bs) = {#}"
  "aborted (overflow_labels l bs) = {#}"
proof -
  have "overflowed (map BatchOverflowed bs) = mset bs" "offered (map BatchOverflowed bs) = {#}"
    "uploaded (map BatchOverflowed bs) = {#}" "refused (map BatchOverflowed bs) = {#}"
    "aborted (map BatchOverflowed bs) = {#}" for bs
    by (induction bs) simp_all
  then show "overflowed (overflow_labels l bs) = (if length (bl_pending l) = MAX_PENDING_TELEMETRY_BATCHES then mset bs else {#})"
    "offered (overflow_labels l bs) = {#}" "uploaded (overflow_labels l bs) = {#}" "refused (overflow_labels l bs) = {#}"
    "aborted (overflow_labels l bs) = {#}"
    by (simp_all add: overflow_labels_def)
qed

text \<open>The batches the backlog answers for, and its counters against the labels.\<close>

definition counters_ok :: "telemetry_label list \<Rightarrow> telemetry_backlog \<Rightarrow> bool" where
  "counters_ok ls l \<longleftrightarrow>
     unat (bl_permanent_drops l) = min (size (refused ls)) (2 ^ 64 - 1) \<and>
     unat (bl_overflow_drops l) = min (size (overflowed ls)) (2 ^ 64 - 1)"

lemma counters_one_more:
  fixes n :: u64
  assumes "unat n = min k (2 ^ 64 - 1)"
  shows "unat (saturating_add n 1) = min (Suc k) (2 ^ 64 - 1)"
  using assms by (simp add: unat_saturating_add min_def)

lemma enqueue_conserved:
  assumes "counters_ok ls l"
  defines "dropped \<equiv> overflow_labels l (take 1 (bl_pending l))"
  shows "counters_ok (ls @ dropped) (enqueue_telemetry_batch b l)"
    and "overflowed dropped + mset (bl_pending (enqueue_telemetry_batch b l)) = mset (bl_pending l) + {#b#}"
proof -
  have first: "size (mset (take 1 (bl_pending l))) = 1 \<and> mset (take 1 (bl_pending l)) + mset (tl (bl_pending l)) = mset (bl_pending l)"
    if "length (bl_pending l) = MAX_PENDING_TELEMETRY_BATCHES"
    using that by (cases "bl_pending l") (simp_all add: MAX_PENDING_TELEMETRY_BATCHES_def)
  show "counters_ok (ls @ dropped) (enqueue_telemetry_batch b l)"
    using assms(1) first counters_one_more
    by (auto simp: counters_ok_def enqueue_telemetry_batch_def dropped_def overflow_count)
  show "overflowed dropped + mset (bl_pending (enqueue_telemetry_batch b l)) = mset (bl_pending l) + {#b#}"
    using first by (auto simp: enqueue_telemetry_batch_def dropped_def overflow_count)
qed

lemma restore_conserved:
  assumes "counters_ok ls l"
  shows "counters_ok (ls @ overflow_labels l [b]) (restore_retryable_telemetry b l)"
    and "overflowed (overflow_labels l [b]) + mset (bl_pending (restore_retryable_telemetry b l)) =
      mset (bl_pending l) + {#b#}"
  using assms counters_one_more
  by (auto simp: counters_ok_def restore_retryable_telemetry_def overflow_count)

lemma permanent_conserved:
  "counters_ok ls l \<Longrightarrow> counters_ok (ls @ [BatchRefused b]) (record_permanent_telemetry_drop l)"
  using counters_one_more by (auto simp: counters_ok_def record_permanent_telemetry_drop_def)

text \<open>A step of a task moves batches between what it carries, the backlog and the labels.\<close>

lemma become_conserved:
  assumes conserved: "telemetry_conserved ls s0" and i: "i < length (tm_tasks s0)" "tm_tasks s0 ! i = t"
    and tasks: "tm_tasks s = tm_tasks s0"
    and counters: "counters_ok (ls @ ls') (tm_backlog s)"
    and offers: "offered ls' = {#}"
    and moves: "uploaded ls' + refused ls' + overflowed ls' + aborted ls' + mset (bl_pending (tm_backlog s)) + carried t' =
      mset (bl_pending (tm_backlog s0)) + carried t"
  shows "telemetry_conserved (ls @ ls') (become i t' s)"
proof -
  have same: "over_tasks carried s = over_tasks carried s0" by (simp add: over_tasks_def tasks)
  have sums: "over_tasks carried (become i t' s) + carried t = over_tasks carried s0 + carried t'"
    using over_tasks_become[of i s t carried t'] i same by (simp add: tasks)
  have "offered ls = uploaded ls + refused ls + overflowed ls + aborted ls + mset (bl_pending (tm_backlog s0)) + over_tasks carried s0"
    using conserved by (simp add: telemetry_conserved_def)
  then have "offered ls + carried t = uploaded ls + refused ls + overflowed ls + aborted ls +
      (mset (bl_pending (tm_backlog s0)) + carried t) + over_tasks carried s0" by (simp add: ac_simps)
  also have "\<dots> = uploaded ls + refused ls + overflowed ls + aborted ls + uploaded ls' + refused ls' + overflowed ls' + aborted ls' +
      mset (bl_pending (tm_backlog s)) + (over_tasks carried s0 + carried t')"
    unfolding moves[symmetric] by (simp add: ac_simps)
  also have "\<dots> = uploaded ls + refused ls + overflowed ls + aborted ls + uploaded ls' + refused ls' + overflowed ls' + aborted ls' +
      mset (bl_pending (tm_backlog s)) + over_tasks carried (become i t' s) + carried t"
    unfolding sums[symmetric] by (simp only: add.assoc)
  finally have "offered ls = uploaded ls + refused ls + overflowed ls + aborted ls + uploaded ls' + refused ls' + overflowed ls' + aborted ls' +
      mset (bl_pending (tm_backlog s)) + over_tasks carried (become i t' s)"
    by (rule add_right_imp_eq)
  then show ?thesis
    using counters offers by (simp add: telemetry_conserved_def counters_ok_def ac_simps)
qed

lemma trigger_conserved:
  "telemetry_conserved ls s \<Longrightarrow> telemetry_conserved ls (trigger_telemetry_flush client s)"
  by (auto simp: telemetry_conserved_def trigger_telemetry_flush_def over_tasks_def)

lemma task_step_conserved:
  assumes conserved: "telemetry_conserved ls s" and i: "i < length (tm_tasks s)" "tm_tasks s ! i = t"
    and step: "task_step i answer t s = Some (ls', s')"
  shows "telemetry_conserved (ls @ ls') s'"
proof -
  have counters: "counters_ok ls (tm_backlog s)"
    using conserved by (simp add: telemetry_conserved_def counters_ok_def)
  note become = become_conserved[OF conserved i]
  note quiet = become_conserved[OF conserved i, where ls' = "[]", unfolded append_Nil2]
  note enqueue = enqueue_conserved[OF counters]
  note same = counters[unfolded counters_ok_def]
  show ?thesis
  proof (cases t)
    case (Offering client b)
    show ?thesis
    proof (cases "tm_permits s = 0")
      case True
      with Offering step have "ls' = overflow_labels (tm_backlog s) (take 1 (bl_pending (tm_backlog s)))"
        and s': "s' = become i (Triggering client) (on_backlog (enqueue_telemetry_batch b) s)" by auto
      then show ?thesis using enqueue
        by (simp only: s') (rule become, simp_all add: overflow_count Offering)
    next
      case False
      have "telemetry_conserved (ls @ []) (become i (DirectUpload client b) (s\<lparr>tm_permits := tm_permits s - 1\<rparr>))"
        by (rule become) (use counters in \<open>simp_all add: Offering\<close>)
      with False Offering step show ?thesis by auto
    qed
  next
    case (Shedding client b)
    with step have "ls' = overflow_labels (tm_backlog s) (take 1 (bl_pending (tm_backlog s)))"
      and s': "s' = become i (Triggering client) (on_backlog (enqueue_telemetry_batch b) s)" by auto
    then show ?thesis using enqueue
      by (simp only: s') (rule become, simp_all add: overflow_count Shedding)
  next
    case (DirectUpload client b)
    show ?thesis
    proof (cases answer)
      case UploadAccepted
      with DirectUpload step same show ?thesis by (auto intro!: become quiet simp: counters_ok_def)
    next
      case UploadRetryable
      with DirectUpload step have "ls' = overflow_labels (tm_backlog s) (take 1 (bl_pending (tm_backlog s)))"
        and s': "s' = become i (DirectAnswered client) (on_backlog (enqueue_telemetry_batch b) s)" by auto
      then show ?thesis using enqueue
        by (simp only: s') (rule become, simp_all add: overflow_count DirectUpload)
    next
      case UploadPermanent
      with DirectUpload step permanent_conserved[OF counters] show ?thesis by (auto intro!: become)
    qed
  next
    case (Triggering client)
    have "telemetry_conserved (ls @ []) (become i TaskEnded s)"
      by (rule become) (use counters in \<open>simp_all add: Triggering\<close>)
    with Triggering step trigger_conserved show ?thesis by auto
  next
    case (FlushHolding client delay)
    with step same show ?thesis
      by (auto split: list.splits intro!: become quiet simp: counters_ok_def)
  next
    case (FlushUploading client delay b)
    with step same show ?thesis
      by (cases answer) (auto intro!: become quiet simp: counters_ok_def)
  next
    case (FlushAnswered client delay b result)
    show ?thesis
    proof (cases result)
      case UploadRetryable
      then have "ls' = overflow_labels (tm_backlog s) [b]" and s': "s' = become i (FlushSleeping client delay)
          (s\<lparr>tm_backlog := restore_retryable_telemetry b (tm_backlog s)\<rparr>)"
        using FlushAnswered step by (auto simp: handle_telemetry_flush_result_def)
      then show ?thesis using restore_conserved[OF counters]
        by (simp only: s') (rule become, simp_all add: overflow_count FlushAnswered UploadRetryable)
    qed (use FlushAnswered step same permanent_conserved[OF counters] in
        \<open>auto simp: handle_telemetry_flush_result_def counters_ok_def intro!: become quiet\<close>)
  qed (use step same in \<open>auto split: if_splits intro!: become quiet simp: counters_ok_def\<close>)
qed

lemma task_abort_conserved:
  assumes conserved: "telemetry_conserved ls s" and i: "i < length (tm_tasks s)" "tm_tasks s ! i = t"
    and abort: "task_abort i t s = Some (ls', s')"
  shows "telemetry_conserved (ls @ ls') s'"
  using abort
proof (rule task_abort_cases)
  fix client b
  assume t: "t = DirectUpload client b" and ls': "ls' = [BatchAborted b]"
    and s': "s' = become i TaskEnded (release_permit s)"
  show ?thesis
    unfolding s' ls' by (rule become_conserved[OF conserved i])
      (use conserved t in \<open>auto simp: telemetry_conserved_def counters_ok_def\<close>)
qed

lemma telemetry_step_conserved:
  assumes conserved: "telemetry_conserved ls s" and step: "telemetry_step a s = Some (ls', s')"
  shows "telemetry_conserved (ls @ ls') s'"
proof (cases a)
  case (TaskRuns i answer)
  with step conserved task_step_conserved show ?thesis by (auto split: if_splits)
next
  case (TaskAborts i)
  with step conserved task_abort_conserved show ?thesis by (auto split: if_splits)
next
  case (ClientConnected client)
  with step conserved trigger_conserved show ?thesis by auto
qed (use step conserved in \<open>auto simp: telemetry_conserved_def over_tasks_def\<close>)

lemma telemetry_run_conserved:
  "telemetry_conserved ls s \<Longrightarrow> telemetry_conserved (ls @ fst (telemetry_run as s)) (snd (telemetry_run as s))"
proof (induction as arbitrary: ls s)
  case (Cons a as)
  show ?case
  proof (cases "telemetry_step a s")
    case (Some x)
    with telemetry_step_conserved[OF Cons.prems] have "telemetry_conserved (ls @ fst x) (snd x)" by (cases x) simp
    from Cons.IH[OF this] Some show ?thesis by (simp add: case_prod_beta)
  qed (use Cons in simp)
qed simp

section \<open>Properties\<close>

lemma telemetry_start_ok: "telemetry_ok telemetry_start" "telemetry_conserved [] telemetry_start"
  by (simp_all add: telemetry_ok_def telemetry_conserved_def telemetry_start_def over_tasks_def
      MAX_CONCURRENT_TELEMETRY_UPLOADS_def)

text \<open>C36: No telemetry disappears silently: at every moment, whatever the interleaving and the answers of the
  server, each batch a finished invocation offered was uploaded, or refused for good, or overflowed, or
  was aborted with its upload, or waits in the backlog, or is carried by a task; and the two counters of
  drops count exactly the refused and the overflowed ones (up to the saturation of their 64 bits).\<close>

theorem no_batch_disappears:
  "let (labels, s) = telemetry_run actions telemetry_start; l = tm_backlog s in
     offered labels = uploaded labels + refused labels + overflowed labels + aborted labels + mset (bl_pending l) + over_tasks carried s \<and>
     unat (bl_permanent_drops l) = min (size (refused labels)) (2 ^ 64 - 1) \<and>
     unat (bl_overflow_drops l) = min (size (overflowed labels)) (2 ^ 64 - 1)"
  using telemetry_run_conserved[OF telemetry_start_ok(2), of actions]
  by (simp add: telemetry_conserved_def Let_def case_prod_beta)

text \<open>C37: Waiting telemetry is never forgotten: whenever the backlog has batches, a task that empties it runs or
  one that will start it is about to; there is at most one such flusher, its pauses stay between 250
  milliseconds and 5 seconds, at most four uploads run at a time, and the backlog holds at most 512 batches.\<close>

theorem waiting_telemetry_has_a_flusher:
  "let s = snd (telemetry_run actions telemetry_start) in
     (bl_pending (tm_backlog s) = [] \<or> (\<exists>t \<in> set (tm_tasks s). flushes t = 1 \<or> triggers t = 1)) \<and>
     over_tasks flushes s = (if bl_flushing (tm_backlog s) then 1 else 0) \<and>
     list_all retry_delay_ok (tm_tasks s) \<and> over_tasks held_permits s \<le> 4 \<and>
     length (bl_pending (tm_backlog s)) \<le> 512"
proof -
  let ?s = "snd (telemetry_run actions telemetry_start)"
  have ok: "telemetry_ok ?s" by (rule telemetry_run_ok[OF telemetry_start_ok(1)])
  have "\<exists>t \<in> set (tm_tasks ?s). flushes t = 1 \<or> triggers t = 1"
    if "0 < over_tasks flushes ?s + over_tasks triggers ?s"
  proof (rule ccontr)
    assume none: "\<not> ?thesis"
    have "flushes t = 0" "triggers t = 0" if "t \<in> set (tm_tasks ?s)" for t
      using none that by (cases t; auto)+
    then have "over_tasks flushes ?s = 0" "over_tasks triggers ?s = 0" by (simp_all add: over_tasks_def)
    with that show False by simp
  qed
  with ok show ?thesis
    by (auto simp: telemetry_ok_def Let_def list_all_iff MAX_PENDING_TELEMETRY_BATCHES_def
        MAX_CONCURRENT_TELEMETRY_UPLOADS_def)
qed

text \<open>One batch takes the flusher four steps.\<close>

lemma flush_one:
  assumes "i < length (tm_tasks s)" and "tm_tasks s ! i = FlushWaiting client delay" and "0 < tm_permits s"
    and "bl_pending (tm_backlog s) = b # rest"
  shows "telemetry_run (replicate 4 (TaskRuns i UploadAccepted) @ as) s =
    (BatchUploaded b # fst (telemetry_run as (become i (FlushWaiting client 250) (on_backlog (\<lambda>l. l\<lparr>bl_pending := rest\<rparr>) s))),
     snd (telemetry_run as (become i (FlushWaiting client 250) (on_backlog (\<lambda>l. l\<lparr>bl_pending := rest\<rparr>) s))))"
  using assms
  by (simp add: numeral_eq_Suc handle_telemetry_flush_result_def become_def on_backlog_def release_permit_def
      TELEMETRY_RETRY_INITIAL_DELAY_def case_prod_beta)

lemma flush_last:
  assumes "i < length (tm_tasks s)" and "tm_tasks s ! i = FlushWaiting client delay" and "0 < tm_permits s"
    and "bl_pending (tm_backlog s) = []"
  shows "telemetry_run (replicate 3 (TaskRuns i UploadAccepted)) s =
    ([], become i TaskEnded (on_backlog (\<lambda>l. l\<lparr>bl_flushing := False\<rparr>) s))"
  using assms
  by (simp add: numeral_eq_Suc become_def on_backlog_def release_permit_def)

text \<open>C38: The flusher ends: once the server accepts uploads again, a flusher that gets a permit uploads the
  whole backlog, oldest batch first, in four steps for each of them, and after three more it has cleared
  the flag and ended.\<close>

theorem flusher_empties_backlog:
  assumes "i < length (tm_tasks s)" and "tm_tasks s ! i = FlushWaiting client delay" and "0 < tm_permits s"
  shows "telemetry_run (replicate (4 * length (bl_pending (tm_backlog s)) + 3) (TaskRuns i UploadAccepted)) s =
    (map BatchUploaded (bl_pending (tm_backlog s)),
     become i TaskEnded (on_backlog (\<lambda>l. l\<lparr>bl_pending := [], bl_flushing := False\<rparr>) s))"
  using assms
proof (induction "bl_pending (tm_backlog s)" arbitrary: s delay)
  case Nil
  then show ?case
    using flush_last[of i s client delay] by (simp add: on_backlog_def)
next
  case (Cons b rest)
  let ?next = "become i (FlushWaiting client 250) (on_backlog (\<lambda>l. l\<lparr>bl_pending := rest\<rparr>) s)"
  have "replicate (4 * length (bl_pending (tm_backlog s)) + 3) (TaskRuns i UploadAccepted) =
      replicate 4 (TaskRuns i UploadAccepted) @ replicate (4 * length rest + 3) (TaskRuns i UploadAccepted)"
    by (simp add: Cons.hyps(2)[symmetric] replicate_add[symmetric])
  moreover have "telemetry_run (replicate (4 * length rest + 3) (TaskRuns i UploadAccepted)) ?next =
      (map BatchUploaded rest,
       become i TaskEnded (on_backlog (\<lambda>l. l\<lparr>bl_pending := [], bl_flushing := False\<rparr>) ?next))"
    using Cons.hyps(1)[of ?next 250] Cons.prems by simp
  ultimately show ?case
    using flush_one[OF Cons.prems Cons.hyps(2)[symmetric]] Cons.hyps(2)[symmetric]
    by (simp add: become_def on_backlog_def)
qed

section \<open>Examples\<close>

definition sample_pending :: "nat \<Rightarrow> pending_batch" where
  "sample_pending n = \<lparr>pb_request_id = of_nat n, pb_batch = \<lparr>batch_events = [], batch_dropped_events = 0,
     batch_input_summary = None, batch_output_summary = None\<rparr>\<rparr>"

text \<open>The upload of an invocation of client 1 meets an absent server, and its flusher waits.\<close>

definition stuck_upload :: "telemetry_action list" where
  "stuck_upload = InvocationEnded 1 (sample_pending 7) #
     map (TaskRuns 0) [UploadAccepted, UploadRetryable, UploadAccepted, UploadAccepted]"

lemma flusher_empties_backlog_witness:
  "telemetry_run (replicate 7 (TaskRuns 1 UploadAccepted)) (snd (telemetry_run stuck_upload telemetry_start)) =
     ([BatchUploaded (sample_pending 7)],
      become 1 TaskEnded (on_backlog (\<lambda>l. l\<lparr>bl_pending := [], bl_flushing := False\<rparr>)
        (snd (telemetry_run stuck_upload telemetry_start))))"
proof -
  let ?s = "snd (telemetry_run stuck_upload telemetry_start)"
  have "tm_tasks ?s = [TaskEnded, FlushWaiting 1 250]" "tm_permits ?s = 4"
    "bl_pending (tm_backlog ?s) = [sample_pending 7]"
    by (simp_all add: stuck_upload_def telemetry_start_def become_def on_backlog_def release_permit_def
        enqueue_telemetry_batch_def overflow_labels_def trigger_telemetry_flush_def
        MAX_PENDING_TELEMETRY_BATCHES_def MAX_CONCURRENT_TELEMETRY_UPLOADS_def TELEMETRY_RETRY_INITIAL_DELAY_def)
  then show ?thesis using flusher_empties_backlog[of 1 ?s 1 250] by simp
qed

text \<open>A flusher uploads with the token of the connection that started it for as long as it runs, also
  batches of later connections: here client 2, with a rotated token, is connected, and its batch
  is refused to the token of client 1.\<close>

theorem flusher_keeps_retired_token:
  "let (labels, s) = telemetry_run (stuck_upload @ map (TaskRuns 1) [UploadAccepted, UploadAccepted, UploadRetryable] @
       [ClientConnected 2, InvocationEnded 2 (sample_pending 8)] @
       map (TaskRuns 2) [UploadAccepted, UploadRetryable, UploadAccepted, UploadAccepted] @
       map (TaskRuns 1) (UploadAccepted # replicate 9 UploadPermanent)) telemetry_start in
     BatchRefused (sample_pending 8) \<in> set labels \<and> tm_tasks s ! 1 = FlushWaiting 1 250 \<and>
     (\<forall>delay. FlushWaiting 2 delay \<notin> set (tm_tasks s))"
  by (simp add: stuck_upload_def telemetry_start_def become_def on_backlog_def release_permit_def
      enqueue_telemetry_batch_def overflow_labels_def trigger_telemetry_flush_def Let_def
      handle_telemetry_flush_result_def record_permanent_telemetry_drop_def restore_retryable_telemetry_def
      TELEMETRY_RETRY_MAX_DELAY_def numeral_eq_Suc
      MAX_PENDING_TELEMETRY_BATCHES_def MAX_CONCURRENT_TELEMETRY_UPLOADS_def TELEMETRY_RETRY_INITIAL_DELAY_def)

text \<open>The end of a connection waits one second for the tasks of its calls and an upload takes up to two:
  the batch of an upload that is aborted is neither uploaded nor kept, and no counter counts it.\<close>

theorem aborted_upload_is_lost:
  "let (labels, s) = telemetry_run [InvocationEnded 1 (sample_pending 7), TaskRuns 0 UploadAccepted, TaskAborts 0]
       telemetry_start in
     labels = [BatchOffered (sample_pending 7), BatchAborted (sample_pending 7)] \<and> tm_tasks s = [TaskEnded] \<and>
     tm_backlog s = tm_backlog telemetry_start \<and> tm_permits s = 4"
  by (simp add: telemetry_start_def become_def release_permit_def MAX_CONCURRENT_TELEMETRY_UPLOADS_def)

end
