(* ===== verification/Gateway_Calls.thy ===== *)
theory Gateway_Calls
  imports Telemetry_Backlog Gateway_Protocol Route_Planner
begin

text \<open>
  The connection of a gateway to its server (\<open>crates/vifu-gateway/src/relay.rs\<close>, the loop of
  \<open>run_connection\<close> and the tasks of its calls): the loop starts a task for every invocation and hands their
  answers to the socket, the tasks call the providers, queue the answers and offer the telemetry. The loop and
  the tasks interleave; a step runs from one await to the next, and what a provider, the network or the clock
  yields is an argument of its step. The callbacks of observers and captures are left out.
\<close>

section \<open>The provider of a call\<close>

definition first_some :: "'a option list \<Rightarrow> 'a option" where
  "first_some xs = Option.bind (find (\<lambda>x. x \<noteq> None) xs) id"

definition filled :: "string option \<Rightarrow> string option" where
  "filled v = (case map_option trim v of Some t \<Rightarrow> if t = [] then None else Some t | None \<Rightarrow> None)"

definition binding_text :: "json \<Rightarrow> string \<Rightarrow> string option" where
  "binding_text binding name = filled (Option.bind (json_get binding name) as_string)"

definition selected_provider_key ::
    "json \<Rightarrow> string \<Rightarrow> string \<Rightarrow> string \<Rightarrow> route_override_state option \<Rightarrow> string option" where
  "selected_provider_key binding route_key profile_key agent route_overrides =
     first_some
       [Option.bind route_overrides (\<lambda>routes. first_some
          [provider_for route_key routes, provider_for profile_key routes, provider_for agent routes]),
        filled (Option.bind (first_some [json_get binding ''providerKey'',
          Option.bind (json_get binding ''source'') (\<lambda>source. json_get source ''providerKey'')]) as_string)]"

text \<open>A provider is its identifier.\<close>

definition resolve_provider ::
    "string list \<Rightarrow> json \<Rightarrow> string \<Rightarrow> string \<Rightarrow> string \<Rightarrow> route_override_state option \<Rightarrow> string option" where
  "resolve_provider providers binding route_key profile_key agent route_overrides =
     (case selected_provider_key binding route_key profile_key agent route_overrides of
        Some provider_key \<Rightarrow> find (\<lambda>p. p = provider_key) providers
      | None \<Rightarrow> if length providers = 1 then Some (hd providers) else None)"

record gateway_runtime =
  gr_providers :: "string list"
  gr_models :: "string \<times> string \<rightharpoonup> string"
  gr_routes :: "route_override_state option"

definition provider_model :: "gateway_runtime \<Rightarrow> string \<Rightarrow> string \<Rightarrow> string option" where
  "provider_model rt provider_key capability = gr_models rt (provider_key, capability)"

text \<open>The provider, and the names its telemetry starts with.\<close>

definition call_provider :: "uuid_codec \<Rightarrow> gateway_runtime \<Rightarrow> invoke_params \<Rightarrow> string option" where
  "call_provider u rt p = resolve_provider (gr_providers rt) (invoke_binding p)
     (uuid_print u (invoke_binding_id p)) (uuid_print u (invoke_profile_id p)) (invoke_agent_id p) (gr_routes rt)"

definition call_recorder :: "uuid_codec \<Rightarrow> gateway_runtime \<Rightarrow> invoke_params \<Rightarrow> invocation_telemetry" where
  "call_recorder u rt p =
     (let capability = (case binding_text (invoke_binding p) ''capability'' of Some t \<Rightarrow> t | None \<Rightarrow> ''chat'');
          selected = first_some
            [selected_provider_key (invoke_binding p) (uuid_print u (invoke_binding_id p))
               (uuid_print u (invoke_profile_id p)) (invoke_agent_id p) (gr_routes rt),
             if length (gr_providers rt) = 1 then Some (hd (gr_providers rt)) else None];
          provider_key = (case first_some [call_provider u rt p, selected] of
            Some k \<Rightarrow> k | None \<Rightarrow> ''unavailable'')
      in recorder_new provider_key capability (provider_model rt provider_key capability))"

section \<open>Calls\<close>

definition MAX_CONCURRENT_CALLS :: nat where "MAX_CONCURRENT_CALLS = 64"
definition MAX_CONCURRENT_REJECTION_DELIVERIES :: nat where "MAX_CONCURRENT_REJECTION_DELIVERIES = 64"
definition OUTBOUND_QUEUE_CAPACITY :: nat where "OUTBOUND_QUEUE_CAPACITY = 128"

datatype provider_error_kind = ProviderErrorFailed | ProviderErrorTimedOut

datatype provider_outcome = ProviderOutput json | ProviderFailure provider_error_kind string

datatype invocation_terminal =
    CallDelivered
  | CallProviderFailed
  | CallTimedOut
  | CallDeliveryFailed
  | CallPreflightFailed

definition agent_gateway_error :: "uuid \<Rightarrow> u64 \<Rightarrow> string \<Rightarrow> string \<Rightarrow> gateway_command" where
  "agent_gateway_error request channel_id code message =
     ErrorCommand (Some request) (Some channel_id) code (sanitize_error message)"

text \<open>
  Where the task of a call is: its provider runs; it was cancelled and waits for the provider a moment; the
  provider returned; the answer is ready, with its terminal, error and output; it is being queued; it waits
  for its delivery; the delivery is known; its telemetry is sealed; it is uploaded; the task ended, or it died
  by an abort.
\<close>

datatype call_phase =
    CallRunning
  | CallGrace
  | CallReturned provider_outcome
  | CallFinishing gateway_command invocation_terminal "string option" "json option"
  | CallQueuing gateway_command invocation_terminal "trace_telemetry_batch option"
  | CallAwaiting invocation_terminal "trace_telemetry_batch option"
  | CallAnswered invocation_terminal "trace_telemetry_batch option" bool
  | CallSealing "trace_telemetry_batch option"
  | CallUploading
  | CallEnded
  | CallDied

text \<open>A call that reached its provider has a cancellation token; one that was rejected has none. The
  permits are those of running calls and of rejections in delivery.\<close>

record call_task =
  ct_request :: uuid
  ct_channel :: u64
  ct_token :: "bool option"
  ct_permit :: bool
  ct_slot :: bool
  ct_activity :: bool
  ct_aborting :: bool
  ct_recorder :: invocation_telemetry
  ct_phase :: call_phase

datatype connection_outcome = Disconnected | Shutdown

datatype loop_state =
    Serving
  | Draining connection_outcome
  | Closed connection_outcome
  | Broken string

text \<open>The calls of the loop point to their tasks, and a queued command to the task that waits for it.
  \<open>cl_sent\<close>, \<open>cl_offers\<close> and \<open>cl_invoked\<close> record what the socket sent, the batches that were offered for
  upload, and the requests of the invocations that arrived.\<close>

record call_loop =
  cl_state :: loop_state
  cl_calls :: "uuid \<rightharpoonup> nat"
  cl_tasks :: "call_task list"
  cl_permits :: nat
  cl_slots :: nat
  cl_queue :: "(gateway_command \<times> nat option) list"
  cl_sent :: "gateway_command list"
  cl_offers :: "pending_batch list"
  cl_activity_ready :: bool
  cl_invoked :: "uuid list"

definition loop_start :: call_loop where
  "loop_start = \<lparr>cl_state = Serving, cl_calls = Map.empty, cl_tasks = [], cl_permits = MAX_CONCURRENT_CALLS,
     cl_slots = MAX_CONCURRENT_REJECTION_DELIVERIES, cl_queue = [], cl_sent = [], cl_offers = [],
     cl_activity_ready = False, cl_invoked = []\<rparr>"

definition set_call :: "nat \<Rightarrow> call_task \<Rightarrow> call_loop \<Rightarrow> call_loop" where
  "set_call i t s = s\<lparr>cl_tasks := (cl_tasks s)[i := t]\<rparr>"

text \<open>The receiver of the queue lives as long as the connection.\<close>

definition queue_open :: "call_loop \<Rightarrow> bool" where
  "queue_open s \<longleftrightarrow> (case cl_state s of Serving \<Rightarrow> True | Draining _ \<Rightarrow> True | _ \<Rightarrow> False)"

definition try_queue :: "gateway_command \<Rightarrow> call_loop \<Rightarrow> call_loop" where
  "try_queue c s = (if queue_open s \<and> length (cl_queue s) < OUTBOUND_QUEUE_CAPACITY
     then s\<lparr>cl_queue := cl_queue s @ [(c, None)]\<rparr> else s)"

definition offer_batch :: "uuid \<Rightarrow> trace_telemetry_batch \<Rightarrow> call_loop \<Rightarrow> call_loop" where
  "offer_batch request b s = s\<lparr>cl_offers := cl_offers s @ [\<lparr>pb_request_id = request, pb_batch = b\<rparr>]\<rparr>"

section \<open>The task of a call\<close>

definition cancelled_call :: "call_task \<Rightarrow> bool" where
  "cancelled_call t \<longleftrightarrow> ct_token t = Some True"

text \<open>The message of an outcome, its terminal, its public error and its output.\<close>

definition outcome_answer :: "call_task \<Rightarrow> provider_outcome \<Rightarrow> call_phase" where
  "outcome_answer t outcome = (case outcome of
     ProviderOutput output \<Rightarrow> CallFinishing
       (ResultCommand (ct_request t) \<lparr>result_channel_id = ct_channel t, result_output = output\<rparr>)
       CallDelivered None (Some output)
   | ProviderFailure kind message \<Rightarrow> CallFinishing
       (agent_gateway_error (ct_request t) (ct_channel t) ''PROVIDER_ERROR'' message)
       (case kind of ProviderErrorFailed \<Rightarrow> CallProviderFailed | ProviderErrorTimedOut \<Rightarrow> CallTimedOut)
       (Some (safe_observer_error message)) None)"

definition cancel_recording :: "u64 \<Rightarrow> call_task \<Rightarrow> call_task" where
  "cancel_recording offset t =
     t\<lparr>ct_recorder := snd (fail_active offset (Some ''Invocation cancelled'') (ct_recorder t)), ct_phase := CallSealing None\<rparr>"

text \<open>The start of \<open>finish\<close>: an output is summarized, and a failure closes the record.\<close>

definition finish_recording ::
    "text_codec \<Rightarrow> u64 \<Rightarrow> gateway_command \<Rightarrow> invocation_terminal \<Rightarrow> string option \<Rightarrow> json option \<Rightarrow> call_task \<Rightarrow> call_task" where
  "finish_recording c offset command terminal error output t =
     (let summarized = (case output of None \<Rightarrow> ct_recorder t
        | Some v \<Rightarrow> set_root_output_summary (canonical_trace_io_summary c v) (ct_recorder t))
      in if terminal = CallDelivered
         then t\<lparr>ct_recorder := summarized, ct_phase := CallQueuing command terminal None\<rparr>
         else let (batch, r) = recorder_finish (snd (fail_active offset error summarized))
              in t\<lparr>ct_recorder := r, ct_phase := CallQueuing command terminal (Some batch)\<rparr>)"

text \<open>What a step of a task gets: the provider's outcome, the time since the invocation started, and the
  identifier and times of its delivery.\<close>

record task_input =
  ti_outcome :: provider_outcome
  ti_offset :: u64
  ti_delivery_id :: uuid
  ti_delivery_start :: u64
  ti_delivery_elapsed :: u64

definition delivery_report :: "task_input \<Rightarrow> bool \<Rightarrow> trace_delivery" where
  "delivery_report x delivered =
     \<lparr>delivery_observation_id = ti_delivery_id x,
      delivery_status = (if delivered then Delivered else DeliveryFailed),
      delivery_start_offset_ms = ti_delivery_start x, delivery_end_offset_ms = ti_offset x,
      delivery_elapsed_ms = ti_delivery_elapsed x,
      delivery_error = (if delivered then None else Some ''Agent Gateway result could not be delivered'')\<rparr>"

definition call_step :: "text_codec \<Rightarrow> task_input \<Rightarrow> nat \<Rightarrow> call_task \<Rightarrow> call_loop \<Rightarrow> call_loop option" where
  "call_step c x i t s =
     (case ct_phase t of
        CallRunning \<Rightarrow> Some (set_call i
          (t\<lparr>ct_phase := if cancelled_call t then CallGrace else CallReturned (ti_outcome x)\<rparr>) s)
      | CallGrace \<Rightarrow> Some (set_call i (cancel_recording (ti_offset x) t) s)
      | CallReturned outcome \<Rightarrow> Some (set_call i
          (if cancelled_call t then cancel_recording (ti_offset x) t
           else t\<lparr>ct_phase := outcome_answer t outcome\<rparr>) s)
      | CallFinishing command terminal error output \<Rightarrow>
          Some (set_call i (finish_recording c (ti_offset x) command terminal error output t) s)
      | CallQueuing command terminal batch \<Rightarrow>
          if \<not> queue_open s then Some (set_call i (t\<lparr>ct_phase := CallAnswered terminal batch False\<rparr>) s)
          else if length (cl_queue s) < OUTBOUND_QUEUE_CAPACITY
          then Some (set_call i (t\<lparr>ct_phase := CallAwaiting terminal batch\<rparr>)
            (s\<lparr>cl_queue := cl_queue s @ [(command, Some i)]\<rparr>))
          else None
      | CallAwaiting terminal batch \<Rightarrow> None
      | CallAnswered terminal batch delivered \<Rightarrow> Some (set_call i
          (if terminal = CallDelivered
           then t\<lparr>ct_recorder := recorder_push (Delivery (delivery_report x delivered)) (ct_recorder t),
                  ct_phase := CallSealing batch\<rparr>
           else t\<lparr>ct_phase := CallSealing batch\<rparr>) s)
      | CallSealing batch \<Rightarrow>
          (let (sealed, r) = (case batch of Some b \<Rightarrow> (b, ct_recorder t) | None \<Rightarrow> recorder_finish (ct_recorder t))
           in Some (set_call i (t\<lparr>ct_recorder := r, ct_permit := False, ct_phase := CallUploading\<rparr>)
                (offer_batch (ct_request t) sealed (s\<lparr>cl_permits := cl_permits s + of_bool (ct_permit t)\<rparr>))))
      | CallUploading \<Rightarrow> Some (set_call i (t\<lparr>ct_slot := False, ct_phase := CallEnded\<rparr>)
          (s\<lparr>cl_slots := cl_slots s + of_bool (ct_slot t)\<rparr>))
      | CallEnded \<Rightarrow> None
      | CallDied \<Rightarrow> None)"

text \<open>An event of the provider, from any of its threads; \<open>due\<close> is whether the last activity is old enough.\<close>

definition is_tick :: "provider_event \<Rightarrow> bool" where
  "is_tick event \<longleftrightarrow> (case event of Activity \<Rightarrow> True | OutputDelta _ \<Rightarrow> True | _ \<Rightarrow> False)"

definition call_event ::
    "provider_event \<Rightarrow> bool \<Rightarrow> u64 \<Rightarrow> uuid \<Rightarrow> nat \<Rightarrow> call_task \<Rightarrow> call_loop \<Rightarrow> call_loop" where
  "call_event event due offset fresh i t s =
     (if cancelled_call t then s
      else let s' = (if ct_activity t \<and> (\<not> is_tick event \<or> due)
                     then try_queue (InvocationActivity (ct_request t) (ct_channel t)) s else s)
           in if is_tick event then s'
              else set_call i (t\<lparr>ct_recorder := snd (safe_trace_telemetry event offset fresh (ct_recorder t))\<rparr>) s')"

text \<open>An abort takes effect at an await of the task, and drops what it holds.\<close>

definition at_await :: "call_phase \<Rightarrow> bool" where
  "at_await phase \<longleftrightarrow> (case phase of
     CallRunning \<Rightarrow> True | CallGrace \<Rightarrow> True | CallFinishing _ _ _ _ \<Rightarrow> True | CallQueuing _ _ _ \<Rightarrow> True
   | CallAwaiting _ _ \<Rightarrow> True | CallUploading \<Rightarrow> True | _ \<Rightarrow> False)"

definition call_dies :: "nat \<Rightarrow> call_task \<Rightarrow> call_loop \<Rightarrow> call_loop option" where
  "call_dies i t s = (if ct_aborting t \<and> at_await (ct_phase t)
     then Some (set_call i (t\<lparr>ct_permit := False, ct_slot := False, ct_phase := CallDied\<rparr>)
       (s\<lparr>cl_permits := cl_permits s + of_bool (ct_permit t), cl_slots := cl_slots s + of_bool (ct_slot t)\<rparr>))
     else None)"

section \<open>The loop\<close>

definition call_finished :: "call_task \<Rightarrow> bool" where
  "call_finished t \<longleftrightarrow> ct_phase t = CallEnded \<or> ct_phase t = CallDied"

definition reap_finished :: "call_loop \<Rightarrow> call_loop" where
  "reap_finished s = s\<lparr>cl_calls := (\<lambda>r. case cl_calls s r of
     Some i \<Rightarrow> if call_finished (cl_tasks s ! i) then None else Some i | None \<Rightarrow> None)\<rparr>"

definition spawn_call :: "call_task \<Rightarrow> call_loop \<Rightarrow> call_loop" where
  "spawn_call t s = s\<lparr>cl_tasks := cl_tasks s @ [t], cl_calls := (cl_calls s)(ct_request t \<mapsto> length (cl_tasks s))\<rparr>"

text \<open>A rejection has a task if a slot is free; otherwise its answer is queued if there is room, and its
  telemetry is offered, at once.\<close>

definition dispatch_preflight_failure ::
    "u64 \<Rightarrow> uuid \<Rightarrow> u64 \<Rightarrow> string \<Rightarrow> string \<Rightarrow> invocation_telemetry \<Rightarrow> call_loop \<Rightarrow> call_loop" where
  "dispatch_preflight_failure offset request channel_id code message r s =
     (let command = agent_gateway_error request channel_id code message
      in if 0 < cl_slots s
         then spawn_call \<lparr>ct_request = request, ct_channel = channel_id, ct_token = None, ct_permit = False,
             ct_slot = True, ct_activity = False, ct_aborting = False, ct_recorder = r,
             ct_phase = CallFinishing command CallPreflightFailed (Some message) None\<rparr>
           (s\<lparr>cl_slots := cl_slots s - 1\<rparr>)
         else offer_batch request (fst (recorder_finish (snd (fail_active offset (Some message) r))))
           (try_queue command s))"

definition duplicate_error :: "uuid \<Rightarrow> u64 \<Rightarrow> gateway_command" where
  "duplicate_error request channel_id = ErrorCommand (Some request) (Some channel_id) ''DUPLICATE_REQUEST''
     ''The request id is already running.''"

definition loop_invoke ::
    "text_codec \<Rightarrow> uuid_codec \<Rightarrow> gateway_runtime \<Rightarrow> u64 \<Rightarrow> uuid \<Rightarrow> invoke_params \<Rightarrow> call_loop \<Rightarrow> call_loop" where
  "loop_invoke c u rt offset request p s =
     (if cl_calls s request \<noteq> None then try_queue (duplicate_error request (invoke_channel_id p)) s
      else
        let r = set_root_input_summary (canonical_trace_io_summary c (invoke_input p)) (call_recorder u rt p)
        in if cl_permits s = 0
           then dispatch_preflight_failure offset request (invoke_channel_id p) ''BACKPRESSURE''
             ''The agent gateway has reached its concurrent call limit.'' r s
           else
             let taken = s\<lparr>cl_permits := cl_permits s - 1\<rparr>;
                 task = \<lparr>ct_request = request, ct_channel = invoke_channel_id p, ct_token = None, ct_permit = True,
                   ct_slot = False, ct_activity = False, ct_aborting = False, ct_recorder = r,
                   ct_phase = CallFinishing (agent_gateway_error request (invoke_channel_id p)
                       ''PROVIDER_NOT_AVAILABLE''
                       ''The requested provider is not connected to this Agent Gateway.'')
                     CallPreflightFailed
                     (Some ''The requested provider is not connected to this Agent Gateway.'') None\<rparr>
             in (case call_provider u rt p of
                   None \<Rightarrow> spawn_call task taken
                 | Some _ \<Rightarrow> spawn_call (task\<lparr>ct_token := Some False, ct_activity := cl_activity_ready s,
                     ct_phase := CallRunning\<rparr>) taken))"

text \<open>A call with a token is cancelled, one without is forgotten and aborted.\<close>

definition loop_cancel :: "uuid \<Rightarrow> call_loop \<Rightarrow> call_loop" where
  "loop_cancel request s =
     (case cl_calls s request of
        None \<Rightarrow> s
      | Some i \<Rightarrow>
          let t = cl_tasks s ! i
          in case ct_token t of
            Some _ \<Rightarrow> set_call i (t\<lparr>ct_token := Some True\<rparr>) s
          | None \<Rightarrow> set_call i (t\<lparr>ct_aborting := True\<rparr>) (s\<lparr>cl_calls := (cl_calls s)(request := None)\<rparr>))"

text \<open>The end of the function drops the queue: a task that waits for its delivery learns that it failed.\<close>

definition lose_delivery :: "call_task \<Rightarrow> call_task" where
  "lose_delivery t = (case ct_phase t of
     CallAwaiting terminal batch \<Rightarrow> t\<lparr>ct_phase := CallAnswered terminal batch False\<rparr> | _ \<Rightarrow> t)"

definition end_loop :: "loop_state \<Rightarrow> call_loop \<Rightarrow> call_loop" where
  "end_loop ending s = s\<lparr>cl_state := ending, cl_calls := Map.empty, cl_queue := [],
     cl_tasks := map lose_delivery (cl_tasks s)\<rparr>"

text \<open>\<open>send_command\<close>: a command that is not valid or too large for a frame fails before the network.\<close>

definition send_command ::
    "text_codec \<Rightarrow> uuid_codec \<Rightarrow> (string, unit) result \<Rightarrow> gateway_command \<Rightarrow> (string, unit) result" where
  "send_command c u network command =
     and_then (to_gateway_frame c u command) (\<lambda>frame. and_then (gateway_encode c frame) (\<lambda>_. network))"

definition deliver :: "nat option \<Rightarrow> bool \<Rightarrow> call_loop \<Rightarrow> call_loop" where
  "deliver waiting delivered s = (case waiting of
     None \<Rightarrow> s
   | Some i \<Rightarrow> (case ct_phase (cl_tasks s ! i) of
       CallAwaiting terminal batch \<Rightarrow>
         set_call i ((cl_tasks s ! i)\<lparr>ct_phase := CallAnswered terminal batch delivered\<rparr>) s
     | _ \<Rightarrow> s))"

definition loop_outbound ::
    "text_codec \<Rightarrow> uuid_codec \<Rightarrow> (string, unit) result \<Rightarrow> call_loop \<Rightarrow> call_loop option" where
  "loop_outbound c u network s = (case cl_queue s of
     [] \<Rightarrow> None
   | (command, waiting) # rest \<Rightarrow>
       let popped = s\<lparr>cl_queue := rest\<rparr>
       in Some (case send_command c u network command of
            Inr _ \<Rightarrow> deliver waiting True (popped\<lparr>cl_sent := cl_sent s @ [command]\<rparr>)
          | Inl e \<Rightarrow> end_loop (Broken e) (deliver waiting False popped)))"

text \<open>Leaving the loop cancels the calls that can be cancelled and aborts the rejections.\<close>

definition leave_loop :: "connection_outcome \<Rightarrow> call_loop \<Rightarrow> call_loop" where
  "leave_loop outcome s = s\<lparr>cl_state := Draining outcome,
     cl_tasks := map (\<lambda>(i, t). if i \<in> ran (cl_calls s)
         then (case ct_token t of Some _ \<Rightarrow> t\<lparr>ct_token := Some True\<rparr> | None \<Rightarrow> t\<lparr>ct_aborting := True\<rparr>)
         else t) (enumerate 0 (cl_tasks s))\<rparr>"

text \<open>After a second at most the calls that still run are aborted, and the socket is closed.\<close>

definition close_loop :: "connection_outcome \<Rightarrow> call_loop \<Rightarrow> call_loop" where
  "close_loop outcome s = end_loop (Closed outcome)
     (s\<lparr>cl_tasks := map (\<lambda>(i, t). if i \<in> ran (cl_calls s) \<and> \<not> call_finished t
         then t\<lparr>ct_aborting := True\<rparr> else t) (enumerate 0 (cl_tasks s))\<rparr>)"

text \<open>A frame of the server, or the error of its reading. A synchronisation of the configuration leaves the
  calls alone.\<close>

definition server_rejected :: "string \<Rightarrow> string" where
  "server_rejected message = ''server rejected agent gateway: '' @ sanitize_error message"

definition loop_incoming ::
    "text_codec \<Rightarrow> uuid_codec \<Rightarrow> gateway_runtime \<Rightarrow> uuid \<Rightarrow> (string, gateway_command) result \<Rightarrow> u64 \<Rightarrow>
     (string, unit) result \<Rightarrow> call_loop \<Rightarrow> call_loop" where
  "loop_incoming c u rt session_id frame offset network s =
     (case frame of
        Inl e \<Rightarrow> if e = ''server disconnected'' then leave_loop Disconnected s else end_loop (Broken e) s
      | Inr (InvokeCommand request p) \<Rightarrow>
          loop_invoke c u rt offset request p (s\<lparr>cl_invoked := cl_invoked s @ [request]\<rparr>)
      | Inr (CancelCommand request channel_id) \<Rightarrow> loop_cancel request s
      | Inr (FeedbackCommand p) \<Rightarrow> s
      | Inr (Heartbeat received) \<Rightarrow>
          if received \<noteq> session_id then end_loop (Broken ''server heartbeat session does not match'') s
          else (case send_command c u network (HeartbeatAck session_id) of
              Inl e \<Rightarrow> end_loop (Broken e) s
            | Inr _ \<Rightarrow> s\<lparr>cl_sent := cl_sent s @ [HeartbeatAck session_id]\<rparr>)
      | Inr (RuntimeConfigChanged ids) \<Rightarrow> s
      | Inr RuntimeMonitoringReady \<Rightarrow> s
      | Inr RuntimeHostMetricsReady \<Rightarrow> s
      | Inr InvocationActivityReady \<Rightarrow> s\<lparr>cl_activity_ready := True\<rparr>
      | Inr (ErrorCommand None channel_id code message) \<Rightarrow>
          if code = ''SESSION_REPLACED'' \<or> code = ''CREDENTIAL_REVOKED'' then leave_loop Disconnected s
          else end_loop (Broken (server_rejected message)) s
      | Inr _ \<Rightarrow> end_loop (Broken ''server sent an unexpected agent gateway message'') s)"

text \<open>Telemetry of the embedded runtime goes straight to the socket.\<close>

fun loop_monitor ::
    "text_codec \<Rightarrow> uuid_codec \<Rightarrow> (string, unit) result \<Rightarrow> runtime_telemetry_batch list \<Rightarrow> call_loop \<Rightarrow> call_loop" where
  "loop_monitor c u network [] s = s"
| "loop_monitor c u network (b # bs) s =
     (case send_command c u network (RuntimeTelemetry b) of
        Inl e \<Rightarrow> end_loop (Broken e) s
      | Inr _ \<Rightarrow> loop_monitor c u network bs (s\<lparr>cl_sent := cl_sent s @ [RuntimeTelemetry b]\<rparr>))"

section \<open>Runs\<close>

datatype loop_action =
    CallRuns nat task_input
  | ProviderEmits nat provider_event bool u64 uuid
  | CallDies nat
  | SocketSends "(string, unit) result"
  | FrameArrives "(string, gateway_command) result" u64 "(string, unit) result"
  | MonitorSends "runtime_telemetry_batch list" "(string, unit) result"
  | ShutdownSignal
  | DrainEnds

text \<open>Every turn of the loop first forgets the finished calls.\<close>

fun loop_step ::
    "text_codec \<Rightarrow> uuid_codec \<Rightarrow> gateway_runtime \<Rightarrow> uuid \<Rightarrow> loop_action \<Rightarrow> call_loop \<Rightarrow> call_loop option" where
  "loop_step c u rt session_id (CallRuns i x) s =
     (if i < length (cl_tasks s) then call_step c x i (cl_tasks s ! i) s else None)"
| "loop_step c u rt session_id (ProviderEmits i event due offset fresh) s =
     (if i < length (cl_tasks s) \<and> ct_token (cl_tasks s ! i) \<noteq> None
      then Some (call_event event due offset fresh i (cl_tasks s ! i) s) else None)"
| "loop_step c u rt session_id (CallDies i) s =
     (if i < length (cl_tasks s) then call_dies i (cl_tasks s ! i) s else None)"
| "loop_step c u rt session_id (SocketSends network) s =
     (if cl_state s = Serving then loop_outbound c u network (reap_finished s) else None)"
| "loop_step c u rt session_id (FrameArrives frame offset network) s =
     (if cl_state s = Serving then Some (loop_incoming c u rt session_id frame offset network (reap_finished s)) else None)"
| "loop_step c u rt session_id (MonitorSends batches network) s =
     (if cl_state s = Serving then Some (loop_monitor c u network batches (reap_finished s)) else None)"
| "loop_step c u rt session_id ShutdownSignal s =
     (if cl_state s = Serving then Some (leave_loop Shutdown (reap_finished s)) else None)"
| "loop_step c u rt session_id DrainEnds s =
     (case cl_state s of Draining outcome \<Rightarrow> Some (close_loop outcome s) | _ \<Rightarrow> None)"

definition loop_act ::
    "text_codec \<Rightarrow> uuid_codec \<Rightarrow> gateway_runtime \<Rightarrow> uuid \<Rightarrow> loop_action \<Rightarrow> call_loop \<Rightarrow> call_loop" where
  "loop_act c u rt session_id a s = (case loop_step c u rt session_id a s of Some s' \<Rightarrow> s' | None \<Rightarrow> s)"

definition loop_run ::
    "text_codec \<Rightarrow> uuid_codec \<Rightarrow> gateway_runtime \<Rightarrow> uuid \<Rightarrow> loop_action list \<Rightarrow> call_loop \<Rightarrow> call_loop" where
  "loop_run c u rt session_id actions s = fold (loop_act c u rt session_id) actions s"

section \<open>Invariants\<close>

definition over_calls :: "(call_task \<Rightarrow> nat) \<Rightarrow> call_loop \<Rightarrow> nat" where
  "over_calls f s = sum_list (map f (cl_tasks s))"

definition awaits_delivery :: "call_task \<Rightarrow> bool" where
  "awaits_delivery t \<longleftrightarrow> (case ct_phase t of CallAwaiting _ _ \<Rightarrow> True | _ \<Rightarrow> False)"

definition unanswered :: "call_phase \<Rightarrow> bool" where
  "unanswered phase \<longleftrightarrow> (case phase of CallRunning \<Rightarrow> True | CallReturned _ \<Rightarrow> True
     | CallFinishing _ _ _ _ \<Rightarrow> True | CallQueuing _ _ _ \<Rightarrow> True | _ \<Rightarrow> False)"

text \<open>The request a command answers.\<close>

fun final_answer :: "gateway_command \<Rightarrow> uuid option" where
  "final_answer (ResultCommand request p) = Some request"
| "final_answer (ErrorCommand request channel_id code message) = request"
| "final_answer command = None"

definition answers_own_request :: "call_task \<Rightarrow> bool" where
  "answers_own_request t \<longleftrightarrow> (case ct_phase t of
     CallFinishing command _ _ _ \<Rightarrow> final_answer command = Some (ct_request t)
   | CallQueuing command _ _ \<Rightarrow> final_answer command = Some (ct_request t)
   | _ \<Rightarrow> True)"

definition answers :: "uuid \<Rightarrow> call_loop \<Rightarrow> nat" where
  "answers r s = length (filter (\<lambda>command. final_answer command = Some r) (cl_sent s @ map fst (cl_queue s)))"

definition asked :: "uuid \<Rightarrow> call_task \<Rightarrow> nat" where
  "asked r t = of_bool (ct_request t = r \<and> unanswered (ct_phase t))"

definition permit_of :: "call_task \<Rightarrow> nat" where "permit_of t = of_bool (ct_permit t)"
definition slot_of :: "call_task \<Rightarrow> nat" where "slot_of t = of_bool (ct_slot t)"

definition waiters :: "call_loop \<Rightarrow> nat list" where
  "waiters s = List.map_filter snd (cl_queue s)"

definition loop_ok :: "call_loop \<Rightarrow> bool" where
  "loop_ok s \<longleftrightarrow>
     cl_permits s + over_calls permit_of s = MAX_CONCURRENT_CALLS \<and>
     cl_slots s + over_calls slot_of s = MAX_CONCURRENT_REJECTION_DELIVERIES \<and>
     (\<forall>r i. cl_calls s r = Some i \<longrightarrow> i < length (cl_tasks s) \<and> ct_request (cl_tasks s ! i) = r) \<and>
     length (cl_queue s) \<le> OUTBOUND_QUEUE_CAPACITY \<and> (queue_open s \<or> cl_queue s = []) \<and>
     distinct (waiters s) \<and>
     (\<forall>i \<in> set (waiters s). i < length (cl_tasks s) \<and>
        (awaits_delivery (cl_tasks s ! i) \<or> ct_phase (cl_tasks s ! i) = CallDied)) \<and>
     (\<forall>i < length (cl_tasks s). awaits_delivery (cl_tasks s ! i) \<longrightarrow> i \<in> set (waiters s)) \<and>
     (\<forall>t \<in> set (cl_tasks s). answers_own_request t) \<and>
     (\<forall>r. answers r s + over_calls (asked r) s \<le> count_list (cl_invoked s) r) \<and>
     (cl_state s = Serving \<longrightarrow> (\<forall>i < length (cl_tasks s). \<not> call_finished (cl_tasks s ! i) \<longrightarrow>
        \<not> ct_aborting (cl_tasks s ! i) \<longrightarrow> cl_calls s (ct_request (cl_tasks s ! i)) = Some i))"

lemma loop_okD:
  assumes "loop_ok s"
  shows loop_permits: "cl_permits s + over_calls permit_of s = MAX_CONCURRENT_CALLS"
    and loop_slots: "cl_slots s + over_calls slot_of s = MAX_CONCURRENT_REJECTION_DELIVERIES"
    and loop_calls: "cl_calls s r = Some i \<Longrightarrow> i < length (cl_tasks s) \<and> ct_request (cl_tasks s ! i) = r"
    and loop_queue: "length (cl_queue s) \<le> OUTBOUND_QUEUE_CAPACITY" "queue_open s \<or> cl_queue s = []"
    and loop_distinct: "distinct (waiters s)"
    and loop_waiting: "i \<in> set (waiters s) \<Longrightarrow> i < length (cl_tasks s) \<and>
      (awaits_delivery (cl_tasks s ! i) \<or> ct_phase (cl_tasks s ! i) = CallDied)"
    and loop_waited: "i < length (cl_tasks s) \<Longrightarrow> awaits_delivery (cl_tasks s ! i) \<Longrightarrow> i \<in> set (waiters s)"
    and loop_owns: "t \<in> set (cl_tasks s) \<Longrightarrow> answers_own_request t"
    and loop_asks: "answers r s + over_calls (asked r) s \<le> count_list (cl_invoked s) r"
    and loop_lives: "cl_state s = Serving \<Longrightarrow> i < length (cl_tasks s) \<Longrightarrow> \<not> call_finished (cl_tasks s ! i) \<Longrightarrow>
      \<not> ct_aborting (cl_tasks s ! i) \<Longrightarrow> cl_calls s (ct_request (cl_tasks s ! i)) = Some i"
  using assms unfolding loop_ok_def by blast+

named_theorems loop_defs

lemmas [loop_defs] = set_call_def offer_batch_def over_calls_def waiters_def answers_def queue_open_def

lemma over_calls_set_call:
  assumes "i < length (cl_tasks s)" and "cl_tasks s ! i = t"
  shows "over_calls f (set_call i t' s) + f t = over_calls f s + f t'"
  using sum_list_update[OF assms(1), of f t'] assms(2) by (simp add: over_calls_def set_call_def)

text \<open>A step of one task that leaves the queue alone.\<close>

lemma set_call_ok:
  assumes ok: "loop_ok s" and i: "i < length (cl_tasks s)" "cl_tasks s ! i = t"
    and same: "ct_request t' = ct_request t"
    and s': "cl_state s' = cl_state s" "cl_calls s' = cl_calls s" "cl_tasks s' = (cl_tasks s)[i := t']"
      "cl_queue s' = cl_queue s" "cl_sent s' = cl_sent s" "cl_invoked s' = cl_invoked s"
    and permits: "cl_permits s' + permit_of t' = cl_permits s + permit_of t"
    and slots: "cl_slots s' + slot_of t' = cl_slots s + slot_of t"
    and awaits: "awaits_delivery t' \<longleftrightarrow> awaits_delivery t \<and> ct_phase t' \<noteq> CallDied"
    and died: "awaits_delivery t \<or> ct_phase t = CallDied \<Longrightarrow> awaits_delivery t' \<or> ct_phase t' = CallDied"
    and own: "answers_own_request t'" and less: "unanswered (ct_phase t') \<Longrightarrow> unanswered (ct_phase t)"
    and live: "\<not> call_finished t' \<Longrightarrow> \<not> ct_aborting t' \<Longrightarrow> \<not> call_finished t \<and> \<not> ct_aborting t"
  shows "loop_ok s'"
proof -
  have sums: "over_calls f s' + f t = over_calls f s + f t'" for f
    using over_calls_set_call[OF i, of f t'] by (simp add: over_calls_def s' set_call_def)
  have "asked r t' \<le> asked r t" for r using same less by (simp add: asked_def)
  then have "over_calls (asked r) s' \<le> over_calls (asked r) s" for r
    using sums[of "asked r"] by (metis add_le_cancel_right add_left_mono)
  moreover have "answers r s' = answers r s" for r by (simp add: answers_def s')
  ultimately have asks: "answers r s' + over_calls (asked r) s' \<le> count_list (cl_invoked s') r" for r
    using loop_asks[OF ok, of r] by (metis add_left_mono order_trans s'(6))
  have sum_ok: "cl_permits s' + over_calls permit_of s' = MAX_CONCURRENT_CALLS"
    "cl_slots s' + over_calls slot_of s' = MAX_CONCURRENT_REJECTION_DELIVERIES"
    using sums[of permit_of] sums[of slot_of] permits slots loop_permits[OF ok] loop_slots[OF ok] by simp_all
  have calls: "j < length (cl_tasks s') \<and> ct_request (cl_tasks s' ! j) = r" if "cl_calls s' r = Some j" for r j
    using loop_calls[OF ok, of r j] that same i by (cases "j = i") (auto simp: s')
  have waits: "waiters s' = waiters s" by (simp add: waiters_def s')
  have waiting: "j < length (cl_tasks s') \<and> (awaits_delivery (cl_tasks s' ! j) \<or> ct_phase (cl_tasks s' ! j) = CallDied)"
    if "j \<in> set (waiters s')" for j
    using loop_waiting[OF ok, of j] that died i unfolding waits by (cases "j = i") (auto simp: s')
  have waited: "j \<in> set (waiters s')" if "j < length (cl_tasks s')" "awaits_delivery (cl_tasks s' ! j)" for j
    using loop_waited[OF ok, of j] that awaits i unfolding waits by (cases "j = i") (auto simp: s')
  have owns: "\<forall>t \<in> set (cl_tasks s'). answers_own_request t"
    using loop_owns[OF ok] own set_update_subset_insert[of "cl_tasks s" i t'] by (auto simp: s')
  have lives: "cl_calls s' (ct_request (cl_tasks s' ! j)) = Some j" if "cl_state s' = Serving"
    "j < length (cl_tasks s')" "\<not> call_finished (cl_tasks s' ! j)" "\<not> ct_aborting (cl_tasks s' ! j)" for j
    using loop_lives[OF ok, of j] that live same i by (cases "j = i") (auto simp: s')
  have "queue_open s' = queue_open s" by (simp add: queue_open_def s')
  with loop_queue[OF ok] loop_distinct[OF ok] have "length (cl_queue s') \<le> OUTBOUND_QUEUE_CAPACITY"
    "queue_open s' \<or> cl_queue s' = []" "distinct (waiters s')" unfolding waits by (simp_all add: s')
  with sum_ok asks calls waiting waited owns lives show ?thesis unfolding loop_ok_def by blast
qed

text \<open>A step of one task that queues its answer.\<close>

lemma queue_answer_ok:
  assumes ok: "loop_ok s" and i: "i < length (cl_tasks s)" "cl_tasks s ! i = t"
    and phase: "ct_phase t = CallQueuing command terminal batch"
    and room: "queue_open s" "length (cl_queue s) < OUTBOUND_QUEUE_CAPACITY"
  shows "loop_ok (set_call i (t\<lparr>ct_phase := CallAwaiting terminal batch\<rparr>)
    (s\<lparr>cl_queue := cl_queue s @ [(command, Some i)]\<rparr>))" (is "loop_ok ?s")
proof -
  let ?t = "t\<lparr>ct_phase := CallAwaiting terminal batch\<rparr>"
  have tasks: "cl_tasks ?s = (cl_tasks s)[i := ?t]" by (simp add: set_call_def)
  have sums: "over_calls f ?s + f t = over_calls f s + f ?t" for f
    using over_calls_set_call[of i "s\<lparr>cl_queue := cl_queue s @ [(command, Some i)]\<rparr>" t f ?t] i
    by (simp add: over_calls_def)
  have permits: "permit_of ?t = permit_of t" "slot_of ?t = slot_of t"
    by (simp_all add: permit_of_def slot_of_def)
  have waits: "waiters ?s = waiters s @ [i]" by (simp add: waiters_def set_call_def map_filter_def)
  have "i \<notin> set (waiters s)"
    using loop_waiting[OF ok, of i] i phase by (auto simp: awaits_delivery_def)
  then have distinct: "distinct (waiters ?s)" unfolding waits using loop_distinct[OF ok] by simp
  have command: "final_answer command = Some (ct_request t)"
    using loop_owns[OF ok, of t] i phase by (auto simp: answers_own_request_def)
  have asked: "asked r t = of_bool (ct_request t = r)" "asked r ?t = 0" for r
    by (simp_all add: asked_def phase unanswered_def)
  have answer: "answers r ?s = answers r s + of_bool (ct_request t = r)" for r
    using command by (simp add: answers_def set_call_def)
  have asks: "answers r ?s + over_calls (asked r) ?s \<le> count_list (cl_invoked ?s) r" for r
    using loop_asks[OF ok, of r] sums[of "asked r"] unfolding answer asked by (simp add: set_call_def)
  have calls: "j < length (cl_tasks ?s) \<and> ct_request (cl_tasks ?s ! j) = r" if "cl_calls ?s r = Some j" for r j
    using loop_calls[OF ok, of r j] that i by (cases "j = i") (auto simp: set_call_def)
  have waiting: "j < length (cl_tasks ?s) \<and> (awaits_delivery (cl_tasks ?s ! j) \<or> ct_phase (cl_tasks ?s ! j) = CallDied)"
    if "j \<in> set (waiters ?s)" for j
    using loop_waiting[OF ok, of j] that i unfolding waits tasks
    by (cases "j = i") (auto simp: awaits_delivery_def)
  have waited: "j \<in> set (waiters ?s)" if "j < length (cl_tasks ?s)" "awaits_delivery (cl_tasks ?s ! j)" for j
    using loop_waited[OF ok, of j] that i unfolding waits tasks by (cases "j = i") auto
  have owns: "\<forall>t \<in> set (cl_tasks ?s). answers_own_request t"
    using loop_owns[OF ok] set_update_subset_insert[of "cl_tasks s" i ?t]
    by (auto simp: tasks answers_own_request_def)
  have lives: "cl_calls ?s (ct_request (cl_tasks ?s ! j)) = Some j" if "cl_state ?s = Serving"
    "j < length (cl_tasks ?s)" "\<not> call_finished (cl_tasks ?s ! j)" "\<not> ct_aborting (cl_tasks ?s ! j)" for j
    using loop_lives[OF ok, of j] that i phase by (cases "j = i") (auto simp: set_call_def call_finished_def)
  have "cl_permits ?s + over_calls permit_of ?s = MAX_CONCURRENT_CALLS"
    "cl_slots ?s + over_calls slot_of ?s = MAX_CONCURRENT_REJECTION_DELIVERIES"
    using sums[of permit_of] sums[of slot_of] permits loop_permits[OF ok] loop_slots[OF ok]
    by (simp_all add: set_call_def)
  moreover have "length (cl_queue ?s) \<le> OUTBOUND_QUEUE_CAPACITY" "queue_open ?s"
    using room by (simp_all add: set_call_def queue_open_def)
  ultimately show ?thesis
    using asks calls waiting waited owns lives distinct unfolding loop_ok_def by blast
qed

text \<open>Room for one more answer to the request, as after an invocation arrived.\<close>

definition answer_due :: "uuid \<Rightarrow> call_loop \<Rightarrow> bool" where
  "answer_due request s \<longleftrightarrow> answers request s + over_calls (asked request) s < count_list (cl_invoked s) request"

lemma try_queue_ok:
  assumes ok: "loop_ok s" and due: "\<And>r. final_answer command = Some r \<Longrightarrow> answer_due r s"
  shows "loop_ok (try_queue command s)"
proof (cases "queue_open s \<and> length (cl_queue s) < OUTBOUND_QUEUE_CAPACITY")
  case True
  let ?s = "s\<lparr>cl_queue := cl_queue s @ [(command, None)]\<rparr>"
  have "waiters ?s = waiters s" by (simp add: waiters_def map_filter_def)
  moreover have "answers r ?s + over_calls (asked r) ?s \<le> count_list (cl_invoked ?s) r" for r
    using loop_asks[OF ok, of r] due[of r] by (auto simp: answers_def over_calls_def answer_due_def)
  ultimately have "loop_ok ?s"
    using ok True by (auto simp: loop_ok_def over_calls_def queue_open_def)
  with True show ?thesis by (simp add: try_queue_def)
next
  case False
  then show ?thesis using ok unfolding try_queue_def by (simp only: if_False)
qed

lemma invoked_ok:
  assumes ok: "loop_ok s"
  shows "loop_ok (s\<lparr>cl_invoked := cl_invoked s @ [request]\<rparr>)"
    and "answer_due request (s\<lparr>cl_invoked := cl_invoked s @ [request]\<rparr>)"
proof -
  have same: "answers r (s\<lparr>cl_invoked := xs\<rparr>) = answers r s" "over_calls f (s\<lparr>cl_invoked := xs\<rparr>) = over_calls f s"
    "waiters (s\<lparr>cl_invoked := xs\<rparr>) = waiters s" "queue_open (s\<lparr>cl_invoked := xs\<rparr>) = queue_open s" for r f xs
    by (simp_all add: answers_def over_calls_def waiters_def queue_open_def)
  have le: "count_list (cl_invoked s) r \<le> count_list (cl_invoked s @ [request]) r" for r by simp
  show "loop_ok (s\<lparr>cl_invoked := cl_invoked s @ [request]\<rparr>)"
    using ok le unfolding loop_ok_def same by (auto intro: order_trans)
  show "answer_due request (s\<lparr>cl_invoked := cl_invoked s @ [request]\<rparr>)"
    using loop_asks[OF ok, of request] by (simp add: answer_due_def same)
qed

lemma spawn_call_ok:
  assumes ok: "loop_ok s" and due: "answer_due (ct_request t) s" and free: "cl_calls s (ct_request t) = None"
    and permits: "p + permit_of t = cl_permits s" and slots: "q + slot_of t = cl_slots s"
    and own: "answers_own_request t" and fresh: "\<not> awaits_delivery t"
  shows "loop_ok (spawn_call t (s\<lparr>cl_permits := p, cl_slots := q\<rparr>))" (is "loop_ok ?s")
proof -
  have tasks: "cl_tasks ?s = cl_tasks s @ [t]" by (simp add: spawn_call_def)
  have sums: "over_calls f ?s = over_calls f s + f t" for f by (simp add: over_calls_def tasks)
  have "waiters ?s = waiters s" "queue_open ?s = queue_open s" "cl_queue ?s = cl_queue s" "cl_state ?s = cl_state s"
    by (simp_all add: waiters_def queue_open_def spawn_call_def)
  note same = this
  have asks: "answers r ?s + over_calls (asked r) ?s \<le> count_list (cl_invoked ?s) r" for r
  proof -
    have "answers r ?s = answers r s" "cl_invoked ?s = cl_invoked s" by (simp_all add: answers_def spawn_call_def)
    moreover have "asked r t \<le> of_bool (r = ct_request t)" by (simp add: asked_def)
    ultimately show ?thesis
      using loop_asks[OF ok, of r] due by (cases "r = ct_request t") (auto simp: sums answer_due_def)
  qed
  have calls: "j < length (cl_tasks ?s) \<and> ct_request (cl_tasks ?s ! j) = r" if "cl_calls ?s r = Some j" for r j
    using loop_calls[OF ok, of r j] that
    by (cases "r = ct_request t") (auto simp: spawn_call_def nth_append)
  have waiting: "j < length (cl_tasks ?s) \<and> (awaits_delivery (cl_tasks ?s ! j) \<or> ct_phase (cl_tasks ?s ! j) = CallDied)"
    if "j \<in> set (waiters ?s)" for j
    using loop_waiting[OF ok, of j] that by (auto simp: same tasks nth_append)
  have waited: "j \<in> set (waiters ?s)" if "j < length (cl_tasks ?s)" "awaits_delivery (cl_tasks ?s ! j)" for j
    using loop_waited[OF ok, of j] that fresh by (auto simp: same tasks nth_append split: if_splits)
  have lives: "cl_calls ?s (ct_request (cl_tasks ?s ! j)) = Some j" if "cl_state ?s = Serving"
    "j < length (cl_tasks ?s)" "\<not> call_finished (cl_tasks ?s ! j)" "\<not> ct_aborting (cl_tasks ?s ! j)" for j
  proof (cases "j < length (cl_tasks s)")
    case True
    with that loop_lives[OF ok, of j] have "cl_calls s (ct_request (cl_tasks s ! j)) = Some j"
      by (simp add: same tasks nth_append)
    with free True show ?thesis by (auto simp: spawn_call_def nth_append)
  next
    case False
    with that have "j = length (cl_tasks s)" by (simp add: tasks)
    then show ?thesis by (simp add: spawn_call_def)
  qed
  have "cl_permits ?s + over_calls permit_of ?s = MAX_CONCURRENT_CALLS"
    "cl_slots ?s + over_calls slot_of ?s = MAX_CONCURRENT_REJECTION_DELIVERIES"
    unfolding sums using loop_permits[OF ok] loop_slots[OF ok] permits slots by (simp_all add: spawn_call_def)
  moreover have "\<forall>t \<in> set (cl_tasks ?s). answers_own_request t"
    using loop_owns[OF ok] own by (auto simp: tasks)
  ultimately show ?thesis
    using asks calls waiting waited lives loop_queue[OF ok] loop_distinct[OF ok]
    unfolding loop_ok_def same by blast
qed

lemma offer_batch_ok: "loop_ok s \<Longrightarrow> loop_ok (offer_batch request b s)"
  by (simp add: loop_ok_def offer_batch_def over_calls_def waiters_def answers_def queue_open_def)

lemma sent_ok:
  "loop_ok s \<Longrightarrow> final_answer command = None \<Longrightarrow> loop_ok (s\<lparr>cl_sent := cl_sent s @ [command]\<rparr>)"
  by (simp add: loop_ok_def over_calls_def waiters_def answers_def queue_open_def)

lemma reap_ok: "loop_ok s \<Longrightarrow> loop_ok (reap_finished s)"
  unfolding loop_ok_def reap_finished_def
  by (auto simp: over_calls_def waiters_def answers_def queue_open_def split: option.splits if_splits)

text \<open>The end of the function: nothing waits for a delivery any more.\<close>

lemma lose_delivery_simps [simp]:
  "ct_request (lose_delivery t) = ct_request t" "ct_permit (lose_delivery t) = ct_permit t"
  "ct_slot (lose_delivery t) = ct_slot t" "ct_token (lose_delivery t) = ct_token t"
  "permit_of (lose_delivery t) = permit_of t" "slot_of (lose_delivery t) = slot_of t"
  "\<not> awaits_delivery (lose_delivery t)" "unanswered (ct_phase (lose_delivery t)) = unanswered (ct_phase t)"
  "asked r (lose_delivery t) = asked r t" "answers_own_request (lose_delivery t) = answers_own_request t"
  by (simp_all add: lose_delivery_def permit_of_def slot_of_def awaits_delivery_def unanswered_def asked_def
      answers_own_request_def split: call_phase.split)

lemma end_loop_ok:
  assumes ok: "loop_ok s" and ending: "ending \<noteq> Serving" "\<And>outcome. ending \<noteq> Draining outcome"
  shows "loop_ok (end_loop ending s)"
proof -
  let ?s = "end_loop ending s"
  have sums: "over_calls f ?s = over_calls f s" if "\<And>t. f (lose_delivery t) = f t" for f
    using that by (simp add: over_calls_def end_loop_def comp_def)
  have fewer: "answers r ?s \<le> answers r s" for r by (simp add: answers_def end_loop_def)
  have invoked: "cl_invoked ?s = cl_invoked s" by (simp add: end_loop_def)
  have asked: "over_calls (asked r) ?s = over_calls (asked r) s" for r by (rule sums) simp
  have "answers r ?s + over_calls (asked r) ?s \<le> count_list (cl_invoked ?s) r" for r
    unfolding invoked asked using loop_asks[OF ok, of r] fewer[of r] by linarith
  moreover have "waiters ?s = []" by (simp add: waiters_def end_loop_def)
  moreover have "\<forall>t \<in> set (cl_tasks ?s). answers_own_request t"
    using loop_owns[OF ok] by (auto simp: end_loop_def)
  ultimately show ?thesis
    using loop_permits[OF ok] loop_slots[OF ok] ending(1)
    by (simp add: loop_ok_def sums) (simp add: end_loop_def)
qed

text \<open>Tokens and aborts of many calls at once.\<close>

lemma map_enumerate_same:
  "(\<And>i t. f (g (i, t)) = f t) \<Longrightarrow> map f (map g (enumerate n ts)) = map f ts"
  by (induction ts arbitrary: n) auto

lemma signalled_ok:
  assumes ok: "loop_ok s" and tasks: "cl_tasks s' = map g (enumerate 0 (cl_tasks s))"
    and same: "cl_calls s' = cl_calls s" "cl_permits s' = cl_permits s" "cl_slots s' = cl_slots s"
      "cl_queue s' = cl_queue s" "cl_sent s' = cl_sent s" "cl_invoked s' = cl_invoked s"
    and g: "\<And>i t. ct_request (g (i, t)) = ct_request t \<and> ct_phase (g (i, t)) = ct_phase t \<and>
      ct_permit (g (i, t)) = ct_permit t \<and> ct_slot (g (i, t)) = ct_slot t"
    and state: "cl_state s' \<noteq> Serving" "queue_open s'"
  shows "loop_ok s'"
proof -
  have sums: "over_calls f s' = over_calls f s" if "\<And>i t. f (g (i, t)) = f t" for f
    using map_enumerate_same[of f g] that by (simp add: over_calls_def tasks del: map_map)
  have "over_calls permit_of s' = over_calls permit_of s" "over_calls slot_of s' = over_calls slot_of s"
    "over_calls (asked r) s' = over_calls (asked r) s" for r
    by (rule sums, simp add: g permit_of_def slot_of_def asked_def)+
  note sums = this
  have nth: "ct_request (cl_tasks s' ! i) = ct_request (cl_tasks s ! i)" "ct_phase (cl_tasks s' ! i) = ct_phase (cl_tasks s ! i)"
    "awaits_delivery (cl_tasks s' ! i) = awaits_delivery (cl_tasks s ! i)" if "i < length (cl_tasks s)" for i
    using that by (simp_all add: tasks g nth_enumerate_eq awaits_delivery_def)
  have len: "length (cl_tasks s') = length (cl_tasks s)" by (simp add: tasks)
  have owns: "\<forall>t \<in> set (cl_tasks s'). answers_own_request t"
  proof
    fix t assume "t \<in> set (cl_tasks s')"
    then obtain i u where "(i, u) \<in> set (enumerate 0 (cl_tasks s))" and t: "t = g (i, u)" by (auto simp: tasks)
    then have "u \<in> set (cl_tasks s)" by (auto simp: in_set_enumerate_eq)
    with loop_owns[OF ok, of u] have "answers_own_request u" by blast
    moreover have "ct_request t = ct_request u" "ct_phase t = ct_phase u" using g[of i u] by (simp_all add: t)
    ultimately show "answers_own_request t" by (simp only: answers_own_request_def)
  qed
  have "answers r s' = answers r s" "waiters s' = waiters s" for r by (simp_all add: answers_def waiters_def same)
  with ok state owns nth show ?thesis
    unfolding loop_ok_def len sums same by (auto simp: loop_ok_def)
qed

lemma leave_loop_ok: "loop_ok s \<Longrightarrow> loop_ok (leave_loop outcome s)"
  by (rule signalled_ok[where s = s and g = "\<lambda>(i, t). if i \<in> ran (cl_calls s)
         then (case ct_token t of Some _ \<Rightarrow> t\<lparr>ct_token := Some True\<rparr> | None \<Rightarrow> t\<lparr>ct_aborting := True\<rparr>)
         else t"]) (auto simp: leave_loop_def queue_open_def split: option.split)

lemma close_loop_ok:
  assumes "loop_ok s" and "cl_state s = Draining outcome"
  shows "loop_ok (close_loop outcome s)"
proof -
  let ?g = "\<lambda>(i, t). if i \<in> ran (cl_calls s) \<and> \<not> call_finished t then t\<lparr>ct_aborting := True\<rparr> else t"
  have "loop_ok (s\<lparr>cl_tasks := map ?g (enumerate 0 (cl_tasks s))\<rparr>)"
    by (rule signalled_ok[OF assms(1), where g = ?g]) (use assms(2) in \<open>auto simp: queue_open_def\<close>)
  then show ?thesis unfolding close_loop_def by (rule end_loop_ok) simp_all
qed

lemma set_call_frame [simp]:
  "cl_state (set_call i t s) = cl_state s" "cl_calls (set_call i t s) = cl_calls s"
  "cl_tasks (set_call i t s) = (cl_tasks s)[i := t]" "cl_queue (set_call i t s) = cl_queue s"
  "cl_sent (set_call i t s) = cl_sent s" "cl_invoked (set_call i t s) = cl_invoked s"
  "cl_permits (set_call i t s) = cl_permits s" "cl_slots (set_call i t s) = cl_slots s"
  "cl_offers (set_call i t s) = cl_offers s"
  "cl_state (offer_batch r b s) = cl_state s" "cl_calls (offer_batch r b s) = cl_calls s"
  "cl_tasks (offer_batch r b s) = cl_tasks s" "cl_queue (offer_batch r b s) = cl_queue s"
  "cl_sent (offer_batch r b s) = cl_sent s" "cl_invoked (offer_batch r b s) = cl_invoked s"
  "cl_permits (offer_batch r b s) = cl_permits s" "cl_slots (offer_batch r b s) = cl_slots s"
  by (simp_all add: set_call_def offer_batch_def)

lemmas call_marks = permit_of_def slot_of_def awaits_delivery_def answers_own_request_def unanswered_def
  call_finished_def

text \<open>The socket takes a command from the queue: its task learns how it went.\<close>

lemma pop_queue_ok:
  assumes ok: "loop_ok s" and queue: "cl_queue s = (command, waiting) # rest"
    and sent: "sent = cl_sent s \<or> sent = cl_sent s @ [command]"
  shows "loop_ok (deliver waiting delivered (s\<lparr>cl_queue := rest, cl_sent := sent\<rparr>))"
proof -
  let ?p = "s\<lparr>cl_queue := rest, cl_sent := sent\<rparr>"
  have counts: "over_calls f ?p = over_calls f s" for f by (simp add: over_calls_def)
  have fewer: "answers r ?p \<le> answers r s" for r using sent by (auto simp: answers_def queue)
  have asks: "answers r ?p + over_calls (asked r) ?p \<le> count_list (cl_invoked ?p) r" for r
    using loop_asks[OF ok, of r] fewer[of r] by (simp add: counts)
  show ?thesis
  proof (cases waiting)
    case None
    have "waiters ?p = waiters s" by (simp add: waiters_def queue None map_filter_def)
    with ok asks queue show ?thesis
      unfolding loop_ok_def deliver_def None by (auto simp: counts queue_open_def)
  next
    case (Some i)
    have waits: "waiters s = i # waiters ?p" by (simp add: waiters_def queue Some map_filter_def)
    then have i: "i < length (cl_tasks s)" "i \<notin> set (waiters ?p)" and
      phase: "awaits_delivery (cl_tasks s ! i) \<or> ct_phase (cl_tasks s ! i) = CallDied"
      using loop_waiting[OF ok, of i] loop_distinct[OF ok] by simp_all
    let ?s = "deliver waiting delivered ?p"
    let ?t = "cl_tasks ?s ! i"
    have tasks: "cl_tasks ?s = (cl_tasks s)[i := ?t]"
      using i by (auto simp: deliver_def Some split: call_phase.split)
    have here: "ct_request ?t = ct_request (cl_tasks s ! i)" "permit_of ?t = permit_of (cl_tasks s ! i)"
      "slot_of ?t = slot_of (cl_tasks s ! i)" "\<not> awaits_delivery ?t" "\<not> unanswered (ct_phase ?t)"
      "answers_own_request ?t" "ct_aborting ?t = ct_aborting (cl_tasks s ! i)"
      "call_finished ?t = call_finished (cl_tasks s ! i)" "\<not> unanswered (ct_phase (cl_tasks s ! i))"
      using phase i by (auto simp: deliver_def Some call_marks split: call_phase.splits)
    have sums: "over_calls f ?s + f (cl_tasks s ! i) = over_calls f s + f ?t" for f
      using sum_list_update[of i "cl_tasks s" f ?t] i by (simp add: over_calls_def tasks[symmetric])
    have frame: "cl_state ?s = cl_state s" "cl_calls ?s = cl_calls s" "cl_queue ?s = rest" "cl_sent ?s = sent"
      "cl_invoked ?s = cl_invoked s" "cl_permits ?s = cl_permits s" "cl_slots ?s = cl_slots s"
      by (auto simp: deliver_def Some split: call_phase.split)
    have waiters: "waiters ?s = waiters ?p" by (simp add: waiters_def frame)
    have len: "length (cl_tasks ?s) = length (cl_tasks s)" by (metis tasks length_list_update)
    have other: "cl_tasks ?s ! j = cl_tasks s ! j" if "j \<noteq> i" for j
      using that by (metis tasks nth_list_update_neq)
    have "over_calls (asked r) ?s = over_calls (asked r) s" for r
      using sums[of "asked r"] here by (simp add: asked_def)
    moreover have "answers r ?s = answers r ?p" for r by (simp add: answers_def frame)
    ultimately have "\<forall>r. answers r ?s + over_calls (asked r) ?s \<le> count_list (cl_invoked ?s) r"
      using asks by (simp add: counts frame)
    moreover have "cl_permits ?s + over_calls permit_of ?s = MAX_CONCURRENT_CALLS"
      "cl_slots ?s + over_calls slot_of ?s = MAX_CONCURRENT_REJECTION_DELIVERIES"
      using sums[of permit_of] sums[of slot_of] here loop_permits[OF ok] loop_slots[OF ok] by (simp_all add: frame)
    moreover have "\<forall>r j. cl_calls ?s r = Some j \<longrightarrow> j < length (cl_tasks ?s) \<and> ct_request (cl_tasks ?s ! j) = r"
      unfolding frame len using loop_calls[OF ok] here(1) other by metis
    moreover have "\<forall>j \<in> set (waiters ?s). j < length (cl_tasks ?s) \<and>
        (awaits_delivery (cl_tasks ?s ! j) \<or> ct_phase (cl_tasks ?s ! j) = CallDied)"
      unfolding waiters len using loop_waiting[OF ok] other i(2) waits by (metis list.set_intros(2))
    moreover have "\<forall>j < length (cl_tasks ?s). awaits_delivery (cl_tasks ?s ! j) \<longrightarrow> j \<in> set (waiters ?s)"
      unfolding waiters len using loop_waited[OF ok] other here(4) waits by (metis set_ConsD)
    moreover have "\<forall>t \<in> set (cl_tasks ?s). answers_own_request t"
      using loop_owns[OF ok] here(6) set_update_subset_insert[of "cl_tasks s" i ?t] unfolding tasks[symmetric] by blast
    moreover have "cl_state ?s = Serving \<longrightarrow> (\<forall>j < length (cl_tasks ?s). \<not> call_finished (cl_tasks ?s ! j) \<longrightarrow>
        \<not> ct_aborting (cl_tasks ?s ! j) \<longrightarrow> cl_calls ?s (ct_request (cl_tasks ?s ! j)) = Some j)"
      unfolding frame len using loop_lives[OF ok] other here by metis
    moreover have "length (cl_queue ?s) \<le> OUTBOUND_QUEUE_CAPACITY" "queue_open ?s \<or> cl_queue ?s = []"
      using loop_queue[OF ok] by (auto simp: frame queue queue_open_def)
    moreover have "distinct (waiters ?s)" unfolding waiters using loop_distinct[OF ok] waits by simp
    ultimately show ?thesis unfolding loop_ok_def by blast
  qed
qed

lemma own_update [simp]:
  "answers_own_request (t\<lparr>ct_recorder := r\<rparr>) = answers_own_request t"
  "answers_own_request (t\<lparr>ct_token := b\<rparr>) = answers_own_request t"
  "answers_own_request (t\<lparr>ct_aborting := a\<rparr>) = answers_own_request t"
  by (cases "ct_phase t"; simp add: answers_own_request_def)+

lemma write_call_ok:
  assumes "loop_ok s" and "i < length (cl_tasks s)" and "cl_tasks s ! i = t" and "ct_request t' = ct_request t"
    and "cl_state b = cl_state s" and "cl_calls b = cl_calls s" and "cl_tasks b = cl_tasks s" and "cl_queue b = cl_queue s"
    and "cl_sent b = cl_sent s" and "cl_invoked b = cl_invoked s"
    and "cl_permits b + permit_of t' = cl_permits s + permit_of t"
    and "cl_slots b + slot_of t' = cl_slots s + slot_of t"
    and "awaits_delivery t' \<longleftrightarrow> awaits_delivery t \<and> ct_phase t' \<noteq> CallDied"
    and "awaits_delivery t \<or> ct_phase t = CallDied \<Longrightarrow> awaits_delivery t' \<or> ct_phase t' = CallDied"
    and "answers_own_request t'" and "unanswered (ct_phase t') \<Longrightarrow> unanswered (ct_phase t)"
    and "\<not> call_finished t' \<Longrightarrow> \<not> ct_aborting t' \<Longrightarrow> \<not> call_finished t \<and> \<not> ct_aborting t"
  shows "loop_ok (set_call i t' b)"
  using assms by (intro set_call_ok[OF assms(1-4)]) simp_all

lemma final_answer_error [simp]:
  "final_answer (agent_gateway_error request channel_id code message) = Some request"
  by (simp add: agent_gateway_error_def)

lemma call_step_ok:
  assumes ok: "loop_ok s" and i: "i < length (cl_tasks s)" "cl_tasks s ! i = t"
    and step: "call_step c x i t s = Some s'"
  shows "loop_ok s'"
proof -
  note own = loop_owns[OF ok nth_mem[OF i(1)], unfolded i(2)]
  note set_call = write_call_ok[OF ok i]
  show ?thesis
  proof (cases "ct_phase t")
    case CallRunning
    then have "s' = set_call i (t\<lparr>ct_phase := if cancelled_call t then CallGrace else CallReturned (ti_outcome x)\<rparr>) s"
      using step by (simp add: call_step_def)
    then show ?thesis using CallRunning by (auto intro!: set_call simp: call_marks)
  next
    case CallGrace
    then have "s' = set_call i (cancel_recording (ti_offset x) t) s" using step by (simp add: call_step_def)
    then show ?thesis using CallGrace by (auto intro!: set_call simp: call_marks cancel_recording_def)
  next
    case (CallReturned outcome)
    then have "s' = set_call i (if cancelled_call t then cancel_recording (ti_offset x) t
        else t\<lparr>ct_phase := outcome_answer t outcome\<rparr>) s" using step by (simp add: call_step_def)
    then show ?thesis using CallReturned
      by (cases outcome) (auto intro!: set_call simp: call_marks cancel_recording_def outcome_answer_def)
  next
    case (CallFinishing command terminal e v)
    then have "s' = set_call i (finish_recording c (ti_offset x) command terminal e v t) s"
      using step by (simp add: call_step_def)
    then show ?thesis using CallFinishing own
      by (auto intro!: set_call simp: call_marks finish_recording_def Let_def split: prod.split)
  next
    case (CallQueuing command terminal batch)
    show ?thesis
    proof (cases "queue_open s")
      case True
      with CallQueuing step queue_answer_ok[OF ok i CallQueuing] show ?thesis
        by (auto simp: call_step_def split: if_splits)
    next
      case False
      then have "s' = set_call i (t\<lparr>ct_phase := CallAnswered terminal batch False\<rparr>) s"
        using CallQueuing step by (simp add: call_step_def)
      then show ?thesis using CallQueuing by (auto intro!: set_call simp: call_marks)
    qed
  next
    case (CallAnswered terminal batch delivered)
    then have "s' = set_call i (if terminal = CallDelivered
        then t\<lparr>ct_recorder := recorder_push (Delivery (delivery_report x delivered)) (ct_recorder t),
          ct_phase := CallSealing batch\<rparr>
        else t\<lparr>ct_phase := CallSealing batch\<rparr>) s" using step by (simp add: call_step_def)
    then show ?thesis using CallAnswered by (auto intro!: set_call simp: call_marks)
  next
    case (CallSealing batch)
    then obtain sealed r where "s' = set_call i (t\<lparr>ct_recorder := r, ct_permit := False, ct_phase := CallUploading\<rparr>)
        (offer_batch (ct_request t) sealed (s\<lparr>cl_permits := cl_permits s + of_bool (ct_permit t)\<rparr>))"
      using step by (auto simp: call_step_def split: prod.splits)
    then show ?thesis using CallSealing by (auto intro!: set_call simp: call_marks)
  next
    case CallUploading
    then have "s' = set_call i (t\<lparr>ct_slot := False, ct_phase := CallEnded\<rparr>)
        (s\<lparr>cl_slots := cl_slots s + of_bool (ct_slot t)\<rparr>)" using step by (simp add: call_step_def)
    then show ?thesis using CallUploading by (auto intro!: set_call simp: call_marks)
  qed (use step in \<open>simp_all add: call_step_def\<close>)
qed

lemma call_dies_ok:
  assumes ok: "loop_ok s" and i: "i < length (cl_tasks s)" "cl_tasks s ! i = t"
    and dies: "call_dies i t s = Some s'"
  shows "loop_ok s'"
proof -
  have "s' = set_call i (t\<lparr>ct_permit := False, ct_slot := False, ct_phase := CallDied\<rparr>)
      (s\<lparr>cl_permits := cl_permits s + of_bool (ct_permit t), cl_slots := cl_slots s + of_bool (ct_slot t)\<rparr>)"
    using dies unfolding call_dies_def by (metis option.distinct(1) option.inject)
  then show ?thesis by (auto intro!: write_call_ok[OF ok i] simp: call_marks)
qed

lemma tick_not_answered: "final_answer (InvocationActivity r ch) = None"
  by simp

lemma try_queue_frame [simp]:
  "cl_tasks (try_queue command s) = cl_tasks s" "cl_calls (try_queue command s) = cl_calls s"
  "cl_state (try_queue command s) = cl_state s"
  by (simp_all add: try_queue_def)

lemma call_event_ok:
  assumes ok: "loop_ok s" and i: "i < length (cl_tasks s)" "cl_tasks s ! i = t"
  shows "loop_ok (call_event event due offset fresh i t s)"
proof -
  let ?s = "if ct_activity t \<and> (\<not> is_tick event \<or> due)
    then try_queue (InvocationActivity (ct_request t) (ct_channel t)) s else s"
  have s: "loop_ok ?s" using try_queue_ok[OF ok, of "InvocationActivity (ct_request t) (ct_channel t)"] ok by simp
  have i': "i < length (cl_tasks ?s)" "cl_tasks ?s ! i = t" using i by simp_all
  have recorded: "loop_ok (set_call i (t\<lparr>ct_recorder := r\<rparr>) ?s)" for r
  proof (rule write_call_ok[OF s i'])
    show "answers_own_request (t\<lparr>ct_recorder := r\<rparr>)"
      using loop_owns[OF s nth_mem[OF i'(1)]] i' by simp
  qed (auto simp: permit_of_def slot_of_def awaits_delivery_def call_finished_def split: call_phase.split)
  have event: "call_event event due offset fresh i t s = (if cancelled_call t then s else if is_tick event then ?s
      else set_call i (t\<lparr>ct_recorder := snd (safe_trace_telemetry event offset fresh (ct_recorder t))\<rparr>) ?s)"
    by (simp only: call_event_def Let_def)
  show ?thesis
    unfolding event using ok s recorded
    by (cases "cancelled_call t"; cases "is_tick event"; simp only: if_True if_False simp_thms)
qed

lemma loop_cancel_ok:
  assumes ok: "loop_ok s"
  shows "loop_ok (loop_cancel request s)"
proof (cases "cl_calls s request")
  case None
  with ok show ?thesis by (simp add: loop_cancel_def)
next
  case (Some i)
  let ?t = "cl_tasks s ! i"
  have i: "i < length (cl_tasks s)" and request: "ct_request ?t = request"
    using loop_calls[OF ok Some] by simp_all
  have own: "answers_own_request ?t" using loop_owns[OF ok nth_mem[OF i]] .
  show ?thesis
  proof (cases "ct_token ?t")
    case (Some b)
    have "loop_ok (set_call i (?t\<lparr>ct_token := Some True\<rparr>) s)"
    proof (rule write_call_ok[OF ok i refl])
      show "answers_own_request (?t\<lparr>ct_token := Some True\<rparr>)" using own by simp
    qed (auto simp: permit_of_def slot_of_def awaits_delivery_def call_finished_def split: call_phase.split)
    with Some \<open>cl_calls s request = Some i\<close> show ?thesis by (simp add: loop_cancel_def Let_def)
  next
    case None
    have aborted: "loop_ok (set_call i (?t\<lparr>ct_aborting := True\<rparr>) s)"
    proof (rule write_call_ok[OF ok i refl])
      show "answers_own_request (?t\<lparr>ct_aborting := True\<rparr>)" using own by simp
    qed (auto simp: permit_of_def slot_of_def awaits_delivery_def call_finished_def split: call_phase.split)
    let ?a = "set_call i (?t\<lparr>ct_aborting := True\<rparr>) s"
    let ?s = "?a\<lparr>cl_calls := (cl_calls s)(request := None)\<rparr>"
    have "cl_calls ?s (ct_request (cl_tasks ?s ! j)) = Some j" if "cl_state ?s = Serving" "j < length (cl_tasks ?s)"
      "\<not> call_finished (cl_tasks ?s ! j)" "\<not> ct_aborting (cl_tasks ?s ! j)" for j
    proof -
      from that have "cl_calls ?a (ct_request (cl_tasks ?a ! j)) = Some j"
        by (intro loop_lives[OF aborted]) simp_all
      moreover have "j \<noteq> i" using that i by auto
      ultimately show ?thesis using Some request i by (auto split: if_splits)
    qed
    with aborted have "loop_ok ?s"
      unfolding loop_ok_def by (auto simp: over_calls_def waiters_def answers_def queue_open_def split: if_splits)
    moreover have "loop_cancel request s = ?s"
      using Some None by (simp add: loop_cancel_def Let_def set_call_def)
    ultimately show ?thesis by simp
  qed
qed

lemma loop_outbound_ok:
  assumes ok: "loop_ok s" and step: "loop_outbound c u network s = Some s'"
  shows "loop_ok s'"
proof (cases "cl_queue s")
  case Nil
  with step show ?thesis by (simp add: loop_outbound_def)
next
  case (Cons x rest)
  obtain command waiting where x: "x = (command, waiting)" by (cases x)
  note popped = pop_queue_ok[OF ok Cons[unfolded x]]
  show ?thesis
  proof (cases "send_command c u network command")
    case (Inl e)
    then have "s' = end_loop (Broken e) (deliver waiting False (s\<lparr>cl_queue := rest\<rparr>))"
      using step by (simp add: loop_outbound_def Cons x Let_def)
    moreover have "loop_ok (deliver waiting False (s\<lparr>cl_queue := rest\<rparr>))"
      using popped[of "cl_sent s" False] by simp
    ultimately show ?thesis using end_loop_ok by simp
  next
    case (Inr y)
    then have "s' = deliver waiting True (s\<lparr>cl_queue := rest, cl_sent := cl_sent s @ [command]\<rparr>)"
      using step by (simp add: loop_outbound_def Cons x Let_def)
    with popped[of "cl_sent s @ [command]" True] show ?thesis by simp
  qed
qed

lemma preflight_failure_ok:
  assumes ok: "loop_ok s" and due: "answer_due request s" and free: "cl_calls s request = None"
  shows "loop_ok (dispatch_preflight_failure offset request channel_id code message r s)"
proof (cases "0 < cl_slots s")
  case True
  let ?t = "\<lparr>ct_request = request, ct_channel = channel_id, ct_token = None, ct_permit = False, ct_slot = True,
    ct_activity = False, ct_aborting = False, ct_recorder = r,
    ct_phase = CallFinishing (agent_gateway_error request channel_id code message) CallPreflightFailed (Some message) None\<rparr>"
  have "loop_ok (spawn_call ?t (s\<lparr>cl_permits := cl_permits s, cl_slots := cl_slots s - 1\<rparr>))"
    by (rule spawn_call_ok[OF ok]) (use due free True in \<open>simp_all add: call_marks\<close>)
  with True show ?thesis by (simp add: dispatch_preflight_failure_def)
next
  case False
  have "loop_ok (try_queue (agent_gateway_error request channel_id code message) s)"
    by (rule try_queue_ok[OF ok]) (use due in simp)
  with False offer_batch_ok show ?thesis by (simp add: dispatch_preflight_failure_def)
qed

lemma loop_invoke_ok:
  assumes ok: "loop_ok s" and due: "answer_due request s"
  shows "loop_ok (loop_invoke c u rt offset request p s)"
proof (cases "cl_calls s request")
  case (Some i)
  have "loop_ok (try_queue (duplicate_error request (invoke_channel_id p)) s)"
    by (rule try_queue_ok[OF ok]) (use due in \<open>simp add: duplicate_error_def\<close>)
  with Some show ?thesis by (simp add: loop_invoke_def)
next
  case None
  have spawned: "loop_ok (spawn_call t (s\<lparr>cl_permits := cl_permits s - Suc 0\<rparr>))"
    if "ct_request t = request" "ct_permit t" "\<not> ct_slot t" "answers_own_request t" "\<not> awaits_delivery t"
      "0 < cl_permits s" for t
    using spawn_call_ok[OF ok, of t "cl_permits s - 1" "cl_slots s"] that due None
    by (simp add: permit_of_def slot_of_def)
  show ?thesis
  proof (cases "cl_permits s = 0")
    case True
    with None preflight_failure_ok[OF ok due None] show ?thesis by (simp add: loop_invoke_def Let_def)
  next
    case False
    with None show ?thesis
      by (cases "call_provider u rt p") (auto simp: loop_invoke_def Let_def awaits_delivery_def answers_own_request_def
          intro!: spawned)
  qed
qed

lemma loop_incoming_ok:
  assumes ok: "loop_ok s"
  shows "loop_ok (loop_incoming c u rt session_id frame offset network s)"
proof (cases frame)
  case (Inl e)
  with ok show ?thesis by (simp add: loop_incoming_def leave_loop_ok end_loop_ok)
next
  case (Inr command)
  have activity: "loop_ok (s\<lparr>cl_activity_ready := b\<rparr>)" for b
    using ok by (simp add: loop_ok_def over_calls_def waiters_def answers_def queue_open_def)
  show ?thesis
  proof (cases command)
    case (InvokeCommand request p)
    with Inr invoked_ok[OF ok, of request] show ?thesis by (simp add: loop_incoming_def loop_invoke_ok)
  next
    case (Heartbeat received)
    with Inr ok show ?thesis
      by (auto simp: loop_incoming_def end_loop_ok sent_ok split: sum.split)
  next
    case (ErrorCommand request channel_id code message)
    with Inr ok show ?thesis
      by (cases request) (simp_all add: loop_incoming_def end_loop_ok leave_loop_ok)
  qed (use Inr ok activity in \<open>simp_all add: loop_incoming_def end_loop_ok loop_cancel_ok\<close>)
qed

lemma loop_monitor_ok: "loop_ok s \<Longrightarrow> loop_ok (loop_monitor c u network batches s)"
proof (induction batches arbitrary: s)
  case (Cons b bs)
  then show ?case by (auto simp: end_loop_ok sent_ok split: sum.split)
qed simp

lemma loop_step_ok:
  assumes ok: "loop_ok s" and step: "loop_step c u rt session_id a s = Some s'"
  shows "loop_ok s'"
proof (cases a)
  case (CallRuns i x)
  with step ok call_step_ok[OF ok _ refl] show ?thesis by (auto split: if_splits)
next
  case (ProviderEmits i event due offset fresh)
  with step ok call_event_ok[OF ok _ refl] show ?thesis by (auto split: if_splits)
next
  case (CallDies i)
  with step ok call_dies_ok[OF ok _ refl] show ?thesis by (auto split: if_splits)
next
  case (SocketSends network)
  with step loop_outbound_ok[OF reap_ok[OF ok]] show ?thesis by (auto split: if_splits)
next
  case (FrameArrives frame offset network)
  with step loop_incoming_ok[OF reap_ok[OF ok]] show ?thesis by (auto split: if_splits)
next
  case (MonitorSends batches network)
  with step loop_monitor_ok[OF reap_ok[OF ok]] show ?thesis by (auto split: if_splits)
next
  case ShutdownSignal
  with step leave_loop_ok[OF reap_ok[OF ok]] show ?thesis by (auto split: if_splits)
next
  case DrainEnds
  with step close_loop_ok[OF ok] show ?thesis by (auto split: loop_state.splits)
qed

lemma loop_start_ok: "loop_ok loop_start"
  by (simp add: loop_ok_def loop_start_def over_calls_def waiters_def answers_def queue_open_def)

lemma loop_run_ok: "loop_ok s \<Longrightarrow> loop_ok (loop_run c u rt session_id actions s)"
proof (induction actions arbitrary: s)
  case (Cons a actions)
  have "loop_ok (loop_act c u rt session_id a s)"
    using loop_step_ok[OF Cons.prems] Cons.prems by (auto simp: loop_act_def split: option.split)
  from Cons.IH[OF this] show ?case by (simp add: loop_run_def)
qed (simp add: loop_run_def)

section \<open>Properties\<close>

text \<open>C26: A gateway answers no invocation twice: at every moment the results and errors it sent or queued for a
  request, together with the calls of that request that may still be answered, are at most as many as the
  invocations of that request it received, under every interleaving of the loop with the tasks of the calls.\<close>

theorem invocation_answered_at_most_once:
  "let s = loop_run c u rt session_id actions loop_start in
     answers request s + over_calls (asked request) s \<le> count_list (cl_invoked s) request"
  using loop_asks[OF loop_run_ok[OF loop_start_ok]] by (simp add: Let_def)

text \<open>C29: The limits of a connection hold: at most 64 calls have a permit and at most 64 rejections a slot, what is
  not taken is free again, and the queue of the socket has at most 128 commands.\<close>

theorem connection_limits_hold:
  "let s = loop_run c u rt session_id actions loop_start in
     cl_permits s + over_calls permit_of s = 64 \<and> cl_slots s + over_calls slot_of s = 64 \<and>
     length (cl_queue s) \<le> 128"
  using loop_permits[OF loop_run_ok[OF loop_start_ok]] loop_slots[OF loop_run_ok[OF loop_start_ok]]
    loop_queue(1)[OF loop_run_ok[OF loop_start_ok]]
  by (simp add: Let_def MAX_CONCURRENT_CALLS_def MAX_CONCURRENT_REJECTION_DELIVERIES_def OUTBOUND_QUEUE_CAPACITY_def)

text \<open>C28: No call is stuck: while the connection is served, every task of a call has ended, or can take its next
  step, or waits for the socket, which has a queued command to send.\<close>

theorem no_call_is_stuck:
  assumes "s = loop_run c u rt session_id actions loop_start" and "i < length (cl_tasks s)"
  shows "call_finished (cl_tasks s ! i) \<or> call_step c x i (cl_tasks s ! i) s \<noteq> None \<or> cl_queue s \<noteq> []"
proof (cases "ct_phase (cl_tasks s ! i)")
  case (CallQueuing command terminal batch)
  then show ?thesis
    by (cases "cl_queue s") (simp_all add: call_step_def OUTBOUND_QUEUE_CAPACITY_def)
next
  case (CallAwaiting terminal batch)
  then have "i \<in> set (waiters s)"
    using loop_waited[OF loop_run_ok[OF loop_start_ok]] assms by (simp add: awaits_delivery_def)
  then show ?thesis by (auto simp: waiters_def map_filter_def)
qed (simp_all add: call_step_def call_finished_def split: prod.split)

text \<open>Live calls are told apart: while the connection is served, two calls that neither ended nor are being
  aborted never have the same request, so a cancellation reaches the call it names.\<close>

theorem live_calls_distinct:
  assumes "s = loop_run c u rt session_id actions loop_start" and "cl_state s = Serving"
    and "i < length (cl_tasks s)" and "j < length (cl_tasks s)"
    and "\<not> call_finished (cl_tasks s ! i)" and "\<not> ct_aborting (cl_tasks s ! i)"
    and "\<not> call_finished (cl_tasks s ! j)" and "\<not> ct_aborting (cl_tasks s ! j)"
    and "ct_request (cl_tasks s ! i) = ct_request (cl_tasks s ! j)"
  shows "i = j"
proof -
  have ok: "loop_ok s" using loop_run_ok[OF loop_start_ok] assms(1) by simp
  have "cl_calls s (ct_request (cl_tasks s ! i)) = Some i" "cl_calls s (ct_request (cl_tasks s ! j)) = Some j"
    by (rule loop_lives[OF ok assms(2,3,5,6)], rule loop_lives[OF ok assms(2,4,7,8)])
  then have "Some i = Some j" unfolding assms(9) by (rule box_equals[OF refl])
  then show ?thesis by (rule option.inject[THEN iffD1])
qed

section \<open>Cancelled calls\<close>

definition quiet_phase :: "call_phase \<Rightarrow> bool" where
  "quiet_phase phase \<longleftrightarrow> (case phase of CallRunning \<Rightarrow> True | CallGrace \<Rightarrow> True | CallReturned _ \<Rightarrow> True
     | CallSealing batch \<Rightarrow> batch = None | CallUploading \<Rightarrow> True | CallEnded \<Rightarrow> True | CallDied \<Rightarrow> True | _ \<Rightarrow> False)"

definition silenced :: "call_task \<Rightarrow> bool" where
  "silenced t \<longleftrightarrow> ct_token t = Some True \<and> quiet_phase (ct_phase t)"

definition silenced_at :: "nat \<Rightarrow> call_loop \<Rightarrow> bool" where
  "silenced_at i s \<longleftrightarrow> i < length (cl_tasks s) \<and> silenced (cl_tasks s ! i)"

lemma silenced_set_call:
  "silenced_at i s \<Longrightarrow> cl_tasks s' = cl_tasks s \<Longrightarrow> (j = i \<Longrightarrow> silenced t) \<Longrightarrow> silenced_at i (set_call j t s')"
  by (cases "j = i") (auto simp: silenced_at_def)

lemma silenced_step:
  assumes silent: "silenced_at i s" and j: "j < length (cl_tasks s)" "cl_tasks s ! j = t"
    and step: "call_step c x j t s = Some s'"
  shows "silenced_at i s'"
proof -
  have t: "silenced t" if "j = i" using silent j that by (auto simp: silenced_at_def)
  obtain t' b where s': "s' = set_call j t' b" and b: "cl_tasks b = cl_tasks s"
    and t': "silenced t \<Longrightarrow> silenced t'"
    using step unfolding call_step_def
    by (cases "ct_phase t") (force simp: silenced_def quiet_phase_def cancelled_call_def cancel_recording_def
        split: if_splits prod.splits)+
  show ?thesis unfolding s' by (rule silenced_set_call[OF silent b]) (use t t' in blast)
qed

lemma silenced_map:
  assumes "silenced_at i s" and "cl_tasks s' = map g (enumerate 0 (cl_tasks s))"
    and "\<And>j t. silenced t \<Longrightarrow> silenced (g (j, t))"
  shows "silenced_at i s'"
  using assms by (simp add: silenced_at_def nth_enumerate_eq)

lemma silenced_leave: "silenced_at i s \<Longrightarrow> silenced_at i (leave_loop outcome s)"
  by (rule silenced_map[where s = s and g = "\<lambda>(i, t). if i \<in> ran (cl_calls s)
         then (case ct_token t of Some _ \<Rightarrow> t\<lparr>ct_token := Some True\<rparr> | None \<Rightarrow> t\<lparr>ct_aborting := True\<rparr>)
         else t"]) (auto simp: leave_loop_def silenced_def split: option.split)

lemma silenced_end: "silenced_at i s \<Longrightarrow> silenced_at i (end_loop ending s)"
  by (simp add: silenced_at_def end_loop_def)
    (auto simp: silenced_def lose_delivery_def quiet_phase_def split: call_phase.splits)

lemma silenced_close: "silenced_at i s \<Longrightarrow> silenced_at i (close_loop outcome s)"
  unfolding close_loop_def
  by (rule silenced_end, rule silenced_map[where s = s and g = "\<lambda>(i, t). if i \<in> ran (cl_calls s) \<and>
         \<not> call_finished t then t\<lparr>ct_aborting := True\<rparr> else t"]) (auto simp: silenced_def)

lemma silenced_tasks: "cl_tasks s' = cl_tasks s \<Longrightarrow> silenced_at i s' = silenced_at i s"
  by (simp add: silenced_at_def)

lemma silenced_more: "cl_tasks s' = cl_tasks s @ ts \<Longrightarrow> silenced_at i s \<Longrightarrow> silenced_at i s'"
  by (auto simp: silenced_at_def nth_append)

lemma silenced_invoke: "silenced_at i s \<Longrightarrow> silenced_at i (loop_invoke c u rt offset request p s)"
proof -
  have "\<exists>ts. cl_tasks (loop_invoke c u rt offset request p s) = cl_tasks s @ ts"
    by (auto simp: loop_invoke_def dispatch_preflight_failure_def spawn_call_def Let_def split: option.split)
  then show "silenced_at i s \<Longrightarrow> ?thesis" using silenced_more by blast
qed

lemma silenced_cancel: "silenced_at i s \<Longrightarrow> silenced_at i (loop_cancel request s)"
proof (cases "cl_calls s request")
  case (Some j)
  assume silent: "silenced_at i s"
  have t: "silenced (cl_tasks s ! j)" if "j = i" using silent that by (simp add: silenced_at_def)
  show ?thesis
    using Some t unfolding loop_cancel_def Let_def
    by (auto split: option.split intro!: silenced_set_call[OF silent] simp: silenced_def)
qed (simp add: loop_cancel_def)

lemma silenced_outbound:
  assumes silent: "silenced_at i s" and step: "loop_outbound c u network s = Some s'"
  shows "silenced_at i s'"
proof -
  have deliver: "silenced_at i (deliver waiting b s0)" if s0: "silenced_at i s0" for waiting b s0
  proof (cases waiting)
    case (Some j)
    show ?thesis
    proof (cases "j = i")
      case True
      then show ?thesis
        using s0 by (auto simp: deliver_def Some silenced_at_def silenced_def quiet_phase_def split: call_phase.splits)
    next
      case False
      then show ?thesis
        using s0 by (auto simp: deliver_def Some silenced_at_def split: call_phase.split)
    qed
  qed (use s0 in \<open>simp add: deliver_def\<close>)
  have popped: "silenced_at i (s\<lparr>cl_queue := q\<rparr>)" "silenced_at i (s\<lparr>cl_queue := q, cl_sent := sent\<rparr>)" for q sent
    using silent by (simp_all add: silenced_at_def)
  with step deliver silenced_end show ?thesis
    by (auto simp: loop_outbound_def Let_def split: list.splits prod.splits sum.splits)
qed

lemma silenced_monitor: "silenced_at i s \<Longrightarrow> silenced_at i (loop_monitor c u network batches s)"
proof (induction batches arbitrary: s)
  case (Cons b bs)
  have "silenced_at i (s\<lparr>cl_sent := cs\<rparr>)" for cs using Cons.prems by (simp add: silenced_at_def)
  with Cons.IH Cons.prems silenced_end show ?case by (auto split: sum.split)
qed simp

lemma silenced_incoming: "silenced_at i s \<Longrightarrow> silenced_at i (loop_incoming c u rt session_id frame offset network s)"
proof -
  assume silent: "silenced_at i s"
  then have more: "silenced_at i (s\<lparr>cl_invoked := xs\<rparr>)" "silenced_at i (s\<lparr>cl_sent := cs\<rparr>)"
    "silenced_at i (s\<lparr>cl_activity_ready := b\<rparr>)" for xs cs b
    by (simp_all add: silenced_at_def)
  show ?thesis
  proof (cases frame)
    case (Inr command)
    then show ?thesis
      using silent more silenced_invoke silenced_cancel silenced_leave silenced_end
      by (cases command) (auto simp: loop_incoming_def split: sum.split option.split)
  qed (use silent silenced_leave silenced_end in \<open>auto simp: loop_incoming_def\<close>)
qed

lemma silenced_loop_step:
  assumes silent: "silenced_at i s" and step: "loop_step c u rt session_id a s = Some s'"
  shows "silenced_at i s'"
proof -
  have reaped: "silenced_at i (reap_finished s)" using silent by (simp add: silenced_at_def reap_finished_def)
  show ?thesis
  proof (cases a)
    case (CallRuns j x)
    with step silenced_step[OF silent _ refl] show ?thesis by (auto split: if_splits)
  next
    case (ProviderEmits j event due offset fresh)
    then have j: "j < length (cl_tasks s)" and s': "s' = call_event event due offset fresh j (cl_tasks s ! j) s"
      using step by (auto split: if_splits)
    show ?thesis
    proof (cases "j = i")
      case True
      then have "cancelled_call (cl_tasks s ! j)" using silent by (simp add: silenced_at_def silenced_def cancelled_call_def)
      with silent show ?thesis by (simp add: s' call_event_def)
    next
      case False
      with silent show ?thesis by (auto simp: s' call_event_def Let_def silenced_at_def)
    qed
  next
    case (CallDies j)
    then have dies: "call_dies j (cl_tasks s ! j) s = Some s'" using step by (auto split: if_splits)
    then show ?thesis
    proof (cases "j = i")
      case True
      with silent dies show ?thesis
        by (auto simp: call_dies_def silenced_at_def silenced_def quiet_phase_def split: if_splits)
    next
      case False
      with silent dies show ?thesis by (auto simp: call_dies_def silenced_at_def split: if_splits)
    qed
  next
    case (SocketSends network)
    with step silenced_outbound[OF reaped] show ?thesis by (auto split: if_splits)
  next
    case (FrameArrives frame offset network)
    with step silenced_incoming[OF reaped] show ?thesis by (auto split: if_splits)
  next
    case (MonitorSends batches network)
    with step silenced_monitor[OF reaped] show ?thesis by (auto split: if_splits)
  next
    case ShutdownSignal
    with step silenced_leave[OF reaped] show ?thesis by (auto split: if_splits)
  next
    case DrainEnds
    with step silenced_close[OF silent] show ?thesis by (auto split: loop_state.splits)
  qed
qed

lemma silenced_run: "silenced_at i s \<Longrightarrow> silenced_at i (loop_run c u rt session_id actions s)"
proof (induction actions arbitrary: s)
  case (Cons a actions)
  have "silenced_at i (loop_act c u rt session_id a s)"
    using silenced_loop_step[OF Cons.prems] Cons.prems by (auto simp: loop_act_def split: option.split)
  from Cons.IH[OF this] show ?case by (simp add: loop_run_def)
qed (simp add: loop_run_def)

text \<open>C27: A call that is cancelled before its answer is chosen is never answered: whatever happens later, its task
  never reaches a phase in which it has, queues or delivers an answer, even if its provider returned a result.\<close>

theorem cancelled_call_never_answered:
  assumes "i < length (cl_tasks s)" and "ct_token (cl_tasks s ! i) = Some True"
    and "ct_phase (cl_tasks s ! i) = CallRunning \<or> ct_phase (cl_tasks s ! i) = CallReturned outcome"
  shows "quiet_phase (ct_phase (cl_tasks (loop_run c u rt session_id actions s) ! i)) \<and>
    ct_token (cl_tasks (loop_run c u rt session_id actions s) ! i) = Some True"
proof -
  have "silenced_at i s" using assms by (auto simp: silenced_at_def silenced_def quiet_phase_def)
  from silenced_run[OF this] show ?thesis by (simp add: silenced_at_def silenced_def)
qed

section \<open>Examples\<close>

definition sample_runtime :: "string list \<Rightarrow> gateway_runtime" where
  "sample_runtime providers = \<lparr>gr_providers = providers, gr_models = Map.empty, gr_routes = None\<rparr>"

definition sample_invoke :: invoke_params where
  "sample_invoke = \<lparr>invoke_channel_id = 1, invoke_endpoint_id = 1, invoke_profile_id = 2, invoke_binding_id = 3,
     invoke_agent_id = ''agent'', invoke_binding = JObject [], invoke_input = JNull, invoke_timeout_ms = 1000\<rparr>"

definition sample_actions :: "loop_action list" where
  "sample_actions = [FrameArrives (Inr (InvokeCommand 7 sample_invoke)) 0 (Inr ()),
     FrameArrives (Inr (InvokeCommand 8 sample_invoke)) 0 (Inr ())]"

abbreviation "sample_loop c u \<equiv> loop_run c u (sample_runtime [''local-llm'']) 5"

lemma sample_loop_runs:
  "cl_tasks (sample_loop c u sample_actions loop_start) =
     map (\<lambda>r. \<lparr>ct_request = r, ct_channel = 1, ct_token = Some False, ct_permit = True, ct_slot = False,
       ct_activity = False, ct_aborting = False,
       ct_recorder = set_root_input_summary (canonical_trace_io_summary c JNull)
         (call_recorder u (sample_runtime [''local-llm'']) sample_invoke),
       ct_phase = CallRunning\<rparr>) [7, 8]"
  "cl_state (sample_loop c u sample_actions loop_start) = Serving"
  "cl_calls (sample_loop c u sample_actions loop_start) = [7 \<mapsto> 0, 8 \<mapsto> 1]"
  by (auto simp: loop_run_def loop_act_def sample_actions_def loop_incoming_def loop_invoke_def loop_start_def
      reap_finished_def spawn_call_def MAX_CONCURRENT_CALLS_def call_provider_def resolve_provider_def
      selected_provider_key_def sample_runtime_def sample_invoke_def first_some_def filled_def json_get_def
      call_finished_def Let_def fun_eq_iff)

definition sample_outcome :: task_input where
  "sample_outcome = \<lparr>ti_outcome = ProviderOutput JNull, ti_offset = 3, ti_delivery_id = 9, ti_delivery_start = 4,
     ti_delivery_elapsed = 1\<rparr>"

abbreviation "sample_run \<equiv> sample_loop Trace_Io.sample_codec decimal_uuids"

lemma no_call_is_stuck_witness:
  "call_step Trace_Io.sample_codec sample_outcome 1 (cl_tasks (sample_run sample_actions loop_start) ! 1)
     (sample_run sample_actions loop_start) \<noteq> None"
proof -
  let ?s = "sample_run sample_actions loop_start"
  have "cl_queue ?s = []"
    by (simp add: loop_run_def loop_act_def sample_actions_def loop_incoming_def loop_invoke_def loop_start_def
      reap_finished_def spawn_call_def MAX_CONCURRENT_CALLS_def call_provider_def resolve_provider_def
      selected_provider_key_def sample_runtime_def sample_invoke_def first_some_def filled_def json_get_def
      call_finished_def Let_def)
  then show ?thesis
    using no_call_is_stuck[of ?s Trace_Io.sample_codec decimal_uuids "sample_runtime [''local-llm'']" 5
        sample_actions 1 sample_outcome]
    by (simp add: sample_loop_runs call_finished_def)
qed

lemma live_calls_distinct_witness:
  "cl_calls (sample_run sample_actions loop_start) 8 = Some 1 \<and> (1 :: nat) = 1"
proof -
  let ?s = "sample_run sample_actions loop_start"
  have "(1 :: nat) = 1"
    by (rule live_calls_distinct[of ?s Trace_Io.sample_codec decimal_uuids "sample_runtime [''local-llm'']" 5 sample_actions 1 1])
      (simp_all add: sample_loop_runs call_finished_def)
  then show ?thesis by (simp add: sample_loop_runs)
qed

lemma cancelled_call_never_answered_witness:
  "quiet_phase (ct_phase (cl_tasks (sample_run [CallRuns 0 sample_outcome, CallRuns 0 sample_outcome]
     (sample_run [FrameArrives (Inr (CancelCommand 7 1)) 0 (Inr ())]
       (sample_run sample_actions loop_start))) ! 0))"
proof -
  let ?s = "sample_run [FrameArrives (Inr (CancelCommand 7 1)) 0 (Inr ())]
    (sample_run sample_actions loop_start)"
  have tasks: "cl_tasks ?s = (cl_tasks (sample_run sample_actions loop_start))
      [0 := (cl_tasks (sample_run sample_actions loop_start) ! 0)\<lparr>ct_token := Some True\<rparr>]"
    using sample_loop_runs[of Trace_Io.sample_codec decimal_uuids]
    by (simp add: loop_run_def[of Trace_Io.sample_codec decimal_uuids _ _ 
          "[FrameArrives (Inr (CancelCommand 7 1)) 0 (Inr ())]"] loop_act_def loop_incoming_def loop_cancel_def
        reap_finished_def call_finished_def Let_def set_call_def)
  show ?thesis
    using cancelled_call_never_answered[of 0 ?s "ProviderOutput JNull" Trace_Io.sample_codec decimal_uuids "sample_runtime [''local-llm'']"
        5 "[CallRuns 0 sample_outcome, CallRuns 0 sample_outcome]"]
    by (simp add: tasks sample_loop_runs)
qed

section \<open>Connections that break\<close>

text \<open>A result whose text is too large for a frame fails when the loop sends it, and the error ends the
  whole connection, with every other call on it.\<close>

theorem oversized_output_ends_connection:
  assumes "cl_state s = Serving" and "cl_queue s = (ResultCommand request p, waiting) # rest"
    and "result_channel_id p \<noteq> 0" and "print_json c (result_output p) = Inr encoded"
    and "16 * 1024 * 1024 < length encoded"
  shows "cl_state (loop_act c u rt session_id (SocketSends (Inr ())) s) = Broken ''output is too large''"
proof -
  have "send_command c u (Inr ()) (ResultCommand request p) = Inl ''output is too large''"
    using assms(3-5) by (simp add: send_command_def to_gateway_frame_def validate_channel_def validate_json_def
        MAX_INVOCATION_BODY_BYTES_def ensure_def)
  then show ?thesis
    using assms(1,2) by (simp add: loop_act_def loop_outbound_def reap_finished_def Let_def end_loop_def)
qed

text \<open>A connection that breaks cancels nothing: unlike one that is left, its calls are neither cancelled
  nor aborted, whatever happens afterwards, and their providers run on.\<close>

lemma update_same: "(map f xs)[i := f (xs ! i)] = map f xs"
proof (cases "i < length xs")
  case True
  then show ?thesis by (metis list_update_id nth_map)
qed (simp add: list_update_beyond)

definition same_signals :: "call_loop \<Rightarrow> call_loop \<Rightarrow> bool" where
  "same_signals s s' \<longleftrightarrow> cl_state s' = cl_state s \<and> map ct_token (cl_tasks s') = map ct_token (cl_tasks s) \<and>
     map ct_aborting (cl_tasks s') = map ct_aborting (cl_tasks s)"

lemma same_signals_write:
  assumes "cl_tasks b = cl_tasks s" and "cl_state b = cl_state s"
    and "ct_token t' = ct_token (cl_tasks s ! i)" and "ct_aborting t' = ct_aborting (cl_tasks s ! i)"
  shows "same_signals s (set_call i t' b)"
  using assms by (simp add: same_signals_def map_update update_same)

lemma recording_signals [simp]:
  "ct_token (cancel_recording offset t) = ct_token t" "ct_aborting (cancel_recording offset t) = ct_aborting t"
  "ct_token (finish_recording c offset command terminal e v t) = ct_token t"
  "ct_aborting (finish_recording c offset command terminal e v t) = ct_aborting t"
  by (simp_all add: cancel_recording_def finish_recording_def Let_def split: prod.split)

lemma call_step_signals:
  "call_step c x i (cl_tasks s ! i) s = Some s' \<Longrightarrow> same_signals s s'"
  unfolding call_step_def
  by (cases "ct_phase (cl_tasks s ! i)")
    (auto split: if_splits prod.splits simp del: set_call_frame(1-3) intro!: same_signals_write)

lemma broken_step:
  assumes "cl_state s = Broken e" and "loop_step c u rt session_id a s = Some s'"
  shows "same_signals s s'"
proof (cases a)
  case (CallRuns i x)
  then show ?thesis using assms(2) call_step_signals by (auto split: if_splits)
next
  case (ProviderEmits i event due offset fresh)
  then have "s' = call_event event due offset fresh i (cl_tasks s ! i) s"
    using assms(2) by (auto split: if_splits)
  then show ?thesis
    by (auto simp: call_event_def Let_def same_signals_def map_update update_same)
next
  case (CallDies i)
  then have "call_dies i (cl_tasks s ! i) s = Some s'" using assms(2) by (auto split: if_splits)
  then show ?thesis
    by (auto simp: call_dies_def simp del: set_call_frame(1-3) split: if_splits intro!: same_signals_write)
qed (use assms in simp_all)

theorem broken_connection_cancels_nothing:
  assumes "cl_state s = Broken e"
  shows "map ct_token (cl_tasks (loop_run c u rt session_id actions s)) = map ct_token (cl_tasks s) \<and>
    map ct_aborting (cl_tasks (loop_run c u rt session_id actions s)) = map ct_aborting (cl_tasks s)"
  using assms
proof (induction actions arbitrary: s)
  case (Cons a actions)
  have "cl_state (loop_act c u rt session_id a s) = Broken e \<and>
      map ct_token (cl_tasks (loop_act c u rt session_id a s)) = map ct_token (cl_tasks s) \<and>
      map ct_aborting (cl_tasks (loop_act c u rt session_id a s)) = map ct_aborting (cl_tasks s)"
    using broken_step[OF Cons.prems] Cons.prems by (auto simp: loop_act_def same_signals_def split: option.split)
  with Cons.IH[of "loop_act c u rt session_id a s"] show ?case by (simp add: loop_run_def)
qed (simp add: loop_run_def)

text \<open>A rejected invocation that is cancelled while its rejection is delivered leaves no record: its task is
  aborted, and no telemetry is offered for it.\<close>

theorem cancelled_rejection_leaves_no_record:
  "let s = loop_run c u (sample_runtime []) 5
       [FrameArrives (Inr (InvokeCommand 7 sample_invoke)) 0 (Inr ()),
        FrameArrives (Inr (CancelCommand 7 1)) 0 (Inr ()), CallDies 0] loop_start in
     cl_invoked s = [7] \<and> cl_offers s = [] \<and> answers 7 s = 0 \<and> ct_phase (cl_tasks s ! 0) = CallDied"
  by (simp add: loop_run_def loop_act_def loop_incoming_def loop_invoke_def loop_cancel_def loop_start_def
      reap_finished_def spawn_call_def MAX_CONCURRENT_CALLS_def call_provider_def resolve_provider_def
      selected_provider_key_def sample_runtime_def sample_invoke_def first_some_def filled_def json_get_def
      call_finished_def Let_def call_dies_def at_await_def answers_def)

end
