(* ===== verification/Runtime_Sync.thy ===== *)
theory Runtime_Sync
  imports Releases Sqlite_Store Btree
begin

text \<open>
  How a gateway brings its runtime in line with the server (\<open>sync_runtime_state\<close> of
  \<open>crates/vifu-gateway/src/relay.rs\<close> and the calls it makes in \<open>control.rs\<close>): the release of every
  deployment is stored, installed into the embedded runtime under a local version, activated and reported,
  and the traces of the outbox are uploaded. The HTTP server is a parameter that answers each request from all
  requests so far. The embedded runtime keeps a SQLite store, and \<open>sw_shared\<close> says whether it is the
  gateway's own database, as it is in the hosts that open both on one path.
\<close>

section \<open>Configuration\<close>

record deployment_policies =
  dp_config_sync :: bool
  dp_trace_mode :: string
  dp_remote_invocation :: bool

record deployment_configuration =
  dc_deployment_id :: uuid
  dc_deployment :: string
  dc_project_id :: uuid
  dc_app_id :: string
  dc_project_slug :: string
  dc_project_name :: string
  dc_project_claimed :: bool
  dc_is_primary :: bool
  dc_binding_ids :: "uuid list"
  dc_policies :: deployment_policies
  dc_release :: "runtime_release option"

record gateway_configuration =
  gc_gateway_id :: string
  gc_deployments :: "deployment_configuration list"

abbreviation display :: "'a rt \<Rightarrow> (string, 'a) result" where
  "display r \<equiv> map_sum RuntimeError_display id r"

section \<open>Manifests of the embedded runtime\<close>

definition manifest_for_project :: "codec \<Rightarrow> runtime_manifest \<Rightarrow> string \<Rightarrow> (string, runtime_manifest) result" where
  "manifest_for_project k manifest project_id =
     (let mapped = manifest\<lparr>manifest_project_id := project_id\<rparr>
      in and_then (display (RuntimeManifest_validate k mapped)) (\<lambda>_. Inr mapped))"

definition merged_agent_metadata :: "json \<Rightarrow> json \<Rightarrow> json" where
  "merged_agent_metadata source remote =
     (case (source, remote) of
        (JObject source, JObject remote) \<Rightarrow> JObject (fold (\<lambda>(k, v). bt_insert k v) remote source)
      | _ \<Rightarrow> remote)"

text \<open>\<open>iter_mut().find(..)\<close> changes the first match; otherwise the value is pushed.\<close>

fun change_or_push :: "('a \<Rightarrow> bool) \<Rightarrow> ('a \<Rightarrow> 'a) \<Rightarrow> 'a \<Rightarrow> 'a list \<Rightarrow> 'a list" where
  "change_or_push P f new [] = [new]"
| "change_or_push P f new (x # xs) = (if P x then f x # xs else x # change_or_push P f new xs)"

definition python_provider_ids :: "runtime_manifest \<Rightarrow> string list" where
  "python_provider_ids source =
     map requirement_id (filter (\<lambda>p. requirement_type p = ''python'') (manifest_providers source))"

definition python_agent_ids :: "runtime_manifest \<Rightarrow> string list" where
  "python_agent_ids source =
     map agent_id (filter (\<lambda>a. agent_provider a \<in> set (python_provider_ids source)) (manifest_agents source))"

definition keep_provider :: "provider_requirement \<Rightarrow> provider_requirement list \<Rightarrow> provider_requirement list" where
  "keep_provider p = change_or_push (\<lambda>old. requirement_id old = requirement_id p) (\<lambda>_. p) p"

definition overlay_agent :: "agent_definition \<Rightarrow> agent_definition \<Rightarrow> agent_definition" where
  "overlay_agent source remote = remote\<lparr>agent_provider := agent_provider source,
     agent_capabilities := agent_capabilities source,
     agent_metadata := merged_agent_metadata (agent_metadata source) (agent_metadata remote)\<rparr>"

definition keep_agent :: "agent_definition \<Rightarrow> agent_definition list \<Rightarrow> agent_definition list" where
  "keep_agent a = change_or_push (\<lambda>old. agent_id old = agent_id a) (overlay_agent a) a"

definition preserve_embedded_python_agents :: "runtime_manifest \<Rightarrow> runtime_manifest \<Rightarrow> runtime_manifest" where
  "preserve_embedded_python_agents remote source =
     (let providers = python_provider_ids source;
          agents = python_agent_ids source;
          kept = fold keep_provider
            (filter (\<lambda>p. requirement_id p \<in> set providers) (manifest_providers source)) (manifest_providers remote);
          displaced = map agent_provider (filter (\<lambda>a. agent_id a \<in> set agents) (manifest_agents remote));
          merged = fold keep_agent
            (filter (\<lambda>a. agent_id a \<in> set agents) (manifest_agents source)) (manifest_agents remote);
          endpoints = filter (\<lambda>e. endpoint_agent e \<notin> set agents) (manifest_endpoints remote) @
            filter (\<lambda>e. endpoint_agent e \<in> set agents) (manifest_endpoints source)
      in if providers = [] then remote
         else remote\<lparr>manifest_providers := filter (\<lambda>p. requirement_id p \<notin> set displaced \<or>
                  list_ex (\<lambda>a. agent_provider a = requirement_id p) merged) kept,
                manifest_agents := merged, manifest_endpoints := endpoints\<rparr>)"

definition embedded_manifest ::
    "codec \<Rightarrow> runtime_release \<Rightarrow> string \<Rightarrow> runtime_manifest option \<Rightarrow> (string, runtime_manifest) result" where
  "embedded_manifest k remote project_id source =
     and_then (manifest_for_project k (release_manifest remote) project_id) (\<lambda>manifest.
     case source of
       None \<Rightarrow> Inr manifest
     | Some source \<Rightarrow>
         let manifest = preserve_embedded_python_agents manifest source
         in and_then (display (RuntimeManifest_validate k manifest)) (\<lambda>_. Inr manifest))"

definition local_version :: "runtime_release \<Rightarrow> runtime_release list \<Rightarrow> (string, u64) result" where
  "local_version remote installed =
     (if list_ex (\<lambda>r. release_version r = release_version remote) installed
      then let newest = Max (set (map release_version installed))
           in if newest = u64_max then Inl ''embedded runtime release version is exhausted''
              else Inr (newest + 1)
      else Inr (release_version remote))"

definition local_embedded_release ::
    "codec \<Rightarrow> runtime_release \<Rightarrow> string \<Rightarrow> runtime_release list \<Rightarrow> runtime_manifest option \<Rightarrow>
     (string, runtime_release) result" where
  "local_embedded_release k remote project_id installed source =
     and_then (embedded_manifest k remote project_id source) (\<lambda>manifest.
     and_then (display (RuntimeRelease_new k (release_version remote) manifest)) (\<lambda>candidate.
     case find (\<lambda>r. release_content_hash r = release_content_hash candidate) installed of
       Some existing \<Rightarrow> Inr existing
     | None \<Rightarrow> and_then (local_version remote installed) (\<lambda>version.
         display (RuntimeRelease_new k version manifest))))"

section \<open>Deployments\<close>

definition only_other_deployment :: "deployment_configuration list \<Rightarrow> uuid \<Rightarrow> deployment_configuration option" where
  "only_other_deployment deployments guest =
     (case filter (\<lambda>d. dc_deployment_id d \<noteq> guest) deployments of [d] \<Rightarrow> Some d | _ \<Rightarrow> None)"

definition select_embedded_deployment ::
    "deployment_configuration list \<Rightarrow> string \<Rightarrow> string option \<Rightarrow> uuid option \<Rightarrow> deployment_configuration option" where
  "select_embedded_deployment deployments project_id app_id guest =
     (case find (\<lambda>d. project_id = dc_project_slug d) deployments of
        Some d \<Rightarrow> Some d
      | None \<Rightarrow>
     (case Option.bind app_id (\<lambda>app. find (\<lambda>d. dc_app_id d = app) deployments) of
        Some d \<Rightarrow> Some d
      | None \<Rightarrow>
     (case Option.bind guest (only_other_deployment deployments) of
        Some d \<Rightarrow> Some d
      | None \<Rightarrow> if length deployments = 1 then Some (hd deployments) else None)))"

definition runtime_trace_for_deployment ::
    "runtime_trace_record \<Rightarrow> uuid \<Rightarrow> string \<Rightarrow> (string \<times> uuid \<times> string) option \<Rightarrow> runtime_trace_record option" where
  "runtime_trace_for_deployment trace deployment_id slug target =
     (if trace_project_id trace = slug then Some trace
      else case target of
        None \<Rightarrow> None
      | Some (embedded_project, embedded_deployment, embedded_slug) \<Rightarrow>
          if trace_project_id trace \<noteq> embedded_project \<or> deployment_id \<noteq> embedded_deployment then None
          else Some (trace\<lparr>trace_project_id := embedded_slug\<rparr>))"

section \<open>The server and the world of a gateway\<close>

text \<open>
  A reply may depend on every request sent so far, the one it answers last. A failed request, a refused one
  and one whose answer does not decode are an \<open>Inl\<close>; the report of an applied release has a case of its own for
  the status 404 of a server that does not know the route.
\<close>

datatype control_request =
    BootstrapRelease uuid runtime_manifest
  | ReportApplied uuid u64 string
  | UploadTraces uuid "runtime_trace_record list"

datatype applied_reply = AppliedNotFound | AppliedDecoded "(string, json) result"

record control_server =
  cs_configuration :: "(string, gateway_configuration) result"
  cs_bootstrap :: "control_request list \<Rightarrow> (string, runtime_release) result"
  cs_applied :: "control_request list \<Rightarrow> applied_reply"
  cs_upload :: "control_request list \<Rightarrow> (string, string list) result"

record sync_world =
  sw_database :: sqlite_store
  sw_embedded :: "sqlite_store runtime_core option"
  sw_shared :: bool
  sw_monitor :: "(uuid \<times> string) option option"
  sw_requests :: "control_request list"

type_synonym 'a sync = "sync_world \<Rightarrow> (string, 'a) result \<times> sync_world"

definition sync_lift :: "(string, 'a) result \<Rightarrow> 'a sync" where
  "sync_lift r w = (r, w)"

definition sync_bind :: "'a sync \<Rightarrow> ('a \<Rightarrow> 'b sync) \<Rightarrow> 'b sync" where
  "sync_bind m f w = (case m w of (Inl e, w') \<Rightarrow> (Inl e, w') | (Inr x, w') \<Rightarrow> f x w')"

fun sync_each :: "('a \<Rightarrow> unit sync) \<Rightarrow> 'a list \<Rightarrow> unit sync" where
  "sync_each f [] = sync_lift (Inr ())"
| "sync_each f (x # xs) = sync_bind (f x) (\<lambda>_. sync_each f xs)"

definition sync_request :: "control_request \<Rightarrow> (control_request list \<Rightarrow> (string, 'a) result) \<Rightarrow> 'a sync" where
  "sync_request request reply w =
     (let sent = sw_requests w @ [request] in (reply sent, w\<lparr>sw_requests := sent\<rparr>))"

definition database_write :: "(sqlite_store \<Rightarrow> sqlite_store rt) \<Rightarrow> unit sync" where
  "database_write f w =
     (case f (sw_database w) of
        Inl e \<Rightarrow> (Inl (RuntimeError_display e), w) | Inr s \<Rightarrow> (Inr (), w\<lparr>sw_database := s\<rparr>))"

definition database_read :: "(sqlite_store \<Rightarrow> 'a rt) \<Rightarrow> 'a sync" where
  "database_read f w = (display (f (sw_database w)), w)"

text \<open>An operation of the embedded runtime sees the gateway's database when the two share it.\<close>

definition embedded_view :: "sync_world \<Rightarrow> sqlite_store runtime_core \<Rightarrow> sqlite_store runtime_core" where
  "embedded_view w c = (if sw_shared w then c\<lparr>core_store := sw_database w\<rparr> else c)"

definition in_embedded ::
    "sqlite_store runtime_core \<Rightarrow> (sqlite_store runtime_core, 'a) action \<Rightarrow> 'a sync" where
  "in_embedded c op w =
     (let (r, c') = op (embedded_view w c)
      in (display r, w\<lparr>sw_embedded := Some c',
           sw_database := if sw_shared w then core_store c' else sw_database w\<rparr>))"

definition embedded_call :: "(sqlite_store runtime_core, 'a) action \<Rightarrow> 'a \<Rightarrow> 'a sync" where
  "embedded_call op absent w =
     (case sw_embedded w of None \<Rightarrow> (Inr absent, w) | Some c \<Rightarrow> in_embedded c op w)"

section \<open>Requests\<close>

definition bootstrap_runtime_release ::
    "codec \<Rightarrow> control_server \<Rightarrow> uuid \<Rightarrow> runtime_manifest \<Rightarrow> runtime_release sync" where
  "bootstrap_runtime_release k server deployment_id manifest =
     sync_bind (sync_lift (display (RuntimeManifest_validate k manifest))) (\<lambda>_.
     sync_bind (sync_request (BootstrapRelease deployment_id manifest) (cs_bootstrap server)) (\<lambda>release.
     sync_bind (sync_lift (display (RuntimeRelease_validate k release))) (\<lambda>_.
     sync_lift (Inr release))))"

definition report_release_applied :: "control_server \<Rightarrow> uuid \<Rightarrow> runtime_release \<Rightarrow> unit sync" where
  "report_release_applied server deployment_id release =
     sync_request (ReportApplied deployment_id (release_version release) (release_content_hash release))
       (\<lambda>sent. case cs_applied server sent of
          AppliedNotFound \<Rightarrow> Inr () | AppliedDecoded r \<Rightarrow> and_then r (\<lambda>_. Inr ()))"

definition upload_traces :: "control_server \<Rightarrow> uuid \<Rightarrow> runtime_trace_record list \<Rightarrow> string list sync" where
  "upload_traces server deployment_id traces =
     sync_bind (sync_lift (ensure (traces \<noteq> [] \<and> length traces \<le> 100)
       ''runtime trace batches must contain between 1 and 100 records'')) (\<lambda>_.
     sync_bind (sync_lift (for_each (\<lambda>t. display (RuntimeTraceRecord_validate t)) traces)) (\<lambda>_.
     sync_request (UploadTraces deployment_id traces) (cs_upload server)))"

section \<open>Synchronisation\<close>

record sync_settings =
  ss_rows :: row_texts
  ss_server :: control_server
  ss_enrollment_token :: "string option"
  ss_guest_deployment :: "uuid option"
  ss_authorized_gateway :: "(string, string) result"

abbreviation sync_codec :: "sync_settings \<Rightarrow> codec" where "sync_codec x \<equiv> manifest_codec (ss_rows x)"

text \<open>\<open>here\<close> is the project of the embedded runtime if the deployment is the one selected for it. A deployment
  without a release gets one made from the manifest of the embedded runtime.\<close>

definition deployment_release ::
    "sync_settings \<Rightarrow> string option \<Rightarrow> deployment_configuration \<Rightarrow> runtime_release option sync" where
  "deployment_release x here d =
     (if dc_release d \<noteq> None \<or> here = None then sync_lift (Inr (dc_release d))
      else sync_bind (embedded_call current_manifest None) (\<lambda>current.
      case current of
        None \<Rightarrow> sync_lift (Inr None)
      | Some manifest \<Rightarrow>
          sync_bind (sync_lift (manifest_for_project (sync_codec x) manifest (dc_project_slug d))) (\<lambda>manifest.
          sync_bind (bootstrap_runtime_release (sync_codec x) (ss_server x) (dc_deployment_id d) manifest)
            (\<lambda>release. sync_lift (Inr (Some release))))))"

abbreviation sync_ops :: "sync_settings \<Rightarrow> sqlite_store store_ops" where
  "sync_ops x \<equiv> sqlite_store_ops (ss_rows x)"

definition install_embedded :: "sync_settings \<Rightarrow> string \<Rightarrow> runtime_release \<Rightarrow> unit sync" where
  "install_embedded x project_id release =
     sync_bind (embedded_call (releases (sync_ops x)) []) (\<lambda>installed.
     sync_bind (embedded_call current_manifest None) (\<lambda>source.
     sync_bind (sync_lift (local_embedded_release (sync_codec x) release project_id installed source)) (\<lambda>local.
     sync_bind (embedded_call (install_release (sync_codec x) (sync_ops x) local) ()) (\<lambda>_.
     sync_bind (embedded_call (activate_release (sync_codec x) (sync_ops x) (release_version local)) local)
       (\<lambda>_. sync_lift (Inr ()))))))"

definition sync_release :: "sync_settings \<Rightarrow> string option \<Rightarrow> deployment_configuration \<Rightarrow> unit sync" where
  "sync_release x here d =
     (if \<not> dp_config_sync (dc_policies d) then sync_lift (Inr ())
      else sync_bind (deployment_release x here d) (\<lambda>release.
      case release of
        None \<Rightarrow> sync_lift (Inr ())
      | Some release \<Rightarrow>
          sync_bind (sync_lift (display (RuntimeRelease_validate (sync_codec x) release))) (\<lambda>_.
          sync_bind (database_write (\<lambda>s. sqlite_save_release (ss_rows x) s release)) (\<lambda>_.
          sync_bind (case here of
              None \<Rightarrow> sync_lift (Inr ()) | Some project_id \<Rightarrow> install_embedded x project_id release) (\<lambda>_.
          sync_bind (database_write
              (\<lambda>s. sqlite_set_active_release s (dc_project_slug d) (release_version release))) (\<lambda>_.
          report_release_applied (ss_server x) (dc_deployment_id d) release))))))"

text \<open>\<open>chunks\<close> of a slice.\<close>

function chunks :: "nat \<Rightarrow> 'a list \<Rightarrow> 'a list list" where
  "chunks n xs = (if xs = [] \<or> n = 0 then [] else take n xs # chunks n (drop n xs))"
  by pat_completeness auto
termination by (relation "measure (\<lambda>(n, xs). length xs)") auto

declare chunks.simps [simp del]

definition upload_batch ::
    "sync_settings \<Rightarrow> deployment_configuration \<Rightarrow> runtime_trace_record list \<Rightarrow> unit sync" where
  "upload_batch x d batch =
     sync_bind (upload_traces (ss_server x) (dc_deployment_id d) batch) (\<lambda>ids.
     database_write (\<lambda>s. sqlite_acknowledge_traces s ids))"

definition sync_traces ::
    "sync_settings \<Rightarrow> (string \<times> uuid \<times> string) option \<Rightarrow> deployment_configuration \<Rightarrow> unit sync" where
  "sync_traces x target d =
     (if dp_trace_mode (dc_policies d) = ''off'' then sync_lift (Inr ())
      else sync_bind (database_read (\<lambda>s. sqlite_pending_traces (ss_rows x) s 1000)) (\<lambda>pending.
      sync_each (upload_batch x d) (chunks 100 (List.map_filter
        (\<lambda>t. runtime_trace_for_deployment t (dc_deployment_id d) (dc_project_slug d) target) pending))))"

definition requested_app :: "sync_settings \<Rightarrow> string option" where
  "requested_app x = (case ss_enrollment_token x of
     Some token \<Rightarrow> if starts_with token ''vifu_app_'' then Some token else None | None \<Rightarrow> None)"

definition embedded_deployment :: "sync_settings \<Rightarrow> deployment_configuration list \<Rightarrow> string option \<Rightarrow>
    deployment_configuration option" where
  "embedded_deployment x deployments project_id = Option.bind project_id (\<lambda>p.
     select_embedded_deployment deployments p (requested_app x) (ss_guest_deployment x))"

definition sync_deployments :: "sync_settings \<Rightarrow> deployment_configuration list \<Rightarrow> string option \<Rightarrow> unit sync" where
  "sync_deployments x deployments project_id =
     (let selected = embedded_deployment x deployments project_id;
          target = Option.bind selected (\<lambda>d. map_option (\<lambda>p. (p, dc_deployment_id d, dc_project_slug d)) project_id)
      in sync_each (\<lambda>d.
           let here = (if map_option dc_deployment_id selected = Some (dc_deployment_id d) then project_id else None)
           in sync_bind (sync_release x here d) (\<lambda>_. sync_traces x target d)) deployments)"

definition set_monitor :: "deployment_configuration option \<Rightarrow> unit sync" where
  "set_monitor selected w = (Inr (), case (selected, sw_monitor w) of
     (Some d, Some _) \<Rightarrow> w\<lparr>sw_monitor := Some (Some (dc_deployment_id d, dc_project_slug d))\<rparr> | _ \<Rightarrow> w)"

definition sync_runtime_state :: "sync_settings \<Rightarrow> unit sync" where
  "sync_runtime_state x w =
     (let project_id = map_option core_project_id (sw_embedded w)
      in sync_bind (sync_lift (cs_configuration (ss_server x))) (\<lambda>configuration.
         sync_bind (sync_lift (ss_authorized_gateway x)) (\<lambda>gateway.
         sync_bind (sync_lift (ensure (gc_gateway_id configuration = gateway)
           ''server returned configuration for another Agent Gateway'')) (\<lambda>_.
         let deployments = gc_deployments configuration;
             selected = embedded_deployment x deployments project_id
         in sync_bind (sync_lift (ensure (\<not> (project_id \<noteq> None \<and> 1 < length deployments \<and> selected = None))
              ''the embedded runtime is assigned to multiple Apps; pair it with one App again'')) (\<lambda>_.
            sync_bind (set_monitor selected) (\<lambda>_. sync_deployments x deployments project_id))))) w)"

section \<open>Rows and listed releases\<close>

lemma collect_results_map: "collect_results (map f xs) = Inr ys \<Longrightarrow> set ys = {y. \<exists>x \<in> set xs. f x = Inr y}"
  by (induction xs arbitrary: ys) (auto simp: and_then_eq_Inr)

lemma listed_releases:
  assumes "sqlite_list_releases x s p = Inr installed"
  shows "r \<in> set installed \<longleftrightarrow>
    (\<exists>row \<in> set (sq_releases s). row_project row = p \<and> release_from_row x row = Inr r)"
  using collect_results_map[OF assms[unfolded sqlite_list_releases_def]] by auto

lemma release_from_row_fields:
  "release_row_ok x row \<Longrightarrow> release_from_row x row = Inr r \<Longrightarrow>
    uint (release_version r) = row_version row \<and> release_content_hash r = row_content_hash row"
  by (auto simp: release_row_ok_def release_from_row_def and_then_eq_Inr try_u64_def uint_word_of_int
      split: if_splits intro!: mod_pos_pos_trivial)

text \<open>A listed release is loaded by its version.\<close>

lemma listed_release_loads:
  assumes inv: "sqlite_inv x s" and list: "sqlite_list_releases x s p = Inr installed" and "r \<in> set installed"
  shows "sqlite_load_release x s p (release_version r) = Inr (Some r)"
    and "RuntimeRelease_validate (manifest_codec x) r = Inr ()" and "manifest_project_id (release_manifest r) = p"
    and "uint (release_version r) < 2 ^ 63"
proof -
  from assms(3) obtain row where row: "row \<in> set (sq_releases s)" "row_project row = p"
    "release_from_row x row = Inr r" by (auto simp: listed_releases[OF list])
  from inv row(1) have "release_row_ok x row" by (simp add: sqlite_inv_def)
  note fields = release_from_row_fields[OF this row(3)]
  then obtain row' where row': "find_release s p (uint (release_version r)) = Some row'"
    using find_release_None[of s p "uint (release_version r)"] row by (force simp: release_row_key_def)
  with find_release_Some[OF row'] fields row inv have "row' = row"
    by (auto simp: sqlite_inv_def release_row_key_def distinct_map inj_on_def)
  with row row' show "sqlite_load_release x s p (release_version r) = Inr (Some r)"
    by (auto simp: sqlite_load_release_row[OF inv])
  from inv row(1,3) fields row(2) show "RuntimeRelease_validate (manifest_codec x) r = Inr ()"
    "manifest_project_id (release_manifest r) = p" "uint (release_version r) < 2 ^ 63"
    by (auto simp: sqlite_inv_def release_row_ok_def)
qed


section \<open>The local release\<close>

lemma display_Inr [simp]: "display r = Inr v \<longleftrightarrow> r = Inr v"
  by (cases r) auto

lemma manifest_for_project_Inr:
  "manifest_for_project k m p = Inr m' \<longleftrightarrow>
     m' = m\<lparr>manifest_project_id := p\<rparr> \<and> valid_manifest k m'"
  by (auto simp: manifest_for_project_def Let_def and_then_eq_Inr RuntimeManifest_validate_iff)

lemma preserve_project [simp]:
  "manifest_project_id (preserve_embedded_python_agents remote source) = manifest_project_id remote"
  by (simp add: preserve_embedded_python_agents_def Let_def)







section \<open>Operations of the embedded runtime\<close>

definition run_world :: "sync_world \<Rightarrow> sqlite_store runtime_core \<Rightarrow> sync_world" where
  "run_world w c = w\<lparr>sw_embedded := Some c,
     sw_database := if sw_shared w then core_store c else sw_database w\<rparr>"

lemma run_world_simps [simp]:
  "sw_embedded (run_world w c) = Some c" "embedded_view (run_world w c) c = c"
  "run_world (run_world w c) c' = run_world w c'" "sw_requests (run_world w c) = sw_requests w"
  "sw_shared (run_world w c) = sw_shared w" "sw_monitor (run_world w c) = sw_monitor w"
  by (simp_all add: run_world_def embedded_view_def)

lemma embedded_call_runs:
  "sw_embedded w = Some c \<Longrightarrow> op (embedded_view w c) = (r, c') \<Longrightarrow>
     embedded_call op absent w = (display r, run_world w c')"
  by (simp add: embedded_call_def in_embedded_def run_world_def)

lemma embedded_view_simps [simp]:
  "core_project_id (embedded_view w c) = core_project_id c"
  "core_providers (embedded_view w c) = core_providers c"
  "core_manifest (embedded_view w c) = core_manifest c"
  by (simp_all add: embedded_view_def)

lemma sync_bind_Inr: "m w = (Inr v, w') \<Longrightarrow> sync_bind m f w = f v w'"
  by (simp add: sync_bind_def)

lemma sync_bind_Inl: "m w = (Inl e, w') \<Longrightarrow> sync_bind m f w = (Inl e, w')"
  by (simp add: sync_bind_def)

lemma sync_bind_lift [simp]: "sync_bind (sync_lift (Inr v)) f w = f v w" "sync_bind (sync_lift (Inl e)) f w = (Inl e, w)"
  by (simp_all add: sync_bind_def sync_lift_def)

lemma sqlite_lists [simp]: "so_list_releases (sqlite_store_ops x) = sqlite_list_releases x"
  by (simp add: sqlite_store_ops_def)



section \<open>What is kept of a source manifest\<close>

text \<open>Changing or pushing one value per key, as one pass over the old list.\<close>

definition overlay :: "('a \<Rightarrow> 'k) \<Rightarrow> ('a \<Rightarrow> 'a \<Rightarrow> 'a) \<Rightarrow> 'a list \<Rightarrow> 'a \<Rightarrow> 'a" where
  "overlay key f xs b = (case find (\<lambda>a. key a = key b) xs of Some a \<Rightarrow> f a b | None \<Rightarrow> b)"

lemma overlay_Nil [simp]: "map (overlay key f []) ys = ys"
  by (auto simp: overlay_def intro: map_idI)

lemma change_or_push_eq:
  assumes "distinct (map key ys)"
  shows "change_or_push (\<lambda>old. key old = key a) (f a) a ys =
    (if key a \<in> key ` set ys then map (\<lambda>b. if key b = key a then f a b else b) ys else ys @ [a])"
  using assms by (induction ys) (auto intro!: map_idI[symmetric] simp: image_iff)

lemma fold_change_or_push:
  assumes "distinct (map key xs)" and "distinct (map key ys)" and key: "\<And>a b. key a = key b \<Longrightarrow> key (f a b) = key b"
  shows "fold (\<lambda>a. change_or_push (\<lambda>old. key old = key a) (f a) a) xs ys =
    map (overlay key f xs) ys @ filter (\<lambda>a. key a \<notin> key ` set ys) xs"
  using assms(1,2)
proof (induction xs arbitrary: ys)
  case Nil
  then show ?case by (simp add: overlay_def)
next
  case (Cons a xs)
  have absent: "find (\<lambda>c. key c = key a) xs = None" using Cons.prems(1) by (simp add: find_None_iff) (metis image_eqI)
  let ?ys = "change_or_push (\<lambda>old. key old = key a) (f a) a ys"
  have keys: "map key ?ys = (if key a \<in> key ` set ys then map key ys else map key ys @ [key a])"
    using Cons.prems(2) by (auto simp: change_or_push_eq key)
  have "distinct (map key ?ys)"
    using Cons.prems(2) unfolding keys by auto
  from Cons.IH[OF _ this] Cons.prems have step: "fold (\<lambda>a. change_or_push (\<lambda>old. key old = key a) (f a) a) (a # xs) ys =
      map (overlay key f xs) ?ys @ filter (\<lambda>c. key c \<notin> key ` set ?ys) xs" by simp
  have set: "key ` set ?ys = insert (key a) (key ` set ys)"
    using arg_cong[OF keys, of set] by (auto split: if_splits)
  have new: "filter (\<lambda>c. key c \<notin> insert (key a) (key ` set ys)) xs = filter (\<lambda>c. key c \<notin> key ` set ys) xs"
    using Cons.prems(1) by (auto intro!: filter_cong) (metis image_eqI)
  have over: "overlay key f xs (if key b = key a then f a b else b) = overlay key f (a # xs) b" for b
    using absent by (auto simp: overlay_def key)
  show ?case
  proof (cases "key a \<in> key ` set ys")
    case True
    with Cons.prems(2) have "map (overlay key f xs) ?ys = map (overlay key f (a # xs)) ys"
      by (simp add: change_or_push_eq over)
    with True step set new show ?thesis by simp
  next
    case False
    have "overlay key f (a # xs) b = overlay key f xs b" if "b \<in> set ys" for b
      using that False by (auto simp: overlay_def)
    moreover have "overlay key f xs a = a" using absent by (simp add: overlay_def)
    ultimately show ?thesis using False Cons.prems(2) step set new by (simp add: change_or_push_eq)
  qed
qed

definition python_providers :: "runtime_manifest \<Rightarrow> provider_requirement list" where
  "python_providers m = filter (\<lambda>p. requirement_type p = ''python'') (manifest_providers m)"

definition python_agents :: "runtime_manifest \<Rightarrow> agent_definition list" where
  "python_agents m = filter (\<lambda>a. agent_provider a \<in> requirement_id ` set (python_providers m)) (manifest_agents m)"

definition unique_ids :: "runtime_manifest \<Rightarrow> bool" where
  "unique_ids m \<longleftrightarrow> distinct (map requirement_id (manifest_providers m)) \<and> distinct (map agent_id (manifest_agents m))"

lemma valid_unique_ids: "valid_manifest k m \<Longrightarrow> unique_ids m"
  by (simp add: valid_manifest_def unique_ids_def)

lemma same_key_filter:
  assumes "distinct (map key xs)" shows "filter (\<lambda>x. key x \<in> key ` set (filter P xs)) xs = filter P xs"
  using assms by (auto simp: distinct_map inj_on_def intro!: filter_cong)

lemma distinct_map_filtered: "distinct (map key xs) \<Longrightarrow> distinct (map key (filter P xs))"
  by (simp add: distinct_map_filter)

lemma preserve_eq:
  assumes "unique_ids remote" and "unique_ids source"
  defines "agents \<equiv> agent_id ` set (python_agents source)"
  defines "merged \<equiv> map (overlay agent_id overlay_agent (python_agents source)) (manifest_agents remote) @
    filter (\<lambda>a. agent_id a \<notin> agent_id ` set (manifest_agents remote)) (python_agents source)"
  shows "preserve_embedded_python_agents remote source = remote\<lparr>
    manifest_providers := filter (\<lambda>p.
        requirement_id p \<notin> agent_provider ` {a \<in> set (manifest_agents remote). agent_id a \<in> agents} \<or>
        (\<exists>a \<in> set merged. agent_provider a = requirement_id p))
      (map (overlay requirement_id (\<lambda>p _. p) (python_providers source)) (manifest_providers remote) @
       filter (\<lambda>p. requirement_id p \<notin> requirement_id ` set (manifest_providers remote)) (python_providers source)),
    manifest_agents := merged,
    manifest_endpoints := filter (\<lambda>e. endpoint_agent e \<notin> agents) (manifest_endpoints remote) @
      filter (\<lambda>e. endpoint_agent e \<in> agents) (manifest_endpoints source)\<rparr>"
proof -
  have ids: "set (python_provider_ids source) = requirement_id ` set (python_providers source)"
    by (auto simp: python_provider_ids_def python_providers_def)
  have agents: "set (python_agent_ids source) = agents"
    by (auto simp: python_agent_ids_def python_agents_def agents_def ids)
  have providers: "filter (\<lambda>p. requirement_id p \<in> set (python_provider_ids source)) (manifest_providers source) =
      python_providers source"
    using assms(2) unfolding ids unfolding python_providers_def unique_ids_def by (intro same_key_filter) simp
  have kept_agents: "filter (\<lambda>a. agent_id a \<in> agents) (manifest_agents source) = python_agents source"
    using assms(2) unfolding agents_def unfolding python_agents_def unique_ids_def by (intro same_key_filter) simp
  have kept: "fold keep_provider (python_providers source) (manifest_providers remote) =
      map (overlay requirement_id (\<lambda>p _. p) (python_providers source)) (manifest_providers remote) @
      filter (\<lambda>p. requirement_id p \<notin> requirement_id ` set (manifest_providers remote)) (python_providers source)"
    unfolding keep_provider_def using assms(1,2)
    by (intro fold_change_or_push) (auto simp: unique_ids_def python_providers_def distinct_map_filter)
  have merged: "fold keep_agent (python_agents source) (manifest_agents remote) = merged"
    unfolding keep_agent_def merged_def using assms(1,2)
    by (intro fold_change_or_push)
      (auto simp: unique_ids_def python_agents_def distinct_map_filter overlay_agent_def)
  have none: "python_providers source = [] \<Longrightarrow> python_agents source = []" by (simp add: python_agents_def)
  have empty: "python_provider_ids source = [] \<longleftrightarrow> python_providers source = []"
    by (simp add: python_provider_ids_def python_providers_def)
  show ?thesis
  proof (cases "python_providers source = []")
    case True
    with none[OF True] show ?thesis
      by (simp add: preserve_embedded_python_agents_def Let_def empty agents_def merged_def)
  next
    case False
    then show ?thesis
      by (simp add: preserve_embedded_python_agents_def Let_def empty providers agents kept_agents kept merged
          list_ex_iff)
  qed
qed

lemma overlay_key: "(\<And>a b. key a = key b \<Longrightarrow> key (f a b) = key b) \<Longrightarrow> key (overlay key f xs b) = key b"
  by (auto simp: overlay_def find_Some_iff split: option.splits)

lemma overlay_found:
  assumes "distinct (map key xs)" and "a \<in> set xs" and "key a = key b"
  shows "overlay key f xs b = f a b"
proof -
  have "find (\<lambda>a. key a = key b) xs = Some a"
    using assms by (induction xs) (auto simp: image_iff)
  then show ?thesis by (simp add: overlay_def)
qed

lemma overlay_absent: "key b \<notin> key ` set xs \<Longrightarrow> overlay key f xs b = b"
  by (induction xs) (auto simp: overlay_def)

lemma overlay_agent_id [simp]: "agent_id (overlay_agent a b) = agent_id b"
  by (simp add: overlay_agent_def)

lemma overlay_ids [simp]:
  "agent_id (overlay agent_id overlay_agent xs b) = agent_id b"
  "requirement_id (overlay requirement_id (\<lambda>p _. p) ps q) = requirement_id q"
  by (rule overlay_key; simp)+

lemma unique_python:
  assumes "unique_ids m"
  shows "distinct (map requirement_id (python_providers m))" "distinct (map agent_id (python_agents m))"
  using assms by (simp_all add: unique_ids_def python_providers_def python_agents_def distinct_map_filter)

text \<open>Each Python agent of the source is there afterwards, on its provider and with its capabilities.\<close>

lemma preserved_agent:
  assumes ids: "unique_ids remote" "unique_ids source" and a: "a \<in> set (python_agents source)"
  shows "\<exists>b \<in> set (manifest_agents (preserve_embedded_python_agents remote source)). agent_id b = agent_id a \<and>
    agent_provider b = agent_provider a \<and> agent_capabilities b = agent_capabilities a \<and>
    (b = a \<or> (\<exists>old \<in> set (manifest_agents remote). agent_id old = agent_id a \<and> b = overlay_agent a old))"
proof (cases "agent_id a \<in> agent_id ` set (manifest_agents remote)")
  case True
  then obtain old where old: "old \<in> set (manifest_agents remote)" "agent_id old = agent_id a" by auto
  have "overlay agent_id overlay_agent (python_agents source) old = overlay_agent a old"
    using unique_python[OF ids(2)] a old by (intro overlay_found) auto
  with old have "overlay_agent a old \<in> set (manifest_agents (preserve_embedded_python_agents remote source))"
    by (force simp: preserve_eq[OF ids])
  with old show ?thesis by (intro bexI[of _ "overlay_agent a old"]) (auto simp: overlay_agent_def)
next
  case False
  with a show ?thesis by (intro bexI[of _ a]) (auto simp: preserve_eq[OF ids])
qed

lemma preserved_provider:
  assumes ids: "unique_ids remote" "unique_ids source" and a: "a \<in> set (python_agents source)"
    and p: "p \<in> set (python_providers source)" "requirement_id p = agent_provider a"
  shows "p \<in> set (manifest_providers (preserve_embedded_python_agents remote source))"
proof -
  from preserved_agent[OF ids a] obtain b where b: "b \<in> set (manifest_agents (preserve_embedded_python_agents remote source))"
    "agent_provider b = requirement_id p" using p by metis
  have "p \<in> overlay requirement_id (\<lambda>p _. p) (python_providers source) ` set (manifest_providers remote) \<or>
      requirement_id p \<notin> requirement_id ` set (manifest_providers remote)"
    using overlay_found[OF unique_python(1)[OF ids(2)] p(1), where f = "\<lambda>p _. p"] by (force simp: image_iff)
  with b p show ?thesis unfolding preserve_eq[OF ids] by auto
qed

lemma agent_provider_listed:
  assumes "a \<in> set (python_agents source)"
  obtains p where "p \<in> set (python_providers source)" "requirement_id p = agent_provider a"
  using assms by (auto simp: python_agents_def)

lemma preserved_rest:
  assumes "unique_ids remote" "unique_ids source"
  shows "filter (\<lambda>a. agent_id a \<notin> agent_id ` set (python_agents source))
      (manifest_agents (preserve_embedded_python_agents remote source)) =
    filter (\<lambda>a. agent_id a \<notin> agent_id ` set (python_agents source)) (manifest_agents remote)"
    and "filter (\<lambda>e. endpoint_agent e \<notin> agent_id ` set (python_agents source))
      (manifest_endpoints (preserve_embedded_python_agents remote source)) =
    filter (\<lambda>e. endpoint_agent e \<notin> agent_id ` set (python_agents source)) (manifest_endpoints remote)"
    and "filter (\<lambda>e. endpoint_agent e \<in> agent_id ` set (python_agents source))
      (manifest_endpoints (preserve_embedded_python_agents remote source)) =
    filter (\<lambda>e. endpoint_agent e \<in> agent_id ` set (python_agents source)) (manifest_endpoints source)"
proof -
  let ?K = "agent_id ` set (python_agents source)"
  have "filter (\<lambda>a. agent_id a \<notin> ?K) (map (overlay agent_id overlay_agent (python_agents source)) ys) =
      filter (\<lambda>a. agent_id a \<notin> ?K) ys" for ys
    by (induction ys) (auto simp: overlay_absent)
  then show "filter (\<lambda>a. agent_id a \<notin> ?K) (manifest_agents (preserve_embedded_python_agents remote source)) =
    filter (\<lambda>a. agent_id a \<notin> ?K) (manifest_agents remote)"
    by (simp add: preserve_eq[OF assms] filter_empty_conv)
qed (auto simp: preserve_eq[OF assms] filter_empty_conv)

section \<open>Repeated synchronisation\<close>

definition sorted_metadata :: "runtime_manifest \<Rightarrow> bool" where
  "sorted_metadata m \<longleftrightarrow> (\<forall>a \<in> set (manifest_agents m). \<forall>kvs. agent_metadata a = JObject kvs \<longrightarrow> bt_wf kvs)"

lemma bt_fold_wf: "bt_wf m \<Longrightarrow> bt_wf (fold (\<lambda>(k, v). bt_insert k v) kvs m)"
  by (induction kvs arbitrary: m) auto

lemma merged_again:
  assumes "\<And>kvs. source = JObject kvs \<Longrightarrow> bt_wf kvs" and "\<And>kvs. remote = JObject kvs \<Longrightarrow> bt_wf kvs"
  shows "merged_agent_metadata (merged_agent_metadata source remote) remote = merged_agent_metadata source remote"
proof -
  have again: "fold (\<lambda>(k, v). bt_insert k v) r m = m"
    if "bt_wf m" "bt_wf r" "map_of m ++ map_of r = map_of m" for r m :: "(string \<times> json) list"
    using that by (intro bt_ext)
      (auto simp: bt_fold_wf map_of_bt_fold map_of_rev_distinct bt_wf_distinct)
  show ?thesis
  proof (cases remote)
    case (JObject r)
    with assms(2) have r: "bt_wf r" by simp
    then have self: "fold (\<lambda>(k, v). bt_insert k v) r r = r"
      by (intro again) (auto simp: fun_eq_iff map_add_def split: option.splits)
    show ?thesis
    proof (cases source)
      case (JObject s)
      with assms(1) have "bt_wf s" by simp
      with r show ?thesis
        using \<open>remote = JObject r\<close> JObject
        by (simp add: merged_agent_metadata_def)
          (intro again, auto simp: bt_fold_wf map_of_bt_fold map_of_rev_distinct bt_wf_distinct fun_eq_iff map_add_def
            split: option.splits)
    qed (use \<open>remote = JObject r\<close> self in \<open>simp_all add: merged_agent_metadata_def\<close>)
  qed (cases source; simp add: merged_agent_metadata_def)+
qed

lemma overlay_agent_again:
  assumes "\<And>kvs. agent_metadata a = JObject kvs \<Longrightarrow> bt_wf kvs"
    and "\<And>kvs. agent_metadata b = JObject kvs \<Longrightarrow> bt_wf kvs"
  shows "overlay_agent (overlay_agent a b) b = overlay_agent a b"
  using merged_again[OF assms] by (simp add: overlay_agent_def)

text \<open>Overlaying the overlaid list again changes nothing: the two passes find values of the same keys.\<close>

lemma overlay_twice:
  assumes xs: "distinct (map key xs)"
    and key: "\<And>a b. key a = key b \<Longrightarrow> key (f a b) = key b"
    and again: "\<And>a. a \<in> set xs \<Longrightarrow> key a = key b \<Longrightarrow> f (f a b) b = f a b"
    and xs': "distinct (map key xs')"
      "\<And>c. c \<in> set xs' \<Longrightarrow> key c = key b \<Longrightarrow> c = overlay key f xs b"
      "key b \<in> key ` set xs \<Longrightarrow> overlay key f xs b \<in> set xs'"
    and same: "key b \<notin> key ` set xs \<Longrightarrow> key b \<in> key ` set xs' \<Longrightarrow> f b b = b"
  shows "overlay key f xs' b = overlay key f xs b"
proof (cases "key b \<in> key ` set xs")
  case True
  then obtain a where a: "a \<in> set xs" "key a = key b" by auto
  have one: "overlay key f xs b = f a b" by (rule overlay_found[OF xs a])
  have "overlay key f xs' b = f (f a b) b"
    using overlay_found[OF xs'(1), of "f a b" b f] xs'(3)[OF True] one key[OF a(2)] by simp
  with one again[OF a] show ?thesis by simp
next
  case False
  then have one: "overlay key f xs b = b" by (rule overlay_absent)
  show ?thesis
  proof (cases "key b \<in> key ` set xs'")
    case True
    then obtain c where c: "c \<in> set xs'" "key c = key b" by auto
    with xs'(2)[OF c] one have "overlay key f xs' b = f b b" using overlay_found[OF xs'(1) c] by simp
    with one same[OF False True] show ?thesis by simp
  next
    case none: False
    then show ?thesis using one by (simp add: overlay_absent)
  qed
qed

lemma distinct_overlay:
  assumes "distinct (map key ys)" and "distinct (map key xs)" and "\<And>a b. key a = key b \<Longrightarrow> key (f a b) = key b"
  shows "distinct (map key (map (overlay key f xs) ys @ filter (\<lambda>a. key a \<notin> key ` set ys) xs))"
proof -
  have eq: "map key (map (overlay key f xs) ys) = map key ys" using overlay_key[where key = key and f = f, OF assms(3)] by simp
  have "distinct (map key (filter P xs))" for P using assms(2) by (rule distinct_map_filtered)
  then show ?thesis using assms(1) unfolding map_append distinct_append eq by (auto simp: image_iff)
qed

lemma preserve_unique_ids:
  assumes "unique_ids remote" and "unique_ids source"
  shows "unique_ids (preserve_embedded_python_agents remote source)"
  using assms unique_python[OF assms(2)] unfolding preserve_eq[OF assms] unique_ids_def
  by (auto simp del: map_append map_map filter_append
      intro!: distinct_map_filtered distinct_overlay)

lemma unique_agent: "unique_ids m \<Longrightarrow> a \<in> set (manifest_agents m) \<Longrightarrow> b \<in> set (manifest_agents m) \<Longrightarrow>
    agent_id a = agent_id b \<Longrightarrow> a = b"
  by (simp add: unique_ids_def distinct_map) (blast dest: inj_onD)

lemma unique_provider: "unique_ids m \<Longrightarrow> p \<in> set (manifest_providers m) \<Longrightarrow> q \<in> set (manifest_providers m) \<Longrightarrow>
    requirement_id p = requirement_id q \<Longrightarrow> p = q"
  by (simp add: unique_ids_def distinct_map) (blast dest: inj_onD)

lemma preserved_python_agents:
  assumes ids: "unique_ids remote" "unique_ids source"
    and only: "agent_id ` set (python_agents (preserve_embedded_python_agents remote source)) \<subseteq>
      agent_id ` set (python_agents source)"
  defines "m \<equiv> preserve_embedded_python_agents remote source"
  shows "agent_id ` set (python_agents m) = agent_id ` set (python_agents source)"
    and "b \<in> set (python_agents m) \<longleftrightarrow> b \<in> set (manifest_agents m) \<and> agent_id b \<in> agent_id ` set (python_agents source)"
proof -
  have uids: "unique_ids m" unfolding m_def by (rule preserve_unique_ids[OF ids])
  have "\<exists>b \<in> set (python_agents m). agent_id b = agent_id a" if a: "a \<in> set (python_agents source)" for a
  proof -
    from preserved_agent[OF ids a] obtain b where b: "b \<in> set (manifest_agents m)" "agent_id b = agent_id a"
      "agent_provider b = agent_provider a" by (auto simp: m_def)
    from agent_provider_listed[OF a] obtain p where p: "p \<in> set (python_providers source)"
      "requirement_id p = agent_provider a" .
    from preserved_provider[OF ids a p] p have "p \<in> set (python_providers m)" by (simp add: m_def python_providers_def)
    then have "agent_provider b \<in> requirement_id ` set (python_providers m)" using b p by (metis image_eqI)
    with b show ?thesis by (intro bexI[of _ b]) (auto simp: python_agents_def)
  qed
  then have "agent_id ` set (python_agents source) \<subseteq> agent_id ` set (python_agents m)" by (metis image_eqI image_subsetI)
  with only show same: "agent_id ` set (python_agents m) = agent_id ` set (python_agents source)"
    unfolding m_def by (rule subset_antisym)
  show "b \<in> set (python_agents m) \<longleftrightarrow> b \<in> set (manifest_agents m) \<and> agent_id b \<in> agent_id ` set (python_agents source)"
  proof
    assume b: "b \<in> set (python_agents m)"
    then have "agent_id b \<in> agent_id ` set (python_agents source)" unfolding same[symmetric] by (rule imageI)
    with b show "b \<in> set (manifest_agents m) \<and> agent_id b \<in> agent_id ` set (python_agents source)"
      by (simp add: python_agents_def)
  next
    assume b: "b \<in> set (manifest_agents m) \<and> agent_id b \<in> agent_id ` set (python_agents source)"
    then obtain c where c: "c \<in> set (python_agents m)" "agent_id c = agent_id b" unfolding same[symmetric] by auto
    with b have "c = b" by (intro unique_agent[OF uids]) (auto simp: python_agents_def)
    with c show "b \<in> set (python_agents m)" by simp
  qed
qed

lemma filter_map_cong:
  "(\<And>b. b \<in> set ys \<Longrightarrow> C (g b) = C (g' b)) \<Longrightarrow> (\<And>b. b \<in> set ys \<Longrightarrow> C (g b) \<Longrightarrow> g b = g' b) \<Longrightarrow>
    filter C (map g ys) = filter C (map g' ys)"
proof (induction ys)
  case (Cons y ys)
  have "filter C (map g ys) = filter C (map g' ys)" by (rule Cons.IH; rule Cons.prems; simp)
  with Cons.prems(1)[of y] Cons.prems(2)[of y] show ?case by (cases "C (g y)") (simp_all del: filter_map)
qed simp

lemma preserve_agents_again:
  assumes ids: "unique_ids remote" "unique_ids source" and sorted: "sorted_metadata remote" "sorted_metadata source"
  defines "m \<equiv> preserve_embedded_python_agents remote source"
  assumes only: "agent_id ` set (python_agents m) \<subseteq> agent_id ` set (python_agents source)"
  shows "map (overlay agent_id overlay_agent (python_agents m)) (manifest_agents remote) @
      filter (\<lambda>a. agent_id a \<notin> agent_id ` set (manifest_agents remote)) (python_agents m) = manifest_agents m"
proof -
  let ?A = "python_agents source"
  let ?new = "\<lambda>a. agent_id a \<notin> agent_id ` set (manifest_agents remote)"
  have uids: "unique_ids m" unfolding m_def by (rule preserve_unique_ids[OF ids])
  note mine = preserved_python_agents[OF ids, folded m_def, OF only]
  have agents: "manifest_agents m = map (overlay agent_id overlay_agent ?A) (manifest_agents remote) @ filter ?new ?A"
    by (simp add: m_def preserve_eq[OF ids])
  have "overlay agent_id overlay_agent (python_agents m) b = overlay agent_id overlay_agent ?A b"
    if b: "b \<in> set (manifest_agents remote)" for b
  proof (rule overlay_twice[where key = agent_id and f = overlay_agent])
    have in_m: "overlay agent_id overlay_agent ?A b \<in> set (manifest_agents m)" using b by (auto simp: agents)
    show "c = overlay agent_id overlay_agent ?A b" if "c \<in> set (python_agents m)" "agent_id c = agent_id b" for c
      using that in_m by (intro unique_agent[OF uids]) (simp_all add: mine(2))
    show "overlay agent_id overlay_agent ?A b \<in> set (python_agents m)" if "agent_id b \<in> agent_id ` set ?A"
      using that in_m by (simp add: mine(2))
    show "overlay_agent (overlay_agent a b) b = overlay_agent a b" if "a \<in> set ?A" for a
    proof (rule overlay_agent_again)
      have "a \<in> set (manifest_agents source)" using that by (simp add: python_agents_def)
      with sorted(2) show "bt_wf kvs" if "agent_metadata a = JObject kvs" for kvs
        using that by (simp add: sorted_metadata_def)
      from b sorted(1) show "bt_wf kvs" if "agent_metadata b = JObject kvs" for kvs
        using that by (simp add: sorted_metadata_def)
    qed
    show "distinct (map agent_id ?A)" "distinct (map agent_id (python_agents m))"
      using unique_python ids uids by blast+
    show "overlay_agent b b = b" if "agent_id b \<notin> agent_id ` set ?A" "agent_id b \<in> agent_id ` set (python_agents m)"
      using that mine(1) by simp
  qed simp
  then have "map (overlay agent_id overlay_agent (python_agents m)) (manifest_agents remote) =
      map (overlay agent_id overlay_agent ?A) (manifest_agents remote)" by (rule map_cong[OF refl])
  moreover have "filter ?new (python_agents m) = filter ?new ?A"
  proof -
    let ?K = "\<lambda>a. agent_id a \<in> agent_id ` set ?A"
    have "python_agents m = filter ?K (manifest_agents m)"
      using mine(2) unfolding python_agents_def[of m] by (intro filter_cong) auto
    then have "filter ?new (python_agents m) =
        filter ?new (filter ?K (map (overlay agent_id overlay_agent ?A) (manifest_agents remote))) @
        filter ?new (filter ?K (filter ?new ?A))" by (simp only: agents filter_append)
    moreover have "filter ?new (filter ?K (map (overlay agent_id overlay_agent ?A) (manifest_agents remote))) = []"
      by (simp add: filter_empty_conv)
    moreover have "filter ?new (filter ?K (filter ?new ?A)) = filter ?new ?A"
      by (simp only: filter_filter) (rule filter_cong, auto)
    ultimately show ?thesis by simp
  qed
  ultimately show ?thesis by (simp only: agents)
qed

lemma preserve_providers_again:
  assumes ids: "unique_ids remote" "unique_ids source"
  defines "m \<equiv> preserve_embedded_python_agents remote source"
  assumes C: "manifest_providers m = filter C
      (map (overlay requirement_id (\<lambda>p _. p) (python_providers source)) (manifest_providers remote) @
       filter (\<lambda>p. requirement_id p \<notin> requirement_id ` set (manifest_providers remote)) (python_providers source))"
    and by_id: "\<And>p q. requirement_id p = requirement_id q \<Longrightarrow> C p = C q"
  shows "filter C (map (overlay requirement_id (\<lambda>p _. p) (python_providers m)) (manifest_providers remote) @
      filter (\<lambda>p. requirement_id p \<notin> requirement_id ` set (manifest_providers remote)) (python_providers m)) =
    manifest_providers m"
proof -
  let ?P = "python_providers source"
  let ?new = "\<lambda>p. requirement_id p \<notin> requirement_id ` set (manifest_providers remote)"
  let ?g = "overlay requirement_id (\<lambda>p _. p) ?P"
  let ?g' = "overlay requirement_id (\<lambda>p _. p) (python_providers m)"
  have uids: "unique_ids m" unfolding m_def by (rule preserve_unique_ids[OF ids])
  have "?g' b = ?g b" if b: "b \<in> set (manifest_providers remote)" "C (?g b)" for b
  proof (rule overlay_twice[where key = requirement_id and f = "\<lambda>p _. p"])
    have in_m: "?g b \<in> set (manifest_providers m)" using b by (auto simp: C)
    show "c = ?g b" if "c \<in> set (python_providers m)" "requirement_id c = requirement_id b" for c
      using that in_m by (intro unique_provider[OF uids]) (auto simp: python_providers_def)
    show "?g b \<in> set (python_providers m)" if "requirement_id b \<in> requirement_id ` set ?P"
    proof -
      from that obtain p where p: "p \<in> set ?P" "requirement_id p = requirement_id b" by auto
      then have "?g b = p" by (rule overlay_found[OF unique_python(1)[OF ids(2)]])
      with p in_m show ?thesis by (simp add: python_providers_def)
    qed
    show "distinct (map requirement_id ?P)" "distinct (map requirement_id (python_providers m))"
      using unique_python ids uids by blast+
  qed simp_all
  moreover have same: "C (?g' b) = C (?g b)" for b by (rule by_id) simp
  ultimately have first: "filter C (map ?g' (manifest_providers remote)) = filter C (map ?g (manifest_providers remote))"
    by (intro filter_map_cong) (simp_all add: same)
  have "filter C (filter ?new (python_providers m)) = filter C (filter ?new ?P)"
    unfolding python_providers_def[of m] C by (auto simp: filter_empty_conv python_providers_def intro!: filter_cong)
  with first show ?thesis by (simp add: C)
qed

lemma preserve_again:
  assumes ids: "unique_ids remote" "unique_ids source" and sorted: "sorted_metadata remote" "sorted_metadata source"
  defines "m \<equiv> preserve_embedded_python_agents remote source"
  assumes only: "agent_id ` set (python_agents m) \<subseteq> agent_id ` set (python_agents source)"
  shows "preserve_embedded_python_agents remote m = m"
proof -
  have uids: "unique_ids m" unfolding m_def by (rule preserve_unique_ids[OF ids])
  note K = preserved_python_agents(1)[OF ids, folded m_def, OF only]
  note agents = preserve_agents_again[OF ids sorted, folded m_def, OF only]
  let ?C = "\<lambda>p. requirement_id p \<notin> agent_provider ` {a \<in> set (manifest_agents remote). agent_id a \<in>
      agent_id ` set (python_agents source)} \<or> (\<exists>a \<in> set (manifest_agents m). agent_provider a = requirement_id p)"
  have "manifest_providers m = filter ?C
      (map (overlay requirement_id (\<lambda>p _. p) (python_providers source)) (manifest_providers remote) @
       filter (\<lambda>p. requirement_id p \<notin> requirement_id ` set (manifest_providers remote)) (python_providers source))"
    unfolding m_def preserve_eq[OF ids] by simp
  from preserve_providers_again[OF ids this[unfolded m_def], folded m_def]
  have providers: "filter ?C (map (overlay requirement_id (\<lambda>p _. p) (python_providers m)) (manifest_providers remote) @
      filter (\<lambda>p. requirement_id p \<notin> requirement_id ` set (manifest_providers remote)) (python_providers m)) =
    manifest_providers m" by simp
  have endpoints: "filter (\<lambda>e. endpoint_agent e \<notin> agent_id ` set (python_agents source)) (manifest_endpoints remote) @
      filter (\<lambda>e. endpoint_agent e \<in> agent_id ` set (python_agents source)) (manifest_endpoints m) = manifest_endpoints m"
    using preserved_rest(3)[OF ids] by (simp add: m_def) (simp add: preserve_eq[OF ids])
  have "preserve_embedded_python_agents remote m = remote\<lparr>manifest_providers := manifest_providers m,
      manifest_agents := manifest_agents m, manifest_endpoints := manifest_endpoints m\<rparr>"
    unfolding preserve_eq[OF ids(1) uids] K agents providers endpoints ..
  also have "\<dots> = m" by (simp add: m_def preserve_eq[OF ids])
  finally show ?thesis .
qed

text \<open>The local release of a remote one, made again when it is installed and active, is the same release.\<close>

lemma embedded_manifest_again:
  assumes made: "embedded_manifest k remote p (Some source) = Inr m"
    and ids: "unique_ids source" "sorted_metadata source" "sorted_metadata (release_manifest remote)"
    and only: "agent_id ` set (python_agents m) \<subseteq> agent_id ` set (python_agents source)"
  shows "embedded_manifest k remote p (Some m) = Inr m"
proof -
  let ?remote = "(release_manifest remote)\<lparr>manifest_project_id := p\<rparr>"
  from made have remote: "valid_manifest k ?remote" "manifest_for_project k (release_manifest remote) p = Inr ?remote"
    and m: "m = preserve_embedded_python_agents ?remote source" "valid_manifest k m"
    by (auto simp: embedded_manifest_def and_then_eq_Inr manifest_for_project_Inr Let_def RuntimeManifest_validate_iff)
  have "sorted_metadata ?remote" using ids(3) by (simp add: sorted_metadata_def)
  with valid_unique_ids[OF remote(1)] ids only have "preserve_embedded_python_agents ?remote m = m"
    unfolding m(1) by (intro preserve_again)
  with remote m(2) show ?thesis
    by (simp add: embedded_manifest_def Let_def and_then_eq_Inr RuntimeManifest_validate_iff)
qed

lemma listed_content_unique:
  assumes inv: "sqlite_inv x s" and list: "sqlite_list_releases x s p = Inr installed"
    and "r \<in> set installed" "q \<in> set installed" "release_content_hash r = release_content_hash q"
  shows "r = q"
proof -
  from assms(3,4) obtain row row' where rows: "row \<in> set (sq_releases s)" "row_project row = p" "release_from_row x row = Inr r"
    "row' \<in> set (sq_releases s)" "row_project row' = p" "release_from_row x row' = Inr q"
    by (auto simp: listed_releases[OF list])
  have "release_row_ok x row" "release_row_ok x row'" using inv rows(1,4) by (simp_all add: sqlite_inv_def)
  from release_from_row_fields[OF this(1) rows(3)] release_from_row_fields[OF this(2) rows(6)] assms(5) rows(2,5)
  have "(row_project row, row_content_hash row) = (row_project row', row_content_hash row')" by simp
  with inv rows(1,4) have "row = row'" by (simp only: sqlite_inv_def distinct_map) (blast dest: inj_onD)
  with rows show ?thesis by simp
qed

lemma local_release_again:
  assumes inv: "sqlite_inv x s" and list: "sqlite_list_releases x s p = Inr installed"
    and here: "local \<in> set installed" and "release_version remote \<noteq> 0"
    and m: "embedded_manifest (manifest_codec x) remote p source = Inr (release_manifest local)"
  shows "local_embedded_release (manifest_codec x) remote p installed source = Inr local"
proof -
  have valid: "valid_manifest (manifest_codec x) (release_manifest local)"
    and hash: "content_hash (manifest_codec x) (release_manifest local) = Inr (release_content_hash local)"
    using listed_release_loads(2)[OF inv list here] by (simp_all add: RuntimeRelease_validate_iff)
  let ?candidate = "\<lparr>release_version = release_version remote, release_content_hash = release_content_hash local,
    release_manifest = release_manifest local\<rparr>"
  have candidate: "RuntimeRelease_new (manifest_codec x) (release_version remote) (release_manifest local) = Inr ?candidate"
    using valid hash assms(4) by (simp add: RuntimeRelease_new_iff)
  obtain old where old: "find (\<lambda>r. release_content_hash r = release_content_hash local) installed = Some old"
    using here find_None_iff[of "\<lambda>r. release_content_hash r = release_content_hash local" installed] by fastforce
  then have "old = local"
    using here by (intro listed_content_unique[OF inv list]) (auto simp: find_Some_iff)
  with m candidate old show ?thesis by (simp add: local_embedded_release_def)
qed

section \<open>Traces\<close>

text \<open>A batch of traces that may be sent: of one to a hundred valid traces, for a deployment of the configuration
  that uploads traces, and of that deployment's project.\<close>

definition upload_allowed :: "deployment_configuration list \<Rightarrow> control_request \<Rightarrow> bool" where
  "upload_allowed ds request \<longleftrightarrow> (case request of
     UploadTraces deployment_id traces \<Rightarrow>
       traces \<noteq> [] \<and> length traces \<le> 100 \<and>
       (\<exists>d \<in> set ds. dc_deployment_id d = deployment_id \<and> dp_trace_mode (dc_policies d) \<noteq> ''off'') \<and>
       (\<forall>t \<in> set traces. RuntimeTraceRecord_validate t = Inr () \<and>
          (\<exists>d \<in> set ds. dc_deployment_id d = deployment_id \<and> trace_project_id t = dc_project_slug d))
   | _ \<Rightarrow> True)"

text \<open>A row that left the outbox was acknowledged in the reply to a request that was sent.\<close>

definition acknowledged :: "control_server \<Rightarrow> control_request list \<Rightarrow> string \<Rightarrow> bool" where
  "acknowledged server requests ident \<longleftrightarrow>
     (\<exists>sent ids. prefix sent requests \<and> cs_upload server sent = Inr ids \<and> ident \<in> set ids)"

definition traces_safe :: "control_server \<Rightarrow> deployment_configuration list \<Rightarrow> sync_world \<Rightarrow> sync_world \<Rightarrow> bool" where
  "traces_safe server ds w w' \<longleftrightarrow>
     (\<exists>new. sw_requests w' = sw_requests w @ new \<and> list_all (upload_allowed ds) new) \<and>
     set (sq_trace_outbox (sw_database w')) \<subseteq> set (sq_trace_outbox (sw_database w)) \<and>
     (\<forall>row \<in> set (sq_trace_outbox (sw_database w)) - set (sq_trace_outbox (sw_database w')).
        acknowledged server (sw_requests w') (row_trace_id row))"

lemma traces_safe_refl: "sw_requests w' = sw_requests w \<Longrightarrow>
    sq_trace_outbox (sw_database w') = sq_trace_outbox (sw_database w) \<Longrightarrow> traces_safe server ds w w'"
  by (simp add: traces_safe_def)

lemma acknowledged_later: "acknowledged server requests ident \<Longrightarrow> acknowledged server (requests @ later) ident"
  unfolding acknowledged_def by (meson prefix_prefix)

lemma traces_safe_trans:
  assumes "traces_safe server ds w w'" and "traces_safe server ds w' w''"
  shows "traces_safe server ds w w''"
proof -
  from assms obtain new new' where "sw_requests w' = sw_requests w @ new" "list_all (upload_allowed ds) new"
    and next_requests: "sw_requests w'' = sw_requests w' @ new'" "list_all (upload_allowed ds) new'"
    by (auto simp: traces_safe_def)
  then have "\<exists>new. sw_requests w'' = sw_requests w @ new \<and> list_all (upload_allowed ds) new" by simp
  moreover have "acknowledged server (sw_requests w'') (row_trace_id row)"
    if "row \<in> set (sq_trace_outbox (sw_database w)) - set (sq_trace_outbox (sw_database w''))" for row
    using that assms acknowledged_later[of server "sw_requests w'" "row_trace_id row" new']
    unfolding next_requests(1) by (cases "row \<in> set (sq_trace_outbox (sw_database w'))") (auto simp: traces_safe_def next_requests(1))
  moreover have "set (sq_trace_outbox (sw_database w'')) \<subseteq> set (sq_trace_outbox (sw_database w))"
    using assms by (auto simp: traces_safe_def)
  ultimately show ?thesis by (simp add: traces_safe_def)
qed

definition sync_safe :: "control_server \<Rightarrow> deployment_configuration list \<Rightarrow> 'a sync \<Rightarrow> bool" where
  "sync_safe server ds m \<longleftrightarrow> (\<forall>w. traces_safe server ds w (snd (m w)))"

named_theorems sync_intros

lemma sync_safe_lift [sync_intros]: "sync_safe server ds (sync_lift r)"
  by (simp add: sync_safe_def sync_lift_def traces_safe_refl)

lemma sync_safe_bind [sync_intros]:
  assumes "sync_safe server ds m" and "\<And>v. sync_safe server ds (f v)"
  shows "sync_safe server ds (sync_bind m f)"
  unfolding sync_safe_def
proof
  fix w
  obtain r w' where m: "m w = (r, w')" by fastforce
  with assms(1) have "traces_safe server ds w w'" by (metis snd_conv sync_safe_def)
  moreover have "traces_safe server ds w' (snd (f v w'))" for v using assms(2) by (simp add: sync_safe_def)
  ultimately show "traces_safe server ds w (snd (sync_bind m f w))"
    by (cases r) (auto simp: sync_bind_def m intro: traces_safe_trans)
qed

lemma sync_safe_each [sync_intros]: "(\<And>v. v \<in> set vs \<Longrightarrow> sync_safe server ds (f v)) \<Longrightarrow> sync_safe server ds (sync_each f vs)"
  by (induction vs) (auto intro: sync_intros)

lemma sync_safe_request [sync_intros]:
  "upload_allowed ds request \<Longrightarrow> sync_safe server ds (sync_request request reply)"
  by (simp add: sync_safe_def sync_request_def Let_def traces_safe_def)

lemma sync_safe_write [sync_intros]:
  assumes "\<And>s s'. f s = Inr s' \<Longrightarrow> sq_trace_outbox s' = sq_trace_outbox s"
  shows "sync_safe server ds (database_write f)"
  using assms by (auto simp: sync_safe_def database_write_def split: sum.splits intro!: traces_safe_refl)

lemma sync_safe_read [sync_intros]: "sync_safe server ds (database_read f)"
  by (simp add: sync_safe_def database_read_def traces_safe_refl)

lemma sync_safe_embedded [sync_intros]:
  assumes "\<And>c r c'. op c = (r, c') \<Longrightarrow> sq_trace_outbox (core_store c') = sq_trace_outbox (core_store c)"
  shows "sync_safe server ds (embedded_call op absent)"
  unfolding sync_safe_def
proof
  fix w
  show "traces_safe server ds w (snd (embedded_call op absent w))"
  proof (cases "sw_embedded w")
    case (Some c)
    obtain r c' where op: "op (embedded_view w c) = (r, c')" by fastforce
    from assms[OF op] have "sq_trace_outbox (sw_database (run_world w c')) = sq_trace_outbox (sw_database w)"
      by (simp add: run_world_def embedded_view_def)
    then show ?thesis by (simp add: embedded_call_runs[where op = op, OF Some op] traces_safe_refl)
  qed (simp add: embedded_call_def traces_safe_refl)
qed

lemma save_release_outbox: "sqlite_save_release x s r = Inr s' \<Longrightarrow> sq_trace_outbox s' = sq_trace_outbox s"
  by (auto simp: sqlite_save_release_Inr split: if_splits)

lemma set_active_outbox: "sqlite_set_active_release s p v = Inr s' \<Longrightarrow> sq_trace_outbox s' = sq_trace_outbox s"
  using sqlite_set_active_cases(1) by fastforce

lemma embedded_outbox:
  "releases (sqlite_store_ops x) c = (r, c') \<Longrightarrow> sq_trace_outbox (core_store c') = sq_trace_outbox (core_store c)"
  "current_manifest c = (r', c') \<Longrightarrow> sq_trace_outbox (core_store c') = sq_trace_outbox (core_store c)"
  "install_release k (sqlite_store_ops x) new c = (r'', c') \<Longrightarrow>
     sq_trace_outbox (core_store c') = sq_trace_outbox (core_store c)"
  by (auto simp: releases_def store_read_def current_manifest_def install_release_def act_bind_def act_lift_def
      store_write_def split: sum.splits if_splits dest: save_release_outbox)

lemma activate_outbox:
  assumes "activate_release k (sqlite_store_ops x) v c = (r, c')"
  shows "sq_trace_outbox (core_store c') = sq_trace_outbox (core_store c)"
proof -
  have applied: "apply_manifest k m st = (res, st') \<Longrightarrow> core_store st' = core_store st" for m st res st'
    by (cases res) (auto dest: apply_manifest_Inl simp: apply_manifest_Inr)
  show ?thesis
    using assms by (cases r) (auto simp: activate_release_def act_bind_Inr act_bind_Inl store_write_Inr
        dest!: applied set_active_outbox)
qed

lemma sync_safe_release:
  "sync_safe server ds (deployment_release x here d)"
  "sync_safe server ds (install_embedded x p release)"
  "sync_safe server ds (sync_release x here d)"
proof -
  have boot: "sync_safe server ds (bootstrap_runtime_release k srv ident m)" for k srv ident m
    by (auto simp: bootstrap_runtime_release_def upload_allowed_def intro!: sync_intros)
  then show release: "sync_safe server ds (deployment_release x here d)"
    by (auto simp: deployment_release_def intro!: sync_intros embedded_outbox(2) split: option.split)
  show install: "sync_safe server ds (install_embedded x p release)" for p release
    unfolding install_embedded_def
    by (intro sync_intros embedded_outbox activate_outbox; assumption)
  have applied: "sync_safe server ds (report_release_applied srv ident r)" for srv ident r
    by (auto simp: report_release_applied_def upload_allowed_def intro!: sync_intros)
  show "sync_safe server ds (sync_release x here d)"
    using release install applied
    by (auto simp: sync_release_def intro!: sync_intros split: option.split dest: save_release_outbox set_active_outbox)
qed

lemma set_filter_each: "set (fold (\<lambda>ident. filter (\<lambda>row. key row \<noteq> ident)) ids rows) =
    {row \<in> set rows. key row \<notin> set ids}"
proof (induction ids arbitrary: rows)
  case (Cons ident ids)
  have "set (fold (\<lambda>ident. filter (\<lambda>row. key row \<noteq> ident)) (ident # ids) rows) =
      {row \<in> set (filter (\<lambda>row. key row \<noteq> ident) rows). key row \<notin> set ids}"
    by (simp only: fold_simps Cons.IH)
  then show ?case by auto
qed simp

lemma acknowledge_rows:
  assumes "sqlite_acknowledge_traces s ids = Inr s'"
  shows "row \<in> set (sq_trace_outbox s') \<longleftrightarrow> row \<in> set (sq_trace_outbox s) \<and> row_trace_id row \<notin> set ids"
  using assms by (auto simp: sqlite_acknowledge_traces_def set_filter_each)

lemma chunks_parts: "batch \<in> set (chunks n xs) \<Longrightarrow> batch \<noteq> [] \<and> length batch \<le> n \<and> set batch \<subseteq> set xs"
proof (induction n xs rule: chunks.induct)
  case (1 n xs)
  from 1(2) have "xs \<noteq> []" "n \<noteq> 0" "batch = take n xs \<or> batch \<in> set (chunks n (drop n xs))"
    by (simp_all add: chunks.simps[of n xs] split: if_splits)
  with 1(1) show ?case using set_take_subset[of n xs] set_drop_subset[of n xs] by auto
qed

text \<open>A batch that is not valid is refused before it is sent; one that is sent is allowed.\<close>

lemma sync_safe_upload:
  assumes d: "d \<in> set ds" "dp_trace_mode (dc_policies d) \<noteq> ''off''"
    and projects: "\<forall>t \<in> set batch. \<exists>d' \<in> set ds. dc_deployment_id d' = dc_deployment_id d \<and>
      trace_project_id t = dc_project_slug d'"
  shows "sync_safe (ss_server x) ds (upload_batch x d batch)"
  unfolding sync_safe_def
proof
  fix w :: sync_world
  let ?sent = "sw_requests w @ [UploadTraces (dc_deployment_id d) batch]"
  let ?valid = "for_each (\<lambda>t. display (RuntimeTraceRecord_validate t)) batch"
  let ?size = "ensure (batch \<noteq> [] \<and> length batch \<le> 100) ''runtime trace batches must contain between 1 and 100 records''"
  have run: "upload_batch x d batch w = (case and_then ?size (\<lambda>_. ?valid) of
      Inl e \<Rightarrow> (Inl e, w)
    | Inr _ \<Rightarrow> (case cs_upload (ss_server x) ?sent of
        Inl e \<Rightarrow> (Inl e, w\<lparr>sw_requests := ?sent\<rparr>)
      | Inr ids \<Rightarrow> database_write (\<lambda>s. sqlite_acknowledge_traces s ids) (w\<lparr>sw_requests := ?sent\<rparr>)))"
    by (cases ?size; cases ?valid; cases "cs_upload (ss_server x) ?sent")
      (simp_all add: upload_batch_def upload_traces_def sync_bind_def sync_lift_def sync_request_def
        del: for_each_eq_Inr ensure_eq_Inr ensure_eq_Inl)
  show "traces_safe (ss_server x) ds w (snd (upload_batch x d batch w))"
  proof (cases "and_then ?size (\<lambda>_. ?valid)")
    case (Inl e)
    then show ?thesis by (simp add: run traces_safe_refl)
  next
    case valid: (Inr u)
    with d projects have allowed: "upload_allowed ds (UploadTraces (dc_deployment_id d) batch)"
      by (auto simp: upload_allowed_def and_then_eq_Inr)
    show ?thesis
    proof (cases "cs_upload (ss_server x) ?sent")
      case (Inl e)
      with valid allowed show ?thesis by (simp add: run traces_safe_def)
    next
      case (Inr ids)
      obtain s where s: "sqlite_acknowledge_traces (sw_database w) ids = Inr s"
        by (simp add: sqlite_acknowledge_traces_def)
      have "acknowledged (ss_server x) ?sent ident" if "ident \<in> set ids" for ident
        using that Inr unfolding acknowledged_def by blast
      with valid allowed s acknowledge_rows[OF s] show ?thesis
        by (auto simp: run Inr database_write_def traces_safe_def)
    qed
  qed
qed

definition target_in :: "deployment_configuration list \<Rightarrow> (string \<times> uuid \<times> string) option \<Rightarrow> bool" where
  "target_in ds target \<longleftrightarrow> (\<forall>p ident slug. target = Some (p, ident, slug) \<longrightarrow>
     (\<exists>d \<in> set ds. dc_deployment_id d = ident \<and> dc_project_slug d = slug))"

lemma trace_for_deployment:
  assumes "runtime_trace_for_deployment t (dc_deployment_id d) (dc_project_slug d) target = Some t'"
    and "target_in ds target" and "d \<in> set ds"
  shows "\<exists>d' \<in> set ds. dc_deployment_id d' = dc_deployment_id d \<and> trace_project_id t' = dc_project_slug d'"
  using assms by (fastforce simp: runtime_trace_for_deployment_def target_in_def split: if_splits option.splits)

lemma sync_safe_traces:
  assumes target: "target_in ds target" and d: "d \<in> set ds"
  shows "sync_safe (ss_server x) ds (sync_traces x target d)"
proof (cases "dp_trace_mode (dc_policies d) = ''off''")
  case False
  have "sync_safe (ss_server x) ds (upload_batch x d batch)"
    if "batch \<in> set (chunks 100 (List.map_filter (\<lambda>t. runtime_trace_for_deployment t (dc_deployment_id d)
      (dc_project_slug d) target) pending))" for batch pending
  proof (rule sync_safe_upload[OF d False])
    show "\<forall>t \<in> set batch. \<exists>d' \<in> set ds. dc_deployment_id d' = dc_deployment_id d \<and> trace_project_id t = dc_project_slug d'"
      using chunks_parts[OF that] trace_for_deployment[OF _ target d] by (fastforce simp: List.map_filter_def)
  qed
  then show ?thesis unfolding sync_traces_def by (auto intro!: sync_intros)
qed (simp add: sync_traces_def sync_intros)

lemma select_embedded_in: "select_embedded_deployment ds p app guest = Some d \<Longrightarrow> d \<in> set ds"
proof -
  have "filter P xs = [d] \<Longrightarrow> d \<in> set xs" for P :: "deployment_configuration \<Rightarrow> bool" and xs
    using filter_is_subset[of P xs] by simp
  then have only: "only_other_deployment ds g = Some d \<Longrightarrow> d \<in> set ds" for g
    by (auto simp: only_other_deployment_def split: list.splits)
  then show "select_embedded_deployment ds p app guest = Some d \<Longrightarrow> d \<in> set ds"
    by (cases ds) (auto simp: select_embedded_deployment_def find_Some_iff bind_eq_Some_conv
        split: option.splits if_splits)
qed

lemma sync_safe_deployments: "sync_safe (ss_server x) ds (sync_deployments x ds project_id)"
proof -
  let ?selected = "embedded_deployment x ds project_id"
  let ?target = "Option.bind ?selected (\<lambda>d. map_option (\<lambda>p. (p, dc_deployment_id d, dc_project_slug d)) project_id)"
  have "target_in ds ?target"
    using select_embedded_in by (fastforce simp: target_in_def embedded_deployment_def bind_eq_Some_conv)
  then show ?thesis
    unfolding sync_deployments_def Let_def by (intro sync_intros sync_safe_release sync_safe_traces)
qed

lemma sync_safe_monitor [sync_intros]: "sync_safe server ds (set_monitor selected)"
  by (auto simp: sync_safe_def set_monitor_def intro!: traces_safe_refl split: option.split)

lemma sync_runtime_state_safe:
  assumes "cs_configuration (ss_server x) = Inr configuration"
  shows "traces_safe (ss_server x) (gc_deployments configuration) w (snd (sync_runtime_state x w))"
proof -
  let ?rest = "\<lambda>project_id gateway. sync_bind (sync_lift (ensure (gc_gateway_id configuration = gateway)
           ''server returned configuration for another Agent Gateway'')) (\<lambda>_.
         let deployments = gc_deployments configuration;
             selected = embedded_deployment x deployments project_id
         in sync_bind (sync_lift (ensure (\<not> (project_id \<noteq> None \<and> 1 < length deployments \<and> selected = None))
              ''the embedded runtime is assigned to multiple Apps; pair it with one App again'')) (\<lambda>_.
            sync_bind (set_monitor selected) (\<lambda>_. sync_deployments x deployments project_id)))"
  have "sync_safe (ss_server x) (gc_deployments configuration)
      (sync_bind (sync_lift (ss_authorized_gateway x)) (?rest project_id))" for project_id
    unfolding Let_def by (intro sync_intros sync_safe_deployments)
  moreover have "sync_runtime_state x w = sync_bind (sync_lift (ss_authorized_gateway x))
      (?rest (map_option core_project_id (sw_embedded w))) w"
    by (simp only: sync_runtime_state_def Let_def assms sync_bind_lift)
  ultimately show ?thesis by (simp only: sync_safe_def)
qed

section \<open>Samples\<close>





lemma sample_rows_valid: "valid_manifest (manifest_codec sample_rows) sample_manifest"
  using sample_rows_encode(2) by (simp add: RuntimeManifest_to_json_iff)


lemma sample_embedded_manifest: "embedded_manifest (manifest_codec sample_rows) sample_release ''demo'' None = Inr sample_manifest"
proof -
  have "sample_manifest\<lparr>manifest_project_id := ''demo''\<rparr> = sample_manifest" "release_manifest sample_release = sample_manifest"
    by (simp_all add: sample_manifest_def sample_release_def)
  moreover have "RuntimeManifest_validate (manifest_codec sample_rows) sample_manifest = Inr ()"
    using sample_rows_valid by (simp add: RuntimeManifest_validate_iff)
  ultimately show ?thesis by (simp add: embedded_manifest_def manifest_for_project_def)
qed

section \<open>Properties\<close>



text \<open>C31: A release of the server never takes an agent written in Python away from the runtime that runs it: in
  the manifest made for the runtime the agent keeps its provider and its capabilities, its provider keeps its
  requirement, and exactly the agent's own endpoints lead to it.\<close>

theorem python_agents_survive:
  assumes "embedded_manifest k remote p (Some source) = Inr m" and "valid_manifest k source"
    and "a \<in> set (manifest_agents source)" and "q \<in> set (manifest_providers source)"
    and "requirement_type q = ''python''" and "requirement_id q = agent_provider a"
  shows "(\<exists>b \<in> set (manifest_agents m). agent_id b = agent_id a \<and> agent_provider b = agent_provider a \<and>
       agent_capabilities b = agent_capabilities a) \<and> q \<in> set (manifest_providers m) \<and>
     filter (\<lambda>e. endpoint_agent e = agent_id a) (manifest_endpoints m) =
       filter (\<lambda>e. endpoint_agent e = agent_id a) (manifest_endpoints source)"
proof -
  let ?remote = "(release_manifest remote)\<lparr>manifest_project_id := p\<rparr>"
  from assms(1) have remote: "valid_manifest k ?remote" and m: "m = preserve_embedded_python_agents ?remote source"
    by (auto simp: embedded_manifest_def and_then_eq_Inr manifest_for_project_Inr Let_def)
  note ids = valid_unique_ids[OF remote] valid_unique_ids[OF assms(2)]
  have q: "q \<in> set (python_providers source)" using assms(4,5) by (simp add: python_providers_def)
  then have "agent_provider a \<in> requirement_id ` set (python_providers source)" using assms(6) by (metis image_eqI)
  with assms(3) have a: "a \<in> set (python_agents source)" by (simp add: python_agents_def)
  have "filter (\<lambda>e. endpoint_agent e = agent_id a) es = filter (\<lambda>e. endpoint_agent e = agent_id a)
      (filter (\<lambda>e. endpoint_agent e \<in> agent_id ` set (python_agents source)) es)" for es
    using a by (auto simp: filter_filter intro!: filter_cong)
  then have "filter (\<lambda>e. endpoint_agent e = agent_id a) (manifest_endpoints m) =
      filter (\<lambda>e. endpoint_agent e = agent_id a) (manifest_endpoints source)"
    using preserved_rest(3)[OF ids] unfolding m by metis
  with preserved_agent[OF ids a] preserved_provider[OF ids a q assms(6)] show ?thesis unfolding m by blast
qed

definition sample_python :: runtime_manifest where
  "sample_python = sample_manifest\<lparr>manifest_project_id := ''app'',
     manifest_providers := [\<lparr>requirement_id = ''strands'', requirement_type = ''python'',
       requirement_capabilities = [''assist''], requirement_settings = empty_object, requirement_resources = []\<rparr>],
     manifest_agents := [\<lparr>agent_id = ''writer'', agent_name = ''Writer'', agent_provider = ''strands'',
       agent_capabilities = [''assist''], agent_metadata = empty_object\<rparr>],
     manifest_endpoints := [\<lparr>endpoint_name = ''assist'', endpoint_agent = ''writer'',
       endpoint_capability = ''assist'', endpoint_timeout_ms = 60000\<rparr>]\<rparr>"

definition sample_merged :: runtime_manifest where
  "sample_merged = sample_python\<lparr>manifest_project_id := ''demo''\<rparr>"

lemma sample_merged_is: "preserve_embedded_python_agents sample_manifest sample_python = sample_merged"
  by (simp add: preserve_embedded_python_agents_def python_provider_ids_def python_agent_ids_def sample_python_def
      sample_merged_def sample_manifest_def Let_def keep_provider_def keep_agent_def overlay_agent_def
      merged_agent_metadata_def empty_object_def)

lemma sample_python_valid: "valid_manifest sample_codec sample_python" "valid_manifest sample_codec sample_merged"
  by (simp_all add: sample_merged_def sample_python_def valid_manifest_def valid_provider_def valid_agent_def
      valid_endpoint_def sample_manifest_defs portable_value_simps empty_object_def trim_def is_whitespace_def utf8_len_def)

lemma sample_merged_made: "embedded_manifest sample_codec sample_release ''demo'' (Some sample_python) = Inr sample_merged"
proof -
  have "manifest_for_project sample_codec sample_manifest ''demo'' = Inr sample_manifest"
    using sample_manifest_valid by (simp add: manifest_for_project_Inr) (simp add: sample_manifest_def)
  moreover have "RuntimeManifest_validate sample_codec sample_merged = Inr ()"
    using sample_python_valid(2) by (simp add: RuntimeManifest_validate_iff)
  ultimately show ?thesis by (simp add: embedded_manifest_def sample_release_def sample_merged_is)
qed

theorem python_agents_survive_witness:
  "\<exists>b \<in> set (manifest_agents sample_merged). agent_id b = ''writer'' \<and> agent_provider b = ''strands''"
  using python_agents_survive[OF sample_merged_made sample_python_valid(1), of "hd (manifest_agents sample_python)"
      "hd (manifest_providers sample_python)"]
  by (simp add: sample_python_def) blast

text \<open>C32: Repeating a synchronisation changes nothing: made again for the runtime in which it is installed and
  whose manifest it now is, the local release of a remote release is that same release, no new version. The remote
  release must not bring Python agents of its own, and metadata are in key order.\<close>

theorem repeated_sync_reuses_release:
  assumes "sqlite_inv x s" and "sqlite_list_releases x s p = Inr installed" and "local \<in> set installed"
    and "release_version remote \<noteq> 0"
    and "embedded_manifest (manifest_codec x) remote p (Some source) = Inr (release_manifest local)"
    and "valid_manifest (manifest_codec x) source"
    and "sorted_metadata source" and "sorted_metadata (release_manifest remote)"
    and "agent_id ` set (python_agents (release_manifest local)) \<subseteq> agent_id ` set (python_agents source)"
  shows "local_embedded_release (manifest_codec x) remote p installed (Some (release_manifest local)) = Inr local"
  using assms(1-4) embedded_manifest_again[OF assms(5) valid_unique_ids[OF assms(6)] assms(7-9)]
  by (rule local_release_again)

theorem repeated_sync_reuses_release_witness:
  "\<exists>s. sqlite_save_release sample_rows (sqlite_empty 5) sample_release = Inr s \<and>
     sqlite_list_releases sample_rows s ''demo'' = Inr [sample_release] \<and>
     local_embedded_release (manifest_codec sample_rows) sample_release ''demo'' [sample_release] (Some sample_manifest) =
       Inr sample_release"
proof -
  let ?row = "release_row_of 5 sample_release ''demo''"
  let ?s = "(sqlite_empty 5)\<lparr>sq_releases := [?row]\<rparr>"
  have save: "sqlite_save_release sample_rows (sqlite_empty 5) sample_release = Inr ?s"
    using sample_rows_save[of "sqlite_empty 5"] by (simp add: sqlite_empty_def release_clash_def)
  have inv: "sqlite_inv sample_rows ?s"
    using sample_manifest_exact
    by (intro sqlite_inv_save_release[OF sqlite_inv_empty[OF sample_rows_readable] _ save]) (simp add: sample_release_def)
  have "release_from_row sample_rows ?row = Inr sample_release"
    using sample_manifest_exact
    by (intro release_row_readable sample_rows_readable) (simp_all add: sample_release_def sample_rows_encode)
  then have list: "sqlite_list_releases sample_rows ?s ''demo'' = Inr [sample_release]"
    by (simp add: sqlite_list_releases_def) (simp add: release_row_of_def sample_release_def sample_manifest_def)
  have none: "python_provider_ids sample_manifest = []" "python_agents sample_manifest = []"
    by (simp_all add: python_provider_ids_def python_agents_def python_providers_def sample_manifest_def)
  have "embedded_manifest (manifest_codec sample_rows) sample_release ''demo'' (Some sample_manifest) =
      Inr (release_manifest sample_release)"
    using sample_embedded_manifest sample_rows_valid
    by (auto simp: embedded_manifest_def and_then_eq_Inr none preserve_embedded_python_agents_def
        RuntimeManifest_validate_iff) (simp add: sample_release_def)
  moreover have "sorted_metadata sample_manifest" "release_manifest sample_release = sample_manifest"
    "release_version sample_release \<noteq> 0"
    by (simp_all add: sorted_metadata_def sample_manifest_def sample_release_def empty_object_def)
  ultimately have "local_embedded_release (manifest_codec sample_rows) sample_release ''demo'' [sample_release]
      (Some (release_manifest sample_release)) = Inr sample_release"
    by (intro repeated_sync_reuses_release[OF inv list _ _ _ sample_rows_valid]) (simp_all add: none)
  with save list show ?thesis by (simp add: sample_release_def)
qed

text \<open>C33: Traces are uploaded to their own project and are never lost by it: every batch that is sent holds one to
  a hundred valid traces of the deployment's project, for a deployment whose trace mode is not off, and a trace
  leaves the outbox only when the reply to a request acknowledged it, also when the synchronisation fails.\<close>

theorem traces_uploaded_safely:
  "case cs_configuration (ss_server x) of
     Inl e \<Rightarrow> sync_runtime_state x w = (Inl e, w)
   | Inr configuration \<Rightarrow>
       traces_safe (ss_server x) (gc_deployments configuration) w (snd (sync_runtime_state x w))"
proof (cases "cs_configuration (ss_server x)")
  case (Inl e)
  then show ?thesis by (simp add: sync_runtime_state_def)
next
  case (Inr configuration)
  with sync_runtime_state_safe[OF Inr] show ?thesis by simp
qed

section \<open>What the code gets wrong\<close>

text \<open>
  A runtime and its gateway may share one database, and a runtime may have the name of its App. Then the versions
  the runtime gave its own releases and those of the server collide: a release of the server whose version is
  taken by another content is refused when the gateway stores it, before the local version made for just this
  case is looked for, and every later synchronisation fails at the same place.
\<close>

theorem shared_database_refuses_release:
  assumes "sqlite_inv (ss_rows x) (sw_database w)" and "dp_config_sync (dc_policies d)" and "dc_release d = Some r"
    and "RuntimeRelease_validate (sync_codec x) r = Inr ()" and "manifest_project_id (release_manifest r) = dc_project_slug d"
    and "sqlite_load_release (ss_rows x) (sw_database w) (dc_project_slug d) (release_version r) = Inr (Some own)"
    and "own \<noteq> r" and "uint (release_version r) < 2 ^ 63" and "uint (sq_now (sw_database w)) < 2 ^ 63"
  shows "sync_release x here d w =
    (Inl ''runtime store failed: runtime release versions are immutable'', w)"
proof -
  obtain t where t: "encode_manifest (sync_codec x) (release_manifest r) = Inr t"
    using assms(4) by (auto simp: RuntimeRelease_validate_iff valid_manifest_def)
  obtain row where "find_release (sw_database w) (dc_project_slug d) (uint (release_version r)) = Some row"
    using assms(6) by (auto simp: sqlite_load_release_row[OF assms(1)])
  from find_release_Some[OF this] have "release_clash (sw_database w) r"
    using assms(5) by (auto simp: release_clash_def release_key_def)
  then have "fst (insert_or_ignore_release (release_row_of (uint (sq_now (sw_database w))) r t)
      (sq_releases (sw_database w))) = 0" "snd (insert_or_ignore_release (release_row_of (uint (sq_now (sw_database w))) r t)
      (sq_releases (sw_database w))) = sq_releases (sw_database w)"
    by (simp_all add: insert_or_ignore_release_row)
  then have "sqlite_save_release (ss_rows x) (sw_database w) r = Inl (Store ''runtime release versions are immutable'')"
    using assms(4-9) t
    by (simp add: sqlite_save_release_def Let_def release_row_of_def split_beta)
  then show ?thesis
    using assms(2-4) by (simp add: sync_release_def deployment_release_def database_write_def sync_bind_def sync_lift_def)
qed

text \<open>
  The source of the agents that are kept is the manifest of the last synchronisation, so a key that a later
  release removes from the metadata of a Python agent stays with the value of the earlier release.
\<close>

theorem removed_metadata_survives:
  assumes "valid_manifest k remote" and "valid_manifest k source" and "a \<in> set (python_agents source)"
    and "b \<in> set (manifest_agents remote)" and "agent_id b = agent_id a"
    and "agent_metadata a = JObject kept" and "agent_metadata b = JObject new" and "bt_wf kept" and "bt_wf new"
    and "map_of kept key = Some v" and "map_of new key = None"
  shows "\<exists>c \<in> set (manifest_agents (preserve_embedded_python_agents remote source)).
    agent_id c = agent_id a \<and> json_get (agent_metadata c) key = Some v"
proof -
  from preserved_agent[OF valid_unique_ids[OF assms(1)] valid_unique_ids[OF assms(2)] assms(3)]
  obtain c where c: "c \<in> set (manifest_agents (preserve_embedded_python_agents remote source))" "agent_id c = agent_id a"
    and kind: "c = a \<or> (\<exists>old \<in> set (manifest_agents remote). agent_id old = agent_id a \<and> c = overlay_agent a old)"
    by blast
  from kind have "json_get (agent_metadata c) key = Some v"
  proof
    assume "\<exists>old \<in> set (manifest_agents remote). agent_id old = agent_id a \<and> c = overlay_agent a old"
    then have "c = overlay_agent a b"
      using unique_agent[OF valid_unique_ids[OF assms(1)] _ assms(4)] assms(5) by fastforce
    with assms(6-11) show ?thesis
      by (simp add: overlay_agent_def merged_agent_metadata_def json_get_def map_of_bt_fold map_of_rev_distinct
          bt_wf_distinct map_add_def)
  qed (use assms(6,10) in \<open>simp add: json_get_def\<close>)
  with c show ?thesis by blast
qed

end
