(* ===== verification/Embedded_Monitor.thy ===== *)
theory Embedded_Monitor
  imports Gateway_Calls Application
begin

text \<open>
  What a gateway with an embedded runtime tells the server about the runtime's invocations: the observers of
  \<open>crates/vifu-gateway/src/embedded.rs\<close> put the runtime's events into a bounded queue and count what does not fit,
  and the loop of \<open>relay.rs\<close> (\<open>EmbeddedMonitorTrace\<close>, \<open>embedded_runtime_telemetry_command\<close>,
  \<open>record_embedded_runtime_io\<close>, \<open>expire_embedded_runtime_traces\<close>) turns them into batches of telemetry. Instants are
  milliseconds; fresh UUIDs, the memory of the host and the clock are inputs
  of the steps. The batches are those the loop gives to \<open>send_command\<close>; when that fails the connection ends, which is the
  step \<open>Reconnects\<close>.
\<close>

section \<open>The queue\<close>

datatype embedded_event =
    Lifecycle runtime_monitor_event
  | SummaryInput string trace_io_summary
  | SummaryOutput string trace_io_summary

definition EMBEDDED_MONITOR_QUEUE_CAPACITY :: nat where "EMBEDDED_MONITOR_QUEUE_CAPACITY = 256"
definition EMBEDDED_TRACE_RETENTION :: nat where "EMBEDDED_TRACE_RETENTION = 150000"

record embedded_monitor =
  em_queue :: "embedded_event list"
  em_dropped :: "32 word"
  em_deployment :: "(uuid \<times> string) option"
  em_host_metrics_ready :: bool

definition monitor_new :: embedded_monitor where
  "monitor_new = \<lparr>em_queue = [], em_dropped = 0, em_deployment = None, em_host_metrics_ready = False\<rparr>"

definition try_send_embedded_monitor_event :: "embedded_event \<Rightarrow> embedded_monitor \<Rightarrow> embedded_monitor" where
  "try_send_embedded_monitor_event event m =
     (if length (em_queue m) < EMBEDDED_MONITOR_QUEUE_CAPACITY then m\<lparr>em_queue := em_queue m @ [event]\<rparr>
      else m\<lparr>em_dropped := if em_dropped m = - 1 then - 1 else em_dropped m + 1\<rparr>)"

fun root_summary :: "text_codec \<Rightarrow> runtime_monitor_io_event \<Rightarrow> embedded_event" where
  "root_summary c (MonitorInput tid _ summary) =
     SummaryInput tid (canonical_trace_io_summary c (Application.summary_value summary))"
| "root_summary c (MonitorOutput tid _ summary) =
     SummaryOutput tid (canonical_trace_io_summary c (Application.summary_value summary))"

definition take_dropped_events :: "embedded_monitor \<Rightarrow> 32 word \<times> embedded_monitor" where
  "take_dropped_events m = (min (em_dropped m) MAX_TRACE_DROPPED_EVENTS, m\<lparr>em_dropped := 0\<rparr>)"

definition monitor_host_metrics :: "host_metrics option \<Rightarrow> embedded_monitor \<Rightarrow> host_metrics option" where
  "monitor_host_metrics host m = (if em_host_metrics_ready m then host else None)"

section \<open>Traces\<close>

record monitor_trace =
  mt_deployment_id :: uuid
  mt_trace_id :: string
  mt_invocation_id :: string
  mt_project_id :: string
  mt_endpoint :: string
  mt_agent_id :: string
  mt_started_at_ms :: u64
  mt_last_event_at :: nat
  mt_stages :: "provider_stage \<rightharpoonup> uuid"
  mt_input :: "trace_io_summary option"
  mt_output :: "trace_io_summary option"

definition trace_batch ::
    "trace_telemetry list \<Rightarrow> 32 word \<Rightarrow> host_metrics option \<Rightarrow> telemetry_terminal option \<Rightarrow> monitor_trace \<Rightarrow>
     runtime_telemetry_batch \<times> monitor_trace" where
  "trace_batch events dropped host terminal t =
     (\<lparr>rt_deployment_id = mt_deployment_id t, rt_trace_id = mt_trace_id t, rt_invocation_id = mt_invocation_id t,
       rt_project_id = mt_project_id t, rt_endpoint = mt_endpoint t, rt_agent_id = mt_agent_id t,
       rt_started_at_ms = mt_started_at_ms t, rt_events = events, rt_dropped_events = dropped,
       rt_input_summary = mt_input t, rt_output_summary = mt_output t, rt_host_metrics = host, rt_terminal = terminal\<rparr>,
      t\<lparr>mt_input := None, mt_output := None\<rparr>)"

type_synonym monitor_traces = "(string \<times> monitor_trace) list"

record receive_input =
  ri_now :: nat
  ri_fresh :: uuid
  ri_host :: "host_metrics option"
  ri_models :: "(string \<times> string \<rightharpoonup> string) option"

definition invocation_started ::
    "receive_input \<Rightarrow> monitor_started \<Rightarrow> embedded_monitor \<Rightarrow> monitor_traces \<Rightarrow>
     runtime_telemetry_batch option \<times> embedded_monitor \<times> monitor_traces" where
  "invocation_started i s m traces =
     (case em_deployment m of
        None \<Rightarrow> (None, m, traces)
      | Some (deployment_id, project_id) \<Rightarrow>
          let t = \<lparr>mt_deployment_id = deployment_id, mt_trace_id = ms_trace_id s, mt_invocation_id = ms_invocation_id s,
                mt_project_id = project_id, mt_endpoint = ms_endpoint s, mt_agent_id = ms_agent_id s,
                mt_started_at_ms = ms_started_at_ms s, mt_last_event_at = ri_now i, mt_stages = Map.empty,
                mt_input = None, mt_output = None\<rparr>;
              (dropped, m) = take_dropped_events m;
              (batch, t) = trace_batch [trace_telemetry.InvocationStarted
                \<lparr>started_provider_key = ms_provider_id s, started_capability = ms_capability s,
                 started_model = Option.bind (ri_models i) (\<lambda>models. models (ms_provider_id s, ms_capability s))\<rparr>]
                dropped (monitor_host_metrics (ri_host i) m) None t
          in (Some batch, m, AList.update (ms_trace_id s) t traces))"

fun trace_stage_status_of :: "monitor_stage_status \<Rightarrow> trace_stage_status" where
  "trace_stage_status_of MonitorStarted = TraceStarted"
| "trace_stage_status_of MonitorStageCompleted = TraceCompleted"
| "trace_stage_status_of MonitorStageFailed = TraceFailed"

definition provider_stage_reported ::
    "receive_input \<Rightarrow> monitor_stage \<Rightarrow> embedded_monitor \<Rightarrow> monitor_traces \<Rightarrow>
     runtime_telemetry_batch option \<times> embedded_monitor \<times> monitor_traces" where
  "provider_stage_reported i g m traces =
     (case map_of traces (mg_trace_id g) of
        None \<Rightarrow> (None, m, traces)
      | Some t \<Rightarrow>
          let observation = (case mt_stages t (mg_stage g) of Some ident \<Rightarrow> ident | None \<Rightarrow> ri_fresh i);
              t = t\<lparr>mt_last_event_at := ri_now i, mt_stages := (mt_stages t)(mg_stage g \<mapsto> observation)\<rparr>;
              start = saturating_sub (mg_request_elapsed_ms g)
                (case mg_elapsed_ms g of Some n \<Rightarrow> n | None \<Rightarrow> 0);
              telemetry = TraceStage \<lparr>stage_observation_id = observation, stage_of = mg_stage g,
                stage_status = trace_stage_status_of (mg_status g), stage_start_offset_ms = start,
                stage_end_offset_ms = (if mg_status g = MonitorStarted then None else Some (mg_request_elapsed_ms g)),
                stage_elapsed_ms = mg_elapsed_ms g, stage_request_elapsed_ms = Some (mg_request_elapsed_ms g),
                stage_input_tokens = mg_input_tokens g, stage_output_tokens = mg_output_tokens g,
                stage_resident = mg_resident g, stage_error = map_option safe_observer_error (mg_error g)\<rparr>;
              (dropped, m) = take_dropped_events m;
              (batch, t) = trace_batch [telemetry] dropped (monitor_host_metrics (ri_host i) m) None t
          in (Some batch, m, AList.update (mg_trace_id g) t traces))"

fun terminal_status_of :: "monitor_status \<Rightarrow> telemetry_terminal_status" where
  "terminal_status_of MonitorCompleted = TerminalCompleted"
| "terminal_status_of MonitorCancelled = TerminalCancelled"
| "terminal_status_of MonitorError = TerminalError"

definition invocation_finished ::
    "receive_input \<Rightarrow> monitor_finished \<Rightarrow> embedded_monitor \<Rightarrow> monitor_traces \<Rightarrow>
     runtime_telemetry_batch option \<times> embedded_monitor \<times> monitor_traces" where
  "invocation_finished i f m traces =
     (case map_of traces (mf_trace_id f) of
        None \<Rightarrow> (None, m, traces)
      | Some t \<Rightarrow>
          let (dropped, m) = take_dropped_events m;
              terminal = \<lparr>terminal_status = terminal_status_of (mf_status f), terminal_duration_ms = mf_duration_ms f,
                terminal_ended_at_ms = mf_ended_at_ms f, terminal_error = map_option safe_observer_error (mf_error f)\<rparr>;
              (batch, _) = trace_batch [] dropped (monitor_host_metrics (ri_host i) m) (Some terminal) t
          in (Some batch, m, AList.delete (mf_trace_id f) traces))"

fun embedded_runtime_telemetry_command ::
    "receive_input \<Rightarrow> runtime_monitor_event \<Rightarrow> embedded_monitor \<Rightarrow> monitor_traces \<Rightarrow>
     runtime_telemetry_batch option \<times> embedded_monitor \<times> monitor_traces" where
  "embedded_runtime_telemetry_command i (runtime_monitor_event.InvocationStarted s) m traces = invocation_started i s m traces"
| "embedded_runtime_telemetry_command i (ProviderStage g) m traces = provider_stage_reported i g m traces"
| "embedded_runtime_telemetry_command i (InvocationFinished f) m traces = invocation_finished i f m traces"

definition record_embedded_runtime_io ::
    "nat \<Rightarrow> string \<Rightarrow> trace_io_summary option \<Rightarrow> trace_io_summary option \<Rightarrow> monitor_traces \<Rightarrow> monitor_traces" where
  "record_embedded_runtime_io now tid input output traces =
     (case map_of traces tid of
        None \<Rightarrow> traces
      | Some t \<Rightarrow> AList.update tid (t\<lparr>mt_last_event_at := now,
          mt_input := (case input of None \<Rightarrow> mt_input t | Some _ \<Rightarrow> input),
          mt_output := (case output of None \<Rightarrow> mt_output t | Some _ \<Rightarrow> output)\<rparr>) traces)"

text \<open>The traces without news for long enough end with an error; the first one reports the dropped events.\<close>

fun expire_each ::
    "string list \<Rightarrow> u64 \<Rightarrow> (string \<Rightarrow> host_metrics option) \<Rightarrow> 32 word \<Rightarrow> monitor_traces \<Rightarrow>
     runtime_telemetry_batch list \<times> monitor_traces" where
  "expire_each [] ended_at_ms host dropped traces = ([], traces)"
| "expire_each (tid # expired) ended_at_ms host dropped traces =
     (case map_of traces tid of
        None \<Rightarrow> expire_each expired ended_at_ms host dropped traces
      | Some t \<Rightarrow>
          let terminal = \<lparr>terminal_status = TerminalError,
                terminal_duration_ms = saturating_sub ended_at_ms (mt_started_at_ms t),
                terminal_ended_at_ms = ended_at_ms,
                terminal_error = Some ''embedded telemetry ended without a terminal event''\<rparr>;
              (batch, _) = trace_batch [] dropped (host tid) (Some terminal) t;
              (batches, traces) = expire_each expired ended_at_ms host 0 (AList.delete tid traces)
          in (batch # batches, traces))"

definition expired_traces :: "nat \<Rightarrow> monitor_traces \<Rightarrow> string list" where
  "expired_traces now traces =
     map fst (filter (\<lambda>(_, t). EMBEDDED_TRACE_RETENTION \<le> now - mt_last_event_at t) traces)"

definition expire_embedded_runtime_traces ::
    "nat \<Rightarrow> (string, u64) result \<Rightarrow> (string \<Rightarrow> host_metrics option) \<Rightarrow> embedded_monitor \<Rightarrow> monitor_traces \<Rightarrow>
     (string, runtime_telemetry_batch list) result \<times> embedded_monitor \<times> monitor_traces" where
  "expire_embedded_runtime_traces now clock host m traces =
     (let expired = expired_traces now traces
      in if expired = [] then (Inr [], m, traces)
         else case clock of
           Inl e \<Rightarrow> (Inl e, m, traces)
         | Inr ended_at_ms \<Rightarrow>
             let (dropped, m) = take_dropped_events m;
                 (batches, traces) = expire_each expired ended_at_ms (\<lambda>tid. monitor_host_metrics (host tid) m) dropped traces
             in (Inr batches, m, traces))"

section \<open>Runs\<close>

text \<open>
  The traces and the readiness belong to one connection, the monitor with its queue to the whole life of the
  gateway. \<open>es_observed\<close> and \<open>es_received\<close> count the events given to the observers and those taken from the queue.
\<close>

record embedded_state =
  es_monitor :: embedded_monitor
  es_traces :: monitor_traces
  es_ready :: bool
  es_observed :: nat
  es_received :: nat

datatype embedded_action =
    Observes runtime_monitor_event
  | ObservesIo runtime_monitor_io_event
  | Deployed uuid string
  | MonitoringReady
  | HostMetricsReady
  | Receives receive_input
  | Expires nat "(string, u64) result" "string \<Rightarrow> host_metrics option"
  | Reconnects

definition embedded_start :: embedded_state where
  "embedded_start = \<lparr>es_monitor = monitor_new, es_traces = [], es_ready = False, es_observed = 0, es_received = 0\<rparr>"

definition observe_event :: "embedded_event \<Rightarrow> embedded_state \<Rightarrow> embedded_state" where
  "observe_event event s = s\<lparr>es_monitor := try_send_embedded_monitor_event event (es_monitor s),
     es_observed := es_observed s + 1\<rparr>"

text \<open>The branch of the loop that receives an event, while monitoring is ready.\<close>

definition receive_event :: "receive_input \<Rightarrow> embedded_state \<Rightarrow> runtime_telemetry_batch list \<times> embedded_state" where
  "receive_event i s =
     (case em_queue (es_monitor s) of
        [] \<Rightarrow> ([], s)
      | event # rest \<Rightarrow>
          if \<not> es_ready s then ([], s)
          else let m = (es_monitor s)\<lparr>em_queue := rest\<rparr>; s = s\<lparr>es_monitor := m, es_received := es_received s + 1\<rparr>
            in case event of
              Lifecycle event \<Rightarrow>
                let (batch, m, traces) = embedded_runtime_telemetry_command i event m (es_traces s)
                in (case batch of None \<Rightarrow> [] | Some b \<Rightarrow> [b], s\<lparr>es_monitor := m, es_traces := traces\<rparr>)
            | SummaryInput tid summary \<Rightarrow>
                ([], s\<lparr>es_traces := record_embedded_runtime_io (ri_now i) tid (Some summary) None (es_traces s)\<rparr>)
            | SummaryOutput tid summary \<Rightarrow>
                ([], s\<lparr>es_traces := record_embedded_runtime_io (ri_now i) tid None (Some summary) (es_traces s)\<rparr>))"

fun embedded_step :: "text_codec \<Rightarrow> embedded_action \<Rightarrow> embedded_state \<Rightarrow> runtime_telemetry_batch list \<times> embedded_state" where
  "embedded_step c (Observes event) s = ([], observe_event (Lifecycle event) s)"
| "embedded_step c (ObservesIo event) s = ([], observe_event (root_summary c event) s)"
| "embedded_step c (Deployed ident slug) s =
     ([], s\<lparr>es_monitor := (es_monitor s)\<lparr>em_deployment := Some (ident, slug)\<rparr>\<rparr>)"
| "embedded_step c MonitoringReady s = ([], s\<lparr>es_ready := True\<rparr>)"
| "embedded_step c HostMetricsReady s = ([], s\<lparr>es_monitor := (es_monitor s)\<lparr>em_host_metrics_ready := True\<rparr>\<rparr>)"
| "embedded_step c (Receives i) s = receive_event i s"
| "embedded_step c (Expires now clock host) s =
     (let (r, m, traces) = expire_embedded_runtime_traces now clock host (es_monitor s) (es_traces s)
      in (case r of Inl _ \<Rightarrow> [] | Inr batches \<Rightarrow> batches, s\<lparr>es_monitor := m, es_traces := traces\<rparr>))"
| "embedded_step c Reconnects s = ([], s\<lparr>es_traces := [], es_ready := False\<rparr>)"

fun embedded_run :: "text_codec \<Rightarrow> embedded_action list \<Rightarrow> embedded_state \<Rightarrow> runtime_telemetry_batch list \<times> embedded_state" where
  "embedded_run c [] s = ([], s)"
| "embedded_run c (a # as) s =
     (let (bs, s') = embedded_step c a s; (bs', s'') = embedded_run c as s' in (bs @ bs', s''))"

section \<open>One event\<close>

lemma trace_batch_fields [simp]:
  "fst (trace_batch events dropped host terminal t) =
     \<lparr>rt_deployment_id = mt_deployment_id t, rt_trace_id = mt_trace_id t, rt_invocation_id = mt_invocation_id t,
       rt_project_id = mt_project_id t, rt_endpoint = mt_endpoint t, rt_agent_id = mt_agent_id t,
       rt_started_at_ms = mt_started_at_ms t, rt_events = events, rt_dropped_events = dropped,
       rt_input_summary = mt_input t, rt_output_summary = mt_output t, rt_host_metrics = host, rt_terminal = terminal\<rparr>"
  "snd (trace_batch events dropped host terminal t) = t\<lparr>mt_input := None, mt_output := None\<rparr>"
  by (simp_all add: trace_batch_def)

lemmas monitor_defs = take_dropped_events_def trace_batch_def Let_def

text \<open>What an event does: nothing, or one batch that takes the count of dropped events; the traces afterwards
  are the old ones but for the event's own, which is new, changed or gone.\<close>

fun event_trace :: "runtime_monitor_event \<Rightarrow> string" where
  "event_trace (runtime_monitor_event.InvocationStarted s) = ms_trace_id s"
| "event_trace (ProviderStage g) = mg_trace_id g"
| "event_trace (InvocationFinished f) = mf_trace_id f"

lemma telemetry_command_counts:
  assumes "embedded_runtime_telemetry_command i event m traces = (batch, m', traces')"
  shows "em_queue m' = em_queue m"
    and "batch = None \<and> m' = m \<and> traces' = traces \<or>
      (\<exists>b. batch = Some b \<and> rt_dropped_events b = min (em_dropped m) MAX_TRACE_DROPPED_EVENTS \<and> em_dropped m' = 0 \<and>
        em_deployment m' = em_deployment m)"
  using assms
  by (cases event; auto simp: invocation_started_def provider_stage_reported_def invocation_finished_def monitor_defs
      split: option.splits)+

section \<open>Counting\<close>

abbreviation reported :: "runtime_telemetry_batch list \<Rightarrow> nat" where
  "reported bs \<equiv> sum_list (map (\<lambda>b. unat (rt_dropped_events b)) bs)"

definition balanced :: "nat \<Rightarrow> embedded_state \<Rightarrow> bool" where
  "balanced k s \<longleftrightarrow> es_observed s =
     es_received s + length (em_queue (es_monitor s)) + unat (em_dropped (es_monitor s)) + k"

lemma observed_grows: "es_observed s \<le> es_observed (snd (embedded_step c a s))"
  by (cases a) (auto simp: observe_event_def receive_event_def Let_def split: list.splits embedded_event.splits prod.splits)

lemma run_observed_grows: "es_observed s \<le> es_observed (snd (embedded_run c as s))"
proof (induction as arbitrary: s)
  case (Cons a as)
  obtain bs s' where step: "embedded_step c a s = (bs, s')" by fastforce
  obtain bs' s'' where run: "embedded_run c as s' = (bs', s'')" by fastforce
  from observed_grows[of s c a] Cons.IH[of s'] show ?case by (simp add: step run)
qed simp

lemma expire_each_Cons:
  "expire_each (ident # ids) ended host dropped traces = (case map_of traces ident of
     None \<Rightarrow> expire_each ids ended host dropped traces
   | Some t \<Rightarrow> (fst (trace_batch [] dropped (host ident) (Some \<lparr>terminal_status = TerminalError,
         terminal_duration_ms = saturating_sub ended (mt_started_at_ms t), terminal_ended_at_ms = ended,
         terminal_error = Some ''embedded telemetry ended without a terminal event''\<rparr>) t) #
       fst (expire_each ids ended host 0 (AList.delete ident traces)),
       snd (expire_each ids ended host 0 (AList.delete ident traces))))"
  by (simp add: Let_def split_beta split: option.split)

declare expire_each.simps(2) [simp del]

lemma expire_each_zero: "reported (fst (expire_each ids ended host 0 traces)) = 0"
proof (induction ids arbitrary: traces)
  case (Cons ident ids)
  then show ?case by (cases "map_of traces ident") (simp_all add: expire_each_Cons)
qed simp

lemma expire_each_reported:
  "map_of traces ident \<noteq> None \<Longrightarrow>
     reported (fst (expire_each (ident # ids) ended host dropped traces)) = unat dropped"
  using expire_each_zero[of ids ended host "AList.delete ident traces"] by (auto simp: expire_each_Cons)

lemma expire_reported:
  assumes "expire_embedded_runtime_traces now clock host m traces = (r, m', traces')"
  shows "em_queue m' = em_queue m" and "em_deployment m' = em_deployment m"
    and "m' = m \<and> (case r of Inl _ \<Rightarrow> [] | Inr bs \<Rightarrow> bs) = [] \<or> em_dropped m' = 0 \<and>
      reported (case r of Inl _ \<Rightarrow> [] | Inr bs \<Rightarrow> bs) = unat (min (em_dropped m) MAX_TRACE_DROPPED_EVENTS)"
proof -
  show "em_queue m' = em_queue m" "em_deployment m' = em_deployment m"
    using assms by (auto simp: expire_embedded_runtime_traces_def Let_def take_dropped_events_def
        split: if_splits sum.splits prod.splits)
  show "m' = m \<and> (case r of Inl _ \<Rightarrow> [] | Inr bs \<Rightarrow> bs) = [] \<or> em_dropped m' = 0 \<and>
      reported (case r of Inl _ \<Rightarrow> [] | Inr bs \<Rightarrow> bs) = unat (min (em_dropped m) MAX_TRACE_DROPPED_EVENTS)"
  proof (cases "expired_traces now traces")
    case (Cons ident ids)
    then have "ident \<in> set (expired_traces now traces)" by simp
    then obtain t where "(ident, t) \<in> set traces" by (auto simp: expired_traces_def)
    then have "map_of traces ident \<noteq> None" using weak_map_of_SomeI by fastforce
    with assms Cons expire_each_reported[of traces ident ids] show ?thesis
      by (auto simp: expire_embedded_runtime_traces_def Let_def take_dropped_events_def
          split: sum.splits prod.splits) (metis fst_conv)+
  qed (use assms in \<open>auto simp: expire_embedded_runtime_traces_def Let_def\<close>)
qed

lemma small_dropped: "unat d \<le> 10000 \<Longrightarrow> min d MAX_TRACE_DROPPED_EVENTS = d"
  by (simp add: MAX_TRACE_DROPPED_EVENTS_def min_def word_le_nat_alt)

lemma step_balanced:
  assumes balanced: "balanced k s" and step: "embedded_step c a s = (bs, s')" and few: "es_observed s' \<le> 10000"
  shows "balanced (k + reported bs) s'"
proof -
  have "unat (em_dropped (es_monitor s)) \<le> 10000"
    using balanced few observed_grows[of s c a] by (simp add: balanced_def step)
  note small = this small_dropped[OF this]
  have observed: "balanced k (observe_event event s)" if "es_observed s < 10000" for event
  proof -
    have below: "unat (em_dropped (es_monitor s)) < 10000" using that balanced by (simp add: balanced_def)
    then have "em_dropped (es_monitor s) \<noteq> - 1" by (auto simp: unsigned_minus_1_eq_mask mask_eq_exp_minus_1)
    moreover have "unat (em_dropped (es_monitor s) + 1) = unat (em_dropped (es_monitor s)) + 1"
      using below by (simp add: unat_word_ariths)
    ultimately show ?thesis
      using balanced by (simp add: balanced_def observe_event_def try_send_embedded_monitor_event_def)
  qed
  show ?thesis
  proof (cases a)
    case (Observes event)
    with step few have s': "bs = []" "s' = observe_event (Lifecycle event) s" by simp_all
    with few observed show ?thesis by (simp add: observe_event_def)
  next
    case (ObservesIo event)
    with step few have s': "bs = []" "s' = observe_event (root_summary c event) s" by simp_all
    with few observed show ?thesis by (simp add: observe_event_def)
  next
    case (Receives i)
    show ?thesis
    proof (cases "em_queue (es_monitor s)")
      case (Cons event rest)
      show ?thesis
      proof (cases "es_ready s")
        case True
        let ?m = "(es_monitor s)\<lparr>em_queue := rest\<rparr>"
        show ?thesis
        proof (cases event)
          case (Lifecycle e)
          obtain batch m traces where command: "embedded_runtime_telemetry_command i e ?m (es_traces s) = (batch, m, traces)"
            by (metis prod_cases3)
          with step Receives True Cons Lifecycle have s': "bs = (case batch of None \<Rightarrow> [] | Some b \<Rightarrow> [b])"
            "s' = s\<lparr>es_received := es_received s + 1, es_monitor := m, es_traces := traces\<rparr>"
            by (simp_all add: receive_event_def)
          note counts = telemetry_command_counts(1)[OF command]
          from telemetry_command_counts(2)[OF command] show ?thesis
          proof (elim disjE conjE exE)
            assume "batch = None" and m: "m = ?m"
            with balanced Cons show ?thesis unfolding s' balanced_def m by simp
          next
            fix b
            assume "batch = Some b" "rt_dropped_events b = min (em_dropped ?m) MAX_TRACE_DROPPED_EVENTS" "em_dropped m = 0"
            with balanced Cons counts small show ?thesis unfolding s' balanced_def by simp
          qed
        qed (use balanced step Receives True Cons in \<open>auto simp: receive_event_def balanced_def Let_def\<close>)
      qed (use balanced step Receives Cons in \<open>auto simp: receive_event_def\<close>)
    qed (use balanced step Receives in \<open>auto simp: receive_event_def\<close>)
  next
    case (Expires now clock host)
    obtain r m traces where expire: "expire_embedded_runtime_traces now clock host (es_monitor s) (es_traces s) = (r, m, traces)"
      by (metis prod_cases3)
    with step Expires have s': "bs = (case r of Inl _ \<Rightarrow> [] | Inr bs \<Rightarrow> bs)" "s' = s\<lparr>es_monitor := m, es_traces := traces\<rparr>"
      by simp_all
    from expire_reported(1,3)[OF expire] balanced small show ?thesis
      unfolding s' balanced_def by (elim disjE) simp_all
  qed (use balanced step in \<open>auto simp: balanced_def\<close>)
qed

lemma run_balanced:
  "balanced k s \<Longrightarrow> es_observed (snd (embedded_run c as s)) \<le> 10000 \<Longrightarrow>
     balanced (k + reported (fst (embedded_run c as s))) (snd (embedded_run c as s))"
proof (induction as arbitrary: k s)
  case (Cons a as)
  obtain bs s' where step: "embedded_step c a s = (bs, s')" by fastforce
  obtain bs' s'' where run: "embedded_run c as s' = (bs', s'')" by fastforce
  from Cons.prems(2) have "es_observed s' \<le> 10000"
    using run_observed_grows[of s' c as] by (simp add: step run)
  from Cons.IH[OF step_balanced[OF Cons.prems(1) step this]] Cons.prems(2) show ?case
    by (simp add: step run add.assoc)
qed simp

section \<open>Ends\<close>

lemma set_alist_update: "set (AList.update k v m) \<subseteq> insert (k, v) (set m)"
  by (induction m) auto

lemma fst_alist_update: "fst ` set (AList.update k v m) = insert k (fst ` set m)"
  by (simp add: dom_map_of_conv_image_fst[symmetric])

lemma alist_delete_set: "set (AList.delete k m) = {e \<in> set m. fst e \<noteq> k}"
  by (auto simp: AList.delete_eq)

text \<open>Each trace is kept under its own name; \<open>trace_kept\<close> is what every trace in the table satisfies.\<close>

definition keyed :: "monitor_traces \<Rightarrow> bool" where
  "keyed traces \<longleftrightarrow> (\<forall>(k, t) \<in> set traces. mt_trace_id t = k)"

lemma keyed_found: "keyed traces \<Longrightarrow> map_of traces k = Some t \<Longrightarrow> mt_trace_id t = k"
  by (auto simp: keyed_def dest: map_of_SomeD)

lemma keyed_update: "keyed traces \<Longrightarrow> mt_trace_id t = k \<Longrightarrow> keyed (AList.update k t traces)"
  using set_alist_update[of k t traces] by (auto simp: keyed_def)

lemma keyed_delete: "keyed traces \<Longrightarrow> keyed (AList.delete k traces)"
  by (auto simp: keyed_def alist_delete_set)

definition closed_by :: "runtime_telemetry_batch list \<Rightarrow> string set" where
  "closed_by bs = {rt_trace_id b | b. b \<in> set bs \<and> rt_terminal b \<noteq> None}"

lemma closed_by_simps [simp]:
  "closed_by [] = {}"
  "closed_by (b # bs) = (if rt_terminal b \<noteq> None then insert (rt_trace_id b) (closed_by bs) else closed_by bs)"
  "closed_by (bs @ bs') = closed_by bs \<union> closed_by bs'"
  by (auto simp: closed_by_def)

abbreviation end_is_last :: "runtime_telemetry_batch list \<Rightarrow> bool" where
  "end_is_last \<equiv> sorted_wrt (\<lambda>a b. rt_terminal a \<noteq> None \<longrightarrow> rt_trace_id a \<noteq> rt_trace_id b)"

lemma end_is_last_append:
  "end_is_last bs \<Longrightarrow> end_is_last bs' \<Longrightarrow> (\<forall>b \<in> set bs'. rt_trace_id b \<notin> closed_by bs) \<Longrightarrow> end_is_last (bs @ bs')"
  by (auto simp: sorted_wrt_append closed_by_def)

lemma expire_each_ends:
  assumes "keyed traces" and "expire_each ids ended host dropped traces = (bs, traces')"
  shows "keyed traces' \<and> set traces' \<subseteq> set traces \<and> end_is_last bs \<and>
    (\<forall>b \<in> set bs. rt_terminal b \<noteq> None \<and> rt_trace_id b \<in> fst ` set traces - fst ` set traces')"
  using assms
proof (induction ids arbitrary: dropped traces bs traces')
  case (Cons ident ids)
  show ?case
  proof (cases "map_of traces ident")
    case None
    with Cons show ?thesis by (simp add: expire_each_Cons)
  next
    case (Some t)
    obtain bs' traces'' where rest: "expire_each ids ended host 0 (AList.delete ident traces) = (bs', traces'')" by fastforce
    note IH = Cons.IH[OF keyed_delete[OF Cons.prems(1)] rest]
    have key: "mt_trace_id t = ident" "ident \<in> fst ` set traces"
      using keyed_found[OF Cons.prems(1) Some] map_of_SomeD[OF Some] by force+
    have less: "fst ` set (AList.delete ident traces) = fst ` set traces - {ident}"
      by (auto simp: alist_delete_set)
    let ?b = "fst (trace_batch [] dropped (host ident) (Some \<lparr>terminal_status = TerminalError,
         terminal_duration_ms = saturating_sub ended (mt_started_at_ms t), terminal_ended_at_ms = ended,
         terminal_error = Some ''embedded telemetry ended without a terminal event''\<rparr>) t)"
    from Cons.prems(2) Some rest have bs: "bs = ?b # bs'" "traces' = traces''" by (simp_all add: expire_each_Cons)
    from IH have later: "rt_trace_id b \<in> fst ` set traces - {ident} - fst ` set traces''" "rt_terminal b \<noteq> None"
      if "b \<in> set bs'" for b using that unfolding less by blast+
    from IH have subset: "set traces'' \<subseteq> set traces" by (auto simp: alist_delete_set)
    have gone: "ident \<notin> fst ` set traces''" using IH by (auto simp: alist_delete_set)
    have "end_is_last bs"
      unfolding bs using IH later(1) key(1) by (fastforce simp del: trace_batch_fields(2))
    moreover have "\<forall>b \<in> set bs. rt_terminal b \<noteq> None \<and> rt_trace_id b \<in> fst ` set traces - fst ` set traces'"
      unfolding bs using later key gone by simp
    ultimately show ?thesis using IH subset bs(2) by blast
  qed
qed simp

lemma telemetry_command_ends:
  assumes "keyed traces" and "embedded_runtime_telemetry_command i event m traces = (batch, m', traces')"
  shows "keyed traces'" and "fst ` set traces' \<subseteq> insert (event_trace event) (fst ` set traces)"
    and "\<not> (\<exists>s. event = runtime_monitor_event.InvocationStarted s) \<Longrightarrow> fst ` set traces' \<subseteq> fst ` set traces"
    and "batch = Some b \<Longrightarrow> rt_trace_id b = event_trace event \<and>
      (rt_terminal b \<noteq> None \<longrightarrow> event_trace event \<notin> fst ` set traces') \<and>
      ((\<exists>s. event = runtime_monitor_event.InvocationStarted s) \<or> event_trace event \<in> fst ` set traces)"
proof -
  have found: "k \<in> fst ` set traces" if "map_of traces k = Some t" for k t
    using that map_of_SomeD by force
  show "keyed traces'"
    using assms by (cases event) (auto simp: invocation_started_def provider_stage_reported_def invocation_finished_def
        monitor_defs split: option.splits intro!: keyed_update keyed_delete dest: keyed_found)
  have names: "traces' = traces \<or> (\<exists>t. traces' = AList.update (event_trace event) t traces) \<or>
      traces' = AList.delete (event_trace event) traces"
    using assms(2) by (cases event) (auto simp: invocation_started_def provider_stage_reported_def
        invocation_finished_def monitor_defs split: option.splits)
  then show "fst ` set traces' \<subseteq> insert (event_trace event) (fst ` set traces)"
  proof (elim disjE exE)
    fix t
    assume "traces' = AList.update (event_trace event) t traces"
    then show ?thesis by (simp only: fst_alist_update subset_refl)
  qed (auto simp: alist_delete_set)
  show "fst ` set traces' \<subseteq> fst ` set traces" if "\<not> (\<exists>s. event = runtime_monitor_event.InvocationStarted s)"
  proof (cases "event_trace event \<in> fst ` set traces")
    case True
    from \<open>fst ` set traces' \<subseteq> insert (event_trace event) (fst ` set traces)\<close>[unfolded insert_absorb[OF True]]
    show ?thesis .
  next
    case False
    then have "map_of traces (event_trace event) = None" by (simp add: map_of_eq_None_iff)
    with that assms(2) have "traces' = traces"
      by (cases event) (auto simp: provider_stage_reported_def invocation_finished_def)
    then show ?thesis by simp
  qed
  show "batch = Some b \<Longrightarrow> rt_trace_id b = event_trace event \<and>
      (rt_terminal b \<noteq> None \<longrightarrow> event_trace event \<notin> fst ` set traces') \<and>
      ((\<exists>s. event = runtime_monitor_event.InvocationStarted s) \<or> event_trace event \<in> fst ` set traces)"
    using assms found keyed_found[OF assms(1)]
    by (cases event) (auto simp: invocation_started_def provider_stage_reported_def invocation_finished_def
        monitor_defs alist_delete_set split: option.splits)
qed

fun start_of :: "runtime_monitor_event \<Rightarrow> string list" where
  "start_of (runtime_monitor_event.InvocationStarted s) = [ms_trace_id s]"
| "start_of _ = []"

fun queued_start :: "embedded_event \<Rightarrow> string list" where
  "queued_start (Lifecycle event) = start_of event" | "queued_start _ = []"

fun action_start :: "embedded_action \<Rightarrow> string list" where
  "action_start (Observes event) = start_of event" | "action_start _ = []"

abbreviation starts :: "embedded_state \<Rightarrow> embedded_action list \<Rightarrow> string list" where
  "starts s as \<equiv> concat (map queued_start (em_queue (es_monitor s))) @ concat (map action_start as)"

text \<open>\<open>ended\<close> are the traces with a last batch: they are not in the table and will not be started again.\<close>

definition known :: "monitor_traces \<Rightarrow> string set" where "known traces = fst ` set traces"

definition ends_ok :: "string set \<Rightarrow> string list \<Rightarrow> monitor_traces \<Rightarrow> bool" where
  "ends_ok ended upcoming traces \<longleftrightarrow> keyed traces \<and> distinct upcoming \<and>
     set upcoming \<inter> (ended \<union> known traces) = {} \<and> ended \<inter> known traces = {}"

lemma ends_ok_closed:
  "ends_ok ended upcoming traces \<Longrightarrow> keyed traces' \<Longrightarrow> known traces' \<subseteq> known traces \<Longrightarrow>
     closed \<subseteq> known traces - known traces' \<Longrightarrow> ends_ok (ended \<union> closed) upcoming traces'"
  unfolding ends_ok_def by blast

lemmas ends_ok_kept = ends_ok_closed[where closed = "{}", simplified]

lemma ends_ok_started:
  "ends_ok ended (upcoming @ tid # later) traces \<Longrightarrow> keyed traces' \<Longrightarrow> known traces' \<subseteq> insert tid (known traces) \<Longrightarrow>
     ends_ok ended (upcoming @ later) traces'"
  unfolding ends_ok_def by auto

lemma ends_ok_skipped: "ends_ok ended (upcoming @ skipped @ later) traces \<Longrightarrow> ends_ok ended (upcoming @ later) traces"
  unfolding ends_ok_def by auto

lemma observe_starts:
  "starts (observe_event event s) as = concat (map queued_start (em_queue (es_monitor s))) @ queued_start event @ concat (map action_start as) \<or>
   starts (observe_event event s) as = starts s as"
  by (auto simp: observe_event_def try_send_embedded_monitor_event_def)

lemma io_keys:
  "keyed traces \<Longrightarrow> keyed (record_embedded_runtime_io now k input out traces)"
  "fst ` set (record_embedded_runtime_io now k input out traces) = fst ` set traces"
proof -
  show "keyed traces \<Longrightarrow> keyed (record_embedded_runtime_io now k input out traces)"
    by (auto simp: record_embedded_runtime_io_def split: option.split intro!: keyed_update dest: keyed_found)
  show "fst ` set (record_embedded_runtime_io now k input out traces) = fst ` set traces"
    using map_of_SomeD[of traces k] by (force simp: record_embedded_runtime_io_def fst_alist_update split: option.split)
qed

lemma observe_ends:
  assumes "ends_ok ended (concat (map queued_start (em_queue (es_monitor s))) @ queued_start event @ concat (map action_start as))
    (es_traces s)"
  shows "ends_ok ended (starts (observe_event event s) as) (es_traces (observe_event event s))"
  using observe_starts[of event s as] ends_ok_skipped[OF assms] assms by (auto simp: observe_event_def)

lemma expire_ends:
  assumes keyed: "keyed traces" and expire: "expire_embedded_runtime_traces now clock host m traces = (r, m', traces')"
  shows "keyed traces' \<and> known traces' \<subseteq> known traces \<and> end_is_last (case r of Inl _ \<Rightarrow> [] | Inr bs \<Rightarrow> bs) \<and>
    (\<forall>b \<in> set (case r of Inl _ \<Rightarrow> [] | Inr bs \<Rightarrow> bs). rt_trace_id b \<in> known traces - known traces')"
proof (cases "expired_traces now traces = [] \<or> (\<exists>e. clock = Inl e)")
  case True
  then have "(\<exists>e. r = Inl e) \<or> r = Inr []" "traces' = traces"
    using expire by (auto simp: expire_embedded_runtime_traces_def Let_def split: if_splits)
  then have "traces' = traces" "(case r of Inl _ \<Rightarrow> [] | Inr bs \<Rightarrow> bs) = []" by auto
  with keyed show ?thesis by simp
next
  case False
  then obtain ended where clock: "clock = Inr ended" by (cases clock) auto
  let ?each = "expire_each (expired_traces now traces) ended (\<lambda>tid. monitor_host_metrics (host tid) (m\<lparr>em_dropped := 0\<rparr>))
    (min (em_dropped m) MAX_TRACE_DROPPED_EVENTS) traces"
  from False expire clock have r: "r = Inr (fst ?each)" "traces' = snd ?each"
    by (auto simp: expire_embedded_runtime_traces_def take_dropped_events_def Let_def split: prod.splits)
  have "?each = (fst ?each, traces')" by (simp add: r(2))
  from expire_each_ends[OF keyed this] show ?thesis unfolding r(1) sum.case known_def by blast
qed

lemma receive_ends:
  assumes ok: "ends_ok ended (queued_start event @ later) traces"
    and command: "embedded_runtime_telemetry_command i e m traces = (batch, m', traces')" and event: "event = Lifecycle e"
    and bs: "bs = (case batch of None \<Rightarrow> [] | Some b \<Rightarrow> [b])"
  shows "ends_ok (ended \<union> closed_by bs) later traces' \<and> end_is_last bs \<and> (\<forall>b \<in> set bs. rt_trace_id b \<notin> ended)"
proof -
  have keyed: "keyed traces" using ok by (simp add: ends_ok_def)
  note ends = telemetry_command_ends[OF keyed command, folded known_def]
  show ?thesis
  proof (cases "\<exists>x. e = runtime_monitor_event.InvocationStarted x")
    case True
    then obtain x where e: "e = runtime_monitor_event.InvocationStarted x" by blast
    then have start: "ends_ok ended (event_trace e # later) traces" using ok event by simp
    have "closed_by bs = {}" using command e bs
      by (auto simp: invocation_started_def monitor_defs split: option.splits)
    moreover have "event_trace e \<notin> ended" using start by (simp add: ends_ok_def)
    then have "\<forall>b \<in> set bs. rt_trace_id b \<notin> ended" using ends(4) bs by (cases batch) auto
    ultimately show ?thesis
      using ends_ok_started[of ended "[]", simplified, OF start ends(1,2)] bs by (cases batch) auto
  next
    case False
    then have kept: "ends_ok ended later traces" using ok event by (cases e) auto
    note fewer = ends(3)[OF False]
    show ?thesis
    proof (cases batch)
      case None
      with kept ends(1) fewer show ?thesis using ends_ok_kept[OF kept] by (simp add: bs)
    next
      case (Some b)
      from ends(4)[OF this] False have b: "rt_trace_id b \<in> known traces"
        "rt_terminal b \<noteq> None \<Longrightarrow> rt_trace_id b \<notin> known traces'" by auto
      then have "closed_by bs \<subseteq> known traces - known traces'" by (auto simp: bs Some)
      from ends_ok_closed[OF kept ends(1) fewer this] b(1) kept show ?thesis
        unfolding ends_ok_def by (auto simp: bs Some)
    qed
  qed
qed

lemma step_ends:
  assumes ok: "ends_ok ended (starts s (a # as)) (es_traces s)" and step: "embedded_step c a s = (bs, s')"
  shows "ends_ok (ended \<union> closed_by bs) (starts s' as) (es_traces s') \<and> end_is_last bs \<and>
    (\<forall>b \<in> set bs. rt_trace_id b \<notin> ended)"
proof (cases a)
  case (Observes event)
  with step have s': "bs = []" "s' = observe_event (Lifecycle event) s" by simp_all
  from ok Observes have "ends_ok ended (starts s' as) (es_traces s')" unfolding s' by (intro observe_ends) simp
  then show ?thesis by (simp add: s'(1))
next
  case (ObservesIo event)
  with step have s': "bs = []" "s' = observe_event (root_summary c event) s" by simp_all
  have "queued_start (root_summary c event) = []" by (cases event) simp_all
  with ok ObservesIo have "ends_ok ended (starts s' as) (es_traces s')" unfolding s' by (intro observe_ends) simp
  then show ?thesis by (simp add: s'(1))
next
  case (Expires now clock host)
  obtain r m traces where expire: "expire_embedded_runtime_traces now clock host (es_monitor s) (es_traces s) = (r, m, traces)"
    by (metis prod_cases3)
  with step Expires have s': "bs = (case r of Inl _ \<Rightarrow> [] | Inr bs \<Rightarrow> bs)" "s' = s\<lparr>es_monitor := m, es_traces := traces\<rparr>"
    by simp_all
  have keyed: "keyed (es_traces s)" using ok by (simp add: ends_ok_def)
  note facts = expire_ends[OF keyed expire, folded s'(1)]
  then have "closed_by bs \<subseteq> known (es_traces s) - known traces" by (auto simp: closed_by_def)
  moreover have "starts s' as = starts s (a # as)" using expire_reported(1)[OF expire] Expires by (simp add: s')
  ultimately have "ends_ok (ended \<union> closed_by bs) (starts s' as) traces"
    using facts ok by (intro ends_ok_closed[where traces = "es_traces s"]) simp_all
  moreover have "\<forall>b \<in> set bs. rt_trace_id b \<notin> ended" using facts ok unfolding ends_ok_def by blast
  ultimately show ?thesis using facts by (simp add: s'(2))
next
  case (Receives i)
  show ?thesis
  proof (cases "em_queue (es_monitor s) = [] \<or> \<not> es_ready s")
    case True
    with step Receives have "bs = []" "s' = s" by (auto simp: receive_event_def split: list.splits)
    with ok Receives show ?thesis by simp
  next
    case False
    then obtain event rest where queue: "em_queue (es_monitor s) = event # rest" and ready: "es_ready s"
      by (auto simp: neq_Nil_conv)
    define later where "later = concat (map queued_start rest) @ concat (map action_start as)"
    have ok: "ends_ok ended (queued_start event @ later) (es_traces s)"
      using ok Receives queue by (simp add: later_def)
    have keyed: "keyed (es_traces s)" using ok by (simp add: ends_ok_def)
    have io: "ends_ok ended later (record_embedded_runtime_io now k input out (es_traces s))"
      if "queued_start event = []" for now k input out
    proof (rule ends_ok_kept)
      show "ends_ok ended later (es_traces s)" using ok that by simp
      show "keyed (record_embedded_runtime_io now k input out (es_traces s))" using keyed by (rule io_keys(1))
      show "known (record_embedded_runtime_io now k input out (es_traces s)) \<subseteq> known (es_traces s)"
        unfolding known_def io_keys(2) by (rule subset_refl)
    qed
    show ?thesis
    proof (cases event)
      case (Lifecycle e)
      let ?m = "(es_monitor s)\<lparr>em_queue := rest\<rparr>"
      obtain batch m traces where command: "embedded_runtime_telemetry_command i e ?m (es_traces s) = (batch, m, traces)"
        by (metis prod_cases3)
      with step Receives queue ready Lifecycle have s': "bs = (case batch of None \<Rightarrow> [] | Some b \<Rightarrow> [b])"
        "es_traces s' = traces" "em_queue (es_monitor s') = rest"
        using telemetry_command_counts(1)[OF command] by (auto simp: receive_event_def)
      from receive_ends[OF ok command Lifecycle s'(1)] show ?thesis by (simp add: s' later_def)
    next
      case (SummaryInput k summary)
      with step Receives queue ready have "bs = []" "em_queue (es_monitor s') = rest"
        "es_traces s' = record_embedded_runtime_io (ri_now i) k (Some summary) None (es_traces s)"
        by (auto simp: receive_event_def Let_def)
      with io SummaryInput show ?thesis by (simp add: later_def)
    next
      case (SummaryOutput k summary)
      with step Receives queue ready have "bs = []" "em_queue (es_monitor s') = rest"
        "es_traces s' = record_embedded_runtime_io (ri_now i) k None (Some summary) (es_traces s)"
        by (auto simp: receive_event_def Let_def)
      with io SummaryOutput show ?thesis by (simp add: later_def)
    qed
  qed
next
  case Reconnects
  with step have s': "bs = []" "starts s' as = starts s (a # as)" "es_traces s' = []" by auto
  have "ends_ok ended (starts s (a # as)) []"
    using ok by (rule ends_ok_kept) (simp_all add: keyed_def known_def)
  then show ?thesis by (simp add: s')
qed (use ok step in auto)

lemma run_ends:
  "ends_ok ended (starts s as) (es_traces s) \<Longrightarrow> end_is_last (fst (embedded_run c as s)) \<and>
     (\<forall>b \<in> set (fst (embedded_run c as s)). rt_trace_id b \<notin> ended)"
proof (induction as arbitrary: ended s)
  case (Cons a as)
  obtain bs s' where step: "embedded_step c a s = (bs, s')" by fastforce
  obtain bs' s'' where run: "embedded_run c as s' = (bs', s'')" by fastforce
  from step_ends[OF Cons.prems step] have step_ok: "ends_ok (ended \<union> closed_by bs) (starts s' as) (es_traces s')" "end_is_last bs"
    "\<forall>b \<in> set bs. rt_trace_id b \<notin> ended" by simp_all
  from Cons.IH[OF step_ok(1)] have "end_is_last bs'" "\<forall>b \<in> set bs'. rt_trace_id b \<notin> ended \<union> closed_by bs"
    by (simp_all add: run)
  with step_ok end_is_last_append[of bs bs'] show ?case by (auto simp: step run)
qed simp

section \<open>Properties\<close>

lemma step_queue:
  "length (em_queue (es_monitor s)) \<le> 256 \<Longrightarrow> length (em_queue (es_monitor (snd (embedded_step c a s)))) \<le> 256"
proof (cases a)
  case (Receives i)
  assume queue: "length (em_queue (es_monitor s)) \<le> 256"
  show ?thesis
  proof (cases "em_queue (es_monitor s)")
    case (Cons event rest)
    have "em_queue (fst (snd (embedded_runtime_telemetry_command i e m traces))) = em_queue m" for e m traces
      by (metis prod.collapse telemetry_command_counts(1))
    with queue Cons Receives show ?thesis
      by (auto simp: receive_event_def Let_def split_beta split: embedded_event.split)
  qed (use queue Receives in \<open>simp add: receive_event_def\<close>)
next
  case (Expires now clock host)
  assume "length (em_queue (es_monitor s)) \<le> 256"
  moreover have "em_queue (fst (snd (expire_embedded_runtime_traces now clock host m traces))) = em_queue m" for m traces
    by (metis prod.collapse expire_reported(1))
  ultimately show ?thesis using Expires by (simp add: split_beta)
qed (auto simp: observe_event_def try_send_embedded_monitor_event_def EMBEDDED_MONITOR_QUEUE_CAPACITY_def)

lemma run_queue:
  "length (em_queue (es_monitor s)) \<le> 256 \<Longrightarrow> length (em_queue (es_monitor (snd (embedded_run c as s)))) \<le> 256"
proof (induction as arbitrary: s)
  case (Cons a as)
  then show ?case using step_queue[of s c a] by (simp add: split_beta)
qed simp

text \<open>C34: No event of the runtime disappears without a trace. As long as at most 10000 events were observed,
  each one was taken by the connection's loop, or waits in the queue of at most 256 events, or is in the count of
  dropped events, which the next batch takes with it and resets.\<close>

theorem observed_events_accounted:
  assumes "embedded_run c as embedded_start = (bs, s)" and "es_observed s \<le> 10000"
  shows "es_observed s = es_received s + length (em_queue (es_monitor s)) + unat (em_dropped (es_monitor s)) +
      sum_list (map (\<lambda>b. unat (rt_dropped_events b)) bs) \<and>
    length (em_queue (es_monitor s)) \<le> 256"
proof -
  have "balanced 0 embedded_start" by (simp add: balanced_def embedded_start_def monitor_new_def)
  from run_balanced[OF this, of c as] run_queue[of embedded_start c as] assms show ?thesis
    by (simp add: balanced_def) (simp add: embedded_start_def monitor_new_def)
qed

definition sample_started :: monitor_started where
  "sample_started = \<lparr>ms_trace_id = ''trace'', ms_invocation_id = ''call'', ms_project_id = ''shop'', ms_endpoint = ''hello'',
     ms_agent_id = ''agent'', ms_provider_id = ''local'', ms_capability = ''chat'', ms_started_at_ms = 1000\<rparr>"

definition sample_finished :: monitor_finished where
  "sample_finished = \<lparr>mf_trace_id = ''trace'', mf_invocation_id = ''call'', mf_status = MonitorCompleted,
     mf_duration_ms = 5, mf_ended_at_ms = 1005, mf_error = None\<rparr>"

definition sample_receive :: "nat \<Rightarrow> receive_input" where
  "sample_receive now = \<lparr>ri_now = now, ri_fresh = 7, ri_host = None, ri_models = None\<rparr>"

definition sample_life :: "embedded_action list" where
  "sample_life = [Deployed 1 ''shop'', MonitoringReady, Observes (runtime_monitor_event.InvocationStarted sample_started),
     Receives (sample_receive 1), Observes (InvocationFinished sample_finished), Receives (sample_receive 2),
     Observes (InvocationFinished sample_finished)]"

lemmas sample_monitor_defs = sample_life_def sample_started_def sample_finished_def sample_receive_def embedded_start_def
  monitor_new_def observe_event_def try_send_embedded_monitor_event_def EMBEDDED_MONITOR_QUEUE_CAPACITY_def
  receive_event_def invocation_started_def invocation_finished_def take_dropped_events_def trace_batch_def
  monitor_host_metrics_def

theorem observed_events_accounted_witness:
  "es_observed (snd (embedded_run Trace_Io.sample_codec sample_life embedded_start)) = 3 \<and>
   es_received (snd (embedded_run Trace_Io.sample_codec sample_life embedded_start)) +
     length (em_queue (es_monitor (snd (embedded_run Trace_Io.sample_codec sample_life embedded_start)))) +
     unat (em_dropped (es_monitor (snd (embedded_run Trace_Io.sample_codec sample_life embedded_start)))) +
     sum_list (map (\<lambda>b. unat (rt_dropped_events b))
       (fst (embedded_run Trace_Io.sample_codec sample_life embedded_start))) = 3"
proof -
  have three: "es_observed (snd (embedded_run Trace_Io.sample_codec sample_life embedded_start)) = 3"
    by (simp add: sample_monitor_defs)
  then show ?thesis
    using observed_events_accounted[OF prod.collapse[symmetric], of Trace_Io.sample_codec sample_life] by simp
qed

text \<open>C35: The last batch of an invocation is the last one: when each started invocation has a trace identifier
  of its own, no batch of a trace follows its terminal batch, whether the invocation ended by itself or because
  nothing was heard of it for 150 seconds, and across lost connections.\<close>

theorem nothing_follows_the_end:
  assumes "distinct (concat (map action_start as))"
  shows "sorted_wrt (\<lambda>a b. rt_terminal a \<noteq> None \<longrightarrow> rt_trace_id a \<noteq> rt_trace_id b)
    (fst (embedded_run c as embedded_start))"
proof -
  have "ends_ok {} (starts embedded_start as) (es_traces embedded_start)"
    using assms by (simp add: ends_ok_def embedded_start_def monitor_new_def keyed_def known_def)
  from run_ends[OF this] show ?thesis by blast
qed

theorem nothing_follows_the_end_witness:
  "map rt_terminal (fst (embedded_run Trace_Io.sample_codec sample_life embedded_start)) =
     [None, Some \<lparr>terminal_status = TerminalCompleted, terminal_duration_ms = 5, terminal_ended_at_ms = 1005,
        terminal_error = None\<rparr>] \<and>
   sorted_wrt (\<lambda>a b. rt_terminal a \<noteq> None \<longrightarrow> rt_trace_id a \<noteq> rt_trace_id b)
     (fst (embedded_run Trace_Io.sample_codec sample_life embedded_start))"
proof
  show "map rt_terminal (fst (embedded_run Trace_Io.sample_codec sample_life embedded_start)) =
     [None, Some \<lparr>terminal_status = TerminalCompleted, terminal_duration_ms = 5, terminal_ended_at_ms = 1005,
        terminal_error = None\<rparr>]"
    by (simp add: sample_monitor_defs)
  show "sorted_wrt (\<lambda>a b. rt_terminal a \<noteq> None \<longrightarrow> rt_trace_id a \<noteq> rt_trace_id b)
     (fst (embedded_run Trace_Io.sample_codec sample_life embedded_start))"
    by (rule nothing_follows_the_end) (simp add: sample_life_def)
qed

text \<open>An input of more than 128 KiB costs the connection. The runtime's summary of it is an object that says so
  with a true field \<open>truncated\<close>; the observer summarises that object once more and loses the flag beside it, so the
  batch that carries the summary is refused before it is sent, and the loop ends with that error.\<close>

lemma shape_object_refused:
  assumes "print_json c (shape_summary val) = Inr text" and "length text \<le> MAX_TRACE_IO_SUMMARY_BYTES"
  shows "validate_trace_io_summary c (name, Some (canonical_trace_io_summary c (shape_summary val))) \<noteq> Inr ()"
proof -
  have "prints_within c (shape_summary val)" using assms by (auto simp: prints_within_def)
  moreover have "snd (redact_trace_io_value c (shape_summary val) 0 None) = False"
    by (simp add: redact_object has_binary_marker_def object_output_def redacted_fields_def
        redacted_field_def MAX_TRACE_IO_ITEMS_def MAX_TRACE_IO_DEPTH_def shape_string_fixed shape_summary_def)
  ultimately have "canonical_trace_io_summary c (shape_summary val) =
      \<lparr>trace_io_summary.summary_value = shape_summary val, summary_truncated = False\<rparr>"
    by (simp add: canonical_cases shape_summary_fixed)
  then show ?thesis
    by (simp add: effective_truncated_def shape_summary_def as_bool_def and_then_eq_Inr ensure_def)
qed

lemma monitor_value_shape_same: "monitor_value_shape val = trace_value_shape val"
  by (cases val) simp_all

theorem large_input_breaks_connection:
  assumes "embedded_step c (ObservesIo (MonitorInput tid call (runtime_monitor_io_summary v (Json val)))) s = (bs, s')"
    and large: "encode_value v val = Inr encoded" "MAX_RUNTIME_MONITOR_IO_BYTES < length encoded"
    and small: "print_json c (shape_summary val) = Inr text" "length text \<le> MAX_TRACE_IO_SUMMARY_BYTES"
    and empty: "em_queue (es_monitor s) = []" and ready: "es_ready s" and started: "map_of (es_traces s) tid = Some t"
    and finished: "mf_trace_id f = tid"
  shows "\<exists>b. fst (embedded_run c [Receives i, Observes (InvocationFinished f), Receives j] s') = [b] \<and>
    validate_runtime_telemetry_batch c b \<noteq> Inr ()"
proof -
  let ?summary = "canonical_trace_io_summary c (shape_summary val)"
  have "root_summary c (MonitorInput tid call (runtime_monitor_io_summary v (Json val))) = SummaryInput tid ?summary"
    using large by (simp add: shape_summary_def monitor_value_shape_same)
  with assms(1) empty have s': "s' = observe_event (SummaryInput tid ?summary) s" "em_queue (es_monitor s') = [SummaryInput tid ?summary]"
    by (auto simp: observe_event_def try_send_embedded_monitor_event_def EMBEDDED_MONITOR_QUEUE_CAPACITY_def)
  let ?b = "fst (trace_batch [] (min (em_dropped (es_monitor s)) MAX_TRACE_DROPPED_EVENTS)
    (monitor_host_metrics (ri_host j) (es_monitor s))
    (Some \<lparr>terminal_status = terminal_status_of (mf_status f), terminal_duration_ms = mf_duration_ms f,
       terminal_ended_at_ms = mf_ended_at_ms f, terminal_error = map_option safe_observer_error (mf_error f)\<rparr>)
    (t\<lparr>mt_last_event_at := ri_now i, mt_input := Some ?summary\<rparr>))"
  have "fst (embedded_run c [Receives i, Observes (InvocationFinished f), Receives j] s') = [?b]"
    using ready started finished empty unfolding s'(1)
    by (simp add: observe_event_def try_send_embedded_monitor_event_def EMBEDDED_MONITOR_QUEUE_CAPACITY_def
        receive_event_def record_embedded_runtime_io_def invocation_finished_def monitor_defs monitor_host_metrics_def
        update_conv)
  moreover have "validate_runtime_telemetry_batch c ?b \<noteq> Inr ()"
    using shape_object_refused[OF small]
    by (simp add: validate_runtime_telemetry_batch_def and_then_eq_Inr validate_trace_io_summaries_def)
  ultimately show ?thesis by blast
qed

text \<open>A name the runtime accepts can be too short for the telemetry: the runtime's own identifiers have at least one
  byte, those of the protocol at least three. The first batch of an invocation of such an endpoint is refused.\<close>

theorem short_endpoint_breaks_connection:
  assumes "invocation_started i e m traces = (Some b, m', traces')" and "ms_endpoint e = ''hi''"
  shows "validate_identifier kind (ms_endpoint e) = Inr () \<and> validate_runtime_telemetry_batch c b \<noteq> Inr ()"
proof
  show "validate_identifier kind (ms_endpoint e) = Inr ()"
    using assms(2) by (simp add: validate_identifier_def) (code_simp)?
  have "rt_endpoint b = ''hi''"
    using assms by (auto simp: invocation_started_def monitor_defs split: option.splits)
  then show "validate_runtime_telemetry_batch c b \<noteq> Inr ()"
    using telemetry_validation_exact[of c b] by (simp add: protocol_identifier_def)
qed

end
