(* ===== verification/Spec2Isabelle.thy ===== *)
theory Spec2Isabelle
  imports Runtime_Properties Releases Cancellation_Token Redaction Bridge Relay_Hub Comparison_Upload Gateway_Protocol
    Sqlite_Store Gateway_Admission Gateway_Socket Gateway_Calls Runtime_Sync Embedded_Monitor
begin

text \<open>
  A verification development for Vifu, a runtime for agents: applications register providers,
  agents and endpoints with a runtime, invoke endpoints, and keep the state of their sessions;
  a server relays invocations to agents behind remote gateways.

  \<^bold>\<open>Theories and source files.\<close>

  \<^item> \<open>Prelude\<close> and \<open>Json\<close>: results, 64-bit counters, byte strings, association lists, sorting, and
    \<open>serde_json\<close> values. Strings are lists of bytes in UTF-8.
  \<^item> \<open>Runtime_Kernel\<close>: \<open>crates/vifu-runtime/src/runtime.rs\<close>, the headless runtime: queues of commands,
    events, effect requests and effect results around the systems of an application.
  \<^item> \<open>Runtime_Error\<close>: the errors of \<open>crates/vifu-runtime/src/application.rs\<close> and their texts.
  \<^item> \<open>Manifest\<close>: \<open>crates/vifu-runtime/src/manifest.rs\<close>, manifests, releases and trace records.
  \<^item> \<open>Runtime_Store\<close>: the trait \<open>RuntimeStore\<close> of \<open>application.rs\<close> as a record of operations with
    locales for their laws (partial ones for stores that may refuse a call), and \<open>MemoryRuntimeStore\<close>
    as their interpretation.
  \<^item> \<open>Sqlite_Store\<close>: \<open>crates/vifu-runtime/src/sqlite_store.rs\<close>, the second interpretation: the tables of an
    embedded database as rows with their keys, and the host state kept beside them.
  \<^item> \<open>Invocations\<close>, \<open>Invocation_Runs\<close>: the registry of background invocations of \<open>application.rs\<close>, and
    every history of its operations.
  \<^item> \<open>Application\<close>, \<open>Releases\<close>: the synchronous operations of \<open>VifuRuntime\<close> in \<open>application.rs\<close>:
    registration, manifests, releases, snapshots, effects and monitors.
  \<^item> \<open>Invoke\<close>, \<open>Invoke_Runs\<close>, \<open>Runtime_Properties\<close>: the asynchronous engine of \<open>application.rs\<close>
    (\<open>RuntimeCore::invoke\<close>, \<open>RuntimeWorker\<close>, \<open>RuntimeSession\<close>). One step of a task runs from one await
    point to the next; the step relation interleaves the tasks with the calls of the host, and the
    histories of \<open>Runtime_Properties\<close> add the restores of snapshots.
  \<^item> \<open>Cancellation_Token\<close>: \<open>CancellationToken\<close> of \<open>application.rs\<close>, one atomic access per step.
  \<^item> \<open>Protocol\<close>, \<open>Bridge\<close>: \<open>crates/vifu-runtime/src/protocol.rs\<close> and \<open>bridge.rs\<close>, the frames between a
    host and an embedded runtime and the bridge that answers them, over an interface of the runtime.
  \<^item> \<open>Redaction\<close>: \<open>crates/vifu-server/src/trace_redaction.rs\<close>.
  \<^item> \<open>Relay_Hub\<close>: \<open>crates/vifu-server/src/relay.rs\<close>, the server's hub of gateway connections: calls
    waiting in a \<open>select!\<close>, reports of the gateways, cancellation and loss of connections, as
    atomic steps.
  \<^item> \<open>Btree\<close>, \<open>Route_Planner\<close>, \<open>Comparison_Upload\<close>: ordered maps, and
    \<open>crates/vifu-gateway/src/optimization.rs\<close>: the index of measured candidates, the generated route
    combinations, the route overrides of a session, and the comparison reports.
  \<^item> \<open>Serde\<close>, \<open>Trace_Io\<close>, \<open>Gateway_Telemetry\<close>, \<open>Gateway_Protocol\<close>: \<open>crates/vifu-gateway/src/protocol.rs\<close> and
    \<open>gateway_frame.rs\<close>: the shapes of structs in JSON, the redacted summaries of inputs and outputs, the
    telemetry of a gateway, and the commands between gateway and server with their checks, frames and
    the signed text of a hello.
  \<^item> \<open>Api_Error\<close>, \<open>Server_Auth\<close>: \<open>error.rs\<close> and \<open>auth.rs\<close> of \<open>crates/vifu-server/src\<close>: the errors of the server
    with their answers, operations and identities, deployment credentials, hashed and sealed secrets.
  \<^item> \<open>Gateway_Registry\<close>, \<open>Gateway_Admission\<close>: the tables of machines, device tokens, pairings, enrollments
    and distributions in \<open>db/sqlite.rs\<close>, one transaction per function, what the claim of a guest project
    changes in them, and the decision of \<open>websocket.rs\<close>
    whether a machine may connect, a sequence of such transactions between which others commit.
  \<^item> \<open>Server_Monitor\<close>, \<open>Gateway_Socket\<close>: \<open>monitor.rs\<close>, its hub and clients, and \<open>run_socket\<close> of \<open>websocket.rs\<close>, the
    task of one connection, which drives the relay hub, the monitor and the sessions of the database; when
    it ends, leaving the hub, the database and the monitors are three steps, with those of others between.
  \<^item> \<open>Gateway_Recorder\<close>, \<open>Telemetry_Backlog\<close>, \<open>Gateway_Calls\<close>: \<open>crates/vifu-gateway/src/relay.rs\<close>, the other end
    of the connection: what a gateway records of an invocation (\<open>InvocationTelemetry\<close>), the upload of those
    records with its bounded backlog and its flusher, and the loop of \<open>run_connection\<close> with the tasks of its
    calls, all interleaved.
  \<^item> \<open>Runtime_Sync\<close>: \<open>sync_runtime_state\<close> of the same file with the requests of \<open>control.rs\<close>: releases come from the
    server into the gateway's database and the embedded runtime, traces go from its outbox to the server.
  \<^item> \<open>Embedded_Monitor\<close>: the observers of \<open>embedded.rs\<close> with their bounded queue, and the functions and branches of
    \<open>relay.rs\<close> that turn the events of an embedded runtime into telemetry.

  \<^bold>\<open>What is shown.\<close> The kernel delivers in order and counts revisions. Validation of manifests and
  releases is equal to a declarative predicate. The store keeps releases immutable and the active
  release loadable, and this carries over to the runtime's activation and bootstrap. The registry
  stays bounded, terminal states are final and events are drained in order. Sessions are updated by
  one invocation at a time and no update is lost, also after restores made while no invocation is with
  its provider; a cancelled invocation persists nothing; no
  invocation is forgotten, and one that waits for its session can proceed. The database answers
  like the in-memory store and its outbox keeps the newest traces. Frames and manifests round-trip. Redaction removes credentials, is idempotent and keeps the rest. In the hub only the
  report for the right request, connection and channel answers a call, answers are final, and a
  lost connection leaves no call waiting: each is answered. Generated route combinations are bounded, distinct and made of
  measured candidates, the fastest one is optimal, and undoing an activation restores the routes before
  it. Commands arrive as they were sent and are accepted exactly when valid; the checks of telemetry and
  of comparison reports equal declarative predicates; summaries are free of credentials, bounded, and,
  where nothing was cut, accepted by their receiver. A request is
  authorized only by the admin key or by a credential of this deployment that grants its operation. A
  machine without approval needs a current device token of its gateway; a revoked gateway stays out, an
  enrollment admits one gateway and a distribution keeps its limit in every history. A connection the
  hub routes to belongs to a task that runs or was aborted, and a silent gateway is removed. Monitors
  catch up and see only their scope. A gateway answers an invocation at most once and a cancelled one never,
  no call is stuck and no two live calls share a request; what it records of a call is telemetry the server
  accepts, when names, times, token counts, errors and summaries are in their bounds, no batch of it disappears uncounted, and its flusher is always there when it is needed and
  ends. A release of the server always finds a place in an embedded runtime, keeps the agents the runtime runs in
  Python, and is installed once; traces leave the outbox only when they were acknowledged. Events of an
  embedded runtime are sent, waiting or counted, and nothing follows the end of an invocation. Some theorems state flaws the model showed: connections that stay
  registered after a failed send, a disconnect published too late, a revocation that is undone or not
  delivered, an assignment kept by a refused admission, a terminal
  event the bridge can lose, a wake-up the token can lose, a restore that a running invocation
  overwrites or that fails half-way, an activation that fails in the store after the runtime has changed, a
  state nested too deep to be read again, a release the database refuses under a new version, a marker that escapes redaction, an entry of the hub that nobody
  removes, calls that run on after their connection broke, an output that breaks it, telemetry lost to an abort,
  an old token or a long error, a release refused because runtime and gateway share a database, metadata that
  cannot be removed, a large input or a short name that breaks the connection of an embedded runtime, and summaries that their own receiver refuses.

  \<^bold>\<open>Parameters and bounds.\<close> Code outside the repository is a parameter: the JSON text codec, SHA-256
  and base64, as records of functions, the texts of UUIDs, the unstable sort, the providers, the clock and the scheduler. Where a text must be
  read back, the hypothesis is what \<open>serde_json\<close> guarantees: the parser reads from their own text values that
  nest at most 127 levels deep (its recursion limit is 128), have no floats (\<open>float_roundtrip\<close> is off) and no
  repeated keys (\<open>json_exact\<close>); theorems that need it ask for such values. Floats are
  their bits. Counters are 64-bit words that saturate as in
  the code; numbers of channels and calls of the hub are unbounded names. Recursive functions over
  JSON values are structural, and the loops that remove entries or characters have termination
  proofs, so nothing runs out of fuel.

  \<^bold>\<open>Not modelled.\<close> Poisoned locks and failures to spawn threads; the variants for WebAssembly; the
  \<open>Debug\<close> output of the data; the providers' network code, the HTTP handlers and the other tables of
  the server, the handshake and the reconnects of the gateway client, its observers and captures, the terminal interface and the foreign-function bindings, which are mostly input
  and output around libraries the repository does not contain.
\<close>

end
